(* ===== verification/Prelude.thy ===== *)
theory Prelude
  imports Main "HOL-Library.Word"
begin

text \<open>
  Shared vocabulary of the development: bytes and fixed-width integers as the Go runtime has
  them, the readers of \<open>encoding/binary\<close> and \<open>io\<close>, time values, an explicit store of
  \<open>sync/atomic\<close> cells, and the two small interfaces that several components implement
  (a decoder driven in a loop, and a record whose status leaves "pending" at most once).
\<close>

named_theorems wire_simps "encoding and decoding of fixed-width integers and frames"
named_theorems store_simps "row-level operations on tables"

section \<open>Machine integers\<close>

type_synonym byte = "8 word"
type_synonym bytes = "8 word list"
type_synonym u16 = "16 word"
type_synonym u32 = "32 word"
type_synonym u64 = "64 word"

text \<open>A row identifier (\<open>github.com/google/uuid\<close>): sixteen bytes of which the program only
  uses equality and the distinguished \<open>uuid.Nil\<close>.\<close>

type_synonym uuid = "128 word"

abbreviation uuid_Nil :: uuid where "uuid_Nil \<equiv> 0"

text \<open>Two's complement wrap-around of an \<open>int64\<close> computation.\<close>

definition wrap_i64 :: "int \<Rightarrow> int" where
  "wrap_i64 x = (x + 2 ^ 63) mod 2 ^ 64 - 2 ^ 63"

definition in_i64 :: "int \<Rightarrow> bool" where
  "in_i64 x \<longleftrightarrow> - (2 ^ 63) \<le> x \<and> x < 2 ^ 63"

lemma wrap_i64_id [simp]: "in_i64 x \<Longrightarrow> wrap_i64 x = x"
  by (simp add: wrap_i64_def in_i64_def)

lemma in_i64_wrap [simp]: "in_i64 (wrap_i64 x)"
  by (simp add: wrap_i64_def in_i64_def)

lemma wrap_i64_add [simp]:
  "wrap_i64 (wrap_i64 a + b) = wrap_i64 (a + b)" "wrap_i64 (a + wrap_i64 b) = wrap_i64 (a + b)"
  "wrap_i64 (wrap_i64 a - b) = wrap_i64 (a - b)" "wrap_i64 (a - wrap_i64 b) = wrap_i64 (a - b)"
  unfolding wrap_i64_def by (rule arg_cong [where f = "\<lambda>x. x - 2 ^ 63"]; simp add: mod_simps algebra_simps)+

lemma wrap_i64_zero [simp]: "wrap_i64 0 = 0"
  by (simp add: wrap_i64_def)

section \<open>Time\<close>

text \<open>
  A \<open>time.Time\<close> is an instant, in nanoseconds since the Unix epoch; the zero value of the Go
  type is midnight of January 1 of year 1. A \<open>time.Duration\<close> is an \<open>int64\<close> of
  nanoseconds, and \<open>Time.Sub\<close> saturates at its bounds.
\<close>

type_synonym time = int
type_synonym duration = int

definition zero_time :: time where
  "zero_time = - 62135596800000000000"

definition IsZero :: "time \<Rightarrow> bool" where
  "IsZero t \<longleftrightarrow> t = zero_time"

definition seconds :: "int \<Rightarrow> duration" where
  "seconds n = n * 1000000000"

definition minute :: duration where
  "minute = 60000000000"

definition time_Sub :: "time \<Rightarrow> time \<Rightarrow> duration" where
  "time_Sub t u = max (- (2 ^ 63)) (min (2 ^ 63 - 1) (t - u))"

lemma time_Sub_less_iff:
  "- (2 ^ 63) < d \<Longrightarrow> d < 2 ^ 63 \<Longrightarrow> time_Sub t u < d \<longleftrightarrow> t - u < d"
  by (auto simp: time_Sub_def)

section \<open>Byte order\<close>

text \<open>\<open>binary.LittleEndian\<close> and \<open>binary.BigEndian\<close> on a natural number and a width.\<close>

fun le_enc :: "nat \<Rightarrow> nat \<Rightarrow> bytes" where
  "le_enc 0 v = []"
| "le_enc (Suc n) v = of_nat (v mod 256) # le_enc n (v div 256)"

fun le_dec :: "bytes \<Rightarrow> nat" where
  "le_dec [] = 0"
| "le_dec (b # bs) = unat b + 256 * le_dec bs"

definition be_enc :: "nat \<Rightarrow> nat \<Rightarrow> bytes" where
  "be_enc n v = rev (le_enc n v)"

definition be_dec :: "bytes \<Rightarrow> nat" where
  "be_dec bs = le_dec (rev bs)"

lemma length_le_enc [simp]: "length (le_enc n v) = n"
  by (induction n arbitrary: v) auto

lemma length_be_enc [simp]: "length (be_enc n v) = n"
  by (simp add: be_enc_def)

lemma unat_of_nat_byte [simp]: "unat (of_nat (v mod 256) :: byte) = v mod 256"
  by (simp add: unat_of_nat)

lemma le_dec_enc [simp]: "le_dec (le_enc n v) = v mod 256 ^ n"
  by (induction n arbitrary: v) (simp_all add: mod_mult2_eq)

lemma be_dec_enc [simp]: "be_dec (be_enc n v) = v mod 256 ^ n"
  by (simp add: be_dec_def be_enc_def)

lemma le_dec_bound: "le_dec bs < 256 ^ length bs"
proof (induction bs)
  case (Cons b bs)
  have "unat b < 256" using unsigned_less [where 'a = nat, of b] by simp
  with Cons show ?case by simp
qed simp

lemma be_dec_bound: "be_dec bs < 256 ^ length bs"
  using le_dec_bound [of "rev bs"] by (simp add: be_dec_def)

lemma le_enc_dec: "length bs = n \<Longrightarrow> le_enc n (le_dec bs) = bs"
proof (induction n arbitrary: bs)
  case (Suc n)
  then obtain b cs where "bs = b # cs" and "length cs = n" by (cases bs) auto
  moreover have "unat b < 256" using unsigned_less [where 'a = nat, of b] by simp
  ultimately show ?case using Suc.IH [of cs] by simp
qed simp

lemma be_enc_dec: "length bs = n \<Longrightarrow> be_enc n (be_dec bs) = bs"
  using le_enc_dec [of "rev bs" n] by (simp add: be_enc_def be_dec_def)

text \<open>The typed views the source uses. A read takes the first bytes of its slice, as the Go
  functions do; every use in the models is guarded by the length the source checks.\<close>

definition PutUint16_BE :: "u16 \<Rightarrow> bytes" where "PutUint16_BE w = be_enc 2 (unat w)"
definition PutUint32_BE :: "u32 \<Rightarrow> bytes" where "PutUint32_BE w = be_enc 4 (unat w)"
definition PutUint64_BE :: "u64 \<Rightarrow> bytes" where "PutUint64_BE w = be_enc 8 (unat w)"
definition PutUint32_LE :: "u32 \<Rightarrow> bytes" where "PutUint32_LE w = le_enc 4 (unat w)"

definition Uint16_BE :: "bytes \<Rightarrow> u16" where "Uint16_BE bs = of_nat (be_dec (take 2 bs))"
definition Uint32_BE :: "bytes \<Rightarrow> u32" where "Uint32_BE bs = of_nat (be_dec (take 4 bs))"
definition Uint64_BE :: "bytes \<Rightarrow> u64" where "Uint64_BE bs = of_nat (be_dec (take 8 bs))"
definition Uint32_LE :: "bytes \<Rightarrow> u32" where "Uint32_LE bs = of_nat (le_dec (take 4 bs))"

lemma length_Put [simp, wire_simps]:
  "length (PutUint16_BE w) = 2" "length (PutUint32_BE x) = 4"
  "length (PutUint64_BE y) = 8" "length (PutUint32_LE x) = 4"
  by (simp_all add: PutUint16_BE_def PutUint32_BE_def PutUint64_BE_def PutUint32_LE_def)

lemma unat_bounds:
  "unat (w :: u16) < 65536" "unat (x :: u32) < 4294967296"
  "unat (y :: u64) < 18446744073709551616" "unat (z :: byte) < 256"
  using unsigned_less [where 'a = nat, of w] unsigned_less [where 'a = nat, of x] unsigned_less [where 'a = nat, of y] unsigned_less [where 'a = nat, of z] by simp_all

lemma Uint_Put [simp, wire_simps]:
  "Uint16_BE (PutUint16_BE w @ r) = w" "Uint32_BE (PutUint32_BE x @ r) = x"
  "Uint64_BE (PutUint64_BE y @ r) = y" "Uint32_LE (PutUint32_LE x @ r) = x"
  using unat_bounds(1) [of w] unat_bounds(2) [of x] unat_bounds(3) [of y]
  by (simp_all add: Uint16_BE_def Uint32_BE_def Uint64_BE_def Uint32_LE_def
      PutUint16_BE_def PutUint32_BE_def PutUint64_BE_def PutUint32_LE_def)

lemma Uint_Put_Nil [simp, wire_simps]:
  "Uint16_BE (PutUint16_BE w) = w" "Uint32_BE (PutUint32_BE x) = x"
  "Uint64_BE (PutUint64_BE y) = y" "Uint32_LE (PutUint32_LE x) = x"
  using Uint_Put [where r = "[]"] by simp_all

lemma Put_Uint32_LE: "length bs = 4 \<Longrightarrow> PutUint32_LE (Uint32_LE bs) = bs"
  using le_dec_bound [of bs] le_enc_dec [of bs 4]
  by (simp add: PutUint32_LE_def Uint32_LE_def unat_of_nat)

lemma unat_of_nat_u32 [simp]: "n < 4294967296 \<Longrightarrow> unat (of_nat n :: u32) = n"
  by (simp add: unat_of_nat)

lemma unat_of_nat_u16 [simp]: "n < 65536 \<Longrightarrow> unat (of_nat n :: u16) = n"
  by (simp add: unat_of_nat)

section \<open>Reading\<close>

text \<open>
  \<open>io.ReadFull\<close> into a buffer of \<open>n\<close> bytes: nothing to read gives \<open>io.EOF\<close>, fewer
  bytes than asked for gives \<open>io.ErrUnexpectedEOF\<close>; asking for no bytes always succeeds.
\<close>

datatype read_error = EOF | UnexpectedEOF

definition ReadFull :: "nat \<Rightarrow> bytes \<Rightarrow> read_error + bytes \<times> bytes" where
  "ReadFull n s =
     (if n \<le> length s then Inr (take n s, drop n s)
      else if s = [] then Inl EOF else Inl UnexpectedEOF)"

lemma ReadFull_append [simp, wire_simps]:
  "length xs = n \<Longrightarrow> ReadFull n (xs @ ys) = Inr (xs, ys)"
  by (auto simp: ReadFull_def)

lemma ReadFull_exact [simp, wire_simps]: "length xs = n \<Longrightarrow> ReadFull n xs = Inr (xs, [])"
  using ReadFull_append [of xs n "[]"] by simp

lemma ReadFull_Inr:
  "ReadFull n s = Inr (xs, ys) \<longleftrightarrow> length xs = n \<and> s = xs @ ys"
  by (auto simp: ReadFull_def)

lemma ReadFull_EOF: "ReadFull n s = Inl EOF \<longleftrightarrow> s = [] \<and> 0 < n"
  by (auto simp: ReadFull_def)

lemma ReadFull_Unexpected:
  "ReadFull n s = Inl UnexpectedEOF \<longleftrightarrow> s \<noteq> [] \<and> length s < n"
  by (auto simp: ReadFull_def)

section \<open>Atomic cells\<close>

text \<open>
  \<open>*atomic.Int64\<close> and \<open>*atomic.Bool\<close> values are shared between the goroutines of a
  session, its limit guard and the revocation registry, so they live in an explicit store and
  the components hold their addresses.
\<close>

type_synonym addr = nat

record heap =
  ints :: "addr \<Rightarrow> int"
  bools :: "addr \<Rightarrow> bool"
  next_addr :: addr

text \<open>\<open>&atomic.Bool{}\<close> and \<open>&atomic.Int64{}\<close>: a fresh cell with the zero value.\<close>

definition NewBool :: "heap \<Rightarrow> addr \<times> heap" where
  "NewBool h = (next_addr h,
     h\<lparr>bools := (bools h)(next_addr h := False), next_addr := Suc (next_addr h)\<rparr>)"

definition NewInt :: "heap \<Rightarrow> addr \<times> heap" where
  "NewInt h = (next_addr h,
     h\<lparr>ints := (ints h)(next_addr h := 0), next_addr := Suc (next_addr h)\<rparr>)"

definition empty_heap :: heap where
  "empty_heap = \<lparr>ints = (\<lambda>_. 0), bools = (\<lambda>_. False), next_addr = 0\<rparr>"

definition LoadInt :: "heap \<Rightarrow> addr \<Rightarrow> int" where "LoadInt h a = ints h a"
definition LoadBool :: "heap \<Rightarrow> addr \<Rightarrow> bool" where "LoadBool h a = bools h a"

definition AddInt :: "heap \<Rightarrow> addr \<Rightarrow> int \<Rightarrow> heap" where
  "AddInt h a n = h\<lparr>ints := (ints h)(a := wrap_i64 (ints h a + n))\<rparr>"

definition StoreBool :: "heap \<Rightarrow> addr \<Rightarrow> bool \<Rightarrow> heap" where
  "StoreBool h a b = h\<lparr>bools := (bools h)(a := b)\<rparr>"

lemmas heap_simps [simp] = LoadInt_def LoadBool_def AddInt_def StoreBool_def

section \<open>A decoder driven in a loop\<close>

text \<open>
  Contract between a decoder of one item and the loop that drives it until the input is
  exhausted. The parsers of the MongoDB wire format are instances.
\<close>

locale looped_decoder =
  fixes enc :: "'a \<Rightarrow> bytes"
    and dec :: "bytes \<Rightarrow> 'e + 'a \<times> bytes"
    and loop :: "bytes \<Rightarrow> 'e + 'a list"
    and ok :: "'a \<Rightarrow> bool"
  assumes enc_nonempty: "ok x \<Longrightarrow> enc x \<noteq> []"
    and dec_enc: "ok x \<Longrightarrow> dec (enc x @ r) = Inr (x, r)"
    and loop_Nil: "loop [] = Inr []"
    and loop_step: "s \<noteq> [] \<Longrightarrow> loop s =
      (case dec s of Inl e \<Rightarrow> Inl e
       | Inr (x, r) \<Rightarrow> (case loop r of Inl e \<Rightarrow> Inl e | Inr xs \<Rightarrow> Inr (x # xs)))"
begin

lemma loop_append:
  "list_all ok xs \<Longrightarrow> loop (concat (map enc xs) @ r) =
     (case loop r of Inl e \<Rightarrow> Inl e | Inr ys \<Rightarrow> Inr (xs @ ys))"
proof (induction xs)
  case Nil
  then show ?case by (cases "loop r") auto
next
  case (Cons x xs)
  then have "enc x @ concat (map enc xs) @ r \<noteq> []" by (simp add: enc_nonempty)
  then show ?case using Cons
    by (cases "loop r") (simp_all add: loop_step [of "enc x @ concat (map enc xs) @ r"] dec_enc)
qed

lemma loop_concat: "list_all ok xs \<Longrightarrow> loop (concat (map enc xs)) = Inr xs"
  using loop_append [of xs "[]"] by (simp add: loop_Nil)

end

text \<open>A decoder that also accounts for every byte it consumes.\<close>

locale exact_decoder = looped_decoder +
  assumes dec_exact: "s \<noteq> [] \<Longrightarrow> dec s = Inr (x, r) \<Longrightarrow> ok x \<and> s = enc x @ r"
begin

lemma loop_exact: "loop s = Inr xs \<Longrightarrow> list_all ok xs \<and> s = concat (map enc xs)"
proof (induction "length s" arbitrary: s xs rule: less_induct)
  case less
  show ?case
  proof (cases "s = []")
    case True
    then show ?thesis using less.prems by (simp add: loop_Nil)
  next
    case False
    then obtain x r ys where d: "dec s = Inr (x, r)" "loop r = Inr ys" "xs = x # ys"
      using less.prems by (auto simp: loop_step [OF False] split: sum.splits prod.splits)
    have e: "ok x" "s = enc x @ r" using dec_exact [OF False d(1)] by auto
    then have "length r < length s" using enc_nonempty by auto
    from less.hyps [OF this d(2)] e d(3) show ?thesis by simp
  qed
qed

lemma loop_iff: "loop s = Inr xs \<longleftrightarrow> list_all ok xs \<and> s = concat (map enc xs)"
  using loop_exact loop_concat by auto

end

section \<open>A status that is decided at most once\<close>

text \<open>
  Contract of a stored item with a pending status: a step keeps every item that has been
  decided. Grant requests and device authorisations are instances.
\<close>

locale decided_once =
  fixes status :: "'st \<Rightarrow> 'k \<Rightarrow> 'v option"
    and pending :: "'v \<Rightarrow> bool"
    and step :: "'st \<Rightarrow> 'st \<Rightarrow> bool"
  assumes step_keeps_decided:
    "step s t \<Longrightarrow> status s k = Some v \<Longrightarrow> \<not> pending v \<Longrightarrow> status t k = Some v"
begin

lemma run_keeps_decided:
  "step\<^sup>*\<^sup>* s t \<Longrightarrow> status s k = Some v \<Longrightarrow> \<not> pending v \<Longrightarrow> status t k = Some v"
  by (induction rule: rtranclp_induct) (auto intro: step_keeps_decided)

end

section \<open>Generic list lemmas\<close>

lemma takeWhile_append_hd_not:
  "\<forall>x\<in>set xs. P x \<Longrightarrow> \<not> P y \<Longrightarrow> takeWhile P (xs @ y # ys) = xs"
  by (induction xs) auto

text \<open>Trimming the end of a list stops before a segment with nothing to trim.\<close>

lemma trim_end_append:
  assumes "xs \<noteq> []" and "\<forall>x\<in>set xs. \<not> P x"
  shows "rev (dropWhile P (rev (xs @ ys))) = xs @ rev (dropWhile P (rev ys))"
proof (cases "\<forall>y\<in>set ys. P y")
  case True
  have "dropWhile P (rev xs) = rev xs" using assms by (cases "rev xs") (auto simp: dropWhile_eq_self_iff)
  with True show ?thesis by (simp add: dropWhile_append)
next
  case False
  then show ?thesis by (auto simp: dropWhile_append1)
qed

lemma dropWhile_append_hd_not:
  "\<forall>x\<in>set xs. P x \<Longrightarrow> \<not> P y \<Longrightarrow> dropWhile P (xs @ y # ys) = y # ys"
  by (induction xs) auto

end
