(* ===== verification/Models.thy ===== *)
theory Models
  imports Prelude
begin

text \<open>
  The rows of \<open>internal/store/models.go\<close>: users, servers, grants, grant definitions, grant
  requests, connections, API keys and OAuth states, with their methods. A nil pointer is \<open>None\<close>; a nil and an
  empty slice are both the empty list, as every use in the program treats them alike.
\<close>

section \<open>Roles and controls\<close>

definition RoleAdmin :: string where "RoleAdmin = ''admin''"
definition RoleViewer :: string where "RoleViewer = ''viewer''"
definition RoleConnector :: string where "RoleConnector = ''connector''"

definition ControlReadOnly :: string where "ControlReadOnly = ''read_only''"
definition ControlBlockCopy :: string where "ControlBlockCopy = ''block_copy''"
definition ControlBlockDDL :: string where "ControlBlockDDL = ''block_ddl''"

definition ValidControls :: "string list" where
  "ValidControls = [ControlReadOnly, ControlBlockCopy, ControlBlockDDL]"

section \<open>Users\<close>

text \<open>Protocol material of a user: the shared O5LOGON salts and the SCRAM credentials.\<close>

record oracle_user_data =
  od_Salt6949 :: bytes
  od_Salt18453 :: bytes

record mongo_scram_credentials =
  ms_Salt :: bytes
  ms_Iterations :: int
  ms_StoredKey :: bytes
  ms_ServerKey :: bytes

record user_protocol_data =
  upd_Oracle :: "oracle_user_data option"
  upd_MongoDB :: "mongo_scram_credentials option option"

record user =
  usr_UID :: uuid
  usr_Username :: string
  usr_PasswordHash :: string
  usr_Roles :: "string list"
  usr_RateLimitExempt :: bool
  usr_PasswordChangedAt :: "time option"
  usr_CreatedAt :: time
  usr_UpdatedAt :: time
  usr_DeletedAt :: "time option"
  usr_ProtocolData :: "user_protocol_data option"

definition OracleData :: "user \<Rightarrow> oracle_user_data option" where
  "OracleData u = (case usr_ProtocolData u of None \<Rightarrow> None | Some p \<Rightarrow> upd_Oracle p)"

definition MongoData :: "user \<Rightarrow> mongo_scram_credentials option option" where
  "MongoData u = (case usr_ProtocolData u of None \<Rightarrow> None | Some p \<Rightarrow> upd_MongoDB p)"

definition MongoSCRAMCredentials :: "user \<Rightarrow> mongo_scram_credentials option" where
  "MongoSCRAMCredentials u = (case MongoData u of None \<Rightarrow> None | Some data \<Rightarrow> data)"

definition HasChangedPassword :: "user \<Rightarrow> bool" where
  "HasChangedPassword u \<longleftrightarrow> usr_PasswordChangedAt u \<noteq> None"

fun any_eq :: "'a list \<Rightarrow> 'a \<Rightarrow> bool" where
  "any_eq [] x = False"
| "any_eq (y # ys) x = (if y = x then True else any_eq ys x)"

lemma any_eq_iff [simp]: "any_eq xs x \<longleftrightarrow> x \<in> set xs"
  by (induction xs) auto

definition HasRole :: "user \<Rightarrow> string \<Rightarrow> bool" where
  "HasRole u role = any_eq (usr_Roles u) role"

definition IsAdmin :: "user \<Rightarrow> bool" where "IsAdmin u = HasRole u RoleAdmin"
definition IsViewer :: "user \<Rightarrow> bool" where "IsViewer u = HasRole u RoleViewer"
definition IsConnector :: "user \<Rightarrow> bool" where "IsConnector u = HasRole u RoleConnector"

section \<open>Servers\<close>

definition ProtocolPostgreSQL :: string where "ProtocolPostgreSQL = ''postgresql''"
definition ProtocolOracle :: string where "ProtocolOracle = ''oracle''"
definition ProtocolMySQL :: string where "ProtocolMySQL = ''mysql''"
definition ProtocolMariaDB :: string where "ProtocolMariaDB = ''mariadb''"
definition ProtocolMongoDB :: string where "ProtocolMongoDB = ''mongodb''"
definition ProtocolSSH :: string where "ProtocolSSH = ''ssh''"

definition IsMySQLFamily :: "string \<Rightarrow> bool" where
  "IsMySQLFamily protocol \<longleftrightarrow> protocol = ProtocolMySQL \<or> protocol = ProtocolMariaDB"

record ssh_server_data =
  sd_PrivateKeyEncrypted :: bytes
  sd_PassphraseEncrypted :: bytes
  sd_KnownHostKey :: string
  sd_PrivateKey :: string
  sd_Passphrase :: string

text \<open>\<open>ServerProtocolData\<close>; the MongoDB settings are one authentication source.\<close>

record server_protocol_data =
  sp_MongoDB :: "string option"
  sp_SSH :: "ssh_server_data option"

record server =
  srv_UID :: uuid
  srv_Name :: string
  srv_Description :: string
  srv_Host :: string
  srv_Port :: int
  srv_DatabaseName :: string
  srv_Username :: string
  srv_Password :: string
  srv_PasswordEncrypted :: bytes
  srv_SSLMode :: string
  srv_Protocol :: string
  srv_OracleServiceName :: "string option"
  srv_ViaUID :: "uuid option"
  srv_ProtocolData :: "server_protocol_data option"
  srv_Listable :: bool
  srv_CreatedBy :: "uuid option"
  srv_CreatedAt :: time
  srv_UpdatedAt :: time
  srv_DeletedAt :: "time option"

definition ServerMongoData :: "server \<Rightarrow> string option" where
  "ServerMongoData db = (case srv_ProtocolData db of None \<Rightarrow> None | Some d \<Rightarrow> sp_MongoDB d)"

definition SSHData :: "server \<Rightarrow> ssh_server_data option" where
  "SSHData db = (case srv_ProtocolData db of None \<Rightarrow> None | Some d \<Rightarrow> sp_SSH d)"

definition IsSSH :: "server \<Rightarrow> bool" where
  "IsSSH db \<longleftrightarrow> srv_Protocol db = ProtocolSSH"

section \<open>Connections and queries\<close>

record connection =
  con_UID :: uuid
  con_UserID :: uuid
  con_DatabaseID :: uuid
  con_SourceIP :: string
  con_ConnectedAt :: time
  con_LastActivityAt :: time
  con_DisconnectedAt :: "time option"
  con_Queries :: int
  con_BytesTransferred :: int

record query_parameters =
  qp_Values :: "string list"
  qp_Raw :: "string list"
  qp_FormatCodes :: "int list"
  qp_TypeOIDs :: "u32 list"

text \<open>A duration is a multiple of a microsecond in every use: \<open>DurationMs\<close> counts thousandths of a
  millisecond.\<close>

record query =
  qry_UID :: uuid
  qry_ConnectionID :: uuid
  qry_SQLText :: string
  qry_Parameters :: "query_parameters option"
  qry_ExecutedAt :: time
  qry_DurationMs :: "int option"
  qry_RowsAffected :: "int option"
  qry_Error :: "string option"
  qry_CopyFormat :: "string option"
  qry_CopyDirection :: "string option"

record query_row_model =
  qrm_UID :: uuid
  qrm_QueryID :: uuid
  qrm_RowNumber :: int
  qrm_RowData :: string
  qrm_RowSizeBytes :: int

section \<open>Access grants\<close>

record access_grant =
  ag_UID :: uuid
  ag_UserID :: uuid
  ag_DatabaseID :: uuid
  ag_Controls :: "string list"
  ag_GrantedBy :: uuid
  ag_StartsAt :: time
  ag_ExpiresAt :: time
  ag_RevokedAt :: "time option"
  ag_RevokedBy :: "uuid option"
  ag_MaxQueryCounts :: "int option"
  ag_MaxBytesTransferred :: "int option"
  ag_CreatedAt :: time
  ag_QueryCount :: int
  ag_BytesTransferred :: int

definition HasControl :: "access_grant \<Rightarrow> string \<Rightarrow> bool" where
  "HasControl g control = any_eq (ag_Controls g) control"

definition IsReadOnly :: "access_grant \<Rightarrow> bool" where
  "IsReadOnly g = HasControl g ControlReadOnly"

definition ShouldBlockCopy :: "access_grant \<Rightarrow> bool" where
  "ShouldBlockCopy g = HasControl g ControlBlockCopy"

definition ShouldBlockDDL :: "access_grant \<Rightarrow> bool" where
  "ShouldBlockDDL g = HasControl g ControlBlockDDL"

section \<open>Grant definitions\<close>

record grant_definition =
  gd_UID :: uuid
  gd_Name :: string
  gd_Description :: string
  gd_DurationSeconds :: int
  gd_Controls :: "string list"
  gd_MaxQueryCounts :: "int option"
  gd_MaxBytesTransferred :: "int option"
  gd_AutoApprove :: bool
  gd_GroupUIDs :: "uuid list"
  gd_DatabaseUIDs :: "uuid list"
  gd_IsActive :: bool
  gd_CreatedBy :: uuid
  gd_CreatedAt :: time

fun groups_meet :: "uuid list \<Rightarrow> uuid list \<Rightarrow> bool" where
  "groups_meet [] owned = False"
| "groups_meet (s # scoped) owned = (if any_eq owned s then True else groups_meet scoped owned)"

lemma groups_meet_iff: "groups_meet xs ys \<longleftrightarrow> set xs \<inter> set ys \<noteq> {}"
  by (induction xs) auto

definition AppliesToGroups :: "grant_definition \<Rightarrow> uuid list \<Rightarrow> bool" where
  "AppliesToGroups d userGroupUIDs =
     (if length (gd_GroupUIDs d) = 0 then True else groups_meet (gd_GroupUIDs d) userGroupUIDs)"

definition AppliesToDatabase :: "grant_definition \<Rightarrow> uuid \<Rightarrow> bool" where
  "AppliesToDatabase d databaseUID =
     (if length (gd_DatabaseUIDs d) = 0 then True else any_eq (gd_DatabaseUIDs d) databaseUID)"

definition AppliesTo :: "grant_definition \<Rightarrow> uuid list \<Rightarrow> uuid \<Rightarrow> bool" where
  "AppliesTo d userGroupUIDs databaseUID \<longleftrightarrow>
     AppliesToGroups d userGroupUIDs \<and> AppliesToDatabase d databaseUID"

section \<open>User groups\<close>

record user_group =
  ug_UID :: uuid
  ug_Name :: string
  ug_Description :: string
  ug_CreatedBy :: "uuid option"
  ug_CreatedAt :: time

section \<open>Grant requests\<close>

datatype GrantRequestStatus =
    GrantRequestPending
  | GrantRequestApproved
  | GrantRequestDenied
  | GrantRequestCancelled
  | GrantRequestExpired

record grant_request =
  gr_UID :: uuid
  gr_UserID :: uuid
  gr_GrantDefinitionID :: uuid
  gr_DatabaseID :: uuid
  gr_Justification :: string
  gr_Status :: GrantRequestStatus
  gr_RequestedAt :: time
  gr_DecidedAt :: "time option"
  gr_DecidedBy :: "uuid option"
  gr_DecisionReason :: "string option"
  gr_ResultingGrantID :: "uuid option"
  gr_SlackChannel :: "string option"
  gr_SlackMessageTS :: "string option"

section \<open>API keys\<close>

definition KeyTypeAPI :: string where "KeyTypeAPI = ''api''"
definition KeyTypeWeb :: string where "KeyTypeWeb = ''web''"

record oracle_key_data =
  okd_Salt6949 :: bytes
  okd_Verifier6949 :: bytes
  okd_Salt18453 :: bytes
  okd_Verifier18453 :: bytes
  okd_UserSalt :: bool

record api_key =
  ak_ID :: uuid
  ak_UserID :: uuid
  ak_Name :: string
  ak_KeyHash :: string
  ak_KeyPrefix :: string
  ak_KeyType :: string
  ak_ExpiresAt :: "time option"
  ak_LastUsedAt :: "time option"
  ak_RequestCount :: int
  ak_CreatedAt :: time
  ak_RevokedAt :: "time option"
  ak_RevokedBy :: "uuid option"
  ak_Oracle :: "oracle_key_data option"

definition IsExpired :: "time \<Rightarrow> api_key \<Rightarrow> bool" where
  "IsExpired now k = (case ak_ExpiresAt k of None \<Rightarrow> False | Some t \<Rightarrow> t < now)"

definition IsRevoked :: "api_key \<Rightarrow> bool" where
  "IsRevoked k \<longleftrightarrow> ak_RevokedAt k \<noteq> None"

definition IsValid :: "time \<Rightarrow> api_key \<Rightarrow> bool" where
  "IsValid now k \<longleftrightarrow> \<not> IsExpired now k \<and> \<not> IsRevoked k"

definition IsWebSession :: "api_key \<Rightarrow> bool" where
  "IsWebSession k \<longleftrightarrow> ak_KeyType k = KeyTypeWeb"

section \<open>Identities and OAuth states\<close>

record user_identity =
  ui_UID :: uuid
  ui_UserID :: uuid
  ui_Provider :: string
  ui_ProviderID :: string
  ui_Email :: string
  ui_DisplayName :: string
  ui_CreatedAt :: time
  ui_UpdatedAt :: time
  ui_DeletedAt :: "time option"

text \<open>The JSON metadata of a state is that of a device authorization, or absent.\<close>

record device_metadata =
  dm_ClientName :: string
  dm_UserCode :: string
  dm_Status :: string
  dm_UserID :: "uuid option"
  dm_EncryptedKey :: bytes
  dm_KeyPrefix :: string

record oauth_state =
  os_UID :: uuid
  os_State :: string
  os_Provider :: string
  os_RedirectURL :: string
  os_Metadata :: "device_metadata option"
  os_ExpiresAt :: time
  os_CreatedAt :: time

section \<open>Laws of the scopes and of key validity\<close>

lemma AppliesTo_iff:
  "AppliesTo d gs db \<longleftrightarrow>
     (gd_GroupUIDs d = [] \<or> set (gd_GroupUIDs d) \<inter> set gs \<noteq> {}) \<and>
     (gd_DatabaseUIDs d = [] \<or> db \<in> set (gd_DatabaseUIDs d))"
  by (auto simp: AppliesTo_def AppliesToGroups_def AppliesToDatabase_def groups_meet_iff)

lemma AppliesTo_mono: "AppliesTo d gs db \<Longrightarrow> set gs \<subseteq> set hs \<Longrightarrow> AppliesTo d hs db"
  by (auto simp: AppliesTo_iff)

text \<open>A definition scoped only to groups nobody belongs to (a deleted group) applies to nobody.\<close>

lemma AppliesTo_dangling:
  "gd_GroupUIDs d \<noteq> [] \<Longrightarrow> set (gd_GroupUIDs d) \<inter> set gs = {} \<Longrightarrow> \<not> AppliesTo d gs db"
  by (auto simp: AppliesTo_iff)

lemma IsValid_antimono: "IsValid t k \<Longrightarrow> s \<le> t \<Longrightarrow> IsValid s k"
  by (auto simp: IsValid_def IsExpired_def split: option.splits)

end
