(* ===== verification/Database.thy ===== *)
theory Database
  imports Models
begin

text \<open>
  The storage database of \<open>internal/store\<close> as a record of tables, and the way the store uses
  it. Every SQL statement takes the next entry of a script of faults: a faulty statement fails
  without any effect (the connection is lost, the server is restarting). A transaction whose
  body or commit fails leaves the tables as they were. Rows come in insertion order; where the
  source sorts by a timestamp, rows with equal timestamps keep that order, which no lemma uses.
  Row identifiers generated by the database are arguments of the operations that insert.
\<close>

datatype store_error =
    ErrDB
  | ErrNoActiveGrant
  | ErrGrantNotFound
  | ErrGrantAlreadyRevoked
  | ErrGrantRequestNotFound
  | ErrInvalidTransition
  | ErrDefinitionInactive
  | ErrGrantDefinitionNotFound
  | ErrGrantDefinitionDuplicate
  | ErrServerNotFound
  | ErrUserNotFound
  | ErrUserGroupNotFound
  | ErrUserGroupDuplicate
  | ErrUserNameConflict
  | ErrConnectionNotFound
  | ErrQueryNotFound
  | ErrInvalidCursor
  | ErrIdentityNotFound
  | ErrOAuthStateNotFound
  | ErrServerViaNotSSH
  | ErrServerViaCycle
  | ErrServerNameConflict
  | ErrTargetMatchesStorage
  | ErrAPIKeyNotFound
  | ErrAPIKeyRevoked
  | ErrAPIKeyExpired
  | ErrAPIKeyTooShort
  | ErrDeviceAuthNotFound
  | ErrDeviceAuthAlreadyResolved
  | ErrDeviceAuthUserCodeTaken
  | ErrCrypto

text \<open>A value of the JSON object of an audit event's details.\<close>

datatype detail = DUUID uuid | DStr string | DStrs "string list" | DTime time | DUUIDs "uuid list" | DNull | DObj "(string \<times> detail) list"

record audit_log =
  al_EventType :: string
  al_UserID :: "uuid option"
  al_PerformedBy :: "uuid option"
  al_Details :: "(string \<times> detail) list"
  al_CreatedAt :: time

record db =
  db_users :: "user list"
  db_servers :: "server list"
  db_grants :: "access_grant list"
  db_definitions :: "grant_definition list"
  db_requests :: "grant_request list"
  db_connections :: "connection list"
  db_queries :: "query list"
  db_groups :: "user_group list"
  db_members :: "(uuid \<times> uuid) list"
  db_audit :: "audit_log list"
  db_rows :: "query_row_model list"
  db_keys :: "api_key list"
  db_oauth :: "oauth_state list"
  db_identities :: "user_identity list"
  db_faults :: "bool list"

text \<open>One statement: whether it reaches the database.\<close>

definition stmt :: "db \<Rightarrow> bool \<times> db" where
  "stmt st = (case db_faults st of [] \<Rightarrow> (True, st) | f # fs \<Rightarrow> (\<not> f, st\<lparr>db_faults := fs\<rparr>))"

text \<open>A statement that reads: its value is computed from the tables.\<close>

definition read_stmt :: "(db \<Rightarrow> store_error + 'a) \<Rightarrow> db \<Rightarrow> (store_error + 'a) \<times> db" where
  "read_stmt f st = (let (ok, st1) = stmt st in if ok then (f st1, st1) else (Inl ErrDB, st1))"

text \<open>A statement that writes: it fails, by a fault or by a constraint, or changes the tables.\<close>

definition write_stmt :: "(db \<Rightarrow> store_error + 'a \<times> db) \<Rightarrow> db \<Rightarrow> (store_error + 'a) \<times> db" where
  "write_stmt f st =
     (let (ok, st1) = stmt st in
      if \<not> ok then (Inl ErrDB, st1)
      else case f st1 of Inl e \<Rightarrow> (Inl e, st1) | Inr (x, st2) \<Rightarrow> (Inr x, st2))"

text \<open>Sequencing: an error ends the operation.\<close>

definition and_then ::
  "(store_error + 'a) \<times> db \<Rightarrow> ('a \<Rightarrow> db \<Rightarrow> (store_error + 'b) \<times> db) \<Rightarrow> (store_error + 'b) \<times> db" where
  "and_then r k = (case r of (Inl e, st) \<Rightarrow> (Inl e, st) | (Inr x, st) \<Rightarrow> k x st)"

text \<open>\<open>RunInTx\<close>: begin, body, commit; any failure rolls back.\<close>

definition RunInTx :: "(db \<Rightarrow> (store_error + 'a) \<times> db) \<Rightarrow> db \<Rightarrow> (store_error + 'a) \<times> db" where
  "RunInTx body st =
     (let (ok, st1) = stmt st in
      if \<not> ok then (Inl ErrDB, st1)
      else case body st1 of
        (Inl e, st2) \<Rightarrow> (Inl e, st1\<lparr>db_faults := db_faults st2\<rparr>)
      | (Inr x, st2) \<Rightarrow>
          let (ok2, st3) = stmt st2 in
          if ok2 then (Inr x, st3) else (Inl ErrDB, st1\<lparr>db_faults := db_faults st3\<rparr>))"

definition update_where :: "('r \<Rightarrow> bool) \<Rightarrow> ('r \<Rightarrow> 'r) \<Rightarrow> 'r list \<Rightarrow> 'r list" where
  "update_where P f rows = map (\<lambda>r. if P r then f r else r) rows"

definition user_exists :: "db \<Rightarrow> uuid \<Rightarrow> bool" where
  "user_exists st u \<longleftrightarrow> u \<in> set (map usr_UID (db_users st))"

definition server_exists :: "db \<Rightarrow> uuid \<Rightarrow> bool" where
  "server_exists st d \<longleftrightarrow> d \<in> set (map srv_UID (db_servers st))"

section \<open>Shared lookups\<close>

text \<open>Soft-deleted rows stay in the table and are invisible to selects.\<close>

definition GetServerByUID :: "uuid \<Rightarrow> db \<Rightarrow> (store_error + server) \<times> db" where
  "GetServerByUID uid =
     read_stmt (\<lambda>st. case find (\<lambda>s. srv_UID s = uid \<and> srv_DeletedAt s = None) (db_servers st) of
        None \<Rightarrow> Inl ErrServerNotFound | Some s \<Rightarrow> Inr s)"

definition GetUserByUID :: "uuid \<Rightarrow> db \<Rightarrow> (store_error + user) \<times> db" where
  "GetUserByUID uid =
     read_stmt (\<lambda>st. case find (\<lambda>u. usr_UID u = uid \<and> usr_DeletedAt u = None) (db_users st) of
        None \<Rightarrow> Inl ErrUserNotFound | Some u \<Rightarrow> Inr u)"

definition LogAuditEvent :: "audit_log \<Rightarrow> time \<Rightarrow> db \<Rightarrow> (store_error + unit) \<times> db" where
  "LogAuditEvent ev now =
     write_stmt (\<lambda>st. Inr ((), st\<lparr>db_audit := db_audit st @ [ev\<lparr>al_CreatedAt := now\<rparr>]\<rparr>))"

section \<open>Lemmas\<close>

text \<open>Equal up to the script of faults.\<close>

definition same_tables :: "db \<Rightarrow> db \<Rightarrow> bool" where
  "same_tables st st' \<longleftrightarrow> st' = st\<lparr>db_faults := db_faults st'\<rparr>"

lemma same_tables_refl [simp]: "same_tables st st"
  by (simp add: same_tables_def)

lemma same_tables_trans: "same_tables a b \<Longrightarrow> same_tables b c \<Longrightarrow> same_tables a c"
  by (metis (no_types, lifting) db.fold_congs(15) db.unfold_congs(15) same_tables_def
      db.surjective db.update_convs(15) db.select_convs(15))

lemma same_tables_faults [simp]: "same_tables st (st\<lparr>db_faults := fs\<rparr>)"
  by (simp add: same_tables_def)

lemma same_tables_select:
  assumes "same_tables st st'"
  shows "db_users st' = db_users st" "db_servers st' = db_servers st" "db_grants st' = db_grants st"
    "db_definitions st' = db_definitions st" "db_requests st' = db_requests st"
    "db_connections st' = db_connections st" "db_queries st' = db_queries st"
    "db_groups st' = db_groups st" "db_members st' = db_members st" "db_audit st' = db_audit st"
    "db_rows st' = db_rows st" "db_keys st' = db_keys st" "db_oauth st' = db_oauth st"
    "db_identities st' = db_identities st"
  by (subst assms [unfolded same_tables_def], simp)+

lemma stmt_same: "stmt st = (ok, st') \<Longrightarrow> same_tables st st'"
  by (auto simp: stmt_def split: list.splits)

lemma stmt_no_faults [simp]: "db_faults st = [] \<Longrightarrow> stmt st = (True, st)"
  by (simp add: stmt_def)

lemma read_stmt_same: "read_stmt f st = (r, st') \<Longrightarrow> same_tables st st'"
  by (auto simp: read_stmt_def stmt_same split: prod.splits if_splits)

lemma read_stmt_Inr: "read_stmt f st = (Inr x, st') \<Longrightarrow> f st' = Inr x \<and> same_tables st st'"
  by (auto simp: read_stmt_def stmt_same split: prod.splits if_splits)

lemma read_stmt_Inl: "read_stmt f st = (Inl e, st') \<Longrightarrow> (e = ErrDB \<or> f st' = Inl e) \<and> same_tables st st'"
  by (auto simp: read_stmt_def stmt_same split: prod.splits if_splits)

lemma fst_read: "fst (read_stmt f st) = Inr x \<Longrightarrow> \<exists>s. same_tables st s \<and> f s = Inr x"
  using read_stmt_Inr [of f st x] by (cases "read_stmt f st") auto

lemma write_stmt_Inl: "write_stmt f st = (Inl e, st') \<Longrightarrow> same_tables st st'"
  by (auto simp: write_stmt_def stmt_same split: prod.splits if_splits sum.splits)

lemma write_stmt_Inr:
  "write_stmt f st = (Inr x, st') \<Longrightarrow> \<exists>st1. same_tables st st1 \<and> f st1 = Inr (x, st')"
  by (auto simp: write_stmt_def split: prod.splits if_splits sum.splits intro: stmt_same)

lemma and_then_Inr:
  "and_then r k = (Inr y, st') \<longleftrightarrow> (\<exists>x st. r = (Inr x, st) \<and> k x st = (Inr y, st'))"
  by (auto simp: and_then_def split: prod.splits sum.splits)

text \<open>A transaction is atomic: an error leaves the tables alone, a success is the body's own.\<close>

lemma RunInTx_Inl: "RunInTx body st = (Inl e, st') \<Longrightarrow> same_tables st st'"
  by (auto simp: RunInTx_def Let_def dest: stmt_same split: prod.splits if_splits sum.splits
      intro: same_tables_trans)

lemma RunInTx_Inr:
  "RunInTx body st = (Inr x, st') \<Longrightarrow>
     \<exists>st1 st2. same_tables st st1 \<and> body st1 = (Inr x, st2) \<and> same_tables st2 st'"
  by (auto simp: RunInTx_def Let_def dest!: stmt_same split: prod.splits if_splits sum.splits)

lemma map_update_where:
  "(\<And>r. P r \<Longrightarrow> g (f r) = g r) \<Longrightarrow> map g (update_where P f rows) = map g rows"
  by (simp add: update_where_def)

lemma set_update_where: "set (update_where P f rows) = (\<lambda>r. if P r then f r else r) ` set rows"
  by (simp add: update_where_def)

lemma distinct_map_eq: "distinct (map f xs) \<Longrightarrow> x \<in> set xs \<Longrightarrow> y \<in> set xs \<Longrightarrow> f x = f y \<Longrightarrow> x = y"
  by (auto simp: distinct_map dest: inj_onD)

lemma update_where_none: "filter P rows = [] \<Longrightarrow> update_where P f rows = rows"
  by (auto simp: update_where_def filter_empty_conv intro: map_idI)

lemma ball_update_where:
  "(\<forall>r\<in>set (update_where P f rows). Q r) \<longleftrightarrow> (\<forall>r\<in>set rows. if P r then Q (f r) else Q r)"
  by (auto simp: update_where_def)

lemma find_SomeD: "find P xs = Some x \<Longrightarrow> P x \<and> x \<in> set xs"
  by (auto simp: find_Some_iff)

lemma get_user_found:
  assumes "fst (GetUserByUID uid st) = Inr u"
  shows "u \<in> set (db_users st)" "usr_UID u = uid" "usr_DeletedAt u = None"
proof -
  obtain s where "same_tables st s" "find (\<lambda>u. usr_UID u = uid \<and> usr_DeletedAt u = None) (db_users s) = Some u"
    using fst_read [OF assms [unfolded GetUserByUID_def]] by (auto split: option.splits)
  then show "u \<in> set (db_users st)" "usr_UID u = uid" "usr_DeletedAt u = None"
    using find_SomeD same_tables_select(1) by fastforce+
qed

end
