(* ===== verification/Grant_Store.thy ===== *)
theory Grant_Store
  imports Database
begin

text \<open>
  \<open>internal/store/grants.go\<close>, \<open>grant_definitions.go\<close> and \<open>grant_requests.go\<close>: access
  grants, the definitions users may request, and the life of a request. The constraints of the
  schema (\<open>internal/migrations\<close>) that decide whether an insert succeeds are part of the inserts.
\<close>

section \<open>Grants\<close>

text \<open>\<open>time.Duration(n) * time.Second\<close> is an \<open>int64\<close> product, so a definition of more than
  about 292 years wraps around.\<close>

definition BuildGrantFromDefinition ::
  "grant_definition \<Rightarrow> uuid \<Rightarrow> uuid \<Rightarrow> uuid \<Rightarrow> time \<Rightarrow> access_grant" where
  "BuildGrantFromDefinition def userID databaseID grantedBy now =
     \<lparr>ag_UID = uuid_Nil, ag_UserID = userID, ag_DatabaseID = databaseID, ag_Controls = gd_Controls def,
      ag_GrantedBy = grantedBy, ag_StartsAt = now,
      ag_ExpiresAt = now + wrap_i64 (gd_DurationSeconds def * 1000000000),
      ag_RevokedAt = None, ag_RevokedBy = None, ag_MaxQueryCounts = gd_MaxQueryCounts def,
      ag_MaxBytesTransferred = gd_MaxBytesTransferred def, ag_CreatedAt = zero_time,
      ag_QueryCount = 0, ag_BytesTransferred = 0\<rparr>"

text \<open>The constraints of \<open>access_grants\<close>: the primary key, the time window, the foreign keys
  and the width of \<open>max_query_counts\<close>, an \<open>INT\<close> column.\<close>

definition grant_insertable :: "db \<Rightarrow> access_grant \<Rightarrow> bool" where
  "grant_insertable st g \<longleftrightarrow>
     ag_UID g \<notin> set (map ag_UID (db_grants st)) \<and> ag_StartsAt g < ag_ExpiresAt g \<and>
     user_exists st (ag_UserID g) \<and> server_exists st (ag_DatabaseID g) \<and> user_exists st (ag_GrantedBy g) \<and>
     (case ag_MaxQueryCounts g of None \<Rightarrow> True | Some n \<Rightarrow> - (2 ^ 31) \<le> n \<and> n < 2 ^ 31)"

text \<open>Inserting a row: the database chooses its identifier, and \<open>created_at\<close> when the row
  has none.\<close>

definition insert_grant ::
  "uuid \<Rightarrow> time \<Rightarrow> access_grant \<Rightarrow> db \<Rightarrow> store_error + access_grant \<times> db" where
  "insert_grant newUID dbNow g st =
     (let row = g\<lparr>ag_UID := newUID, ag_CreatedAt := (if IsZero (ag_CreatedAt g) then dbNow else ag_CreatedAt g)\<rparr>
      in if grant_insertable st row then Inr (row, st\<lparr>db_grants := db_grants st @ [row]\<rparr>) else Inl ErrDB)"

definition CreateGrant ::
  "access_grant \<Rightarrow> uuid \<Rightarrow> time \<Rightarrow> db \<Rightarrow> (store_error + access_grant) \<times> db" where
  "CreateGrant grant newUID now st =
     (let result = \<lparr>ag_UID = uuid_Nil, ag_UserID = ag_UserID grant, ag_DatabaseID = ag_DatabaseID grant,
        ag_Controls = ag_Controls grant, ag_GrantedBy = ag_GrantedBy grant,
        ag_StartsAt = ag_StartsAt grant, ag_ExpiresAt = ag_ExpiresAt grant, ag_RevokedAt = None,
        ag_RevokedBy = None, ag_MaxQueryCounts = ag_MaxQueryCounts grant,
        ag_MaxBytesTransferred = ag_MaxBytesTransferred grant, ag_CreatedAt = now,
        ag_QueryCount = 0, ag_BytesTransferred = 0\<rparr>
      in write_stmt (insert_grant newUID now result) st)"

definition window_end :: "access_grant \<Rightarrow> time" where
  "window_end g =
     (case ag_RevokedAt g of None \<Rightarrow> ag_ExpiresAt g
      | Some t \<Rightarrow> if t < ag_ExpiresAt g then t else ag_ExpiresAt g)"

definition count_queries :: "access_grant \<Rightarrow> db \<Rightarrow> int" where
  "count_queries g st =
     int (length (filter (\<lambda>(q, c). qry_ConnectionID q = con_UID c \<and> con_UserID c = ag_UserID g \<and>
        con_DatabaseID c = ag_DatabaseID g \<and> ag_StartsAt g \<le> qry_ExecutedAt q \<and>
        qry_ExecutedAt q < window_end g)
      (List.product (db_queries st) (db_connections st))))"

definition sum_bytes :: "access_grant \<Rightarrow> db \<Rightarrow> int" where
  "sum_bytes g st =
     sum_list (map con_BytesTransferred (filter (\<lambda>c. con_UserID c = ag_UserID g \<and>
        con_DatabaseID c = ag_DatabaseID g \<and> ag_StartsAt g \<le> con_ConnectedAt c \<and>
        con_ConnectedAt c < window_end g) (db_connections st)))"

definition populateGrantCounters :: "access_grant \<Rightarrow> db \<Rightarrow> (store_error + access_grant) \<times> db" where
  "populateGrantCounters g st =
     and_then (read_stmt (\<lambda>s. Inr (count_queries g s)) st) (\<lambda>queryCount st1.
     and_then (read_stmt (\<lambda>s. Inr (sum_bytes g s)) st1) (\<lambda>bytesTransferred st2.
       (Inr (g\<lparr>ag_QueryCount := queryCount, ag_BytesTransferred := bytesTransferred\<rparr>), st2)))"

definition grant_active :: "time \<Rightarrow> access_grant \<Rightarrow> bool" where
  "grant_active now g \<longleftrightarrow> ag_RevokedAt g = None \<and> ag_StartsAt g \<le> now \<and> now < ag_ExpiresAt g"

definition newest_first :: "access_grant list \<Rightarrow> access_grant list" where
  "newest_first gs = sort_key (\<lambda>g. - ag_CreatedAt g) gs"

definition GetActiveGrant :: "uuid \<Rightarrow> uuid \<Rightarrow> time \<Rightarrow> db \<Rightarrow> (store_error + access_grant) \<times> db" where
  "GetActiveGrant userID databaseID now st =
     and_then (read_stmt (\<lambda>s.
        case newest_first (filter (\<lambda>g. ag_UserID g = userID \<and> ag_DatabaseID g = databaseID \<and>
               grant_active now g) (db_grants s)) of
          [] \<Rightarrow> Inl ErrNoActiveGrant | g # _ \<Rightarrow> Inr g) st) populateGrantCounters"

definition GetGrantByUID :: "uuid \<Rightarrow> db \<Rightarrow> (store_error + access_grant) \<times> db" where
  "GetGrantByUID uid st =
     and_then (read_stmt (\<lambda>s. case find (\<lambda>g. ag_UID g = uid) (db_grants s) of
          None \<Rightarrow> Inl ErrGrantNotFound | Some g \<Rightarrow> Inr g) st) populateGrantCounters"

record grant_filter =
  gf_UserID :: "uuid option"
  gf_DatabaseID :: "uuid option"
  gf_ActiveOnly :: bool

definition eq_opt :: "'a option \<Rightarrow> 'a \<Rightarrow> bool" where
  "eq_opt f x = (case f of None \<Rightarrow> True | Some y \<Rightarrow> x = y)"

fun populate_all :: "access_grant list \<Rightarrow> db \<Rightarrow> (store_error + access_grant list) \<times> db" where
  "populate_all [] st = (Inr [], st)"
| "populate_all (g # gs) st =
     and_then (populateGrantCounters g st) (\<lambda>g' st1.
     and_then (populate_all gs st1) (\<lambda>gs' st2. (Inr (g' # gs'), st2)))"

definition ListGrants :: "grant_filter \<Rightarrow> time \<Rightarrow> db \<Rightarrow> (store_error + access_grant list) \<times> db" where
  "ListGrants f now st =
     and_then (read_stmt (\<lambda>s. Inr (newest_first (filter (\<lambda>g. eq_opt (gf_UserID f) (ag_UserID g) \<and>
          eq_opt (gf_DatabaseID f) (ag_DatabaseID g) \<and> (gf_ActiveOnly f \<longrightarrow> grant_active now g))
        (db_grants s)))) st) populate_all"

definition RevokeGrant :: "uuid \<Rightarrow> uuid \<Rightarrow> time \<Rightarrow> db \<Rightarrow> (store_error + unit) \<times> db" where
  "RevokeGrant uid revokedBy now =
     write_stmt (\<lambda>st.
       let hit = (\<lambda>g. ag_UID g = uid \<and> ag_RevokedAt g = None) in
       if filter hit (db_grants st) = [] then Inl ErrGrantAlreadyRevoked
       else if \<not> user_exists st revokedBy then Inl ErrDB
       else Inr ((), st\<lparr>db_grants := update_where hit
              (\<lambda>g. g\<lparr>ag_RevokedAt := Some now, ag_RevokedBy := Some revokedBy\<rparr>) (db_grants st)\<rparr>))"

section \<open>Definitions\<close>

text \<open>The partial unique index on the names of active definitions and the duration check.\<close>

definition definition_insertable :: "db \<Rightarrow> grant_definition \<Rightarrow> bool" where
  "definition_insertable st d \<longleftrightarrow>
     gd_UID d \<notin> set (map gd_UID (db_definitions st)) \<and> 0 < gd_DurationSeconds d \<and> user_exists st (gd_CreatedBy d)"

definition active_name_taken :: "db \<Rightarrow> uuid \<Rightarrow> string \<Rightarrow> bool" where
  "active_name_taken st uid name \<longleftrightarrow>
     list_ex (\<lambda>d. gd_IsActive d \<and> gd_UID d \<noteq> uid \<and> gd_Name d = name) (db_definitions st)"

definition CreateGrantDefinition ::
  "grant_definition \<Rightarrow> uuid \<Rightarrow> time \<Rightarrow> db \<Rightarrow> (store_error + grant_definition) \<times> db" where
  "CreateGrantDefinition def newUID now =
     write_stmt (\<lambda>st.
       let result = def\<lparr>gd_UID := newUID, gd_IsActive := True, gd_CreatedAt := now\<rparr> in
       if \<not> definition_insertable st result then Inl ErrDB
       else if active_name_taken st newUID (gd_Name def) then Inl ErrGrantDefinitionDuplicate
       else Inr (result, st\<lparr>db_definitions := db_definitions st @ [result]\<rparr>))"

definition find_definition :: "uuid \<Rightarrow> db \<Rightarrow> grant_definition option" where
  "find_definition uid st = find (\<lambda>d. gd_UID d = uid) (db_definitions st)"

definition GetGrantDefinition :: "uuid \<Rightarrow> db \<Rightarrow> (store_error + grant_definition) \<times> db" where
  "GetGrantDefinition uid =
     read_stmt (\<lambda>st. case find_definition uid st of None \<Rightarrow> Inl ErrGrantDefinitionNotFound | Some d \<Rightarrow> Inr d)"

definition ListGrantDefinitions :: "bool \<Rightarrow> db \<Rightarrow> (store_error + grant_definition list) \<times> db" where
  "ListGrantDefinitions activeOnly =
     read_stmt (\<lambda>st. Inr (sort_key (\<lambda>d. - gd_CreatedAt d)
       (filter (\<lambda>d. activeOnly \<longrightarrow> gd_IsActive d) (db_definitions st))))"

text \<open>An update that would give two active definitions one name violates the index; this
  operation reports it as an unspecific error.\<close>

definition UpdateGrantDefinition :: "grant_definition \<Rightarrow> db \<Rightarrow> (store_error + unit) \<times> db" where
  "UpdateGrantDefinition def =
     write_stmt (\<lambda>st.
       case find_definition (gd_UID def) st of
         None \<Rightarrow> Inl ErrGrantDefinitionNotFound
       | Some old \<Rightarrow>
           if gd_DurationSeconds def \<le> 0 \<or> gd_IsActive old \<and> active_name_taken st (gd_UID def) (gd_Name def)
           then Inl ErrDB
           else Inr ((), st\<lparr>db_definitions := update_where (\<lambda>d. gd_UID d = gd_UID def)
             (\<lambda>d. d\<lparr>gd_Name := gd_Name def, gd_Description := gd_Description def,
                     gd_DurationSeconds := gd_DurationSeconds def, gd_Controls := gd_Controls def,
                     gd_MaxQueryCounts := gd_MaxQueryCounts def,
                     gd_MaxBytesTransferred := gd_MaxBytesTransferred def,
                     gd_AutoApprove := gd_AutoApprove def, gd_GroupUIDs := gd_GroupUIDs def,
                     gd_DatabaseUIDs := gd_DatabaseUIDs def\<rparr>) (db_definitions st)\<rparr>))"

definition DeactivateGrantDefinition :: "uuid \<Rightarrow> db \<Rightarrow> (store_error + unit) \<times> db" where
  "DeactivateGrantDefinition uid =
     write_stmt (\<lambda>st.
       if filter (\<lambda>d. gd_UID d = uid) (db_definitions st) = [] then Inl ErrGrantDefinitionNotFound
       else Inr ((), st\<lparr>db_definitions := update_where (\<lambda>d. gd_UID d = uid)
              (\<lambda>d. d\<lparr>gd_IsActive := False\<rparr>) (db_definitions st)\<rparr>))"

section \<open>Requests\<close>

definition find_request :: "uuid \<Rightarrow> db \<Rightarrow> grant_request option" where
  "find_request uid st = find (\<lambda>r. gr_UID r = uid) (db_requests st)"

definition definition_exists :: "db \<Rightarrow> uuid \<Rightarrow> bool" where
  "definition_exists st d \<longleftrightarrow> d \<in> set (map gd_UID (db_definitions st))"

definition CreateGrantRequest ::
  "uuid \<Rightarrow> uuid \<Rightarrow> uuid \<Rightarrow> string \<Rightarrow> uuid \<Rightarrow> time \<Rightarrow> db \<Rightarrow> (store_error + grant_request) \<times> db" where
  "CreateGrantRequest userID definitionID databaseID justification newUID now =
     write_stmt (\<lambda>st.
       let result = \<lparr>gr_UID = newUID, gr_UserID = userID, gr_GrantDefinitionID = definitionID,
         gr_DatabaseID = databaseID, gr_Justification = justification, gr_Status = GrantRequestPending,
         gr_RequestedAt = now, gr_DecidedAt = None, gr_DecidedBy = None, gr_DecisionReason = None,
         gr_ResultingGrantID = None, gr_SlackChannel = None, gr_SlackMessageTS = None\<rparr> in
       if newUID \<in> set (map gr_UID (db_requests st)) \<or> \<not> user_exists st userID \<or>
          \<not> definition_exists st definitionID \<or> \<not> server_exists st databaseID
       then Inl ErrDB
       else Inr (result, st\<lparr>db_requests := db_requests st @ [result]\<rparr>))"

definition GetGrantRequest :: "uuid \<Rightarrow> db \<Rightarrow> (store_error + grant_request) \<times> db" where
  "GetGrantRequest uid =
     read_stmt (\<lambda>st. case find_request uid st of None \<Rightarrow> Inl ErrGrantRequestNotFound | Some r \<Rightarrow> Inr r)"

record request_filter =
  rf_UserID :: "uuid option"
  rf_DatabaseID :: "uuid option"
  rf_Status :: "GrantRequestStatus option"
  rf_Limit :: int
  rf_Offset :: int

definition ListGrantRequests :: "request_filter \<Rightarrow> db \<Rightarrow> (store_error + grant_request list) \<times> db" where
  "ListGrantRequests f =
     read_stmt (\<lambda>st.
       let rows = sort_key (\<lambda>r. - gr_RequestedAt r) (filter (\<lambda>r. eq_opt (rf_UserID f) (gr_UserID r) \<and>
             eq_opt (rf_DatabaseID f) (gr_DatabaseID r) \<and> eq_opt (rf_Status f) (gr_Status r)) (db_requests st));
           skipped = (if rf_Offset f > 0 then drop (nat (rf_Offset f)) rows else rows)
       in Inr (if rf_Limit f > 0 then take (nat (rf_Limit f)) skipped else skipped))"

definition HasPendingRequest :: "uuid \<Rightarrow> uuid \<Rightarrow> uuid \<Rightarrow> db \<Rightarrow> (store_error + bool) \<times> db" where
  "HasPendingRequest userID definitionID databaseID =
     read_stmt (\<lambda>st. Inr (length (filter (\<lambda>r. gr_UserID r = userID \<and> gr_GrantDefinitionID r = definitionID \<and>
       gr_DatabaseID r = databaseID \<and> gr_Status r = GrantRequestPending) (db_requests st)) > 0))"

text \<open>The update of a locked row; \<open>decided_by\<close> references a user.\<close>

definition update_request :: "grant_request \<Rightarrow> db \<Rightarrow> (store_error + unit) \<times> db" where
  "update_request req =
     write_stmt (\<lambda>st.
       if (case gr_DecidedBy req of None \<Rightarrow> False | Some u \<Rightarrow> \<not> user_exists st u) then Inl ErrDB
       else Inr ((), st\<lparr>db_requests := update_where (\<lambda>r. gr_UID r = gr_UID req) (\<lambda>_. req) (db_requests st)\<rparr>))"

definition approveGrantRequestTx ::
  "uuid \<Rightarrow> uuid option \<Rightarrow> uuid \<Rightarrow> uuid \<Rightarrow> time \<Rightarrow> time \<Rightarrow> db
   \<Rightarrow> (store_error + access_grant \<times> grant_request) \<times> db" where
  "approveGrantRequestTx uid decidedBy grantedBy newUID now now' =
     RunInTx (\<lambda>st.
       and_then (read_stmt (\<lambda>s. case find_request uid s of
            None \<Rightarrow> Inl ErrGrantRequestNotFound | Some r \<Rightarrow> Inr r) st) (\<lambda>req st1.
       if gr_Status req \<noteq> GrantRequestPending then (Inl ErrInvalidTransition, st1)
       else
       and_then (read_stmt (\<lambda>s. case find_definition (gr_GrantDefinitionID req) s of
            None \<Rightarrow> Inl ErrDB | Some d \<Rightarrow> Inr d) st1) (\<lambda>def st2.
       if \<not> gd_IsActive def then (Inl ErrDefinitionInactive, st2)
       else
       and_then (write_stmt (insert_grant newUID now
            (BuildGrantFromDefinition def (gr_UserID req) (gr_DatabaseID req) grantedBy now)) st2) (\<lambda>newGrant st3.
       let req' = req\<lparr>gr_Status := GrantRequestApproved, gr_DecidedAt := Some now', gr_DecidedBy := decidedBy,
                       gr_ResultingGrantID := Some (ag_UID newGrant)\<rparr> in
       and_then (update_request req' st3) (\<lambda>_ st4. (Inr (newGrant, req'), st4))))))"

definition ApproveGrantRequest ::
  "uuid \<Rightarrow> uuid \<Rightarrow> uuid \<Rightarrow> time \<Rightarrow> time \<Rightarrow> db \<Rightarrow> (store_error + access_grant \<times> grant_request) \<times> db" where
  "ApproveGrantRequest uid decidedBy = approveGrantRequestTx uid (Some decidedBy) decidedBy"

definition AutoApproveGrantRequest ::
  "uuid \<Rightarrow> uuid \<Rightarrow> uuid \<Rightarrow> time \<Rightarrow> time \<Rightarrow> db \<Rightarrow> (store_error + access_grant \<times> grant_request) \<times> db" where
  "AutoApproveGrantRequest uid requesterID = approveGrantRequestTx uid None requesterID"

definition transition ::
  "uuid \<Rightarrow> GrantRequestStatus \<Rightarrow> uuid option \<Rightarrow> string \<Rightarrow> time \<Rightarrow> db \<Rightarrow> (store_error + grant_request) \<times> db" where
  "transition uid target decidedBy reason now =
     RunInTx (\<lambda>st.
       and_then (read_stmt (\<lambda>s. case find_request uid s of
            None \<Rightarrow> Inl ErrGrantRequestNotFound | Some r \<Rightarrow> Inr r) st) (\<lambda>req st1.
       if gr_Status req \<noteq> GrantRequestPending then (Inl ErrInvalidTransition, st1)
       else
       let req1 = req\<lparr>gr_Status := target, gr_DecidedAt := Some now, gr_DecidedBy := decidedBy\<rparr>;
           req' = (if reason \<noteq> [] then req1\<lparr>gr_DecisionReason := Some reason\<rparr> else req1) in
       and_then (update_request req' st1) (\<lambda>_ st2. (Inr req', st2))))"

definition DenyGrantRequest ::
  "uuid \<Rightarrow> uuid \<Rightarrow> string \<Rightarrow> time \<Rightarrow> db \<Rightarrow> (store_error + grant_request) \<times> db" where
  "DenyGrantRequest uid decidedBy reason = transition uid GrantRequestDenied (Some decidedBy) reason"

definition CancelGrantRequest :: "uuid \<Rightarrow> uuid \<Rightarrow> time \<Rightarrow> db \<Rightarrow> (store_error + grant_request) \<times> db" where
  "CancelGrantRequest uid byUser = transition uid GrantRequestCancelled (Some byUser) []"

definition SetGrantRequestSlackMessage :: "uuid \<Rightarrow> string \<Rightarrow> string \<Rightarrow> db \<Rightarrow> (store_error + unit) \<times> db" where
  "SetGrantRequestSlackMessage uid channel ts =
     write_stmt (\<lambda>st. Inr ((), st\<lparr>db_requests := update_where (\<lambda>r. gr_UID r = uid)
       (\<lambda>r. r\<lparr>gr_SlackChannel := Some channel, gr_SlackMessageTS := Some ts\<rparr>) (db_requests st)\<rparr>))"

section \<open>What a successful operation did\<close>

lemma find_same [simp]:
  "same_tables st st' \<Longrightarrow> find_request uid st' = find_request uid st"
  "same_tables st st' \<Longrightarrow> find_definition uid st' = find_definition uid st"
  by (simp_all add: find_request_def find_definition_def same_tables_select)

lemma exists_same [simp]:
  "same_tables st st' \<Longrightarrow> user_exists st' u = user_exists st u"
  "same_tables st st' \<Longrightarrow> server_exists st' d = server_exists st d"
  "same_tables st st' \<Longrightarrow> definition_exists st' x = definition_exists st x"
  "same_tables st st' \<Longrightarrow> grant_insertable st' g = grant_insertable st g"
  by (simp_all add: user_exists_def server_exists_def definition_exists_def grant_insertable_def same_tables_select)

text \<open>The grant that an approval promises, column by column.\<close>

definition approved_grant :: "grant_definition \<Rightarrow> grant_request \<Rightarrow> uuid \<Rightarrow> uuid \<Rightarrow> time \<Rightarrow> access_grant" where
  "approved_grant def req grantedBy newUID now =
     \<lparr>ag_UID = newUID, ag_UserID = gr_UserID req, ag_DatabaseID = gr_DatabaseID req, ag_Controls = gd_Controls def,
      ag_GrantedBy = grantedBy, ag_StartsAt = now, ag_ExpiresAt = now + wrap_i64 (seconds (gd_DurationSeconds def)),
      ag_RevokedAt = None, ag_RevokedBy = None, ag_MaxQueryCounts = gd_MaxQueryCounts def,
      ag_MaxBytesTransferred = gd_MaxBytesTransferred def, ag_CreatedAt = now, ag_QueryCount = 0, ag_BytesTransferred = 0\<rparr>"

definition approved_request :: "grant_request \<Rightarrow> uuid option \<Rightarrow> uuid \<Rightarrow> time \<Rightarrow> grant_request" where
  "approved_request req decidedBy newUID now' =
     req\<lparr>gr_Status := GrantRequestApproved, gr_DecidedAt := Some now', gr_DecidedBy := decidedBy,
         gr_ResultingGrantID := Some newUID\<rparr>"

definition replace_request :: "grant_request \<Rightarrow> grant_request list \<Rightarrow> grant_request list" where
  "replace_request req' rows = update_where (\<lambda>r. gr_UID r = gr_UID req') (\<lambda>_. req') rows"

lemma update_request_Inr:
  assumes "update_request req st = (Inr u, st')"
  shows "db_requests st' = replace_request req (db_requests st)" and "db_grants st' = db_grants st"
    and "db_definitions st' = db_definitions st" and "db_users st' = db_users st"
    and "db_servers st' = db_servers st"
proof -
  obtain st1 where "same_tables st st1"
    and "st' = st1\<lparr>db_requests := replace_request req (db_requests st1)\<rparr>"
    using write_stmt_Inr [OF assms [unfolded update_request_def]]
    by (auto simp: replace_request_def split: if_splits option.splits)
  then show "db_requests st' = replace_request req (db_requests st)" "db_grants st' = db_grants st"
    "db_definitions st' = db_definitions st" "db_users st' = db_users st" "db_servers st' = db_servers st"
    by (simp_all add: same_tables_select)
qed

lemma insert_grant_Inr:
  assumes "write_stmt (insert_grant newUID dbNow g) st = (Inr row, st')"
  shows "row = g\<lparr>ag_UID := newUID, ag_CreatedAt := (if IsZero (ag_CreatedAt g) then dbNow else ag_CreatedAt g)\<rparr>"
    and "grant_insertable st row" and "db_grants st' = db_grants st @ [row]"
    and "db_requests st' = db_requests st" and "db_definitions st' = db_definitions st"
    and "db_users st' = db_users st" and "db_servers st' = db_servers st"
proof -
  obtain st1 where s: "same_tables st st1" and i: "insert_grant newUID dbNow g st1 = Inr (row, st')"
    using write_stmt_Inr [OF assms] by auto
  then show "row = g\<lparr>ag_UID := newUID, ag_CreatedAt := (if IsZero (ag_CreatedAt g) then dbNow else ag_CreatedAt g)\<rparr>"
    "grant_insertable st row" "db_grants st' = db_grants st @ [row]"
    "db_requests st' = db_requests st" "db_definitions st' = db_definitions st"
    "db_users st' = db_users st" "db_servers st' = db_servers st"
    by (auto simp: insert_grant_def Let_def same_tables_select split: if_splits)
qed

lemma approve_Inr:
  assumes "approveGrantRequestTx uid decidedBy grantedBy newUID now now' st = (Inr (g, r), st')"
  obtains req def where "find_request uid st = Some req" and "gr_Status req = GrantRequestPending"
    and "find_definition (gr_GrantDefinitionID req) st = Some def" and "gd_IsActive def"
    and "g = approved_grant def req grantedBy newUID now" and "grant_insertable st g"
    and "r = approved_request req decidedBy newUID now'"
    and "db_grants st' = db_grants st @ [g]"
    and "db_requests st' = replace_request r (db_requests st)"
    and "db_definitions st' = db_definitions st" and "db_users st' = db_users st"
    and "db_servers st' = db_servers st"
proof -
  let ?sel = "\<lambda>s. case find_request uid s of None \<Rightarrow> Inl ErrGrantRequestNotFound | Some r \<Rightarrow> Inr r"
  obtain s1 s6 where tx: "same_tables st s1" "same_tables s6 st'"
    and body: "\<exists>req s2 def s3 s4 s5. read_stmt ?sel s1 = (Inr req, s2) \<and> gr_Status req = GrantRequestPending \<and>
      read_stmt (\<lambda>s. case find_definition (gr_GrantDefinitionID req) s of None \<Rightarrow> Inl ErrDB | Some d \<Rightarrow> Inr d) s2
        = (Inr def, s3) \<and> gd_IsActive def \<and>
      write_stmt (insert_grant newUID now
        (BuildGrantFromDefinition def (gr_UserID req) (gr_DatabaseID req) grantedBy now)) s3 = (Inr g, s4) \<and>
      r = approved_request req decidedBy (ag_UID g) now' \<and> update_request r s4 = (Inr (), s5) \<and> s6 = s5"
    using RunInTx_Inr [OF assms [unfolded approveGrantRequestTx_def]]
    by (auto simp: and_then_Inr Let_def approved_request_def split: if_splits)
  then obtain req s2 def s3 s4 where
    a: "read_stmt ?sel s1 = (Inr req, s2)" "gr_Status req = GrantRequestPending"
      "read_stmt (\<lambda>s. case find_definition (gr_GrantDefinitionID req) s of None \<Rightarrow> Inl ErrDB | Some d \<Rightarrow> Inr d) s2
        = (Inr def, s3)" "gd_IsActive def"
      "write_stmt (insert_grant newUID now
        (BuildGrantFromDefinition def (gr_UserID req) (gr_DatabaseID req) grantedBy now)) s3 = (Inr g, s4)"
      "r = approved_request req decidedBy (ag_UID g) now'" "update_request r s4 = (Inr (), s6)"
    by blast
  have s12: "same_tables s1 s2" and f: "find_request uid s2 = Some req"
    using read_stmt_Inr [OF a(1)] by (auto split: option.splits)
  have s23: "same_tables s2 s3" and d: "find_definition (gr_GrantDefinitionID req) s3 = Some def"
    using read_stmt_Inr [OF a(3)] by (auto split: option.splits)
  have s3: "same_tables st s3" and s2: "same_tables st s2"
    using tx(1) s12 s23 by (blast intro: same_tables_trans)+
  note i = insert_grant_Inr [OF a(5)] and u = update_request_Inr [OF a(7)]
  have g: "g = approved_grant def req grantedBy newUID now"
    using i(1) by (simp add: approved_grant_def BuildGrantFromDefinition_def IsZero_def seconds_def)
  show ?thesis
    by (rule that [of req def])
      (use f d s2 s3 a g i u tx(2) in \<open>simp_all add: same_tables_select approved_grant_def\<close>)
qed

lemma transition_Inr:
  assumes "transition uid target decidedBy reason now st = (Inr r, st')"
  obtains req where "find_request uid st = Some req" and "gr_Status req = GrantRequestPending"
    and "gr_UID r = gr_UID req" and "gr_Status r = target" and "gr_DecidedBy r = decidedBy"
    and "gr_ResultingGrantID r = gr_ResultingGrantID req" and "gr_UserID r = gr_UserID req"
    and "gr_DatabaseID r = gr_DatabaseID req" and "gr_DecidedAt r = Some now"
    and "db_requests st' = replace_request r (db_requests st)"
    and "db_grants st' = db_grants st" and "db_definitions st' = db_definitions st"
    and "db_users st' = db_users st" and "db_servers st' = db_servers st"
proof -
  let ?sel = "\<lambda>s. case find_request uid s of None \<Rightarrow> Inl ErrGrantRequestNotFound | Some r \<Rightarrow> Inr r"
  let ?r = "\<lambda>req. if reason \<noteq> []
      then req\<lparr>gr_Status := target, gr_DecidedAt := Some now, gr_DecidedBy := decidedBy, gr_DecisionReason := Some reason\<rparr>
      else req\<lparr>gr_Status := target, gr_DecidedAt := Some now, gr_DecidedBy := decidedBy\<rparr>"
  obtain s1 s2 s3 req where tx: "same_tables st s1" "same_tables s3 st'" and sel: "read_stmt ?sel s1 = (Inr req, s2)"
    and p: "gr_Status req = GrantRequestPending" and u: "update_request r s2 = (Inr (), s3)" and r: "r = ?r req"
    using RunInTx_Inr [OF assms [unfolded transition_def]]
    by (auto simp: and_then_Inr Let_def split: if_splits)
  have s12: "same_tables s1 s2" and f: "find_request uid s2 = Some req"
    using read_stmt_Inr [OF sel] by (auto split: option.splits)
  then have s2: "same_tables st s2" using tx(1) by (blast intro: same_tables_trans)
  show ?thesis
    by (rule that [of req])
      (use f s2 p r update_request_Inr [OF u] tx(2) in \<open>simp_all add: same_tables_select\<close>)
qed

section \<open>Executions\<close>

text \<open>A step of the store: any write operation, with any result, or a change of the tables that
  grants and requests only refer to (users, servers, connections, queries, memberships, audit).\<close>

inductive store_step :: "db \<Rightarrow> db \<Rightarrow> bool" where
  step_CreateGrant: "CreateGrant g newUID now st = (res, st') \<Longrightarrow> store_step st st'"
| step_RevokeGrant: "RevokeGrant uid revoker now st = (res1, st') \<Longrightarrow> store_step st st'"
| step_CreateRequest: "CreateGrantRequest u d b j newUID now st = (res2, st') \<Longrightarrow> store_step st st'"
| step_Approve: "approveGrantRequestTx uid decidedBy grantedBy newUID now now' st = (res3, st') \<Longrightarrow> store_step st st'"
| step_Transition: "target \<in> {GrantRequestDenied, GrantRequestCancelled} \<Longrightarrow>
    transition uid target decidedBy reason now st = (res4, st') \<Longrightarrow> store_step st st'"
| step_Slack: "SetGrantRequestSlackMessage uid ch ts st = (res5, st') \<Longrightarrow> store_step st st'"
| step_CreateDefinition: "CreateGrantDefinition d newUID now st = (res6, st') \<Longrightarrow> store_step st st'"
| step_UpdateDefinition: "UpdateGrantDefinition d st = (res7, st') \<Longrightarrow> store_step st st'"
| step_Deactivate: "DeactivateGrantDefinition uid st = (res8, st') \<Longrightarrow> store_step st st'"
| step_Other: "db_grants st' = db_grants st \<Longrightarrow> db_requests st' = db_requests st \<Longrightarrow>
    db_definitions st' = db_definitions st \<Longrightarrow> store_step st st'"

text \<open>Everything that a step can do to the two tables, in one place.\<close>

inductive grants_change :: "access_grant list \<Rightarrow> access_grant list \<Rightarrow> bool" where
  same_grants: "grants_change gs gs"
| new_grant: "ag_UID g \<notin> set (map ag_UID gs) \<Longrightarrow> ag_StartsAt g < ag_ExpiresAt g \<Longrightarrow> ag_RevokedAt g = None \<Longrightarrow>
    grants_change gs (gs @ [g])"
| revoked_grant: "grants_change gs (update_where (\<lambda>g. ag_UID g = uid \<and> ag_RevokedAt g = None)
    (\<lambda>g. g\<lparr>ag_RevokedAt := Some now, ag_RevokedBy := Some by\<rparr>) gs)"

inductive requests_change :: "grant_request list \<Rightarrow> grant_request list \<Rightarrow> bool" where
  same_requests: "requests_change rs rs"
| new_request: "gr_UID r \<notin> set (map gr_UID rs) \<Longrightarrow> gr_Status r = GrantRequestPending \<Longrightarrow>
    gr_ResultingGrantID r = None \<Longrightarrow> requests_change rs (rs @ [r])"
| decided_request: "find (\<lambda>r. gr_UID r = uid) rs = Some req \<Longrightarrow> gr_Status req = GrantRequestPending \<Longrightarrow>
    gr_Status r \<in> {GrantRequestDenied, GrantRequestCancelled} \<Longrightarrow> gr_UID r = gr_UID req \<Longrightarrow>
    gr_ResultingGrantID r = gr_ResultingGrantID req \<Longrightarrow> requests_change rs (replace_request r rs)"
| slack_request: "requests_change rs (update_where (\<lambda>r. gr_UID r = uid)
    (\<lambda>r. r\<lparr>gr_SlackChannel := Some ch, gr_SlackMessageTS := Some ts\<rparr>) rs)"

lemma same_change:
  "same_tables st st' \<Longrightarrow>
     grants_change (db_grants st) (db_grants st') \<and> requests_change (db_requests st) (db_requests st')"
  by (simp add: same_tables_select same_grants same_requests)

text \<open>A write statement changes the two tables as its body does.\<close>

lemma write_change:
  assumes "write_stmt f st = (res, st')"
    and "\<And>st1 x. same_tables st st1 \<Longrightarrow> f st1 = Inr (x, st') \<Longrightarrow>
      grants_change (db_grants st) (db_grants st') \<and> requests_change (db_requests st) (db_requests st')"
  shows "grants_change (db_grants st) (db_grants st') \<and> requests_change (db_requests st) (db_requests st')"
proof (cases res)
  case (Inl e)
  then show ?thesis using assms(1) write_stmt_Inl same_change by blast
next
  case (Inr x)
  then obtain st1 where "same_tables st st1" "f st1 = Inr (x, st')"
    using assms(1) write_stmt_Inr [of f st x st'] by auto
  then show ?thesis by (rule assms(2))
qed

definition approves :: "db \<Rightarrow> db \<Rightarrow> bool" where
  "approves st st' \<longleftrightarrow>
     (\<exists>uid by gb new now now' g r. approveGrantRequestTx uid by gb new now now' st = (Inr (g, r), st'))"

lemma step_cases:
  assumes "store_step st st'"
  shows "grants_change (db_grants st) (db_grants st') \<and> requests_change (db_requests st) (db_requests st')
    \<or> approves st st'"
  using assms
proof cases
  case (step_CreateGrant g newUID now res)
  from write_change [OF step_CreateGrant [unfolded CreateGrant_def Let_def]] show ?thesis
    by (rule disjI1) (auto simp: insert_grant_def grant_insertable_def same_tables_select Let_def
        split: if_splits intro!: new_grant same_requests)
next
  case (step_RevokeGrant uid revoker now res1)
  from write_change [OF step_RevokeGrant [unfolded RevokeGrant_def]] show ?thesis
    by (rule disjI1) (auto simp: same_tables_select Let_def split: if_splits intro!: revoked_grant same_requests)
next
  case (step_CreateRequest u d b j newUID now res2)
  from write_change [OF step_CreateRequest [unfolded CreateGrantRequest_def]] show ?thesis
    by (rule disjI1) (auto simp: same_tables_select Let_def split: if_splits intro!: same_grants new_request)
next
  case (step_Approve uid decidedBy grantedBy newUID now now' res3)
  show ?thesis
  proof (cases res3)
    case (Inl e)
    then show ?thesis
      using RunInTx_Inl step_Approve same_change unfolding approveGrantRequestTx_def by blast
  next
    case (Inr gr)
    then show ?thesis using step_Approve unfolding approves_def by (cases gr) blast
  qed
next
  case (step_Transition target uid decidedBy reason now res4)
  show ?thesis
  proof (cases res4)
    case (Inl e)
    then show ?thesis using RunInTx_Inl step_Transition(2) same_change unfolding transition_def by blast
  next
    case (Inr r)
    then have "transition uid target decidedBy reason now st = (Inr r, st')" using step_Transition by simp
    then obtain req where "find_request uid st = Some req" "gr_Status req = GrantRequestPending"
      "gr_UID r = gr_UID req" "gr_Status r = target" "gr_ResultingGrantID r = gr_ResultingGrantID req"
      "db_requests st' = replace_request r (db_requests st)" "db_grants st' = db_grants st"
      by (rule transition_Inr)
    then show ?thesis using step_Transition(1)
      by (auto simp: find_request_def intro!: same_grants decided_request)
  qed
next
  case (step_Slack uid ch ts res5)
  from write_change [OF step_Slack [unfolded SetGrantRequestSlackMessage_def]] show ?thesis
    by (rule disjI1) (auto simp: same_tables_select intro!: same_grants slack_request)
next
  case (step_CreateDefinition d newUID now res6)
  from write_change [OF step_CreateDefinition [unfolded CreateGrantDefinition_def]] show ?thesis
    by (rule disjI1) (auto simp: same_tables_select Let_def split: if_splits intro!: same_grants same_requests)
next
  case (step_UpdateDefinition d res7)
  from write_change [OF step_UpdateDefinition [unfolded UpdateGrantDefinition_def]] show ?thesis
    by (rule disjI1) (auto simp: same_tables_select split: if_splits option.splits intro!: same_grants same_requests)
next
  case (step_Deactivate uid res8)
  from write_change [OF step_Deactivate [unfolded DeactivateGrantDefinition_def]] show ?thesis
    by (rule disjI1) (auto simp: same_tables_select split: if_splits intro!: same_grants same_requests)
next
  case step_Other
  then show ?thesis by (auto intro: same_grants same_requests)
qed

section \<open>Decisions are final\<close>

type_synonym decision =
  "GrantRequestStatus \<times> time option \<times> uuid option \<times> string option \<times> uuid option"

definition decision_of :: "grant_request \<Rightarrow> decision" where
  "decision_of r = (gr_Status r, gr_DecidedAt r, gr_DecidedBy r, gr_DecisionReason r, gr_ResultingGrantID r)"

definition decision_in :: "db \<Rightarrow> uuid \<Rightarrow> decision option" where
  "decision_in st uid = map_option decision_of (find_request uid st)"

definition undecided :: "decision \<Rightarrow> bool" where
  "undecided d \<longleftrightarrow> fst d = GrantRequestPending"

lemma find_update_where:
  assumes "\<And>x. P x \<Longrightarrow> gr_UID (f x) = gr_UID x"
  shows "find (\<lambda>r. gr_UID r = u) (update_where P f rs) =
    map_option (\<lambda>r. if P r then f r else r) (find (\<lambda>r. gr_UID r = u) rs)"
  using assms by (induction rs) (auto simp: update_where_def)

lemma find_replace_request:
  "find (\<lambda>r. gr_UID r = u) (replace_request r' rs) =
     (if u = gr_UID r' then map_option (\<lambda>_. r') (find (\<lambda>r. gr_UID r = u) rs)
      else find (\<lambda>r. gr_UID r = u) rs)"
  by (induction rs) (auto simp: replace_request_def update_where_def)

lemma find_append_new: "find P (xs @ [y]) = (case find P xs of Some x \<Rightarrow> Some x | None \<Rightarrow> if P y then Some y else None)"
  by (induction xs) auto

lemma requests_change_keeps:
  assumes "requests_change rs rs'" and "find (\<lambda>r. gr_UID r = u) rs = Some r" and "gr_Status r \<noteq> GrantRequestPending"
  shows "\<exists>r'. find (\<lambda>r. gr_UID r = u) rs' = Some r' \<and> decision_of r' = decision_of r"
  using assms
proof cases
  case (decided_request uid req r')
  have "gr_UID req = uid" using decided_request(2) by (auto dest: find_SomeD)
  with decided_request assms show ?thesis by (auto simp: find_replace_request)
next
  case (slack_request uid ch ts)
  then show ?thesis using assms(2) by (simp add: find_update_where decision_of_def)
qed (use assms in \<open>auto simp: find_append_new\<close>)

interpretation requests: decided_once decision_in undecided store_step
proof unfold_locales
  fix st st' uid v
  assume "store_step st st'" and v: "decision_in st uid = Some v" "\<not> undecided v"
  then obtain r where r: "find_request uid st = Some r" "v = decision_of r" "gr_Status r \<noteq> GrantRequestPending"
    by (auto simp: decision_in_def undecided_def decision_of_def)
  from step_cases [OF \<open>store_step st st'\<close>] show "decision_in st' uid = Some v"
  proof
    assume "grants_change (db_grants st) (db_grants st') \<and> requests_change (db_requests st) (db_requests st')"
    then show ?thesis using requests_change_keeps [of "db_requests st" "db_requests st'" uid r] r
      by (auto simp: decision_in_def find_request_def)
  next
    assume "approves st st'"
    then obtain uid' b gb new now now' g r' where ap: "approveGrantRequestTx uid' b gb new now now' st = (Inr (g, r'), st')"
      by (auto simp: approves_def)
    obtain req where "find_request uid' st = Some req" "gr_Status req = GrantRequestPending"
      "r' = approved_request req b new now'" "db_requests st' = replace_request r' (db_requests st)"
      using ap by (rule approve_Inr)
    moreover from this have "gr_UID r' = uid'" "uid \<noteq> uid'"
      using r by (auto simp: approved_request_def find_request_def dest: find_SomeD)
    ultimately show ?thesis using r by (simp add: decision_in_def find_request_def find_replace_request)
  qed
qed

section \<open>Invariant\<close>

definition grant_ids :: "db \<Rightarrow> uuid set" where
  "grant_ids st = set (map ag_UID (db_grants st))"

text \<open>
  Identifiers are keys; every grant has a proper time window; an approved request names a grant
  of the table and no other request names it; a request that is not approved names none.
\<close>

definition requests_inv :: "uuid set \<Rightarrow> grant_request list \<Rightarrow> bool" where
  "requests_inv ids rs \<longleftrightarrow>
     distinct (map gr_UID rs) \<and>
     (\<forall>r\<in>set rs. case gr_ResultingGrantID r of
        None \<Rightarrow> gr_Status r \<noteq> GrantRequestApproved
      | Some g \<Rightarrow> gr_Status r = GrantRequestApproved \<and> g \<in> ids) \<and>
     (\<forall>r\<in>set rs. \<forall>r'\<in>set rs.
        gr_ResultingGrantID r \<noteq> None \<longrightarrow> gr_ResultingGrantID r = gr_ResultingGrantID r' \<longrightarrow> r = r')"

definition store_inv :: "db \<Rightarrow> bool" where
  "store_inv st \<longleftrightarrow>
     distinct (map ag_UID (db_grants st)) \<and> (\<forall>g\<in>set (db_grants st). ag_StartsAt g < ag_ExpiresAt g) \<and>
     requests_inv (grant_ids st) (db_requests st)"

lemma distinct_key_eq: "distinct (map f xs) \<Longrightarrow> x \<in> set xs \<Longrightarrow> y \<in> set xs \<Longrightarrow> f x = f y \<Longrightarrow> x = y"
  by (auto simp: distinct_map inj_on_def)

lemma grants_change_ids:
  assumes "grants_change gs gs'" and "distinct (map ag_UID gs)" and "\<forall>g\<in>set gs. ag_StartsAt g < ag_ExpiresAt g"
  shows "distinct (map ag_UID gs')" and "\<forall>g\<in>set gs'. ag_StartsAt g < ag_ExpiresAt g"
    and "set (map ag_UID gs) \<subseteq> set (map ag_UID gs')"
  using assms by (cases; auto simp: map_update_where set_update_where)+

lemma requests_inv_mono: "requests_inv ids rs \<Longrightarrow> ids \<subseteq> ids' \<Longrightarrow> requests_inv ids' rs"
  by (fastforce simp: requests_inv_def split: option.splits)

lemma replace_request_uids: "map gr_UID (replace_request r rs) = map gr_UID rs"
  by (simp add: replace_request_def map_update_where)

lemma replace_request_set:
  "set (replace_request r rs) \<subseteq> insert r {x \<in> set rs. gr_UID x \<noteq> gr_UID r}"
  by (auto simp: replace_request_def set_update_where)

text \<open>Replacing a row keeps the invariant when the new row is all right by itself and names no
  grant that another row names.\<close>

lemma replace_request_inv:
  assumes "requests_inv ids rs"
    and "case gr_ResultingGrantID r of None \<Rightarrow> gr_Status r \<noteq> GrantRequestApproved
         | Some g \<Rightarrow> gr_Status r = GrantRequestApproved \<and> g \<in> ids \<and> (\<forall>x\<in>set rs. gr_ResultingGrantID x \<noteq> Some g)"
  shows "requests_inv ids (replace_request r rs)"
proof -
  have sub: "x = r \<or> x \<in> set rs" if "x \<in> set (replace_request r rs)" for x
    using that replace_request_set by fastforce
  have "case gr_ResultingGrantID x of None \<Rightarrow> gr_Status x \<noteq> GrantRequestApproved
      | Some g \<Rightarrow> gr_Status x = GrantRequestApproved \<and> g \<in> ids" if "x \<in> set (replace_request r rs)" for x
    using sub [OF that] assms by (auto simp: requests_inv_def split: option.splits)
  moreover have "x = y" if "x \<in> set (replace_request r rs)" "y \<in> set (replace_request r rs)"
    "gr_ResultingGrantID x \<noteq> None" "gr_ResultingGrantID x = gr_ResultingGrantID y" for x y
  proof (cases "x = r \<or> y = r")
    case True
    then show ?thesis using sub [OF that(1)] sub [OF that(2)] that(3,4) assms(2)
      by (auto split: option.splits)
  next
    case False
    then show ?thesis using sub [OF that(1)] sub [OF that(2)] that(3,4) assms(1)
      unfolding requests_inv_def by blast
  qed
  moreover have "distinct (map gr_UID rs)" using assms(1) by (simp add: requests_inv_def)
  ultimately show ?thesis unfolding requests_inv_def replace_request_uids by blast
qed

lemma requests_inv_image:
  assumes "set rs' = f ` set rs" and "map gr_UID rs' = map gr_UID rs"
    and f: "\<And>r. gr_ResultingGrantID (f r) = gr_ResultingGrantID r" "\<And>r. gr_Status (f r) = gr_Status r"
    and inv: "requests_inv ids rs"
  shows "requests_inv ids rs'"
  unfolding requests_inv_def assms(1,2)
proof (intro conjI ballI impI)
  show "distinct (map gr_UID rs)" using inv by (simp add: requests_inv_def)
  show "case gr_ResultingGrantID r of None \<Rightarrow> gr_Status r \<noteq> GrantRequestApproved
      | Some g \<Rightarrow> gr_Status r = GrantRequestApproved \<and> g \<in> ids" if "r \<in> f ` set rs" for r
    using that inv by (auto simp: requests_inv_def f split: option.splits)
  show "r = r'" if r: "r \<in> f ` set rs" "r' \<in> f ` set rs" and n: "gr_ResultingGrantID r \<noteq> None"
    and e: "gr_ResultingGrantID r = gr_ResultingGrantID r'" for r r'
  proof -
    obtain a b where ab: "a \<in> set rs" "r = f a" "b \<in> set rs" "r' = f b" using r by auto
    then have "a = b" using n e f(1) inv unfolding requests_inv_def by metis
    with ab show ?thesis by simp
  qed
qed

lemma requests_change_inv:
  assumes "requests_change rs rs'" and inv: "requests_inv ids rs"
  shows "requests_inv ids rs'"
  using assms(1)
proof cases
  case (new_request r)
  then show ?thesis using inv by (auto simp: requests_inv_def)
next
  case (decided_request uid req r)
  have "req \<in> set rs" using decided_request(2) by (auto dest: find_SomeD)
  then have "gr_ResultingGrantID req = None"
    using inv decided_request(3) by (auto simp: requests_inv_def split: option.splits)
  then show ?thesis using decided_request inv by (auto intro!: replace_request_inv)
next
  case (slack_request uid ts ch)
  let ?f = "\<lambda>r. if gr_UID r = uid then r\<lparr>gr_SlackChannel := Some ch, gr_SlackMessageTS := Some ts\<rparr> else r"
  have f: "gr_ResultingGrantID (?f r) = gr_ResultingGrantID r" "gr_Status (?f r) = gr_Status r" for r by auto
  have "set rs' = ?f ` set rs" using slack_request by (simp add: set_update_where)
  moreover have "map gr_UID rs' = map gr_UID rs" using slack_request by (simp add: map_update_where)
  ultimately show ?thesis using f inv by (rule requests_inv_image)
qed (use inv in simp)

lemma step_inv:
  assumes "store_step st st'" and inv: "store_inv st"
  shows "store_inv st'"
  using step_cases [OF assms(1)]
proof
  assume c: "grants_change (db_grants st) (db_grants st') \<and> requests_change (db_requests st) (db_requests st')"
  note g = grants_change_ids [OF conjunct1 [OF c]]
  have "requests_inv (grant_ids st') (db_requests st)"
    using inv g(3) by (auto simp: store_inv_def grant_ids_def intro: requests_inv_mono)
  then show ?thesis using c g inv requests_change_inv by (auto simp: store_inv_def)
next
  assume "approves st st'"
  then obtain uid b gb new now now' g r where ap: "approveGrantRequestTx uid b gb new now now' st = (Inr (g, r), st')"
    by (auto simp: approves_def)
  obtain req def where a: "g = approved_grant def req gb new now" "grant_insertable st g"
    "r = approved_request req b new now'" "db_grants st' = db_grants st @ [g]"
    "db_requests st' = replace_request r (db_requests st)"
    using ap by (rule approve_Inr)
  have fresh: "new \<notin> grant_ids st" "ag_UID g = new" "ag_StartsAt g < ag_ExpiresAt g"
    using a(1,2) by (auto simp: grant_insertable_def approved_grant_def grant_ids_def)
  have "requests_inv (grant_ids st') (db_requests st)"
    using inv a(4) by (auto simp: store_inv_def grant_ids_def intro: requests_inv_mono)
  then have "requests_inv (grant_ids st') (db_requests st')"
    unfolding a(5)
  proof (rule replace_request_inv)
    have "\<forall>x\<in>set (db_requests st). gr_ResultingGrantID x \<noteq> Some new"
      using inv fresh(1) by (fastforce simp: store_inv_def requests_inv_def split: option.splits)
    then show "case gr_ResultingGrantID r of None \<Rightarrow> gr_Status r \<noteq> GrantRequestApproved
      | Some g \<Rightarrow> gr_Status r = GrantRequestApproved \<and> g \<in> grant_ids st' \<and>
          (\<forall>x\<in>set (db_requests st). gr_ResultingGrantID x \<noteq> Some g)"
      using a(3,4) fresh(2) by (simp add: approved_request_def grant_ids_def)
  qed
  then show ?thesis using inv a(4) fresh by (auto simp: store_inv_def grant_ids_def)
qed

lemma store_run_inv: "store_step\<^sup>*\<^sup>* st st' \<Longrightarrow> store_inv st \<Longrightarrow> store_inv st'"
  by (induction rule: rtranclp_induct) (auto intro: step_inv)

section \<open>Revocation is permanent\<close>

definition grant_dead :: "db \<Rightarrow> uuid \<Rightarrow> bool" where
  "grant_dead st uid \<longleftrightarrow> uid \<in> grant_ids st \<and> (\<forall>g\<in>set (db_grants st). ag_UID g = uid \<longrightarrow> ag_RevokedAt g \<noteq> None)"

lemma step_dead: "store_step st st' \<Longrightarrow> grant_dead st uid \<Longrightarrow> grant_dead st' uid"
proof -
  assume s: "store_step st st'" and d: "grant_dead st uid"
  from step_cases [OF s] show ?thesis
  proof
    assume c: "grants_change (db_grants st) (db_grants st') \<and> requests_change (db_requests st) (db_requests st')"
    from conjunct1 [OF c] show ?thesis
    proof cases
      case same_grants
      then show ?thesis using d by (simp add: grant_dead_def grant_ids_def)
    next
      case (new_grant g)
      then show ?thesis using d by (auto simp: grant_dead_def grant_ids_def)
    next
      case (revoked_grant uid' now b)
      then show ?thesis using d by (auto simp: grant_dead_def grant_ids_def map_update_where set_update_where)
    qed
  next
    assume "approves st st'"
    then obtain uid' b gb new now now' g r where ap: "approveGrantRequestTx uid' b gb new now now' st = (Inr (g, r), st')"
      by (auto simp: approves_def)
    obtain req def where "grant_insertable st g" "db_grants st' = db_grants st @ [g]"
      using ap by (rule approve_Inr)
    then show ?thesis using d by (auto simp: grant_dead_def grant_ids_def grant_insertable_def)
  qed
qed

lemma run_dead: "store_step\<^sup>*\<^sup>* st st' \<Longrightarrow> grant_dead st uid \<Longrightarrow> grant_dead st' uid"
  by (induction rule: rtranclp_induct) (auto intro: step_dead)

lemma RevokeGrant_dead:
  assumes "RevokeGrant uid b now st = (Inr u, st')" and "store_inv st"
  shows "grant_dead st' uid"
proof -
  let ?hit = "\<lambda>g. ag_UID g = uid \<and> ag_RevokedAt g = None"
  obtain st1 where "same_tables st st1" and ne: "filter ?hit (db_grants st1) \<noteq> []"
    and st': "st' = st1\<lparr>db_grants := update_where ?hit
       (\<lambda>g. g\<lparr>ag_RevokedAt := Some now, ag_RevokedBy := Some b\<rparr>) (db_grants st1)\<rparr>"
    using write_stmt_Inr [OF assms(1) [unfolded RevokeGrant_def]] by (auto simp: Let_def split: if_splits)
  then have "\<exists>g\<in>set (db_grants st). ?hit g" by (auto simp: filter_empty_conv same_tables_select)
  with st' \<open>same_tables st st1\<close> show ?thesis
    by (auto simp: grant_dead_def grant_ids_def map_update_where set_update_where same_tables_select)
qed

section \<open>Active grants\<close>

lemma populate_Inr:
  assumes "populateGrantCounters g st = (Inr g', st')"
  shows "g' = g\<lparr>ag_QueryCount := count_queries g st, ag_BytesTransferred := sum_bytes g st\<rparr>" and "same_tables st st'"
proof -
  obtain n s1 m s2 where a: "read_stmt (\<lambda>s. Inr (count_queries g s)) st = (Inr n, s1)"
    "read_stmt (\<lambda>s. Inr (sum_bytes g s)) s1 = (Inr m, s2)" "st' = s2"
    "g' = g\<lparr>ag_QueryCount := n, ag_BytesTransferred := m\<rparr>"
    using assms by (auto simp: populateGrantCounters_def and_then_Inr)
  note r1 = read_stmt_Inr [OF a(1)] and r2 = read_stmt_Inr [OF a(2)]
  have st2: "same_tables st s2" using r1 r2 same_tables_trans by blast
  then show "same_tables st st'" using a(3) by simp
  have "n = count_queries g st" using r1 by (auto simp: count_queries_def same_tables_select)
  moreover have "m = sum_bytes g st" using r2 st2 by (auto simp: sum_bytes_def same_tables_select)
  ultimately show "g' = g\<lparr>ag_QueryCount := count_queries g st, ag_BytesTransferred := sum_bytes g st\<rparr>"
    using a(4) by simp
qed

lemma newest_first_hd:
  assumes "newest_first gs = g # gs'"
  shows "g \<in> set gs" and "\<forall>x\<in>set gs. ag_CreatedAt x \<le> ag_CreatedAt g"
proof -
  have "set gs = insert g (set gs')" using assms by (metis list.simps(15) newest_first_def set_sort)
  then show "g \<in> set gs" by simp
  have "sorted (map (\<lambda>g. - ag_CreatedAt g) (g # gs'))" using assms by (metis newest_first_def sorted_sort_key)
  then show "\<forall>x\<in>set gs. ag_CreatedAt x \<le> ag_CreatedAt g" using \<open>set gs = insert g (set gs')\<close> by auto
qed

lemma newest_first_Nil: "newest_first gs = [] \<longleftrightarrow> gs = []"
  by (metis newest_first_def set_empty2 set_sort)

lemma GetActiveGrant_Inr:
  assumes "GetActiveGrant u d now st = (Inr g', st')"
  obtains g where "g \<in> set (db_grants st)" and "ag_UserID g = u" and "ag_DatabaseID g = d" and "grant_active now g"
    and "\<forall>x\<in>set (db_grants st). ag_UserID x = u \<and> ag_DatabaseID x = d \<and> grant_active now x \<longrightarrow> ag_CreatedAt x \<le> ag_CreatedAt g"
    and "g' = g\<lparr>ag_QueryCount := count_queries g st, ag_BytesTransferred := sum_bytes g st\<rparr>"
proof -
  let ?P = "\<lambda>g. ag_UserID g = u \<and> ag_DatabaseID g = d \<and> grant_active now g"
  obtain g s1 where a: "read_stmt (\<lambda>s. case newest_first (filter ?P (db_grants s)) of
        [] \<Rightarrow> Inl ErrNoActiveGrant | g # _ \<Rightarrow> Inr g) st = (Inr g, s1)" "populateGrantCounters g s1 = (Inr g', st')"
    using assms by (auto simp: GetActiveGrant_def and_then_Inr)
  then obtain gs' where s: "same_tables st s1" and n: "newest_first (filter ?P (db_grants s1)) = g # gs'"
    using read_stmt_Inr [OF a(1)] by (auto split: list.splits)
  note h = newest_first_hd [OF n]
  have "count_queries g s1 = count_queries g st" "sum_bytes g s1 = sum_bytes g st"
    using s by (simp_all add: count_queries_def sum_bytes_def same_tables_select)
  with populate_Inr(1) [OF a(2)]
  have "g' = g\<lparr>ag_QueryCount := count_queries g st, ag_BytesTransferred := sum_bytes g st\<rparr>" by simp
  with h s show ?thesis by (intro that [of g]) (auto simp: same_tables_select)
qed

lemma and_then_same:
  assumes "same_tables st (snd r)" and "\<And>x st1. same_tables st st1 \<Longrightarrow> same_tables st (snd (k x st1))"
  shows "same_tables st (snd (and_then r k))"
  using assms by (cases r; cases "fst r") (auto simp: and_then_def)

lemma read_stmt_same_snd: "same_tables st st1 \<Longrightarrow> same_tables st (snd (read_stmt f st1))"
  by (metis prod.collapse read_stmt_same same_tables_trans)

lemma populate_same: "same_tables st st1 \<Longrightarrow> same_tables st (snd (populateGrantCounters g st1))"
  unfolding populateGrantCounters_def by (intro and_then_same read_stmt_same_snd) auto

lemma GetActiveGrant_same: "same_tables st (snd (GetActiveGrant u d now st))"
  unfolding GetActiveGrant_def by (intro and_then_same read_stmt_same_snd populate_same) auto

lemma GetGrantByUID_same: "same_tables st st1 \<Longrightarrow> same_tables st (snd (GetGrantByUID uid st1))"
  unfolding GetGrantByUID_def by (intro and_then_same read_stmt_same_snd populate_same) auto

section \<open>A sample store\<close>

definition sample_db :: db where
  "sample_db = \<lparr>
     db_users = [\<lparr>usr_UID = 1, usr_Username = ''alice'', usr_PasswordHash = [], usr_Roles = [''connector''],
                  usr_RateLimitExempt = False, usr_PasswordChangedAt = None, usr_CreatedAt = 0,
                  usr_UpdatedAt = 0, usr_DeletedAt = None, usr_ProtocolData = None\<rparr>],
     db_servers = [\<lparr>srv_UID = 2, srv_Name = ''app'', srv_Description = [], srv_Host = ''h'', srv_Port = 5432,
                    srv_DatabaseName = ''app'', srv_Username = ''u'', srv_Password = [], srv_PasswordEncrypted = [], srv_SSLMode = [], srv_Protocol = ''postgresql'',
                    srv_OracleServiceName = None, srv_ViaUID = None, srv_ProtocolData = None, srv_Listable = True, srv_CreatedBy = None, srv_CreatedAt = 0, srv_UpdatedAt = 0,
                    srv_DeletedAt = None\<rparr>],
     db_grants = [],
     db_definitions = [\<lparr>gd_UID = 3, gd_Name = ''ro'', gd_Description = [], gd_DurationSeconds = 60,
                        gd_Controls = [''read_only''], gd_MaxQueryCounts = Some 10, gd_MaxBytesTransferred = None,
                        gd_AutoApprove = False, gd_GroupUIDs = [], gd_DatabaseUIDs = [], gd_IsActive = True,
                        gd_CreatedBy = 1, gd_CreatedAt = 0\<rparr>],
     db_requests = [\<lparr>gr_UID = 4, gr_UserID = 1, gr_GrantDefinitionID = 3, gr_DatabaseID = 2, gr_Justification = [],
                     gr_Status = GrantRequestPending, gr_RequestedAt = 0, gr_DecidedAt = None, gr_DecidedBy = None,
                     gr_DecisionReason = None, gr_ResultingGrantID = None, gr_SlackChannel = None,
                     gr_SlackMessageTS = None\<rparr>],
     db_connections = [], db_queries = [], db_groups = [], db_members = [], db_audit = [], db_rows = [], db_keys = [],
     db_oauth = [], db_identities = [], db_faults = []\<rparr>"

text \<open>The sample after approval, and after the revocation of the resulting grant.\<close>

definition sample_approved :: db where
  "sample_approved = snd (ApproveGrantRequest 4 1 5 7 8 sample_db)"

definition sample_revoked :: db where
  "sample_revoked = snd (RevokeGrant 5 1 9 sample_approved)"

lemma sample_inv: "store_inv sample_db"
  by (simp add: store_inv_def requests_inv_def sample_db_def)

lemma sample_steps: "store_step sample_db sample_approved" "store_step sample_approved sample_revoked"
  unfolding sample_approved_def sample_revoked_def ApproveGrantRequest_def
  by (metis step_Approve prod.collapse) (metis step_RevokeGrant prod.collapse)

section \<open>Properties\<close>

text \<open>C6. Approving a request is all or nothing, whatever statement of the transaction fails:
  an error leaves every table as it was; a success found a pending request with an active
  definition, added exactly one grant (for the request's user and database, with the
  definition's controls, quotas and duration, and fresh identifier) and marked that request,
  and only that one, approved with this grant.\<close>

theorem approve_all_or_nothing:
  "case approveGrantRequestTx uid decidedBy grantedBy newUID now now' st of
     (Inl e, st') \<Rightarrow> same_tables st st'
   | (Inr (g, r), st') \<Rightarrow>
       (\<exists>req def. find_request uid st = Some req \<and> gr_Status req = GrantRequestPending \<and>
          find_definition (gr_GrantDefinitionID req) st = Some def \<and> gd_IsActive def \<and>
          newUID \<notin> grant_ids st \<and> g = approved_grant def req grantedBy newUID now \<and>
          r = approved_request req decidedBy newUID now' \<and>
          db_grants st' = db_grants st @ [g] \<and> db_requests st' = replace_request r (db_requests st))"
proof (cases "approveGrantRequestTx uid decidedBy grantedBy newUID now now' st")
  case (Pair res st')
  show ?thesis
  proof (cases res)
    case (Inl e)
    then show ?thesis using Pair by (auto simp: approveGrantRequestTx_def dest: RunInTx_Inl)
  next
    case (Inr gr)
    then obtain g r where ap: "approveGrantRequestTx uid decidedBy grantedBy newUID now now' st = (Inr (g, r), st')"
      using Pair by (cases gr) auto
    obtain req def where "find_request uid st = Some req" "gr_Status req = GrantRequestPending"
      "find_definition (gr_GrantDefinitionID req) st = Some def" "gd_IsActive def"
      "g = approved_grant def req grantedBy newUID now" "grant_insertable st g"
      "r = approved_request req decidedBy newUID now'" "db_grants st' = db_grants st @ [g]"
      "db_requests st' = replace_request r (db_requests st)"
      using ap by (rule approve_Inr)
    then show ?thesis using ap by (auto simp: grant_insertable_def grant_ids_def approved_grant_def)
  qed
qed

text \<open>C5. A decision is final: once a request has left the pending state, no sequence of store
  operations, with or without database faults, changes its status, decider, reason, decision
  time or resulting grant.\<close>

theorem request_decided_once:
  assumes "store_step\<^sup>*\<^sup>* st st'" and "decision_in st uid = Some d" and "\<not> undecided d"
  shows "decision_in st' uid = Some d"
  using assms by (rule requests.run_keeps_decided)

theorem request_decided_once_witness:
  "decision_in sample_revoked 4 = Some (GrantRequestApproved, Some 8, Some 1, None, Some 5)"
proof (rule request_decided_once)
  show "store_step\<^sup>*\<^sup>* sample_approved sample_revoked" using sample_steps(2) by blast
  show "decision_in sample_approved 4 = Some (GrantRequestApproved, Some 8, Some 1, None, Some 5)" by code_simp
qed (simp add: undecided_def)

text \<open>C4. The consistency of the grant tables is an invariant of every sequence of store
  operations: keys are unique, time windows are proper, a request names a grant exactly when it
  is approved, that grant exists, and no grant results from two requests.\<close>

theorem store_invariant:
  assumes "store_step\<^sup>*\<^sup>* st st'" and "store_inv st"
  shows "store_inv st'"
  using assms by (rule store_run_inv)

theorem store_invariant_witness: "store_inv sample_revoked"
proof (rule store_invariant [OF _ sample_inv])
  show "store_step\<^sup>*\<^sup>* sample_db sample_revoked" using sample_steps by auto
qed

text \<open>Revocation is permanent: after a successful \<open>RevokeGrant\<close>, whatever the store does
  next and at whatever time, \<open>GetActiveGrant\<close> never hands out that grant again.\<close>

theorem revoked_grant_never_active:
  assumes "RevokeGrant uid revokedBy now st = (Inr u, st1)" and "store_inv st" and "store_step\<^sup>*\<^sup>* st1 st2"
    and "GetActiveGrant user database later_time st2 = (Inr g, st3)"
  shows "ag_UID g \<noteq> uid"
proof -
  have "grant_dead st2 uid" using RevokeGrant_dead [OF assms(1,2)] run_dead [OF assms(3)] by blast
  obtain g0 where "g0 \<in> set (db_grants st2)" "grant_active later_time g0" "ag_UID g = ag_UID g0"
    using assms(4) by (rule GetActiveGrant_Inr) auto
  with \<open>grant_dead st2 uid\<close> show ?thesis by (auto simp: grant_dead_def grant_active_def)
qed

theorem revoked_grant_never_active_witness:
  "ag_UID (projr (fst (GetActiveGrant 1 2 20
     (snd (CreateGrant (BuildGrantFromDefinition (hd (db_definitions sample_db)) 1 2 1 10) 6 10 sample_revoked))))) \<noteq> 5"
proof (rule revoked_grant_never_active)
  let ?st2 = "snd (CreateGrant (BuildGrantFromDefinition (hd (db_definitions sample_db)) 1 2 1 10) 6 10 sample_revoked)"
  show "RevokeGrant 5 1 9 sample_approved = (Inr (), sample_revoked)"
  proof -
    have "fst (RevokeGrant 5 1 9 sample_approved) = Inr ()" by code_simp
    then show ?thesis unfolding sample_revoked_def by (metis prod.collapse)
  qed
  show "store_inv sample_approved" using step_inv [OF sample_steps(1) sample_inv] .
  show "store_step\<^sup>*\<^sup>* sample_revoked ?st2" by (metis step_CreateGrant prod.collapse r_into_rtranclp)
  have "isl (fst (GetActiveGrant 1 2 20 ?st2)) = False" by code_simp
  then show "GetActiveGrant 1 2 20 ?st2 = (Inr (projr (fst (GetActiveGrant 1 2 20 ?st2))), snd (GetActiveGrant 1 2 20 ?st2))"
    by (metis prod.collapse sum.collapse(2))
qed

lemma GetActiveGrant_correct:
  "(case GetActiveGrant user database now st of
      (Inl e, st') \<Rightarrow> same_tables st st'
    | (Inr g', st') \<Rightarrow> same_tables st st' \<and>
        (\<exists>g\<in>set (db_grants st). ag_UserID g = user \<and> ag_DatabaseID g = database \<and> grant_active now g \<and>
           g' = g\<lparr>ag_QueryCount := count_queries g st, ag_BytesTransferred := sum_bytes g st\<rparr> \<and>
           list_all (\<lambda>x. ag_CreatedAt x \<le> ag_CreatedAt g)
             (filter (\<lambda>x. ag_UserID x = user \<and> ag_DatabaseID x = database \<and> grant_active now x) (db_grants st))))
   \<and> (fst (GetActiveGrant user database now (st\<lparr>db_faults := []\<rparr>)) = Inl ErrNoActiveGrant \<longleftrightarrow>
      filter (\<lambda>x. ag_UserID x = user \<and> ag_DatabaseID x = database \<and> grant_active now x) (db_grants st) = [])"
proof (rule conjI)
  let ?P = "\<lambda>x. ag_UserID x = user \<and> ag_DatabaseID x = database \<and> grant_active now x"
  have same: "same_tables st (snd (GetActiveGrant user database now st))"
    by (rule GetActiveGrant_same)
  show "case GetActiveGrant user database now st of
      (Inl e, st') \<Rightarrow> same_tables st st'
    | (Inr g', st') \<Rightarrow> same_tables st st' \<and> (\<exists>g\<in>set (db_grants st). ag_UserID g = user \<and>
        ag_DatabaseID g = database \<and> grant_active now g \<and>
        g' = g\<lparr>ag_QueryCount := count_queries g st, ag_BytesTransferred := sum_bytes g st\<rparr> \<and>
        list_all (\<lambda>x. ag_CreatedAt x \<le> ag_CreatedAt g) (filter ?P (db_grants st)))"
  proof (cases "GetActiveGrant user database now st")
    case (Pair r st')
    show ?thesis
    proof (cases r)
      case (Inr g')
      then have "GetActiveGrant user database now st = (Inr g', st')" using Pair by simp
      then obtain g where "g \<in> set (db_grants st)" "ag_UserID g = user" "ag_DatabaseID g = database" "grant_active now g"
        "\<forall>x\<in>set (db_grants st). ag_UserID x = user \<and> ag_DatabaseID x = database \<and> grant_active now x \<longrightarrow>
           ag_CreatedAt x \<le> ag_CreatedAt g"
        "g' = g\<lparr>ag_QueryCount := count_queries g st, ag_BytesTransferred := sum_bytes g st\<rparr>"
        by (rule GetActiveGrant_Inr)
      then show ?thesis using same by (auto simp: list_all_iff Inr Pair)
    qed (use Pair same in simp)
  qed
  show "fst (GetActiveGrant user database now (st\<lparr>db_faults := []\<rparr>)) = Inl ErrNoActiveGrant \<longleftrightarrow>
      filter ?P (db_grants st) = []"
    using newest_first_Nil [of "filter ?P (db_grants st)"]
    by (cases "newest_first (filter ?P (db_grants st))")
      (simp_all add: GetActiveGrant_def read_stmt_def and_then_def populateGrantCounters_def)
qed

text \<open>C9. \<open>GetActiveGrant\<close> hands out the right grant: it belongs to the user and the database,
  is not revoked and in its time window, is the newest such grant, and carries the query count
  and byte total of its window; without faults it finds one exactly when one exists.\<close>

theorem active_grant_correct:
  "(case GetActiveGrant user database now st of
      (Inl e, st') \<Rightarrow> same_tables st st'
    | (Inr g', st') \<Rightarrow> same_tables st st' \<and>
        (\<exists>g\<in>set (db_grants st). ag_UserID g = user \<and> ag_DatabaseID g = database \<and>
           ag_RevokedAt g = None \<and> ag_StartsAt g \<le> now \<and> now < ag_ExpiresAt g \<and>
           g' = g\<lparr>ag_QueryCount := count_queries g st, ag_BytesTransferred := sum_bytes g st\<rparr> \<and>
           list_all (\<lambda>x. ag_CreatedAt x \<le> ag_CreatedAt g)
             (filter (\<lambda>x. ag_UserID x = user \<and> ag_DatabaseID x = database \<and>
                ag_RevokedAt x = None \<and> ag_StartsAt x \<le> now \<and> now < ag_ExpiresAt x) (db_grants st))))
   \<and> (fst (GetActiveGrant user database now (st\<lparr>db_faults := []\<rparr>)) = Inl ErrNoActiveGrant \<longleftrightarrow>
      filter (\<lambda>x. ag_UserID x = user \<and> ag_DatabaseID x = database \<and>
                ag_RevokedAt x = None \<and> ag_StartsAt x \<le> now \<and> now < ag_ExpiresAt x) (db_grants st) = [])"
  using GetActiveGrant_correct [where user = user and database = database and now = now and st = st] unfolding grant_active_def by (simp only: conj_assoc)

text \<open>A definition whose query quota does not fit the \<open>INT\<close> column of the grants table
  (the definitions table has a \<open>BIGINT\<close>) can never be approved: every attempt on a request for
  it fails and leaves the request as it was.\<close>

theorem oversized_quota_never_approved:
  assumes "find_request uid st = Some req" and "find_definition (gr_GrantDefinitionID req) st = Some def"
    and "gd_MaxQueryCounts def = Some n" and "2 ^ 31 \<le> n"
  shows "\<exists>e. fst (approveGrantRequestTx uid decidedBy grantedBy newUID now now' st) = Inl e
    \<and> same_tables st (snd (approveGrantRequestTx uid decidedBy grantedBy newUID now now' st))"
proof (cases "approveGrantRequestTx uid decidedBy grantedBy newUID now now' st")
  case (Pair res st')
  show ?thesis
  proof (cases res)
    case (Inl e)
    then show ?thesis using Pair RunInTx_Inl [of _ st e st'] by (auto simp: approveGrantRequestTx_def)
  next
    case (Inr gr)
    then obtain g r where "approveGrantRequestTx uid decidedBy grantedBy newUID now now' st = (Inr (g, r), st')"
      using Pair by (cases gr) auto
    then obtain req' def' where "find_request uid st = Some req'"
      "find_definition (gr_GrantDefinitionID req') st = Some def'"
      "g = approved_grant def' req' grantedBy newUID now" "grant_insertable st g" by (rule approve_Inr)
    then show ?thesis using assms
      by (simp add: grant_insertable_def approved_grant_def BuildGrantFromDefinition_def)
  qed
qed

theorem oversized_quota_never_approved_witness:
  "\<exists>e. fst (approveGrantRequestTx 4 (Some 1) 1 5 7 8 (sample_db\<lparr>db_definitions :=
      [(hd (db_definitions sample_db))\<lparr>gd_MaxQueryCounts := Some 3000000000\<rparr>]\<rparr>)) = Inl e
   \<and> same_tables (sample_db\<lparr>db_definitions := [(hd (db_definitions sample_db))\<lparr>gd_MaxQueryCounts := Some 3000000000\<rparr>]\<rparr>)
       (snd (approveGrantRequestTx 4 (Some 1) 1 5 7 8 (sample_db\<lparr>db_definitions :=
         [(hd (db_definitions sample_db))\<lparr>gd_MaxQueryCounts := Some 3000000000\<rparr>]\<rparr>)))"
  by (rule oversized_quota_never_approved [where req = "hd (db_requests sample_db)" and n = 3000000000 and
        def = "(hd (db_definitions sample_db))\<lparr>gd_MaxQueryCounts := Some 3000000000\<rparr>"])
    (simp_all add: sample_db_def find_request_def find_definition_def)

end
