(* ===== verification/Go_Text.thy ===== *)
theory Go_Text
  imports Prelude
begin

text \<open>
  The parts of Go's \<open>strings\<close>, \<open>unicode/utf8\<close> and \<open>regexp\<close> packages that the
  validators use. A Go string is a sequence of bytes, here \<^typ>\<open>string\<close> (a HOL character is
  one byte); functions that work on code points decode it as the Go runtime does, an invalid
  byte counting as U+FFFD of width one.
\<close>

section \<open>UTF-8\<close>

type_synonym rune = int

abbreviation code :: "char \<Rightarrow> int" where "code \<equiv> of_char"

definition cont_byte :: "int \<Rightarrow> bool" where
  "cont_byte b \<longleftrightarrow> 128 \<le> b \<and> b \<le> 191"

text \<open>The code point at the head of a non-empty byte sequence, and its width.\<close>

fun decode_rune :: "int list \<Rightarrow> rune \<times> nat" where
  "decode_rune (b0 # b1 # b2 # b3 # bs) =
     (if b0 < 128 then (b0, 1)
      else if 194 \<le> b0 \<and> b0 \<le> 223 \<and> cont_byte b1 then ((b0 - 192) * 64 + (b1 - 128), 2)
      else if 224 \<le> b0 \<and> b0 \<le> 239 \<and> cont_byte b1 \<and> cont_byte b2 \<and>
              (b0 = 224 \<longrightarrow> 160 \<le> b1) \<and> (b0 = 237 \<longrightarrow> b1 \<le> 159)
        then ((b0 - 224) * 4096 + (b1 - 128) * 64 + (b2 - 128), 3)
      else if 240 \<le> b0 \<and> b0 \<le> 244 \<and> cont_byte b1 \<and> cont_byte b2 \<and> cont_byte b3 \<and>
              (b0 = 240 \<longrightarrow> 144 \<le> b1) \<and> (b0 = 244 \<longrightarrow> b1 \<le> 143)
        then ((b0 - 240) * 262144 + (b1 - 128) * 4096 + (b2 - 128) * 64 + (b3 - 128), 4)
      else (65533, 1))"
| "decode_rune [b0, b1, b2] =
     (if b0 < 128 then (b0, 1)
      else if 194 \<le> b0 \<and> b0 \<le> 223 \<and> cont_byte b1 then ((b0 - 192) * 64 + (b1 - 128), 2)
      else if 224 \<le> b0 \<and> b0 \<le> 239 \<and> cont_byte b1 \<and> cont_byte b2 \<and>
              (b0 = 224 \<longrightarrow> 160 \<le> b1) \<and> (b0 = 237 \<longrightarrow> b1 \<le> 159)
        then ((b0 - 224) * 4096 + (b1 - 128) * 64 + (b2 - 128), 3)
      else (65533, 1))"
| "decode_rune [b0, b1] =
     (if b0 < 128 then (b0, 1)
      else if 194 \<le> b0 \<and> b0 \<le> 223 \<and> cont_byte b1 then ((b0 - 192) * 64 + (b1 - 128), 2)
      else (65533, 1))"
| "decode_rune [b0] = (if b0 < 128 then (b0, 1) else (65533, 1))"
| "decode_rune [] = (65533, 0)"

definition encode_rune :: "rune \<Rightarrow> string" where
  "encode_rune r = map char_of
     (if r < 128 then [r]
      else if r < 2048 then [192 + r div 64, 128 + r mod 64]
      else if r < 65536 then [224 + r div 4096, 128 + (r div 64) mod 64, 128 + r mod 64]
      else [240 + r div 262144, 128 + (r div 4096) mod 64, 128 + (r div 64) mod 64,
            128 + r mod 64])"

text \<open>A string as the sequence of its code points, each with the bytes it was read from.\<close>

function segs :: "string \<Rightarrow> (rune \<times> string) list" where
  "segs [] = []"
| "segs (c # cs) =
     (let (r, w) = decode_rune (map code (c # take 3 cs))
      in (r, c # take (w - 1) cs) # segs (drop (w - 1) cs))"
  by pat_completeness auto
termination by (relation "measure length") auto

definition runes :: "string \<Rightarrow> rune list" where
  "runes s = map fst (segs s)"

definition ascii :: "string \<Rightarrow> bool" where
  "ascii s \<longleftrightarrow> list_all (\<lambda>c. code c < 128) s"

lemma ascii_simps [simp]:
  "ascii []" "ascii (c # s) \<longleftrightarrow> code c < 128 \<and> ascii s"
  "ascii (s @ t) \<longleftrightarrow> ascii s \<and> ascii t"
  by (auto simp: ascii_def)

lemma decode_rune_ascii: "b < 128 \<Longrightarrow> decode_rune (b # bs) = (b, 1)"
  by (cases "b # bs" rule: decode_rune.cases) auto

lemma segs_ascii_Cons [simp]: "code c < 128 \<Longrightarrow> segs (c # s) = (code c, [c]) # segs s"
  by (simp add: decode_rune_ascii)

declare segs.simps(2) [simp del]

lemma segs_ascii: "ascii s \<Longrightarrow> segs s = map (\<lambda>c. (code c, [c])) s"
  by (induction s) simp_all

lemma runes_ascii: "ascii s \<Longrightarrow> runes s = map code s"
  by (simp add: runes_def segs_ascii)

lemma segs_ascii_append: "ascii s \<Longrightarrow> segs (s @ t) = segs s @ segs t"
  by (induction s) simp_all

text \<open>An ASCII byte ends every incomplete sequence before it.\<close>

lemma decode_rune_stop:
  assumes "c < 128" and "us \<noteq> []"
  shows "decode_rune (take 4 (us @ c # vs)) = decode_rune (take 4 us)"
proof -
  have nc: "\<not> cont_byte c" using assms(1) by (simp add: cont_byte_def)
  consider (one) a where "us = [a]" | (two) a b where "us = [a, b]"
    | (three) a b d where "us = [a, b, d]" | (many) a b d e r where "us = a # b # d # e # r"
    using assms(2) by (metis list.exhaust)
  then show ?thesis
  proof cases
    case one
    then show ?thesis using nc by (cases vs; cases "tl vs") (auto simp: numeral_eq_Suc)
  next
    case two
    then show ?thesis using nc by (cases vs) (auto simp: numeral_eq_Suc)
  next
    case three
    then show ?thesis using nc by (auto simp: numeral_eq_Suc)
  next
    case many
    then show ?thesis by simp
  qed
qed

lemma decode_rune_width: "decode_rune bs = (r, w) \<Longrightarrow> w \<le> length bs"
  by (cases bs rule: decode_rune.cases) (auto split: if_splits)

lemma segs_append: "code c < 128 \<Longrightarrow> segs (u @ c # v) = segs u @ segs (c # v)"
proof (induction u rule: segs.induct)
  case (2 d ds)
  obtain r w where rw: "decode_rune (map code (d # take 3 ds)) = (r, w)" by force
  have wl: "w - 1 \<le> length ds" using decode_rune_width [OF rw] by simp
  have 4: "take 4 (x # xs) = x # take 3 xs" for x :: int and xs
    by (simp add: take_Cons')
  have "decode_rune (take 4 (map code (d # ds) @ code c # map code v)) =
      decode_rune (take 4 (map code (d # ds)))"
    by (rule decode_rune_stop) (use 2(2) in auto)
  moreover have "map code (d # take 3 (ds @ c # v)) = take 4 (map code (d # ds) @ code c # map code v)"
    and "map code (d # take 3 ds) = take 4 (map code (d # ds))"
    by (simp_all only: 4 append_Cons list.map map_append flip: take_map)
  ultimately have "decode_rune (map code (d # take 3 (ds @ c # v))) = (r, w)"
    using rw by simp
  then show ?case using 2(1) [OF rw [symmetric] refl 2(2)] rw wl
    by (simp add: segs.simps(2))
qed simp

lemma concat_segs: "concat (map snd (segs s)) = s"
proof (induction s rule: segs.induct)
  case (2 c cs)
  obtain r w where rw: "decode_rune (map code (c # take 3 cs)) = (r, w)" by force
  from 2 [OF rw [symmetric] refl] rw show ?case by (simp add: segs.simps(2))
qed simp

section \<open>Case and space\<close>

text \<open>
  \<open>unicode.ToUpper\<close>: complete on ASCII and Latin-1, and on the two other code points whose
  upper case is an ASCII letter (U+0131, U+017F); U+0250 stands for the code points whose upper
  case has a longer encoding. The remaining letters are left alone: their upper case is not
  ASCII either, so no comparison of the program with its ASCII keywords can tell.
\<close>

definition unicode_ToUpper :: "rune \<Rightarrow> rune" where
  "unicode_ToUpper r =
     (if 97 \<le> r \<and> r \<le> 122 then r - 32
      else if 224 \<le> r \<and> r \<le> 254 \<and> r \<noteq> 247 then r - 32
      else if r = 181 then 924 else if r = 255 then 376
      else if r = 305 then 73 else if r = 383 then 83
      else if r = 592 then 11375 else r)"

definition unicode_IsSpace :: "rune \<Rightarrow> bool" where
  "unicode_IsSpace r \<longleftrightarrow>
     (9 \<le> r \<and> r \<le> 13) \<or> r = 32 \<or> r = 133 \<or> r = 160 \<or> r = 5760 \<or> (8192 \<le> r \<and> r \<le> 8202) \<or>
     r = 8232 \<or> r = 8233 \<or> r = 8239 \<or> r = 8287 \<or> r = 12288"

definition ToUpper :: "string \<Rightarrow> string" where
  "ToUpper s = concat (map (\<lambda>(r, _). encode_rune (unicode_ToUpper r)) (segs s))"

text \<open>\<open>unicode.ToLower\<close> in the same way: complete on ASCII, Latin-1 and the two other code points whose lower
  case is an ASCII letter (U+0130, U+212A).\<close>

definition unicode_ToLower :: "rune \<Rightarrow> rune" where
  "unicode_ToLower r =
     (if 65 \<le> r \<and> r \<le> 90 then r + 32
      else if 192 \<le> r \<and> r \<le> 222 \<and> r \<noteq> 215 then r + 32
      else if r = 304 then 105 else if r = 8490 then 107 else r)"

definition ToLower :: "string \<Rightarrow> string" where
  "ToLower s = concat (map (\<lambda>(r, _). encode_rune (unicode_ToLower r)) (segs s))"

text \<open>\<open>strings.Fields\<close>: the maximal runs of code points that are not space.\<close>

fun fields_of :: "(rune \<times> string) list \<Rightarrow> string \<Rightarrow> string list" where
  "fields_of [] w = (if w = [] then [] else [w])"
| "fields_of ((r, bs) # xs) w =
     (if unicode_IsSpace r then (if w = [] then fields_of xs [] else w # fields_of xs []) else fields_of xs (w @ bs))"

definition Fields :: "string \<Rightarrow> string list" where
  "Fields s = fields_of (segs s) []"

text \<open>\<open>strings.Trim\<close> with a set of ASCII characters.\<close>

definition Trim :: "char list \<Rightarrow> string \<Rightarrow> string" where
  "Trim cs s = rev (dropWhile (\<lambda>c. c \<in> set cs) (rev (dropWhile (\<lambda>c. c \<in> set cs) s)))"

definition TrimPrefix :: "string \<Rightarrow> string \<Rightarrow> string" where
  "TrimPrefix s p = (if take (length p) s = p then drop (length p) s else s)"

definition TrimSpace :: "string \<Rightarrow> string" where
  "TrimSpace s =
     (let sp = (\<lambda>(r, _). unicode_IsSpace r)
      in concat (map snd (rev (dropWhile sp (rev (dropWhile sp (segs s)))))))"

definition HasPrefix :: "string \<Rightarrow> string \<Rightarrow> bool" where
  "HasPrefix s p \<longleftrightarrow> take (length p) s = p"

text \<open>\<open>strings.Index\<close>, with \<open>None\<close> for -1, and \<open>strings.LastIndex\<close>.\<close>

fun Index :: "string \<Rightarrow> string \<Rightarrow> nat option" where
  "Index [] p = (if p = [] then Some 0 else None)"
| "Index (c # s) p = (if HasPrefix (c # s) p then Some 0 else map_option Suc (Index s p))"

fun LastIndex :: "string \<Rightarrow> string \<Rightarrow> nat option" where
  "LastIndex [] p = (if p = [] then Some 0 else None)"
| "LastIndex (c # s) p =
     (case LastIndex s p of Some i \<Rightarrow> Some (Suc i)
      | None \<Rightarrow> (if HasPrefix (c # s) p then Some 0 else None))"

definition Contains :: "string \<Rightarrow> string \<Rightarrow> bool" where
  "Contains s p \<longleftrightarrow> Index s p \<noteq> None"

text \<open>\<open>strings.Split\<close> on a one-byte separator.\<close>

fun Split :: "string \<Rightarrow> char \<Rightarrow> string list" where
  "Split [] d = [[]]"
| "Split (c # s) d =
     (if c = d then [] # Split s d
      else (case Split s d of [] \<Rightarrow> [[c]] | p # ps \<Rightarrow> (c # p) # ps))"

lemma Split_not_Nil [simp]: "Split s d \<noteq> []"
  by (induction s) (auto split: list.splits)

lemma HasPrefix_iff: "HasPrefix s p \<longleftrightarrow> (\<exists>t. s = p @ t)"
proof
  assume "HasPrefix s p"
  then have "s = p @ drop (length p) s"
    by (metis HasPrefix_def append_take_drop_id)
  then show "\<exists>t. s = p @ t" by blast
qed (auto simp: HasPrefix_def)

lemma HasPrefix_append [simp]: "HasPrefix (p @ t) p"
  by (simp add: HasPrefix_def)

lemma Index_Some_split: "Index s p = Some i \<Longrightarrow> \<exists>t. s = take i s @ p @ t"
proof (induction s arbitrary: i)
  case Nil
  then show ?case by (auto split: if_splits)
next
  case (Cons c s)
  then show ?case by (auto simp: HasPrefix_iff split: if_splits)
qed

lemma Index_append: "\<exists>i. Index (s @ p @ t) p = Some i"
proof (induction s)
  case Nil
  have "HasPrefix (p @ t) p" by simp
  then show ?case by (cases "p @ t") auto
next
  case (Cons c s)
  then show ?case by auto
qed

lemma Contains_iff: "Contains s p \<longleftrightarrow> (\<exists>u v. s = u @ p @ v)"
  using Index_Some_split Index_append unfolding Contains_def by (metis not_None_eq)

lemma LastIndex_Some_split: "LastIndex s p = Some i \<Longrightarrow> i \<le> length s \<and> HasPrefix (drop i s) p"
  by (induction s arbitrary: i) (auto simp: HasPrefix_def split: option.splits if_splits)

text \<open>Upper-casing an ASCII string works byte by byte.\<close>

definition ascii_upper :: "char \<Rightarrow> char" where
  "ascii_upper c = (if 97 \<le> code c \<and> code c \<le> 122 then char_of (code c - 32) else c)"

lemma ToUpper_ascii: "ascii s \<Longrightarrow> ToUpper s = map ascii_upper s"
proof -
  have "encode_rune (unicode_ToUpper (code c)) = [ascii_upper c]" if "code c < 128" for c
    using that by (auto simp: encode_rune_def unicode_ToUpper_def ascii_upper_def)
  then show "ascii s \<Longrightarrow> ToUpper s = map ascii_upper s"
    by (induction s) (simp_all add: ToUpper_def)
qed

lemma ToUpper_ascii_append: "ascii s \<Longrightarrow> ToUpper (s @ t) = ToUpper s @ ToUpper t"
  by (simp add: ToUpper_def segs_ascii_append)

definition ascii_lower :: "char \<Rightarrow> char" where
  "ascii_lower c = (if 65 \<le> code c \<and> code c \<le> 90 then char_of (code c + 32) else c)"

lemma ToLower_ascii: "ascii s \<Longrightarrow> ToLower s = map ascii_lower s"
proof -
  have "encode_rune (unicode_ToLower (code c)) = [ascii_lower c]" if "code c < 128" for c
    using that by (auto simp: encode_rune_def unicode_ToLower_def ascii_lower_def)
  then show "ascii s \<Longrightarrow> ToLower s = map ascii_lower s"
    by (induction s) (simp_all add: ToLower_def)
qed

text \<open>Leading ASCII white space is trimmed.\<close>

lemma TrimSpace_leading:
  assumes "ascii w" and "list_all (\<lambda>c. unicode_IsSpace (code c)) w"
  shows "TrimSpace (w @ s) = TrimSpace s"
proof -
  have "list_all (\<lambda>(r, _). unicode_IsSpace r) (segs w)"
    using assms by (simp add: segs_ascii list.pred_map comp_def)
  then have "dropWhile (\<lambda>(r, _). unicode_IsSpace r) (segs w @ segs s) =
             dropWhile (\<lambda>(r, _). unicode_IsSpace r) (segs s)"
    by (simp add: dropWhile_append list_all_iff)
  then show ?thesis
    by (simp add: TrimSpace_def segs_ascii_append assms(1))
qed

section \<open>Regular expressions\<close>

text \<open>
  The operators that occur in the program's patterns, all of them case-insensitive: a literal
  character, \<open>\s\<close>, \<open>\b\<close>, \<open>[^)]\<close>, a class repeated zero or more times, sequence
  and choice. Matching is on code points; a state is the previous code point (for \<open>\b\<close>) and
  the rest of the input. The list of results is in the order Go prefers them (greedy
  repetitions first), so the first one is the match \<open>FindStringSubmatch\<close> reports.
\<close>

datatype regex =
    REps
  | RChr char
  | RSpace
  | RSpaces
  | RNotParens
  | RWordB
  | RSeq regex regex
  | RAlt regex regex

type_synonym rstate = "rune option \<times> rune list"

definition re_space :: "rune \<Rightarrow> bool" where
  "re_space r \<longleftrightarrow> r = 9 \<or> r = 10 \<or> r = 12 \<or> r = 13 \<or> r = 32"

definition re_word :: "rune option \<Rightarrow> bool" where
  "re_word q = (case q of None \<Rightarrow> False
     | Some r \<Rightarrow> (48 \<le> r \<and> r \<le> 57) \<or> (65 \<le> r \<and> r \<le> 90) \<or> (97 \<le> r \<and> r \<le> 122) \<or> r = 95)"

text \<open>Simple case folding: U+017F folds to S and U+212A to K.\<close>

definition fold_upper :: "rune \<Rightarrow> rune" where
  "fold_upper r = (if 97 \<le> r \<and> r \<le> 122 then r - 32
     else if r = 383 then 83 else if r = 8490 then 75 else r)"

definition fold_eq :: "rune \<Rightarrow> char \<Rightarrow> bool" where
  "fold_eq r c \<longleftrightarrow> fold_upper r = fold_upper (code c)"

fun rx_star :: "(rune \<Rightarrow> bool) \<Rightarrow> rune option \<Rightarrow> rune list \<Rightarrow> rstate list" where
  "rx_star f p [] = [(p, [])]"
| "rx_star f p (r # rs) = (if f r then rx_star f (Some r) rs else []) @ [(p, r # rs)]"

fun rx_one :: "(rune \<Rightarrow> bool) \<Rightarrow> rstate \<Rightarrow> rstate list" where
  "rx_one f (p, []) = []"
| "rx_one f (p, r # rs) = (if f r then [(Some r, rs)] else [])"

definition next_rune :: "rune list \<Rightarrow> rune option" where
  "next_rune rs = (case rs of [] \<Rightarrow> None | r # _ \<Rightarrow> Some r)"

primrec rx :: "regex \<Rightarrow> rstate \<Rightarrow> rstate list" where
  "rx REps st = [st]"
| "rx (RChr c) st = rx_one (\<lambda>r. fold_eq r c) st"
| "rx RSpace st = rx_one re_space st"
| "rx RSpaces st = rx_star re_space (fst st) (snd st)"
| "rx RNotParens st = rx_star (\<lambda>r. r \<noteq> 41) (fst st) (snd st)"
| "rx RWordB st = (if re_word (fst st) \<noteq> re_word (next_rune (snd st)) then [st] else [])"
| "rx (RSeq a b) st = concat (map (rx b) (rx a st))"
| "rx (RAlt a b) st = rx a st @ rx b st"

fun rx_search :: "regex \<Rightarrow> rune option \<Rightarrow> rune list \<Rightarrow> rstate option" where
  "rx_search re p [] = (case rx re (p, []) of [] \<Rightarrow> None | st # _ \<Rightarrow> Some st)"
| "rx_search re p (r # rs) =
     (case rx re (p, r # rs) of st # _ \<Rightarrow> Some st | [] \<Rightarrow> rx_search re (Some r) rs)"

definition MatchString :: "regex \<Rightarrow> string \<Rightarrow> bool" where
  "MatchString re s \<longleftrightarrow> rx_search re None (runes s) \<noteq> None"

primrec rlit :: "string \<Rightarrow> regex" where
  "rlit [] = REps"
| "rlit (c # s) = RSeq (RChr c) (rlit s)"

primrec rseq :: "regex list \<Rightarrow> regex" where
  "rseq [] = REps"
| "rseq (r # rs) = RSeq r (rseq rs)"

definition RSpacesPlus :: regex where "RSpacesPlus = RSeq RSpace RSpaces"
definition ROpt :: "regex \<Rightarrow> regex" where "ROpt r = RAlt r REps"

text \<open>The unanchored search tries every position.\<close>

lemma rx_search_iff:
  "rx_search re p rs \<noteq> None \<longleftrightarrow>
     (\<exists>us vs. rs = us @ vs \<and> rx re (if us = [] then p else Some (last us), vs) \<noteq> [])"
proof (induction rs arbitrary: p)
  case Nil
  then show ?case by (auto split: list.splits)
next
  case (Cons r rs)
  show ?case
  proof (cases "rx re (p, r # rs)")
    case Nil
    then have "rx_search re p (r # rs) = rx_search re (Some r) rs" by simp
    also have "\<dots> \<noteq> None \<longleftrightarrow>
      (\<exists>us vs. rs = us @ vs \<and> rx re (if us = [] then Some r else Some (last us), vs) \<noteq> [])"
      by (rule Cons.IH)
    also have "\<dots> \<longleftrightarrow> (\<exists>us vs. r # rs = us @ vs \<and>
        rx re (if us = [] then p else Some (last us), vs) \<noteq> [])" (is "?L \<longleftrightarrow> ?R")
    proof
      assume ?L
      then obtain us vs where "rs = us @ vs"
        and "rx re (if us = [] then Some r else Some (last us), vs) \<noteq> []" by blast
      then show ?R by (intro exI [of _ "r # us"] exI [of _ vs]) auto
    next
      assume ?R
      then obtain us vs where *: "r # rs = us @ vs"
        "rx re (if us = [] then p else Some (last us), vs) \<noteq> []" by blast
      with Nil obtain us' where "us = r # us'" by (cases us) auto
      with * show ?L by (intro exI [of _ us'] exI [of _ vs]) auto
    qed
    finally show ?thesis .
  next
    case (Cons st sts)
    then have "\<exists>us vs. r # rs = us @ vs \<and> rx re (if us = [] then p else Some (last us), vs) \<noteq> []"
      by (intro exI [of _ "[]"] exI [of _ "r # rs"]) simp
    with Cons show ?thesis by simp
  qed
qed

section \<open>Matching a literal\<close>

lemma fold_upper_ascii_upper [simp]: "fold_upper (code (ascii_upper c)) = fold_upper (code c)"
  by (auto simp: ascii_upper_def fold_upper_def)

lemma ascii_upper_letter:
  assumes "65 \<le> code (ascii_upper c)" and "code (ascii_upper c) \<le> 95"
  shows "code c < 128 \<and> \<not> unicode_IsSpace (code c)"
  using assms by (auto simp: ascii_upper_def unicode_IsSpace_def split: if_splits)

lemma rx_rlit:
  "map ascii_upper k = p \<Longrightarrow> \<exists>q. rx (rlit p) (pr, map code k @ rs) = [(q, rs)]"
  by (induction k arbitrary: p pr) (auto simp: fold_eq_def)

lemma runes_append: "code c < 128 \<Longrightarrow> runes (u @ c # v) = runes u @ runes (c # v)"
  by (simp add: runes_def segs_append)

lemma MatchString_rlit:
  assumes "map ascii_upper k = p" and "ascii k" and "k \<noteq> []"
  shows "MatchString (rlit p) (u @ k @ v)"
proof -
  obtain c k' where k: "k = c # k'" using assms(3) by (cases k) auto
  have "runes (u @ k @ v) = runes u @ map code k @ runes v"
    using assms(2) by (simp add: k runes_append) (simp add: runes_def segs_ascii_append segs_ascii comp_def)
  moreover have "rx (rlit p) (if runes u = [] then None else Some (last (runes u)),
      map code k @ runes v) \<noteq> []"
    using rx_rlit [OF assms(1)] by (metis list.distinct(1))
  ultimately show ?thesis
    unfolding MatchString_def rx_search_iff by blast
qed

end
