(* ===== verification/Validation.thy ===== *)
theory Validation
  imports Go_Text Models
begin

text \<open>
  \<open>internal/proxy/shared/validation.go\<close>: the checks of a SQL statement and of a MongoDB
  command against the controls of a grant. BSON documents are opaque; the accessors of the
  MongoDB driver are the fields of \<open>bson_lib\<close>, a parameter of the definitions that use them.
\<close>

section \<open>Errors and keyword tables\<close>

datatype validation_error =
    ErrReadOnlyViolation
  | ErrDDLBlocked
  | ErrPasswordChangeBlocked
  | ErrOraclePatternBlocked
  | ErrMySQLPatternBlocked
  | ErrMongoReadOnly
  | ErrMongoDDLBlocked
  | ErrMongoCommandBlocked
  | ErrMongoUnknownCommand
  | ErrMongoDatabaseBlocked

text \<open>\<open>Error\<close> of the sentinel errors.\<close>

fun validation_text :: "validation_error \<Rightarrow> string" where
  "validation_text ErrReadOnlyViolation = ''write operations not permitted with read-only access''"
| "validation_text ErrDDLBlocked = ''DDL operations not permitted: your access grant blocks schema modifications''"
| "validation_text ErrPasswordChangeBlocked = ''password modification is not allowed through the proxy''"
| "validation_text ErrOraclePatternBlocked = ''blocked: this Oracle operation is not permitted through the proxy''"
| "validation_text ErrMySQLPatternBlocked = ''blocked: this MySQL operation is not permitted through the proxy''"
| "validation_text ErrMongoReadOnly = ''dbbat: grant is read-only''"
| "validation_text ErrMongoDDLBlocked = ''dbbat: grant blocks DDL operations''"
| "validation_text ErrMongoCommandBlocked = ''dbbat: command not permitted through dbbat''"
| "validation_text ErrMongoUnknownCommand = ''dbbat: command not on the proxy allowlist''"
| "validation_text ErrMongoDatabaseBlocked = ''dbbat: access to this database is not permitted''"

definition writeKeywords :: "string list" where
  "writeKeywords = [''INSERT'', ''UPDATE'', ''DELETE'', ''DROP'', ''TRUNCATE'',
     ''CREATE'', ''ALTER'', ''GRANT'', ''REVOKE'', ''MERGE'', ''REPLACE'']"

definition ddlKeywords :: "string list" where
  "ddlKeywords = [''CREATE'', ''ALTER'', ''DROP'', ''TRUNCATE'']"

definition oracleBlockedPatterns :: "regex list" where
  "oracleBlockedPatterns =
    [rseq [rlit ''ALTER'', RSpacesPlus, rlit ''SYSTEM''],
     rseq [rlit ''CREATE'', RSpacesPlus, rlit ''DATABASE'', RSpacesPlus, rlit ''LINK''],
     rlit ''DBMS_SCHEDULER'', rlit ''DBMS_JOB'', rlit ''UTL_HTTP'', rlit ''UTL_TCP'',
     rlit ''UTL_FILE'', rlit ''DBMS_PIPE'']"

definition mysqlBlockedPatterns :: "regex list" where
  "mysqlBlockedPatterns =
    [rseq [RWordB, rlit ''LOAD'', RSpacesPlus, rlit ''DATA'', RSpacesPlus,
           ROpt (RSeq (rlit ''LOCAL'') RSpacesPlus), rlit ''INFILE'', RWordB],
     rseq [RWordB, rlit ''INTO'', RSpacesPlus, RAlt (rlit ''OUT'') (rlit ''DUMP''),
           rlit ''FILE'', RWordB],
     rseq [RWordB, rlit ''SET'', RSpacesPlus, rlit ''GLOBAL'', RWordB],
     rseq [RWordB, rlit ''SET'', RSpacesPlus, rlit ''PASSWORD'', RWordB]]"

section \<open>SQL\<close>

fun has_any_prefix :: "string \<Rightarrow> string list \<Rightarrow> bool" where
  "has_any_prefix s [] = False"
| "has_any_prefix s (k # ks) = (if HasPrefix s k then True else has_any_prefix s ks)"

definition IsWriteQuery :: "string \<Rightarrow> bool" where
  "IsWriteQuery sql = has_any_prefix (ToUpper (TrimSpace sql)) writeKeywords"

definition IsDDLQuery :: "string \<Rightarrow> bool" where
  "IsDDLQuery sql = has_any_prefix (ToUpper (TrimSpace sql)) ddlKeywords"

definition IsPasswordChangeQuery :: "string \<Rightarrow> bool" where
  "IsPasswordChangeQuery sql =
     (let upper = ToUpper (TrimSpace sql)
      in (HasPrefix upper ''ALTER USER'' \<or> HasPrefix upper ''ALTER ROLE'') \<and>
         Contains upper ''PASSWORD'')"

definition ValidateQuery :: "string \<Rightarrow> access_grant \<Rightarrow> validation_error option" where
  "ValidateQuery sql g =
     (if IsPasswordChangeQuery sql then Some ErrPasswordChangeBlocked
      else if IsReadOnly g \<and> IsWriteQuery sql then Some ErrReadOnlyViolation
      else if ShouldBlockDDL g \<and> IsDDLQuery sql then Some ErrDDLBlocked
      else None)"

fun any_match :: "regex list \<Rightarrow> string \<Rightarrow> bool" where
  "any_match [] s = False"
| "any_match (p # ps) s = (if MatchString p s then True else any_match ps s)"

definition ValidateOracleQuery :: "string \<Rightarrow> access_grant \<Rightarrow> validation_error option" where
  "ValidateOracleQuery sql g =
     (case ValidateQuery sql g of Some e \<Rightarrow> Some e
      | None \<Rightarrow> if any_match oracleBlockedPatterns sql then Some ErrOraclePatternBlocked
               else None)"

definition ValidateMySQLQuery :: "string \<Rightarrow> access_grant \<Rightarrow> validation_error option" where
  "ValidateMySQLQuery sql g =
     (case ValidateQuery sql g of Some e \<Rightarrow> Some e
      | None \<Rightarrow> if any_match mysqlBlockedPatterns sql then Some ErrMySQLPatternBlocked
               else None)"

section \<open>MongoDB commands\<close>

datatype mongoCmdClass =
    classUnknown | classRead | classWrite | classDDL | classDiagnostic | classBlocked
  | classListDatabases

definition mongoReadCommands :: "string list" where
  "mongoReadCommands = [''find'', ''aggregate'', ''count'', ''distinct'', ''getMore'',
     ''killCursors'', ''listCollections'', ''listIndexes'', ''explain'', ''dbStats'',
     ''collStats'']"

definition mongoWriteCommands :: "string list" where
  "mongoWriteCommands = [''insert'', ''update'', ''delete'', ''findAndModify'',
     ''findandmodify'', ''bulkWrite'']"

definition mongoDDLCommands :: "string list" where
  "mongoDDLCommands = [''create'', ''drop'', ''dropDatabase'', ''createIndexes'',
     ''dropIndexes'', ''collMod'', ''renameCollection'', ''convertToCapped'']"

definition mongoDiagnosticCommands :: "string list" where
  "mongoDiagnosticCommands = [''hello'', ''isMaster'', ''ismaster'', ''ping'', ''buildInfo'',
     ''buildinfo'', ''whatsmyuri'', ''connectionStatus'', ''getParameter'', ''getLog'',
     ''hostInfo'', ''atlasVersion'', ''endSessions'', ''saslStart'', ''saslContinue'']"

definition mongoBlockedCommands :: "string list" where
  "mongoBlockedCommands = [''createUser'', ''updateUser'', ''dropUser'',
     ''dropAllUsersFromDatabase'', ''grantRolesToUser'', ''revokeRolesFromUser'',
     ''createRole'', ''updateRole'', ''dropRole'', ''shutdown'', ''replSetReconfig'',
     ''replSetStepDown'', ''setParameter'', ''setFeatureCompatibilityVersion'', ''eval'',
     ''fsync'', ''compact'']"

text \<open>The accessors of \<open>go.mongodb.org/mongo-driver/v2/bson\<close>: a document is its bytes, a
  value is opaque; \<open>None\<close> is a failed conversion or a malformed document.\<close>

record 'v bson_lib =
  bson_Lookup :: "bytes \<Rightarrow> string \<Rightarrow> 'v"
  bson_ArrayOK :: "'v \<Rightarrow> bytes option"
  bson_Values :: "bytes \<Rightarrow> 'v list option"
  bson_DocumentOK :: "'v \<Rightarrow> bytes option"
  bson_ElementKeys :: "bytes \<Rightarrow> string list option"
  bson_StringOK :: "'v \<Rightarrow> string option"

fun stages_write :: "'v bson_lib \<Rightarrow> 'v list \<Rightarrow> bool" where
  "stages_write B [] = False"
| "stages_write B (v # vs) =
     (case bson_DocumentOK B v of None \<Rightarrow> stages_write B vs
      | Some stage \<Rightarrow>
          (case bson_ElementKeys B stage of None \<Rightarrow> stages_write B vs
           | Some ks \<Rightarrow>
               if any_eq ks ''$out'' \<or> any_eq ks ''$merge'' then True else stages_write B vs))"

definition aggregatePipelineWrites :: "'v bson_lib \<Rightarrow> bytes \<Rightarrow> bool" where
  "aggregatePipelineWrites B body =
     (case bson_ArrayOK B (bson_Lookup B body ''pipeline'') of None \<Rightarrow> False
      | Some pipeline \<Rightarrow>
          (case bson_Values B pipeline of None \<Rightarrow> False
           | Some stages \<Rightarrow> stages_write B stages))"

definition classifyMongoCommand :: "'v bson_lib \<Rightarrow> string \<Rightarrow> bytes \<Rightarrow> mongoCmdClass" where
  "classifyMongoCommand B cmd body =
     (if cmd \<in> set mongoBlockedCommands then classBlocked
      else if cmd = ''listDatabases'' then classListDatabases
      else if cmd \<in> set mongoDiagnosticCommands then classDiagnostic
      else if cmd \<in> set mongoDDLCommands then classDDL
      else if cmd \<in> set mongoWriteCommands then classWrite
      else if cmd \<in> set mongoReadCommands then
        (if cmd = ''aggregate'' \<and> aggregatePipelineWrites B body then classWrite else classRead)
      else classUnknown)"

definition mongoDatabaseAllowed :: "string \<Rightarrow> mongoCmdClass \<Rightarrow> server option \<Rightarrow> bool" where
  "mongoDatabaseAllowed dbName cls db =
     (if dbName = '''' then True
      else if dbName = ''admin'' then cls = classDiagnostic
      else if dbName = ''$external'' then False
      else if dbName = ''local'' \<or> dbName = ''config'' then False
      else (case db of None \<Rightarrow> False
            | Some d \<Rightarrow> dbName = srv_DatabaseName d \<or> dbName = srv_Name d))"

definition mongo_db_check ::
  "string \<Rightarrow> mongoCmdClass \<Rightarrow> server option \<Rightarrow> validation_error option" where
  "mongo_db_check dbName cls db =
     (if \<not> mongoDatabaseAllowed dbName cls db then Some ErrMongoDatabaseBlocked else None)"

definition ValidateMongoCommand ::
  "'v bson_lib \<Rightarrow> string \<Rightarrow> string \<Rightarrow> bytes \<Rightarrow> server option \<Rightarrow> access_grant
   \<Rightarrow> validation_error option" where
  "ValidateMongoCommand B cmd dbName body db g =
     (let cls = classifyMongoCommand B cmd body in
      case cls of
        classBlocked \<Rightarrow> Some ErrMongoCommandBlocked
      | classListDatabases \<Rightarrow> None
      | classUnknown \<Rightarrow> Some ErrMongoUnknownCommand
      | classDDL \<Rightarrow>
          (if IsReadOnly g then Some ErrMongoReadOnly
           else if ShouldBlockDDL g then Some ErrMongoDDLBlocked
           else mongo_db_check dbName cls db)
      | classWrite \<Rightarrow>
          (if IsReadOnly g then Some ErrMongoReadOnly else mongo_db_check dbName cls db)
      | classRead \<Rightarrow> mongo_db_check dbName cls db
      | classDiagnostic \<Rightarrow> mongo_db_check dbName cls db)"

section \<open>Lemmas\<close>

lemma has_any_prefix_iff: "has_any_prefix s ks \<longleftrightarrow> (\<exists>k\<in>set ks. HasPrefix s k)"
  by (induction ks) auto

lemma any_match_iff: "any_match ps s \<longleftrightarrow> (\<exists>p\<in>set ps. MatchString p s)"
  by (induction ps) auto

lemma stages_write_iff:
  "stages_write B vs \<longleftrightarrow>
     (\<exists>v\<in>set vs. \<exists>d ks. bson_DocumentOK B v = Some d \<and> bson_ElementKeys B d = Some ks \<and>
        (''$out'' \<in> set ks \<or> ''$merge'' \<in> set ks))"
  by (induction vs) (auto split: option.splits)

text \<open>The spelling of a keyword and the white space before it do not matter.\<close>

definition ascii_blank :: "string \<Rightarrow> bool" where
  "ascii_blank w \<longleftrightarrow> list_all (\<lambda>c. code c < 128 \<and> unicode_IsSpace (code c)) w"

definition word_of :: "string \<Rightarrow> bool" where
  "word_of p \<longleftrightarrow> p \<noteq> [] \<and> list_all (\<lambda>c. 65 \<le> code c \<and> code c \<le> 95) p"

lemma word_of_spelling:
  assumes "word_of (map ascii_upper k)"
  shows "k \<noteq> []" "ascii k" "\<forall>c\<in>set k. \<not> unicode_IsSpace (code c)"
  using assms by (auto simp: word_of_def ascii_def list_all_iff dest: ascii_upper_letter)

lemma ToUpper_TrimSpace_word:
  assumes "ascii_blank w" and "word_of (map ascii_upper k)"
  shows "\<exists>t. ToUpper (TrimSpace (w @ k @ s)) = map ascii_upper k @ t"
proof -
  let ?sp = "\<lambda>(r, _). unicode_IsSpace r"
  let ?ks = "map (\<lambda>c. (code c, [c])) k"
  note k = word_of_spelling [OF assms(2)]
  have seg: "segs (k @ s) = ?ks @ segs s"
    using k(2) by (simp add: segs_ascii_append segs_ascii)
  have "dropWhile ?sp (segs (k @ s)) = segs (k @ s)"
    unfolding seg using k(1,3) by (cases k) auto
  moreover have "rev (dropWhile ?sp (rev (?ks @ segs s))) = ?ks @ rev (dropWhile ?sp (rev (segs s)))"
    by (rule trim_end_append) (use k in auto)
  ultimately have "TrimSpace (k @ s) = k @ concat (map snd (rev (dropWhile ?sp (rev (segs s)))))"
    unfolding TrimSpace_def Let_def seg by (simp add: comp_def)
  moreover have "TrimSpace (w @ k @ s) = TrimSpace (k @ s)"
    by (rule TrimSpace_leading) (use assms(1) in \<open>auto simp: ascii_blank_def ascii_def list_all_iff\<close>)
  ultimately show ?thesis
    using k(2) by (simp add: ToUpper_ascii_append ToUpper_ascii)
qed

lemma keyword_prefix:
  assumes "ascii_blank w" and "word_of (map ascii_upper k)" and "map ascii_upper k \<in> set ks"
  shows "has_any_prefix (ToUpper (TrimSpace (w @ k @ s))) ks"
  using ToUpper_TrimSpace_word [OF assms(1,2), of s] assms(3)
  by (metis HasPrefix_append has_any_prefix_iff)

lemma writeKeywords_words: "p \<in> set writeKeywords \<Longrightarrow> word_of p"
  by (auto simp: writeKeywords_def word_of_def)

lemma ddlKeywords_write: "set ddlKeywords \<subseteq> set writeKeywords"
  by (simp add: ddlKeywords_def writeKeywords_def)

lemma IsDDLQuery_IsWriteQuery: "IsDDLQuery sql \<Longrightarrow> IsWriteQuery sql"
  using ddlKeywords_write by (auto simp: IsDDLQuery_def IsWriteQuery_def has_any_prefix_iff)

text \<open>A statement that starts with another word starts with none of the keywords.\<close>

lemma HasPrefix_clash:
  assumes "HasPrefix (p @ t) q" and "hd p \<noteq> hd q" and "p \<noteq> []" and "q \<noteq> []"
  shows False
  using assms by (auto simp: HasPrefix_iff neq_Nil_conv)

section \<open>Properties\<close>

text \<open>Under a read-only grant every statement that starts with a write keyword, in any
  mixture of cases and after any ASCII white space, is rejected by all three SQL validators.\<close>

theorem read_only_rejects_writes:
  assumes "IsReadOnly g" and "ascii_blank w" and "map ascii_upper k \<in> set writeKeywords"
  shows "ValidateQuery (w @ k @ s) g \<in> {Some ErrReadOnlyViolation, Some ErrPasswordChangeBlocked}
    \<and> ValidateOracleQuery (w @ k @ s) g = ValidateQuery (w @ k @ s) g
    \<and> ValidateMySQLQuery (w @ k @ s) g = ValidateQuery (w @ k @ s) g"
proof -
  have "IsWriteQuery (w @ k @ s)"
    unfolding IsWriteQuery_def
    by (rule keyword_prefix) (use assms writeKeywords_words in auto)
  then have "ValidateQuery (w @ k @ s) g \<in> {Some ErrReadOnlyViolation, Some ErrPasswordChangeBlocked}"
    using assms(1) by (simp add: ValidateQuery_def)
  then show ?thesis
    by (auto simp: ValidateOracleQuery_def ValidateMySQLQuery_def)
qed

definition sample_grant :: access_grant where
  "sample_grant =
     \<lparr>ag_UID = 1, ag_UserID = 2, ag_DatabaseID = 3, ag_Controls = [''read_only'', ''block_ddl''],
      ag_GrantedBy = 4, ag_StartsAt = 0, ag_ExpiresAt = 1000, ag_RevokedAt = None,
      ag_RevokedBy = None, ag_MaxQueryCounts = Some 2, ag_MaxBytesTransferred = Some 100,
      ag_CreatedAt = 0, ag_QueryCount = 0, ag_BytesTransferred = 0\<rparr>"

lemma sample_grant_controls [simp]:
  "IsReadOnly sample_grant" "ShouldBlockDDL sample_grant" "\<not> ShouldBlockCopy sample_grant"
  by (simp_all add: sample_grant_def IsReadOnly_def ShouldBlockDDL_def ShouldBlockCopy_def
      HasControl_def ControlReadOnly_def ControlBlockDDL_def ControlBlockCopy_def)

theorem read_only_rejects_writes_witness:
  "ValidateQuery ('' '' @ ''uPdAtE'' @ '' t SET a = 1'') sample_grant
     \<in> {Some ErrReadOnlyViolation, Some ErrPasswordChangeBlocked}"
proof -
  have "ascii_blank '' ''" by (simp add: ascii_blank_def unicode_IsSpace_def)
  moreover have "map ascii_upper ''uPdAtE'' \<in> set writeKeywords" by code_simp
  ultimately show ?thesis
    using read_only_rejects_writes [OF sample_grant_controls(1)] by blast
qed

text \<open>The SQL checks look at the start of the statement only: whatever follows a leading
  SELECT, further statements included, is accepted under every combination of controls.\<close>

theorem select_prefix_accepted:
  assumes "ascii_blank w" and "map ascii_upper k = ''SELECT''"
  shows "ValidateQuery (w @ k @ s) g = None"
proof -
  obtain t where t: "ToUpper (TrimSpace (w @ k @ s)) = ''SELECT'' @ t"
    using ToUpper_TrimSpace_word [OF assms(1), of k s] assms(2) by (auto simp: word_of_def)
  have "\<not> IsWriteQuery (w @ k @ s)"
    unfolding IsWriteQuery_def t has_any_prefix_iff
    by (auto simp: writeKeywords_def HasPrefix_def)
  moreover have "\<not> IsPasswordChangeQuery (w @ k @ s)"
    unfolding IsPasswordChangeQuery_def Let_def t by (simp add: HasPrefix_def)
  ultimately show ?thesis
    using IsDDLQuery_IsWriteQuery by (auto simp: ValidateQuery_def)
qed

theorem select_prefix_accepted_witness:
  "ValidateQuery ('''' @ ''select'' @ '' 1; DROP TABLE t'') sample_grant = None"
  by (rule select_prefix_accepted) (simp add: ascii_blank_def, code_simp)

text \<open>A SQL text that mentions one of the dangerous Oracle packages anywhere, in any mixture
  of cases and among arbitrary bytes, is rejected by the Oracle validator whatever the grant.\<close>

theorem oracle_packages_blocked:
  assumes "map ascii_upper k \<in> {''DBMS_SCHEDULER'', ''DBMS_JOB'', ''UTL_HTTP'', ''UTL_TCP'',
    ''UTL_FILE'', ''DBMS_PIPE''}"
  shows "ValidateOracleQuery (u @ k @ v) g \<noteq> None"
proof -
  have "word_of (map ascii_upper k)" using assms by (auto simp: word_of_def)
  then have "MatchString (rlit (map ascii_upper k)) (u @ k @ v)"
    by (intro MatchString_rlit refl word_of_spelling)
  moreover have "rlit (map ascii_upper k) \<in> set oracleBlockedPatterns"
    using assms by (auto simp: oracleBlockedPatterns_def)
  ultimately have "any_match oracleBlockedPatterns (u @ k @ v)"
    by (auto simp: any_match_iff)
  then show ?thesis by (auto simp: ValidateOracleQuery_def split: option.split)
qed

theorem oracle_packages_blocked_witness:
  "ValidateOracleQuery (''begin '' @ ''utl_File'' @ ''.fopen(1); end;'') sample_grant \<noteq> None"
  by (rule oracle_packages_blocked) code_simp

text \<open>Under a read-only grant an accepted MongoDB command is a read, a diagnostic or
  listDatabases, and an accepted aggregate has no \<open>$out\<close> or \<open>$merge\<close> stage, for every
  behaviour of the BSON accessors.\<close>

theorem mongo_read_only_sound:
  assumes "IsReadOnly g" and "ValidateMongoCommand B cmd dbName body db g = None"
  shows "cmd \<in> set mongoReadCommands \<union> set mongoDiagnosticCommands \<union> {''listDatabases''}
    \<and> cmd \<notin> set mongoWriteCommands \<union> set mongoDDLCommands \<union> set mongoBlockedCommands
    \<and> (cmd = ''aggregate'' \<longrightarrow>
         (\<forall>arr vs v d ks. bson_ArrayOK B (bson_Lookup B body ''pipeline'') = Some arr \<longrightarrow>
            bson_Values B arr = Some vs \<longrightarrow> v \<in> set vs \<longrightarrow> bson_DocumentOK B v = Some d \<longrightarrow>
            bson_ElementKeys B d = Some ks \<longrightarrow> ''$out'' \<notin> set ks \<and> ''$merge'' \<notin> set ks))"
proof -
  have cls: "classifyMongoCommand B cmd body \<in> {classListDatabases, classRead, classDiagnostic}"
    using assms by (auto simp: ValidateMongoCommand_def Let_def split: mongoCmdClass.splits if_splits)
  have "cmd = ''aggregate'' \<Longrightarrow> \<not> aggregatePipelineWrites B body"
    using cls by (auto simp: classifyMongoCommand_def mongoBlockedCommands_def
        mongoDiagnosticCommands_def mongoDDLCommands_def mongoWriteCommands_def
        mongoReadCommands_def split: if_splits)
  moreover have "cmd \<in> set mongoReadCommands \<union> set mongoDiagnosticCommands \<union> {''listDatabases''}"
    using cls by (auto simp: classifyMongoCommand_def split: if_splits)
  moreover from cls have "cmd \<notin> set mongoBlockedCommands"
    by (auto simp: classifyMongoCommand_def split: if_splits)
  moreover from calculation(2) have "cmd \<notin> set mongoWriteCommands \<union> set mongoDDLCommands"
    by (auto simp: mongoReadCommands_def mongoDiagnosticCommands_def mongoWriteCommands_def
        mongoDDLCommands_def)
  ultimately show ?thesis
    by (auto simp: aggregatePipelineWrites_def stages_write_iff split: option.splits)
qed

definition sample_bson :: "string bson_lib" where
  "sample_bson =
     \<lparr>bson_Lookup = (\<lambda>_ k. k), bson_ArrayOK = (\<lambda>v. if v = ''pipeline'' then Some [] else None),
      bson_Values = (\<lambda>_. Some [''stage'']), bson_DocumentOK = (\<lambda>v. Some [1]),
      bson_ElementKeys = (\<lambda>_. Some [''$match'']), bson_StringOK = (\<lambda>_. None)\<rparr>"

definition sample_server :: server where
  "sample_server =
     \<lparr>srv_UID = 3, srv_Name = ''prod'', srv_Description = '''', srv_Host = ''db'', srv_Port = 5432,
      srv_DatabaseName = ''app'', srv_Username = ''ro'', srv_Password = [], srv_PasswordEncrypted = [], srv_SSLMode = ''require'',
      srv_Protocol = ''mongodb'', srv_OracleServiceName = None, srv_ViaUID = None, srv_ProtocolData = None,
      srv_Listable = True, srv_CreatedBy = None, srv_CreatedAt = 0, srv_UpdatedAt = 0, srv_DeletedAt = None\<rparr>"

theorem mongo_read_only_sound_witness:
  "ValidateMongoCommand sample_bson ''aggregate'' ''app'' [] (Some sample_server) sample_grant = None
   \<and> ''aggregate'' \<notin> set mongoWriteCommands \<union> set mongoDDLCommands \<union> set mongoBlockedCommands"
proof -
  have "ValidateMongoCommand sample_bson ''aggregate'' ''app'' [] (Some sample_server) sample_grant = None"
    by code_simp
  then show ?thesis
    using mongo_read_only_sound [OF sample_grant_controls(1)] by blast
qed

text \<open>A command that is accepted runs against the configured database, carries no database
  name, or is a diagnostic on admin; only listDatabases is exempt.\<close>

theorem mongo_database_confined:
  assumes "ValidateMongoCommand B cmd dbName body db g = None" and "cmd \<noteq> ''listDatabases''"
  shows "dbName = '''' \<or> dbName = ''admin'' \<and> cmd \<in> set mongoDiagnosticCommands
    \<or> (\<exists>d. db = Some d \<and> dbName \<in> {srv_DatabaseName d, srv_Name d})
       \<and> dbName \<notin> {''admin'', ''$external'', ''local'', ''config''}"
proof -
  have "classifyMongoCommand B cmd body \<noteq> classListDatabases"
    using assms(2) by (simp add: classifyMongoCommand_def)
  then have "mongoDatabaseAllowed dbName (classifyMongoCommand B cmd body) db"
    using assms(1) by (auto simp: ValidateMongoCommand_def Let_def mongo_db_check_def
        split: mongoCmdClass.splits if_splits)
  moreover have "classifyMongoCommand B cmd body = classDiagnostic \<Longrightarrow> cmd \<in> set mongoDiagnosticCommands"
    by (auto simp: classifyMongoCommand_def split: if_splits)
  ultimately show ?thesis
    by (auto simp: mongoDatabaseAllowed_def split: if_splits option.splits)
qed

theorem mongo_database_confined_witness:
  "ValidateMongoCommand sample_bson ''find'' ''app'' [] (Some sample_server) sample_grant = None
   \<and> (\<exists>d. Some sample_server = Some d \<and> ''app'' \<in> {srv_DatabaseName d, srv_Name d})"
proof -
  have "ValidateMongoCommand sample_bson ''find'' ''app'' [] (Some sample_server) sample_grant = None"
    by code_simp
  then show ?thesis using mongo_database_confined [of sample_bson "''find''" "''app''"] by auto
qed

end
