(* ===== verification/Revocation.thy ===== *)
theory Revocation
  imports Prelude
begin

text \<open>
  \<open>internal/cache/revocation.go\<close>: the in-process registry that carries a grant revocation
  from the API to the live proxy sessions. A handle is the address of its atomic flag; the
  registry maps a grant to the set of live handles. The mutex makes every operation atomic, so
  an execution is a sequence of operations.
\<close>

record registry =
  reg_sessions :: "uuid \<rightharpoonup> addr set"

definition NewRevocationRegistry :: registry where
  "NewRevocationRegistry = \<lparr>reg_sessions = Map.empty\<rparr>"

section \<open>Handles\<close>

definition Revoked :: "heap \<Rightarrow> addr option \<Rightarrow> bool" where
  "Revoked hp h = (case h of None \<Rightarrow> False | Some a \<Rightarrow> LoadBool hp a)"

definition Flag :: "addr option \<Rightarrow> addr option" where
  "Flag h = (case h of None \<Rightarrow> None | Some a \<Rightarrow> Some a)"

section \<open>Operations\<close>

definition Register :: "registry option \<Rightarrow> uuid \<Rightarrow> heap \<Rightarrow> addr \<times> registry option \<times> heap" where
  "Register r grantUID hp =
     (let (h, hp') = NewBool hp in
      case r of
        None \<Rightarrow> (h, r, hp')
      | Some reg \<Rightarrow>
          if grantUID = uuid_Nil then (h, r, hp')
          else
            let set = (case reg_sessions reg grantUID of None \<Rightarrow> {} | Some s \<Rightarrow> s)
            in (h, Some (reg\<lparr>reg_sessions := (reg_sessions reg)(grantUID \<mapsto> insert h set)\<rparr>), hp'))"

definition Deregister :: "registry option \<Rightarrow> uuid \<Rightarrow> addr option \<Rightarrow> registry option" where
  "Deregister r grantUID h =
     (case (r, h) of
        (Some reg, Some a) \<Rightarrow>
          if grantUID = uuid_Nil then r
          else (case reg_sessions reg grantUID of
                  None \<Rightarrow> r
                | Some s \<Rightarrow>
                    let s' = s - {a} in
                    if s' = {} then Some (reg\<lparr>reg_sessions := (reg_sessions reg)(grantUID := None)\<rparr>)
                    else Some (reg\<lparr>reg_sessions := (reg_sessions reg)(grantUID \<mapsto> s')\<rparr>))
      | _ \<Rightarrow> r)"

definition Revoke :: "registry option \<Rightarrow> uuid \<Rightarrow> heap \<Rightarrow> nat \<times> heap" where
  "Revoke r grantUID hp =
     (case r of
        None \<Rightarrow> (0, hp)
      | Some reg \<Rightarrow>
          if grantUID = uuid_Nil then (0, hp)
          else (case reg_sessions reg grantUID of
                  None \<Rightarrow> (0, hp)
                | Some s \<Rightarrow> (card s, hp\<lparr>bools := (\<lambda>a. if a \<in> s then True else bools hp a)\<rparr>)))"

section \<open>The interface of a revocation bus\<close>

text \<open>An operation of some goroutine on the registry.\<close>

datatype bus_op = OpRegister uuid | OpDeregister uuid addr | OpRevoke uuid

fun bus_run ::
  "('s \<Rightarrow> uuid \<Rightarrow> addr \<times> 's) \<Rightarrow> ('s \<Rightarrow> uuid \<Rightarrow> addr \<Rightarrow> 's) \<Rightarrow> ('s \<Rightarrow> uuid \<Rightarrow> 's)
   \<Rightarrow> 's \<Rightarrow> bus_op list \<Rightarrow> 's" where
  "bus_run reg dereg rvk s [] = s"
| "bus_run reg dereg rvk s (OpRegister g # ops) = bus_run reg dereg rvk (snd (reg s g)) ops"
| "bus_run reg dereg rvk s (OpDeregister g h # ops) = bus_run reg dereg rvk (dereg s g h) ops"
| "bus_run reg dereg rvk s (OpRevoke g # ops) = bus_run reg dereg rvk (rvk s g) ops"

text \<open>
  What a session relies on: its registration stays live until it deregisters itself, a
  revocation of its grant raises its flag, nothing else does, and a raised flag stays up.
\<close>

locale revocation_bus =
  fixes register :: "'s \<Rightarrow> uuid \<Rightarrow> addr \<times> 's"
    and deregister :: "'s \<Rightarrow> uuid \<Rightarrow> addr \<Rightarrow> 's"
    and revoke :: "'s \<Rightarrow> uuid \<Rightarrow> 's"
    and live :: "'s \<Rightarrow> uuid \<Rightarrow> addr \<Rightarrow> bool"
    and flagged :: "'s \<Rightarrow> addr \<Rightarrow> bool"
    and inv :: "'s \<Rightarrow> bool"
  assumes inv_register: "inv s \<Longrightarrow> inv (snd (register s g))"
    and inv_deregister: "inv s \<Longrightarrow> inv (deregister s g h)"
    and inv_revoke: "inv s \<Longrightarrow> inv (revoke s g)"
    and register_live: "inv s \<Longrightarrow> g \<noteq> uuid_Nil \<Longrightarrow> register s g = (h, t) \<Longrightarrow>
      live t g h \<and> \<not> flagged t h"
    and register_keeps: "inv s \<Longrightarrow> live s k h \<Longrightarrow>
      live (snd (register s g)) k h \<and> flagged (snd (register s g)) h = flagged s h"
    and deregister_keeps: "inv s \<Longrightarrow> live s k h \<Longrightarrow> (g, h') \<noteq> (k, h) \<Longrightarrow>
      live (deregister s g h') k h"
    and deregister_flagged: "flagged (deregister s g h') h = flagged s h"
    and revoke_keeps: "live s k h \<Longrightarrow> live (revoke s g) k h"
    and revoke_flagged: "inv s \<Longrightarrow> live s k h \<Longrightarrow>
      flagged (revoke s g) h \<longleftrightarrow> flagged s h \<or> k = g"
begin

lemma run_inv: "inv s \<Longrightarrow> inv (bus_run register deregister revoke s ops)"
proof (induction ops arbitrary: s)
  case (Cons x ops)
  then show ?case by (cases x) (simp_all add: inv_register inv_deregister inv_revoke)
qed simp

text \<open>As long as the session does not deregister, its flag is up exactly when its grant has
  been revoked, whatever the other sessions do in between.\<close>

lemma run_flagged:
  "inv s \<Longrightarrow> live s k h \<Longrightarrow> OpDeregister k h \<notin> set ops \<Longrightarrow>
     live (bus_run register deregister revoke s ops) k h \<and>
     (flagged (bus_run register deregister revoke s ops) h \<longleftrightarrow>
       flagged s h \<or> OpRevoke k \<in> set ops)"
proof (induction ops arbitrary: s)
  case (Cons x ops)
  then show ?case
    by (cases x) (auto simp: inv_register register_keeps inv_deregister deregister_keeps
        deregister_flagged inv_revoke revoke_keeps revoke_flagged)
qed simp

end

section \<open>The registry implements the interface\<close>

type_synonym bus = "registry option \<times> heap"

definition bus_register :: "bus \<Rightarrow> uuid \<Rightarrow> addr \<times> bus" where
  "bus_register b g = (case b of (r, hp) \<Rightarrow> Register r g hp)"

definition bus_deregister :: "bus \<Rightarrow> uuid \<Rightarrow> addr \<Rightarrow> bus" where
  "bus_deregister b g h = (case b of (r, hp) \<Rightarrow> (Deregister r g (Some h), hp))"

definition bus_revoke :: "bus \<Rightarrow> uuid \<Rightarrow> bus" where
  "bus_revoke b g = (case b of (r, hp) \<Rightarrow> (r, snd (Revoke r g hp)))"

text \<open>One operation on the registry by another part of the process.\<close>

fun bus_step :: "bus_op \<Rightarrow> bus \<Rightarrow> bus" where
  "bus_step (OpRegister g) b = snd (bus_register b g)"
| "bus_step (OpDeregister g h) b = bus_deregister b g h"
| "bus_step (OpRevoke g) b = bus_revoke b g"

definition bus_live :: "bus \<Rightarrow> uuid \<Rightarrow> addr \<Rightarrow> bool" where
  "bus_live b g h = (case fst b of None \<Rightarrow> False
     | Some reg \<Rightarrow> (case reg_sessions reg g of None \<Rightarrow> False | Some s \<Rightarrow> h \<in> s))"

definition bus_flagged :: "bus \<Rightarrow> addr \<Rightarrow> bool" where
  "bus_flagged b h = LoadBool (snd b) h"

text \<open>The registry exists, tracks allocated handles only, each under one grant, never under
  \<open>uuid.Nil\<close>, and keeps no empty set.\<close>

definition bus_inv :: "bus \<Rightarrow> bool" where
  "bus_inv b \<longleftrightarrow> fst b \<noteq> None
     \<and> (\<forall>g h. bus_live b g h \<longrightarrow> h < next_addr (snd b) \<and> g \<noteq> uuid_Nil)
     \<and> (\<forall>g g' h. bus_live b g h \<longrightarrow> bus_live b g' h \<longrightarrow> g = g')
     \<and> (\<forall>g s. reg_sessions (the (fst b)) g = Some s \<longrightarrow> s \<noteq> {} \<and> finite s)"

lemmas bus_defs = bus_register_def bus_deregister_def bus_revoke_def bus_live_def bus_flagged_def
  Register_def Deregister_def Revoke_def NewBool_def Let_def

lemma bus_live_register:
  "bus_live (snd (bus_register (Some reg, hp) g)) k h \<longleftrightarrow>
     bus_live (Some reg, hp) k h \<or> k = g \<and> g \<noteq> uuid_Nil \<and> h = next_addr hp"
  by (auto simp: bus_defs split: option.splits)

lemma bus_live_deregister:
  "bus_live (bus_deregister (Some reg, hp) g h') k h \<longleftrightarrow>
     bus_live (Some reg, hp) k h \<and> (g = uuid_Nil \<or> (k, h) \<noteq> (g, h'))"
  by (auto simp: bus_defs split: option.splits)

lemma bus_live_revoke [simp]: "bus_live (bus_revoke b g) k h = bus_live b k h"
  by (simp add: bus_defs split: prod.split)

lemma bus_inv_init: "bus_inv (Some NewRevocationRegistry, hp)"
  by (simp add: bus_inv_def bus_live_def NewRevocationRegistry_def)

lemma bus_inv_cases: "bus_inv b \<Longrightarrow> \<exists>reg hp. b = (Some reg, hp)"
  by (cases b) (auto simp: bus_inv_def)

lemma bus_inv_register: assumes "bus_inv b" shows "bus_inv (snd (bus_register b g))"
proof -
  obtain reg hp where b: "b = (Some reg, hp)" using bus_inv_cases [OF assms] by blast
  let ?t = "snd (bus_register b g)"
  have "next_addr (snd ?t) = Suc (next_addr hp)" by (auto simp: b bus_defs)
  moreover have "fst ?t \<noteq> None" by (auto simp: b bus_defs)
  moreover have "\<forall>k s. reg_sessions (the (fst ?t)) k = Some s \<longrightarrow> s \<noteq> {} \<and> finite s"
    using assms by (auto simp: b bus_defs bus_inv_def split: option.splits)
  ultimately show ?thesis
    using assms unfolding bus_inv_def b by (auto simp: bus_live_register less_Suc_eq)
qed

lemma bus_inv_deregister: assumes "bus_inv b" shows "bus_inv (bus_deregister b g h)"
proof -
  obtain reg hp where b: "b = (Some reg, hp)" using bus_inv_cases [OF assms] by blast
  let ?t = "bus_deregister b g h"
  have "snd ?t = hp" by (auto simp: b bus_defs)
  moreover have "fst ?t \<noteq> None" by (auto simp: b bus_defs split: option.splits)
  moreover have "\<forall>k s. reg_sessions (the (fst ?t)) k = Some s \<longrightarrow> s \<noteq> {} \<and> finite s"
    using assms by (auto simp: b bus_defs bus_inv_def split: option.splits if_splits)
  ultimately show ?thesis
    using assms unfolding bus_inv_def b by (auto simp: bus_live_deregister)
qed

lemma bus_inv_revoke: assumes "bus_inv b" shows "bus_inv (bus_revoke b g)"
proof -
  obtain reg hp where b: "b = (Some reg, hp)" using bus_inv_cases [OF assms] by blast
  have "fst (bus_revoke b g) = fst b" "next_addr (snd (bus_revoke b g)) = next_addr (snd b)"
    by (auto simp: b bus_defs split: option.splits)
  then show ?thesis using assms unfolding bus_inv_def by simp
qed

interpretation bus: revocation_bus bus_register bus_deregister bus_revoke bus_live bus_flagged bus_inv
proof (unfold_locales, goal_cases)
  case (4 s g h t)
  obtain reg hp where b: "s = (Some reg, hp)" using bus_inv_cases [OF 4(1)] by blast
  with 4 have h: "h = next_addr hp" "t = snd (bus_register s g)" by (auto simp: bus_defs)
  moreover have "\<not> bus_flagged t h" using 4 b by (auto simp: bus_defs)
  ultimately show ?case using 4(2) by (simp add: b bus_live_register)
next
  case (5 s k h g)
  obtain reg hp where b: "s = (Some reg, hp)" using bus_inv_cases [OF 5(1)] by blast
  have "h < next_addr hp" using 5 b unfolding bus_inv_def by auto
  then have "bus_flagged (snd (bus_register s g)) h = bus_flagged s h"
    by (auto simp: b bus_defs)
  with 5(2) show ?case by (simp add: b bus_live_register)
next
  case (6 s k h g h')
  obtain reg hp where b: "s = (Some reg, hp)" using bus_inv_cases [OF 6(1)] by blast
  show ?case using 6 by (auto simp: b bus_live_deregister)
next
  case (7 s g h' h)
  show ?case by (simp add: bus_defs split: prod.split)
next
  case (9 s k h g)
  obtain reg hp where b: "s = (Some reg, hp)" using bus_inv_cases [OF 9(1)] by blast
  have "bus_live s g h \<longleftrightarrow> k = g" "k \<noteq> uuid_Nil"
    using 9 unfolding bus_inv_def by blast+
  then show ?case
    by (auto simp: b bus_flagged_def bus_revoke_def Revoke_def bus_live_def split: option.splits)
qed (simp_all add: bus_inv_register bus_inv_deregister bus_inv_revoke)

section \<open>Properties\<close>

text \<open>A session registered under a grant, for as long as it has not deregistered, sees its
  revocation flag raised exactly when the grant has been revoked, under every interleaving of
  registrations, deregistrations and revocations of other sessions and grants.\<close>

theorem registered_session_flag:
  assumes "bus_inv b" and "g \<noteq> uuid_Nil" and "bus_register b g = (h, b1)"
    and "OpDeregister g h \<notin> set ops"
  shows "Revoked (snd (bus_run bus_register bus_deregister bus_revoke b1 ops)) (Some h)
    \<longleftrightarrow> OpRevoke g \<in> set ops"
proof -
  have "bus_inv b1" "bus_live b1 g h" "\<not> bus_flagged b1 h"
    using bus.inv_register [OF assms(1), of g] bus.register_live [OF assms(1,2,3)] assms(3) by auto
  then show ?thesis
    using bus.run_flagged [of b1 g h ops] assms(4) by (simp add: Revoked_def bus_flagged_def)
qed

theorem registered_session_flag_witness:
  "Revoked (snd (bus_run bus_register bus_deregister bus_revoke
      (snd (bus_register (Some NewRevocationRegistry, empty_heap) 7))
      [OpRegister 7, OpRevoke 8, OpDeregister 7 1, OpRevoke 7])) (Some 0)"
proof -
  have "bus_register (Some NewRevocationRegistry, empty_heap) 7 =
      (0, snd (bus_register (Some NewRevocationRegistry, empty_heap) 7))"
    by (simp add: bus_register_def Register_def NewBool_def empty_heap_def NewRevocationRegistry_def)
  from registered_session_flag [OF bus_inv_init _ this,
      of "[OpRegister 7, OpRevoke 8, OpDeregister 7 1, OpRevoke 7]"] show ?thesis by simp
qed

text \<open>Revoke returns the number of live sessions of the grant, and a grant whose last
  session deregistered leaves no entry behind.\<close>

theorem revoke_counts_live:
  assumes "bus_inv (Some reg, hp)"
  shows "fst (Revoke (Some reg) g hp) = card {h. bus_live (Some reg, hp) g h}
    \<and> (fst (Revoke (Some reg) g hp) = 0 \<longleftrightarrow> reg_sessions reg g = None)"
proof (cases "reg_sessions reg g")
  case None
  then show ?thesis by (simp add: Revoke_def bus_live_def)
next
  case (Some s)
  then have s: "s \<noteq> {}" "finite s" using assms unfolding bus_inv_def by auto
  then obtain h where "bus_live (Some reg, hp) g h" using Some by (auto simp: bus_live_def)
  then have "g \<noteq> uuid_Nil" using assms unfolding bus_inv_def by blast
  with s Some show ?thesis by (simp add: Revoke_def bus_live_def)
qed

theorem revoke_counts_live_witness:
  "fst (Revoke (Some \<lparr>reg_sessions = [7 \<mapsto> {0, 1}]\<rparr>) 7 (empty_heap\<lparr>next_addr := 2\<rparr>)) = 2"
proof -
  have "bus_inv (Some \<lparr>reg_sessions = [7 \<mapsto> {0, 1}]\<rparr>, empty_heap\<lparr>next_addr := 2\<rparr>)"
    by (auto simp: bus_inv_def bus_live_def split: option.splits if_splits)
  moreover have "{h. bus_live (Some \<lparr>reg_sessions = [7 \<mapsto> {0, 1}]\<rparr>, empty_heap\<lparr>next_addr := 2\<rparr>) 7 h} = {0, 1}"
    by (auto simp: bus_live_def)
  ultimately show ?thesis
    using revoke_counts_live [of "\<lparr>reg_sessions = [7 \<mapsto> {0, 1}]\<rparr>" "empty_heap\<lparr>next_addr := 2\<rparr>" 7]
    by simp
qed

section \<open>Sessions under the registry\<close>

lemma bus_inv_ints: "bools hp' = bools hp \<Longrightarrow> next_addr hp' = next_addr hp \<Longrightarrow> bus_inv (r, hp') = bus_inv (r, hp)"
  "bus_live (r, hp') g h = bus_live (r, hp) g h"
  by (simp_all add: bus_inv_def bus_live_def)

lemma bus_step_inv: "bus_inv b \<Longrightarrow> bus_inv (bus_step op b)"
  by (cases op) (simp_all add: bus_inv_register bus_inv_deregister bus_inv_revoke)

lemma bus_step_next: "next_addr (snd b) \<le> next_addr (snd (bus_step op b))"
  by (cases op; cases b) (auto simp: bus_defs split: option.splits)

lemma bus_step_keeps_flag: "bools (snd b) h \<Longrightarrow> h < next_addr (snd b) \<Longrightarrow> bools (snd (bus_step op b)) h"
  by (cases op; cases b) (auto simp: bus_defs split: option.splits)

lemma bus_step_live:
  "bus_inv b \<Longrightarrow> bus_live b g h \<Longrightarrow> op \<noteq> OpDeregister g h \<Longrightarrow> bus_live (bus_step op b) g h"
  by (cases op) (auto simp: bus.register_keeps bus.deregister_keeps bus.revoke_keeps)

lemma bus_register_new:
  assumes "bus_inv (r, hp)" and "g \<noteq> uuid_Nil" and "Register r g hp = (h, r', hp')"
  shows "bus_inv (r', hp')" and "bus_live (r', hp') g h" and "h < next_addr hp'" and "h = next_addr hp"
proof -
  have reg: "bus_register (r, hp) g = (h, r', hp')" using assms(3) by (simp add: bus_register_def)
  show "bus_inv (r', hp')" using bus_inv_register [OF assms(1), of g] reg by simp
  show live: "bus_live (r', hp') g h" using bus.register_live [OF assms(1,2) reg] by simp
  show "h < next_addr hp'" "h = next_addr hp"
    using assms(3) by (auto simp: Register_def NewBool_def Let_def split: option.splits if_splits)
qed

text \<open>Only the counters of the store differ.\<close>

definition same_flags :: "bus \<Rightarrow> bus \<Rightarrow> bool" where
  "same_flags b c \<longleftrightarrow> fst c = fst b \<and> bools (snd c) = bools (snd b) \<and> next_addr (snd c) = next_addr (snd b)"

lemma same_flags_bus:
  assumes "same_flags b c"
  shows "bus_inv c = bus_inv b" and "bus_live c g h = bus_live b g h"
proof -
  have c: "c = (fst b, snd c)" "bools (snd c) = bools (snd b)" "next_addr (snd c) = next_addr (snd b)"
    using assms by (simp_all add: same_flags_def prod_eq_iff)
  show "bus_inv c = bus_inv b" using bus_inv_ints(1) [OF c(2,3), of "fst b"] c(1) by simp
  show "bus_live c g h = bus_live b g h" using bus_inv_ints(2) [of "fst b" "snd c" g h "snd b"] c(1) by simp
qed

text \<open>
  What a protocol promises about revocation: a session keeps its handle, an execution may contain
  operations of others on the registry, and once the flag of the handle is up, or the session is
  over, it executes nothing. The client lemma: from a revocation on, nothing is executed.
\<close>

locale revocable_session =
  fixes act :: "'e \<Rightarrow> 's \<Rightarrow> 's" and bus_of :: "'s \<Rightarrow> bus" and handle :: "'s \<Rightarrow> addr option"
    and over :: "'s \<Rightarrow> bool" and executed :: "'s \<Rightarrow> 'm list" and registry_event :: "bus_op \<Rightarrow> 'e"
  assumes act_handle: "handle (act e s) = handle s"
    and act_over: "over s \<Longrightarrow> over (act e s)"
    and act_bus: "\<not> over (act e s) \<Longrightarrow>
          (\<exists>op. e = registry_event op \<and> bus_of (act e s) = bus_step op (bus_of s)) \<or> same_flags (bus_of s) (bus_of (act e s))"
    and registry_act: "\<not> over s \<Longrightarrow> bus_of (act (registry_event op) s) = bus_step op (bus_of s)"
    and registry_silent: "executed (act (registry_event op) s) = executed s"
    and over_silent: "over s \<Longrightarrow> executed (act e s) = executed s"
    and flag_silent: "handle s = Some h \<Longrightarrow> bools (snd (bus_of s)) h \<Longrightarrow> executed (act e s) = executed s"
begin

definition attached :: "uuid \<Rightarrow> addr \<Rightarrow> 's \<Rightarrow> bool" where
  "attached g h s \<longleftrightarrow> handle s = Some h \<and>
     (over s \<or> bus_inv (bus_of s) \<and> bus_live (bus_of s) g h \<and> h < next_addr (snd (bus_of s)))"

definition cut :: "addr \<Rightarrow> 's \<Rightarrow> bool" where
  "cut h s \<longleftrightarrow> handle s = Some h \<and> (over s \<or> bools (snd (bus_of s)) h \<and> h < next_addr (snd (bus_of s)))"

lemma attached_act:
  assumes "attached g h s" and "e \<noteq> registry_event (OpDeregister g h)"
  shows "attached g h (act e s)"
proof (cases "over (act e s)")
  case True
  then show ?thesis using assms(1) by (simp add: attached_def act_handle)
next
  case False
  then have "\<not> over s" using act_over by blast
  with assms(1) have s: "handle s = Some h" "bus_inv (bus_of s)" "bus_live (bus_of s) g h" "h < next_addr (snd (bus_of s))"
    by (auto simp: attached_def)
  from act_bus [OF False] show ?thesis
  proof (elim disjE exE conjE)
    fix op assume "e = registry_event op" and b: "bus_of (act e s) = bus_step op (bus_of s)"
    then have "op \<noteq> OpDeregister g h" using assms(2) by blast
    moreover have "h < next_addr (snd (bus_step op (bus_of s)))" by (rule less_le_trans [OF s(4) bus_step_next])
    ultimately show ?thesis using s by (simp add: attached_def act_handle b bus_step_inv bus_step_live)
  next
    assume "same_flags (bus_of s) (bus_of (act e s))"
    then show ?thesis using s by (simp add: attached_def act_handle same_flags_bus) (simp add: same_flags_def)
  qed
qed

lemma cut_act:
  assumes "cut h s"
  shows "cut h (act e s)"
proof (cases "over (act e s)")
  case True
  then show ?thesis using assms by (simp add: cut_def act_handle)
next
  case False
  then have "\<not> over s" using act_over by blast
  with assms have s: "handle s = Some h" "bools (snd (bus_of s)) h" "h < next_addr (snd (bus_of s))" by (auto simp: cut_def)
  from act_bus [OF False] show ?thesis
  proof (elim disjE exE conjE)
    fix op assume b: "bus_of (act e s) = bus_step op (bus_of s)"
    have "h < next_addr (snd (bus_step op (bus_of s)))" by (rule less_le_trans [OF s(3) bus_step_next])
    then show ?thesis using s bus_step_keeps_flag [OF s(2,3)] by (simp add: cut_def act_handle b)
  next
    assume "same_flags (bus_of s) (bus_of (act e s))"
    then show ?thesis using s by (simp add: cut_def act_handle same_flags_def)
  qed
qed

lemma cut_silent: "cut h s \<Longrightarrow> executed (act e s) = executed s"
  using over_silent flag_silent by (auto simp: cut_def)

lemma cut_run: "cut h s \<Longrightarrow> executed (fold act es s) = executed s"
  by (induction es arbitrary: s) (simp_all add: cut_act cut_silent)

lemma attached_run:
  "attached g h s \<Longrightarrow> registry_event (OpDeregister g h) \<notin> set es \<Longrightarrow> attached g h (fold act es s)"
  by (induction es arbitrary: s) (auto simp: attached_act)

lemma revoke_flag:
  assumes "bus_inv b" and "bus_live b g h" and "h < next_addr (snd b)"
  shows "bools (snd (bus_revoke b g)) h" and "h < next_addr (snd (bus_revoke b g))"
  using bus.revoke_flagged [of b g h g] bus_step_next [of b "OpRevoke g"] assms by (auto simp: bus_flagged_def)

lemma attached_revoke:
  assumes "attached g h s"
  shows "cut h (act (registry_event (OpRevoke g)) s)"
proof (cases "over s")
  case True
  then show ?thesis using assms by (simp add: cut_def attached_def act_handle act_over)
next
  case False
  then show ?thesis using assms revoke_flag [of "bus_of s" g h]
    by (simp add: cut_def attached_def act_handle registry_act)
qed

lemma revocation_final:
  assumes "attached g h s" and "registry_event (OpDeregister g h) \<notin> set before"
  shows "executed (fold act (before @ registry_event (OpRevoke g) # after) s) = executed (fold act before s)"
  using cut_run [OF attached_revoke [OF attached_run [OF assms]], of after] by (simp add: registry_silent)

end

end
