(* ===== verification/Limit_Guard.thy ===== *)
theory Limit_Guard
  imports Models Revocation
begin

text \<open>
  \<open>internal/proxy/shared/limits.go\<close> and \<open>byte_counter.go\<close>: the limit guard that a live
  session consults on its data path and from a watchdog, and the connection wrapper that counts
  the bytes. Both hold addresses of atomic counters, so the guard sees what the wrapper counts;
  the guard's revocation flag is the handle of the revocation registry.
\<close>

section \<open>Counting connections\<close>

record counting_conn =
  cc_bytesRead :: "addr option"
  cc_bytesWritten :: "addr option"

definition NewCountingConn :: "addr option \<Rightarrow> addr option \<Rightarrow> counting_conn" where
  "NewCountingConn r w = \<lparr>cc_bytesRead = r, cc_bytesWritten = w\<rparr>"

text \<open>The wrapped connection's result, a byte count and an error, is an input; the count is
  recorded even when the call also reports an error.\<close>

definition cc_count :: "addr option \<Rightarrow> int \<Rightarrow> heap \<Rightarrow> heap" where
  "cc_count ctr n hp = (case ctr of None \<Rightarrow> hp | Some a \<Rightarrow> if n > 0 then AddInt hp a n else hp)"

definition cc_Read :: "counting_conn \<Rightarrow> int \<times> 'e option \<Rightarrow> heap \<Rightarrow> (int \<times> 'e option) \<times> heap" where
  "cc_Read c res hp = (res, cc_count (cc_bytesRead c) (fst res) hp)"

definition cc_Write :: "counting_conn \<Rightarrow> int \<times> 'e option \<Rightarrow> heap \<Rightarrow> (int \<times> 'e option) \<times> heap" where
  "cc_Write c res hp = (res, cc_count (cc_bytesWritten c) (fst res) hp)"

section \<open>The guard\<close>

datatype limit_error = ErrByteQuotaExceeded | ErrGrantExpired | ErrGrantRevoked

fun limit_text :: "limit_error \<Rightarrow> string" where
  "limit_text ErrByteQuotaExceeded = ''bandwidth quota exceeded for this grant''"
| "limit_text ErrGrantExpired = ''grant expired''"
| "limit_text ErrGrantRevoked = ''grant revoked''"

record limit_guard =
  lg_from :: "addr option"
  lg_to :: "addr option"
  lg_baseBytes :: int
  lg_maxBytes :: "int option"
  lg_expiresAt :: time
  lg_revoked :: "addr option"

definition NewLimitGuard :: "access_grant option \<Rightarrow> addr option \<Rightarrow> addr option \<Rightarrow> limit_guard" where
  "NewLimitGuard grant from to =
     (let g = \<lparr>lg_from = from, lg_to = to, lg_baseBytes = 0, lg_maxBytes = None,
               lg_expiresAt = zero_time, lg_revoked = None\<rparr>
      in case grant of None \<Rightarrow> g
         | Some ag \<Rightarrow> g\<lparr>lg_baseBytes := ag_BytesTransferred ag,
                       lg_maxBytes := ag_MaxBytesTransferred ag,
                       lg_expiresAt := ag_ExpiresAt ag\<rparr>)"

definition WithRevocation :: "limit_guard option \<Rightarrow> addr option \<Rightarrow> limit_guard option" where
  "WithRevocation g revoked =
     (case g of None \<Rightarrow> None | Some lg \<Rightarrow> Some (lg\<lparr>lg_revoked := revoked\<rparr>))"

definition load_opt :: "heap \<Rightarrow> addr option \<Rightarrow> int" where
  "load_opt hp a = (case a of None \<Rightarrow> 0 | Some x \<Rightarrow> LoadInt hp x)"

definition liveBytes :: "heap \<Rightarrow> limit_guard \<Rightarrow> int" where
  "liveBytes hp g = wrap_i64 (load_opt hp (lg_from g) + load_opt hp (lg_to g))"

definition Check :: "heap \<Rightarrow> time \<Rightarrow> limit_guard option \<Rightarrow> limit_error option" where
  "Check hp now g =
     (case g of None \<Rightarrow> None
      | Some lg \<Rightarrow>
          if (case lg_revoked lg of None \<Rightarrow> False | Some a \<Rightarrow> LoadBool hp a)
          then Some ErrGrantRevoked
          else if (case lg_maxBytes lg of None \<Rightarrow> False
                   | Some m \<Rightarrow> wrap_i64 (lg_baseBytes lg + liveBytes hp lg) \<ge> m)
          then Some ErrByteQuotaExceeded
          else if \<not> IsZero (lg_expiresAt lg) \<and> \<not> now < lg_expiresAt lg
          then Some ErrGrantExpired
          else None)"

section \<open>The watchdog\<close>

text \<open>What the watchdog's \<open>select\<close> delivers: the context is done, or the ticker fires, at
  which point the guard reads the counters and the clock of that moment.\<close>

datatype watch_event = CtxDone | Tick heap time

fun watch_loop :: "limit_guard option \<Rightarrow> watch_event list \<Rightarrow> limit_error list" where
  "watch_loop g [] = []"
| "watch_loop g (CtxDone # es) = []"
| "watch_loop g (Tick hp now # es) =
     (case Check hp now g of Some e \<Rightarrow> [e] | None \<Rightarrow> watch_loop g es)"

text \<open>The errors passed to \<open>onViolation\<close>, in order.\<close>

definition Watch :: "limit_guard option \<Rightarrow> heap \<Rightarrow> time \<Rightarrow> watch_event list \<Rightarrow> limit_error list" where
  "Watch g hp now es =
     (case g of None \<Rightarrow> []
      | Some lg \<Rightarrow>
          if lg_maxBytes lg = None \<and> IsZero (lg_expiresAt lg) \<and> lg_revoked lg = None then []
          else (case Check hp now g of Some e \<Rightarrow> [e] | None \<Rightarrow> watch_loop g es))"

section \<open>Lemmas\<close>

lemma Check_unlimited:
  "lg_maxBytes lg = None \<Longrightarrow> IsZero (lg_expiresAt lg) \<Longrightarrow> lg_revoked lg = None \<Longrightarrow>
     Check hp now (Some lg) = None"
  by (simp add: Check_def)

text \<open>The moments at which a watchdog looks: at its start and at each tick before the context
  is done.\<close>

fun ticks :: "watch_event list \<Rightarrow> (heap \<times> time) list" where
  "ticks [] = []"
| "ticks (CtxDone # es) = []"
| "ticks (Tick hp now # es) = (hp, now) # ticks es"

definition violations :: "limit_guard option \<Rightarrow> (heap \<times> time) list \<Rightarrow> limit_error list" where
  "violations g obs = List.map_filter (\<lambda>(hp, now). Check hp now g) obs"

lemma violations_simps [simp]:
  "violations g [] = []"
  "violations g ((hp, now) # obs) =
     (case Check hp now g of None \<Rightarrow> violations g obs | Some e \<Rightarrow> e # violations g obs)"
  by (auto simp: violations_def map_filter_def split: option.split)

lemma watch_loop_eq: "watch_loop g es = take 1 (violations g (ticks es))"
  by (induction g es rule: watch_loop.induct) (auto split: option.split)

lemma violations_None [simp]: "violations None obs = []"
  by (induction obs) (auto simp: Check_def)

lemma violations_unlimited:
  "lg_maxBytes lg = None \<Longrightarrow> IsZero (lg_expiresAt lg) \<Longrightarrow> lg_revoked lg = None \<Longrightarrow>
     violations (Some lg) obs = []"
  by (induction obs) (auto simp: Check_unlimited)

text \<open>Later moments of one session: counters have grown without overflow, a raised flag is
  still up, the clock has advanced.\<close>

definition no_overflow :: "limit_guard \<Rightarrow> heap \<Rightarrow> bool" where
  "no_overflow lg hp \<longleftrightarrow>
     in_i64 (load_opt hp (lg_from lg) + load_opt hp (lg_to lg)) \<and>
     in_i64 (lg_baseBytes lg + (load_opt hp (lg_from lg) + load_opt hp (lg_to lg)))"

definition later :: "heap \<Rightarrow> heap \<Rightarrow> bool" where
  "later hp hp' \<longleftrightarrow> (\<forall>a. ints hp a \<le> ints hp' a) \<and> (\<forall>a. bools hp a \<longrightarrow> bools hp' a)"

lemma Check_bytes:
  "no_overflow lg hp \<Longrightarrow>
     wrap_i64 (lg_baseBytes lg + liveBytes hp lg) =
       lg_baseBytes lg + load_opt hp (lg_from lg) + load_opt hp (lg_to lg)"
  by (simp add: no_overflow_def liveBytes_def add.assoc)

lemma load_opt_later: "later hp hp' \<Longrightarrow> load_opt hp a \<le> load_opt hp' a"
  by (simp add: load_opt_def later_def split: option.split)

text \<open>The bytes of a session: each call on the wrapped connection adds its count.\<close>

datatype io_call = IoRead int | IoWrite int

fun io_step :: "counting_conn \<Rightarrow> io_call \<Rightarrow> heap \<Rightarrow> heap" where
  "io_step c (IoRead n) hp = snd (cc_Read c (n, None :: unit option) hp)"
| "io_step c (IoWrite n) hp = snd (cc_Write c (n, None :: unit option) hp)"

fun io_bytes :: "io_call \<Rightarrow> int" where
  "io_bytes (IoRead n) = max n 0"
| "io_bytes (IoWrite n) = max n 0"

lemma io_bytes_nonneg [simp]: "0 \<le> io_bytes x"
  by (cases x) simp_all

definition session_total :: "counting_conn \<Rightarrow> heap \<Rightarrow> int" where
  "session_total c hp = load_opt hp (cc_bytesRead c) + load_opt hp (cc_bytesWritten c)"

definition wired :: "counting_conn \<Rightarrow> heap \<Rightarrow> bool" where
  "wired c hp \<longleftrightarrow> (\<exists>a b. cc_bytesRead c = Some a \<and> cc_bytesWritten c = Some b \<and> a \<noteq> b \<and>
     0 \<le> ints hp a \<and> 0 \<le> ints hp b)"

lemma io_step_total:
  assumes "wired c hp" and "session_total c hp + io_bytes x < 2 ^ 63"
  shows "wired c (io_step c x hp)"
    and "session_total c (io_step c x hp) = session_total c hp + io_bytes x"
    and "bools (io_step c x hp) = bools hp"
proof -
  obtain a b where ab: "cc_bytesRead c = Some a" "cc_bytesWritten c = Some b" "a \<noteq> b"
    "0 \<le> ints hp a" "0 \<le> ints hp b" using assms(1) by (auto simp: wired_def)
  have "wrap_i64 (ints hp a + n) = ints hp a + n" if "0 < n" "x = IoRead n" for n
    by (rule wrap_i64_id) (use that ab assms(2) in \<open>auto simp: in_i64_def session_total_def load_opt_def\<close>)
  moreover have "wrap_i64 (ints hp b + n) = ints hp b + n" if "0 < n" "x = IoWrite n" for n
    by (rule wrap_i64_id) (use that ab assms(2) in \<open>auto simp: in_i64_def session_total_def load_opt_def\<close>)
  ultimately show "wired c (io_step c x hp)"
    and "session_total c (io_step c x hp) = session_total c hp + io_bytes x"
    and "bools (io_step c x hp) = bools hp"
    using ab by (cases x; auto simp: cc_Read_def cc_Write_def cc_count_def session_total_def
        load_opt_def wired_def)+
qed

lemma io_run_total:
  assumes "wired c hp" and "session_total c hp + sum_list (map io_bytes xs) < 2 ^ 63"
  shows "wired c (fold (io_step c) xs hp)
    \<and> session_total c (fold (io_step c) xs hp) = session_total c hp + sum_list (map io_bytes xs)
    \<and> bools (fold (io_step c) xs hp) = bools hp"
  using assms
proof (induction xs arbitrary: hp)
  case (Cons x xs)
  have "0 \<le> sum_list (map io_bytes xs)"
    by (rule sum_list_nonneg) auto
  then have "session_total c hp + io_bytes x < 2 ^ 63" using Cons.prems(2) by simp
  from io_step_total [OF Cons.prems(1) this] Cons.IH [of "io_step c x hp"] Cons.prems(2)
  show ?case by simp
qed simp

section \<open>Properties\<close>

text \<open>The watchdog calls back exactly once, with the first violation it can observe (at its
  start or at a tick before the context is done), and never when there is none; the early
  return for a guard with nothing to enforce changes nothing.\<close>

theorem watch_first_violation:
  "Watch g hp now es = take 1 (violations g ((hp, now) # ticks es))"
proof (cases g)
  case None
  then show ?thesis by (simp add: Watch_def Check_def)
next
  case (Some lg)
  then show ?thesis
    by (cases "lg_maxBytes lg = None \<and> IsZero (lg_expiresAt lg) \<and> lg_revoked lg = None")
      (auto simp: Watch_def Check_unlimited violations_unlimited watch_loop_eq split: option.split)
qed

text \<open>A crossed limit stays crossed: once Check reports a violation it reports one at every
  later moment of the session, as long as the byte total does not overflow an int64.\<close>

theorem check_violation_permanent:
  assumes "later hp hp'" and "now \<le> now'"
    and "no_overflow lg hp" and "no_overflow lg hp'"
    and "Check hp now (Some lg) \<noteq> None"
  shows "Check hp' now' (Some lg) \<noteq> None"
proof -
  have "lg_baseBytes lg + load_opt hp (lg_from lg) + load_opt hp (lg_to lg) \<le>
        lg_baseBytes lg + load_opt hp' (lg_from lg) + load_opt hp' (lg_to lg)"
    using load_opt_later [OF assms(1), of "lg_from lg"] load_opt_later [OF assms(1), of "lg_to lg"]
    by linarith
  then show ?thesis
    using assms(1,2,5) unfolding Check_def
    by (auto simp: Check_bytes [OF assms(3)] Check_bytes [OF assms(4)] later_def
        split: option.splits if_splits)
qed

theorem check_violation_permanent_witness:
  "Check empty_heap 2000
     (Some \<lparr>lg_from = Some 0, lg_to = Some 1, lg_baseBytes = 5, lg_maxBytes = Some 5,
            lg_expiresAt = 10, lg_revoked = None\<rparr>) \<noteq> None"
  by (rule check_violation_permanent [where hp = empty_heap and now = 0])
    (simp_all add: later_def no_overflow_def in_i64_def load_opt_def empty_heap_def Check_def
      liveBytes_def wrap_i64_def)

text \<open>C28. Bandwidth is enforced to the byte: for a session whose wrapped connection feeds the
  guard's counters, the guard reports the byte quota (or a revocation) exactly when the grant's
  earlier bytes plus all bytes read and written reach the maximum.\<close>

theorem quota_exact:
  assumes "wired c hp" and "session_total c hp = 0"
    and "lg_from lg = cc_bytesRead c" and "lg_to lg = cc_bytesWritten c"
    and "lg_maxBytes lg = Some m" and "0 \<le> lg_baseBytes lg"
    and "lg_baseBytes lg + sum_list (map io_bytes xs) < 2 ^ 63"
  shows "Check (fold (io_step c) xs hp) now (Some lg) \<in> {Some ErrByteQuotaExceeded, Some ErrGrantRevoked}
    \<longleftrightarrow> Revoked hp (lg_revoked lg) \<or> m \<le> lg_baseBytes lg + sum_list (map io_bytes xs)"
proof -
  let ?hp = "fold (io_step c) xs hp"
  have run: "wired c ?hp" "session_total c ?hp = sum_list (map io_bytes xs)" "bools ?hp = bools hp"
    using io_run_total [OF assms(1), of xs] assms(2,6,7) by auto
  have nn: "0 \<le> sum_list (map io_bytes xs)"
    by (rule sum_list_nonneg) auto
  have eq: "load_opt ?hp (lg_from lg) + load_opt ?hp (lg_to lg) = sum_list (map io_bytes xs)"
    using run(2) by (simp add: session_total_def assms(3,4))
  have "no_overflow lg ?hp"
    unfolding no_overflow_def eq in_i64_def using nn assms(6,7) by auto
  from Check_bytes [OF this] eq
  have "wrap_i64 (lg_baseBytes lg + liveBytes ?hp lg) = lg_baseBytes lg + sum_list (map io_bytes xs)"
    by simp
  then show ?thesis
    using run(3) assms(5) by (auto simp: Check_def Revoked_def split: option.splits)
qed

theorem quota_exact_witness:
  "Check (fold (io_step (NewCountingConn (Some 0) (Some 1))) [IoRead 3, IoWrite 4] empty_heap) 0
     (Some \<lparr>lg_from = Some 0, lg_to = Some 1, lg_baseBytes = 5, lg_maxBytes = Some 12,
            lg_expiresAt = 10, lg_revoked = None\<rparr>) \<in> {Some ErrByteQuotaExceeded, Some ErrGrantRevoked}"
  by (subst quota_exact [where m = 12])
    (simp_all add: wired_def NewCountingConn_def session_total_def load_opt_def empty_heap_def)

end
