(* ===== verification/Go_Encoding.thy ===== *)
theory Go_Encoding
  imports Go_Text
begin

text \<open>
  Text encodings of Go's standard library that several components share: decimal numbers of
  \<open>strconv\<close>, \<open>base64.StdEncoding\<close> and the conversions between strings and byte slices.
\<close>

section \<open>Strings and bytes\<close>

definition str_of :: "bytes \<Rightarrow> string" where
  "str_of bs = map (\<lambda>b. char_of (unat b)) bs"

definition bytes_of :: "string \<Rightarrow> bytes" where
  "bytes_of s = map (\<lambda>c. of_nat (of_char c)) s"

lemma unat_byte [simp]: "unat (b :: byte) mod 256 = unat b"
  using unsigned_less [of b, where 'a = nat] by simp

lemma bytes_of_str_of [simp]: "bytes_of (str_of bs) = bs"
  by (induction bs) (simp_all add: bytes_of_def str_of_def)

lemma str_of_bytes_of [simp]: "str_of (bytes_of s) = s"
proof -
  have "(of_char c :: nat) mod 256 = of_char c" for c using of_char_mod_256 [of c, where 'a = nat] by simp
  then show ?thesis by (induction s) (simp_all add: bytes_of_def str_of_def unat_of_nat)
qed

lemma length_str_of [simp]: "length (str_of bs) = length bs" "length (bytes_of s) = length s"
  by (simp_all add: str_of_def bytes_of_def)

section \<open>Decimal numbers\<close>

text \<open>\<open>strconv.FormatInt\<close> in base ten.\<close>

fun digits :: "nat \<Rightarrow> string" where
  "digits n = (if n < 10 then [char_of (48 + n)] else digits (n div 10) @ [char_of (48 + n mod 10)])"

definition FormatInt :: "int \<Rightarrow> string" where
  "FormatInt i = (if i < 0 then CHR ''-'' # digits (nat (- i)) else digits (nat i))"

text \<open>Reading decimal digits back.\<close>

definition dec_val :: "string \<Rightarrow> nat" where
  "dec_val s = foldl (\<lambda>n c. n * 10 + (of_char c - 48)) 0 s"

lemma dec_val_digits [simp]: "dec_val (digits n) = n"
proof (induction n rule: digits.induct)
  case (1 n)
  have low: "(48 + n mod 10) mod 256 = 48 + n mod 10" by simp
  show ?case
  proof (cases "n < 10")
    case True
    then show ?thesis by (simp add: dec_val_def)
  next
    case False
    then show ?thesis using 1 low by (subst digits.simps) (simp add: dec_val_def del: digits.simps)
  qed
qed

declare digits.simps [simp del]

section \<open>Base64\<close>

definition b64_char :: "nat \<Rightarrow> char" where
  "b64_char n = (if n < 26 then char_of (65 + n) else if n < 52 then char_of (97 + (n - 26))
     else if n < 62 then char_of (48 + (n - 52)) else if n = 62 then CHR ''+'' else CHR ''/'')"

fun b64_encode :: "bytes \<Rightarrow> string" where
  "b64_encode (a # b # c # r) =
     (let n = unat a * 65536 + unat b * 256 + unat c in
      [b64_char (n div 262144), b64_char (n div 4096 mod 64), b64_char (n div 64 mod 64), b64_char (n mod 64)]
      @ b64_encode r)"
| "b64_encode [a, b] =
     (let n = unat a * 1024 + unat b * 4 in
      [b64_char (n div 4096), b64_char (n div 64 mod 64), b64_char (n mod 64), CHR ''=''])"
| "b64_encode [a] = (let n = unat a * 16 in [b64_char (n div 64), b64_char (n mod 64), CHR ''='', CHR ''=''])"
| "b64_encode [] = []"

definition b64_val :: "char \<Rightarrow> nat option" where
  "b64_val c = (let n = of_char c in
     if 65 \<le> n \<and> n \<le> 90 then Some (n - 65) else if 97 \<le> n \<and> n \<le> 122 then Some (n - 71)
     else if 48 \<le> n \<and> n \<le> 57 then Some (n + 4) else if c = CHR ''+'' then Some 62
     else if c = CHR ''/'' then Some 63 else None)"

text \<open>Groups of four characters; padding only at the end. Not strict: spare bits are ignored.\<close>

fun b64_quads :: "string \<Rightarrow> bytes option" where
  "b64_quads [] = Some []"
| "b64_quads (a # b # c # d # r) =
     (case (b64_val a, b64_val b) of
        (Some x, Some y) \<Rightarrow>
          let n = x * 262144 + y * 4096 in
          if c = CHR ''='' then (if d = CHR ''='' \<and> r = [] then Some [of_nat (n div 65536)] else None)
          else (case b64_val c of
             None \<Rightarrow> None
           | Some z \<Rightarrow>
               let m = n + z * 64 in
               if d = CHR ''='' then (if r = [] then Some [of_nat (m div 65536), of_nat (m div 256)] else None)
               else (case b64_val d of
                  None \<Rightarrow> None
                | Some w \<Rightarrow> map_option (\<lambda>bs. [of_nat ((m + w) div 65536), of_nat ((m + w) div 256), of_nat (m + w)] @ bs)
                              (b64_quads r)))
      | _ \<Rightarrow> None)"
| "b64_quads _ = None"

text \<open>\<open>DecodeString\<close>: line breaks are skipped.\<close>

definition b64_decode :: "string \<Rightarrow> bytes option" where
  "b64_decode s = b64_quads (filter (\<lambda>c. of_char c \<noteq> (10 :: nat) \<and> of_char c \<noteq> (13 :: nat)) s)"

lemma b64_char_of_char:
  "n < 64 \<Longrightarrow> (of_char (b64_char n) :: nat) = (if n < 26 then 65 + n else if n < 52 then 71 + n
     else if n < 62 then n - 4 else if n = 62 then 43 else 47)"
  by (simp add: b64_char_def)

lemma b64_val_char: assumes "n < 64" shows "b64_val (b64_char n) = Some n"
proof -
  consider "n < 26" | "26 \<le> n" "n < 52" | "52 \<le> n" "n < 62" | "n = 62" | "n = 63" using assms by linarith
  then show ?thesis
  proof cases
    case 4
    then show ?thesis by (simp add: b64_val_def b64_char_def)
  next
    case 5
    then show ?thesis by (simp add: b64_val_def b64_char_def)
  qed (auto simp: b64_val_def Let_def b64_char_of_char)
qed

lemma b64_char_not:
  assumes "n < 64"
  shows "b64_char n \<noteq> CHR ''=''" and "of_char (b64_char n) \<noteq> (10 :: nat)" and "of_char (b64_char n) \<noteq> (13 :: nat)"
proof -
  have "(of_char (b64_char n) :: nat) \<noteq> of_char (CHR ''='')" using assms by (auto simp: b64_char_of_char)
  then show "b64_char n \<noteq> CHR ''=''" by metis
  show "of_char (b64_char n) \<noteq> (10 :: nat)" "of_char (b64_char n) \<noteq> (13 :: nat)"
    using assms by (auto simp: b64_char_of_char)
qed

lemmas b64_char_facts = b64_val_char b64_char_not

lemma split24:
  fixes n :: nat
  assumes "n < 16777216"
  shows "n div 262144 * 262144 + n div 4096 mod 64 * 4096 + n div 64 mod 64 * 64 + n mod 64 = n" and "n div 262144 < 64"
proof -
  have "n div 64 div 64 = n div 4096" "n div 64 div 64 div 64 = n div 262144" by (simp_all add: div_mult2_eq [symmetric])
  then have "n div 64 * 64 + n mod 64 = n" "n div 4096 * 64 + n div 64 mod 64 = n div 64"
    "n div 262144 * 64 + n div 4096 mod 64 = n div 4096"
    using div_mult_mod_eq [of n 64] div_mult_mod_eq [of "n div 64" 64] div_mult_mod_eq [of "n div 64 div 64" 64] by simp_all
  then show "n div 262144 * 262144 + n div 4096 mod 64 * 4096 + n div 64 mod 64 * 64 + n mod 64 = n" by linarith
  show "n div 262144 < 64" using assms by (simp add: div_less_iff_less_mult)
qed

lemma split18: "n div 4096 * 4096 + n div 64 mod 64 * 64 + n mod 64 = (n :: nat)"
proof -
  have "n div 64 div 64 = n div 4096" by (simp add: div_mult2_eq [symmetric])
  then have "n div 64 * 64 + n mod 64 = n" "n div 4096 * 64 + n div 64 mod 64 = n div 64"
    using div_mult_mod_eq [of n 64] div_mult_mod_eq [of "n div 64" 64] by simp_all
  then show ?thesis by linarith
qed

lemma unat_256: "unat (a :: byte) < 256"
  using unsigned_less [of a, where 'a = nat] by simp

lemma byte_256: "(256 :: byte) = 0"
  by (rule word_uint_eqI) simp

lemma quad_decode:
  assumes "x < 64" "y < 64" "z < 64" "w < 64"
  shows "b64_quads (b64_char x # b64_char y # b64_char z # b64_char w # r) =
    map_option (\<lambda>bs. [of_nat ((x * 262144 + y * 4096 + z * 64 + w) div 65536),
      of_nat ((x * 262144 + y * 4096 + z * 64 + w) div 256), of_nat (x * 262144 + y * 4096 + z * 64 + w)] @ bs) (b64_quads r)"
  using assms by (simp only: b64_quads.simps b64_char_facts Let_def prod.case option.case if_False)

lemma b64_quads_encode: "b64_quads (b64_encode bs) = Some bs"
proof (induction bs rule: b64_encode.induct)
  case (1 a b c r)
  let ?n = "unat a * 65536 + unat b * 256 + unat c"
  have lt: "?n < 16777216" using unat_256 [of a] unat_256 [of b] unat_256 [of c] by linarith
  have bytes: "of_nat (?n div 65536) = a" "of_nat (?n div 256) = b" "of_nat ?n = c"
  proof -
    have "?n div 65536 = unat a" using unat_256 [of b] unat_256 [of c] by linarith
    then show "of_nat (?n div 65536) = a" by simp
    have "?n div 256 = unat a * 256 + unat b" using unat_256 [of c] by linarith
    then show "of_nat (?n div 256) = b" by (simp add: byte_256)
    have "of_nat ?n = a * (256 * 256) + b * 256 + c" by simp
    then show "of_nat ?n = c" by (simp only: byte_256) simp
  qed
  have "b64_quads (b64_encode (a # b # c # r)) =
      map_option (\<lambda>bs. [of_nat (?n div 65536), of_nat (?n div 256), of_nat ?n] @ bs) (b64_quads (b64_encode r))"
    using quad_decode [of "?n div 262144" "?n div 4096 mod 64" "?n div 64 mod 64" "?n mod 64" "b64_encode r"]
    unfolding split24(1) [OF lt] using split24(2) [OF lt] by (simp only: b64_encode.simps Let_def append.simps)
  then show ?case using 1 by (simp only: bytes) simp
next
  case (2 a b)
  let ?n = "unat a * 1024 + unat b * 4"
  have x: "?n div 4096 < 64" using unat_256 [of a] unat_256 [of b] by linarith
  have m: "?n div 4096 * 262144 + ?n div 64 mod 64 * 4096 + ?n mod 64 * 64 = unat a * 65536 + unat b * 256"
    using split18 [of ?n] by linarith
  have "(unat a * 65536 + unat b * 256) div 65536 = unat a" using unat_256 [of b] by linarith
  moreover have "(unat a * 65536 + unat b * 256) div 256 = unat a * 256 + unat b" by linarith
  ultimately show ?case using x m by (simp add: Let_def b64_char_facts byte_256)
next
  case (3 a)
  let ?n = "unat a * 16"
  have x: "?n div 64 < 64" using unat_256 [of a] by linarith
  have "?n div 64 * 262144 + ?n mod 64 * 4096 = unat a * 65536"
  proof -
    have "?n div 64 * 64 + ?n mod 64 = ?n" by (rule div_mult_mod_eq)
    then show ?thesis by linarith
  qed
  then show ?case using x by (simp add: Let_def b64_char_facts)
next
  case 4
  then show ?case by simp
qed

lemma b64_encode_no_breaks: "filter (\<lambda>c. of_char c \<noteq> (10 :: nat) \<and> of_char c \<noteq> (13 :: nat)) (b64_encode bs) = b64_encode bs"
proof (induction bs rule: b64_encode.induct)
  case (1 a b c r)
  have "unat a * 65536 + unat b * 256 + unat c < 16777216" using unat_256 [of a] unat_256 [of b] unat_256 [of c] by linarith
  then show ?case using 1 split24(2) by (simp add: Let_def b64_char_facts)
next
  case (2 a b)
  have "(unat a * 1024 + unat b * 4) div 4096 < 64" using unat_256 [of a] unat_256 [of b] by linarith
  then show ?case by (simp add: Let_def b64_char_facts)
next
  case (3 a)
  have "unat a * 16 div 64 < 64" using unat_256 [of a] by linarith
  then show ?case by (simp add: Let_def b64_char_facts)
qed simp

lemma b64_roundtrip [simp]: "b64_decode (b64_encode bs) = Some bs"
  by (simp add: b64_decode_def b64_encode_no_breaks b64_quads_encode)

text \<open>\<open>base64.RawStdEncoding\<close>: the same without padding.\<close>

definition raw_encode :: "bytes \<Rightarrow> string" where
  "raw_encode bs = filter (\<lambda>c. c \<noteq> CHR ''='') (b64_encode bs)"

definition raw_decode :: "string \<Rightarrow> bytes option" where
  "raw_decode s = (let t = filter (\<lambda>c. of_char c \<noteq> (10 :: nat) \<and> of_char c \<noteq> (13 :: nat)) s in
     if CHR ''='' \<in> set t then None
     else b64_quads (t @ replicate ((4 - length t mod 4) mod 4) (CHR ''='')))"

lemma raw_encode_pad: "raw_encode bs @ replicate ((4 - length (raw_encode bs) mod 4) mod 4) (CHR ''='') = b64_encode bs"
proof (induction bs rule: b64_encode.induct)
  case (1 a b c r)
  have "unat a * 65536 + unat b * 256 + unat c < 16777216" using unat_256 [of a] unat_256 [of b] unat_256 [of c] by linarith
  then show ?case using 1 split24(2) by (simp add: raw_encode_def Let_def b64_char_facts)
next
  case (2 a b)
  have "(unat a * 1024 + unat b * 4) div 4096 < 64" using unat_256 [of a] unat_256 [of b] by linarith
  then show ?case by (simp add: raw_encode_def Let_def b64_char_facts)
next
  case (3 a)
  have "unat a * 16 div 64 < 64" using unat_256 [of a] by linarith
  then show ?case by (simp add: raw_encode_def Let_def b64_char_facts numeral_2_eq_2)
qed (simp add: raw_encode_def)

lemma raw_roundtrip [simp]: "raw_decode (raw_encode bs) = Some bs"
proof -
  have "filter (\<lambda>c. of_char c \<noteq> (10 :: nat) \<and> of_char c \<noteq> (13 :: nat)) (raw_encode bs) = raw_encode bs"
    unfolding raw_encode_def by (metis (no_types, lifting) b64_encode_no_breaks filter_filter conj_commute filter_cong)
  moreover have "CHR ''='' \<notin> set (raw_encode bs)" by (simp add: raw_encode_def)
  ultimately show ?thesis by (simp add: raw_decode_def Let_def raw_encode_pad b64_quads_encode)
qed

lemma raw_encode_chars:
  assumes "c \<in> set (raw_encode bs)"
  shows "c \<in> b64_char ` {..<64}"
proof -
  have "c \<in> set (b64_encode bs) \<Longrightarrow> c \<noteq> CHR ''='' \<Longrightarrow> c \<in> b64_char ` {..<64}"
  proof (induction bs rule: b64_encode.induct)
    case (1 a b c' r)
    have "unat a * 65536 + unat b * 256 + unat c' < 16777216" using unat_256 [of a] unat_256 [of b] unat_256 [of c'] by linarith
    from 1 split24(2) [OF this] show ?case by (auto simp: Let_def)
  next
    case (2 a b)
    have "(unat a * 1024 + unat b * 4) div 4096 < 64" using unat_256 [of a] unat_256 [of b] by linarith
    with 2 show ?case by (auto simp: Let_def)
  next
    case (3 a)
    have "unat a * 16 div 64 < 64" using unat_256 [of a] by linarith
    with 3 show ?case by (auto simp: Let_def)
  qed simp
  then show ?thesis using assms by (simp add: raw_encode_def)
qed

end
