(* ===== verification/Pg_Intercept.thy ===== *)
theory Pg_Intercept
  imports Validation Limit_Guard Go_Encoding
begin

text \<open>
  \<open>internal/proxy/postgresql/intercept.go\<close> and \<open>checkQuotas\<close> of \<open>auth.go\<close>: the state of a
  PostgreSQL session and the handlers that decide about each client message and track prepared
  statements, portals and running queries. Messages arrive decoded (\<open>pgproto3\<close> is not part of
  the repository). The float conversions of \<open>strconv\<close> and the JSON encoder are
  the fields of the parameter record \<open>pg_lib\<close>. Counters of queries and rows are integers; byte
  counters live in the store of atomic cells.
\<close>

section \<open>Session state\<close>

record query_row =
  qr_RowData :: string
  qr_RowSizeBytes :: int

record pending_query =
  pq_sql :: string
  pq_startTime :: time
  pq_parameters :: "query_parameters option"
  pq_columnNames :: "string list"
  pq_columnOIDs :: "u32 list"
  pq_capturedRows :: "query_row list"
  pq_capturedBytes :: int
  pq_rowNumber :: int
  pq_truncated :: bool

record prepared_statement =
  ps_sql :: string
  ps_typeOIDs :: "u32 list"
  ps_resolvedOIDs :: "u32 list"

record portal_state =
  po_stmtName :: string
  po_parameters :: "query_parameters option"

datatype copy_direction = CopyIn | CopyOut

record copy_state =
  cp_direction :: copy_direction
  cp_format :: byte
  cp_columnNames :: "string list"
  cp_dataChunks :: "string list"
  cp_totalBytes :: int
  cp_truncated :: bool

record extended_state =
  xs_preparedStatements :: "string \<rightharpoonup> prepared_statement"
  xs_portals :: "string \<rightharpoonup> portal_state"
  xs_pendingQueries :: "pending_query list"
  xs_pendingDescribes :: "string list"

record query_storage =
  cfg_StoreResults :: bool
  cfg_MaxResultRows :: int
  cfg_MaxResultBytes :: int

text \<open>A query record handed to \<open>persistQueryAsync\<close>.\<close>

record logged_query =
  lq_SQLText :: string
  lq_Parameters :: "query_parameters option"
  lq_ExecutedAt :: time
  lq_RowsAffected :: "int option"
  lq_Error :: "string option"
  lq_Copy :: "(copy_direction \<times> string) option"
  lq_Rows :: "query_row list"
  lq_Bytes :: int

record session =
  ss_grant :: access_grant
  ss_connectionUID :: uuid
  ss_storage :: query_storage
  ss_extended :: extended_state
  ss_currentQuery :: "pending_query option"
  ss_copyState :: "copy_state option"
  ss_revocation :: "addr option"
  ss_guard :: "limit_guard option"
  ss_bytesFromClient :: addr
  ss_bytesToClient :: addr
  ss_lastBytesSnapshot :: int
  ss_logged :: "logged_query list"

text \<open>What \<open>decodeColumnValue\<close> returns: a float by its bits, raw JSON by its text.\<close>

datatype col_value = CNull | CBool bool | CInt int | CFloat u64 | CRaw string | CStr string

text \<open>\<open>json_Marshal\<close> encodes a map and gives the error text when a value has no JSON form (NaN).\<close>

record pg_lib =
  FormatFloat32 :: "u32 \<Rightarrow> string"
  FormatFloat64 :: "u64 \<Rightarrow> string"
  ParseFloat :: "string \<Rightarrow> u64 option"
  json_valid :: "string \<Rightarrow> bool"
  json_Marshal :: "(string \<rightharpoonup> col_value) \<Rightarrow> string + string"

datatype pg_error =
    PgLimit limit_error
  | ErrQueryLimitExceeded
  | ErrDataLimitExceeded
  | ErrPasswordChangeNotAllowed
  | ErrReadOnlyBypassAttempt
  | ErrWriteNotPermitted
  | ErrDDLNotPermitted
  | ErrCopyNotPermitted

section \<open>Statement checks\<close>

definition readOnlyBypassPatterns :: "regex list" where
  "readOnlyBypassPatterns =
    [rseq [RWordB, rlit ''SET'', RSpacesPlus, ROpt (RSeq (rlit ''SESSION'') RSpacesPlus),
           rlit ''default_transaction_read_only'', RSpaces, RAlt (rlit ''='') (rlit ''TO''), RSpaces,
           RAlt (rlit ''off'') (RAlt (rlit ''false'') (rlit ''0'')), RWordB],
     rseq [RWordB, rlit ''RESET'', RSpacesPlus, ROpt (RSeq (rlit ''SESSION'') RSpacesPlus),
           rlit ''default_transaction_read_only'', RWordB],
     rseq [RWordB, rlit ''SET'', RSpacesPlus, ROpt (RSeq (rlit ''SESSION'') RSpacesPlus),
           rlit ''AUTHORIZATION'', RWordB],
     rseq [RWordB, rlit ''SET'', RSpacesPlus, rlit ''ROLE'', RWordB]]"

definition isReadOnlyBypassAttempt :: "string \<Rightarrow> bool" where
  "isReadOnlyBypassAttempt sql = any_match readOnlyBypassPatterns sql"

definition isCopyQuery :: "string \<Rightarrow> bool" where
  "isCopyQuery sql = HasPrefix (ToUpper (TrimSpace sql)) ''COPY ''"

text \<open>The statement controls that \<open>handleQuery\<close> and \<open>handleParse\<close> share.\<close>

definition control_error :: "access_grant \<Rightarrow> string \<Rightarrow> pg_error option" where
  "control_error g sqlText =
     (if IsPasswordChangeQuery sqlText then Some ErrPasswordChangeNotAllowed
      else if IsReadOnly g \<and> isReadOnlyBypassAttempt sqlText then Some ErrReadOnlyBypassAttempt
      else if IsReadOnly g \<and> IsWriteQuery sqlText then Some ErrWriteNotPermitted
      else if \<not> IsReadOnly g \<and> ShouldBlockDDL g \<and> IsDDLQuery sqlText then Some ErrDDLNotPermitted
      else if ShouldBlockCopy g \<and> isCopyQuery sqlText then Some ErrCopyNotPermitted
      else None)"

definition checkQuotas :: "heap \<Rightarrow> time \<Rightarrow> session \<Rightarrow> pg_error option" where
  "checkQuotas hp now s =
     (let g = ss_grant s in
      if Revoked hp (ss_revocation s) then Some (PgLimit ErrGrantRevoked)
      else if \<not> IsZero (ag_ExpiresAt g) \<and> \<not> now < ag_ExpiresAt g then Some (PgLimit ErrGrantExpired)
      else if (case ag_MaxQueryCounts g of None \<Rightarrow> False | Some m \<Rightarrow> m \<le> ag_QueryCount g)
      then Some ErrQueryLimitExceeded
      else if (case ag_MaxBytesTransferred g of None \<Rightarrow> False | Some m \<Rightarrow> m \<le> ag_BytesTransferred g)
      then Some ErrDataLimitExceeded
      else None)"

section \<open>Handlers of client messages\<close>

definition new_query :: "string \<Rightarrow> query_parameters option \<Rightarrow> time \<Rightarrow> pending_query" where
  "new_query sql params now =
     \<lparr>pq_sql = sql, pq_startTime = now, pq_parameters = params, pq_columnNames = [], pq_columnOIDs = [],
      pq_capturedRows = [], pq_capturedBytes = 0, pq_rowNumber = 0, pq_truncated = False\<rparr>"

definition handleQuery :: "string \<Rightarrow> heap \<Rightarrow> time \<Rightarrow> session \<Rightarrow> pg_error option \<times> session" where
  "handleQuery sqlText hp now s =
     (case checkQuotas hp now s of Some e \<Rightarrow> (Some e, s)
      | None \<Rightarrow>
        (case control_error (ss_grant s) sqlText of Some e \<Rightarrow> (Some e, s)
         | None \<Rightarrow> (None, s\<lparr>ss_currentQuery := Some (new_query sqlText None now)\<rparr>)))"

definition upd_extended :: "(extended_state \<Rightarrow> extended_state) \<Rightarrow> session \<Rightarrow> session" where
  "upd_extended f s = s\<lparr>ss_extended := f (ss_extended s)\<rparr>"

definition handleParse :: "string \<Rightarrow> string \<Rightarrow> u32 list \<Rightarrow> session \<Rightarrow> pg_error option \<times> session" where
  "handleParse name sqlText oids s =
     (case control_error (ss_grant s) sqlText of Some e \<Rightarrow> (Some e, s)
      | None \<Rightarrow>
        (None, upd_extended (\<lambda>x. x\<lparr>xs_preparedStatements := (xs_preparedStatements x)(name \<mapsto>
           \<lparr>ps_sql = sqlText, ps_typeOIDs = oids, ps_resolvedOIDs = []\<rparr>)\<rparr>) s))"

text \<open>An object type other than a statement is a portal or malformed.\<close>

datatype object_type = ObjStatement | ObjPortal | ObjOther char

definition handleDescribe :: "object_type \<Rightarrow> string \<Rightarrow> session \<Rightarrow> session" where
  "handleDescribe ty name s =
     (if ty \<noteq> ObjStatement then s
      else upd_extended (\<lambda>x. x\<lparr>xs_pendingDescribes := xs_pendingDescribes x @ [name]\<rparr>) s)"

definition handleParameterDescription :: "u32 list \<Rightarrow> session \<Rightarrow> session" where
  "handleParameterDescription oids s =
     upd_extended (\<lambda>x.
       case xs_pendingDescribes x of [] \<Rightarrow> x
       | name # rest \<Rightarrow>
           (case xs_preparedStatements x name of
              None \<Rightarrow> x\<lparr>xs_pendingDescribes := rest\<rparr>
            | Some st \<Rightarrow> x\<lparr>xs_pendingDescribes := rest,
                xs_preparedStatements := (xs_preparedStatements x)(name \<mapsto> st\<lparr>ps_resolvedOIDs := oids\<rparr>)\<rparr>)) s"

definition unknown_type :: "u32 \<Rightarrow> bytes \<Rightarrow> string" where
  "unknown_type oid data = ''(oid:'' @ digits (unat oid) @ '')'' @ b64_encode data"

definition decodeBinaryParameter :: "pg_lib \<Rightarrow> bytes \<Rightarrow> u32 \<Rightarrow> string" where
  "decodeBinaryParameter L data oid =
     (if length data = 0 then []
      else if oid = 16 then (if data ! 0 = 1 then ''true'' else ''false'')
      else if oid = 21 \<and> 2 \<le> length data then FormatInt (sint (Uint16_BE data))
      else if oid = 23 \<and> 4 \<le> length data then FormatInt (sint (Uint32_BE data))
      else if oid = 20 \<and> 8 \<le> length data then FormatInt (sint (Uint64_BE data))
      else if oid = 700 \<and> 4 \<le> length data then FormatFloat32 L (Uint32_BE data)
      else if oid = 701 \<and> 8 \<le> length data then FormatFloat64 L (Uint64_BE data)
      else if oid = 25 \<or> oid = 1042 \<or> oid = 1043 then str_of data
      else if oid = 17 then b64_encode data
      else unknown_type oid data)"

definition getTypeOID :: "u32 list \<Rightarrow> nat \<Rightarrow> u32" where
  "getTypeOID oids idx = (if idx < length oids then oids ! idx else 0)"

definition format_code :: "int list \<Rightarrow> nat \<Rightarrow> int" where
  "format_code codes i =
     (if length codes = 1 then codes ! 0 else if i < length codes then codes ! i else 0)"

definition bind_parameters :: "pg_lib \<Rightarrow> u32 list \<Rightarrow> int list \<Rightarrow> bytes list \<Rightarrow> query_parameters option" where
  "bind_parameters L typeOIDs codes params =
     (if length params = 0 then None
      else Some \<lparr>
        qp_Values = map (\<lambda>i. if format_code codes i = 0 then str_of (params ! i)
             else decodeBinaryParameter L (params ! i) (getTypeOID typeOIDs i)) [0..<length params],
        qp_Raw = map b64_encode params,
        qp_FormatCodes = map (format_code codes) [0..<length params],
        qp_TypeOIDs = typeOIDs\<rparr>)"

definition bind_types :: "prepared_statement option \<Rightarrow> u32 list" where
  "bind_types stmt = (case stmt of None \<Rightarrow> []
     | Some st \<Rightarrow> if length (ps_typeOIDs st) = 0 then ps_resolvedOIDs st else ps_typeOIDs st)"

definition handleBind ::
  "pg_lib \<Rightarrow> string \<Rightarrow> string \<Rightarrow> int list \<Rightarrow> bytes list \<Rightarrow> session \<Rightarrow> session" where
  "handleBind L portal stmtName codes params s =
     (let typeOIDs = bind_types (xs_preparedStatements (ss_extended s) stmtName) in
      upd_extended (\<lambda>x. x\<lparr>xs_portals := (xs_portals x)(portal \<mapsto>
        \<lparr>po_stmtName = stmtName, po_parameters = bind_parameters L typeOIDs codes params\<rparr>)\<rparr>) s)"

definition handleExecute :: "string \<Rightarrow> heap \<Rightarrow> time \<Rightarrow> session \<Rightarrow> pg_error option \<times> session" where
  "handleExecute portal hp now s =
     (case checkQuotas hp now s of Some e \<Rightarrow> (Some e, s)
      | None \<Rightarrow>
        (case xs_portals (ss_extended s) portal of None \<Rightarrow> (None, s)
         | Some po \<Rightarrow>
             let sqlText = (case xs_preparedStatements (ss_extended s) (po_stmtName po) of
                   None \<Rightarrow> [] | Some st \<Rightarrow> ps_sql st)
             in (None, upd_extended (\<lambda>x. x\<lparr>xs_pendingQueries :=
                   xs_pendingQueries x @ [new_query sqlText (po_parameters po) now]\<rparr>) s)))"

definition handleClose :: "object_type \<Rightarrow> string \<Rightarrow> session \<Rightarrow> session" where
  "handleClose ty name s =
     (case ty of
        ObjStatement \<Rightarrow> upd_extended (\<lambda>x. x\<lparr>xs_preparedStatements := (xs_preparedStatements x)(name := None)\<rparr>) s
      | ObjPortal \<Rightarrow> upd_extended (\<lambda>x. x\<lparr>xs_portals := (xs_portals x)(name := None)\<rparr>) s
      | ObjOther _ \<Rightarrow> s)"

section \<open>Results\<close>

text \<open>\<open>strings.Fields\<close> and \<open>strconv.ParseInt(s, 10, 64)\<close>.\<close>

fun fields_of :: "(rune \<times> string) list \<Rightarrow> string \<Rightarrow> string list" where
  "fields_of [] cur = (if cur = [] then [] else [cur])"
| "fields_of ((r, t) # ss) cur =
     (if unicode_IsSpace r then (if cur = [] then fields_of ss [] else cur # fields_of ss [])
      else fields_of ss (cur @ t))"

definition Fields :: "string \<Rightarrow> string list" where
  "Fields s = fields_of (segs s) []"

fun parse_digits :: "string \<Rightarrow> int \<Rightarrow> int option" where
  "parse_digits [] acc = Some acc"
| "parse_digits (c # cs) acc =
     (if 48 \<le> code c \<and> code c \<le> 57 then parse_digits cs (acc * 10 + (code c - 48)) else None)"

definition ParseInt64 :: "string \<Rightarrow> int option" where
  "ParseInt64 s =
     (let (neg, ds) = (case s of [] \<Rightarrow> (False, []) | c # cs \<Rightarrow>
            if c = CHR ''-'' then (True, cs) else if c = CHR ''+'' then (False, cs) else (False, s))
      in if ds = [] then None
         else case parse_digits ds 0 of None \<Rightarrow> None
         | Some n \<Rightarrow> let v = (if neg then - n else n) in if in_i64 v then Some v else None)"

definition parseRowsAffected :: "string \<Rightarrow> int option" where
  "parseRowsAffected commandTag =
     (let parts = Fields commandTag in if 2 \<le> length parts then ParseInt64 (last parts) else None)"

definition getCurrentPendingQuery :: "session \<Rightarrow> pending_query option" where
  "getCurrentPendingQuery s =
     (case ss_currentQuery s of Some q \<Rightarrow> Some q
      | None \<Rightarrow> (case xs_pendingQueries (ss_extended s) of [] \<Rightarrow> None | qs \<Rightarrow> Some (last qs)))"

text \<open>Changing the query that \<open>getCurrentPendingQuery\<close> points at, in place.\<close>

definition upd_pending :: "(pending_query \<Rightarrow> pending_query) \<Rightarrow> session \<Rightarrow> session" where
  "upd_pending f s =
     (case ss_currentQuery s of Some q \<Rightarrow> s\<lparr>ss_currentQuery := Some (f q)\<rparr>
      | None \<Rightarrow>
          (case xs_pendingQueries (ss_extended s) of [] \<Rightarrow> s
           | qs \<Rightarrow> upd_extended (\<lambda>x. x\<lparr>xs_pendingQueries := butlast qs @ [f (last qs)]\<rparr>) s))"

definition captureRowDescription :: "(string \<times> u32) list \<Rightarrow> session \<Rightarrow> session" where
  "captureRowDescription cols s =
     upd_pending (\<lambda>q. q\<lparr>pq_columnNames := map fst cols, pq_columnOIDs := map snd cols\<rparr>) s"

definition decodeColumnValue :: "pg_lib \<Rightarrow> string \<Rightarrow> u32 \<Rightarrow> col_value" where
  "decodeColumnValue L str oid =
     (if oid = 16 then CBool (str = ''t'' \<or> str = ''true'' \<or> str = ''1'')
      else if oid \<in> {21, 23, 20} then (case ParseInt64 str of Some n \<Rightarrow> CInt n | None \<Rightarrow> CStr str)
      else if oid \<in> {700, 701, 1700} then (case ParseFloat L str of Some f \<Rightarrow> CFloat f | None \<Rightarrow> CStr str)
      else if oid = 17 then CStr str
      else if oid \<in> {114, 3802} then (if json_valid L str then CRaw str else CStr str)
      else CStr str)"

definition column_name :: "string list \<Rightarrow> nat \<Rightarrow> string" where
  "column_name names i = (if i < length names then names ! i else ''col_'' @ digits i)"

text \<open>The loop that fills the row map: a later column of the same name replaces an earlier one.\<close>

fun row_map ::
  "pg_lib \<Rightarrow> string list \<Rightarrow> u32 list \<Rightarrow> nat \<Rightarrow> string option list \<Rightarrow> (string \<rightharpoonup> col_value) \<Rightarrow> (string \<rightharpoonup> col_value)" where
  "row_map L names oids i [] m = m"
| "row_map L names oids i (v # vs) m =
     row_map L names oids (Suc i) vs
       (m(column_name names i \<mapsto>
          (case v of None \<Rightarrow> CNull | Some d \<Rightarrow> decodeColumnValue L d (getTypeOID oids i))))"

definition row_size :: "string option list \<Rightarrow> int" where
  "row_size vals = sum_list (map (\<lambda>v. case v of None \<Rightarrow> 0 | Some d \<Rightarrow> int (length d)) vals)"

definition marshal_failed :: "string \<Rightarrow> string" where
  "marshal_failed err = CHR 0x7B # CHR 0x22 # ''error'' @ [CHR 0x22, CHR '':'', CHR 0x22] @
     ''marshal failed: '' @ err @ [CHR 0x22, CHR 0x7D]"

definition convertDataRow :: "pg_lib \<Rightarrow> string option list \<Rightarrow> string list \<Rightarrow> u32 list \<Rightarrow> query_row" where
  "convertDataRow L vals names oids =
     \<lparr>qr_RowData = (case json_Marshal L (row_map L names oids 0 vals Map.empty) of
                      Inr txt \<Rightarrow> txt | Inl err \<Rightarrow> marshal_failed err),
      qr_RowSizeBytes = row_size vals\<rparr>"

text \<open>The \<open>DataRow\<close> case of \<open>proxyUpstreamToClient\<close>.\<close>

definition capture_row :: "pg_lib \<Rightarrow> query_storage \<Rightarrow> string option list \<Rightarrow> pending_query \<Rightarrow> pending_query" where
  "capture_row L cfg vals q =
     (if \<not> cfg_StoreResults cfg \<or> pq_truncated q then q
      else if cfg_MaxResultRows cfg \<le> pq_rowNumber q \<or> cfg_MaxResultBytes cfg < pq_capturedBytes q + row_size vals
      then q\<lparr>pq_truncated := True, pq_capturedRows := []\<rparr>
      else q\<lparr>pq_capturedRows := pq_capturedRows q @ [convertDataRow L vals (pq_columnNames q) (pq_columnOIDs q)],
             pq_capturedBytes := pq_capturedBytes q + row_size vals, pq_rowNumber := pq_rowNumber q + 1\<rparr>)"

definition captureCopyData :: "string \<Rightarrow> session \<Rightarrow> session" where
  "captureCopyData data s =
     (case ss_copyState s of None \<Rightarrow> s
      | Some cp \<Rightarrow>
          if cp_truncated cp \<or> \<not> cfg_StoreResults (ss_storage s) then s
          else if cp_totalBytes cp + int (length data) > cfg_MaxResultBytes (ss_storage s)
          then s\<lparr>ss_copyState := Some (cp\<lparr>cp_truncated := True, cp_dataChunks := []\<rparr>)\<rparr>
          else s\<lparr>ss_copyState := Some (cp\<lparr>cp_dataChunks := cp_dataChunks cp @ [data],
                                          cp_totalBytes := cp_totalBytes cp + int (length data)\<rparr>)\<rparr>)"

section \<open>COPY\<close>

definition copyFormatToString :: "byte \<Rightarrow> string" where
  "copyFormatToString format = (if format = 0 then ''text'' else if format = 1 then ''binary'' else ''unknown'')"

text \<open>The index is found in the upper-cased text and used to slice the original: \<open>Inl ()\<close> is the
  panic of a slice beyond the end.\<close>

definition copy_columns :: "string \<Rightarrow> string list" where
  "copy_columns prefix =
     (case (Index prefix ''('', LastIndex prefix '')'') of
        (Some start, Some e) \<Rightarrow>
          if e < start then []
          else filter (\<lambda>c. c \<noteq> []) (map TrimSpace (Split (drop (start + 1) (take e prefix)) (CHR '','')))
      | _ \<Rightarrow> [])"

definition parseCopyColumnNames :: "string \<Rightarrow> unit + string list" where
  "parseCopyColumnNames sql =
     (let upper = ToUpper sql;
          pos = (\<lambda>i. case i of Some (Suc n) \<Rightarrow> Some (Suc n) | _ \<Rightarrow> None);
          endIdx = (case pos (Index upper '' TO '') of Some i \<Rightarrow> Some i | None \<Rightarrow> pos (Index upper '' FROM ''))
      in case endIdx of None \<Rightarrow> Inr []
         | Some i \<Rightarrow> if length sql < i then Inl () else Inr (copy_columns (take i sql)))"

text \<open>The generic replacer tries its patterns at each position, in order.\<close>

fun unescapeCopyText :: "string \<Rightarrow> string" where
  "unescapeCopyText [] = []"
| "unescapeCopyText [c] = [c]"
| "unescapeCopyText (c # d # s) =
     (if c = CHR 0x5C \<and> d = CHR 0x5C then CHR 0x5C # unescapeCopyText s
      else if c = CHR 0x5C \<and> d = CHR ''n'' then CHR 0x0A # unescapeCopyText s
      else if c = CHR 0x5C \<and> d = CHR ''r'' then CHR 0x0D # unescapeCopyText s
      else if c = CHR 0x5C \<and> d = CHR ''t'' then CHR 0x09 # unescapeCopyText s
      else if c = CHR 0x5C \<and> d = CHR ''b'' then CHR 0x08 # unescapeCopyText s
      else if c = CHR 0x5C \<and> d = CHR ''f'' then CHR 0x0C # unescapeCopyText s
      else c # unescapeCopyText (d # s))"

fun copy_fields :: "string list \<Rightarrow> nat \<Rightarrow> string list \<Rightarrow> (string \<rightharpoonup> col_value) \<Rightarrow> (string \<rightharpoonup> col_value)" where
  "copy_fields names j [] m = m"
| "copy_fields names j (f # fs) m =
     copy_fields names (Suc j) fs
       (m(column_name names j \<mapsto>
          (if f = [CHR 0x5C, CHR ''N''] then CNull else CStr (unescapeCopyText f))))"

text \<open>A row that does not marshal is skipped without using the room.\<close>

fun copy_lines :: "pg_lib \<Rightarrow> string list \<Rightarrow> nat \<Rightarrow> string list \<Rightarrow> query_row list" where
  "copy_lines L names room [] = []"
| "copy_lines L names room (line # ls) =
     (if line = [] \<or> line = [CHR 0x5C, CHR ''.''] then copy_lines L names room ls
      else case room of 0 \<Rightarrow> []
      | Suc r \<Rightarrow>
          (case json_Marshal L (copy_fields names 0 (Split line (CHR 0x09)) Map.empty) of
             Inl _ \<Rightarrow> copy_lines L names room ls
           | Inr txt \<Rightarrow> \<lparr>qr_RowData = txt, qr_RowSizeBytes = int (length line)\<rparr> # copy_lines L names r ls))"

definition parseCopyDataToRows :: "pg_lib \<Rightarrow> query_storage \<Rightarrow> copy_state option \<Rightarrow> query_row list" where
  "parseCopyDataToRows L cfg cp =
     (case cp of None \<Rightarrow> []
      | Some c \<Rightarrow>
          if length (cp_dataChunks c) = 0 \<or> cp_format c = 1 then []
          else copy_lines L (cp_columnNames c) (nat (cfg_MaxResultRows cfg))
                 (Split (concat (cp_dataChunks c)) (CHR 0x0A)))"

section \<open>Logging\<close>

definition logQuery ::
  "pg_lib \<Rightarrow> int option \<Rightarrow> string option \<Rightarrow> int \<Rightarrow> session \<Rightarrow> session" where
  "logQuery L rowsAffected queryError bytesTransferred s =
     (case ss_currentQuery s of None \<Rightarrow> s
      | Some q \<Rightarrow>
          let rows = (case ss_copyState s of
                None \<Rightarrow> pq_capturedRows q
              | Some cp \<Rightarrow> if \<not> cp_truncated cp \<and> length (cp_dataChunks cp) > 0
                          then parseCopyDataToRows L (ss_storage s) (Some cp) else pq_capturedRows q);
              entry = \<lparr>lq_SQLText = pq_sql q, lq_Parameters = pq_parameters q, lq_ExecutedAt = pq_startTime q,
                lq_RowsAffected = rowsAffected, lq_Error = queryError,
                lq_Copy = map_option (\<lambda>cp. (cp_direction cp, copyFormatToString (cp_format cp))) (ss_copyState s),
                lq_Rows = rows, lq_Bytes = bytesTransferred\<rparr>
          in s\<lparr>ss_logged := (if ss_connectionUID s = uuid_Nil then ss_logged s else ss_logged s @ [entry]),
               ss_grant := (ss_grant s)\<lparr>ag_QueryCount := wrap_i64 (ag_QueryCount (ss_grant s) + 1),
                  ag_BytesTransferred := wrap_i64 (ag_BytesTransferred (ss_grant s) + bytesTransferred)\<rparr>\<rparr>)"

end
