(* ===== verification/Query_Log.thy ===== *)
theory Query_Log
  imports Grant_Store Pg_Intercept
begin

text \<open>
  \<open>internal/store/connections.go\<close> and \<open>queries.go\<close>: connection rows, the query log with
  its captured result rows, cursor pagination, and \<open>persistQueryAsync\<close> of
  \<open>internal/proxy/postgresql/intercept.go\<close>, which writes what a session logged. Identifiers made
  by \<open>newUIDv7\<close> are arguments. JSON decoding of a cursor is the parameter \<open>unmarshal\<close>, and
  what the query builder and the database make of an \<open>OFFSET\<close> value is \<open>offset_clause\<close>.
\<close>

section \<open>Connections\<close>

definition CreateConnection ::
  "uuid \<Rightarrow> uuid \<Rightarrow> string \<Rightarrow> uuid \<Rightarrow> time \<Rightarrow> time \<Rightarrow> db \<Rightarrow> (store_error + connection) \<times> db" where
  "CreateConnection userID databaseID sourceIP newUID now now' =
     write_stmt (\<lambda>st.
       let conn = \<lparr>con_UID = newUID, con_UserID = userID, con_DatabaseID = databaseID, con_SourceIP = sourceIP,
                   con_ConnectedAt = now, con_LastActivityAt = now', con_DisconnectedAt = None,
                   con_Queries = 0, con_BytesTransferred = 0\<rparr>
       in if newUID \<in> set (map con_UID (db_connections st)) \<or> \<not> user_exists st userID \<or> \<not> server_exists st databaseID
          then Inl ErrDB
          else Inr (conn, st\<lparr>db_connections := db_connections st @ [conn]\<rparr>))"

definition CloseConnection :: "uuid \<Rightarrow> time \<Rightarrow> db \<Rightarrow> (store_error + unit) \<times> db" where
  "CloseConnection uid now =
     write_stmt (\<lambda>st.
       let hit = (\<lambda>c. con_UID c = uid \<and> con_DisconnectedAt c = None) in
       if filter hit (db_connections st) = [] then Inl ErrConnectionNotFound
       else Inr ((), st\<lparr>db_connections := update_where hit (\<lambda>c. c\<lparr>con_DisconnectedAt := Some now\<rparr>) (db_connections st)\<rparr>))"

definition UpdateConnectionActivity :: "uuid \<Rightarrow> time \<Rightarrow> db \<Rightarrow> (store_error + unit) \<times> db" where
  "UpdateConnectionActivity uid now =
     write_stmt (\<lambda>st. Inr ((), st\<lparr>db_connections :=
       update_where (\<lambda>c. con_UID c = uid) (\<lambda>c. c\<lparr>con_LastActivityAt := now\<rparr>) (db_connections st)\<rparr>))"

text \<open>An update whose value leaves the range of its column (\<open>INT\<close>, \<open>BIGINT\<close>) fails.\<close>

definition int4 :: "int \<Rightarrow> bool" where "int4 x \<longleftrightarrow> - (2 ^ 31) \<le> x \<and> x < 2 ^ 31"

definition bump :: "uuid \<Rightarrow> int \<Rightarrow> int \<Rightarrow> time \<Rightarrow> db \<Rightarrow> (store_error + unit) \<times> db" where
  "bump uid n bytes now =
     write_stmt (\<lambda>st.
       let f = (\<lambda>c. c\<lparr>con_Queries := con_Queries c + n, con_BytesTransferred := con_BytesTransferred c + bytes,
                      con_LastActivityAt := now\<rparr>);
           rows = update_where (\<lambda>c. con_UID c = uid) f (db_connections st)
       in if list_all (\<lambda>c. con_UID c = uid \<longrightarrow> int4 (con_Queries c) \<and> in_i64 (con_BytesTransferred c)) rows
          then Inr ((), st\<lparr>db_connections := rows\<rparr>) else Inl ErrDB)"

definition IncrementConnectionStats :: "uuid \<Rightarrow> int \<Rightarrow> time \<Rightarrow> db \<Rightarrow> (store_error + unit) \<times> db" where
  "IncrementConnectionStats uid bytes now = bump uid 1 bytes now"

definition IncrementConnectionBytes :: "uuid \<Rightarrow> int \<Rightarrow> time \<Rightarrow> db \<Rightarrow> (store_error + unit) \<times> db" where
  "IncrementConnectionBytes uid bytes now = bump uid 0 bytes now"

definition GetConnectionByUID :: "uuid \<Rightarrow> db \<Rightarrow> (store_error + connection) \<times> db" where
  "GetConnectionByUID uid =
     read_stmt (\<lambda>st. case find (\<lambda>c. con_UID c = uid) (db_connections st) of
        None \<Rightarrow> Inl ErrConnectionNotFound | Some c \<Rightarrow> Inr c)"

record connection_filter =
  cf_UserID :: "uuid option"
  cf_DatabaseID :: "uuid option"
  cf_BeforeUID :: "uuid option"
  cf_Limit :: int
  cf_Offset :: int

text \<open>\<open>ORDER BY uid DESC LIMIT l OFFSET o\<close>, each clause only when positive.\<close>

definition newest_uids :: "('r \<Rightarrow> uuid) \<Rightarrow> 'r list \<Rightarrow> 'r list" where
  "newest_uids uid rows = rev (sort_key uid (rev rows))"

definition page :: "int \<Rightarrow> int \<Rightarrow> 'r list \<Rightarrow> 'r list" where
  "page limit offset rows =
     (let r1 = (if offset > 0 then drop (nat offset) rows else rows)
      in if limit > 0 then take (nat limit) r1 else r1)"

definition below :: "uuid option \<Rightarrow> uuid \<Rightarrow> bool" where
  "below b u = (case b of None \<Rightarrow> True | Some c \<Rightarrow> u < c)"

definition ListConnections :: "connection_filter \<Rightarrow> db \<Rightarrow> (store_error + connection list) \<times> db" where
  "ListConnections f =
     read_stmt (\<lambda>st. Inr (page (cf_Limit f) (cf_Offset f) (newest_uids con_UID
       (filter (\<lambda>c. eq_opt (cf_UserID f) (con_UserID c) \<and> eq_opt (cf_DatabaseID f) (con_DatabaseID c)
          \<and> below (cf_BeforeUID f) (con_UID c)) (db_connections st)))))"

section \<open>Queries\<close>

record result_row =
  rr_RowNumber :: int
  rr_RowData :: string
  rr_RowSizeBytes :: int

text \<open>\<open>duration_ms\<close> is a \<open>NUMERIC(10,3)\<close>: seven digits before the point.\<close>

definition numeric_10_3 :: "int option \<Rightarrow> bool" where
  "numeric_10_3 d = (case d of None \<Rightarrow> True | Some us \<Rightarrow> \<bar>us\<bar> < 10 ^ 10)"

definition CreateQuery :: "query \<Rightarrow> uuid \<Rightarrow> time \<Rightarrow> db \<Rightarrow> (store_error + query) \<times> db" where
  "CreateQuery query newUID now =
     write_stmt (\<lambda>st.
       let result = \<lparr>qry_UID = newUID, qry_ConnectionID = qry_ConnectionID query, qry_SQLText = qry_SQLText query,
                     qry_Parameters = qry_Parameters query,
                     qry_ExecutedAt = (if IsZero (qry_ExecutedAt query) then now else qry_ExecutedAt query),
                     qry_DurationMs = qry_DurationMs query, qry_RowsAffected = qry_RowsAffected query,
                     qry_Error = qry_Error query, qry_CopyFormat = None, qry_CopyDirection = None\<rparr>
       in if newUID \<in> set (map qry_UID (db_queries st))
            \<or> qry_ConnectionID query \<notin> set (map con_UID (db_connections st))
            \<or> \<not> numeric_10_3 (qry_DurationMs query) then Inl ErrDB
          else Inr (result, st\<lparr>db_queries := db_queries st @ [result]\<rparr>))"

definition to_model :: "uuid \<Rightarrow> uuid \<Rightarrow> result_row \<Rightarrow> query_row_model" where
  "to_model queryUID uid row = \<lparr>qrm_UID = uid, qrm_QueryID = queryUID, qrm_RowNumber = rr_RowNumber row,
     qrm_RowData = rr_RowData row, qrm_RowSizeBytes = rr_RowSizeBytes row\<rparr>"

definition of_model :: "query_row_model \<Rightarrow> result_row" where
  "of_model r = \<lparr>rr_RowNumber = qrm_RowNumber r, rr_RowData = qrm_RowData r, rr_RowSizeBytes = qrm_RowSizeBytes r\<rparr>"

definition StoreQueryRows :: "uuid \<Rightarrow> result_row list \<Rightarrow> uuid list \<Rightarrow> db \<Rightarrow> (store_error + unit) \<times> db" where
  "StoreQueryRows queryUID rows uids st =
     (if length rows = 0 then (Inr (), st)
      else write_stmt (\<lambda>st.
        let new = map2 (to_model queryUID) uids rows in
        if queryUID \<notin> set (map qry_UID (db_queries st)) \<or> \<not> distinct (map qrm_UID (db_rows st @ new))
           \<or> \<not> list_all (\<lambda>r. int4 (qrm_RowNumber r)) new then Inl ErrDB
        else Inr ((), st\<lparr>db_rows := db_rows st @ new\<rparr>)) st)"

record query_filter =
  qf_ConnectionID :: "uuid option"
  qf_UserID :: "uuid option"
  qf_DatabaseID :: "uuid option"
  qf_StartTime :: "time option"
  qf_EndTime :: "time option"
  qf_BeforeUID :: "uuid option"
  qf_Limit :: int
  qf_Offset :: int

text \<open>The join with the connections; the listed columns leave the COPY metadata out.\<close>

definition query_selected :: "query_filter \<Rightarrow> connection list \<Rightarrow> query \<Rightarrow> bool" where
  "query_selected f cs q \<longleftrightarrow>
     list_ex (\<lambda>c. con_UID c = qry_ConnectionID q \<and> eq_opt (qf_UserID f) (con_UserID c)
                \<and> eq_opt (qf_DatabaseID f) (con_DatabaseID c)) cs
     \<and> eq_opt (qf_ConnectionID f) (qry_ConnectionID q)
     \<and> (case qf_StartTime f of None \<Rightarrow> True | Some t \<Rightarrow> t \<le> qry_ExecutedAt q)
     \<and> (case qf_EndTime f of None \<Rightarrow> True | Some t \<Rightarrow> qry_ExecutedAt q \<le> t)
     \<and> below (qf_BeforeUID f) (qry_UID q)"

definition ListQueries :: "query_filter \<Rightarrow> db \<Rightarrow> (store_error + query list) \<times> db" where
  "ListQueries f =
     read_stmt (\<lambda>st. Inr (map (\<lambda>q. q\<lparr>qry_CopyFormat := None, qry_CopyDirection := None\<rparr>)
       (page (qf_Limit f) (qf_Offset f) (newest_uids qry_UID (filter (query_selected f (db_connections st)) (db_queries st))))))"

definition GetQuery :: "uuid \<Rightarrow> db \<Rightarrow> (store_error + query) \<times> db" where
  "GetQuery uid =
     read_stmt (\<lambda>st. case find (\<lambda>q. qry_UID q = uid) (db_queries st) of None \<Rightarrow> Inl ErrQueryNotFound | Some q \<Rightarrow> Inr q)"

definition rows_of :: "uuid \<Rightarrow> db \<Rightarrow> query_row_model list" where
  "rows_of uid st = sort_key qrm_RowNumber (filter (\<lambda>r. qrm_QueryID r = uid) (db_rows st))"

definition GetQueryWithRows :: "uuid \<Rightarrow> db \<Rightarrow> (store_error + query \<times> result_row list) \<times> db" where
  "GetQueryWithRows uid st =
     and_then (GetQuery uid st) (\<lambda>q st1.
     and_then (read_stmt (\<lambda>s. Inr (rows_of uid s)) st1) (\<lambda>rows st2. (Inr (q, map of_model rows), st2)))"

section \<open>Pages of rows\<close>

definition MaxQueryRowsLimit :: int where "MaxQueryRowsLimit = 1000"
definition MaxQueryRowsDataSize :: int where "MaxQueryRowsDataSize = 1024 * 1024"
definition DefaultQueryRowsLimit :: int where "DefaultQueryRowsLimit = 100"

record query_rows_result =
  qrr_Rows :: "result_row list"
  qrr_NextCursor :: string
  qrr_HasMore :: bool
  qrr_TotalRows :: int

text \<open>\<open>json.Marshal\<close> of a \<open>QueryRowsCursor\<close>.\<close>

definition cursor_json :: "int \<Rightarrow> bytes" where
  "cursor_json offset = bytes_of ([CHR ''{'', char_of (34 :: nat)] @ ''offset'' @ [char_of (34 :: nat), CHR '':''] @ FormatInt offset @ ''}'')"

fun collect_rows :: "int \<Rightarrow> int \<Rightarrow> int \<Rightarrow> result_row list \<Rightarrow> query_row_model list \<Rightarrow> result_row list \<times> bool" where
  "collect_rows limit i currentDataSize rows [] = (rows, False)"
| "collect_rows limit i currentDataSize rows (row # rest) =
     (if i \<ge> limit then (rows, True)
      else let rowSize = int (length (qrm_RowData row)) in
        if currentDataSize + rowSize > MaxQueryRowsDataSize \<and> length rows > 0 then (rows, True)
        else collect_rows limit (i + 1) (currentDataSize + rowSize) (rows @ [of_model row]) rest)"

definition clamp_limit :: "int \<Rightarrow> int" where
  "clamp_limit limit = (let l = (if limit \<le> 0 then DefaultQueryRowsLimit else limit)
     in if l > MaxQueryRowsLimit then MaxQueryRowsLimit else l)"

definition decode_cursor :: "(bytes \<Rightarrow> int option) \<Rightarrow> string \<Rightarrow> int option" where
  "decode_cursor unmarshal cursor =
     (if cursor = [] then Some 0 else case b64_decode cursor of None \<Rightarrow> None | Some data \<Rightarrow> unmarshal data)"

definition GetQueryRows ::
  "(bytes \<Rightarrow> int option) \<Rightarrow> (int \<Rightarrow> store_error + nat) \<Rightarrow> uuid \<Rightarrow> string \<Rightarrow> int \<Rightarrow> db \<Rightarrow> (store_error + query_rows_result) \<times> db" where
  "GetQueryRows unmarshal offset_clause queryUID cursor limit0 st =
     (let limit = clamp_limit limit0 in
      case decode_cursor unmarshal cursor of
        None \<Rightarrow> (Inl ErrInvalidCursor, st)
      | Some offset \<Rightarrow>
          and_then (read_stmt (\<lambda>s. Inr (queryUID \<in> set (map qry_UID (db_queries s)))) st) (\<lambda>exists st1.
          if \<not> exists then (Inl ErrQueryNotFound, st1)
          else
          and_then (read_stmt (\<lambda>s. Inr (int (length (rows_of queryUID s)))) st1) (\<lambda>totalRows st2.
          and_then (read_stmt (\<lambda>s. case offset_clause offset of Inl e \<Rightarrow> Inl e
              | Inr o' \<Rightarrow> Inr (take (nat (limit + 1)) (drop o' (rows_of queryUID s)))) st2) (\<lambda>resultRows st3.
            let (rows, more) = collect_rows limit 0 0 [] resultRows;
                next = (if more then b64_encode (cursor_json (offset + int (length rows))) else [])
            in (Inr \<lparr>qrr_Rows = rows, qrr_NextCursor = next, qrr_HasMore = more, qrr_TotalRows = totalRows\<rparr>, st3)))))"

section \<open>What a session persists\<close>

definition direction_text :: "copy_direction \<Rightarrow> string" where
  "direction_text d = (case d of CopyIn \<Rightarrow> ''in'' | CopyOut \<Rightarrow> ''out'')"

text \<open>The \<open>store.Query\<close> that \<open>logQuery\<close> builds for an entry.\<close>

definition entry_query :: "uuid \<Rightarrow> int \<Rightarrow> logged_query \<Rightarrow> query" where
  "entry_query connectionUID durationMs e =
     \<lparr>qry_UID = uuid_Nil, qry_ConnectionID = connectionUID, qry_SQLText = lq_SQLText e, qry_Parameters = lq_Parameters e,
      qry_ExecutedAt = lq_ExecutedAt e, qry_DurationMs = Some (1000 * durationMs), qry_RowsAffected = lq_RowsAffected e,
      qry_Error = lq_Error e, qry_CopyFormat = map_option snd (lq_Copy e),
      qry_CopyDirection = map_option (direction_text \<circ> fst) (lq_Copy e)\<rparr>"

fun number_rows :: "int \<Rightarrow> query_row list \<Rightarrow> result_row list" where
  "number_rows i [] = []"
| "number_rows i (r # rs) =
     \<lparr>rr_RowNumber = i, rr_RowData = qr_RowData r, rr_RowSizeBytes = qr_RowSizeBytes r\<rparr> # number_rows (i + 1) rs"

text \<open>The goroutine of \<open>persistQueryAsync\<close>: only the first failure ends it.\<close>

definition persistQueryAsync ::
  "uuid \<Rightarrow> logged_query \<Rightarrow> int \<Rightarrow> uuid \<Rightarrow> uuid list \<Rightarrow> time \<Rightarrow> time \<Rightarrow> db \<Rightarrow> db" where
  "persistQueryAsync connectionUID e durationMs newUID rowUIDs now now' st =
     (if connectionUID = uuid_Nil then st
      else case CreateQuery (entry_query connectionUID durationMs e) newUID now st of
        (Inl _, st1) \<Rightarrow> st1
      | (Inr createdQuery, st1) \<Rightarrow>
          let st2 = (if length (lq_Rows e) > 0
                     then snd (StoreQueryRows (qry_UID createdQuery) (number_rows 1 (lq_Rows e)) rowUIDs st1) else st1)
          in snd (IncrementConnectionStats connectionUID (lq_Bytes e) now' st2))"

section \<open>Pagination\<close>

lemma collect_rows_spec:
  assumes "collect_rows limit (int (length acc)) sz acc rs = (res, hasMore)" and "int (length acc) \<le> limit"
    and "0 < limit" and "sz \<le> MaxQueryRowsDataSize \<or> length acc = 1"
    and "sz = sum_list (map (\<lambda>r. int (length (rr_RowData r))) acc)"
  shows "\<exists>k. res = acc @ map of_model (take k rs) \<and> k \<le> length rs \<and> (hasMore \<longleftrightarrow> k < length rs)
    \<and> int (length res) \<le> limit \<and> (acc = [] \<and> rs \<noteq> [] \<longrightarrow> 0 < k)
    \<and> (sum_list (map (\<lambda>r. int (length (rr_RowData r))) res) \<le> MaxQueryRowsDataSize \<or> length res = 1)"
  using assms
proof (induction rs arbitrary: acc sz)
  case Nil
  then show ?case by auto
next
  case (Cons r rs)
  let ?sz = "sz + int (length (qrm_RowData r))"
  consider (full) "limit \<le> int (length acc)" | (big) "int (length acc) < limit" "?sz > MaxQueryRowsDataSize" "acc \<noteq> []"
    | (go) "int (length acc) < limit" "?sz \<le> MaxQueryRowsDataSize \<or> acc = []" by fastforce
  then show ?case
  proof cases
    case full
    then show ?thesis using Cons.prems by (intro exI [of _ 0]) auto
  next
    case big
    then show ?thesis using Cons.prems by (intro exI [of _ 0]) (auto simp: Let_def)
  next
    case go
    have "collect_rows limit (int (length (acc @ [of_model r]))) ?sz (acc @ [of_model r]) rs = (res, hasMore)"
      using Cons.prems(1) go by (auto simp: Let_def add.commute split: if_splits)
    moreover have "?sz = sum_list (map (\<lambda>r. int (length (rr_RowData r))) (acc @ [of_model r]))"
      using Cons.prems(5) by (simp add: of_model_def)
    ultimately have "\<exists>k. res = (acc @ [of_model r]) @ map of_model (take k rs) \<and> k \<le> length rs \<and> (hasMore \<longleftrightarrow> k < length rs)
      \<and> int (length res) \<le> limit \<and> (acc @ [of_model r] = [] \<and> rs \<noteq> [] \<longrightarrow> 0 < k)
      \<and> (sum_list (map (\<lambda>r. int (length (rr_RowData r))) res) \<le> MaxQueryRowsDataSize \<or> length res = 1)"
      using go Cons.prems(3) by (intro Cons.IH) auto
    then obtain k where "res = (acc @ [of_model r]) @ map of_model (take k rs)" "k \<le> length rs" "hasMore \<longleftrightarrow> k < length rs"
      "int (length res) \<le> limit"
      "sum_list (map (\<lambda>r. int (length (rr_RowData r))) res) \<le> MaxQueryRowsDataSize \<or> length res = 1" by blast
    then show ?thesis by (intro exI [of _ "Suc k"]) auto
  qed
qed

lemma clamp_limit_bounds: "0 < clamp_limit l" "clamp_limit l \<le> 1000"
  by (simp_all add: clamp_limit_def Let_def DefaultQueryRowsLimit_def MaxQueryRowsLimit_def)

text \<open>What \<open>GetQueryRows\<close> answers at an offset, without faults.\<close>

lemma page_at:
  assumes "db_faults st = []" and "queryUID \<in> set (map qry_UID (db_queries st))"
    and "decode_cursor unmarshal cursor = Some (int off)" and "offset_clause (int off) = Inr off"
    and "off \<le> length (rows_of queryUID st)"
  obtains k r where "GetQueryRows unmarshal offset_clause queryUID cursor limit st = (Inr r, st)"
    and "qrr_Rows r = map of_model (take k (drop off (rows_of queryUID st)))" and "off + k \<le> length (rows_of queryUID st)"
    and "qrr_HasMore r \<longleftrightarrow> off + k < length (rows_of queryUID st)" and "qrr_HasMore r \<Longrightarrow> 0 < k"
    and "qrr_NextCursor r = (if qrr_HasMore r then b64_encode (cursor_json (int (off + k))) else [])"
    and "qrr_TotalRows r = int (length (rows_of queryUID st))"
    and "int (length (qrr_Rows r)) \<le> clamp_limit limit"
    and "sum_list (map (\<lambda>x. int (length (rr_RowData x))) (qrr_Rows r)) \<le> MaxQueryRowsDataSize \<or> length (qrr_Rows r) = 1"
proof -
  let ?all = "rows_of queryUID st" and ?l = "clamp_limit limit"
  let ?rs = "take (nat (?l + 1)) (drop off ?all)"
  obtain res hasMore where c: "collect_rows ?l 0 0 [] ?rs = (res, hasMore)" by fastforce
  have "collect_rows ?l (int (length [])) 0 [] ?rs = (res, hasMore)" using c by simp
  note spec = collect_rows_spec [OF this]
  have "\<exists>k. res = [] @ map of_model (take k ?rs) \<and> k \<le> length ?rs \<and> (hasMore \<longleftrightarrow> k < length ?rs)
    \<and> int (length res) \<le> ?l \<and> ([] = ([] :: result_row list) \<and> ?rs \<noteq> [] \<longrightarrow> 0 < k)
    \<and> (sum_list (map (\<lambda>r. int (length (rr_RowData r))) res) \<le> MaxQueryRowsDataSize \<or> length res = 1)"
    by (rule spec) (use clamp_limit_bounds(1) [of limit] in \<open>simp_all add: MaxQueryRowsDataSize_def\<close>)
  then obtain k where k: "res = map of_model (take k ?rs)" "k \<le> length ?rs" "hasMore \<longleftrightarrow> k < length ?rs" "int (length res) \<le> ?l"
    "?rs \<noteq> [] \<longrightarrow> 0 < k" "sum_list (map (\<lambda>r. int (length (rr_RowData r))) res) \<le> MaxQueryRowsDataSize \<or> length res = 1"
    unfolding append.simps(1) by (metis (no_types, lifting))
  have lk: "length res = k" using k(1,2) by simp
  have kl: "int k \<le> ?l" using k(4) lk by simp
  have take_k: "take k ?rs = take k (drop off ?all)" using kl by (simp add: min_def)
  have hasMore: "hasMore \<longleftrightarrow> off + k < length ?all" using k(2,3) kl assms(5) by auto
  let ?r = "\<lparr>qrr_Rows = res, qrr_NextCursor = (if hasMore then b64_encode (cursor_json (int off + int (length res))) else []),
     qrr_HasMore = hasMore, qrr_TotalRows = int (length ?all)\<rparr>"
  have "GetQueryRows unmarshal offset_clause queryUID cursor limit st = (Inr ?r, st)"
    using assms c by (simp add: GetQueryRows_def Let_def and_then_def read_stmt_def stmt_def)
  then show thesis
    by (rule that [where k = k]) (use k take_k hasMore lk assms(5) in auto)
qed

text \<open>A client that follows the cursors, at most \<open>n\<close> pages.\<close>

fun follow ::
  "(bytes \<Rightarrow> int option) \<Rightarrow> (int \<Rightarrow> store_error + nat) \<Rightarrow> uuid \<Rightarrow> int \<Rightarrow> nat \<Rightarrow> string \<Rightarrow> db \<Rightarrow> query_rows_result list" where
  "follow unmarshal offset_clause queryUID limit 0 cursor st = []"
| "follow unmarshal offset_clause queryUID limit (Suc n) cursor st =
     (case GetQueryRows unmarshal offset_clause queryUID cursor limit st of
        (Inl e, st') \<Rightarrow> []
      | (Inr r, st') \<Rightarrow> r # (if qrr_HasMore r then follow unmarshal offset_clause queryUID limit n (qrr_NextCursor r) st' else []))"

lemma b64_encode_cursor_nonempty: "b64_encode (cursor_json i) \<noteq> []"
proof -
  have "\<exists>a b c r. cursor_json i = a # b # c # r" by (simp add: cursor_json_def bytes_of_def)
  then show ?thesis by (auto simp: Let_def)
qed

text \<open>The limits of one page.\<close>

definition page_ok :: "int \<Rightarrow> nat \<Rightarrow> query_rows_result \<Rightarrow> bool" where
  "page_ok limit n r \<longleftrightarrow> qrr_TotalRows r = int n \<and> int (length (qrr_Rows r)) \<le> clamp_limit limit
     \<and> (sum_list (map (\<lambda>x. int (length (rr_RowData x))) (qrr_Rows r)) \<le> MaxQueryRowsDataSize \<or> length (qrr_Rows r) = 1)"

lemma follow_from:
  assumes "db_faults st = []" and "queryUID \<in> set (map qry_UID (db_queries st))"
    and dec: "\<And>i. 0 \<le> i \<Longrightarrow> unmarshal (cursor_json i) = Some i" and off: "\<And>k. offset_clause (int k) = Inr k"
    and "decode_cursor unmarshal cursor = Some (int k)" and "k \<le> length (rows_of queryUID st)"
    and "length (rows_of queryUID st) < k + n"
  shows "concat (map qrr_Rows (follow unmarshal offset_clause queryUID limit n cursor st)) = map of_model (drop k (rows_of queryUID st))
    \<and> follow unmarshal offset_clause queryUID limit n cursor st \<noteq> []
    \<and> \<not> qrr_HasMore (last (follow unmarshal offset_clause queryUID limit n cursor st))
    \<and> list_all (page_ok limit (length (rows_of queryUID st))) (follow unmarshal offset_clause queryUID limit n cursor st)"
  using assms(5-7)
proof (induction n arbitrary: k cursor)
  case 0
  then show ?case by simp
next
  case (Suc n)
  obtain j r where r: "GetQueryRows unmarshal offset_clause queryUID cursor limit st = (Inr r, st)"
    "qrr_Rows r = map of_model (take j (drop k (rows_of queryUID st)))" "k + j \<le> length (rows_of queryUID st)"
    "qrr_HasMore r \<longleftrightarrow> k + j < length (rows_of queryUID st)" "qrr_HasMore r \<Longrightarrow> 0 < j"
    "qrr_NextCursor r = (if qrr_HasMore r then b64_encode (cursor_json (int (k + j))) else [])"
    "page_ok limit (length (rows_of queryUID st)) r" unfolding page_ok_def
    using page_at [where offset_clause = offset_clause, OF assms(1,2) Suc.prems(1) off [of k] Suc.prems(2)] by metis
  have split: "map of_model (drop k (rows_of queryUID st)) = qrr_Rows r @ map of_model (drop (k + j) (rows_of queryUID st))"
    unfolding r(2) by (metis append_take_drop_id drop_drop add.commute map_append)
  show ?case
  proof (cases "qrr_HasMore r")
    case False
    then show ?thesis using r split by simp
  next
    case True
    have "decode_cursor unmarshal (qrr_NextCursor r) = Some (int (k + j))"
      using True r(6) dec [of "int (k + j)"] by (simp add: decode_cursor_def b64_encode_cursor_nonempty)
    then have "concat (map qrr_Rows (follow unmarshal offset_clause queryUID limit n (qrr_NextCursor r) st))
        = map of_model (drop (k + j) (rows_of queryUID st))
      \<and> follow unmarshal offset_clause queryUID limit n (qrr_NextCursor r) st \<noteq> []
      \<and> \<not> qrr_HasMore (last (follow unmarshal offset_clause queryUID limit n (qrr_NextCursor r) st))
      \<and> list_all (page_ok limit (length (rows_of queryUID st))) (follow unmarshal offset_clause queryUID limit n (qrr_NextCursor r) st)"
      using True r(3,5) Suc.prems(3) by (intro Suc.IH) auto
    then show ?thesis using r(1,7) split True by simp
  qed
qed

text \<open>Following the cursors of \<open>GetQueryRows\<close> from the start visits every stored row of the query
  exactly once and in order, in at most one page more than there are rows; every page reports
  the total, stays within the row limit, and within one megabyte unless it is a single row.\<close>

theorem query_rows_pagination:
  assumes "db_faults st = []" and "queryUID \<in> set (map qry_UID (db_queries st))"
    and "\<And>i. 0 \<le> i \<Longrightarrow> unmarshal (cursor_json i) = Some i" and "\<And>k. offset_clause (int k) = Inr k"
  shows "concat (map qrr_Rows (follow unmarshal offset_clause queryUID limit (Suc (length (rows_of queryUID st))) [] st))
       = map of_model (rows_of queryUID st)
    \<and> \<not> qrr_HasMore (last (follow unmarshal offset_clause queryUID limit (Suc (length (rows_of queryUID st))) [] st))
    \<and> list_all (page_ok limit (length (rows_of queryUID st)))
        (follow unmarshal offset_clause queryUID limit (Suc (length (rows_of queryUID st))) [] st)"
  using follow_from [where unmarshal = unmarshal and offset_clause = offset_clause and k = 0 and cursor = "[]"
      and n = "Suc (length (rows_of queryUID st))" and limit = limit, OF assms]
  by (simp add: decode_cursor_def)

text \<open>A concrete decoder of the cursors the store writes.\<close>

definition sample_unmarshal :: "bytes \<Rightarrow> int option" where
  "sample_unmarshal bs = Some (int (dec_val (butlast (drop 10 (str_of bs)))))"

definition sample_offset :: "int \<Rightarrow> store_error + nat" where
  "sample_offset i = (if i < 0 then Inl ErrDB else Inr (nat i))"

lemma sample_unmarshal_cursor: "0 \<le> i \<Longrightarrow> sample_unmarshal (cursor_json i) = Some i"
  by (simp add: sample_unmarshal_def cursor_json_def FormatInt_def butlast_append)

definition sample_log_db :: db where
  "sample_log_db = \<lparr>db_users = [], db_servers = [], db_grants = [], db_definitions = [], db_requests = [],
     db_connections = [], db_queries = [\<lparr>qry_UID = 7, qry_ConnectionID = 3, qry_SQLText = ''SELECT 1'', qry_Parameters = None,
       qry_ExecutedAt = 5, qry_DurationMs = None, qry_RowsAffected = None, qry_Error = None, qry_CopyFormat = None, qry_CopyDirection = None\<rparr>],
     db_groups = [], db_members = [], db_audit = [],
     db_rows = [\<lparr>qrm_UID = 2, qrm_QueryID = 7, qrm_RowNumber = 2, qrm_RowData = ''[2]'', qrm_RowSizeBytes = 3\<rparr>,
       \<lparr>qrm_UID = 1, qrm_QueryID = 7, qrm_RowNumber = 1, qrm_RowData = ''[1]'', qrm_RowSizeBytes = 3\<rparr>,
       \<lparr>qrm_UID = 3, qrm_QueryID = 7, qrm_RowNumber = 3, qrm_RowData = ''[3]'', qrm_RowSizeBytes = 3\<rparr>], db_keys = [],
     db_oauth = [], db_identities = [], db_faults = []\<rparr>"

theorem query_rows_pagination_witness:
  "concat (map qrr_Rows (follow sample_unmarshal sample_offset 7 2 (Suc (length (rows_of 7 sample_log_db))) [] sample_log_db))
       = map of_model (rows_of 7 sample_log_db)
    \<and> \<not> qrr_HasMore (last (follow sample_unmarshal sample_offset 7 2 (Suc (length (rows_of 7 sample_log_db))) [] sample_log_db))
    \<and> list_all (page_ok 2 (length (rows_of 7 sample_log_db)))
        (follow sample_unmarshal sample_offset 7 2 (Suc (length (rows_of 7 sample_log_db))) [] sample_log_db)
    \<and> map rr_RowNumber (map of_model (rows_of 7 sample_log_db)) = [1, 2, 3]"
  using query_rows_pagination [of sample_log_db 7 sample_unmarshal sample_offset 2] sample_unmarshal_cursor
  by (simp add: sample_log_db_def sample_offset_def rows_of_def of_model_def sort_key_def)

section \<open>Persisted usage\<close>

text \<open>One persisted entry with the arguments of its goroutine.\<close>

record persisted =
  pe_entry :: logged_query
  pe_duration :: int
  pe_uid :: uuid
  pe_rowUIDs :: "uuid list"
  pe_now :: time
  pe_now' :: time

primrec persist_all :: "uuid \<Rightarrow> persisted list \<Rightarrow> db \<Rightarrow> db" where
  "persist_all conn [] st = st"
| "persist_all conn (p # ps) st =
     persist_all conn ps (persistQueryAsync conn (pe_entry p) (pe_duration p) (pe_uid p) (pe_rowUIDs p) (pe_now p) (pe_now' p) st)"

text \<open>The entry fits its columns, its time lies in the window of the grant.\<close>

definition persistable :: "access_grant \<Rightarrow> persisted \<Rightarrow> bool" where
  "persistable g p \<longleftrightarrow> \<bar>pe_duration p\<bar> < 10 ^ 7 \<and> \<not> IsZero (lq_ExecutedAt (pe_entry p)) \<and> 0 \<le> lq_Bytes (pe_entry p)
     \<and> ag_StartsAt g \<le> lq_ExecutedAt (pe_entry p) \<and> lq_ExecutedAt (pe_entry p) < window_end g"

abbreviation total_bytes :: "persisted list \<Rightarrow> int" where
  "total_bytes ps \<equiv> sum_list (map (\<lambda>p. lq_Bytes (pe_entry p)) ps)"

text \<open>The one connection of the session, in the window of the grant, with room in its counters.\<close>

definition session_row :: "access_grant \<Rightarrow> uuid \<Rightarrow> int \<Rightarrow> int \<Rightarrow> db \<Rightarrow> bool" where
  "session_row g conn n bytes st \<longleftrightarrow> conn \<noteq> uuid_Nil \<and> distinct (map con_UID (db_connections st))
     \<and> (\<exists>c \<in> set (db_connections st). con_UID c = conn \<and> con_UserID c = ag_UserID g \<and> con_DatabaseID c = ag_DatabaseID g
          \<and> ag_StartsAt g \<le> con_ConnectedAt c \<and> con_ConnectedAt c < window_end g
          \<and> 0 \<le> con_Queries c \<and> con_Queries c + n < 2 ^ 31
          \<and> 0 \<le> con_BytesTransferred c \<and> con_BytesTransferred c + bytes < 2 ^ 63)"

definition bumped :: "uuid \<Rightarrow> int \<Rightarrow> time \<Rightarrow> connection \<Rightarrow> connection" where
  "bumped conn bytes now c = (if con_UID c = conn then c\<lparr>con_Queries := con_Queries c + 1,
     con_BytesTransferred := con_BytesTransferred c + bytes, con_LastActivityAt := now\<rparr> else c)"

lemma bumped_sel [simp]:
  "con_UID (bumped conn bytes now c) = con_UID c" "con_UserID (bumped conn bytes now c) = con_UserID c"
  "con_DatabaseID (bumped conn bytes now c) = con_DatabaseID c" "con_ConnectedAt (bumped conn bytes now c) = con_ConnectedAt c"
  "con_Queries (bumped conn bytes now c) = con_Queries c + (if con_UID c = conn then 1 else 0)"
  "con_BytesTransferred (bumped conn bytes now c) = con_BytesTransferred c + (if con_UID c = conn then bytes else 0)"
  by (simp_all add: bumped_def)

lemma store_rows_effect:
  assumes "db_faults st = []"
  shows "db_connections (snd (StoreQueryRows q rows uids st)) = db_connections st"
    and "db_queries (snd (StoreQueryRows q rows uids st)) = db_queries st"
    and "db_faults (snd (StoreQueryRows q rows uids st)) = []"
  using assms by (simp_all add: StoreQueryRows_def write_stmt_def stmt_def Let_def)

lemma bump_effect:
  assumes "db_faults st = []" and "session_row g conn 1 bytes st" and "0 \<le> bytes"
  shows "snd (IncrementConnectionStats conn bytes now st) =
    st\<lparr>db_connections := map (bumped conn bytes now) (db_connections st)\<rparr>"
proof -
  obtain c where c: "c \<in> set (db_connections st)" "con_UID c = conn" "0 \<le> con_Queries c" "con_Queries c + 1 < 2 ^ 31"
    "0 \<le> con_BytesTransferred c" "con_BytesTransferred c + bytes < 2 ^ 63"
    using assms(2) by (auto simp: session_row_def)
  have only: "x = c" if "x \<in> set (db_connections st)" "con_UID x = conn" for x
    using that c(1,2) assms(2) by (auto simp: session_row_def distinct_map dest: inj_onD)
  have rows: "update_where (\<lambda>c. con_UID c = conn) (\<lambda>c. c\<lparr>con_Queries := con_Queries c + 1,
      con_BytesTransferred := con_BytesTransferred c + bytes, con_LastActivityAt := now\<rparr>) (db_connections st)
    = map (bumped conn bytes now) (db_connections st)" by (simp add: update_where_def bumped_def)
  have "list_all (\<lambda>c. con_UID c = conn \<longrightarrow> int4 (con_Queries c) \<and> in_i64 (con_BytesTransferred c))
      (map (bumped conn bytes now) (db_connections st))"
    unfolding list_all_iff using only c(3-6) assms(3) by (auto simp: int4_def in_i64_def)
  then show ?thesis using assms(1) by (simp add: IncrementConnectionStats_def bump_def write_stmt_def stmt_def Let_def rows)
qed

lemma persist_one:
  assumes "db_faults st = []" and "session_row g conn 1 (lq_Bytes (pe_entry p)) st" and "persistable g p"
    and "pe_uid p \<notin> set (map qry_UID (db_queries st))"
  obtains q st' where "persistQueryAsync conn (pe_entry p) (pe_duration p) (pe_uid p) (pe_rowUIDs p) (pe_now p) (pe_now' p) st = st'"
    and "db_faults st' = []" and "db_queries st' = db_queries st @ [q]" and "qry_UID q = pe_uid p" and "qry_ConnectionID q = conn"
    and "qry_ExecutedAt q = lq_ExecutedAt (pe_entry p)"
    and "db_connections st' = map (bumped conn (lq_Bytes (pe_entry p)) (pe_now' p)) (db_connections st)"
proof -
  let ?e = "pe_entry p"
  let ?q = "(entry_query conn (pe_duration p) ?e)\<lparr>qry_UID := pe_uid p, qry_CopyFormat := None, qry_CopyDirection := None\<rparr>"
  let ?s1 = "st\<lparr>db_queries := db_queries st @ [?q]\<rparr>"
  define s2 where "s2 = (if length (lq_Rows ?e) > 0
    then snd (StoreQueryRows (pe_uid p) (number_rows 1 (lq_Rows ?e)) (pe_rowUIDs p) ?s1) else ?s1)"
  have known: "conn \<in> set (map con_UID (db_connections st))" "conn \<noteq> uuid_Nil" using assms(2) by (auto simp: session_row_def)
  have created: "CreateQuery (entry_query conn (pe_duration p) ?e) (pe_uid p) (pe_now p) st = (Inr ?q, ?s1)"
    using assms(1,3,4) known(1) by (simp add: CreateQuery_def write_stmt_def stmt_def Let_def entry_query_def persistable_def numeric_10_3_def abs_mult)
  have s2: "db_faults s2 = []" "db_queries s2 = db_queries st @ [?q]" "db_connections s2 = db_connections st"
    using assms(1) store_rows_effect [of ?s1] by (simp_all add: s2_def)
  have row2: "session_row g conn 1 (lq_Bytes ?e) s2" using assms(2) unfolding session_row_def s2(3) .
  have "persistQueryAsync conn ?e (pe_duration p) (pe_uid p) (pe_rowUIDs p) (pe_now p) (pe_now' p) st =
      snd (IncrementConnectionStats conn (lq_Bytes ?e) (pe_now' p) s2)"
    using created known(2) unfolding s2_def by (simp add: persistQueryAsync_def Let_def)
  also have "\<dots> = s2\<lparr>db_connections := map (bumped conn (lq_Bytes ?e) (pe_now' p)) (db_connections s2)\<rparr>"
    using assms(3) by (intro bump_effect [OF s2(1) row2]) (simp add: persistable_def)
  finally show thesis
  proof (rule that [where q = ?q])
    show "qry_ExecutedAt ?q = lq_ExecutedAt ?e" "qry_ConnectionID ?q = conn" "qry_UID ?q = pe_uid p"
      by (simp_all add: entry_query_def)
  qed (use s2 in simp_all)
qed

text \<open>The counters of \<open>GetActiveGrant\<close> read what was persisted.\<close>

lemma count_queries_append:
  assumes "db_queries st' = db_queries st @ [q]" and "db_connections st' = map f (db_connections st)"
    and same: "\<And>c. con_UID (f c) = con_UID c \<and> con_UserID (f c) = con_UserID c \<and> con_DatabaseID (f c) = con_DatabaseID c"
  shows "count_queries g st' = count_queries g st + int (length (filter (\<lambda>c. qry_ConnectionID q = con_UID c \<and>
     con_UserID c = ag_UserID g \<and> con_DatabaseID c = ag_DatabaseID g \<and> ag_StartsAt g \<le> qry_ExecutedAt q \<and>
     qry_ExecutedAt q < window_end g) (db_connections st)))"
proof -
  let ?P = "\<lambda>(q, c). qry_ConnectionID q = con_UID c \<and> con_UserID c = ag_UserID g \<and>
        con_DatabaseID c = ag_DatabaseID g \<and> ag_StartsAt g \<le> qry_ExecutedAt q \<and> qry_ExecutedAt q < window_end g"
  note keep = same [THEN conjunct1] same [THEN conjunct2, THEN conjunct1] same [THEN conjunct2, THEN conjunct2]
  have row: "length (filter ?P (map (Pair q) (map f cs))) = length (filter (\<lambda>c. ?P (q, c)) cs)" for q cs
    by (simp add: filter_map comp_def keep)
  have prod: "length (filter ?P (List.product qs (map f cs))) = length (filter ?P (List.product qs cs))" for qs cs
    by (induction qs) (simp_all add: filter_map comp_def keep)
  have snoc: "length (filter ?P (List.product (qs @ [q]) cs)) = length (filter ?P (List.product qs cs)) + length (filter (\<lambda>c. ?P (q, c)) cs)" for qs cs
    by (induction qs) (simp_all add: filter_map comp_def del: prod.case)
  show ?thesis unfolding count_queries_def assms(1,2) prod snoc by simp
qed

lemma sum_bytes_bumped:
  assumes "session_row g conn n bytes st" and "db_connections st' = map (bumped conn b now) (db_connections st)"
  shows "sum_bytes g st' = sum_bytes g st + b"
proof -
  let ?P = "\<lambda>c. con_UserID c = ag_UserID g \<and> con_DatabaseID c = ag_DatabaseID g \<and> ag_StartsAt g \<le> con_ConnectedAt c \<and>
        con_ConnectedAt c < window_end g"
  have "sum_list (map con_BytesTransferred (filter ?P (map (bumped conn b now) cs))) =
      sum_list (map con_BytesTransferred (filter ?P cs)) + (if \<exists>c\<in>set cs. con_UID c = conn \<and> ?P c then b else 0)"
    if "distinct (map con_UID cs)" for cs
    using that by (induction cs) (auto simp: rev_image_eqI)
  then show ?thesis using assms unfolding sum_bytes_def session_row_def by auto
qed

lemma one_connection:
  assumes "session_row g conn n bytes st"
  shows "length (filter (\<lambda>c. conn = con_UID c \<and> con_UserID c = ag_UserID g \<and> con_DatabaseID c = ag_DatabaseID g) (db_connections st)) = 1"
proof -
  obtain c where c: "c \<in> set (db_connections st)" "con_UID c = conn" "con_UserID c = ag_UserID g" "con_DatabaseID c = ag_DatabaseID g"
    and d: "distinct (map con_UID (db_connections st))" using assms by (auto simp: session_row_def)
  have "length (filter (\<lambda>c. conn = con_UID c \<and> con_UserID c = ag_UserID g \<and> con_DatabaseID c = ag_DatabaseID g) cs)
      = (if \<exists>c\<in>set cs. con_UID c = conn \<and> con_UserID c = ag_UserID g \<and> con_DatabaseID c = ag_DatabaseID g then 1 else 0)"
    if "distinct (map con_UID cs)" for cs
    using that by (induction cs) (auto simp: filter_empty_conv rev_image_eqI)
  from this [OF d] c show ?thesis by auto
qed

lemma session_row_bumped:
  assumes "session_row g conn (n + 1) (bytes + b) st" and "db_connections st' = map (bumped conn b now) (db_connections st)" and "0 \<le> b"
  shows "session_row g conn n bytes st'"
  using assms unfolding session_row_def by (auto simp: comp_def)

text \<open>C26. What a session has logged is what the next connection is charged: after its entries are
  persisted, the counters of the grant have grown by exactly the number of entries and the sum
  of their bytes.\<close>

theorem persisted_usage_exact:
  assumes "db_faults st = []" and "session_row g conn (int (length ps)) (total_bytes ps) st"
    and "list_all (persistable g) ps" and "distinct (map qry_UID (db_queries st) @ map pe_uid ps)"
  shows "count_queries g (persist_all conn ps st) = count_queries g st + int (length ps)
    \<and> sum_bytes g (persist_all conn ps st) = sum_bytes g st + total_bytes ps"
  using assms
proof (induction ps arbitrary: st)
  case Nil
  then show ?case by simp
next
  case (Cons p ps)
  let ?b = "lq_Bytes (pe_entry p)"
  have ok: "persistable g p" "0 \<le> ?b" "0 \<le> total_bytes ps"
    using Cons.prems(3) by (auto simp: persistable_def list_all_iff intro!: sum_list_nonneg)
  have row: "session_row g conn 1 ?b st" and rest: "session_row g conn (int (length ps) + 1) (total_bytes ps + ?b) st"
    using Cons.prems(2) ok(3) unfolding session_row_def by (auto simp: add.commute)
  have new: "pe_uid p \<notin> set (map qry_UID (db_queries st))" using Cons.prems(4) by auto
  obtain q st' where st': "persistQueryAsync conn (pe_entry p) (pe_duration p) (pe_uid p) (pe_rowUIDs p) (pe_now p) (pe_now' p) st = st'"
    "db_faults st' = []" "db_queries st' = db_queries st @ [q]" "qry_UID q = pe_uid p" "qry_ConnectionID q = conn"
    "qry_ExecutedAt q = lq_ExecutedAt (pe_entry p)" "db_connections st' = map (bumped conn ?b (pe_now' p)) (db_connections st)"
    by (rule persist_one [OF Cons.prems(1) row ok(1) new])
  have one: "count_queries g st' = count_queries g st + 1"
    using count_queries_append [OF st'(3,7)] one_connection [OF row] ok(1) by (simp add: st'(5,6) persistable_def)
  have two: "sum_bytes g st' = sum_bytes g st + ?b" by (rule sum_bytes_bumped [OF row st'(7)])
  have "count_queries g (persist_all conn ps st') = count_queries g st' + int (length ps)
      \<and> sum_bytes g (persist_all conn ps st') = sum_bytes g st' + total_bytes ps"
  proof (rule Cons.IH [OF st'(2) session_row_bumped [OF rest st'(7) ok(2)]])
    show "list_all (persistable g) ps" using Cons.prems(3) by simp
    show "distinct (map qry_UID (db_queries st') @ map pe_uid ps)" using Cons.prems(4) by (auto simp: st'(3,4))
  qed
  then show ?case using st'(1) one two by simp
qed

definition sample_usage_grant :: access_grant where
  "sample_usage_grant = \<lparr>ag_UID = 5, ag_UserID = 1, ag_DatabaseID = 2, ag_Controls = [], ag_GrantedBy = 1, ag_StartsAt = 10,
     ag_ExpiresAt = 100, ag_RevokedAt = None, ag_RevokedBy = None, ag_MaxQueryCounts = None, ag_MaxBytesTransferred = None,
     ag_CreatedAt = 10, ag_QueryCount = 0, ag_BytesTransferred = 0\<rparr>"

definition sample_usage_db :: db where
  "sample_usage_db = sample_log_db\<lparr>db_queries := [], db_connections := [\<lparr>con_UID = 3, con_UserID = 1, con_DatabaseID = 2,
     con_SourceIP = [], con_ConnectedAt = 20, con_LastActivityAt = 20, con_DisconnectedAt = None, con_Queries = 0,
     con_BytesTransferred = 50\<rparr>]\<rparr>"

definition sample_entry :: "uuid \<Rightarrow> int \<Rightarrow> persisted" where
  "sample_entry uid b = \<lparr>pe_entry = \<lparr>lq_SQLText = ''SELECT 1'', lq_Parameters = None, lq_ExecutedAt = 30, lq_RowsAffected = None,
      lq_Error = None, lq_Copy = None, lq_Rows = [], lq_Bytes = b\<rparr>, pe_duration = 4, pe_uid = uid, pe_rowUIDs = [],
     pe_now = 40, pe_now' = 41\<rparr>"

lemmas sample_usage_defs = sample_usage_grant_def sample_usage_db_def sample_log_db_def sample_entry_def session_row_def window_end_def
  persistable_def IsZero_def zero_time_def

theorem persisted_usage_exact_witness:
  "count_queries sample_usage_grant (persist_all 3 [sample_entry 8 7, sample_entry 9 5] sample_usage_db) = 2
   \<and> sum_bytes sample_usage_grant (persist_all 3 [sample_entry 8 7, sample_entry 9 5] sample_usage_db) = 62"
proof -
  have "count_queries sample_usage_grant sample_usage_db = 0" "sum_bytes sample_usage_grant sample_usage_db = 50"
    by (simp_all add: sample_usage_defs count_queries_def sum_bytes_def)
  then show ?thesis
    using persisted_usage_exact [of sample_usage_db sample_usage_grant 3 "[sample_entry 8 7, sample_entry 9 5]"]
    by (simp add: sample_usage_defs)
qed

section \<open>What the log loses\<close>

text \<open>A COPY operation is logged with its format and direction, but \<open>CreateQuery\<close> copies the
  fields of the record one by one and leaves these two out: the stored row of any query has
  neither.\<close>

theorem copy_metadata_lost:
  "case CreateQuery query newUID now st of
     (Inl _, st') \<Rightarrow> same_tables st st'
   | (Inr q, st') \<Rightarrow> qry_CopyFormat q = None \<and> qry_CopyDirection q = None \<and> db_queries st' = db_queries st @ [q]"
  by (auto simp: CreateQuery_def write_stmt_def stmt_def Let_def same_tables_def split: list.split)

text \<open>\<open>duration_ms\<close> has seven digits before the point: a query that ran for ten million
  milliseconds (two hours and 47 minutes) or longer is never logged, and its bytes are never
  added to the connection, so they do not count towards the quota of the grant.\<close>

theorem long_query_not_charged:
  assumes "10 ^ 7 \<le> durationMs"
  shows "same_tables st (persistQueryAsync conn e durationMs newUID rowUIDs now now' st)"
  using assms
  by (auto simp: persistQueryAsync_def CreateQuery_def write_stmt_def stmt_def Let_def entry_query_def numeric_10_3_def same_tables_def
      split: list.split)

theorem long_query_not_charged_witness:
  "same_tables sample_usage_db (persistQueryAsync 3 (pe_entry (sample_entry 8 7)) (10 ^ 7) 8 [] 40 41 sample_usage_db)"
  by (rule long_query_not_charged) simp

end
