(* ===== verification/Store_Users.thy ===== *)
theory Store_Users
  imports Query_Log
begin

text \<open>
  \<open>internal/store/users.go\<close>, \<open>user_identities.go\<close> and the persistence half of
  \<open>mongo_scram.go\<close>: accounts, their external identities, and the protocol material kept in one
  JSON column of the user row. The operations that read the row and write it back in a later
  statement are split at that point.
\<close>

section \<open>Accounts\<close>

definition user_roles :: "string set" where
  "user_roles = {RoleAdmin, RoleViewer, RoleConnector}"

definition live_user :: "user \<Rightarrow> bool" where "live_user u \<longleftrightarrow> usr_DeletedAt u = None"

text \<open>The \<open>user_role\<close> enumeration, the primary key, and the unique index on the names of live users.\<close>

definition CreateUser ::
  "string \<Rightarrow> string \<Rightarrow> string list \<Rightarrow> uuid \<Rightarrow> time \<Rightarrow> time \<Rightarrow> db \<Rightarrow> (store_error + user) \<times> db" where
  "CreateUser username passwordHash roles newUID now now' =
     write_stmt (\<lambda>st.
       let rs = (if length roles = 0 then [RoleConnector] else roles);
           user = \<lparr>usr_UID = newUID, usr_Username = username, usr_PasswordHash = passwordHash, usr_Roles = rs,
                   usr_RateLimitExempt = False, usr_PasswordChangedAt = None, usr_CreatedAt = now, usr_UpdatedAt = now',
                   usr_DeletedAt = None, usr_ProtocolData = None\<rparr>
       in if newUID \<in> set (map usr_UID (db_users st)) \<or> \<not> list_all (\<lambda>r. r \<in> user_roles) rs then Inl ErrDB
          else if list_ex (\<lambda>u. live_user u \<and> usr_Username u = username) (db_users st) then Inl ErrUserNameConflict
          else Inr (user, st\<lparr>db_users := db_users st @ [user]\<rparr>))"

definition GetUserByUsername :: "string \<Rightarrow> db \<Rightarrow> (store_error + user) \<times> db" where
  "GetUserByUsername username =
     read_stmt (\<lambda>st. case find (\<lambda>u. usr_Username u = username \<and> live_user u) (db_users st) of
        None \<Rightarrow> Inl ErrUserNotFound | Some u \<Rightarrow> Inr u)"

text \<open>\<open>ORDER BY username\<close> uses the collation of the database, the parameter \<open>collate\<close>.\<close>

definition ListUsers :: "(string \<Rightarrow> nat) \<Rightarrow> db \<Rightarrow> (store_error + user list) \<times> db" where
  "ListUsers collate = read_stmt (\<lambda>st. Inr (sort_key (\<lambda>u. collate (usr_Username u)) (filter live_user (db_users st))))"

definition CountAdmins :: "db \<Rightarrow> (store_error + int) \<times> db" where
  "CountAdmins = read_stmt (\<lambda>st. Inr (int (length (filter (\<lambda>u. live_user u \<and> RoleAdmin \<in> set (usr_Roles u)) (db_users st)))))"

record user_update =
  uu_PasswordHash :: "string option"
  uu_Roles :: "string list option"

text \<open>A nil list of roles leaves them, an empty one removes them all.\<close>

definition set_columns :: "user_update \<Rightarrow> time \<Rightarrow> time \<Rightarrow> user \<Rightarrow> user" where
  "set_columns updates now now' u =
     u\<lparr>usr_UpdatedAt := now,
       usr_PasswordHash := (case uu_PasswordHash updates of None \<Rightarrow> usr_PasswordHash u | Some h \<Rightarrow> h),
       usr_PasswordChangedAt := (case uu_PasswordHash updates of None \<Rightarrow> usr_PasswordChangedAt u | Some _ \<Rightarrow> Some now'),
       usr_Roles := (case uu_Roles updates of None \<Rightarrow> usr_Roles u | Some rs \<Rightarrow> rs)\<rparr>"

definition UpdateUser :: "uuid \<Rightarrow> user_update \<Rightarrow> time \<Rightarrow> time \<Rightarrow> db \<Rightarrow> (store_error + unit) \<times> db" where
  "UpdateUser uid updates now now' =
     write_stmt (\<lambda>st.
       let hit = (\<lambda>u. usr_UID u = uid \<and> live_user u)
       in if (case uu_Roles updates of None \<Rightarrow> False | Some rs \<Rightarrow> \<not> list_all (\<lambda>r. r \<in> user_roles) rs) then Inl ErrDB
          else if filter hit (db_users st) = [] then Inl ErrUserNotFound
          else Inr ((), st\<lparr>db_users := update_where hit (set_columns updates now now') (db_users st)\<rparr>))"

definition delete_identities :: "uuid \<Rightarrow> time \<Rightarrow> db \<Rightarrow> (store_error + unit) \<times> db" where
  "delete_identities uid now =
     write_stmt (\<lambda>st. Inr ((), st\<lparr>db_identities :=
       update_where (\<lambda>i. ui_UserID i = uid \<and> ui_DeletedAt i = None) (\<lambda>i. i\<lparr>ui_DeletedAt := Some now\<rparr>) (db_identities st)\<rparr>))"

definition delete_user_row :: "uuid \<Rightarrow> time \<Rightarrow> db \<Rightarrow> (store_error + unit) \<times> db" where
  "delete_user_row uid now =
     write_stmt (\<lambda>st.
       let hit = (\<lambda>u. usr_UID u = uid \<and> live_user u) in
       if filter hit (db_users st) = [] then Inl ErrUserNotFound
       else Inr ((), st\<lparr>db_users := update_where hit (\<lambda>u. u\<lparr>usr_DeletedAt := Some now\<rparr>) (db_users st)\<rparr>))"

definition DeleteUser :: "uuid \<Rightarrow> time \<Rightarrow> time \<Rightarrow> db \<Rightarrow> (store_error + unit) \<times> db" where
  "DeleteUser uid now now' =
     RunInTx (\<lambda>st. and_then (delete_identities uid now st) (\<lambda>_ st1. delete_user_row uid now' st1))"

definition EnsureDefaultAdmin :: "string \<Rightarrow> uuid \<Rightarrow> time \<Rightarrow> time \<Rightarrow> db \<Rightarrow> (store_error + unit) \<times> db" where
  "EnsureDefaultAdmin passwordHash newUID now now' st =
     and_then (read_stmt (\<lambda>s. Inr (length (filter live_user (db_users s)))) st) (\<lambda>count st1.
       if count > 0 then (Inr (), st1)
       else and_then (CreateUser ''admin'' passwordHash [RoleAdmin, RoleConnector] newUID now now' st1) (\<lambda>_ st2. (Inr (), st2)))"

section \<open>External identities\<close>

definition IdentityTypeSlack :: string where "IdentityTypeSlack = ''slack''"

definition live_identity :: "user_identity \<Rightarrow> bool" where "live_identity i \<longleftrightarrow> ui_DeletedAt i = None"

definition ListAdminSlackUserIDs :: "db \<Rightarrow> (store_error + string list) \<times> db" where
  "ListAdminSlackUserIDs =
     read_stmt (\<lambda>st. Inr (map ui_ProviderID (filter (\<lambda>i. live_identity i \<and> ui_Provider i = IdentityTypeSlack \<and>
        list_ex (\<lambda>u. usr_UID u = ui_UserID i \<and> RoleAdmin \<in> set (usr_Roles u) \<and> live_user u) (db_users st)) (db_identities st))))"

definition GetIdentityByProviderID :: "string \<Rightarrow> string \<Rightarrow> db \<Rightarrow> (store_error + user_identity) \<times> db" where
  "GetIdentityByProviderID provider providerID =
     read_stmt (\<lambda>st. case find (\<lambda>i. ui_Provider i = provider \<and> ui_ProviderID i = providerID \<and> live_identity i) (db_identities st) of
        None \<Rightarrow> Inl ErrIdentityNotFound | Some i \<Rightarrow> Inr i)"

definition GetUserByIdentity :: "string \<Rightarrow> string \<Rightarrow> db \<Rightarrow> (store_error + user) \<times> db" where
  "GetUserByIdentity provider providerID st =
     and_then (GetIdentityByProviderID provider providerID st) (\<lambda>i st1. GetUserByUID (ui_UserID i) st1)"

definition GetUserIdentity :: "uuid \<Rightarrow> db \<Rightarrow> (store_error + user_identity) \<times> db" where
  "GetUserIdentity uid =
     read_stmt (\<lambda>st. case find (\<lambda>i. ui_UID i = uid \<and> live_identity i) (db_identities st) of
        None \<Rightarrow> Inl ErrIdentityNotFound | Some i \<Rightarrow> Inr i)"

definition GetUserIdentities :: "uuid \<Rightarrow> db \<Rightarrow> (store_error + user_identity list) \<times> db" where
  "GetUserIdentities userID =
     read_stmt (\<lambda>st. Inr (sort_key ui_CreatedAt (filter (\<lambda>i. ui_UserID i = userID \<and> live_identity i) (db_identities st))))"

definition CreateUserIdentity ::
  "user_identity \<Rightarrow> uuid \<Rightarrow> time \<Rightarrow> time \<Rightarrow> db \<Rightarrow> (store_error + user_identity) \<times> db" where
  "CreateUserIdentity identity newUID now now' =
     write_stmt (\<lambda>st.
       let row = identity\<lparr>ui_UID := newUID, ui_CreatedAt := now, ui_UpdatedAt := now', ui_DeletedAt := None\<rparr> in
       if newUID \<in> set (map ui_UID (db_identities st)) \<or> \<not> user_exists st (ui_UserID identity)
          \<or> list_ex (\<lambda>i. live_identity i \<and> ui_Provider i = ui_Provider identity \<and> ui_ProviderID i = ui_ProviderID identity) (db_identities st)
       then Inl ErrDB
       else Inr (row, st\<lparr>db_identities := db_identities st @ [row]\<rparr>))"

definition DeleteUserIdentity :: "uuid \<Rightarrow> time \<Rightarrow> db \<Rightarrow> (store_error + unit) \<times> db" where
  "DeleteUserIdentity uid now =
     write_stmt (\<lambda>st.
       let hit = (\<lambda>i. ui_UID i = uid \<and> live_identity i) in
       if filter hit (db_identities st) = [] then Inl ErrIdentityNotFound
       else Inr ((), st\<lparr>db_identities := update_where hit (\<lambda>i. i\<lparr>ui_DeletedAt := Some now\<rparr>) (db_identities st)\<rparr>))"

section \<open>Protocol material\<close>

definition empty_protocol_data :: user_protocol_data where
  "empty_protocol_data = \<lparr>upd_Oracle = None, upd_MongoDB = None\<rparr>"

text \<open>\<open>EnsureUserOracleSalts\<close> reads the user, and unless the salts are there prepares the whole
  column from what it read and writes it where no Oracle material has appeared meanwhile.\<close>

definition salts_present :: "user \<Rightarrow> oracle_user_data option" where
  "salts_present u = (case OracleData u of None \<Rightarrow> None
     | Some d \<Rightarrow> if length (od_Salt6949 d) > 0 \<and> length (od_Salt18453 d) > 0 then Some d else None)"

definition salted_data :: "user \<Rightarrow> oracle_user_data \<Rightarrow> user_protocol_data" where
  "salted_data u salts = (case usr_ProtocolData u of None \<Rightarrow> empty_protocol_data | Some p \<Rightarrow> p)\<lparr>upd_Oracle := Some salts\<rparr>"

definition persist_salts :: "uuid \<Rightarrow> user_protocol_data \<Rightarrow> time \<Rightarrow> db \<Rightarrow> (store_error + nat) \<times> db" where
  "persist_salts userID data now =
     write_stmt (\<lambda>st.
       let hit = (\<lambda>u. usr_UID u = userID \<and> live_user u \<and> OracleData u = None) in
       Inr (length (filter hit (db_users st)),
            st\<lparr>db_users := update_where hit (\<lambda>u. u\<lparr>usr_ProtocolData := Some data, usr_UpdatedAt := now\<rparr>) (db_users st)\<rparr>))"

definition salts_finish :: "user \<Rightarrow> oracle_user_data \<Rightarrow> time \<Rightarrow> db \<Rightarrow> (store_error + oracle_user_data) \<times> db" where
  "salts_finish u fresh now st =
     (case salts_present u of Some d \<Rightarrow> (Inr d, st)
      | None \<Rightarrow>
          and_then (persist_salts (usr_UID u) (salted_data u fresh) now st) (\<lambda>rows st1.
            if rows = 0 then
              and_then (GetUserByUID (usr_UID u) st1) (\<lambda>winner st2.
                (case OracleData winner of Some d \<Rightarrow> (Inr d, st2) | None \<Rightarrow> (Inl ErrUserNotFound, st2)))
            else (Inr fresh, st1)))"

definition EnsureUserOracleSalts :: "uuid \<Rightarrow> oracle_user_data \<Rightarrow> time \<Rightarrow> db \<Rightarrow> (store_error + oracle_user_data) \<times> db" where
  "EnsureUserOracleSalts userID fresh now st =
     and_then (GetUserByUID userID st) (\<lambda>u st1. salts_finish u fresh now st1)"

text \<open>\<open>persistUserMongoVerifier\<close>: read under a row lock and write, in one transaction.\<close>

definition with_mongo :: "user \<Rightarrow> mongo_scram_credentials \<Rightarrow> user_protocol_data" where
  "with_mongo u creds = (case usr_ProtocolData u of None \<Rightarrow> empty_protocol_data | Some p \<Rightarrow> p)\<lparr>upd_MongoDB := Some (Some creds)\<rparr>"

definition lock_user :: "uuid \<Rightarrow> db \<Rightarrow> (store_error + user) \<times> db" where
  "lock_user userID =
     read_stmt (\<lambda>st. case find (\<lambda>u. usr_UID u = userID \<and> live_user u) (db_users st) of None \<Rightarrow> Inl ErrDB | Some u \<Rightarrow> Inr u)"

definition persistUserMongoVerifier :: "uuid \<Rightarrow> mongo_scram_credentials \<Rightarrow> time \<Rightarrow> db \<Rightarrow> (store_error + unit) \<times> db" where
  "persistUserMongoVerifier userID creds now =
     RunInTx (\<lambda>st.
       and_then (lock_user userID st) (\<lambda>u st1.
         write_stmt (\<lambda>s. Inr ((), s\<lparr>db_users :=
           update_where (\<lambda>v. usr_UID v = userID \<and> live_user v)
             (\<lambda>v. v\<lparr>usr_ProtocolData := Some (with_mongo u creds), usr_UpdatedAt := now\<rparr>) (db_users s)\<rparr>)) st1))"

section \<open>Names and identities stay unambiguous\<close>

definition live_names :: "db \<Rightarrow> string list" where
  "live_names st = map usr_Username (filter live_user (db_users st))"

definition live_links :: "db \<Rightarrow> (string \<times> string) list" where
  "live_links st = map (\<lambda>i. (ui_Provider i, ui_ProviderID i)) (filter live_identity (db_identities st))"

definition accounts_inv :: "db \<Rightarrow> bool" where
  "accounts_inv st \<longleftrightarrow> distinct (map usr_UID (db_users st)) \<and> distinct (live_names st)
     \<and> distinct (map ui_UID (db_identities st)) \<and> distinct (live_links st)
     \<and> (\<forall>u\<in>set (db_users st). set (usr_Roles u) \<subseteq> user_roles)
     \<and> (\<forall>i\<in>set (db_identities st). user_exists st (ui_UserID i))"

lemma accounts_inv_same: "same_tables st st' \<Longrightarrow> accounts_inv st' = accounts_inv st"
  by (simp add: accounts_inv_def live_names_def live_links_def user_exists_def same_tables_select)

inductive account_step :: "db \<Rightarrow> db \<Rightarrow> bool" where
  "CreateUser n h rs uid now now' st = (r, st') \<Longrightarrow> account_step st st'"
| "UpdateUser uid upd now now' st = (r2, st') \<Longrightarrow> account_step st st'"
| "DeleteUser uid now now' st = (r2, st') \<Longrightarrow> account_step st st'"
| "EnsureDefaultAdmin h uid now now' st = (r2, st') \<Longrightarrow> account_step st st'"
| "CreateUserIdentity i uid now now' st = (r3, st') \<Longrightarrow> account_step st st'"
| "DeleteUserIdentity uid now st = (r2, st') \<Longrightarrow> account_step st st'"
| "salts_finish u fresh now st = (r4, st') \<Longrightarrow> account_step st st'"
| "persistUserMongoVerifier uid creds now st = (r2, st') \<Longrightarrow> account_step st st'"

text \<open>Row updates that keep identifiers and names, and bring no row back to life.\<close>

lemma distinct_live_update:
  assumes "distinct (map g (filter live rows))" and "\<And>r. P r \<Longrightarrow> g (f r) = g r" and "\<And>r. P r \<Longrightarrow> live (f r) \<Longrightarrow> live r"
  shows "distinct (map g (filter live (update_where P f rows)))"
  using assms(1)
proof (induction rows)
  case (Cons r rows)
  have "set (map g (filter live (update_where P f rows))) \<subseteq> set (map g (filter live rows))"
    using assms(2,3) by (auto simp: update_where_def image_iff)
  then show ?case using Cons assms(2,3) by (fastforce simp: update_where_def split: if_splits)
qed (simp add: update_where_def)

lemma update_users_inv:
  assumes "accounts_inv st" and "\<And>u. P u \<Longrightarrow> usr_UID (f u) = usr_UID u \<and> usr_Username (f u) = usr_Username u"
    and "\<And>u. P u \<Longrightarrow> live_user (f u) \<Longrightarrow> live_user u" and "\<And>u. P u \<Longrightarrow> set (usr_Roles u) \<subseteq> user_roles \<Longrightarrow> set (usr_Roles (f u)) \<subseteq> user_roles"
  shows "accounts_inv (st\<lparr>db_users := update_where P f (db_users st)\<rparr>)"
proof -
  have "map usr_UID (update_where P f (db_users st)) = map usr_UID (db_users st)" using assms(2) by (intro map_update_where) simp
  moreover have "distinct (map usr_Username (filter live_user (update_where P f (db_users st))))"
    using assms by (intro distinct_live_update) (auto simp: accounts_inv_def live_names_def)
  ultimately show ?thesis using assms(1,4)
    by (auto simp: accounts_inv_def live_names_def live_links_def user_exists_def set_update_where)
qed

lemma update_identities_inv:
  assumes "accounts_inv st" and "\<And>i. P i \<Longrightarrow> ui_UID (f i) = ui_UID i \<and> ui_Provider (f i) = ui_Provider i \<and> ui_ProviderID (f i) = ui_ProviderID i
      \<and> ui_UserID (f i) = ui_UserID i" and "\<And>i. P i \<Longrightarrow> \<not> live_identity (f i)"
  shows "accounts_inv (st\<lparr>db_identities := update_where P f (db_identities st)\<rparr>)"
proof -
  have "map ui_UID (update_where P f (db_identities st)) = map ui_UID (db_identities st)" using assms(2) by (intro map_update_where) simp
  moreover have "distinct (map (\<lambda>i. (ui_Provider i, ui_ProviderID i)) (filter live_identity (update_where P f (db_identities st))))"
    using assms by (intro distinct_live_update) (simp_all add: accounts_inv_def live_links_def)
  ultimately show ?thesis using assms(1,2)
    by (auto simp: accounts_inv_def live_names_def live_links_def user_exists_def set_update_where)
qed

lemma create_user_inv:
  assumes "accounts_inv st" and "CreateUser n h rs uid now now' st = (Inr u, st')"
  shows "accounts_inv st'"
proof -
  obtain st1 where s: "same_tables st st1" "usr_UID u \<notin> set (map usr_UID (db_users st1))" "list_all (\<lambda>r. r \<in> user_roles) (usr_Roles u)"
    "\<not> list_ex (\<lambda>v. live_user v \<and> usr_Username v = usr_Username u) (db_users st1)"
    "st' = st1\<lparr>db_users := db_users st1 @ [u]\<rparr>"
    using write_stmt_Inr [OF assms(2) [unfolded CreateUser_def]] by (auto simp: Let_def split: if_splits)
  have "accounts_inv st1" using assms(1) accounts_inv_same [OF s(1)] by simp
  then show ?thesis using s(2-4) unfolding s(5)
    by (auto simp: accounts_inv_def live_names_def live_links_def user_exists_def list_all_iff list_ex_iff)
qed

lemma update_user_inv:
  assumes "accounts_inv st" and "UpdateUser uid upd now now' st = (Inr x, st')"
  shows "accounts_inv st'"
proof -
  obtain st1 where s: "same_tables st st1"
    "st' = st1\<lparr>db_users := update_where (\<lambda>u. usr_UID u = uid \<and> live_user u) (set_columns upd now now') (db_users st1)\<rparr>"
    "case uu_Roles upd of None \<Rightarrow> True | Some rs \<Rightarrow> list_all (\<lambda>r. r \<in> user_roles) rs"
    using write_stmt_Inr [OF assms(2) [unfolded UpdateUser_def]] by (auto simp: Let_def split: if_splits option.splits)
  have "accounts_inv st1" using assms(1) accounts_inv_same [OF s(1)] by simp
  then show ?thesis unfolding s(2) using s(3)
    by (intro update_users_inv) (auto simp: live_user_def set_columns_def list_all_iff split: option.splits)
qed

lemma delete_identities_inv:
  assumes "accounts_inv st" and "delete_identities uid now st = (Inr x, st')"
  shows "accounts_inv st'"
proof -
  let ?P = "\<lambda>i. ui_UserID i = uid \<and> ui_DeletedAt i = None" and ?f = "\<lambda>i. i\<lparr>ui_DeletedAt := Some now\<rparr>"
  obtain st1 where s: "same_tables st st1" "st' = st1\<lparr>db_identities := update_where ?P ?f (db_identities st1)\<rparr>"
    using write_stmt_Inr [OF assms(2) [unfolded delete_identities_def]] by auto
  have "accounts_inv st1" using assms(1) accounts_inv_same [OF s(1)] by simp
  then show ?thesis unfolding s(2) by (rule update_identities_inv) (simp_all add: live_identity_def)
qed

lemma delete_user_row_inv:
  assumes "accounts_inv st" and "delete_user_row uid now st = (Inr x, st')"
  shows "accounts_inv st'"
proof -
  obtain st1 where s: "same_tables st st1"
    "st' = st1\<lparr>db_users := update_where (\<lambda>u. usr_UID u = uid \<and> live_user u) (\<lambda>u. u\<lparr>usr_DeletedAt := Some now\<rparr>) (db_users st1)\<rparr>"
    using write_stmt_Inr [OF assms(2) [unfolded delete_user_row_def]] by (auto simp: Let_def split: if_splits)
  have "accounts_inv st1" using assms(1) accounts_inv_same [OF s(1)] by simp
  then show ?thesis unfolding s(2) by (intro update_users_inv) (auto simp: live_user_def)
qed

lemma delete_user_inv:
  assumes "accounts_inv st" and "DeleteUser uid now now' st = (Inr x, st')"
  shows "accounts_inv st'"
proof -
  obtain s1 s2 where s: "same_tables st s1" "same_tables s2 st'"
    "and_then (delete_identities uid now s1) (\<lambda>_ st1. delete_user_row uid now' st1) = (Inr x, s2)"
    using RunInTx_Inr [OF assms(2) [unfolded DeleteUser_def]] by blast
  then obtain y m where "delete_identities uid now s1 = (Inr y, m)" "delete_user_row uid now' m = (Inr x, s2)"
    by (auto simp: and_then_Inr)
  then have "accounts_inv s2"
    using delete_identities_inv delete_user_row_inv assms(1) accounts_inv_same [OF s(1)] by blast
  then show ?thesis using accounts_inv_same [OF s(2)] by simp
qed

lemma create_identity_inv:
  assumes "accounts_inv st" and "CreateUserIdentity i uid now now' st = (Inr row, st')"
  shows "accounts_inv st'"
proof -
  obtain st1 where s: "same_tables st st1" "ui_UID row \<notin> set (map ui_UID (db_identities st1))" "user_exists st1 (ui_UserID row)"
    "\<not> list_ex (\<lambda>j. live_identity j \<and> ui_Provider j = ui_Provider row \<and> ui_ProviderID j = ui_ProviderID row) (db_identities st1)"
    "st' = st1\<lparr>db_identities := db_identities st1 @ [row]\<rparr>"
    using write_stmt_Inr [OF assms(2) [unfolded CreateUserIdentity_def]] by (auto simp: Let_def split: if_splits)
  have "accounts_inv st1" using assms(1) accounts_inv_same [OF s(1)] by simp
  then show ?thesis using s(2-4) unfolding s(5)
    by (auto simp: accounts_inv_def live_names_def live_links_def user_exists_def list_ex_iff)
qed

lemma delete_identity_inv:
  assumes "accounts_inv st" and "DeleteUserIdentity uid now st = (Inr x, st')"
  shows "accounts_inv st'"
proof -
  obtain st1 where s: "same_tables st st1" "st' = st1\<lparr>db_identities := update_where (\<lambda>i. ui_UID i = uid \<and> live_identity i)
      (\<lambda>i. i\<lparr>ui_DeletedAt := Some now\<rparr>) (db_identities st1)\<rparr>"
    using write_stmt_Inr [OF assms(2) [unfolded DeleteUserIdentity_def]] by (auto simp: Let_def split: if_splits)
  have "accounts_inv st1" using assms(1) accounts_inv_same [OF s(1)] by simp
  then show ?thesis unfolding s(2) by (rule update_identities_inv) (simp_all add: live_identity_def)
qed

text \<open>Writing the protocol column touches nothing the invariant is about.\<close>

lemma protocol_write_inv:
  "accounts_inv st \<Longrightarrow> accounts_inv (st\<lparr>db_users := update_where P (\<lambda>u. u\<lparr>usr_ProtocolData := d, usr_UpdatedAt := now\<rparr>) (db_users st)\<rparr>)"
  by (rule update_users_inv) (simp_all add: live_user_def)

lemma salts_finish_inv:
  assumes "accounts_inv st" and "salts_finish u fresh now st = (r, st')"
  shows "accounts_inv st'"
proof (cases "salts_present u")
  case None
  obtain r1 s1 where p: "persist_salts (usr_UID u) (salted_data u fresh) now st = (r1, s1)" by fastforce
  have s1: "accounts_inv s1"
  proof (cases r1)
    case (Inl e)
    then show ?thesis using p accounts_inv_same [OF write_stmt_Inl] assms(1) unfolding persist_salts_def by blast
  next
    case (Inr n)
    then obtain s0 P where "same_tables st s0"
      "s1 = s0\<lparr>db_users := update_where P (\<lambda>v. v\<lparr>usr_ProtocolData := Some (salted_data u fresh), usr_UpdatedAt := now\<rparr>) (db_users s0)\<rparr>"
      using write_stmt_Inr [OF p [unfolded persist_salts_def Inr]] by (auto simp: Let_def)
    then show ?thesis using protocol_write_inv assms(1) accounts_inv_same by blast
  qed
  have "same_tables s1 st'"
    using assms(2) None p read_stmt_same [of _ s1]
    by (auto simp: salts_finish_def and_then_def GetUserByUID_def split: sum.splits if_splits prod.splits option.splits)
  then show ?thesis using s1 accounts_inv_same by blast
qed (use assms in \<open>auto simp: salts_finish_def\<close>)

lemma mongo_write_inv:
  assumes "accounts_inv st" and "persistUserMongoVerifier uid creds now st = (Inr x, st')"
  shows "accounts_inv st'"
proof -
  obtain s1 s2 u m where s: "same_tables st s1" "same_tables s2 st'" "lock_user uid s1 = (Inr u, m)"
    "write_stmt (\<lambda>s. Inr ((), s\<lparr>db_users := update_where (\<lambda>v. usr_UID v = uid \<and> live_user v)
        (\<lambda>v. v\<lparr>usr_ProtocolData := Some (with_mongo u creds), usr_UpdatedAt := now\<rparr>) (db_users s)\<rparr>)) m = (Inr x, s2)"
    using RunInTx_Inr [OF assms(2) [unfolded persistUserMongoVerifier_def]] by (auto simp: and_then_Inr)
  have "accounts_inv m" using read_stmt_same [OF s(3) [unfolded lock_user_def]] s(1) assms(1) accounts_inv_same by blast
  moreover obtain m' where "same_tables m m'" "s2 = m'\<lparr>db_users := update_where (\<lambda>v. usr_UID v = uid \<and> live_user v)
        (\<lambda>v. v\<lparr>usr_ProtocolData := Some (with_mongo u creds), usr_UpdatedAt := now\<rparr>) (db_users m')\<rparr>"
    using write_stmt_Inr [OF s(4)] by auto
  ultimately show ?thesis using protocol_write_inv accounts_inv_same s(2) by blast
qed

lemma account_failed:
  "CreateUser n h rs uid now now' st = (Inl e, st') \<Longrightarrow> same_tables st st'"
  "UpdateUser uid upd now now' st = (Inl e, st') \<Longrightarrow> same_tables st st'"
  "CreateUserIdentity i uid now now' st = (Inl e, st') \<Longrightarrow> same_tables st st'"
  "DeleteUserIdentity uid now st = (Inl e, st') \<Longrightarrow> same_tables st st'"
  "DeleteUser uid now now' st = (Inl e, st') \<Longrightarrow> same_tables st st'"
  "persistUserMongoVerifier uid creds now st = (Inl e, st') \<Longrightarrow> same_tables st st'"
  unfolding CreateUser_def UpdateUser_def CreateUserIdentity_def DeleteUserIdentity_def DeleteUser_def persistUserMongoVerifier_def
  by (blast intro: write_stmt_Inl RunInTx_Inl)+

lemma create_user_any:
  assumes "accounts_inv st" and "CreateUser n h rs uid now now' st = (r, st')"
  shows "accounts_inv st'"
  using assms create_user_inv [of st n h rs uid now now' _ st'] account_failed(1) [of n h rs uid now now' st _ st'] accounts_inv_same
  by (cases r) blast+

lemma account_step_inv: "account_step st st' \<Longrightarrow> accounts_inv st \<Longrightarrow> accounts_inv st'"
proof (induction rule: account_step.induct)
  case (1 n h rs uid now now' st r st')
  then show ?case using create_user_any by blast
next
  case (2 uid upd now now' st r st')
  then show ?case using update_user_inv account_failed(2) accounts_inv_same by (cases r) blast+
next
  case (3 uid now now' st r st')
  then show ?case using delete_user_inv account_failed(5) accounts_inv_same by (cases r) blast+
next
  case (4 h uid now now' st r st')
  obtain r1 s1 where a: "read_stmt (\<lambda>s. Inr (length (filter live_user (db_users s)))) st = (r1, s1)" by fastforce
  have s1: "accounts_inv s1" using read_stmt_same [OF a] accounts_inv_same 4(2) by blast
  obtain r2 s2 where b: "CreateUser ''admin'' h [RoleAdmin, RoleConnector] uid now now' s1 = (r2, s2)" by fastforce
  have "accounts_inv s2" by (rule create_user_any [OF s1 b])
  then show ?case using 4(1) a b s1 by (auto simp: EnsureDefaultAdmin_def and_then_def split: sum.splits if_splits)
next
  case (5 i uid now now' st r st')
  then show ?case using create_identity_inv account_failed(3) accounts_inv_same by (cases r) blast+
next
  case (6 uid now st r st')
  then show ?case using delete_identity_inv account_failed(4) accounts_inv_same by (cases r) blast+
next
  case (7 u fresh now st r st')
  then show ?case using salts_finish_inv by blast
next
  case (8 uid creds now st r st')
  then show ?case using mongo_write_inv account_failed(6) accounts_inv_same by (cases r) blast+
qed

definition sample_accounts :: db where
  "sample_accounts = sample_log_db\<lparr>db_users := [\<lparr>usr_UID = 1, usr_Username = ''alice'', usr_PasswordHash = ''h'', usr_Roles = [RoleAdmin],
     usr_RateLimitExempt = False, usr_PasswordChangedAt = None, usr_CreatedAt = 0, usr_UpdatedAt = 0, usr_DeletedAt = None,
     usr_ProtocolData = Some \<lparr>upd_Oracle = None, upd_MongoDB = Some (Some \<lparr>ms_Salt = [1], ms_Iterations = 15000, ms_StoredKey = [1], ms_ServerKey = [1]\<rparr>)\<rparr>\<rparr>],
     db_identities := [\<lparr>ui_UID = 5, ui_UserID = 1, ui_Provider = ''slack'', ui_ProviderID = ''U1'', ui_Email = [], ui_DisplayName = [],
       ui_CreatedAt = 0, ui_UpdatedAt = 0, ui_DeletedAt = None\<rparr>]\<rparr>"

lemma sample_accounts_inv: "accounts_inv sample_accounts" "db_faults sample_accounts = []"
  by (simp_all add: accounts_inv_def sample_accounts_def sample_log_db_def live_names_def live_links_def user_exists_def user_roles_def
      live_user_def live_identity_def)

text \<open>The constraints of the schema hold along every run of account operations: a name names one live user, an
  external identity one live link of an existing user, and roles are those of the enumeration.\<close>

lemma account_run_inv: "account_step\<^sup>*\<^sup>* st st' \<Longrightarrow> accounts_inv st \<Longrightarrow> accounts_inv st'"
  by (induction rule: rtranclp_induct) (blast intro: account_step_inv)+

lemma get_name_found:
  assumes "fst (GetUserByUsername n st) = Inr u"
  shows "u \<in> set (db_users st)" "usr_Username u = n" "live_user u"
proof -
  obtain s where "same_tables st s" "find (\<lambda>u. usr_Username u = n \<and> live_user u) (db_users s) = Some u"
    using fst_read [OF assms [unfolded GetUserByUsername_def]] by (auto split: option.splits)
  then show "u \<in> set (db_users st)" "usr_Username u = n" "live_user u"
    using find_SomeD same_tables_select(1) by fastforce+
qed

text \<open>Deleting a user takes effect as a whole: the row and all links are marked deleted in one
  transaction, and from then on no lookup by identifier, name or external identity returns the
  user; a failed deletion changes nothing.\<close>

theorem deleted_user_unreachable:
  assumes "accounts_inv st"
  shows "case DeleteUser uid now now' st of
      (Inl e, st') \<Rightarrow> same_tables st st'
    | (Inr _, st') \<Rightarrow>
        isl (fst (GetUserByUID uid st'))
        \<and> (\<forall>n u. fst (GetUserByUsername n st') = Inr u \<longrightarrow> usr_UID u \<noteq> uid)
        \<and> (\<forall>p i u. fst (GetUserByIdentity p i st') = Inr u \<longrightarrow> usr_UID u \<noteq> uid)
        \<and> (\<forall>i\<in>set (db_identities st'). ui_UserID i = uid \<longrightarrow> ui_DeletedAt i \<noteq> None)"
proof (cases "DeleteUser uid now now' st")
  case (Pair r st')
  show ?thesis
  proof (cases r)
    case (Inl e)
    then show ?thesis using Pair account_failed(5) [of uid now now' st e st'] by simp
  next
    case (Inr x)
    obtain s1 s2 m y where s: "same_tables s2 st'" "delete_identities uid now s1 = (Inr y, m)" "delete_user_row uid now' m = (Inr x, s2)"
      using RunInTx_Inr [OF Pair [unfolded DeleteUser_def Inr]] by (auto simp: and_then_Inr)
    have i: "\<forall>i\<in>set (db_identities m). ui_UserID i = uid \<longrightarrow> ui_DeletedAt i \<noteq> None"
    proof -
      obtain m0 where "m = m0\<lparr>db_identities := update_where (\<lambda>i. ui_UserID i = uid \<and> ui_DeletedAt i = None)
          (\<lambda>i. i\<lparr>ui_DeletedAt := Some now\<rparr>) (db_identities m0)\<rparr>"
        using write_stmt_Inr [OF s(2) [unfolded delete_identities_def]] by auto
      then show ?thesis by (simp add: ball_update_where)
    qed
    obtain m0 where m0: "same_tables m m0" "s2 = m0\<lparr>db_users := update_where (\<lambda>u. usr_UID u = uid \<and> live_user u)
          (\<lambda>u. u\<lparr>usr_DeletedAt := Some now'\<rparr>) (db_users m0)\<rparr>"
      using write_stmt_Inr [OF s(3) [unfolded delete_user_row_def]] by (auto simp: Let_def split: if_splits)
    have u: "\<forall>u\<in>set (db_users s2). usr_UID u = uid \<longrightarrow> \<not> live_user u" and "db_identities s2 = db_identities m"
      using m0(2) same_tables_select(14) [OF m0(1)] by (simp_all add: ball_update_where live_user_def)
    then have users: "\<forall>u\<in>set (db_users st'). usr_UID u = uid \<longrightarrow> \<not> live_user u"
      and ids: "\<forall>i\<in>set (db_identities st'). ui_UserID i = uid \<longrightarrow> ui_DeletedAt i \<noteq> None"
      using i same_tables_select [OF s(1)] by simp_all
    have uidlook: "usr_UID v \<noteq> uid" if "fst (GetUserByUID w s) = Inr v" "same_tables st' s" for w s v
      using get_user_found [OF that(1)] users same_tables_select(1) [OF that(2)] by (auto simp: live_user_def)
    have byid: "isl (fst (GetUserByUID uid st'))"
      using get_user_found [of uid st'] users by (cases "fst (GetUserByUID uid st')") (auto simp: live_user_def)
    have byname: "usr_UID v \<noteq> uid" if "fst (GetUserByUsername n st') = Inr v" for n v
      using get_name_found [OF that] users by auto
    have byident: "usr_UID v \<noteq> uid" if found: "fst (GetUserByIdentity p i st') = Inr v" for p i v
    proof -
      obtain j s where "GetIdentityByProviderID p i st' = (Inr j, s)" "fst (GetUserByUID (ui_UserID j) s) = Inr v"
        using found by (auto simp: GetUserByIdentity_def and_then_def split: prod.splits sum.splits)
      then show ?thesis using uidlook read_stmt_same unfolding GetIdentityByProviderID_def by blast
    qed
    show ?thesis using Pair Inr byid byname byident ids by simp
  qed
qed

theorem deleted_user_unreachable_witness:
  "isl (fst (GetUserByUID 1 (snd (DeleteUser 1 5 6 sample_accounts))))"
proof -
  have "fst (DeleteUser 1 5 6 sample_accounts) = Inr ()"
    by (simp add: DeleteUser_def RunInTx_def sample_accounts_def sample_log_db_def delete_identities_def delete_user_row_def
        and_then_def write_stmt_def stmt_def live_user_def Let_def)
  then show ?thesis using deleted_user_unreachable [OF sample_accounts_inv(1), of 1 5 6] by (cases "DeleteUser 1 5 6 sample_accounts") simp
qed

section \<open>Protocol material under concurrency\<close>

lemma find_unique:
  assumes "distinct (map usr_UID us)" and "u \<in> set us" and "P u" and "\<And>v. P v \<Longrightarrow> usr_UID v = usr_UID u"
  shows "find P us = Some u"
  using assms(1,2)
proof (induction us)
  case (Cons v us)
  show ?case
  proof (cases "P v")
    case True
    then show ?thesis using Cons.prems assms(4) [OF True] by (auto simp: rev_image_eqI)
  next
    case False
    then have "u \<in> set us" using Cons.prems(2) assms(3) by auto
    then show ?thesis using Cons False by simp
  qed
qed simp

definition set_protocol :: "uuid \<Rightarrow> user_protocol_data \<Rightarrow> time \<Rightarrow> user \<Rightarrow> user" where
  "set_protocol uid d now v = (if usr_UID v = uid then v\<lparr>usr_ProtocolData := Some d, usr_UpdatedAt := now\<rparr> else v)"

lemma set_protocol_sel [simp]:
  "usr_UID (set_protocol uid d now v) = usr_UID v" "usr_DeletedAt (set_protocol uid d now v) = usr_DeletedAt v"
  "live_user (set_protocol uid d now v) = live_user v"
  by (simp_all add: set_protocol_def live_user_def)

lemma get_user_exact:
  assumes "distinct (map usr_UID (db_users st))" and "u \<in> set (db_users st)" and "live_user u" and "db_faults st = []"
  shows "GetUserByUID (usr_UID u) st = (Inr u, st)" and "lock_user (usr_UID u) st = (Inr u, st)"
proof -
  have "find (\<lambda>v. usr_UID v = usr_UID u \<and> usr_DeletedAt v = None) (db_users st) = Some u"
    "find (\<lambda>v. usr_UID v = usr_UID u \<and> live_user v) (db_users st) = Some u"
    using assms by (auto intro!: find_unique simp: live_user_def)
  then show "GetUserByUID (usr_UID u) st = (Inr u, st)" "lock_user (usr_UID u) st = (Inr u, st)"
    using assms(4) by (simp_all add: GetUserByUID_def lock_user_def read_stmt_def)
qed

lemma update_one_user:
  assumes "distinct (map usr_UID us)" and "u \<in> set us" and "P u" and "\<And>v. P v \<Longrightarrow> usr_UID v = usr_UID u"
  shows "update_where P (\<lambda>v. v\<lparr>usr_ProtocolData := Some d, usr_UpdatedAt := now\<rparr>) us = map (set_protocol (usr_UID u) d now) us"
    and "length (filter P us) = 1"
proof -
  have iff: "P v \<longleftrightarrow> usr_UID v = usr_UID u" if "v \<in> set us" for v
  proof
    assume "usr_UID v = usr_UID u"
    then have "v = u" by (rule distinct_map_eq [OF assms(1) that assms(2)])
    then show "P v" using assms(3) by simp
  qed (rule assms(4))
  then show "update_where P (\<lambda>v. v\<lparr>usr_ProtocolData := Some d, usr_UpdatedAt := now\<rparr>) us = map (set_protocol (usr_UID u) d now) us"
    unfolding update_where_def set_protocol_def by (intro map_cong) auto
  have "length (filter (\<lambda>v. usr_UID v = usr_UID u) us) = 1"
    using assms(1,2) by (induction us) (auto simp: filter_empty_conv rev_image_eqI)
  then show "length (filter P us) = 1" using iff filter_cong [of us us P "\<lambda>v. usr_UID v = usr_UID u"] by simp
qed

lemma persist_salts_exact:
  assumes "distinct (map usr_UID (db_users st))" and "u \<in> set (db_users st)" and "live_user u" and "OracleData u = None" and "db_faults st = []"
  shows "persist_salts (usr_UID u) d now st = (Inr 1, st\<lparr>db_users := map (set_protocol (usr_UID u) d now) (db_users st)\<rparr>)"
  using update_one_user [of "db_users st" u "\<lambda>v. usr_UID v = usr_UID u \<and> live_user v \<and> OracleData v = None"] assms
  by (simp add: persist_salts_def write_stmt_def Let_def)

lemma mongo_persist_exact:
  assumes "distinct (map usr_UID (db_users st))" and "u \<in> set (db_users st)" and "live_user u" and "db_faults st = []"
  shows "persistUserMongoVerifier (usr_UID u) creds now st =
    (Inr (), st\<lparr>db_users := map (set_protocol (usr_UID u) (with_mongo u creds) now) (db_users st)\<rparr>)"
  using update_one_user(1) [of "db_users st" u "\<lambda>v. usr_UID v = usr_UID u \<and> live_user v"] assms get_user_exact(2) [OF assms]
  by (simp add: persistUserMongoVerifier_def RunInTx_def and_then_def write_stmt_def Let_def)

lemma salts_finish_first:
  assumes "distinct (map usr_UID (db_users st))" and "u \<in> set (db_users st)" and "live_user u" and "OracleData u = None" and "db_faults st = []"
    and "usr_UID v = usr_UID u" and "salts_present v = None"
  shows "salts_finish v fresh now st =
    (Inr fresh, st\<lparr>db_users := map (set_protocol (usr_UID u) (salted_data v fresh) now) (db_users st)\<rparr>)"
  using persist_salts_exact [OF assms(1-5), of "salted_data v fresh" now] assms(6,7)
  by (simp add: salts_finish_def and_then_def)

text \<open>Two callers that both find a user without Oracle salts end up with the same salts, those
  of the first write, and these are the ones stored.\<close>

theorem oracle_salts_converge:
  assumes "accounts_inv st" and "db_faults st = []" and "u \<in> set (db_users st)" and "live_user u" and "OracleData u = None"
  shows "GetUserByUID (usr_UID u) st = (Inr u, st)
    \<and> fst (salts_finish u a now st) = Inr a
    \<and> fst (salts_finish u b now' (snd (salts_finish u a now st))) = Inr a
    \<and> (\<exists>v. fst (GetUserByUID (usr_UID u) (snd (salts_finish u b now' (snd (salts_finish u a now st))))) = Inr v \<and> OracleData v = Some a)"
proof -
  let ?d = "salted_data u a"
  define st1 where "st1 = snd (salts_finish u a now st)"
  let ?u1 = "set_protocol (usr_UID u) ?d now u"
  have d: "distinct (map usr_UID (db_users st))" using assms(1) by (simp add: accounts_inv_def)
  have none: "salts_present u = None" using assms(5) by (simp add: salts_present_def)
  have f1: "salts_finish u a now st = (Inr a, st\<lparr>db_users := map (set_protocol (usr_UID u) ?d now) (db_users st)\<rparr>)"
    by (rule salts_finish_first [OF d assms(3-5) assms(2) refl none])
  then have st1: "st1 = st\<lparr>db_users := map (set_protocol (usr_UID u) ?d now) (db_users st)\<rparr>" by (simp add: st1_def)
  have d1: "distinct (map usr_UID (db_users st1))" and u1: "?u1 \<in> set (db_users st1)" and nf: "db_faults st1 = []"
    using d assms(2,3) by (simp_all add: st1 comp_def)
  have o1: "OracleData ?u1 = Some a" by (simp add: OracleData_def set_protocol_def salted_data_def)
  have "filter (\<lambda>v. usr_UID v = usr_UID u \<and> live_user v \<and> OracleData v = None) (db_users st1) = []"
  proof -
    have "OracleData v \<noteq> None" if "v \<in> set (db_users st1)" "usr_UID v = usr_UID u" for v
      using distinct_map_eq [OF d1 that(1) u1] that(2) o1 by simp
    then show ?thesis by (auto simp: filter_empty_conv)
  qed
  then have p2: "persist_salts (usr_UID u) (salted_data u b) now' st1 = (Inr 0, st1)"
    using nf by (simp add: persist_salts_def write_stmt_def Let_def update_where_none)
  have g1: "GetUserByUID (usr_UID u) st1 = (Inr ?u1, st1)" using get_user_exact(1) [OF d1 u1] assms(4) nf by simp
  have f2: "salts_finish u b now' st1 = (Inr a, st1)" using p2 g1 none o1 by (simp add: salts_finish_def and_then_def)
  show ?thesis using get_user_exact(1) [OF d assms(3,4,2)] f1 f2 g1 o1 unfolding st1_def [symmetric] by simp
qed

theorem oracle_salts_converge_witness:
  "fst (salts_finish (hd (db_users sample_accounts)) \<lparr>od_Salt6949 = [2], od_Salt18453 = [2]\<rparr> 9
      (snd (salts_finish (hd (db_users sample_accounts)) \<lparr>od_Salt6949 = [1], od_Salt18453 = [1]\<rparr> 8 sample_accounts)))
    = Inr \<lparr>od_Salt6949 = [1], od_Salt18453 = [1]\<rparr>"
  using oracle_salts_converge [OF sample_accounts_inv, of "hd (db_users sample_accounts)" "\<lparr>od_Salt6949 = [1], od_Salt18453 = [1]\<rparr>" 8
      "\<lparr>od_Salt6949 = [2], od_Salt18453 = [2]\<rparr>" 9]
  by (simp add: sample_accounts_def OracleData_def live_user_def)

text \<open>The Oracle writer takes no lock and writes the whole column back from what it read: when a
  new MongoDB verifier is stored between its read and its write, the old verifier returns, so
  the password it was derived from is accepted again.\<close>

theorem mongo_verifier_reverted:
  assumes "accounts_inv st" and "db_faults st = []" and "u \<in> set (db_users st)" and "live_user u"
    and "OracleData u = None" and "MongoSCRAMCredentials u = Some old"
  shows "GetUserByUID (usr_UID u) st = (Inr u, st)
    \<and> fst (persistUserMongoVerifier (usr_UID u) new now st) = Inr ()
    \<and> (\<exists>v. fst (GetUserByUID (usr_UID u) (snd (persistUserMongoVerifier (usr_UID u) new now st))) = Inr v \<and> MongoSCRAMCredentials v = Some new)
    \<and> fst (salts_finish u fresh now' (snd (persistUserMongoVerifier (usr_UID u) new now st))) = Inr fresh
    \<and> (\<exists>v. fst (GetUserByUID (usr_UID u) (snd (salts_finish u fresh now' (snd (persistUserMongoVerifier (usr_UID u) new now st))))) = Inr v \<and> MongoSCRAMCredentials v = Some old)"
proof -
  define st1 where "st1 = snd (persistUserMongoVerifier (usr_UID u) new now st)"
  let ?d = "with_mongo u new" and ?d2 = "salted_data u fresh"
  let ?u1 = "set_protocol (usr_UID u) ?d now u"
  let ?u2 = "set_protocol (usr_UID u) ?d2 now' ?u1"
  have d: "distinct (map usr_UID (db_users st))" using assms(1) by (simp add: accounts_inv_def)
  have m: "persistUserMongoVerifier (usr_UID u) new now st = (Inr (), st\<lparr>db_users := map (set_protocol (usr_UID u) ?d now) (db_users st)\<rparr>)"
    by (rule mongo_persist_exact [OF d assms(3,4,2)])
  then have st1: "st1 = st\<lparr>db_users := map (set_protocol (usr_UID u) ?d now) (db_users st)\<rparr>" by (simp add: st1_def)
  have d1: "distinct (map usr_UID (db_users st1))" and u1: "?u1 \<in> set (db_users st1)" and nf: "db_faults st1 = []" and l1: "live_user ?u1"
    using d assms(2,3,4) by (simp_all add: st1 comp_def)
  have o1: "OracleData ?u1 = None"
    using assms(5) by (auto simp: OracleData_def set_protocol_def with_mongo_def empty_protocol_data_def split: option.splits)
  have s: "salts_finish u fresh now' st1 = (Inr fresh, st1\<lparr>db_users := map (set_protocol (usr_UID ?u1) ?d2 now') (db_users st1)\<rparr>)"
    using salts_finish_first [OF d1 u1 l1 o1 nf, of u fresh now'] assms(5) by (simp add: salts_present_def)
  let ?st2 = "st1\<lparr>db_users := map (set_protocol (usr_UID ?u1) ?d2 now') (db_users st1)\<rparr>"
  have d2: "distinct (map usr_UID (db_users ?st2))" and u2: "?u2 \<in> set (db_users ?st2)"
    using d1 u1 by (simp_all add: comp_def)
  have g1: "GetUserByUID (usr_UID ?u1) st1 = (Inr ?u1, st1)" by (rule get_user_exact(1) [OF d1 u1 l1 nf])
  have g2: "GetUserByUID (usr_UID ?u2) ?st2 = (Inr ?u2, ?st2)" using get_user_exact(1) [OF d2 u2] l1 nf by simp
  have "MongoSCRAMCredentials ?u1 = Some new" by (simp add: MongoSCRAMCredentials_def MongoData_def set_protocol_def with_mongo_def)
  moreover have "MongoSCRAMCredentials ?u2 = Some old"
    using assms(6) by (auto simp: MongoSCRAMCredentials_def MongoData_def set_protocol_def salted_data_def split: option.splits)
  ultimately show ?thesis using get_user_exact(1) [OF d assms(3,4,2)] m s g1 g2 unfolding st1_def [symmetric] by simp
qed

theorem mongo_verifier_reverted_witness:
  "\<exists>v. fst (GetUserByUID 1 (snd (salts_finish (hd (db_users sample_accounts)) \<lparr>od_Salt6949 = [2], od_Salt18453 = [2]\<rparr> 9
      (snd (persistUserMongoVerifier 1 \<lparr>ms_Salt = [7], ms_Iterations = 15000, ms_StoredKey = [7], ms_ServerKey = [7]\<rparr> 8 sample_accounts))))) = Inr v
    \<and> MongoSCRAMCredentials v = Some \<lparr>ms_Salt = [1], ms_Iterations = 15000, ms_StoredKey = [1], ms_ServerKey = [1]\<rparr>"
  using mongo_verifier_reverted [OF sample_accounts_inv, where u = "hd (db_users sample_accounts)"
      and old = "\<lparr>ms_Salt = [1], ms_Iterations = 15000, ms_StoredKey = [1], ms_ServerKey = [1]\<rparr>"
      and new = "\<lparr>ms_Salt = [7], ms_Iterations = 15000, ms_StoredKey = [7], ms_ServerKey = [7]\<rparr>" and now = 8
      and fresh = "\<lparr>od_Salt6949 = [2], od_Salt18453 = [2]\<rparr>" and now' = 9]
  by (simp add: sample_accounts_def OracleData_def live_user_def MongoSCRAMCredentials_def MongoData_def)

end
