(* ===== verification/Crypto.thy ===== *)
theory Crypto
  imports Go_Encoding
begin

text \<open>
  \<open>internal/crypto\<close>: authenticated encryption at rest, Argon2id password hashes and the Oracle
  O5LOGON verifiers. The primitives themselves (AES-GCM, Argon2id, SHA-1, SHA-512, HMAC) are the
  fields of the parameter record \<open>prims\<close>; random bytes are arguments. What the package relies on
  is stated as the predicates \<open>seal_inverts\<close> and \<open>argon2_sized\<close>.
\<close>

record prims =
  gcm_Seal :: "bytes \<Rightarrow> bytes \<Rightarrow> bytes \<Rightarrow> bytes \<Rightarrow> bytes"
  gcm_Open :: "bytes \<Rightarrow> bytes \<Rightarrow> bytes \<Rightarrow> bytes \<Rightarrow> bytes option"
  argon2_IDKey :: "bytes \<Rightarrow> bytes \<Rightarrow> u32 \<Rightarrow> u32 \<Rightarrow> byte \<Rightarrow> nat \<Rightarrow> bytes"
  sha1_Sum :: "bytes \<Rightarrow> bytes"
  sha512_Sum :: "bytes \<Rightarrow> bytes"
  hmac_sha512 :: "bytes \<Rightarrow> bytes \<Rightarrow> bytes"

datatype crypto_error =
    ErrInvalidKeySize nat
  | ErrCiphertextTooShort
  | ErrDecrypt
  | ErrInvalidHashFormat
  | ErrUnsupportedHashAlgo
  | ErrParseVersion
  | ErrParseParameters
  | ErrDecodeSalt
  | ErrDecodeHash

section \<open>Encryption\<close>

definition gcm_NonceSize :: nat where "gcm_NonceSize = 12"

text \<open>\<open>gcm_Seal key nonce plaintext aad\<close> is the sealed text alone; \<open>Encrypt\<close> puts the nonce in front.\<close>

definition Encrypt :: "prims \<Rightarrow> bytes \<Rightarrow> bytes \<Rightarrow> bytes \<Rightarrow> bytes \<Rightarrow> crypto_error + bytes" where
  "Encrypt X nonce plaintext key aad =
     (if length key \<noteq> 32 then Inl (ErrInvalidKeySize (length key)) else Inr (nonce @ gcm_Seal X key nonce plaintext aad))"

definition Decrypt :: "prims \<Rightarrow> bytes \<Rightarrow> bytes \<Rightarrow> bytes \<Rightarrow> crypto_error + bytes" where
  "Decrypt X ciphertext key aad =
     (if length key \<noteq> 32 then Inl (ErrInvalidKeySize (length key))
      else if length ciphertext < gcm_NonceSize then Inl ErrCiphertextTooShort
      else case gcm_Open X key (take gcm_NonceSize ciphertext) (drop gcm_NonceSize ciphertext) aad of
        None \<Rightarrow> Inl ErrDecrypt | Some plaintext \<Rightarrow> Inr plaintext)"

definition ServerAAD :: "string \<Rightarrow> bytes" where "ServerAAD databaseUID = bytes_of (''database:'' @ databaseUID)"
definition APIKeyAAD :: "string \<Rightarrow> bytes" where "APIKeyAAD keyPrefix = bytes_of (''apikey:'' @ keyPrefix)"
definition UserAAD :: "string \<Rightarrow> bytes" where "UserAAD userUID = bytes_of (''user:'' @ userUID)"
definition DeviceAuthAAD :: "string \<Rightarrow> bytes" where "DeviceAuthAAD requestUID = bytes_of (''deviceauth:'' @ requestUID)"

section \<open>Password hashes\<close>

definition DefaultArgon2Time :: u32 where "DefaultArgon2Time = 1"
definition DefaultArgon2Memory :: u32 where "DefaultArgon2Memory = 8 * 1024"
definition DefaultArgon2Threads :: byte where "DefaultArgon2Threads = 4"
definition argon2KeyLen :: nat where "argon2KeyLen = 32"
definition saltLength :: nat where "saltLength = 16"
definition argon2_Version :: nat where "argon2_Version = 19"

record hash_params =
  hp_MemoryKB :: u32
  hp_Time :: u32
  hp_Threads :: byte

definition DefaultHashParams :: hash_params where
  "DefaultHashParams = \<lparr>hp_MemoryKB = DefaultArgon2Memory, hp_Time = DefaultArgon2Time, hp_Threads = DefaultArgon2Threads\<rparr>"

definition HashPasswordWithParams :: "prims \<Rightarrow> bytes \<Rightarrow> string \<Rightarrow> hash_params \<Rightarrow> string" where
  "HashPasswordWithParams X salt password params =
     (let hash = argon2_IDKey X (bytes_of password) salt (hp_Time params) (hp_MemoryKB params) (hp_Threads params) argon2KeyLen
      in ''$argon2id$v='' @ digits argon2_Version @ ''$m='' @ digits (unat (hp_MemoryKB params)) @ '',t='' @
         digits (unat (hp_Time params)) @ '',p='' @ digits (unat (hp_Threads params)) @ ''$'' @ raw_encode salt @ ''$'' @ raw_encode hash)"

definition HashPassword :: "prims \<Rightarrow> bytes \<Rightarrow> string \<Rightarrow> string" where
  "HashPassword X salt password = HashPasswordWithParams X salt password DefaultHashParams"

text \<open>\<open>fmt.Sscanf\<close> with \<open>%d\<close>: blanks are skipped, at least one digit is read, a sign is read for a
  signed operand, and a number beyond the operand's range is an error. Literal text must match;
  what follows the last directive is left unread.\<close>

definition is_digit :: "char \<Rightarrow> bool" where
  "is_digit c \<longleftrightarrow> 48 \<le> (of_char c :: nat) \<and> (of_char c :: nat) \<le> 57"

definition skip_blanks :: "string \<Rightarrow> string" where
  "skip_blanks s = dropWhile (\<lambda>c. of_char c = (32 :: nat) \<or> of_char c = (9 :: nat)) s"

definition scan_digits :: "nat \<Rightarrow> string \<Rightarrow> (nat \<times> string) option" where
  "scan_digits bound s =
     (let ds = takeWhile is_digit s in
      if ds = [] \<or> bound \<le> dec_val ds then None else Some (dec_val ds, dropWhile is_digit s))"

definition scan_uint :: "nat \<Rightarrow> string \<Rightarrow> (nat \<times> string) option" where
  "scan_uint bound s = scan_digits bound (skip_blanks s)"

definition scan_int :: "string \<Rightarrow> (int \<times> string) option" where
  "scan_int s =
     (let t = skip_blanks s in
      case t of
        c # r \<Rightarrow> (if c = CHR ''-'' then map_option (\<lambda>(n, u). (- int n, u)) (scan_digits (2 ^ 63 + 1) r)
                  else if c = CHR ''+'' then map_option (\<lambda>(n, u). (int n, u)) (scan_digits (2 ^ 63) r)
                  else map_option (\<lambda>(n, u). (int n, u)) (scan_digits (2 ^ 63) t))
      | [] \<Rightarrow> None)"

definition scan_lit :: "string \<Rightarrow> string \<Rightarrow> string option" where
  "scan_lit l s = (if take (length l) s = l then Some (drop (length l) s) else None)"

definition scan_version :: "string \<Rightarrow> int option" where
  "scan_version s = (case scan_lit ''v='' s of None \<Rightarrow> None | Some r \<Rightarrow> map_option fst (scan_int r))"

definition scan_params :: "string \<Rightarrow> (u32 \<times> u32 \<times> byte) option" where
  "scan_params s =
     (case scan_lit ''m='' s of None \<Rightarrow> None | Some r1 \<Rightarrow>
      (case scan_uint (2 ^ 32) r1 of None \<Rightarrow> None | Some (m, r2) \<Rightarrow>
      (case scan_lit '',t='' r2 of None \<Rightarrow> None | Some r3 \<Rightarrow>
      (case scan_uint (2 ^ 32) r3 of None \<Rightarrow> None | Some (t, r4) \<Rightarrow>
      (case scan_lit '',p='' r4 of None \<Rightarrow> None | Some r5 \<Rightarrow>
      (case scan_uint (2 ^ 8) r5 of None \<Rightarrow> None | Some (p, _) \<Rightarrow> Some (of_nat m, of_nat t, of_nat p)))))))"

definition VerifyPassword :: "prims \<Rightarrow> string \<Rightarrow> string \<Rightarrow> crypto_error + bool" where
  "VerifyPassword X encodedHash password =
     (let parts = Split encodedHash (CHR ''$'') in
      if length parts \<noteq> 6 then Inl ErrInvalidHashFormat
      else if parts ! 1 \<noteq> ''argon2id'' then Inl ErrUnsupportedHashAlgo
      else if scan_version (parts ! 2) = None then Inl ErrParseVersion
      else case scan_params (parts ! 3) of
        None \<Rightarrow> Inl ErrParseParameters
      | Some (memory, time, threads) \<Rightarrow>
          (case raw_decode (parts ! 4) of
             None \<Rightarrow> Inl ErrDecodeSalt
           | Some salt \<Rightarrow>
               (case raw_decode (parts ! 5) of
                  None \<Rightarrow> Inl ErrDecodeHash
                | Some expectedHash \<Rightarrow>
                    Inr (argon2_IDKey X (bytes_of password) salt time memory threads (length expectedHash) = expectedHash))))"

section \<open>O5LOGON verifiers\<close>

definition O5LogonSaltLength :: nat where "O5LogonSaltLength = 10"
definition O5LogonVerifierKeyLength :: nat where "O5LogonVerifierKeyLength = 24"
definition O5LogonPbkdf2SaltLength :: nat where "O5LogonPbkdf2SaltLength = 16"
definition O5LogonVerifier18453KeyLength :: nat where "O5LogonVerifier18453KeyLength = 32"
definition O5LogonPbkdf2VgenCount :: nat where "O5LogonPbkdf2VgenCount = 4096"

primrec speedy_rounds :: "prims \<Rightarrow> bytes \<Rightarrow> nat \<Rightarrow> bytes \<Rightarrow> bytes \<Rightarrow> bytes" where
  "speedy_rounds X key 0 tempHash firstHash = firstHash"
| "speedy_rounds X key (Suc n) tempHash firstHash =
     (let t = hmac_sha512 X key tempHash in speedy_rounds X key n t (map2 xor firstHash t))"

definition pbkdf2SpeedyKey :: "prims \<Rightarrow> bytes \<Rightarrow> bytes \<Rightarrow> nat \<Rightarrow> bytes" where
  "pbkdf2SpeedyKey X buffer key turns =
     (let firstHash = hmac_sha512 X key (buffer @ [0, 0, 0, 1]) in speedy_rounds X key (turns - 1) firstHash firstHash)"

definition DeriveO5LogonVerifier18453Key :: "prims \<Rightarrow> string \<Rightarrow> bytes \<Rightarrow> bytes" where
  "DeriveO5LogonVerifier18453Key X password salt =
     (let message = salt @ bytes_of ''AUTH_PBKDF2_SPEEDY_KEY'';
          speedyKey = pbkdf2SpeedyKey X message (bytes_of password) O5LogonPbkdf2VgenCount
      in take O5LogonVerifier18453KeyLength (sha512_Sum X (speedyKey @ salt)))"

definition DeriveO5LogonVerifierKey :: "prims \<Rightarrow> string \<Rightarrow> bytes \<Rightarrow> bytes" where
  "DeriveO5LogonVerifierKey X password salt =
     (let hash = sha1_Sum X (bytes_of password @ salt) in
      take O5LogonVerifierKeyLength (hash @ replicate (O5LogonVerifierKeyLength - length hash) 0))"

text \<open>Fresh salts: the random bytes and the verifier derived from them.\<close>

definition GenerateO5LogonVerifier18453 :: "prims \<Rightarrow> bytes \<Rightarrow> string \<Rightarrow> bytes \<times> bytes" where
  "GenerateO5LogonVerifier18453 X salt password = (salt, DeriveO5LogonVerifier18453Key X password salt)"

definition GenerateO5LogonVerifier :: "prims \<Rightarrow> bytes \<Rightarrow> string \<Rightarrow> bytes \<times> bytes" where
  "GenerateO5LogonVerifier X salt password = (salt, DeriveO5LogonVerifierKey X password salt)"

section \<open>Encryption is inverted by decryption, under the same context only\<close>

definition seal_inverts :: "prims \<Rightarrow> bool" where
  "seal_inverts X \<longleftrightarrow> (\<forall>key nonce plaintext aad. length nonce = gcm_NonceSize \<longrightarrow> length key = 32 \<longrightarrow>
      gcm_Open X key nonce (gcm_Seal X key nonce plaintext aad) aad = Some plaintext)"

lemma decrypt_encrypt:
  "seal_inverts X \<Longrightarrow> length nonce = gcm_NonceSize \<Longrightarrow> Encrypt X nonce plaintext key aad = Inr c \<Longrightarrow>
     Decrypt X c key aad = Inr plaintext"
  by (auto simp: Encrypt_def Decrypt_def seal_inverts_def split: if_splits)

lemma bytes_of_inj: "bytes_of s = bytes_of t \<longleftrightarrow> s = t"
  by (metis str_of_bytes_of)

text \<open>The contexts of the four kinds of secrets never coincide, and within a kind they determine
  the row: a ciphertext is bound to one row of one table.\<close>

datatype secret_of = ServerSecret string | APIKeySecret string | UserSecret string | DeviceSecret string

fun secret_AAD :: "secret_of \<Rightarrow> bytes" where
  "secret_AAD (ServerSecret u) = ServerAAD u"
| "secret_AAD (APIKeySecret p) = APIKeyAAD p"
| "secret_AAD (UserSecret u) = UserAAD u"
| "secret_AAD (DeviceSecret u) = DeviceAuthAAD u"

lemma secret_AAD_inj: "secret_AAD a = secret_AAD b \<longleftrightarrow> a = b"
  by (cases a; cases b) (simp_all add: ServerAAD_def APIKeyAAD_def UserAAD_def DeviceAuthAAD_def bytes_of_inj)

section \<open>Hashes verify\<close>

lemma Split_single: "d \<notin> set p \<Longrightarrow> Split p d = [p]"
  by (induction p) auto

lemma Split_append: "d \<notin> set p \<Longrightarrow> Split (p @ d # s) d = p # Split s d"
  by (induction p) auto

lemma digits_are_digits: "c \<in> set (digits n) \<Longrightarrow> is_digit c"
proof (induction n rule: digits.induct)
  case (1 n)
  have low: "(48 + n mod 10) mod 256 = 48 + n mod 10" by simp
  show ?case
  proof (cases "n < 10")
    case True
    then show ?thesis using 1(2) by (subst (asm) digits.simps) (auto simp: is_digit_def)
  next
    case False
    then have "c \<in> set (digits (n div 10)) \<or> c = char_of (48 + n mod 10)" using 1(2) by (subst (asm) digits.simps) auto
    then show ?thesis using 1(1) [OF False] low by (auto simp: is_digit_def)
  qed
qed

lemma digits_nonempty: "digits n \<noteq> []"
  by (subst digits.simps) simp

lemma not_digit: "\<not> is_digit (CHR ''$'')" "\<not> is_digit (CHR '','')" "\<not> is_digit (CHR ''-'')" "\<not> is_digit (CHR ''+'')"
  by (simp_all add: is_digit_def)

lemma skip_blanks_digits: "skip_blanks (digits n @ r) = digits n @ r"
proof -
  obtain c cs where c: "digits n = c # cs" using digits_nonempty by (cases "digits n") auto
  have "is_digit c" using digits_are_digits [of c n] c by simp
  then show ?thesis unfolding c skip_blanks_def by (auto simp: is_digit_def)
qed

lemma scan_digits_digits:
  assumes "n < bound" and "r = [] \<or> \<not> is_digit (hd r)"
  shows "scan_digits bound (digits n @ r) = Some (n, r)"
proof -
  have "takeWhile is_digit r = []" "dropWhile is_digit r = r" using assms(2) by (cases r; simp)+
  then show ?thesis using assms(1) digits_are_digits [of _ n] digits_nonempty [of n]
    by (simp add: scan_digits_def takeWhile_append2 dropWhile_append2)
qed

lemma scan_uint_digits: "n < bound \<Longrightarrow> r = [] \<or> \<not> is_digit (hd r) \<Longrightarrow> scan_uint bound (digits n @ r) = Some (n, r)"
  by (simp add: scan_uint_def skip_blanks_digits scan_digits_digits)

lemma scan_version_printed: "scan_version (''v='' @ digits 19) \<noteq> None"
proof -
  have "digits 19 = ''19''" by (simp add: digits.simps char_of_eq_iff)
  then show ?thesis by (simp add: scan_version_def scan_lit_def scan_int_def skip_blanks_def scan_digits_def is_digit_def dec_val_def)
qed

lemma scan_params_printed:
  "scan_params (''m='' @ digits (unat m) @ '',t='' @ digits (unat t) @ '',p='' @ digits (unat p)) = Some (m, t, p)"
proof -
  have b: "unat m < 2 ^ 32" "unat t < 2 ^ 32" "unat p < 2 ^ 8"
    using unsigned_less [of m, where 'a = nat] unsigned_less [of t, where 'a = nat] unsigned_less [of p, where 'a = nat] by simp_all
  have "scan_uint (2 ^ 8) (digits (unat p)) = Some (unat p, [])" using scan_uint_digits [OF b(3), of "[]"] by simp
  then show ?thesis using scan_uint_digits [OF b(1)] scan_uint_digits [OF b(2)] not_digit
    by (simp add: scan_params_def scan_lit_def)
qed

lemma no_dollar: "CHR ''$'' \<notin> set (digits n)" "CHR ''$'' \<notin> set (raw_encode bs)"
proof -
  show "CHR ''$'' \<notin> set (digits n)" using digits_are_digits not_digit(1) by blast
  show "CHR ''$'' \<notin> set (raw_encode bs)"
  proof
    assume "CHR ''$'' \<in> set (raw_encode bs)"
    then obtain n where "n < 64" "CHR ''$'' = b64_char n" using raw_encode_chars by blast
    moreover have "(of_char (CHR ''$'') :: nat) = 36" by simp
    ultimately show False using b64_char_of_char [OF \<open>n < 64\<close>] by (auto split: if_splits)
  qed
qed

lemma Split_six:
  assumes "d \<notin> set a" "d \<notin> set b" "d \<notin> set c" "d \<notin> set e" "d \<notin> set f" "d \<notin> set g"
  shows "Split (a @ d # b @ d # c @ d # e @ d # f @ d # g) d = [a, b, c, e, f, g]"
  using assms by (simp add: Split_append Split_single)

definition argon2_sized :: "prims \<Rightarrow> bool" where
  "argon2_sized X \<longleftrightarrow> (\<forall>p s t m th n. length (argon2_IDKey X p s t m th n) = n)"

lemma verify_hash:
  assumes "argon2_sized X"
  shows "VerifyPassword X (HashPasswordWithParams X salt password params) password' =
     Inr (argon2_IDKey X (bytes_of password') salt (hp_Time params) (hp_MemoryKB params) (hp_Threads params) argon2KeyLen
        = argon2_IDKey X (bytes_of password) salt (hp_Time params) (hp_MemoryKB params) (hp_Threads params) argon2KeyLen)"
proof -
  let ?hash = "argon2_IDKey X (bytes_of password) salt (hp_Time params) (hp_MemoryKB params) (hp_Threads params) argon2KeyLen"
  let ?v = "''v='' @ digits 19"
  let ?params = "''m='' @ digits (unat (hp_MemoryKB params)) @ '',t='' @ digits (unat (hp_Time params)) @ '',p='' @ digits (unat (hp_Threads params))"
  have layout: "HashPasswordWithParams X salt password params =
      [] @ CHR ''$'' # ''argon2id'' @ CHR ''$'' # ?v @ CHR ''$'' # ?params @ CHR ''$'' # raw_encode salt @ CHR ''$'' # raw_encode ?hash"
    by (simp add: HashPasswordWithParams_def Let_def argon2_Version_def)
  have "Split (HashPasswordWithParams X salt password params) (CHR ''$'') = [[], ''argon2id'', ?v, ?params, raw_encode salt, raw_encode ?hash]"
    unfolding layout using no_dollar by (intro Split_six) auto
  then show ?thesis using assms scan_version_printed scan_params_printed [of "hp_MemoryKB params" "hp_Time params" "hp_Threads params"]
    by (simp add: VerifyPassword_def Let_def argon2_sized_def)
qed

text \<open>A small instance of the primitives: sealing appends key and context to the text, hashing
  repeats the first byte of the password.\<close>

definition sample_prims :: prims where
  "sample_prims = \<lparr>gcm_Seal = (\<lambda>k n p a. p @ k @ a),
     gcm_Open = (\<lambda>k n c a. let m = length c - (length k + length a)
        in if length k + length a \<le> length c \<and> drop m c = k @ a then Some (take m c) else None),
     argon2_IDKey = (\<lambda>p s t m th n. replicate n (case p of [] \<Rightarrow> 0 | b # _ \<Rightarrow> b)),
     sha1_Sum = (\<lambda>b. replicate 20 0), sha512_Sum = (\<lambda>b. replicate 64 0), hmac_sha512 = (\<lambda>k m. replicate 64 0)\<rparr>"

lemma sample_prims_ok: "seal_inverts sample_prims" "argon2_sized sample_prims"
  by (simp_all add: sample_prims_def seal_inverts_def argon2_sized_def Let_def)

text \<open>A stored hash verifies exactly the passwords that Argon2id maps to the same key under its
  salt and parameters: the password that was hashed always verifies, and the text of the hash
  is parsed back to the parameters it was made with, whatever they are.\<close>

theorem password_hash_exact:
  assumes "argon2_sized X"
  shows "VerifyPassword X (HashPasswordWithParams X salt password params) password = Inr True
    \<and> VerifyPassword X (HashPasswordWithParams X salt password params) password' =
     Inr (argon2_IDKey X (bytes_of password') salt (hp_Time params) (hp_MemoryKB params) (hp_Threads params) argon2KeyLen
        = argon2_IDKey X (bytes_of password) salt (hp_Time params) (hp_MemoryKB params) (hp_Threads params) argon2KeyLen)"
  using verify_hash [OF assms] by simp

theorem password_hash_exact_witness:
  "VerifyPassword sample_prims (HashPasswordWithParams sample_prims [1, 2] ''pw'' DefaultHashParams) ''pw'' = Inr True
   \<and> VerifyPassword sample_prims (HashPasswordWithParams sample_prims [1, 2] ''pw'' DefaultHashParams) ''other'' = Inr False"
  using password_hash_exact [OF sample_prims_ok(2), of "[1, 2]" "''pw''" DefaultHashParams "''other''"]
  by (simp add: sample_prims_def argon2KeyLen_def bytes_of_def DefaultHashParams_def)

text \<open>A secret comes back under the key and the row it was encrypted for, and the contexts of
  different rows or kinds of rows are different byte strings.\<close>

theorem secret_roundtrip:
  assumes "seal_inverts X" and "length nonce = gcm_NonceSize"
  shows "(case Encrypt X nonce plaintext key (secret_AAD s) of
      Inl e \<Rightarrow> e = ErrInvalidKeySize (length key) \<and> length key \<noteq> 32
    | Inr c \<Rightarrow> Decrypt X c key (secret_AAD s) = Inr plaintext \<and> take gcm_NonceSize c = nonce)
    \<and> (secret_AAD s = secret_AAD s' \<longleftrightarrow> s = s')"
  using assms decrypt_encrypt [OF assms, of plaintext key "secret_AAD s"]
  by (auto simp: secret_AAD_inj Encrypt_def)

theorem secret_roundtrip_witness:
  "Decrypt sample_prims (projr (Encrypt sample_prims (replicate 12 7) [1, 2, 3] (replicate 32 9) (UserAAD ''u''))) (replicate 32 9) (UserAAD ''u'')
     = Inr [1, 2, 3]
   \<and> UserAAD ''u'' \<noteq> APIKeyAAD ''u''"
  using secret_roundtrip [OF sample_prims_ok(1), where nonce = "replicate 12 7" and plaintext = "[1, 2, 3]"
      and key = "replicate 32 9" and s = "UserSecret ''u''" and s' = "APIKeySecret ''u''"]
  by (simp add: gcm_NonceSize_def Encrypt_def)

end
