(* ===== verification/Auth_Cache.thy ===== *)
theory Auth_Cache
  imports Prelude
begin

text \<open>
  \<open>internal/cache/auth.go\<close>: the cache of password and key verification results. SHA-256 with
  its hexadecimal encoding is the parameter \<open>H\<close> and \<open>crypto.VerifyPassword\<close> (Argon2id)
  the parameter \<open>V\<close>, an error or a verdict. Go iterates over a map in an arbitrary order,
  so the eviction takes the order as an argument. Every operation holds the lock for its
  accesses to the map, so an execution is a sequence of operations.
\<close>

record cache_entry =
  ce_valid :: bool
  ce_timestamp :: time

record auth_cache =
  ac_entries :: "string \<rightharpoonup> cache_entry"
  ac_ttl :: duration
  ac_maxSize :: int
  ac_enabled :: bool
  ac_hits :: int
  ac_misses :: int

definition NewAuthCache :: "bool \<Rightarrow> int \<Rightarrow> int \<Rightarrow> auth_cache" where
  "NewAuthCache enabled ttlSeconds maxSize =
     \<lparr>ac_entries = Map.empty, ac_ttl = wrap_i64 (seconds ttlSeconds), ac_maxSize = maxSize,
      ac_enabled = enabled, ac_hits = 0, ac_misses = 0\<rparr>"

section \<open>Keys\<close>

definition computeKey :: "(string \<Rightarrow> string) \<Rightarrow> string \<Rightarrow> string \<Rightarrow> string \<Rightarrow> string" where
  "computeKey H userID password storedHash =
     (let hashPrefix = (if length storedHash > 32 then take 32 storedHash else storedHash)
      in H (userID @ '':'' @ password @ '':'' @ hashPrefix))"

definition computeKeyHash :: "(string \<Rightarrow> string) \<Rightarrow> string \<Rightarrow> string" where
  "computeKeyHash H plainKey = H plainKey"

section \<open>Eviction\<close>

fun oldest_key ::
  "(string \<rightharpoonup> cache_entry) \<Rightarrow> string list \<Rightarrow> string \<Rightarrow> time \<Rightarrow> string" where
  "oldest_key m [] oldestKey oldestTime = oldestKey"
| "oldest_key m (key # ks) oldestKey oldestTime =
     (case m key of
        None \<Rightarrow> oldest_key m ks oldestKey oldestTime
      | Some entry \<Rightarrow>
          if oldestKey = '''' \<or> ce_timestamp entry < oldestTime
          then oldest_key m ks key (ce_timestamp entry)
          else oldest_key m ks oldestKey oldestTime)"

definition evictOldest :: "string list \<Rightarrow> auth_cache \<Rightarrow> auth_cache" where
  "evictOldest order c =
     (let k = oldest_key (ac_entries c) order '''' zero_time
      in if k \<noteq> '''' then c\<lparr>ac_entries := (ac_entries c)(k := None)\<rparr> else c)"

definition ac_set :: "string list \<Rightarrow> time \<Rightarrow> string \<Rightarrow> bool \<Rightarrow> auth_cache \<Rightarrow> auth_cache" where
  "ac_set order now key valid c =
     (let c1 = (if int (card (dom (ac_entries c))) \<ge> ac_maxSize c then evictOldest order c else c)
      in c1\<lparr>ac_entries := (ac_entries c1)(key \<mapsto> \<lparr>ce_valid = valid, ce_timestamp = now\<rparr>)\<rparr>)"

section \<open>Verification\<close>

text \<open>The body shared by \<open>VerifyPassword\<close> and \<open>VerifyKey\<close> once the cache key is known.\<close>

definition verify_through ::
  "(string \<Rightarrow> string \<Rightarrow> 'e + bool) \<Rightarrow> string list \<Rightarrow> time \<Rightarrow> string \<Rightarrow> string \<Rightarrow> string
   \<Rightarrow> auth_cache \<Rightarrow> ('e + bool) \<times> auth_cache" where
  "verify_through V order now cacheKey secret storedHash c =
     (let miss =
        (let c1 = c\<lparr>ac_misses := wrap_i64 (ac_misses c + 1)\<rparr> in
         case V storedHash secret of
           Inl e \<Rightarrow> (Inl e, c1)
         | Inr valid \<Rightarrow> (Inr valid, ac_set order now cacheKey valid c1))
      in case ac_entries c cacheKey of
           None \<Rightarrow> miss
         | Some entry \<Rightarrow>
             if time_Sub now (ce_timestamp entry) < ac_ttl c
             then (Inr (ce_valid entry), c\<lparr>ac_hits := wrap_i64 (ac_hits c + 1)\<rparr>)
             else miss)"

definition VerifyPassword ::
  "(string \<Rightarrow> string) \<Rightarrow> (string \<Rightarrow> string \<Rightarrow> 'e + bool) \<Rightarrow> string list \<Rightarrow> time
   \<Rightarrow> string \<Rightarrow> string \<Rightarrow> string \<Rightarrow> auth_cache \<Rightarrow> ('e + bool) \<times> auth_cache" where
  "VerifyPassword H V order now userID password storedHash c =
     (if \<not> ac_enabled c then (V storedHash password, c)
      else verify_through V order now (computeKey H userID password storedHash) password storedHash c)"

definition VerifyKey ::
  "(string \<Rightarrow> string) \<Rightarrow> (string \<Rightarrow> string \<Rightarrow> 'e + bool) \<Rightarrow> string list \<Rightarrow> time
   \<Rightarrow> string \<Rightarrow> string \<Rightarrow> string \<Rightarrow> auth_cache \<Rightarrow> ('e + bool) \<times> auth_cache" where
  "VerifyKey H V order now keyID plainKey storedHash c =
     (if \<not> ac_enabled c then (V storedHash plainKey, c)
      else verify_through V order now (computeKeyHash H plainKey) plainKey storedHash c)"

definition ac_cleanup :: "time \<Rightarrow> auth_cache \<Rightarrow> auth_cache" where
  "ac_cleanup now c =
     c\<lparr>ac_entries := (\<lambda>k. case ac_entries c k of None \<Rightarrow> None
        | Some e \<Rightarrow> if time_Sub now (ce_timestamp e) \<ge> ac_ttl c then None else Some e)\<rparr>"

definition ac_Stats :: "auth_cache \<Rightarrow> int \<times> int \<times> int" where
  "ac_Stats c = (ac_hits c, ac_misses c, int (card (dom (ac_entries c))))"

definition ac_Clear :: "auth_cache \<Rightarrow> auth_cache" where
  "ac_Clear c = c\<lparr>ac_entries := Map.empty\<rparr>"

section \<open>Executions\<close>

datatype ac_op =
    AcPassword string string string
  | AcKey string string string
  | AcCleanup
  | AcClear

fun ac_step ::
  "(string \<Rightarrow> string) \<Rightarrow> (string \<Rightarrow> string \<Rightarrow> 'e + bool) \<Rightarrow> ac_op \<times> time \<times> string list
   \<Rightarrow> auth_cache \<Rightarrow> auth_cache" where
  "ac_step H V (AcPassword u p h, now, order) c = snd (VerifyPassword H V order now u p h c)"
| "ac_step H V (AcKey i k h, now, order) c = snd (VerifyKey H V order now i k h c)"
| "ac_step H V (AcCleanup, now, order) c = ac_cleanup now c"
| "ac_step H V (AcClear, now, order) c = ac_Clear c"

text \<open>Requests as the callers make them: a user id is a UUID and holds no colon, an API key
  holds no colon, and an Argon2id hash in its encoded form has at least 32 characters.\<close>

fun ac_op_ok :: "ac_op \<Rightarrow> bool" where
  "ac_op_ok (AcPassword u p h) \<longleftrightarrow> CHR '':'' \<notin> set u \<and> 32 \<le> length h"
| "ac_op_ok (AcKey i k h) \<longleftrightarrow> CHR '':'' \<notin> set k"
| "ac_op_ok AcCleanup \<longleftrightarrow> True"
| "ac_op_ok AcClear \<longleftrightarrow> True"

section \<open>The memo interface\<close>

text \<open>
  What both verification functions promise of a cache step: an entry afterwards is an entry
  from before, or the verdict just computed under the key just asked for; and an answer is a
  verdict computed now or an entry from before.
\<close>

locale memo_step =
  fixes ans :: "'q \<Rightarrow> 'c \<Rightarrow> 'e + bool"
    and nxt :: "'q \<Rightarrow> 'c \<Rightarrow> 'c"
    and entry :: "'c \<Rightarrow> string \<Rightarrow> bool option"
    and key :: "'q \<Rightarrow> string"
    and truth :: "'q \<Rightarrow> 'e + bool"
  assumes entry_after: "entry (nxt q c) k = Some v \<Longrightarrow>
      entry c k = Some v \<or> k = key q \<and> truth q = Inr v"
    and answer_from: "ans q c = Inr v \<Longrightarrow> entry c (key q) = Some v \<or> truth q = Inr v"
begin

text \<open>A predicate that every verdict satisfies at its key holds of all entries and answers.\<close>

lemma step_sound:
  "(\<And>k v. entry c k = Some v \<Longrightarrow> P k v) \<Longrightarrow> (\<And>v. truth q = Inr v \<Longrightarrow> P (key q) v) \<Longrightarrow>
     entry (nxt q c) k = Some v \<Longrightarrow> P k v"
  using entry_after by blast

lemma answer_sound:
  "(\<And>k v. entry c k = Some v \<Longrightarrow> P k v) \<Longrightarrow> (\<And>v. truth q = Inr v \<Longrightarrow> P (key q) v) \<Longrightarrow>
     ans q c = Inr v \<Longrightarrow> P (key q) v"
  using answer_from by blast

end

definition ac_entry :: "auth_cache \<Rightarrow> string \<Rightarrow> bool option" where
  "ac_entry c k = map_option ce_valid (ac_entries c k)"

lemma ac_entry_evict: "ac_entry (evictOldest order c) k = Some v \<Longrightarrow> ac_entry c k = Some v"
  by (auto simp: evictOldest_def ac_entry_def Let_def split: if_splits)

lemma ac_entry_set:
  "ac_entry (ac_set order now key valid c) k = Some v \<Longrightarrow>
     ac_entry c k = Some v \<or> k = key \<and> valid = v"
  using ac_entry_evict [of order c k v]
  by (auto simp: ac_set_def ac_entry_def Let_def split: if_splits)

lemma verify_through_entry:
  "ac_entry (snd (verify_through V order now ck s h c)) k = Some v \<Longrightarrow>
     ac_entry c k = Some v \<or> k = ck \<and> V h s = Inr v"
  using ac_entry_set [of order now ck _ "c\<lparr>ac_misses := wrap_i64 (ac_misses c + 1)\<rparr>" k v]
  by (fastforce simp: verify_through_def Let_def ac_entry_def split: option.splits if_splits sum.splits)

lemma verify_through_answer:
  "fst (verify_through V order now ck s h c) = Inr v \<Longrightarrow> ac_entry c ck = Some v \<or> V h s = Inr v"
  by (auto simp: verify_through_def Let_def ac_entry_def split: option.splits if_splits sum.splits)

interpretation pw_memo: memo_step
  "\<lambda>(u, p, h, now, order) c. fst (VerifyPassword H V order now u p h c)"
  "\<lambda>(u, p, h, now, order) c. snd (VerifyPassword H V order now u p h c)"
  ac_entry "\<lambda>(u, p, h, now, order). computeKey H u p h" "\<lambda>(u, p, h, now, order). V h p"
  for H and V :: "string \<Rightarrow> string \<Rightarrow> 'e + bool"
proof (unfold_locales, goal_cases)
  case (1 q c k v)
  then show ?case
    by (cases q) (auto simp: VerifyPassword_def dest: verify_through_entry split: if_splits)
next
  case (2 q c v)
  then show ?case
    by (cases q) (auto simp: VerifyPassword_def dest: verify_through_answer split: if_splits)
qed

interpretation key_memo: memo_step
  "\<lambda>(i, s, h, now, order) c. fst (VerifyKey H V order now i s h c)"
  "\<lambda>(i, s, h, now, order) c. snd (VerifyKey H V order now i s h c)"
  ac_entry "\<lambda>(i, s, h, now, order). computeKeyHash H s" "\<lambda>(i, s, h, now, order). V h s"
  for H and V :: "string \<Rightarrow> string \<Rightarrow> 'e + bool"
proof (unfold_locales, goal_cases)
  case (1 q c k v)
  then show ?case
    by (cases q) (auto simp: VerifyKey_def dest: verify_through_entry split: if_splits)
next
  case (2 q c v)
  then show ?case
    by (cases q) (auto simp: VerifyKey_def dest: verify_through_answer split: if_splits)
qed

section \<open>Soundness\<close>

text \<open>Every entry is the verdict of some admissible request with that key.\<close>

definition ac_origin :: "(string \<Rightarrow> string) \<Rightarrow> (string \<Rightarrow> string \<Rightarrow> 'e + bool) \<Rightarrow> string \<Rightarrow> bool \<Rightarrow> bool" where
  "ac_origin H V k v \<longleftrightarrow>
     (\<exists>u p h. ac_op_ok (AcPassword u p h) \<and> k = computeKey H u p h \<and> V h p = Inr v) \<or>
     (\<exists>i s h. ac_op_ok (AcKey i s h) \<and> k = computeKeyHash H s \<and> V h s = Inr v)"

definition ac_sound :: "(string \<Rightarrow> string) \<Rightarrow> (string \<Rightarrow> string \<Rightarrow> 'e + bool) \<Rightarrow> auth_cache \<Rightarrow> bool" where
  "ac_sound H V c \<longleftrightarrow> (\<forall>k v. ac_entry c k = Some v \<longrightarrow> ac_origin H V k v)"

lemma ac_step_sound:
  assumes "ac_sound H V c" and "ac_op_ok x"
  shows "ac_sound H V (ac_step H V (x, now, order) c)"
proof (cases x)
  case (AcPassword u p h)
  have "ac_origin H V (computeKey H u p h) v" if "V h p = Inr v" for v
    using that assms(2) AcPassword unfolding ac_origin_def by blast
  then show ?thesis
    using pw_memo.step_sound [where c = c and q = "(u, p, h, now, order)" and P = "ac_origin H V"
        and H = H and V = V] assms(1) AcPassword by (simp add: ac_sound_def)
next
  case (AcKey i s h)
  have "ac_origin H V (computeKeyHash H s) v" if "V h s = Inr v" for v
    using that assms(2) AcKey unfolding ac_origin_def by blast
  then show ?thesis
    using key_memo.step_sound [where c = c and q = "(i, s, h, now, order)" and P = "ac_origin H V"
        and H = H and V = V] assms(1) AcKey by (simp add: ac_sound_def)
next
  case AcCleanup
  then show ?thesis using assms(1)
    by (auto simp: ac_sound_def ac_entry_def ac_cleanup_def split: option.splits if_splits)
next
  case AcClear
  then show ?thesis by (simp add: ac_sound_def ac_entry_def ac_Clear_def)
qed

lemma ac_run_sound:
  "ac_sound H V c \<Longrightarrow> \<forall>(x, _, _) \<in> set xs. ac_op_ok x \<Longrightarrow> ac_sound H V (fold (ac_step H V) xs c)"
  by (induction xs arbitrary: c) (auto simp: ac_step_sound)

text \<open>The colon-separated text of a key determines user, password and hash prefix.\<close>

lemma split_at_colon:
  assumes "u @ '':'' @ x = u' @ '':'' @ x'" and "CHR '':'' \<notin> set u" and "CHR '':'' \<notin> set u'"
  shows "u = u' \<and> x = x'"
proof -
  have "takeWhile (\<lambda>c. c \<noteq> CHR '':'') (u @ '':'' @ x) = u"
    and "takeWhile (\<lambda>c. c \<noteq> CHR '':'') (u' @ '':'' @ x') = u'"
    using assms(2,3) by (auto intro!: takeWhile_append_hd_not)
  with assms(1) have "u = u'" by simp
  with assms(1) show ?thesis by simp
qed

lemma computeKey_inj:
  assumes "inj H" and "computeKey H u p h = computeKey H u' p' h'"
    and "ac_op_ok (AcPassword u p h)" and "ac_op_ok (AcPassword u' p' h')"
  shows "u = u' \<and> p = p' \<and> take 32 h = take 32 h'"
proof -
  have pre: "(if length x > 32 then take 32 x else x) = take 32 x" for x :: string by simp
  have "u @ '':'' @ (p @ '':'' @ take 32 h) = u' @ '':'' @ (p' @ '':'' @ take 32 h')"
    using assms(1,2) by (simp add: computeKey_def pre inj_eq)
  from split_at_colon [OF this] assms(3,4)
  have "u = u'" and eq: "p @ '':'' @ take 32 h = p' @ '':'' @ take 32 h'" by auto
  have "length (take 32 h) = length (take 32 h')" using assms(3,4) by simp
  with eq show ?thesis using \<open>u = u'\<close> by simp
qed

section \<open>Size\<close>

text \<open>The loop returns the key of an entry at least as old as all those it has visited.\<close>

definition older_than :: "(string \<rightharpoonup> cache_entry) \<Rightarrow> string \<Rightarrow> string list \<Rightarrow> bool" where
  "older_than m k ks \<longleftrightarrow> m k \<noteq> None \<and>
     (\<forall>k' \<in> set ks. \<forall>e. m k' = Some e \<longrightarrow> ce_timestamp (the (m k)) \<le> ce_timestamp e)"

lemma oldest_key_from:
  assumes "m k0 = Some e0" and "k0 \<noteq> ''''" and "'''' \<notin> dom m"
  shows "oldest_key m ks k0 (ce_timestamp e0) \<noteq> ''''
    \<and> older_than m (oldest_key m ks k0 (ce_timestamp e0)) (k0 # ks)"
  using assms
proof (induction ks arbitrary: k0 e0)
  case Nil
  then show ?case by (simp add: older_than_def)
next
  case (Cons x ks)
  show ?case
  proof (cases "m x")
    case None
    with Cons.IH [OF Cons.prems] show ?thesis by (simp add: older_than_def)
  next
    case (Some e)
    have x: "x \<noteq> ''''" using Some Cons.prems(3) by auto
    show ?thesis
    proof (cases "ce_timestamp e < ce_timestamp e0")
      case True
      with Cons.IH [OF Some x Cons.prems(3)] Some Cons.prems(1) show ?thesis
        by (auto simp: older_than_def)
    next
      case False
      with Cons.IH [OF Cons.prems] Some Cons.prems(1,2) show ?thesis
        by (auto simp: older_than_def)
    qed
  qed
qed

lemma oldest_key_start:
  assumes "'''' \<notin> dom m" and "set ks \<inter> dom m \<noteq> {}"
  shows "oldest_key m ks '''' t \<noteq> '''' \<and> older_than m (oldest_key m ks '''' t) ks"
  using assms
proof (induction ks)
  case (Cons x ks)
  show ?case
  proof (cases "m x")
    case None
    with Cons show ?thesis by (auto simp: older_than_def)
  next
    case (Some e)
    then have "x \<noteq> ''''" using Cons.prems(1) by auto
    from oldest_key_from [OF Some this Cons.prems(1), of ks] Some show ?thesis by simp
  qed
qed simp

lemma evictOldest_removes:
  assumes "'''' \<notin> dom (ac_entries c)" and "set order = dom (ac_entries c)"
    and "dom (ac_entries c) \<noteq> {}"
  shows "\<exists>k. older_than (ac_entries c) k order
    \<and> evictOldest order c = c\<lparr>ac_entries := (ac_entries c)(k := None)\<rparr>"
  using oldest_key_start [of "ac_entries c" order zero_time] assms
  by (auto simp: evictOldest_def Let_def)

text \<open>A bounded cache: finite, no empty key, at most the configured number of entries (one
  entry where a non-positive size is configured).\<close>

definition ac_bounded :: "auth_cache \<Rightarrow> bool" where
  "ac_bounded c \<longleftrightarrow> finite (dom (ac_entries c)) \<and> '''' \<notin> dom (ac_entries c) \<and>
     int (card (dom (ac_entries c))) \<le> max 1 (ac_maxSize c)"

lemma ac_set_bounded:
  assumes "ac_bounded c" and "set order = dom (ac_entries c)" and "key \<noteq> ''''"
  shows "ac_bounded (ac_set order now key valid c)"
proof (cases "int (card (dom (ac_entries c))) \<ge> ac_maxSize c \<and> dom (ac_entries c) \<noteq> {}")
  case True
  have dom: "finite (dom (ac_entries c))" "'''' \<notin> dom (ac_entries c)"
    using assms(1) by (auto simp: ac_bounded_def)
  obtain k where k: "older_than (ac_entries c) k order"
    "evictOldest order c = c\<lparr>ac_entries := (ac_entries c)(k := None)\<rparr>"
    using evictOldest_removes [OF dom(2) assms(2)] True by auto
  then have "k \<in> dom (ac_entries c)" by (auto simp: older_than_def)
  then have "card (insert key (dom (ac_entries c) - {k})) \<le> card (dom (ac_entries c))"
    using dom(1) by (metis card_Suc_Diff1 card_insert_le_m1 diff_Suc_1 finite_Diff le_refl zero_less_Suc)
  then show ?thesis
    using assms(1,3) True k(2) by (auto simp: ac_set_def Let_def ac_bounded_def)
next
  case False
  then have "dom (ac_entries (ac_set order now key valid c)) =
      insert key (dom (ac_entries c))"
    using assms(2) by (cases "dom (ac_entries c) = {}") (auto simp: ac_set_def Let_def evictOldest_def)
  moreover have "ac_maxSize (ac_set order now key valid c) = ac_maxSize c"
    by (simp add: ac_set_def Let_def evictOldest_def)
  moreover have "int (card (insert key (dom (ac_entries c)))) \<le> max 1 (ac_maxSize c)"
    using assms(1) False by (cases "dom (ac_entries c) = {}") (auto simp: ac_bounded_def card_insert_if)
  ultimately show ?thesis using assms(1,3) by (simp add: ac_bounded_def)
qed

lemma verify_through_bounded:
  assumes "ac_bounded c" and "set order = dom (ac_entries c)" and "ck \<noteq> ''''"
  shows "ac_bounded (snd (verify_through V order now ck s h c))"
proof -
  let ?c = "c\<lparr>ac_misses := wrap_i64 (ac_misses c + 1)\<rparr>"
  have "ac_bounded ?c" using assms(1) by (simp add: ac_bounded_def)
  from ac_set_bounded [OF this, of order ck now] assms show ?thesis
    by (auto simp: verify_through_def Let_def ac_bounded_def split: option.splits sum.splits)
qed

section \<open>Properties\<close>

text \<open>C36. After any sequence of verifications, cleanups and clears, a positive or negative
  answer of VerifyPassword is the verdict of the verifier on the same password and on a stored
  hash that agrees with the current one in its first 32 characters (the hash function taken as
  collision-free).\<close>

theorem cached_answer_sound:
  assumes "inj H" and "\<forall>(x, _, _) \<in> set xs. ac_op_ok x" and "ac_op_ok (AcPassword u p h)"
    and "fst (VerifyPassword H V order now u p h
      (fold (ac_step H V) xs (NewAuthCache enabled ttlSeconds maxSize))) = Inr v"
  shows "\<exists>h'. take 32 h' = take 32 h \<and> V h' p = Inr v"
proof -
  let ?c = "fold (ac_step H V) xs (NewAuthCache enabled ttlSeconds maxSize)"
  have "ac_sound H V (NewAuthCache enabled ttlSeconds maxSize)"
    by (simp add: ac_sound_def ac_entry_def NewAuthCache_def)
  from ac_run_sound [OF this assms(2)] have "ac_sound H V ?c" .
  moreover have "ac_origin H V (computeKey H u p h) w" if "V h p = Inr w" for w
    using that assms(3) unfolding ac_origin_def by blast
  ultimately have "ac_origin H V (computeKey H u p h) v"
    using pw_memo.answer_sound [where c = ?c and q = "(u, p, h, now, order)" and P = "ac_origin H V"
        and H = H and V = V] assms(4) by (simp add: ac_sound_def)
  then consider (pw) u' p' h' where "ac_op_ok (AcPassword u' p' h')"
      "computeKey H u p h = computeKey H u' p' h'" "V h' p' = Inr v"
    | (key) i s h' where "ac_op_ok (AcKey i s h')" "computeKey H u p h = computeKeyHash H s"
    unfolding ac_origin_def by blast
  then show ?thesis
  proof cases
    case pw
    from computeKey_inj [OF assms(1) pw(2) assms(3) pw(1)] pw(3) show ?thesis by auto
  next
    case key
    then have "s = u @ '':'' @ p @ '':'' @ (if length h > 32 then take 32 h else h)"
      using assms(1) by (simp add: computeKey_def computeKeyHash_def Let_def inj_eq)
    with key(1) show ?thesis by simp
  qed
qed

definition sample_hash :: "char \<Rightarrow> string" where
  "sample_hash c = ''$argon2id$v=19$m=8192,t=1,p=4$AA'' @ [c]"

definition sample_verify :: "string \<Rightarrow> string \<Rightarrow> unit + bool" where
  "sample_verify h p = Inr (h = sample_hash CHR ''1'' \<and> p = ''old'' \<or> h = sample_hash CHR ''2'' \<and> p = ''new'')"

theorem cached_answer_sound_witness:
  "\<exists>h'. take 32 h' = take 32 (sample_hash CHR ''1'') \<and> sample_verify h' ''old'' = Inr True"
  by (rule cached_answer_sound [where H = "\<lambda>x. x" and V = sample_verify and now = 7
        and u = "''u1''" and xs = "[(AcPassword ''u1'' ''old'' (sample_hash CHR ''1''), 5, [])]"
        and enabled = True and ttlSeconds = 300 and maxSize = 100 and order = "[]"])
    (simp_all add: inj_def sample_hash_def VerifyPassword_def verify_through_def NewAuthCache_def
      sample_verify_def ac_set_def Let_def seconds_def wrap_i64_def time_Sub_def)

text \<open>A password keeps being accepted from the cache after it was changed, until the entry
  expires, whenever the new hash agrees with the old one in its first 32 characters; the
  default Argon2id parameters leave two characters of the salt in that prefix.\<close>

theorem stale_password_accepted:
  assumes "ac_enabled c" and "V h p = Inr True" and "ac_entries c (computeKey H u p h) = None"
    and "take 32 h = take 32 h'" and "32 \<le> length h" and "32 \<le> length h'"
    and "now \<le> now'" and "now' - now < ac_ttl c" and "ac_ttl c < 2 ^ 63"
  shows "fst (VerifyPassword H V order' now' u p h' (snd (VerifyPassword H V order now u p h c)))
    = Inr True"
proof -
  have pre: "(if length x > 32 then take 32 x else x) = take 32 x" for x :: string by simp
  have key: "computeKey H u p h' = computeKey H u p h"
    using assms(4) by (simp add: computeKey_def pre)
  let ?c1 = "snd (VerifyPassword H V order now u p h c)"
  have c1: "ac_entries ?c1 (computeKey H u p h) = Some \<lparr>ce_valid = True, ce_timestamp = now\<rparr>"
    "ac_enabled ?c1" "ac_ttl ?c1 = ac_ttl c"
    using assms(1-3)
    by (auto simp: VerifyPassword_def verify_through_def ac_set_def evictOldest_def Let_def)
  moreover have "time_Sub now' now < ac_ttl c"
    using assms(7-9) by (simp add: time_Sub_def)
  ultimately show ?thesis
    unfolding VerifyPassword_def [of H V order'] by (simp add: key verify_through_def)
qed

theorem stale_password_accepted_witness:
  "sample_verify (sample_hash CHR ''2'') ''old'' = Inr False \<and>
   fst (VerifyPassword (\<lambda>x. x) sample_verify [] 60 ''u1'' ''old'' (sample_hash CHR ''2'')
     (snd (VerifyPassword (\<lambda>x. x) sample_verify [] 0 ''u1'' ''old'' (sample_hash CHR ''1'')
       (NewAuthCache True 300 100)))) = Inr True"
proof -
  have "fst (VerifyPassword (\<lambda>x. x) sample_verify [] 60 ''u1'' ''old'' (sample_hash CHR ''2'')
     (snd (VerifyPassword (\<lambda>x. x) sample_verify [] 0 ''u1'' ''old'' (sample_hash CHR ''1'')
       (NewAuthCache True 300 100)))) = Inr True"
    by (rule stale_password_accepted)
      (simp_all add: NewAuthCache_def sample_verify_def sample_hash_def seconds_def wrap_i64_def)
  then show ?thesis by (simp add: sample_verify_def sample_hash_def)
qed

text \<open>No operation lets the cache outgrow its configured size (or one entry, where the size
  is not positive), whatever order Go iterates the map in.\<close>

theorem cache_size_bounded:
  assumes "ac_bounded c" and "set order = dom (ac_entries c)" and "\<forall>x. H x \<noteq> ''''"
  shows "ac_bounded (ac_step H V (x, now, order) c)"
proof (cases x)
  case (AcPassword u p h)
  have "computeKey H u p h \<noteq> ''''" using assms(3) by (simp add: computeKey_def Let_def)
  with assms(1,2) AcPassword show ?thesis
    by (simp add: VerifyPassword_def verify_through_bounded)
next
  case (AcKey i s h)
  have "computeKeyHash H s \<noteq> ''''" using assms(3) by (simp add: computeKeyHash_def)
  with assms(1,2) AcKey show ?thesis by (simp add: VerifyKey_def verify_through_bounded)
next
  case AcCleanup
  have "dom (ac_entries (ac_cleanup now c)) \<subseteq> dom (ac_entries c)"
    by (auto simp: ac_cleanup_def split: option.splits)
  moreover from this have "card (dom (ac_entries (ac_cleanup now c))) \<le> card (dom (ac_entries c))"
    using assms(1) by (auto simp: ac_bounded_def intro: card_mono)
  ultimately show ?thesis
    using assms(1) AcCleanup finite_subset by (auto simp: ac_bounded_def ac_cleanup_def)
next
  case AcClear
  then show ?thesis by (simp add: ac_bounded_def ac_Clear_def)
qed

theorem cache_size_bounded_witness:
  "ac_bounded (ac_step (\<lambda>x. ''k'' @ x) sample_verify
     (AcPassword ''u1'' ''old'' (sample_hash CHR ''1''), 5, []) (NewAuthCache True 300 1))"
  by (rule cache_size_bounded) (simp_all add: ac_bounded_def NewAuthCache_def)

end
