(* ===== verification/Api_Keys.thy ===== *)
theory Api_Keys
  imports Store_Users Crypto Auth_Cache
begin

text \<open>
  \<open>internal/store/api_keys.go\<close> and the derivation half of \<open>mongo_scram.go\<close>: API keys and web
  sessions, from generation through verification to revocation, with the O5LOGON verifiers that
  let a key serve as an Oracle password. Random bytes are the fields of \<open>key_random\<close>; the
  textual form of an identifier (\<open>github.com/google/uuid\<close>) is the parameter \<open>uuid_String\<close>, SHA-256
  of the authentication cache \<open>H\<close>, and the SCRAM library the parameter \<open>scram\<close>.
\<close>

definition APIKeyPrefix :: string where "APIKeyPrefix = ''dbb_''"
definition WebKeyPrefix :: string where "WebKeyPrefix = ''web_''"
definition APIKeyRandomLength :: nat where "APIKeyRandomLength = 32"
definition APIKeyPrefixLength :: nat where "APIKeyPrefixLength = 8"
definition WebSessionMaxDuration :: duration where "WebSessionMaxDuration = 60 * minute"

definition key_charset :: string where "key_charset = ''abcdefghijklmnopqrstuvwxyz0123456789''"

section \<open>Generation\<close>

definition generateKey :: "string \<Rightarrow> bytes \<Rightarrow> string \<times> string" where
  "generateKey keyPrefix randomBytes =
     (let randomPart = map (\<lambda>b. key_charset ! (unat b mod length key_charset)) (take APIKeyRandomLength randomBytes);
          fullKey = keyPrefix @ randomPart
      in (fullKey, take APIKeyPrefixLength fullKey))"

definition generateAPIKey :: "bytes \<Rightarrow> string \<times> string" where
  "generateAPIKey randomBytes = generateKey APIKeyPrefix randomBytes"

definition generateWebKey :: "bytes \<Rightarrow> string \<times> string" where
  "generateWebKey randomBytes = generateKey WebKeyPrefix randomBytes"

record key_random =
  kr_key :: bytes
  kr_hash_salt :: bytes
  kr_nonce :: bytes
  kr_nonce' :: bytes
  kr_salt6949 :: bytes
  kr_salt18453 :: bytes
  kr_user_salts :: oracle_user_data
  kr_ID :: uuid

section \<open>O5LOGON verifiers of a key\<close>

definition storeO5LogonVerifiers ::
  "prims \<Rightarrow> key_random \<Rightarrow> string \<Rightarrow> bytes \<Rightarrow> bytes \<Rightarrow> bytes \<Rightarrow> api_key \<Rightarrow> crypto_error + api_key" where
  "storeO5LogonVerifiers X R plainKey encryptionKey salt6949 salt18453 k =
     (let aad = APIKeyAAD (ak_KeyPrefix k) in
      case Encrypt X (kr_nonce R) (DeriveO5LogonVerifierKey X plainKey salt6949) encryptionKey aad of
        Inl e \<Rightarrow> Inl e
      | Inr encVerifier \<Rightarrow>
          (case Encrypt X (kr_nonce' R) (DeriveO5LogonVerifier18453Key X plainKey salt18453) encryptionKey aad of
             Inl e \<Rightarrow> Inl e
           | Inr encVerifier18453 \<Rightarrow>
               Inr (k\<lparr>ak_Oracle := Some \<lparr>okd_Salt6949 = salt6949, okd_Verifier6949 = encVerifier, okd_Salt18453 = salt18453,
                      okd_Verifier18453 = encVerifier18453, okd_UserSalt = False\<rparr>\<rparr>)))"

definition mark_user_salt :: "bool \<Rightarrow> api_key \<Rightarrow> api_key" where
  "mark_user_salt b k = k\<lparr>ak_Oracle := map_option (\<lambda>d. d\<lparr>okd_UserSalt := b\<rparr>) (ak_Oracle k)\<rparr>"

definition computeO5LogonVerifier :: "prims \<Rightarrow> key_random \<Rightarrow> string \<Rightarrow> bytes \<Rightarrow> api_key \<Rightarrow> crypto_error + api_key" where
  "computeO5LogonVerifier X R plainKey encryptionKey k =
     (let salt = fst (GenerateO5LogonVerifier X (kr_salt6949 R) plainKey);
          salt18453 = fst (GenerateO5LogonVerifier18453 X (kr_salt18453 R) plainKey)
      in map_sum id (mark_user_salt False) (storeO5LogonVerifiers X R plainKey encryptionKey salt salt18453 k))"

definition computeO5LogonVerifierWithSalts ::
  "prims \<Rightarrow> key_random \<Rightarrow> string \<Rightarrow> bytes \<Rightarrow> oracle_user_data \<Rightarrow> api_key \<Rightarrow> crypto_error + api_key" where
  "computeO5LogonVerifierWithSalts X R plainKey encryptionKey salts k =
     map_sum id (mark_user_salt True) (storeO5LogonVerifiers X R plainKey encryptionKey (od_Salt6949 salts) (od_Salt18453 salts) k)"

text \<open>An error of the crypto package ends the store operation.\<close>

definition lift_crypto :: "crypto_error + 'a \<Rightarrow> db \<Rightarrow> (store_error + 'a) \<times> db" where
  "lift_crypto r st = (case r of Inl _ \<Rightarrow> (Inl ErrCrypto, st) | Inr x \<Rightarrow> (Inr x, st))"

definition attachO5LogonVerifiers ::
  "prims \<Rightarrow> key_random \<Rightarrow> time \<Rightarrow> string \<Rightarrow> bytes \<Rightarrow> api_key \<Rightarrow> db \<Rightarrow> (store_error + api_key) \<times> db" where
  "attachO5LogonVerifiers X R now plainKey encryptionKey k st =
     (case EnsureUserOracleSalts (ak_UserID k) (kr_user_salts R) now st of
        (Inl _, st1) \<Rightarrow> lift_crypto (computeO5LogonVerifier X R plainKey encryptionKey k) st1
      | (Inr userSalts, st1) \<Rightarrow> lift_crypto (computeO5LogonVerifierWithSalts X R plainKey encryptionKey userSalts k) st1)"

section \<open>Creation\<close>

text \<open>The constraints of \<open>api_keys\<close>: identifiers and prefixes are unique, the user exists, names
  have at most 255 characters.\<close>

definition insert_key :: "key_random \<Rightarrow> api_key \<Rightarrow> db \<Rightarrow> (store_error + api_key) \<times> db" where
  "insert_key R k =
     write_stmt (\<lambda>st.
       let row = k\<lparr>ak_ID := kr_ID R\<rparr> in
       if kr_ID R \<in> set (map ak_ID (db_keys st)) \<or> ak_KeyPrefix k \<in> set (map ak_KeyPrefix (db_keys st))
          \<or> \<not> user_exists st (ak_UserID k) \<or> length (runes (ak_Name k)) > 255 \<or> length (runes (ak_KeyHash k)) > 255
       then Inl ErrDB
       else Inr (row, st\<lparr>db_keys := db_keys st @ [row]\<rparr>))"

definition new_key :: "uuid \<Rightarrow> string \<Rightarrow> string \<Rightarrow> string \<Rightarrow> string \<Rightarrow> time option \<Rightarrow> time \<Rightarrow> api_key" where
  "new_key userID name keyHash prefix keyType expiresAt now =
     \<lparr>ak_ID = uuid_Nil, ak_UserID = userID, ak_Name = name, ak_KeyHash = keyHash, ak_KeyPrefix = prefix, ak_KeyType = keyType,
      ak_ExpiresAt = expiresAt, ak_LastUsedAt = None, ak_RequestCount = 0, ak_CreatedAt = now, ak_RevokedAt = None,
      ak_RevokedBy = None, ak_Oracle = None\<rparr>"

text \<open>Common to \<open>CreateAPIKey\<close> and \<open>CreateAPIKeyWithValue\<close>: hash, attach verifiers when there is a
  master key, insert.\<close>

definition create_key ::
  "prims \<Rightarrow> key_random \<Rightarrow> uuid \<Rightarrow> string \<Rightarrow> string \<Rightarrow> time option \<Rightarrow> bytes \<Rightarrow> time \<Rightarrow> time \<Rightarrow> db \<Rightarrow> (store_error + api_key) \<times> db" where
  "create_key X R userID name plainKey expiresAt encryptionKey now now' st =
     (let k = new_key userID name (HashPassword X (kr_hash_salt R) plainKey) (take APIKeyPrefixLength plainKey) KeyTypeAPI expiresAt now
      in if length encryptionKey > 0
         then and_then (attachO5LogonVerifiers X R now' plainKey encryptionKey k st) (\<lambda>k' st1. insert_key R k' st1)
         else insert_key R k st)"

definition CreateAPIKey ::
  "prims \<Rightarrow> key_random \<Rightarrow> uuid \<Rightarrow> string \<Rightarrow> time option \<Rightarrow> bytes \<Rightarrow> time \<Rightarrow> time \<Rightarrow> db \<Rightarrow> (store_error + api_key \<times> string) \<times> db" where
  "CreateAPIKey X R userID name expiresAt encryptionKey now now' st =
     (let (plainKey, prefix) = generateAPIKey (kr_key R)
      in and_then (create_key X R userID name plainKey expiresAt encryptionKey now now' st) (\<lambda>k st1. (Inr (k, plainKey), st1)))"

definition CreateAPIKeyWithValue ::
  "prims \<Rightarrow> key_random \<Rightarrow> uuid \<Rightarrow> string \<Rightarrow> string \<Rightarrow> time option \<Rightarrow> bytes \<Rightarrow> time \<Rightarrow> time \<Rightarrow> db \<Rightarrow> (store_error + api_key) \<times> db" where
  "CreateAPIKeyWithValue X R userID name plainKey expiresAt encryptionKey now now' st =
     (if length plainKey < APIKeyPrefixLength then (Inl ErrAPIKeyTooShort, st)
      else create_key X R userID name plainKey expiresAt encryptionKey now now' st)"

definition CreateWebSession ::
  "prims \<Rightarrow> key_random \<Rightarrow> uuid \<Rightarrow> time \<Rightarrow> time \<Rightarrow> db \<Rightarrow> (store_error + api_key \<times> string) \<times> db" where
  "CreateWebSession X R userID now now' st =
     (let (plainKey, prefix) = generateWebKey (kr_key R);
          k = new_key userID ''Web Session'' (HashPassword X (kr_hash_salt R) plainKey) prefix KeyTypeWeb
                (Some (now + WebSessionMaxDuration)) now'
      in and_then (insert_key R k st) (\<lambda>row st1. (Inr (row, plainKey), st1)))"

section \<open>Lookup, verification, revocation\<close>

definition GetAPIKeyByPrefix :: "string \<Rightarrow> db \<Rightarrow> (store_error + api_key) \<times> db" where
  "GetAPIKeyByPrefix prefix =
     read_stmt (\<lambda>st. case find (\<lambda>k. ak_KeyPrefix k = prefix) (db_keys st) of None \<Rightarrow> Inl ErrAPIKeyNotFound | Some k \<Rightarrow> Inr k)"

definition GetAPIKeyByID :: "uuid \<Rightarrow> db \<Rightarrow> (store_error + api_key) \<times> db" where
  "GetAPIKeyByID keyID =
     read_stmt (\<lambda>st. case find (\<lambda>k. ak_ID k = keyID) (db_keys st) of None \<Rightarrow> Inl ErrAPIKeyNotFound | Some k \<Rightarrow> Inr k)"

text \<open>The state of verification: the tables and, when configured, the cache.\<close>

definition check_key ::
  "prims \<Rightarrow> (string \<Rightarrow> string) \<Rightarrow> (uuid \<Rightarrow> string) \<Rightarrow> string list \<Rightarrow> time \<Rightarrow> api_key \<Rightarrow> string \<Rightarrow> auth_cache option
   \<Rightarrow> (crypto_error + bool) \<times> auth_cache option" where
  "check_key X H uuid_String order now apiKey plainKey cache =
     (case cache of
        Some c \<Rightarrow> (let (r, c') = VerifyKey H (Crypto.VerifyPassword X) order now (uuid_String (ak_ID apiKey)) plainKey (ak_KeyHash apiKey) c
                   in (r, Some c'))
      | None \<Rightarrow> (Crypto.VerifyPassword X (ak_KeyHash apiKey) plainKey, None))"

definition VerifyAPIKey ::
  "prims \<Rightarrow> (string \<Rightarrow> string) \<Rightarrow> (uuid \<Rightarrow> string) \<Rightarrow> string list \<Rightarrow> time \<Rightarrow> string \<Rightarrow> auth_cache option \<Rightarrow> db
   \<Rightarrow> (store_error + api_key) \<times> auth_cache option \<times> db" where
  "VerifyAPIKey X H uuid_String order now plainKey cache st =
     (if length plainKey < APIKeyPrefixLength then (Inl ErrAPIKeyNotFound, cache, st)
      else case GetAPIKeyByPrefix (take APIKeyPrefixLength plainKey) st of
        (Inl e, st1) \<Rightarrow> (Inl e, cache, st1)
      | (Inr apiKey, st1) \<Rightarrow>
          (let (verdict, cache') = check_key X H uuid_String order now apiKey plainKey cache in
           if verdict \<noteq> Inr True then (Inl ErrAPIKeyNotFound, cache', st1)
           else if IsRevoked apiKey then (Inl ErrAPIKeyRevoked, cache', st1)
           else if IsExpired now apiKey then (Inl ErrAPIKeyExpired, cache', st1)
           else (Inr apiKey, cache', st1)))"

record api_key_filter =
  kf_UserID :: "uuid option"
  kf_KeyType :: "string option"
  kf_IncludeAll :: bool
  kf_Limit :: int
  kf_Offset :: int

definition ListAPIKeys :: "api_key_filter \<Rightarrow> time \<Rightarrow> db \<Rightarrow> (store_error + api_key list) \<times> db" where
  "ListAPIKeys f now =
     read_stmt (\<lambda>st. Inr (page (kf_Limit f) (kf_Offset f) (sort_key (\<lambda>k. - ak_CreatedAt k)
       (filter (\<lambda>k. eq_opt (kf_UserID f) (ak_UserID k) \<and> eq_opt (kf_KeyType f) (ak_KeyType k)
          \<and> (kf_IncludeAll f \<or> ak_RevokedAt k = None \<and> (case ak_ExpiresAt k of None \<Rightarrow> True | Some t \<Rightarrow> now < t))) (db_keys st)))))"

definition RevokeAPIKey :: "uuid \<Rightarrow> uuid \<Rightarrow> time \<Rightarrow> db \<Rightarrow> (store_error + unit) \<times> db" where
  "RevokeAPIKey keyID revokedBy now =
     write_stmt (\<lambda>st.
       let hit = (\<lambda>k. ak_ID k = keyID \<and> ak_RevokedAt k = None) in
       if filter hit (db_keys st) = [] then Inl ErrAPIKeyNotFound
       else if \<not> user_exists st revokedBy then Inl ErrDB
       else Inr ((), st\<lparr>db_keys := update_where hit (\<lambda>k. k\<lparr>ak_RevokedAt := Some now, ak_RevokedBy := Some revokedBy\<rparr>) (db_keys st)\<rparr>))"

definition IncrementAPIKeyUsage :: "uuid \<Rightarrow> time \<Rightarrow> db \<Rightarrow> (store_error + unit) \<times> db" where
  "IncrementAPIKeyUsage keyID now =
     write_stmt (\<lambda>st.
       if list_all (\<lambda>k. ak_ID k = keyID \<longrightarrow> in_i64 (ak_RequestCount k + 1)) (db_keys st)
       then Inr ((), st\<lparr>db_keys := update_where (\<lambda>k. ak_ID k = keyID)
              (\<lambda>k. k\<lparr>ak_LastUsedAt := Some now, ak_RequestCount := ak_RequestCount k + 1\<rparr>) (db_keys st)\<rparr>)
       else Inl ErrDB)"

definition UpgradeAPIKeyO5LogonVerifiers ::
  "prims \<Rightarrow> key_random \<Rightarrow> uuid \<Rightarrow> string \<Rightarrow> bytes \<Rightarrow> time \<Rightarrow> db \<Rightarrow> (store_error + unit) \<times> db" where
  "UpgradeAPIKeyO5LogonVerifiers X R keyID plainKey encryptionKey now st =
     (if length encryptionKey = 0 then (Inr (), st)
      else and_then (GetAPIKeyByID keyID st) (\<lambda>apiKey st1.
        if (case ak_Oracle apiKey of None \<Rightarrow> True | Some od \<Rightarrow> okd_UserSalt od) then (Inr (), st1)
        else and_then (EnsureUserOracleSalts (ak_UserID apiKey) (kr_user_salts R) now st1) (\<lambda>userSalts st2.
             and_then (lift_crypto (computeO5LogonVerifierWithSalts X R plainKey encryptionKey userSalts apiKey) st2) (\<lambda>k st3.
             write_stmt (\<lambda>s. Inr ((), s\<lparr>db_keys := update_where (\<lambda>x. ak_ID x = keyID) (\<lambda>x. x\<lparr>ak_Oracle := ak_Oracle k\<rparr>) (db_keys s)\<rparr>)) st3))))"

section \<open>SCRAM verifiers of a user\<close>

definition MongoSCRAMIterations :: int where "MongoSCRAMIterations = 15000"

text \<open>\<open>scram password salt iterations\<close> is the library's \<open>GetStoredCredentialsWithError\<close>: stored and server
  key, or an error (a password that SASLprep refuses).\<close>

definition SetUserMongoVerifier ::
  "prims \<Rightarrow> (string \<Rightarrow> bytes \<Rightarrow> int \<Rightarrow> (bytes \<times> bytes) option) \<Rightarrow> (uuid \<Rightarrow> string) \<Rightarrow> bytes \<Rightarrow> bytes \<Rightarrow> bytes
   \<Rightarrow> uuid \<Rightarrow> string \<Rightarrow> bytes \<Rightarrow> time \<Rightarrow> db \<Rightarrow> (store_error + unit) \<times> db" where
  "SetUserMongoVerifier X scram uuid_String salt nonce nonce' userID password encryptionKey now st =
     (case scram password salt MongoSCRAMIterations of
        None \<Rightarrow> (Inl ErrCrypto, st)
      | Some (storedKey, serverKey) \<Rightarrow>
          (let aad = UserAAD (uuid_String userID) in
           and_then (lift_crypto (Encrypt X nonce storedKey encryptionKey aad) st) (\<lambda>encStoredKey st1.
           and_then (lift_crypto (Encrypt X nonce' serverKey encryptionKey aad) st1) (\<lambda>encServerKey st2.
             persistUserMongoVerifier userID \<lparr>ms_Salt = salt, ms_Iterations = MongoSCRAMIterations,
               ms_StoredKey = encStoredKey, ms_ServerKey = encServerKey\<rparr> now st2))))"

section \<open>How the table of keys evolves\<close>

text \<open>Rows are only added or updated; an update keeps identifier, owner, prefix and hash, and a
  revocation stays.\<close>

definition key_kept :: "api_key \<Rightarrow> api_key \<Rightarrow> bool" where
  "key_kept k k' \<longleftrightarrow> ak_ID k' = ak_ID k \<and> ak_UserID k' = ak_UserID k \<and> ak_KeyPrefix k' = ak_KeyPrefix k \<and> ak_KeyHash k' = ak_KeyHash k
     \<and> ak_ExpiresAt k' = ak_ExpiresAt k \<and> (ak_RevokedAt k \<noteq> None \<longrightarrow> ak_RevokedAt k' = ak_RevokedAt k)"

definition key_ext :: "api_key list \<Rightarrow> api_key list \<Rightarrow> bool" where
  "key_ext ks ks' \<longleftrightarrow> list_all2 key_kept ks (take (length ks) ks')"

lemma key_kept_refl [simp]: "key_kept k k"
  by (simp add: key_kept_def)

lemma key_ext_refl [simp]: "key_ext ks ks"
  by (simp add: key_ext_def list_all2_refl)

lemma key_ext_append: "key_ext ks (ks @ new)"
  by (simp add: key_ext_def list_all2_refl)

lemma key_ext_update: "(\<And>k. P k \<Longrightarrow> key_kept k (f k)) \<Longrightarrow> key_ext ks (update_where P f ks)"
  by (induction ks) (simp_all add: key_ext_def update_where_def)

lemma key_ext_trans:
  assumes "key_ext a b" and "key_ext b c"
  shows "key_ext a c"
proof -
  have "list_all2 key_kept (take (length a) b) (take (length a) (take (length b) c))"
    using assms(2) unfolding key_ext_def by (rule list_all2_takeI)
  moreover have "length a \<le> length b" using list_all2_lengthD [OF assms(1) [unfolded key_ext_def]] by simp
  moreover have "key_kept x z" if "key_kept x y" "key_kept y z" for x y z using that by (auto simp: key_kept_def)
  ultimately show ?thesis using assms(1) list_all2_trans [of key_kept key_kept key_kept] unfolding key_ext_def
    by (metis (no_types, lifting) min.absorb1 take_take)
qed

lemma key_ext_mem:
  assumes "key_ext ks ks'" and "k \<in> set ks"
  shows "\<exists>k' \<in> set ks'. key_kept k k'"
proof -
  obtain i where "i < length ks" "k = ks ! i" using assms(2) by (metis in_set_conv_nth)
  then show ?thesis using assms(1) unfolding key_ext_def
    by (metis (no_types, lifting) in_set_takeD list_all2_conv_all_nth nth_mem)
qed

text \<open>Prefixes identify keys; generated ones have eight characters with an underscore.\<close>

definition prefix_ok :: "string \<Rightarrow> bool" where
  "prefix_ok p \<longleftrightarrow> length p = 8 \<and> CHR ''_'' \<in> set p"

definition keys_ok :: "api_key list \<Rightarrow> bool" where
  "keys_ok ks \<longleftrightarrow> distinct (map ak_KeyPrefix ks) \<and> distinct (map ak_ID ks) \<and> (\<forall>k\<in>set ks. prefix_ok (ak_KeyPrefix k))"

text \<open>What every operation on keys does to the table.\<close>

definition key_write :: "db \<Rightarrow> db \<Rightarrow> bool" where
  "key_write st st' \<longleftrightarrow> key_ext (db_keys st) (db_keys st') \<and> (keys_ok (db_keys st) \<longrightarrow> keys_ok (db_keys st'))"

lemma key_write_refl [simp]: "key_write st st"
  by (simp add: key_write_def)

lemma key_write_trans: "key_write a b \<Longrightarrow> key_write b c \<Longrightarrow> key_write a c"
  by (auto simp: key_write_def intro: key_ext_trans)

lemma key_write_keys: "db_keys st' = db_keys st \<Longrightarrow> key_write st st'"
  by (simp add: key_write_def)

lemma keys_ok_update:
  assumes "keys_ok ks" and "\<And>k. P k \<Longrightarrow> key_kept k (f k)"
  shows "keys_ok (update_where P f ks)"
proof -
  have "map ak_KeyPrefix (update_where P f ks) = map ak_KeyPrefix ks" "map ak_ID (update_where P f ks) = map ak_ID ks"
    using assms(2) by (auto intro!: map_update_where simp: key_kept_def)
  then show ?thesis using assms by (auto simp: keys_ok_def ball_update_where key_kept_def)
qed

lemma write_keys_update:
  assumes "write_stmt f st = (r, st')"
    and "\<And>s x s'. f s = Inr (x, s') \<Longrightarrow> \<exists>P g. db_keys s' = update_where P g (db_keys s) \<and> (\<forall>k. P k \<longrightarrow> key_kept k (g k))"
  shows "key_write st st'"
proof (cases r)
  case (Inl e)
  then show ?thesis using assms(1) write_stmt_Inl same_tables_select(12) by (blast intro: key_write_keys)
next
  case (Inr x)
  then obtain s P g where s: "same_tables st s" "db_keys st' = update_where P g (db_keys s)" "\<forall>k. P k \<longrightarrow> key_kept k (g k)"
    using write_stmt_Inr [of f st x st'] assms by blast
  have "db_keys s = db_keys st" by (rule same_tables_select(12) [OF s(1)])
  then show ?thesis using s(2,3) by (auto simp: key_write_def intro: key_ext_update keys_ok_update)
qed

lemma revoke_write: "RevokeAPIKey i b now st = (r, st') \<Longrightarrow> key_write st st'"
  unfolding RevokeAPIKey_def
  by (erule write_keys_update) (auto simp: Let_def key_kept_def split: if_splits intro!: exI)

lemma usage_write: "IncrementAPIKeyUsage i now st = (r, st') \<Longrightarrow> key_write st st'"
  unfolding IncrementAPIKeyUsage_def
  by (erule write_keys_update) (auto simp: key_kept_def split: if_splits intro!: exI)

lemma insert_write:
  assumes "insert_key R k st = (r, st')" and "prefix_ok (ak_KeyPrefix k)"
  shows "key_write st st'"
proof (cases r)
  case (Inl e)
  then show ?thesis using assms(1) write_stmt_Inl same_tables_select(12) unfolding insert_key_def by (blast intro: key_write_keys)
next
  case (Inr x)
  obtain s where s: "same_tables st s" "kr_ID R \<notin> set (map ak_ID (db_keys s))" "ak_KeyPrefix k \<notin> set (map ak_KeyPrefix (db_keys s))"
    "db_keys st' = db_keys s @ [k\<lparr>ak_ID := kr_ID R\<rparr>]"
    using write_stmt_Inr [OF assms(1) [unfolded insert_key_def Inr]] by (auto simp: Let_def split: if_splits)
  have "db_keys s = db_keys st" by (rule same_tables_select(12) [OF s(1)])
  then show ?thesis using s(2-4) assms(2) by (auto simp: key_write_def key_ext_append keys_ok_def)
qed

lemma write_keeps_keys:
  assumes "write_stmt f st = (r, st')" and "\<And>s x s'. f s = Inr (x, s') \<Longrightarrow> db_keys s' = db_keys s"
  shows "db_keys st' = db_keys st"
  using assms write_stmt_Inl [of f st _ st'] write_stmt_Inr [of f st _ st'] same_tables_select(12) by (cases r) metis+

lemma salts_keep_keys:
  assumes "EnsureUserOracleSalts u fresh now st = (r, st')"
  shows "db_keys st' = db_keys st"
proof -
  have persist: "db_keys s' = db_keys s" if "persist_salts i d t s = (x, s')" for i d t s x s'
    using that unfolding persist_salts_def by (rule write_keeps_keys) (auto simp: Let_def)
  have look: "db_keys s' = db_keys s" if "GetUserByUID i s = (x, s')" for i s x s'
    using that read_stmt_same same_tables_select(12) unfolding GetUserByUID_def by blast
  show ?thesis using assms
    by (auto simp: EnsureUserOracleSalts_def salts_finish_def and_then_def split: prod.splits sum.splits option.splits if_splits
        dest!: persist look)
qed

lemma stored_prefix:
  assumes "storeO5LogonVerifiers X R p e a b k = Inr k'"
  shows "ak_KeyPrefix k' = ak_KeyPrefix k" "ak_KeyHash k' = ak_KeyHash k" "ak_UserID k' = ak_UserID k" "ak_RevokedAt k' = ak_RevokedAt k"
    "ak_ExpiresAt k' = ak_ExpiresAt k" "ak_ID k' = ak_ID k" "ak_KeyType k' = ak_KeyType k"
  using assms by (auto simp: storeO5LogonVerifiers_def Let_def split: sum.splits)

lemma mark_user_salt_sel [simp]:
  "ak_KeyPrefix (mark_user_salt b k) = ak_KeyPrefix k" "ak_KeyHash (mark_user_salt b k) = ak_KeyHash k"
  "ak_UserID (mark_user_salt b k) = ak_UserID k" "ak_RevokedAt (mark_user_salt b k) = ak_RevokedAt k"
  "ak_ExpiresAt (mark_user_salt b k) = ak_ExpiresAt k" "ak_ID (mark_user_salt b k) = ak_ID k" "ak_KeyType (mark_user_salt b k) = ak_KeyType k"
  by (simp_all add: mark_user_salt_def)

text \<open>Everything but the Oracle material is as before.\<close>

definition same_key :: "api_key \<Rightarrow> api_key \<Rightarrow> bool" where
  "same_key k k' \<longleftrightarrow> ak_KeyPrefix k' = ak_KeyPrefix k \<and> ak_KeyHash k' = ak_KeyHash k \<and> ak_UserID k' = ak_UserID k
     \<and> ak_RevokedAt k' = ak_RevokedAt k \<and> ak_ExpiresAt k' = ak_ExpiresAt k \<and> ak_KeyType k' = ak_KeyType k \<and> ak_ID k' = ak_ID k"

lemma map_sum_Inr: "map_sum f g r = Inr y \<longleftrightarrow> (\<exists>x. r = Inr x \<and> y = g x)"
  by (cases r) auto

lemma compute_keeps:
  "computeO5LogonVerifier X R p e k = Inr k' \<Longrightarrow> same_key k k'"
  "computeO5LogonVerifierWithSalts X R p e salts k = Inr k' \<Longrightarrow> same_key k k'"
proof -
  have "same_key k (mark_user_salt b z)" if "storeO5LogonVerifiers X R p e s t k = Inr z" for b s t z
    using stored_prefix [OF that] by (simp add: same_key_def)
  then show "computeO5LogonVerifier X R p e k = Inr k' \<Longrightarrow> same_key k k'"
    "computeO5LogonVerifierWithSalts X R p e salts k = Inr k' \<Longrightarrow> same_key k k'"
    by (auto simp: computeO5LogonVerifier_def computeO5LogonVerifierWithSalts_def Let_def map_sum_Inr)
qed

lemma attach_keeps:
  assumes "attachO5LogonVerifiers X R now p e k st = (r, st')"
  shows "db_keys st' = db_keys st" and "r = Inr k' \<Longrightarrow> same_key k k'"
proof -
  obtain x s where s: "EnsureUserOracleSalts (ak_UserID k) (kr_user_salts R) now st = (x, s)" by fastforce
  have "st' = s" using assms s by (auto simp: attachO5LogonVerifiers_def lift_crypto_def split: sum.splits)
  then show "db_keys st' = db_keys st" using salts_keep_keys [OF s] by simp
  show "r = Inr k' \<Longrightarrow> same_key k k'"
    using assms s compute_keeps by (cases x) (auto simp: attachO5LogonVerifiers_def lift_crypto_def split: sum.splits)
qed

lemma generated_prefix:
  assumes "length rnd = 32" and "pre \<in> {APIKeyPrefix, WebKeyPrefix}"
  shows "snd (generateKey pre rnd) = take 8 (fst (generateKey pre rnd))" "prefix_ok (take 8 (fst (generateKey pre rnd)))"
    "length (fst (generateKey pre rnd)) = 36"
  using assms by (auto simp: generateKey_def Let_def APIKeyPrefixLength_def APIKeyRandomLength_def prefix_ok_def APIKeyPrefix_def WebKeyPrefix_def)

lemma create_key_write:
  assumes "create_key X R u n p e enc now now' st = (r, st')" and "prefix_ok (take 8 p)"
  shows "key_write st st'"
proof -
  let ?k = "new_key u n (HashPassword X (kr_hash_salt R) p) (take APIKeyPrefixLength p) KeyTypeAPI e now"
  have pre: "prefix_ok (ak_KeyPrefix ?k)" using assms(2) by (simp add: new_key_def APIKeyPrefixLength_def)
  show ?thesis
  proof (cases "length enc > 0")
    case False
    then show ?thesis using assms(1) insert_write [OF _ pre] by (simp add: create_key_def)
  next
    case True
    obtain x s where a: "attachO5LogonVerifiers X R now' p enc ?k st = (x, s)" by fastforce
    note keep = attach_keeps [OF a]
    show ?thesis
    proof (cases x)
      case (Inl err)
      then show ?thesis using assms(1) True a keep(1) by (simp add: create_key_def and_then_def key_write_keys)
    next
      case (Inr k')
      have "prefix_ok (ak_KeyPrefix k')" using keep(2) [OF Inr] pre by (simp add: same_key_def)
      then have "key_write s st'" using insert_write assms(1) True a Inr by (simp add: create_key_def and_then_def)
      then show ?thesis using key_write_trans [OF key_write_keys [OF keep(1)]] by blast
    qed
  qed
qed

lemma create_write:
  assumes "CreateAPIKey X R u n e enc now now' st = (r, st')" and "length (kr_key R) = 32"
  shows "key_write st st'"
proof -
  obtain x where "create_key X R u n (fst (generateAPIKey (kr_key R))) e enc now now' st = (x, st')"
    using assms(1) by (auto simp: CreateAPIKey_def and_then_def split: prod.splits sum.splits)
  then show ?thesis using create_key_write generated_prefix(2) [OF assms(2), of APIKeyPrefix] by (simp add: generateAPIKey_def)
qed

lemma web_write:
  assumes "CreateWebSession X R u now now' st = (r, st')" and "length (kr_key R) = 32"
  shows "key_write st st'"
proof -
  let ?g = "generateKey WebKeyPrefix (kr_key R)"
  let ?k = "new_key u ''Web Session'' (HashPassword X (kr_hash_salt R) (fst ?g)) (snd ?g) KeyTypeWeb (Some (now + WebSessionMaxDuration)) now'"
  have "prefix_ok (ak_KeyPrefix ?k)" using generated_prefix(1,2) [OF assms(2), of WebKeyPrefix] by (simp add: new_key_def)
  moreover obtain x where "insert_key R ?k st = (x, st')"
    using assms(1) by (auto simp: CreateWebSession_def generateWebKey_def and_then_def split: prod.splits sum.splits)
  ultimately show ?thesis using insert_write by blast
qed

lemma upgrade_write:
  assumes "UpgradeAPIKeyO5LogonVerifiers X R i p e now st = (r, st')"
  shows "key_write st st'"
proof -
  have last: "key_write s s'" if "write_stmt (\<lambda>s. Inr ((), s\<lparr>db_keys := update_where (\<lambda>x. ak_ID x = i) (\<lambda>x. x\<lparr>ak_Oracle := d\<rparr>) (db_keys s)\<rparr>)) s = (x, s')"
    for d s x s' using that by (rule write_keys_update) (auto simp: key_kept_def intro!: exI)
  have look: "db_keys s' = db_keys s" if "GetAPIKeyByID i s = (x, s')" for s x s'
    using that read_stmt_same same_tables_select(12) unfolding GetAPIKeyByID_def by blast
  obtain x s1 where g: "GetAPIKeyByID i st = (x, s1)" by fastforce
  have s1: "key_write st s1" using look [OF g] by (rule key_write_keys)
  have "key_write s1 st'" if "x = Inr k" "\<not> (case ak_Oracle k of None \<Rightarrow> True | Some od \<Rightarrow> okd_UserSalt od)" "length e \<noteq> 0" for k
  proof -
    obtain y s2 where en: "EnsureUserOracleSalts (ak_UserID k) (kr_user_salts R) now s1 = (y, s2)" by fastforce
    have "key_write s1 s2" using salts_keep_keys [OF en] by (rule key_write_keys)
    moreover have "key_write s2 st'"
      using assms g en that last by (auto simp: UpgradeAPIKeyO5LogonVerifiers_def and_then_def lift_crypto_def split: sum.splits if_splits)
    ultimately show ?thesis by (rule key_write_trans)
  qed
  then show ?thesis using assms g s1 key_write_trans [OF s1]
    by (cases x) (auto simp: UpgradeAPIKeyO5LogonVerifiers_def and_then_def split: if_splits)
qed

section \<open>Verification through the cache\<close>

text \<open>The authentication cache is shared by keys and passwords. A step is a verification of either
  kind, the maintenance of the cache, or an operation on the table. Identifiers of users have at
  least eight characters and no underscore among them.\<close>

inductive key_step :: "prims \<Rightarrow> (string \<Rightarrow> string) \<Rightarrow> (uuid \<Rightarrow> string) \<Rightarrow> auth_cache \<times> db \<Rightarrow> auth_cache \<times> db \<Rightarrow> bool"
  for X H S where
  verify: "VerifyAPIKey X H S order now p (Some c) st = (r, Some c', st') \<Longrightarrow> key_step X H S (c, st) (c', st')"
| password: "8 \<le> length u \<Longrightarrow> CHR ''_'' \<notin> set u \<Longrightarrow>
    key_step X H S (c, st) (snd (Auth_Cache.VerifyPassword H (Crypto.VerifyPassword X) order now u p h c), st)"
| cleanup: "key_step X H S (c, st) (ac_cleanup now c, st)"
| clear: "key_step X H S (c, st) (ac_Clear c, st)"
| create: "CreateAPIKey X R u n e enc now now' st = (r, st') \<Longrightarrow> length (kr_key R) = 32 \<Longrightarrow> key_step X H S (c, st) (c, st')"
| web: "CreateWebSession X R u now now' st = (r, st') \<Longrightarrow> length (kr_key R) = 32 \<Longrightarrow> key_step X H S (c, st) (c, st')"
| revoke: "RevokeAPIKey i b now st = (r, st') \<Longrightarrow> key_step X H S (c, st) (c, st')"
| usage: "IncrementAPIKeyUsage i now st = (r, st') \<Longrightarrow> key_step X H S (c, st) (c, st')"
| upgrade: "UpgradeAPIKeyO5LogonVerifiers X R i p e now st = (r, st') \<Longrightarrow> key_step X H S (c, st) (c, st')"

definition key_inv :: "prims \<Rightarrow> (string \<Rightarrow> string) \<Rightarrow> auth_cache \<Rightarrow> db \<Rightarrow> bool" where
  "key_inv X H c st \<longleftrightarrow> keys_ok (db_keys st) \<and>
     (\<forall>p v. ac_entry c (H p) = Some v \<longrightarrow> prefix_ok (take 8 p) \<longrightarrow>
        (\<exists>k\<in>set (db_keys st). ak_KeyPrefix k = take 8 p \<and> Crypto.VerifyPassword X (ak_KeyHash k) p = Inr v))"

lemma key_inv_write:
  assumes "key_inv X H c st" and "key_write st st'"
  shows "key_inv X H c st'"
proof -
  have "\<exists>k'\<in>set (db_keys st'). ak_KeyPrefix k' = take 8 p \<and> Crypto.VerifyPassword X (ak_KeyHash k') p = Inr v"
    if "k \<in> set (db_keys st)" "ak_KeyPrefix k = take 8 p" "Crypto.VerifyPassword X (ak_KeyHash k) p = Inr v" for k p v
    using key_ext_mem [of "db_keys st" "db_keys st'" k] assms(2) that by (fastforce simp: key_write_def key_kept_def)
  then show ?thesis using assms unfolding key_inv_def key_write_def by blast
qed

lemma key_inv_cache:
  assumes "key_inv X H c st" and "\<And>k v. ac_entry c' k = Some v \<Longrightarrow> ac_entry c k = Some v \<or>
      (\<forall>p. k = H p \<longrightarrow> prefix_ok (take 8 p) \<longrightarrow>
        (\<exists>k\<in>set (db_keys st). ak_KeyPrefix k = take 8 p \<and> Crypto.VerifyPassword X (ak_KeyHash k) p = Inr v))"
  shows "key_inv X H c' st"
  using assms unfolding key_inv_def by blast

lemma key_inv_shrink:
  assumes "key_inv X H c st" and "\<And>k v. ac_entry c' k = Some v \<Longrightarrow> ac_entry c k = Some v"
  shows "key_inv X H c' st"
  using assms unfolding key_inv_def by blast

lemma cleanup_entry: "ac_entry (ac_cleanup now c) k = Some v \<Longrightarrow> ac_entry c k = Some v"
  by (auto simp: ac_entry_def ac_cleanup_def split: option.splits if_splits)

lemma find_key:
  assumes "GetAPIKeyByPrefix pre st = (Inr k, st')"
  shows "k \<in> set (db_keys st)" "ak_KeyPrefix k = pre" "same_tables st st'"
proof -
  show same: "same_tables st st'" using read_stmt_same assms unfolding GetAPIKeyByPrefix_def by blast
  have "find (\<lambda>k. ak_KeyPrefix k = pre) (db_keys st') = Some k"
    using read_stmt_Inr [OF assms [unfolded GetAPIKeyByPrefix_def]] by (auto split: option.splits)
  then show "k \<in> set (db_keys st)" "ak_KeyPrefix k = pre"
    using find_SomeD same_tables_select(12) [OF same] by fastforce+
qed

lemma VerifyAPIKey_found:
  assumes "VerifyAPIKey X H S order now p cache st = (r, cache', st')"
  shows "same_tables st st'"
    and "cache' = cache \<or> (\<exists>k. k \<in> set (db_keys st) \<and> ak_KeyPrefix k = take 8 p \<and> 8 \<le> length p
        \<and> cache' = snd (check_key X H S order now k p cache))"
    and "r = Inr k \<Longrightarrow> k \<in> set (db_keys st) \<and> ak_KeyPrefix k = take 8 p \<and> 8 \<le> length p
        \<and> fst (check_key X H S order now k p cache) = Inr True \<and> ak_RevokedAt k = None \<and> \<not> IsExpired now k"
proof -
  obtain x s where g: "GetAPIKeyByPrefix (take 8 p) st = (x, s)" by fastforce
  have same: "same_tables st s" using read_stmt_same g unfolding GetAPIKeyByPrefix_def by blast
  show "same_tables st st'" using assms g same
    by (auto simp: VerifyAPIKey_def APIKeyPrefixLength_def Let_def split: if_splits sum.splits prod.splits)
  show "cache' = cache \<or> (\<exists>k. k \<in> set (db_keys st) \<and> ak_KeyPrefix k = take 8 p \<and> 8 \<le> length p
        \<and> cache' = snd (check_key X H S order now k p cache))"
    using assms g find_key(1,2) [of "take 8 p" st _ s]
    by (cases x) (auto simp: VerifyAPIKey_def APIKeyPrefixLength_def Let_def split: if_splits prod.splits)
  show "r = Inr k \<Longrightarrow> k \<in> set (db_keys st) \<and> ak_KeyPrefix k = take 8 p \<and> 8 \<le> length p
        \<and> fst (check_key X H S order now k p cache) = Inr True \<and> ak_RevokedAt k = None \<and> \<not> IsExpired now k"
    using assms g find_key(1,2) [of "take 8 p" st _ s]
    by (cases x) (auto simp: VerifyAPIKey_def APIKeyPrefixLength_def Let_def IsRevoked_def split: if_splits prod.splits)
qed

text \<open>A colon-separated password key never has the prefix of a generated API key.\<close>

lemma computeKey_not_key:
  assumes "inj H" and "8 \<le> length u" and "CHR ''_'' \<notin> set u" and "computeKey H u p h = H q"
  shows "\<not> prefix_ok (take 8 q)"
proof -
  obtain rest where "q = u @ rest" using assms(1,4) by (auto simp: computeKey_def Let_def dest: injD)
  then have "take 8 q = take 8 u" using assms(2) by simp
  then show ?thesis using assms(3) by (auto simp: prefix_ok_def dest: in_set_takeD)
qed

lemma key_step_inv:
  assumes "inj H" and "key_step X H S cs cs'" and "key_inv X H (fst cs) (snd cs)"
  shows "key_inv X H (fst cs') (snd cs') \<and> key_write (snd cs) (snd cs')"
  using assms(2,3)
proof (induction rule: key_step.induct)
  case (verify order now p c st r c' st')
  note f = VerifyAPIKey_found [OF verify(1)]
  have w: "key_write st st'" using same_tables_select(12) [OF f(1)] by (rule key_write_keys)
  have "key_inv X H c' st"
  proof (cases "Some c' = Some c")
    case False
    then obtain k where k: "k \<in> set (db_keys st)" "ak_KeyPrefix k = take 8 p" "Some c' = snd (check_key X H S order now k p (Some c))"
      using f(2) by blast
    have c': "c' = snd (VerifyKey H (Crypto.VerifyPassword X) order now (S (ak_ID k)) p (ak_KeyHash k) c)"
      using k(3) by (auto simp: check_key_def split: prod.splits)
    show ?thesis
    proof (rule key_inv_cache)
      show "key_inv X H c st" using verify.prems by simp
      fix key v assume "ac_entry c' key = Some v"
      then have "ac_entry c key = Some v \<or> key = H p \<and> Crypto.VerifyPassword X (ak_KeyHash k) p = Inr v"
        using key_memo.entry_after [where q = "(S (ak_ID k), p, ak_KeyHash k, now, order)" and c = c and k = key and v = v
            and H = H and V = "Crypto.VerifyPassword X"] by (auto simp: c' computeKeyHash_def)
      then show "ac_entry c key = Some v \<or> (\<forall>q. key = H q \<longrightarrow> prefix_ok (take 8 q) \<longrightarrow>
          (\<exists>k\<in>set (db_keys st). ak_KeyPrefix k = take 8 q \<and> Crypto.VerifyPassword X (ak_KeyHash k) q = Inr v))"
        using k(1,2) assms(1) by (auto dest: injD)
    qed
  qed (use verify.prems in simp)
  then show ?case using key_inv_write [OF _ w] w by simp
next
  case (password u c st order now p h)
  have "key_inv X H (snd (Auth_Cache.VerifyPassword H (Crypto.VerifyPassword X) order now u p h c)) st"
  proof (rule key_inv_cache)
    show "key_inv X H c st" using password.prems by simp
    fix key v assume "ac_entry (snd (Auth_Cache.VerifyPassword H (Crypto.VerifyPassword X) order now u p h c)) key = Some v"
    then have "ac_entry c key = Some v \<or> key = computeKey H u p h"
      using pw_memo.entry_after [where q = "(u, p, h, now, order)" and c = c and k = key and v = v
          and H = H and V = "Crypto.VerifyPassword X"] by auto
    then show "ac_entry c key = Some v \<or> (\<forall>q. key = H q \<longrightarrow> prefix_ok (take 8 q) \<longrightarrow>
        (\<exists>k\<in>set (db_keys st). ak_KeyPrefix k = take 8 q \<and> Crypto.VerifyPassword X (ak_KeyHash k) q = Inr v))"
    proof
      assume "key = computeKey H u p h"
      then have "\<forall>q. key = H q \<longrightarrow> \<not> prefix_ok (take 8 q)" using computeKey_not_key [OF assms(1) password(1,2), of p h] by simp
      then show ?thesis by blast
    qed blast
  qed
  then show ?case by simp
next
  case (cleanup c st now)
  have "key_inv X H (ac_cleanup now c) st" by (rule key_inv_shrink [OF _ cleanup_entry]) (use cleanup.prems in simp)
  then show ?case by simp
next
  case (clear c st)
  have "key_inv X H (ac_Clear c) st" by (rule key_inv_shrink [of X H c]) (use clear.prems in \<open>simp_all add: ac_entry_def ac_Clear_def\<close>)
  then show ?case by simp
next
  case create
  then show ?case using key_inv_write [OF _ create_write [OF create(1,2)]] create_write [OF create(1,2)] by simp
next
  case web
  then show ?case using key_inv_write [OF _ web_write [OF web(1,2)]] web_write [OF web(1,2)] by simp
next
  case revoke
  then show ?case using key_inv_write [OF _ revoke_write [OF revoke(1)]] revoke_write [OF revoke(1)] by simp
next
  case usage
  then show ?case using key_inv_write [OF _ usage_write [OF usage(1)]] usage_write [OF usage(1)] by simp
next
  case upgrade
  then show ?case using key_inv_write [OF _ upgrade_write [OF upgrade(1)]] upgrade_write [OF upgrade(1)] by simp
qed

lemma key_run_inv:
  assumes "inj H" and "(key_step X H S)\<^sup>*\<^sup>* cs cs'" and "key_inv X H (fst cs) (snd cs)"
  shows "key_inv X H (fst cs') (snd cs') \<and> key_write (snd cs) (snd cs')"
  using assms(2)
proof (induction rule: rtranclp_induct)
  case base
  then show ?case using assms(3) by simp
next
  case (step y z)
  then show ?case using key_step_inv [OF assms(1) step(2)] key_write_trans by blast
qed

lemma empty_cache_inv: "keys_ok (db_keys st) \<Longrightarrow> key_inv X H (NewAuthCache enabled ttl maxSize) st"
  by (simp add: key_inv_def ac_entry_def NewAuthCache_def)

lemma check_key_true:
  assumes "key_inv X H c st" and "fst (check_key X H S order now k p (Some c)) = Inr True" and "k \<in> set (db_keys st)"
    and "ak_KeyPrefix k = take 8 p"
  shows "Crypto.VerifyPassword X (ak_KeyHash k) p = Inr True"
proof -
  have ok: "keys_ok (db_keys st)" "prefix_ok (take 8 p)" using assms(1,3,4) by (auto simp: key_inv_def keys_ok_def)
  have "ac_entry c (H p) = Some True \<or> Crypto.VerifyPassword X (ak_KeyHash k) p = Inr True"
    using key_memo.answer_from [where q = "(S (ak_ID k), p, ak_KeyHash k, now, order)" and c = c and v = True and H = H and V = "Crypto.VerifyPassword X"]
      assms(2) by (auto simp: check_key_def computeKeyHash_def split: prod.splits)
  then show ?thesis
  proof
    assume "ac_entry c (H p) = Some True"
    then obtain k' where k': "k' \<in> set (db_keys st)" "ak_KeyPrefix k' = take 8 p" "Crypto.VerifyPassword X (ak_KeyHash k') p = Inr True"
      using assms(1) ok(2) unfolding key_inv_def by blast
    have "k' = k" using distinct_map_eq [of ak_KeyPrefix "db_keys st" k' k] ok(1) k'(1,2) assms(3,4) by (simp add: keys_ok_def)
    then show ?thesis using k'(3) by simp
  qed
qed

text \<open>C11. A key that verifies, from the cache or not, is a row of the table under its prefix, neither
  revoked nor expired, and its secret verifies against the hash stored in that very row; the
  cache may have served any mix of keys and passwords before (with the cache's hash
  collision-free).\<close>

theorem verified_key_authentic:
  assumes "inj H" and "keys_ok (db_keys st0)" and "(key_step X H S)\<^sup>*\<^sup>* (NewAuthCache enabled ttl maxSize, st0) (c, st)"
    and "fst (VerifyAPIKey X H S order now p (Some c) st) = Inr k"
  shows "k \<in> set (db_keys st) \<and> ak_KeyPrefix k = take 8 p \<and> ak_RevokedAt k = None
    \<and> (case ak_ExpiresAt k of None \<Rightarrow> True | Some t \<Rightarrow> now \<le> t)
    \<and> Crypto.VerifyPassword X (ak_KeyHash k) p = Inr True"
proof -
  have inv: "key_inv X H c st" using key_run_inv [OF assms(1,3)] empty_cache_inv [OF assms(2)] by auto
  obtain r c' st' where v: "VerifyAPIKey X H S order now p (Some c) st = (r, c', st')" by (cases "VerifyAPIKey X H S order now p (Some c) st")
  then have "r = Inr k" using assms(4) by simp
  note f = VerifyAPIKey_found(3) [OF v this]
  have "Crypto.VerifyPassword X (ak_KeyHash k) p = Inr True"
    using f by (intro check_key_true [OF inv]) auto
  then show ?thesis using f by (auto simp: IsExpired_def split: option.splits)
qed

text \<open>C12. Revoking a key is final: after \<open>RevokeAPIKey\<close> succeeded, no sequence of operations makes
  the key verify again, not even from a cache that holds its positive answer.\<close>

theorem revoked_key_rejected:
  assumes "inj H" and "key_inv X H c st" and "RevokeAPIKey i b now st = (Inr (), st1)"
    and "(key_step X H S)\<^sup>*\<^sup>* (c, st1) (c', st')"
  shows "case fst (VerifyAPIKey X H S order now' p (Some c') st') of Inl e \<Rightarrow> True | Inr k \<Rightarrow> ak_ID k \<noteq> i"
proof (rule ccontr)
  assume "\<not> ?thesis"
  then obtain k where verified: "fst (VerifyAPIKey X H S order now' p (Some c') st') = Inr k" and i: "ak_ID k = i" by (auto split: sum.splits)
  have w1: "key_write st st1" by (rule revoke_write [OF assms(3)])
  have inv1: "key_inv X H c st1" by (rule key_inv_write [OF assms(2) w1])
  have inv': "key_inv X H c' st'" and w': "key_write st1 st'" using key_run_inv [OF assms(1,4)] inv1 by auto
  obtain s where s: "same_tables st s" "filter (\<lambda>k. ak_ID k = i \<and> ak_RevokedAt k = None) (db_keys s) \<noteq> []"
    "db_keys st1 = update_where (\<lambda>k. ak_ID k = i \<and> ak_RevokedAt k = None) (\<lambda>k. k\<lparr>ak_RevokedAt := Some now, ak_RevokedBy := Some b\<rparr>) (db_keys s)"
    using write_stmt_Inr [OF assms(3) [unfolded RevokeAPIKey_def]] by (auto simp: Let_def split: if_splits)
  then obtain k0 where k0: "k0 \<in> set (db_keys s)" "ak_ID k0 = i" "ak_RevokedAt k0 = None" by (auto simp: filter_empty_conv)
  then have "k0\<lparr>ak_RevokedAt := Some now, ak_RevokedBy := Some b\<rparr> \<in> set (db_keys st1)"
    unfolding s(3) set_update_where by (intro image_eqI [of _ _ k0]) simp_all
  then obtain k1 where k1: "k1 \<in> set (db_keys st')" "ak_ID k1 = i" "ak_RevokedAt k1 = Some now"
    using key_ext_mem [of "db_keys st1" "db_keys st'"] w' k0(2) by (fastforce simp: key_write_def key_kept_def)
  obtain r c'' st'' where v: "VerifyAPIKey X H S order now' p (Some c') st' = (r, c'', st'')"
    by (cases "VerifyAPIKey X H S order now' p (Some c') st'")
  then have f: "k \<in> set (db_keys st')" "ak_RevokedAt k = None" using VerifyAPIKey_found(3) [OF v, of k] verified by simp_all
  have "k = k1" using distinct_map_eq [of ak_ID "db_keys st'" k k1] inv' f(1) k1(1,2) i by (simp add: key_inv_def keys_ok_def)
  then show False using f(2) k1(3) by simp
qed

section \<open>A created key verifies\<close>

lemma insert_key_row:
  assumes "insert_key R k st = (Inr row, st')"
  shows "row = k\<lparr>ak_ID := kr_ID R\<rparr>" "row \<in> set (db_keys st')"
  using write_stmt_Inr [OF assms [unfolded insert_key_def]] by (auto simp: Let_def split: if_splits)

lemma create_key_row:
  assumes "create_key X R u n p e enc now now' st = (Inr k, st')"
  shows "k \<in> set (db_keys st')" "ak_KeyHash k = HashPassword X (kr_hash_salt R) p" "ak_KeyPrefix k = take 8 p"
    "ak_RevokedAt k = None" "ak_ExpiresAt k = e" "ak_UserID k = u" "ak_KeyType k = KeyTypeAPI"
proof -
  let ?k = "new_key u n (HashPassword X (kr_hash_salt R) p) (take APIKeyPrefixLength p) KeyTypeAPI e now"
  obtain k' s where i: "insert_key R k' s = (Inr k, st')" "same_key ?k k'"
  proof (cases "length enc > 0")
    case False
    then show thesis using that [of ?k st] assms by (simp add: create_key_def same_key_def)
  next
    case True
    then obtain k' s where "attachO5LogonVerifiers X R now' p enc ?k st = (Inr k', s)" "insert_key R k' s = (Inr k, st')"
      using assms by (auto simp: create_key_def and_then_Inr)
    then show thesis using that attach_keeps(2) by blast
  qed
  show "k \<in> set (db_keys st')" by (rule insert_key_row(2) [OF i(1)])
  show "ak_KeyHash k = HashPassword X (kr_hash_salt R) p" "ak_KeyPrefix k = take 8 p" "ak_RevokedAt k = None" "ak_ExpiresAt k = e"
    "ak_UserID k = u" "ak_KeyType k = KeyTypeAPI"
    using insert_key_row(1) [OF i(1)] i(2) by (simp_all add: same_key_def new_key_def APIKeyPrefixLength_def)
qed

lemma find_key_exact:
  assumes "keys_ok (db_keys st)" and "k \<in> set (db_keys st)" and "db_faults st = []"
  shows "GetAPIKeyByPrefix (ak_KeyPrefix k) st = (Inr k, st)"
proof -
  have "find (\<lambda>x. ak_KeyPrefix x = ak_KeyPrefix k) (db_keys st) = Some k"
    using assms(1,2) unfolding keys_ok_def by (induction "db_keys st" arbitrary: st) (auto simp: find_Some_iff in_set_conv_nth nth_eq_iff_index_eq distinct_conv_nth)
  then show ?thesis using assms(3) by (simp add: GetAPIKeyByPrefix_def read_stmt_def)
qed

text \<open>The key returned at creation is accepted as long as it has not expired: \<open>VerifyAPIKey\<close> finds
  its row by the prefix and the stored hash verifies the full secret, with verifiers attached or
  not. A web session is accepted for exactly its hour.\<close>

theorem api_key_roundtrip:
  assumes "argon2_sized X" and "keys_ok (db_keys st)" and "length (kr_key R) = 32"
    and "CreateAPIKey X R u n e enc now now' st = (Inr (k, p), st')" and "db_faults st' = []"
  shows "fst (VerifyAPIKey X H S order t p None st') =
    (if case e of None \<Rightarrow> False | Some limit \<Rightarrow> limit < t then Inl ErrAPIKeyExpired else Inr k)
    \<and> ak_UserID k = u \<and> ak_KeyType k = KeyTypeAPI"
proof -
  have g: "p = fst (generateKey APIKeyPrefix (kr_key R))" and c: "create_key X R u n p e enc now now' st = (Inr k, st')"
    using assms(4) by (auto simp: CreateAPIKey_def generateAPIKey_def and_then_Inr split: prod.splits)
  note row = create_key_row [OF c]
  have "keys_ok (db_keys st')" using create_write [OF assms(4,3)] assms(2) by (simp add: key_write_def)
  then have f: "GetAPIKeyByPrefix (take 8 p) st' = (Inr k, st')" using find_key_exact [OF _ row(1) assms(5)] row(3) by simp
  have len: "length p = 36" using generated_prefix(3) [OF assms(3), of APIKeyPrefix] g by simp
  have "Crypto.VerifyPassword X (ak_KeyHash k) p = Inr True"
    unfolding row(2) HashPassword_def using verify_hash [OF assms(1)] by simp
  then show ?thesis using f len row
    by (auto simp: VerifyAPIKey_def APIKeyPrefixLength_def check_key_def IsRevoked_def IsExpired_def Let_def split: option.splits)
qed

definition sample_random :: key_random where
  "sample_random = \<lparr>kr_key = replicate 32 1, kr_hash_salt = [1, 2], kr_nonce = replicate 12 1, kr_nonce' = replicate 12 2, kr_salt6949 = [1],
     kr_salt18453 = [2], kr_user_salts = \<lparr>od_Salt6949 = [3], od_Salt18453 = [4]\<rparr>, kr_ID = 77\<rparr>"

definition sample_created :: "(store_error + api_key \<times> string) \<times> db" where
  "sample_created = CreateAPIKey sample_prims sample_random 1 ''ci'' None [] 5 6 sample_accounts"

lemma length_b64: "length (b64_encode bs) = 4 * ((length bs + 2) div 3)"
proof (induction bs rule: b64_encode.induct)
  case (1 a b c r)
  have "4 + 4 * ((length r + 2) div 3) = 4 * ((length r + 5) div 3)" by presburger
  then show ?case using 1 by (simp add: Let_def add.commute)
qed (simp_all add: Let_def)

lemma length_runes: "length (runes s) \<le> length s"
proof (induction s rule: segs.induct)
  case (2 c cs)
  obtain r w where d: "decode_rune (map code (c # take 3 cs)) = (r, w)" by fastforce
  have "length (runes (c # cs)) = Suc (length (runes (drop (w - 1) cs)))" using d by (simp add: runes_def segs.simps)
  moreover have "length (runes (drop (w - 1) cs)) \<le> length cs" using 2 [OF refl d [symmetric]] by simp
  ultimately show ?case by simp
qed (simp add: runes_def)

text \<open>With the default parameters the text of a hash has fewer than 120 characters.\<close>

lemma hash_length:
  assumes "argon2_sized X" and "length salt \<le> 16"
  shows "length (HashPassword X salt p) \<le> 120"
proof -
  have r: "length (raw_encode bs) \<le> 4 * ((length bs + 2) div 3)" for bs
    using length_filter_le [of "\<lambda>c. c \<noteq> CHR ''=''" "b64_encode bs"] by (simp add: raw_encode_def length_b64)
  have "length (raw_encode salt) \<le> 24" using r [of salt] assms(2) by linarith
  moreover have "length (raw_encode (argon2_IDKey X (bytes_of p) salt DefaultArgon2Time DefaultArgon2Memory DefaultArgon2Threads argon2KeyLen)) \<le> 44"
    using r [of "argon2_IDKey X (bytes_of p) salt DefaultArgon2Time DefaultArgon2Memory DefaultArgon2Threads argon2KeyLen"] assms(1)
    by (simp add: argon2_sized_def argon2KeyLen_def)
  moreover have "length (digits 19) = 2" "length (digits 8192) = 4" "length (digits 1) = 1" "length (digits 4) = 1"
    by (simp_all add: digits.simps)
  ultimately show ?thesis
    by (simp add: HashPassword_def HashPasswordWithParams_def Let_def DefaultHashParams_def DefaultArgon2Memory_def
        DefaultArgon2Time_def DefaultArgon2Threads_def argon2_Version_def)
qed

lemma sample_created_ok:
  obtains k st where "sample_created = (Inr (k, ''dbb_'' @ replicate 32 CHR ''b''), st)" "db_faults st = []" "ak_ID k = 77" "ak_UserID k = 1"
    "keys_ok (db_keys sample_accounts)" "length (kr_key sample_random) = 32" "user_exists st 1"
proof -
  let ?p = "''dbb_'' @ replicate 32 CHR ''b''"
  let ?k = "(new_key 1 ''ci'' (HashPassword sample_prims [1, 2] ?p) (take APIKeyPrefixLength ?p) KeyTypeAPI None 5)\<lparr>ak_ID := 77\<rparr>"
  have gen: "fst (generateKey APIKeyPrefix (replicate 32 1)) = ?p"
    by (simp add: generateKey_def APIKeyPrefix_def key_charset_def APIKeyRandomLength_def Let_def)
  have short: "\<not> 255 < length (runes (HashPassword sample_prims [1, 2] p))" for p
    using length_runes [of "HashPassword sample_prims [1, 2] p"] hash_length [OF sample_prims_ok(2), of "[1, 2]" p] by simp
  have name: "\<not> 255 < length (runes ''ci'')" by (simp add: runes_ascii)
  have "insert_key sample_random (new_key 1 ''ci'' (HashPassword sample_prims [1, 2] ?p) (take APIKeyPrefixLength ?p) KeyTypeAPI None 5) sample_accounts
      = (Inr ?k, sample_accounts\<lparr>db_keys := [?k]\<rparr>)"
    using short [of ?p] name unfolding insert_key_def new_key_def sample_random_def sample_accounts_def sample_log_db_def
    by (simp only: write_stmt_def stmt_def user_exists_def Let_def) simp
  then have "sample_created = (Inr (?k, ?p), sample_accounts\<lparr>db_keys := [?k]\<rparr>)"
    using gen by (simp add: sample_created_def CreateAPIKey_def generateAPIKey_def create_key_def and_then_def case_prod_beta sample_random_def)
  then show thesis
    by (rule that) (simp_all add: new_key_def sample_accounts_def sample_log_db_def keys_ok_def sample_random_def user_exists_def)
qed

theorem api_key_roundtrip_witness:
  "\<exists>k. fst (VerifyAPIKey sample_prims id (\<lambda>_. ''id'') [] 1000 (''dbb_'' @ replicate 32 CHR ''b'') None (snd sample_created)) = Inr k \<and> ak_UserID k = 1"
proof -
  obtain k st where k: "sample_created = (Inr (k, ''dbb_'' @ replicate 32 CHR ''b''), st)" "db_faults st = []"
    "keys_ok (db_keys sample_accounts)" "length (kr_key sample_random) = 32" by (rule sample_created_ok)
  have st: "snd sample_created = st" by (simp only: k(1) snd_conv)
  show ?thesis unfolding st
    using api_key_roundtrip [OF sample_prims_ok(2) k(3,4) k(1) [unfolded sample_created_def] k(2),
        where H = id and S = "\<lambda>_. ''id''" and order = "[]" and t = 1000] by simp
qed

lemma sample_key_run:
  obtains k st where "sample_created = (Inr (k, ''dbb_'' @ replicate 32 CHR ''b''), st)" "ak_ID k = 77"
    "key_inv sample_prims id (NewAuthCache True 300 100) st" "db_faults st = []" "keys_ok (db_keys st)" "k \<in> set (db_keys st)" "ak_RevokedAt k = None" "user_exists st 1"
    "fst (VerifyAPIKey sample_prims id (\<lambda>_. ''id'') [] 1000 (''dbb_'' @ replicate 32 CHR ''b'') (Some (NewAuthCache True 300 100)) st) = Inr k"
proof -
  let ?p = "''dbb_'' @ replicate 32 CHR ''b''"
  obtain k st where k: "sample_created = (Inr (k, ?p), st)" "db_faults st = []" "ak_ID k = 77"
    "keys_ok (db_keys sample_accounts)" "length (kr_key sample_random) = 32" "user_exists st 1" by (rule sample_created_ok)
  have created: "CreateAPIKey sample_prims sample_random 1 ''ci'' None [] 5 6 sample_accounts = (Inr (k, ?p), st)"
    using k(1) by (simp only: sample_created_def)
  have ok: "keys_ok (db_keys st)" using create_write [OF created k(5)] k(4) by (simp add: key_write_def)
  have c: "create_key sample_prims sample_random 1 ''ci'' ?p None [] 5 6 sample_accounts = (Inr k, st)"
    using created by (simp only: CreateAPIKey_def case_prod_beta Let_def and_then_Inr) auto
  note row = create_key_row [OF c]
  have f: "GetAPIKeyByPrefix (take 8 ?p) st = (Inr k, st)" using find_key_exact [OF ok row(1) k(2)] row(3) by simp
  have "Crypto.VerifyPassword sample_prims (ak_KeyHash k) ?p = Inr True"
    unfolding row(2) HashPassword_def using verify_hash [OF sample_prims_ok(2)] by simp
  then have "fst (VerifyAPIKey sample_prims id (\<lambda>_. ''id'') [] 1000 ?p (Some (NewAuthCache True 300 100)) st) = Inr k"
    using f row by (simp add: VerifyAPIKey_def APIKeyPrefixLength_def check_key_def VerifyKey_def verify_through_def NewAuthCache_def
        IsRevoked_def IsExpired_def Let_def case_prod_beta)
  then show thesis using that [OF k(1,3)] empty_cache_inv [OF ok] k(2,6) ok row(1,4) by simp
qed

theorem verified_key_authentic_witness:
  "\<exists>k. k \<in> set (db_keys (snd sample_created)) \<and> ak_RevokedAt k = None
     \<and> Crypto.VerifyPassword sample_prims (ak_KeyHash k) (''dbb_'' @ replicate 32 CHR ''b'') = Inr True"
proof -
  obtain k st where k: "sample_created = (Inr (k, ''dbb_'' @ replicate 32 CHR ''b''), st)" "keys_ok (db_keys st)"
    "fst (VerifyAPIKey sample_prims id (\<lambda>_. ''id'') [] 1000 (''dbb_'' @ replicate 32 CHR ''b'') (Some (NewAuthCache True 300 100)) st) = Inr k"
    by (rule sample_key_run)
  have st: "snd sample_created = st" by (simp only: k(1) snd_conv)
  have "inj (id :: string \<Rightarrow> string)" by (rule inj_on_id)
  from verified_key_authentic [OF this k(2) rtranclp.rtrancl_refl k(3)] show ?thesis unfolding st by blast
qed

theorem revoked_key_rejected_witness:
  "case fst (VerifyAPIKey sample_prims id (\<lambda>_. ''id'') [] 1000 (''dbb_'' @ replicate 32 CHR ''b'') (Some (NewAuthCache True 300 100))
      (snd (RevokeAPIKey 77 1 9 (snd sample_created)))) of Inl e \<Rightarrow> True | Inr k \<Rightarrow> ak_ID k \<noteq> 77"
proof -
  obtain k st where k: "sample_created = (Inr (k, ''dbb_'' @ replicate 32 CHR ''b''), st)" "ak_ID k = 77"
    "key_inv sample_prims id (NewAuthCache True 300 100) st" "db_faults st = []" "k \<in> set (db_keys st)" "ak_RevokedAt k = None"
    "user_exists st 1" by (rule sample_key_run)
  have st: "snd sample_created = st" by (simp only: k(1) snd_conv)
  have hit: "filter (\<lambda>k. ak_ID k = 77 \<and> ak_RevokedAt k = None) (db_keys st) \<noteq> []" using k(2,5,6) by (auto simp: filter_empty_conv)
  have "RevokeAPIKey 77 1 9 st = (Inr (), snd (RevokeAPIKey 77 1 9 st))"
    using hit k(4,7) unfolding RevokeAPIKey_def by (simp add: write_stmt_def Let_def)
  from revoked_key_rejected [OF inj_on_id k(3) this rtranclp.rtrancl_refl] show ?thesis unfolding st .
qed

end
