(* ===== verification/Auth_Failures.thy ===== *)
theory Auth_Failures
  imports Prelude
begin

text \<open>
  The tracker of failed logins of \<open>internal/api/middleware.go\<close>: how long a name is locked out after its failures, and how
  many guesses that leaves. Each reading of the clock is an argument.
\<close>

section \<open>The tracker\<close>

record failure_record =
  fr_count :: int
  fr_lastFailure :: time

type_synonym failure_tracker = "string \<rightharpoonup> failure_record"

definition authFailureResetDuration :: duration where "authFailureResetDuration = 15 * minute"

definition authBackoffDelays :: "(int \<times> duration) list" where
  "authBackoffDelays = [(10, 5 * minute), (7, 2 * minute), (5, seconds 30), (3, seconds 5)]"

definition newAuthFailureTracker :: failure_tracker where "newAuthFailureTracker = Map.empty"

definition tracker_cleanup :: "time \<Rightarrow> failure_tracker \<Rightarrow> failure_tracker" where
  "tracker_cleanup now t = (\<lambda>username. case t username of None \<Rightarrow> None
     | Some record \<Rightarrow> if time_Sub now (fr_lastFailure record) > authFailureResetDuration then None else Some record)"

text \<open>The delay of the first entry of the table that applies.\<close>

fun applicable_delay :: "(int \<times> duration) list \<Rightarrow> int \<Rightarrow> duration option" where
  "applicable_delay [] n = None"
| "applicable_delay ((minFailures, delay) # bs) n = (if n \<ge> minFailures then Some delay else applicable_delay bs n)"

text \<open>The second reading of the clock is the one of \<open>time.Until\<close>; the seconds are truncated.\<close>

definition checkRateLimit :: "time \<Rightarrow> time \<Rightarrow> string \<Rightarrow> failure_tracker \<Rightarrow> bool \<times> int" where
  "checkRateLimit now now' username t =
     (case t username of None \<Rightarrow> (True, 0)
      | Some record \<Rightarrow>
          if time_Sub now (fr_lastFailure record) > authFailureResetDuration then (True, 0)
          else case applicable_delay authBackoffDelays (fr_count record) of None \<Rightarrow> (True, 0)
          | Some delay \<Rightarrow>
              let blockedUntil = fr_lastFailure record + delay in
              if now < blockedUntil
              then let retryAfter = time_Sub blockedUntil now' div seconds 1 in (False, if retryAfter < 1 then 1 else retryAfter)
              else (True, 0))"

definition recordFailure :: "time \<Rightarrow> time \<Rightarrow> string \<Rightarrow> failure_tracker \<Rightarrow> failure_tracker" where
  "recordFailure now now' username t =
     (case t username of None \<Rightarrow> t(username \<mapsto> \<lparr>fr_count = 1, fr_lastFailure = now\<rparr>)
      | Some record \<Rightarrow>
          t(username \<mapsto> \<lparr>fr_count = (if time_Sub now (fr_lastFailure record) > authFailureResetDuration then 1 else fr_count record + 1),
                          fr_lastFailure = now'\<rparr>))"

definition resetFailures :: "string \<Rightarrow> failure_tracker \<Rightarrow> failure_tracker" where
  "resetFailures username t = t(username := None)"

section \<open>Attempts\<close>

text \<open>What a login of the HTTP API does with the tracker outside the test mode: it is refused unchecked, or its credentials are checked and
  the outcome is recorded. In the code the check and the record are separate accesses; here an attempt is one step, so a
  run is a sequence of attempts that do not overlap.\<close>

datatype verdict = Locked int | Wrong | Right

definition attempt :: "(nat \<Rightarrow> time) \<Rightarrow> string \<Rightarrow> bool \<Rightarrow> failure_tracker \<Rightarrow> verdict \<times> failure_tracker" where
  "attempt clk username valid t =
     (case checkRateLimit (clk 0) (clk 1) username t of
        (False, retryAfter) \<Rightarrow> (Locked retryAfter, t)
      | (True, _) \<Rightarrow> if valid then (Right, resetFailures username t) else (Wrong, recordFailure (clk 2) (clk 3) username t))"

datatype tracker_event = TryLogin "nat \<Rightarrow> time" string bool | CleanUp time

fun tracker_step :: "tracker_event \<Rightarrow> failure_tracker \<Rightarrow> verdict option \<times> failure_tracker" where
  "tracker_step (TryLogin clk username valid) t = (case attempt clk username valid t of (v, t') \<Rightarrow> (Some v, t'))"
| "tracker_step (CleanUp now) t = (None, tracker_cleanup now t)"

fun tracker_run :: "tracker_event list \<Rightarrow> failure_tracker \<Rightarrow> verdict option list \<times> failure_tracker" where
  "tracker_run [] t = ([], t)"
| "tracker_run (e # es) t = (case tracker_step e t of (v, t1) \<Rightarrow> (case tracker_run es t1 of (vs, t2) \<Rightarrow> (v # vs, t2)))"

text \<open>How many guesses for a name were checked and found wrong.\<close>

fun wrong_guesses :: "string \<Rightarrow> tracker_event list \<Rightarrow> verdict option list \<Rightarrow> nat" where
  "wrong_guesses name (TryLogin clk username valid # es) (v # vs) = (if username = name \<and> v = Some Wrong then 1 else 0) + wrong_guesses name es vs"
| "wrong_guesses name (CleanUp now # es) (v # vs) = wrong_guesses name es vs"
| "wrong_guesses name es vs = 0"

text \<open>The readings of the clock do not decrease from \<open>since\<close> to \<open>until\<close>, attempt after attempt.\<close>

fun in_order :: "time \<Rightarrow> time \<Rightarrow> tracker_event list \<Rightarrow> bool" where
  "in_order since until [] \<longleftrightarrow> since \<le> until"
| "in_order since until (TryLogin clk username valid # es) \<longleftrightarrow>
     since \<le> clk 0 \<and> clk 0 \<le> clk 1 \<and> clk 1 \<le> clk 2 \<and> clk 2 \<le> clk 3 \<and> in_order (clk 3) until es"
| "in_order since until (CleanUp now # es) \<longleftrightarrow> since \<le> now \<and> in_order now until es"

fun never_right :: "string \<Rightarrow> tracker_event list \<Rightarrow> bool" where
  "never_right name [] \<longleftrightarrow> True"
| "never_right name (TryLogin clk username valid # es) \<longleftrightarrow> (username = name \<longrightarrow> \<not> valid) \<and> never_right name es"
| "never_right name (CleanUp now # es) \<longleftrightarrow> never_right name es"

section \<open>How many guesses\<close>

text \<open>A credit in seconds for each number of failures: a guess costs 133 seconds, and the lock-outs pay for what the
  credit grows by less.\<close>

definition credit :: "int \<Rightarrow> int" where
  "credit c = (if c \<le> 3 then 133 * c else if c \<le> 5 then 399 + 128 * (c - 3) else if c \<le> 7 then 655 + 103 * (c - 5)
     else if c \<le> 10 then 861 + 13 * (c - 7) else 900)"

lemma credit_le: "credit c \<le> 900"
  by (auto simp: credit_def)

lemma duration_values:
  "minute = 60000000000" "seconds n = n * 1000000000" "authFailureResetDuration = 900000000000"
  by (simp_all add: minute_def seconds_def authFailureResetDuration_def)

lemma credit_step:
  assumes "1 \<le> c" and "case applicable_delay authBackoffDelays c of None \<Rightarrow> d \<ge> 0 | Some delay \<Rightarrow> d \<ge> delay"
  shows "seconds (credit c) + seconds 133 \<le> d + seconds (credit (c + 1))"
  using assms by (auto simp: authBackoffDelays_def duration_values credit_def split: if_splits)

lemma stale_iff: "time_Sub now t > authFailureResetDuration \<longleftrightarrow> now - t > authFailureResetDuration"
  by (auto simp: time_Sub_def duration_values)

text \<open>After \<open>n\<close> wrong guesses since \<open>since\<close>, at the time \<open>now\<close>.\<close>

definition paid :: "time \<Rightarrow> time \<Rightarrow> nat \<Rightarrow> failure_record option \<Rightarrow> bool" where
  "paid since now n r =
     (case r of None \<Rightarrow> seconds (133 * int n) \<le> now - since
      | Some f \<Rightarrow> 1 \<le> fr_count f \<and> fr_lastFailure f \<le> now
          \<and> (n = 0 \<or> seconds (133 * int n) \<le> fr_lastFailure f - since + seconds (credit (fr_count f))))"

lemma paid_later: "paid since now n r \<Longrightarrow> now \<le> now' \<Longrightarrow> paid since now' n r"
  by (auto simp: paid_def split: option.splits)

lemma paid_cleanup:
  assumes "paid since now n (t name)" and "since \<le> now"
  shows "paid since now n (tracker_cleanup now t name)"
proof (cases "t name")
  case None
  then show ?thesis using assms by (simp add: tracker_cleanup_def)
next
  case (Some f)
  then show ?thesis using assms credit_le [of "fr_count f"]
    by (cases "now - fr_lastFailure f > authFailureResetDuration")
       (auto simp: paid_def tracker_cleanup_def stale_iff [unfolded duration_values] duration_values)
qed

lemma paid_attempt:
  assumes "paid since now n (t name)" and "since \<le> now" and "now \<le> clk 0" "clk 0 \<le> clk 1" "clk 1 \<le> clk 2" "clk 2 \<le> clk 3"
    and "attempt clk username valid t = (v, t')" and "username = name \<longrightarrow> \<not> valid"
  shows "paid since (clk 3) (n + (if username = name \<and> v = Wrong then 1 else 0)) (t' name)"
proof (cases "username = name \<and> v = Wrong")
  case False
  then have "t' name = t name"
    using assms(7,8) by (auto simp: attempt_def recordFailure_def resetFailures_def split: prod.splits bool.splits if_splits option.splits)
  then show ?thesis using paid_later [OF assms(1), of "clk 3"] assms(3-6) False by auto
next
  case True
  then have t': "t' = recordFailure (clk 2) (clk 3) name t" and allowed: "fst (checkRateLimit (clk 0) (clk 1) name t)"
    using assms(7,8) by (auto simp: attempt_def split: prod.splits bool.splits if_splits)
  show ?thesis
  proof (cases "t name")
    case None
    then show ?thesis using assms(1-6) True by (simp add: t' recordFailure_def paid_def credit_def duration_values)
  next
    case (Some f)
    have f: "1 \<le> fr_count f" "fr_lastFailure f \<le> now" "n = 0 \<or> seconds (133 * int n) \<le> fr_lastFailure f - since + seconds (credit (fr_count f))"
      using assms(1) Some by (auto simp: paid_def)
    show ?thesis
    proof (cases "clk 2 - fr_lastFailure f > authFailureResetDuration")
      case True
      have "seconds (credit (fr_count f)) \<le> authFailureResetDuration" using credit_le [of "fr_count f"] by (simp add: duration_values)
      then show ?thesis using True f assms(2-6) \<open>username = name \<and> v = Wrong\<close> Some
        by (auto simp: t' recordFailure_def paid_def stale_iff credit_def duration_values)
    next
      case False
      have "case applicable_delay authBackoffDelays (fr_count f) of None \<Rightarrow> clk 3 - fr_lastFailure f \<ge> 0 | Some delay \<Rightarrow> clk 3 - fr_lastFailure f \<ge> delay"
        using allowed Some f False assms(2-6) by (auto simp: checkRateLimit_def stale_iff Let_def split: option.splits if_splits)
      from credit_step [OF f(1) this]
      have "seconds (credit (fr_count f)) + seconds 133 \<le> clk 3 - fr_lastFailure f + seconds (credit (fr_count f + 1))" .
      moreover have "seconds 133 \<le> seconds (credit (fr_count f + 1))" using f(1) by (simp add: credit_def duration_values)
      ultimately show ?thesis using False f assms(2-6) \<open>username = name \<and> v = Wrong\<close> Some
        by (auto simp: t' recordFailure_def paid_def stale_iff [unfolded duration_values] duration_values)
    qed
  qed
qed

lemma paid_run:
  assumes "paid since now n (t name)" and "since \<le> now" and "in_order now until es" and "never_right name es" and "tracker_run es t = (vs, t')"
  shows "paid since until (n + wrong_guesses name es vs) (t' name)"
  using assms
proof (induction es arbitrary: now n t vs)
  case Nil
  then show ?case using paid_later by simp
next
  case (Cons e es)
  obtain v t1 vs1 where run: "tracker_step e t = (v, t1)" "tracker_run es t1 = (vs1, t')" "vs = v # vs1"
    using Cons.prems(5) by (auto split: prod.splits)
  show ?case
  proof (cases e)
    case (TryLogin clk username valid)
    obtain w where w: "attempt clk username valid t = (w, t1)" "v = Some w" using run(1) by (auto simp: TryLogin split: prod.splits)
    have "paid since (clk 3) (n + (if username = name \<and> w = Wrong then 1 else 0)) (t1 name)"
      using paid_attempt [OF Cons.prems(1,2) _ _ _ _ w(1)] Cons.prems(3,4) by (simp add: TryLogin)
    from Cons.IH [OF this _ _ _ run(2)] show ?thesis using Cons.prems(2-4) run(3) w(2) by (auto simp: TryLogin add.assoc split: if_splits)
  next
    case (CleanUp m)
    have "paid since m n (t1 name)"
      using run(1) paid_cleanup [where t = t and name = name and n = n and since = since and now = m] paid_later [OF Cons.prems(1), of m] Cons.prems(2,3) by (auto simp: CleanUp)
    from Cons.IH [OF this _ _ _ run(2)] show ?thesis using Cons.prems(2-4) run(3) by (auto simp: CleanUp)
  qed
qed

text \<open>C33. Guesses against one name that come one after another over the HTTP API are slow: in any period in which no login of
  the name succeeds and no attempt starts before the failure of the previous one is recorded, whatever happens to other
  names and whenever the stale entries are removed, the wrong guesses whose credentials are checked are at most one per 133
  seconds of the period, and 900 seconds' worth of them in advance. (Attempts that overlap are all checked, see
  \<open>overlapping_guesses_pass\<close>, and logins of the database listeners do not use the tracker.)\<close>

theorem guesses_bounded:
  assumes "in_order since until es" and "never_right name es" and "tracker_run es t = (vs, t')"
    and "case t name of None \<Rightarrow> True | Some f \<Rightarrow> 1 \<le> fr_count f \<and> fr_lastFailure f \<le> since"
  shows "seconds (133 * int (wrong_guesses name es vs)) \<le> until - since + seconds 900"
proof -
  have "paid since since 0 (t name)" using assms(4) by (auto simp: paid_def duration_values split: option.splits)
  from paid_run [OF this _ assms(1-3)] have p: "paid since until (wrong_guesses name es vs) (t' name)" by simp
  have le: "since \<le> until" using assms(1) by (induction since until es rule: in_order.induct) auto
  show ?thesis
  proof (cases "t' name")
    case None
    then show ?thesis using p by (simp add: paid_def duration_values)
  next
    case (Some f)
    then show ?thesis using p le credit_le [of "fr_count f"] by (auto simp: paid_def duration_values)
  qed
qed

text \<open>The check changes nothing: attempts that all run their check before the first failure is recorded are all let through, and
  their failures are recorded afterwards.\<close>

lemma overlapping_guesses_pass:
  "(\<forall>clk\<in>set (clks :: (nat \<Rightarrow> time) list). fst (checkRateLimit (clk 0) (clk 1) name newAuthFailureTracker))
   \<and> (clks \<noteq> [] \<longrightarrow> map_option fr_count (fold (\<lambda>clk. recordFailure 0 0 name) clks newAuthFailureTracker name) = Some (int (length clks)))"
proof -
  have "map_option fr_count (fold (\<lambda>clk. recordFailure 0 0 name) clks t name) = Some (n + int (length clks))"
    if "t name = Some \<lparr>fr_count = n, fr_lastFailure = 0\<rparr>" for t n and clks :: "(nat \<Rightarrow> time) list"
    using that
  proof (induction clks arbitrary: t n)
    case (Cons c clks)
    have "recordFailure 0 0 name t name = Some \<lparr>fr_count = n + 1, fr_lastFailure = 0\<rparr>"
      using Cons.prems by (simp add: recordFailure_def time_Sub_def duration_values)
    from Cons.IH [of "recordFailure 0 0 name t" "n + 1", OF this] show ?case by (simp add: add.assoc)
  qed simp
  note run = this [of "recordFailure 0 0 name newAuthFailureTracker" 1]
  show ?thesis using run [of "tl clks"] by (cases clks) (auto simp: checkRateLimit_def newAuthFailureTracker_def recordFailure_def)
qed

definition quick_guesses :: "tracker_event list" where
  "quick_guesses = [TryLogin (\<lambda>_. 7) ''ann'' False, TryLogin (\<lambda>_. 7) ''ann'' False, TryLogin (\<lambda>_. 7) ''bob'' True,
     TryLogin (\<lambda>_. 7) ''ann'' False, TryLogin (\<lambda>_. 7) ''ann'' False]"

theorem guesses_bounded_witness:
  "fst (tracker_run quick_guesses newAuthFailureTracker) = [Some Wrong, Some Wrong, Some Right, Some Wrong, Some (Locked 5)]
   \<and> seconds (133 * 3) \<le> 7 - 7 + seconds 900"
proof -
  have "in_order 7 7 quick_guesses" "never_right ''ann'' quick_guesses" by (simp_all add: quick_guesses_def)
  note bound = guesses_bounded [OF this prod.collapse [symmetric], of newAuthFailureTracker]
  have vs: "fst (tracker_run quick_guesses newAuthFailureTracker) = [Some Wrong, Some Wrong, Some Right, Some Wrong, Some (Locked 5)]" by code_simp
  have "wrong_guesses ''ann'' quick_guesses [Some Wrong, Some Wrong, Some Right, Some Wrong, Some (Locked 5)] = 3" by (simp add: quick_guesses_def)
  then show ?thesis using bound vs by (simp add: newAuthFailureTracker_def)
qed

end
