(* ===== verification/Servers.thy ===== *)
theory Servers
  imports Database Crypto
begin

text \<open>
  \<open>internal/store/servers.go\<close> and the storage check of \<open>store.go\<close>: the targets and the SSH bastions. Secrets
  are encrypted under the master key and bound to the row. \<open>via_uid\<close> makes the rows a graph; the
  main result is that every sequence of operations keeps it free of cycles. \<open>url.Parse\<close> and the
  collation of the database are parameters; \<open>uuid_String\<close> prints an identifier.
\<close>

section \<open>The storage database\<close>

record dsn_components =
  dsn_Host :: string
  dsn_Port :: string
  dsn_Server :: string

definition normalizeHost :: "string \<Rightarrow> string" where
  "normalizeHost host =
     (let h = ToLower host in if h = ''localhost'' \<or> h = ''127.0.0.1'' \<or> h = ''::1'' then ''localhost'' else h)"

text \<open>One part of the key-value format.\<close>

definition dsn_part :: "string \<Rightarrow> dsn_components \<Rightarrow> dsn_components" where
  "dsn_part part c =
     (case Index part ''='' of None \<Rightarrow> c
      | Some idx \<Rightarrow>
          let key = ToLower (take idx part); value = Trim [CHR 0x27, CHR 0x22] (drop (idx + 1) part) in
          if key = ''host'' then c\<lparr>dsn_Host := normalizeHost value\<rparr>
          else if key = ''port'' then c\<lparr>dsn_Port := value\<rparr>
          else if key = ''dbname'' \<or> key = ''database'' then c\<lparr>dsn_Server := value\<rparr>
          else c)"

text \<open>\<open>url_Parse\<close> gives the host name, the port and the path of a URL.\<close>

definition parsePostgresDSN :: "(string \<Rightarrow> (string \<times> string \<times> string) option) \<Rightarrow> string \<Rightarrow> dsn_components option" where
  "parsePostgresDSN url_Parse dsn =
     (if HasPrefix dsn ''postgres://'' \<or> HasPrefix dsn ''postgresql://'' then
        (case url_Parse dsn of None \<Rightarrow> None
         | Some (host, port, path) \<Rightarrow>
             Some \<lparr>dsn_Host = normalizeHost host, dsn_Port = (if port = [] then ''5432'' else port), dsn_Server = TrimPrefix path ''/''\<rparr>)
      else Some (fold dsn_part (Fields dsn) \<lparr>dsn_Host = [], dsn_Port = ''5432'', dsn_Server = []\<rparr>))"

text \<open>The storage DSN enters as the result of parsing it.\<close>

definition MatchesStorageDSN :: "dsn_components option \<Rightarrow> string \<Rightarrow> int \<Rightarrow> string \<Rightarrow> bool" where
  "MatchesStorageDSN storage host port databaseName =
     (case storage of None \<Rightarrow> False
      | Some c \<Rightarrow> dsn_Host c = normalizeHost host \<and> dsn_Port c = FormatInt port \<and> dsn_Server c = databaseName)"

section \<open>Lookups\<close>

abbreviation live_server :: "server \<Rightarrow> bool" where
  "live_server s \<equiv> srv_DeletedAt s = None"

definition find_server :: "(server \<Rightarrow> bool) \<Rightarrow> db \<Rightarrow> (store_error + server) \<times> db" where
  "find_server P = read_stmt (\<lambda>st. case find (\<lambda>s. P s \<and> live_server s) (db_servers st) of
     None \<Rightarrow> Inl ErrServerNotFound | Some s \<Rightarrow> Inr s)"

definition list_servers :: "(string \<Rightarrow> nat) \<Rightarrow> (server \<Rightarrow> bool) \<Rightarrow> db \<Rightarrow> (store_error + server list) \<times> db" where
  "list_servers collate P =
     read_stmt (\<lambda>st. Inr (sort_key (\<lambda>s. collate (srv_Name s)) (filter (\<lambda>s. P s \<and> live_server s) (db_servers st))))"

definition GetServerByName :: "string \<Rightarrow> db \<Rightarrow> (store_error + server) \<times> db" where
  "GetServerByName name = find_server (\<lambda>s. srv_Name s = name \<and> srv_Protocol s \<noteq> ProtocolSSH)"

definition GetServerByOracleServiceName :: "string \<Rightarrow> db \<Rightarrow> (store_error + server) \<times> db" where
  "GetServerByOracleServiceName serviceName =
     find_server (\<lambda>s. srv_OracleServiceName s = Some serviceName \<and> srv_Protocol s = ProtocolOracle)"

definition ListServersByOracleServiceName :: "(string \<Rightarrow> nat) \<Rightarrow> string \<Rightarrow> db \<Rightarrow> (store_error + server list) \<times> db" where
  "ListServersByOracleServiceName collate serviceName =
     list_servers collate (\<lambda>s. srv_OracleServiceName s = Some serviceName \<and> srv_Protocol s = ProtocolOracle)"

definition ListSSHServers :: "(string \<Rightarrow> nat) \<Rightarrow> db \<Rightarrow> (store_error + server list) \<times> db" where
  "ListSSHServers collate = list_servers collate (\<lambda>s. srv_Protocol s = ProtocolSSH)"

definition ListListableServers :: "(string \<Rightarrow> nat) \<Rightarrow> db \<Rightarrow> (store_error + server list) \<times> db" where
  "ListListableServers collate = list_servers collate (\<lambda>s. srv_Listable s \<and> srv_Protocol s \<noteq> ProtocolSSH)"

definition ListServers :: "(string \<Rightarrow> nat) \<Rightarrow> db \<Rightarrow> (store_error + server list) \<times> db" where
  "ListServers collate = list_servers collate (\<lambda>s. srv_Protocol s \<noteq> ProtocolSSH)"

section \<open>The via chain\<close>

lemma GetServerByUID_found:
  assumes "GetServerByUID uid st = (Inr s, st1)"
  shows "same_tables st st1" and "s \<in> set (db_servers st)" and "srv_UID s = uid" and "srv_DeletedAt s = None"
proof -
  have st: "same_tables st st1" "find (\<lambda>s. srv_UID s = uid \<and> srv_DeletedAt s = None) (db_servers st1) = Some s"
    using assms read_stmt_Inr [of _ st s st1] unfolding GetServerByUID_def by (fastforce split: option.splits)+
  moreover have "db_servers st1 = db_servers st" using st(1) by (simp add: same_tables_select)
  ultimately show "same_tables st st1" "s \<in> set (db_servers st)" "srv_UID s = uid" "srv_DeletedAt s = None"
    by (auto simp: find_Some_iff)
qed

text \<open>The loop of \<open>validateViaUID\<close>. Each round looks up a row that no earlier round has seen, so the rows
  bound the number of rounds.\<close>

function validate_via :: "uuid \<Rightarrow> uuid set \<Rightarrow> uuid \<Rightarrow> db \<Rightarrow> (store_error + unit) \<times> db" where
  "validate_via selfUID seen cur st =
     (if selfUID \<noteq> uuid_Nil \<and> cur = selfUID then (Inl ErrServerViaCycle, st)
      else if cur \<in> seen then (Inl ErrServerViaCycle, st)
      else case GetServerByUID cur st of (Inl e, st1) \<Rightarrow> (Inl e, st1)
      | (Inr via, st1) \<Rightarrow>
          if srv_Protocol via \<noteq> ProtocolSSH then (Inl ErrServerViaNotSSH, st1)
          else case srv_ViaUID via of None \<Rightarrow> (Inr (), st1)
          | Some nxt \<Rightarrow> validate_via selfUID (insert cur seen) nxt st1)"
  by pat_completeness auto

termination
proof (relation "measure (\<lambda>(self, seen, cur, st). card (set (map srv_UID (db_servers st)) - seen))", goal_cases)
  case (2 selfUID seen cur st x st1 via nxt)
  then have g: "GetServerByUID cur st = (Inr via, st1)" by simp
  have "cur \<in> set (map srv_UID (db_servers st)) - seen" "db_servers st1 = db_servers st"
    using 2 GetServerByUID_found [OF g] by (auto simp: same_tables_select)
  moreover have "card (A - insert cur seen) < card (A - seen)" if "cur \<in> A - seen" "finite A" for A :: "uuid set"
    by (rule psubset_card_mono) (use that in auto)
  ultimately show ?case by simp
qed simp

definition validateViaUID :: "uuid \<Rightarrow> uuid \<Rightarrow> db \<Rightarrow> (store_error + unit) \<times> db" where
  "validateViaUID selfUID viaUID st = validate_via selfUID {} viaUID st"

declare validate_via.simps [simp del]

section \<open>Secrets\<close>

text \<open>\<open>encryptSSHSecrets\<close> with the nonces of its two encryptions.\<close>

definition encryptSSHSecrets ::
  "prims \<Rightarrow> (uuid \<Rightarrow> string) \<Rightarrow> bytes \<Rightarrow> bytes \<Rightarrow> uuid \<Rightarrow> ssh_server_data \<Rightarrow> bytes \<Rightarrow> crypto_error + ssh_server_data" where
  "encryptSSHSecrets X uuid_String n1 n2 uid sd key =
     (let aad = ServerAAD (uuid_String uid) in
      case (if sd_PrivateKey sd \<noteq> [] then
              (case Encrypt X n1 (bytes_of (sd_PrivateKey sd)) key aad of Inl e \<Rightarrow> Inl e
               | Inr enc \<Rightarrow> Inr (sd\<lparr>sd_PrivateKeyEncrypted := enc, sd_PrivateKey := []\<rparr>))
            else Inr sd) of
        Inl e \<Rightarrow> Inl e
      | Inr sd1 \<Rightarrow>
          if sd_Passphrase sd1 \<noteq> [] then
            (case Encrypt X n2 (bytes_of (sd_Passphrase sd1)) key aad of Inl e \<Rightarrow> Inl e
             | Inr enc \<Rightarrow> Inr (sd1\<lparr>sd_PassphraseEncrypted := enc, sd_Passphrase := []\<rparr>))
          else Inr sd1)"

definition set_ssh :: "ssh_server_data \<Rightarrow> server \<Rightarrow> server" where
  "set_ssh sd s = s\<lparr>srv_ProtocolData := map_option (\<lambda>d. d\<lparr>sp_SSH := Some sd\<rparr>) (srv_ProtocolData s)\<rparr>"

definition DecryptSSHSecrets :: "prims \<Rightarrow> (uuid \<Rightarrow> string) \<Rightarrow> bytes \<Rightarrow> server \<Rightarrow> crypto_error + server" where
  "DecryptSSHSecrets X uuid_String key db =
     (case SSHData db of None \<Rightarrow> Inr db
      | Some sd \<Rightarrow>
          let aad = ServerAAD (uuid_String (srv_UID db)) in
          case (if length (sd_PrivateKeyEncrypted sd) > 0 then
                  (case Decrypt X (sd_PrivateKeyEncrypted sd) key aad of Inl e \<Rightarrow> Inl e | Inr pt \<Rightarrow> Inr (sd\<lparr>sd_PrivateKey := str_of pt\<rparr>))
                else Inr sd) of
            Inl e \<Rightarrow> Inl e
          | Inr sd1 \<Rightarrow>
              if length (sd_PassphraseEncrypted sd1) > 0 then
                (case Decrypt X (sd_PassphraseEncrypted sd1) key aad of Inl e \<Rightarrow> Inl e
                 | Inr pt \<Rightarrow> Inr (set_ssh (sd1\<lparr>sd_Passphrase := str_of pt\<rparr>) db))
              else Inr (set_ssh sd1 db))"

definition DecryptPassword :: "prims \<Rightarrow> (uuid \<Rightarrow> string) \<Rightarrow> bytes \<Rightarrow> server \<Rightarrow> crypto_error + server" where
  "DecryptPassword X uuid_String key db =
     (case Decrypt X (srv_PasswordEncrypted db) key (ServerAAD (uuid_String (srv_UID db))) of
        Inl e \<Rightarrow> Inl e | Inr pt \<Rightarrow> Inr (db\<lparr>srv_Password := str_of pt\<rparr>))"

definition MongoAuthSourceOrDefault :: "server \<Rightarrow> string" where
  "MongoAuthSourceOrDefault db =
     (case ServerMongoData db of Some src \<Rightarrow> if src \<noteq> [] then src else ''admin'' | None \<Rightarrow> ''admin'')"

section \<open>Creating a server\<close>

text \<open>What a row keeps: the decrypted secrets have no column.\<close>

definition stored :: "server \<Rightarrow> server" where
  "stored s = s\<lparr>srv_Password := [], srv_ProtocolData := map_option (\<lambda>d.
     d\<lparr>sp_SSH := map_option (\<lambda>sd. sd\<lparr>sd_PrivateKey := [], sd_Passphrase := []\<rparr>) (sp_SSH d)\<rparr>) (srv_ProtocolData s)\<rparr>"

text \<open>The insert: \<open>servers_name_key\<close> covers deleted rows too, \<open>via_uid\<close> and \<open>created_by\<close> are foreign keys.\<close>

definition insert_server :: "server \<Rightarrow> db \<Rightarrow> (store_error + unit) \<times> db" where
  "insert_server s = write_stmt (\<lambda>st.
     if srv_Name s \<in> set (map srv_Name (db_servers st)) then Inl ErrServerNameConflict
     else if srv_UID s \<in> set (map srv_UID (db_servers st))
       \<or> (case srv_ViaUID s of None \<Rightarrow> False | Some v \<Rightarrow> \<not> server_exists st v)
       \<or> (case srv_CreatedBy s of None \<Rightarrow> False | Some u \<Rightarrow> \<not> user_exists st u) then Inl ErrDB
     else Inr ((), st\<lparr>db_servers := db_servers st @ [stored s]\<rparr>))"

definition update_pk :: "uuid \<Rightarrow> (server \<Rightarrow> server) \<Rightarrow> db \<Rightarrow> (store_error + unit) \<times> db" where
  "update_pk uid f = write_stmt (\<lambda>st. Inr ((), st\<lparr>db_servers := update_where (\<lambda>s. srv_UID s = uid \<and> live_server s) f (db_servers st)\<rparr>))"

definition lift_err :: "crypto_error + 'a \<Rightarrow> db \<Rightarrow> (store_error + 'a) \<times> db" where
  "lift_err r st = (case r of Inl _ \<Rightarrow> (Inl ErrCrypto, st) | Inr x \<Rightarrow> (Inr x, st))"

text \<open>The random nonces and the generated identifier of one call.\<close>

record server_random =
  sr_uid :: uuid
  sr_nonce :: bytes
  sr_nonce_key :: bytes
  sr_nonce_pass :: bytes

definition has_ssh_secret :: "server \<Rightarrow> bool" where
  "has_ssh_secret db = (case SSHData db of None \<Rightarrow> False | Some sd \<Rightarrow> sd_PrivateKey sd \<noteq> [] \<or> sd_Passphrase sd \<noteq> [])"

definition create_in_tx ::
  "prims \<Rightarrow> (uuid \<Rightarrow> string) \<Rightarrow> server_random \<Rightarrow> bytes \<Rightarrow> string \<Rightarrow> bool \<Rightarrow> server \<Rightarrow> db \<Rightarrow> (store_error + server) \<times> db" where
  "create_in_tx X uuid_String R key plainPassword sshPlain result st =
     and_then (insert_server (result\<lparr>srv_PasswordEncrypted := bytes_of ''placeholder''\<rparr>) st) (\<lambda>_ st1.
     and_then (lift_err (Encrypt X (sr_nonce R) (bytes_of plainPassword) key (ServerAAD (uuid_String (srv_UID result)))) st1) (\<lambda>enc st2.
     let result1 = result\<lparr>srv_PasswordEncrypted := enc\<rparr> in
     and_then (update_pk (srv_UID result) (\<lambda>s. s\<lparr>srv_PasswordEncrypted := enc\<rparr>) st2) (\<lambda>_ st3.
     if \<not> sshPlain then (Inr result1, st3)
     else case SSHData result1 of None \<Rightarrow> (Inr result1, st3)
     | Some sd \<Rightarrow>
         and_then (lift_err (encryptSSHSecrets X uuid_String (sr_nonce_key R) (sr_nonce_pass R) (srv_UID result) sd key) st3) (\<lambda>sd1 st4.
         let result2 = set_ssh sd1 result1 in
         and_then (update_pk (srv_UID result) (\<lambda>s. s\<lparr>srv_ProtocolData := srv_ProtocolData (stored result2)\<rparr>) st4) (\<lambda>_ st5.
         (Inr result2, st5))))))"

definition CreateServer ::
  "prims \<Rightarrow> (uuid \<Rightarrow> string) \<Rightarrow> dsn_components option \<Rightarrow> server_random \<Rightarrow> server \<Rightarrow> bytes \<Rightarrow> time \<Rightarrow> time \<Rightarrow> db \<Rightarrow> (store_error + server) \<times> db" where
  "CreateServer X uuid_String storage R db key now now' st =
     (if MatchesStorageDSN storage (srv_Host db) (srv_Port db) (srv_DatabaseName db) then (Inl ErrTargetMatchesStorage, st)
      else and_then (case srv_ViaUID db of None \<Rightarrow> (Inr (), st) | Some v \<Rightarrow> validateViaUID uuid_Nil v st) (\<lambda>_ st1.
        RunInTx (create_in_tx X uuid_String R key (srv_Password db) (has_ssh_secret db)
          (db\<lparr>srv_UID := sr_uid R, srv_Password := [], srv_PasswordEncrypted := [], srv_CreatedAt := now, srv_UpdatedAt := now',
              srv_DeletedAt := None\<rparr>)) st1))"

section \<open>Changing a server\<close>

record server_update =
  su_Description :: "string option"
  su_Host :: "string option"
  su_Port :: "int option"
  su_DatabaseName :: "string option"
  su_Username :: "string option"
  su_Password :: "string option"
  su_SSLMode :: "string option"
  su_Protocol :: "string option"
  su_OracleServiceName :: "string option"
  su_MongoAuthSource :: "string option"
  su_Listable :: "bool option"
  su_ViaUID :: "uuid option"
  su_ClearViaUID :: bool
  su_SSHPrivateKey :: "string option"
  su_SSHPassphrase :: "string option"

definition valueOrDefault :: "'a option \<Rightarrow> 'a \<Rightarrow> 'a" where
  "valueOrDefault ptr def = (case ptr of Some v \<Rightarrow> v | None \<Rightarrow> def)"

definition checkStorageDSNConflict :: "dsn_components option \<Rightarrow> uuid \<Rightarrow> server_update \<Rightarrow> db \<Rightarrow> (store_error + unit) \<times> db" where
  "checkStorageDSNConflict storage uid u st =
     (if su_Host u = None \<and> su_Port u = None \<and> su_DatabaseName u = None then (Inr (), st)
      else and_then (GetServerByUID uid st) (\<lambda>current st1.
        if MatchesStorageDSN storage (valueOrDefault (su_Host u) (srv_Host current)) (valueOrDefault (su_Port u) (srv_Port current))
             (valueOrDefault (su_DatabaseName u) (srv_DatabaseName current))
        then (Inl ErrTargetMatchesStorage, st1) else (Inr (), st1)))"

definition empty_ssh :: ssh_server_data where
  "empty_ssh = \<lparr>sd_PrivateKeyEncrypted = [], sd_PassphraseEncrypted = [], sd_KnownHostKey = [], sd_PrivateKey = [], sd_Passphrase = []\<rparr>"

definition protocol_data_of :: "server \<Rightarrow> server_protocol_data" where
  "protocol_data_of s = (case srv_ProtocolData s of Some d \<Rightarrow> d | None \<Rightarrow> \<lparr>sp_MongoDB = None, sp_SSH = None\<rparr>)"

definition ssh_of :: "server_protocol_data \<Rightarrow> ssh_server_data" where
  "ssh_of d = (case sp_SSH d of Some sd \<Rightarrow> sd | None \<Rightarrow> empty_ssh)"

definition mergedSSHSecrets ::
  "prims \<Rightarrow> (uuid \<Rightarrow> string) \<Rightarrow> server_random \<Rightarrow> uuid \<Rightarrow> server_update \<Rightarrow> bytes \<Rightarrow> db \<Rightarrow> (store_error + server_protocol_data) \<times> db" where
  "mergedSSHSecrets X uuid_String R uid u key st =
     and_then (GetServerByUID uid st) (\<lambda>current st1.
       let d = protocol_data_of current; sd = ssh_of d; aad = ServerAAD (uuid_String uid) in
       and_then (case su_SSHPrivateKey u of None \<Rightarrow> (Inr sd, st1)
         | Some k \<Rightarrow> and_then (lift_err (Encrypt X (sr_nonce_key R) (bytes_of k) key aad) st1)
             (\<lambda>enc st. (Inr (sd\<lparr>sd_PrivateKeyEncrypted := enc\<rparr>), st))) (\<lambda>sd1 st2.
       and_then (case su_SSHPassphrase u of None \<Rightarrow> (Inr sd1, st2)
         | Some k \<Rightarrow> and_then (lift_err (Encrypt X (sr_nonce_pass R) (bytes_of k) key aad) st2)
             (\<lambda>enc st. (Inr (sd1\<lparr>sd_PassphraseEncrypted := enc\<rparr>), st))) (\<lambda>sd2 st3.
       (Inr (d\<lparr>sp_SSH := Some sd2\<rparr>), st3))))"

definition applyServerColumnUpdates :: "server_update \<Rightarrow> server \<Rightarrow> server" where
  "applyServerColumnUpdates u s =
     s\<lparr>srv_Description := valueOrDefault (su_Description u) (srv_Description s),
       srv_Host := valueOrDefault (su_Host u) (srv_Host s), srv_Port := valueOrDefault (su_Port u) (srv_Port s),
       srv_DatabaseName := valueOrDefault (su_DatabaseName u) (srv_DatabaseName s),
       srv_Username := valueOrDefault (su_Username u) (srv_Username s), srv_SSLMode := valueOrDefault (su_SSLMode u) (srv_SSLMode s),
       srv_Protocol := valueOrDefault (su_Protocol u) (srv_Protocol s),
       srv_OracleServiceName := (case su_OracleServiceName u of Some n \<Rightarrow> Some n | None \<Rightarrow> srv_OracleServiceName s),
       srv_ProtocolData := (case su_MongoAuthSource u of None \<Rightarrow> srv_ProtocolData s
          | Some src \<Rightarrow> Some ((protocol_data_of s)\<lparr>sp_MongoDB := Some src\<rparr>)),
       srv_Listable := valueOrDefault (su_Listable u) (srv_Listable s),
       srv_ViaUID := (if su_ClearViaUID u then None else case su_ViaUID u of Some v \<Rightarrow> Some v | None \<Rightarrow> srv_ViaUID s)\<rparr>"

text \<open>The one \<open>UPDATE\<close> of \<open>UpdateServer\<close>. Two assignments to \<open>protocol_data\<close> in one statement are an error.\<close>

definition update_server_row ::
  "uuid \<Rightarrow> server_update \<Rightarrow> bytes option \<Rightarrow> server_protocol_data option \<Rightarrow> time \<Rightarrow> db \<Rightarrow> (store_error + unit) \<times> db" where
  "update_server_row uid u enc pd now =
     write_stmt (\<lambda>st.
       let hit = (\<lambda>s. srv_UID s = uid \<and> live_server s);
           f = (\<lambda>s. let s1 = applyServerColumnUpdates u (s\<lparr>srv_UpdatedAt := now\<rparr>);
                        s2 = (case enc of None \<Rightarrow> s1 | Some e \<Rightarrow> s1\<lparr>srv_PasswordEncrypted := e\<rparr>)
                    in case pd of None \<Rightarrow> s2 | Some d \<Rightarrow> s2\<lparr>srv_ProtocolData := Some d\<rparr>)
       in if (su_MongoAuthSource u \<noteq> None \<and> pd \<noteq> None)
           \<or> (filter hit (db_servers st) \<noteq> [] \<and> \<not> su_ClearViaUID u \<and>
              (case su_ViaUID u of None \<Rightarrow> False | Some v \<Rightarrow> \<not> server_exists st v)) then Inl ErrDB
          else if filter hit (db_servers st) = [] then Inl ErrServerNotFound
          else Inr ((), st\<lparr>db_servers := update_where hit f (db_servers st)\<rparr>))"

definition UpdateServer ::
  "prims \<Rightarrow> (uuid \<Rightarrow> string) \<Rightarrow> dsn_components option \<Rightarrow> server_random \<Rightarrow> uuid \<Rightarrow> server_update \<Rightarrow> bytes \<Rightarrow> time \<Rightarrow> db \<Rightarrow> (store_error + unit) \<times> db" where
  "UpdateServer X uuid_String storage R uid u key now st =
     and_then (checkStorageDSNConflict storage uid u st) (\<lambda>_ st1.
     and_then (case su_ViaUID u of None \<Rightarrow> (Inr (), st1) | Some v \<Rightarrow> validateViaUID uid v st1) (\<lambda>_ st2.
     and_then (case su_Password u of None \<Rightarrow> (Inr None, st2)
       | Some p \<Rightarrow> and_then (lift_err (Encrypt X (sr_nonce R) (bytes_of p) key (ServerAAD (uuid_String uid))) st2)
           (\<lambda>enc st. (Inr (Some enc), st))) (\<lambda>enc st3.
     and_then (if su_SSHPrivateKey u \<noteq> None \<or> su_SSHPassphrase u \<noteq> None
       then and_then (mergedSSHSecrets X uuid_String R uid u key st3) (\<lambda>d st. (Inr (Some d), st)) else (Inr None, st3)) (\<lambda>pd st4.
     update_server_row uid u enc pd now st4))))"

definition DeleteServer :: "uuid \<Rightarrow> time \<Rightarrow> db \<Rightarrow> (store_error + unit) \<times> db" where
  "DeleteServer uid now =
     write_stmt (\<lambda>st. let hit = (\<lambda>s. srv_UID s = uid \<and> live_server s) in
       if filter hit (db_servers st) = [] then Inl ErrServerNotFound
       else Inr ((), st\<lparr>db_servers := update_where hit (\<lambda>s. s\<lparr>srv_DeletedAt := Some now\<rparr>) (db_servers st)\<rparr>))"

definition SetKnownHostKey :: "uuid \<Rightarrow> string \<Rightarrow> db \<Rightarrow> (store_error + unit) \<times> db" where
  "SetKnownHostKey uid hostKey =
     update_pk uid (\<lambda>s. let d = protocol_data_of s in
       s\<lparr>srv_ProtocolData := Some (d\<lparr>sp_SSH := Some ((ssh_of d)\<lparr>sd_KnownHostKey := hostKey\<rparr>)\<rparr>)\<rparr>)"

section \<open>Every sequence of operations\<close>

datatype server_op =
    Create_server server_random server bytes time time
  | Update_server server_random uuid server_update bytes time
  | Delete_server uuid time
  | Pin_host_key uuid string

definition server_step :: "prims \<Rightarrow> (uuid \<Rightarrow> string) \<Rightarrow> dsn_components option \<Rightarrow> server_op \<Rightarrow> db \<Rightarrow> db" where
  "server_step X uuid_String storage op st =
     (case op of
        Create_server R s key now now' \<Rightarrow> snd (CreateServer X uuid_String storage R s key now now' st)
      | Update_server R uid u key now \<Rightarrow> snd (UpdateServer X uuid_String storage R uid u key now st)
      | Delete_server uid now \<Rightarrow> snd (DeleteServer uid now st)
      | Pin_host_key uid k \<Rightarrow> snd (SetKnownHostKey uid k st))"

definition server_run :: "prims \<Rightarrow> (uuid \<Rightarrow> string) \<Rightarrow> dsn_components option \<Rightarrow> server_op list \<Rightarrow> db \<Rightarrow> db" where
  "server_run X uuid_String storage = fold (server_step X uuid_String storage)"

text \<open>A generated identifier is not the nil one.\<close>

definition fresh_uid :: "server_op \<Rightarrow> bool" where
  "fresh_uid op = (case op of Create_server R _ _ _ _ \<Rightarrow> sr_uid R \<noteq> uuid_Nil | _ \<Rightarrow> True)"

text \<open>Edges from a row to the bastion it is reached through, deleted rows included.\<close>

definition via_edges :: "server list \<Rightarrow> (uuid \<times> uuid) set" where
  "via_edges rows = set (concat (map (\<lambda>s. case srv_ViaUID s of None \<Rightarrow> [] | Some v \<Rightarrow> [(srv_UID s, v)]) rows))"

text \<open>What a row alone satisfies: it is not the storage database and it holds no plain secret.\<close>

definition row_ok :: "dsn_components option \<Rightarrow> server \<Rightarrow> bool" where
  "row_ok storage s \<longleftrightarrow> \<not> MatchesStorageDSN storage (srv_Host s) (srv_Port s) (srv_DatabaseName s) \<and> stored s = s"

definition servers_ok :: "dsn_components option \<Rightarrow> server list \<Rightarrow> bool" where
  "servers_ok storage rows \<longleftrightarrow>
     distinct (map srv_UID rows) \<and> distinct (map srv_Name rows) \<and> uuid_Nil \<notin> set (map srv_UID rows) \<and>
     snd ` via_edges rows \<subseteq> set (map srv_UID rows) \<and> acyclic (via_edges rows) \<and> list_all (row_ok storage) rows"

section \<open>Lemmas\<close>

lemma via_edges_iff: "(a, b) \<in> via_edges rows \<longleftrightarrow> (\<exists>s\<in>set rows. srv_UID s = a \<and> srv_ViaUID s = Some b)"
  by (simp add: via_edges_def split: option.splits) (metis (no_types) option.distinct(1) option.inject)

lemma via_edges_append: "via_edges (xs @ ys) = via_edges xs \<union> via_edges ys"
  by (auto simp: via_edges_def)

lemma edge_unique:
  assumes "distinct (map srv_UID rows)" and "s \<in> set rows" and "(srv_UID s, b) \<in> via_edges rows"
  shows "srv_ViaUID s = Some b"
proof -
  obtain t where "t \<in> set rows" "srv_UID t = srv_UID s" "srv_ViaUID t = Some b" using assms(3) by (auto simp: via_edges_iff)
  then show ?thesis using distinct_map_eq [OF assms(1) \<open>t \<in> set rows\<close> assms(2)] by simp
qed

lemma GetServerByUID_same: "same_tables st (snd (GetServerByUID uid st))"
  unfolding GetServerByUID_def by (rule read_stmt_same) (rule prod.collapse [symmetric])

lemma validate_via_same: "same_tables st (snd (validate_via self seen cur st))"
proof (induction self seen cur st rule: validate_via.induct)
  case (1 self seen cur st)
  obtain r st1 where g: "GetServerByUID cur st = (r, st1)" by fastforce
  have s: "same_tables st st1" using GetServerByUID_same [of st cur] g by simp
  show ?case
  proof (cases r)
    case (Inl e)
    then show ?thesis using g s by (simp add: validate_via.simps [of self seen cur st])
  next
    case (Inr v)
    then show ?thesis using g s 1 [OF _ _ g [symmetric] Inr]
      by (auto simp: validate_via.simps [of self seen cur st] split: option.splits intro: same_tables_trans)
  qed
qed

text \<open>A chain that was accepted exists and does not lead back.\<close>

lemma validate_via_sound:
  assumes "fst (validate_via self seen cur st) = Inr ()" and "distinct (map srv_UID (db_servers st))"
  shows "cur \<in> set (map srv_UID (db_servers st))"
    and "self \<noteq> uuid_Nil \<Longrightarrow> (cur, self) \<notin> (via_edges (db_servers st))\<^sup>*"
proof -
  have "cur \<in> set (map srv_UID (db_servers st)) \<and> (self \<noteq> uuid_Nil \<longrightarrow> (cur, self) \<notin> (via_edges (db_servers st))\<^sup>*)"
    using assms
  proof (induction self seen cur st rule: validate_via.induct)
    case (1 self seen cur st)
    obtain r st1 where g: "GetServerByUID cur st = (r, st1)" by fastforce
    from 1(2) g obtain v where r: "r = Inr v" by (cases r) (auto simp: validate_via.simps [of self seen cur st] split: if_splits)
    note v = GetServerByUID_found [OF g [unfolded r]]
    note sv = same_tables_select(2) [OF v(1)]
    have ne: "\<not> (self \<noteq> uuid_Nil \<and> cur = self)" "cur \<notin> seen" and p: "srv_Protocol v = ProtocolSSH"
      using 1(2) g r by (auto simp: validate_via.simps [of self seen cur st] split: if_splits)
    have out: "srv_ViaUID v = Some b" if "(cur, b) \<in> via_edges (db_servers st)" for b
      using edge_unique [OF 1(3) v(2)] that v(3) by simp
    have "(cur, self) \<notin> (via_edges (db_servers st))\<^sup>*" if self: "self \<noteq> uuid_Nil"
    proof
      assume "(cur, self) \<in> (via_edges (db_servers st))\<^sup>*"
      then obtain b where b: "(cur, b) \<in> via_edges (db_servers st)" "(b, self) \<in> (via_edges (db_servers st))\<^sup>*"
        using ne(1) self by (metis converse_rtranclE)
      have "fst (validate_via self (insert cur seen) b st1) = Inr ()"
        using 1(2) g r ne p out [OF b(1)] by (simp add: validate_via.simps [of self seen cur st] split: if_splits)
      then show False using 1(1) [OF ne g [symmetric] r _ out [OF b(1)]] p 1(3) b(2) self sv by simp
    qed
    then show ?case using v(2,3) by (auto intro: image_eqI [of _ srv_UID v])
  qed
  then show "cur \<in> set (map srv_UID (db_servers st))"
    and "self \<noteq> uuid_Nil \<Longrightarrow> (cur, self) \<notin> (via_edges (db_servers st))\<^sup>*" by auto
qed


lemma servers_okD:
  assumes "servers_ok storage rows"
  shows "distinct (map srv_UID rows)" "distinct (map srv_Name rows)" "uuid_Nil \<notin> set (map srv_UID rows)"
    "(a, b) \<in> via_edges rows \<Longrightarrow> b \<in> set (map srv_UID rows)" "acyclic (via_edges rows)" "s \<in> set rows \<Longrightarrow> row_ok storage s"
  using assms by (auto simp: servers_ok_def list_all_iff image_subset_iff)

text \<open>Adding a row whose bastion exists.\<close>

lemma servers_ok_insert:
  assumes ok: "servers_ok storage rows" and s: "row_ok storage s" "srv_UID s \<noteq> uuid_Nil"
    and new: "srv_UID s \<notin> set (map srv_UID rows)" "srv_Name s \<notin> set (map srv_Name rows)"
    and via: "\<And>v. srv_ViaUID s = Some v \<Longrightarrow> v \<in> set (map srv_UID rows)"
  shows "servers_ok storage (rows @ [s])"
proof -
  note d = servers_okD [OF ok]
  have fresh: "b \<noteq> srv_UID s" if "(a, b) \<in> via_edges rows" for a b using d(4) [OF that] new(1) by metis
  have no: "(v, srv_UID s) \<notin> (via_edges rows)\<^sup>*" if "srv_ViaUID s = Some v" for v
  proof
    assume "(v, srv_UID s) \<in> (via_edges rows)\<^sup>*"
    then show False by (cases rule: rtranclE) (use via [OF that] new(1) fresh in auto)
  qed
  have "via_edges [s] = (case srv_ViaUID s of None \<Rightarrow> {} | Some v \<Rightarrow> {(srv_UID s, v)})"
    by (simp add: via_edges_def split: option.splits)
  then have "acyclic (via_edges (rows @ [s]))" "snd ` via_edges (rows @ [s]) \<subseteq> set (map srv_UID (rows @ [s]))"
    using d(4,5) no via by (auto simp: via_edges_append acyclic_insert split: option.splits)
  then show ?thesis using d(1-3) s new ok by (simp add: servers_ok_def)
qed

text \<open>Changing a row in place. A new bastion exists and does not lead back to the row.\<close>

lemma servers_ok_update:
  assumes ok: "servers_ok storage rows" and P: "\<And>s. P s \<Longrightarrow> srv_UID s = uid"
    and f: "\<And>s. s \<in> set rows \<Longrightarrow> P s \<Longrightarrow> srv_UID (f s) = srv_UID s \<and> srv_Name (f s) = srv_Name s \<and> row_ok storage (f s)"
    and via: "\<And>s v. s \<in> set rows \<Longrightarrow> P s \<Longrightarrow> srv_ViaUID (f s) = Some v \<Longrightarrow> srv_ViaUID s = Some v
      \<or> v \<in> set (map srv_UID rows) \<and> (v, uid) \<notin> (via_edges rows)\<^sup>*"
  shows "servers_ok storage (update_where P f rows)"
proof -
  note d = servers_okD [OF ok]
  have m: "map srv_UID (update_where P f rows) = map srv_UID rows" "map srv_Name (update_where P f rows) = map srv_Name rows"
    using f by (auto simp: update_where_def)
  have old: "(a, b) \<in> via_edges rows \<or> a = uid \<and> b \<in> set (map srv_UID rows) \<and> (b, uid) \<notin> (via_edges rows)\<^sup>* \<and> (\<exists>s\<in>set rows. P s \<and> srv_ViaUID (f s) = Some b)"
    if "(a, b) \<in> via_edges (update_where P f rows)" for a b
  proof -
    from that obtain s where s: "s \<in> set rows" "srv_UID (if P s then f s else s) = a" "srv_ViaUID (if P s then f s else s) = Some b"
      by (auto simp: via_edges_iff set_update_where)
    show ?thesis
    proof (cases "P s")
      case True
      then have "srv_UID s = a" using s(1,2) f [OF s(1)] by simp
      then show ?thesis using True s via [OF s(1) True] P [OF True] by (auto simp: via_edges_iff)
    qed (use s in \<open>auto simp: via_edges_iff\<close>)
  qed
  have "acyclic (via_edges (update_where P f rows))"
  proof (cases "\<exists>s b. s \<in> set rows \<and> P s \<and> srv_ViaUID (f s) = Some b \<and> (b, uid) \<notin> (via_edges rows)\<^sup>*")
    case True
    then obtain s b where s: "s \<in> set rows" "P s" "srv_ViaUID (f s) = Some b" "(b, uid) \<notin> (via_edges rows)\<^sup>*" by blast
    have "via_edges (update_where P f rows) \<subseteq> insert (uid, b) (via_edges rows)"
    proof (intro subrelI, rule ccontr)
      fix x y assume xy: "(x, y) \<in> via_edges (update_where P f rows)" "(x, y) \<notin> insert (uid, b) (via_edges rows)"
      from old [OF xy(1)] xy(2) obtain t where t: "x = uid" "t \<in> set rows" "P t" "srv_ViaUID (f t) = Some y" by auto
      have "t = s" using distinct_map_eq [OF d(1) t(2) s(1)] P [OF t(3)] P [OF s(2)] by simp
      then show False using t s xy(2) by simp
    qed
    moreover have "acyclic (insert (uid, b) (via_edges rows))" using d(5) s(4) by (simp add: acyclic_insert)
    ultimately show ?thesis by (rule acyclic_subset [rotated])
  next
    case False
    then have "via_edges (update_where P f rows) \<subseteq> via_edges rows" by (intro subrelI) (metis old)
    then show ?thesis using acyclic_subset [OF d(5)] by blast
  qed
  moreover have "snd ` via_edges (update_where P f rows) \<subseteq> set (map srv_UID rows)" using old d(4) by fastforce
  moreover have "list_all (row_ok storage) (update_where P f rows)"
    using d(6) f by (auto simp: list_all_iff set_update_where)
  ultimately show ?thesis using d(1-3) by (simp add: servers_ok_def m)
qed

lemma servers_ok_same: "same_tables st st' \<Longrightarrow> servers_ok storage (db_servers st') = servers_ok storage (db_servers st)"
  by (simp add: same_tables_select)


lemma update_pk_ok:
  assumes "servers_ok storage (db_servers st)"
    and "\<And>s. s \<in> set (db_servers st) \<Longrightarrow> srv_UID (f s) = srv_UID s \<and> srv_Name (f s) = srv_Name s \<and> srv_ViaUID (f s) = srv_ViaUID s \<and> row_ok storage (f s)"
  shows "servers_ok storage (db_servers (snd (update_pk uid f st)))"
proof -
  have "db_servers (snd (update_pk uid f st)) = db_servers st
    \<or> db_servers (snd (update_pk uid f st)) = update_where (\<lambda>s. srv_UID s = uid \<and> live_server s) f (db_servers st)"
    by (auto simp: update_pk_def write_stmt_def stmt_def split: list.splits)
  moreover have "servers_ok storage (update_where (\<lambda>s. srv_UID s = uid \<and> live_server s) f (db_servers st))"
    by (rule servers_ok_update [OF assms(1), where uid = uid]) (use assms(2) in auto)
  ultimately show ?thesis using assms(1) by auto
qed

lemma row_ok_ssh:
  assumes "row_ok storage s" and "sd_PrivateKey sd = []" and "sd_Passphrase sd = []"
  shows "row_ok storage (s\<lparr>srv_ProtocolData := Some (d\<lparr>sp_SSH := Some sd\<rparr>)\<rparr>)"
  using assms by (cases s) (auto simp: row_ok_def stored_def)

lemma stored_secrets:
  assumes "stored s = s"
  shows "srv_Password s = []" and "sd_PrivateKey (ssh_of (protocol_data_of s)) = [] \<and> sd_Passphrase (ssh_of (protocol_data_of s)) = []"
proof -
  have "srv_Password (stored s) = []" by (simp add: stored_def)
  then show "srv_Password s = []" using assms by simp
  have "sd_PrivateKey (ssh_of (protocol_data_of (stored s))) = [] \<and> sd_Passphrase (ssh_of (protocol_data_of (stored s))) = []"
    by (auto simp: stored_def ssh_of_def protocol_data_of_def empty_ssh_def split: option.splits)
  then show "sd_PrivateKey (ssh_of (protocol_data_of s)) = [] \<and> sd_Passphrase (ssh_of (protocol_data_of s)) = []" using assms by simp
qed

lemma SetKnownHostKey_ok:
  assumes "servers_ok storage (db_servers st)"
  shows "servers_ok storage (db_servers (snd (SetKnownHostKey uid k st)))"
proof -
  let ?f = "\<lambda>s. s\<lparr>srv_ProtocolData := Some ((protocol_data_of s)\<lparr>sp_SSH := Some ((ssh_of (protocol_data_of s))\<lparr>sd_KnownHostKey := k\<rparr>)\<rparr>)\<rparr>"
  have "row_ok storage (?f s)" if "s \<in> set (db_servers st)" for s
    by (rule row_ok_ssh [OF servers_okD(6) [OF assms that]])
      (use stored_secrets(2) [of s] servers_okD(6) [OF assms that] in \<open>simp_all add: row_ok_def\<close>)
  then show ?thesis unfolding SetKnownHostKey_def Let_def by (intro update_pk_ok [OF assms]) simp
qed

lemma DeleteServer_ok:
  assumes "servers_ok storage (db_servers st)"
  shows "servers_ok storage (db_servers (snd (DeleteServer uid now st)))"
proof -
  let ?P = "\<lambda>s. srv_UID s = uid \<and> live_server s" and ?f = "\<lambda>s. s\<lparr>srv_DeletedAt := Some now\<rparr>"
  have "db_servers (snd (DeleteServer uid now st)) = db_servers st
    \<or> db_servers (snd (DeleteServer uid now st)) = update_where ?P ?f (db_servers st)"
    by (auto simp: DeleteServer_def write_stmt_def stmt_def Let_def split: list.splits if_splits)
  moreover have "row_ok storage (?f s)" if "row_ok storage s" for s
    using that by (cases s) (auto simp: row_ok_def stored_def)
  then have "servers_ok storage (update_where ?P ?f (db_servers st))"
    by (intro servers_ok_update [OF assms, where uid = uid]) (use servers_okD(6) [OF assms] in auto)
  ultimately show ?thesis using assms by auto
qed

lemma lift_err_same: "snd (lift_err r st) = st"
  by (simp add: lift_err_def split: sum.splits)

lemma insert_server_ok:
  assumes ok: "servers_ok storage (db_servers st)" and s: "row_ok storage (stored s)" "srv_UID s \<noteq> uuid_Nil"
  shows "servers_ok storage (db_servers (snd (insert_server s st)))"
proof -
  have keep: "srv_UID (stored s) = srv_UID s" "srv_Name (stored s) = srv_Name s" "srv_ViaUID (stored s) = srv_ViaUID s" by (simp_all add: stored_def)
  obtain r st' where w: "insert_server s st = (r, st')" by fastforce
  show ?thesis
  proof (cases r)
    case (Inl e)
    then show ?thesis using w write_stmt_Inl [OF w [unfolded insert_server_def Inl]] ok by (simp add: servers_ok_same)
  next
    case (Inr u)
    from write_stmt_Inr [OF w [unfolded insert_server_def Inr]] obtain st1 where st1: "same_tables st st1"
      "srv_UID s \<notin> set (map srv_UID (db_servers st1))" "srv_Name s \<notin> set (map srv_Name (db_servers st1))"
      "\<And>v. srv_ViaUID s = Some v \<Longrightarrow> server_exists st1 v" "st' = st1\<lparr>db_servers := db_servers st1 @ [stored s]\<rparr>"
      by (auto split: if_splits option.splits)
    have "servers_ok storage (db_servers st1 @ [stored s])"
      by (rule servers_ok_insert) (use st1 ok s in \<open>auto simp: keep servers_ok_same server_exists_def\<close>)
    then show ?thesis using w st1(5) by simp
  qed
qed


lemma and_then_keeps:
  "I (snd r) \<Longrightarrow> (\<And>x s. r = (Inr x, s) \<Longrightarrow> I s \<Longrightarrow> I (snd (k x s))) \<Longrightarrow> I (snd (and_then r k))"
  by (auto simp: and_then_def split: prod.splits sum.splits)

lemma RunInTx_keeps:
  assumes "Q (db_servers st)" and "\<And>s. same_tables st s \<Longrightarrow> Q (db_servers (snd (body s)))"
  shows "Q (db_servers (snd (RunInTx body st)))"
proof (cases "RunInTx body st")
  case (Pair r st')
  show ?thesis
  proof (cases r)
    case (Inl e)
    then show ?thesis using Pair RunInTx_Inl [of body st e st'] assms(1) by (simp add: same_tables_select)
  next
    case (Inr x)
    from RunInTx_Inr [OF Pair [unfolded Inr]] obtain s1 s2 where "same_tables st s1" "body s1 = (Inr x, s2)" "same_tables s2 st'" by blast
    then show ?thesis using Pair assms(2) [of s1] by (simp add: same_tables_select)
  qed
qed

lemma row_ok_fields:
  "row_ok storage (s\<lparr>srv_PasswordEncrypted := e\<rparr>) = row_ok storage s"
  "row_ok storage s \<Longrightarrow> row_ok storage (s\<lparr>srv_ProtocolData := srv_ProtocolData (stored t)\<rparr>)"
  by (cases s; auto simp: row_ok_def stored_def option.map_comp o_def)+

lemma stored_idem: "stored (stored s) = stored s"
  by (cases s) (auto simp: stored_def option.map_comp o_def)

lemma create_in_tx_ok:
  assumes ok: "servers_ok storage (db_servers st)" and s: "row_ok storage (stored s)" "srv_UID s \<noteq> uuid_Nil"
  shows "servers_ok storage (db_servers (snd (create_in_tx X uuid_String R key pw ssh s st)))"
proof -
  let ?I = "\<lambda>st. servers_ok storage (db_servers st)"
  have s': "row_ok storage (stored (s\<lparr>srv_PasswordEncrypted := e\<rparr>))" for e
    using s(1) by (cases s) (simp add: row_ok_def stored_def)
  note upd = update_pk_ok [where st = st' for st', OF _ conjI [OF _ conjI [OF _ conjI]]]
  have "?I (snd (update_pk uid (\<lambda>s. s\<lparr>srv_PasswordEncrypted := e\<rparr>) st'))" if "?I st'" for uid e st'
    by (rule upd [OF that]) (use servers_okD(6) [OF that] in \<open>auto simp: row_ok_fields(1)\<close>)
  moreover have "?I (snd (update_pk uid (\<lambda>s. s\<lparr>srv_ProtocolData := srv_ProtocolData (stored t)\<rparr>) st'))" if "?I st'" for uid t st'
    by (rule upd [OF that]) (use servers_okD(6) [OF that] in \<open>auto simp: row_ok_fields(2)\<close>)
  ultimately show ?thesis
    unfolding create_in_tx_def Let_def
    by (intro and_then_keeps [where I = ?I] insert_server_ok [OF ok s'])
      (auto simp: s(2) lift_err_same split: option.splits intro!: and_then_keeps [where I = ?I])
qed

lemma validateViaUID_same: "same_tables st (snd (validateViaUID self v st))"
  by (simp add: validateViaUID_def validate_via_same)

lemma CreateServer_ok:
  assumes ok: "servers_ok storage (db_servers st)" and R: "sr_uid R \<noteq> uuid_Nil"
  shows "servers_ok storage (db_servers (snd (CreateServer X uuid_String storage R s key now now' st)))"
proof -
  let ?I = "\<lambda>st. servers_ok storage (db_servers st)"
  have v: "?I (snd (validateViaUID uuid_Nil v st))" for v using ok servers_ok_same [OF validateViaUID_same] by blast
  have "row_ok storage (stored (s\<lparr>srv_UID := sr_uid R, srv_Password := [], srv_PasswordEncrypted := [], srv_CreatedAt := now,
      srv_UpdatedAt := now', srv_DeletedAt := None\<rparr>))" if "\<not> MatchesStorageDSN storage (srv_Host s) (srv_Port s) (srv_DatabaseName s)"
    using that unfolding row_ok_def stored_idem by (simp add: stored_def)
  then show ?thesis
    unfolding CreateServer_def using ok R v
    by (auto intro!: and_then_keeps [where I = ?I] RunInTx_keeps [where Q = "servers_ok storage"] create_in_tx_ok
        simp: servers_ok_same split: option.splits)
qed


lemma merged_plain_free:
  assumes ok: "servers_ok storage (db_servers st)" and m: "mergedSSHSecrets X uuid_String R uid u key st = (Inr d, st')"
  shows "\<exists>d0 sd. d = d0\<lparr>sp_SSH := Some sd\<rparr> \<and> sd_PrivateKey sd = [] \<and> sd_Passphrase sd = []"
proof -
  from m obtain cur st1 where g: "GetServerByUID uid st = (Inr cur, st1)"
    unfolding mergedSSHSecrets_def by (auto simp: and_then_Inr)
  have p: "sd_PrivateKey (ssh_of (protocol_data_of cur)) = []" "sd_Passphrase (ssh_of (protocol_data_of cur)) = []"
    using stored_secrets(2) [of cur] servers_okD(6) [OF ok GetServerByUID_found(2) [OF g]] by (auto simp: row_ok_def)
  from m g obtain sd where "d = (protocol_data_of cur)\<lparr>sp_SSH := Some sd\<rparr>" "sd_PrivateKey sd = []" "sd_Passphrase sd = []"
    unfolding mergedSSHSecrets_def using p by (auto simp: and_then_Inr Let_def split: option.splits)
  then show ?thesis by blast
qed

lemma merged_same: "same_tables st (snd (mergedSSHSecrets X uuid_String R uid u key st))"
proof -
  have "same_tables st s" if "GetServerByUID uid st = (Inr x, s)" for x s using GetServerByUID_found(1) [OF that] .
  then show ?thesis unfolding mergedSSHSecrets_def Let_def
    by (intro and_then_keeps [where I = "same_tables st"] GetServerByUID_same)
      (auto simp: lift_err_same split: option.splits intro!: and_then_keeps [where I = "same_tables st"])
qed

text \<open>The new address of the row was compared with the storage database.\<close>

lemma conflict_check_sound:
  assumes ok: "servers_ok storage (db_servers st)" and c: "checkStorageDSNConflict storage uid u st = (Inr x, st')"
    and s: "s \<in> set (db_servers st)" "srv_UID s = uid"
  shows "\<not> MatchesStorageDSN storage (valueOrDefault (su_Host u) (srv_Host s)) (valueOrDefault (su_Port u) (srv_Port s))
    (valueOrDefault (su_DatabaseName u) (srv_DatabaseName s))"
proof (cases "su_Host u = None \<and> su_Port u = None \<and> su_DatabaseName u = None")
  case True
  then show ?thesis using servers_okD(6) [OF ok s(1)] by (simp add: row_ok_def valueOrDefault_def)
next
  case False
  with c obtain cur st1 where g: "GetServerByUID uid st = (Inr cur, st1)"
    "\<not> MatchesStorageDSN storage (valueOrDefault (su_Host u) (srv_Host cur)) (valueOrDefault (su_Port u) (srv_Port cur))
      (valueOrDefault (su_DatabaseName u) (srv_DatabaseName cur))"
    unfolding checkStorageDSNConflict_def by (auto simp: and_then_Inr split: if_splits)
  have "cur = s" using distinct_map_eq [OF servers_okD(1) [OF ok] GetServerByUID_found(2) [OF g(1)] s(1)] GetServerByUID_found(3) [OF g(1)] s(2) by simp
  then show ?thesis using g(2) by simp
qed

lemma conflict_check_same: "same_tables st (snd (checkStorageDSNConflict storage uid u st))"
  unfolding checkStorageDSNConflict_def
  by (auto intro!: and_then_keeps [where I = "same_tables st"] GetServerByUID_same)

lemma row_ok_columns:
  assumes "stored s = s" and "\<not> MatchesStorageDSN storage (valueOrDefault (su_Host u) (srv_Host s)) (valueOrDefault (su_Port u) (srv_Port s))
    (valueOrDefault (su_DatabaseName u) (srv_DatabaseName s))"
  shows "row_ok storage (applyServerColumnUpdates u (s\<lparr>srv_UpdatedAt := now\<rparr>))"
proof -
  have "protocol_data_of (stored s) = protocol_data_of s" using assms(1) by simp
  then have "map_option (\<lambda>sd. sd\<lparr>sd_PrivateKey := [], sd_Passphrase := []\<rparr>) (sp_SSH (protocol_data_of s)) = sp_SSH (protocol_data_of s)"
    by (cases "srv_ProtocolData s") (auto simp: protocol_data_of_def stored_def server_protocol_data.splits)
  then show ?thesis using assms
    by (cases s) (auto simp: row_ok_def stored_def applyServerColumnUpdates_def protocol_data_of_def split: option.splits)
qed


lemma update_server_row_ok:
  assumes ok: "servers_ok storage (db_servers st)"
    and addr: "\<And>s. s \<in> set (db_servers st) \<Longrightarrow> srv_UID s = uid \<Longrightarrow> \<not> MatchesStorageDSN storage (valueOrDefault (su_Host u) (srv_Host s))
      (valueOrDefault (su_Port u) (srv_Port s)) (valueOrDefault (su_DatabaseName u) (srv_DatabaseName s))"
    and via: "\<And>v. su_ViaUID u = Some v \<Longrightarrow> v \<in> set (map srv_UID (db_servers st)) \<and> (uid \<noteq> uuid_Nil \<longrightarrow> (v, uid) \<notin> (via_edges (db_servers st))\<^sup>*)"
    and pd: "\<And>d. pd = Some d \<Longrightarrow> \<exists>d0 sd. d = d0\<lparr>sp_SSH := Some sd\<rparr> \<and> sd_PrivateKey sd = [] \<and> sd_Passphrase sd = []"
  shows "servers_ok storage (db_servers (snd (update_server_row uid u enc pd now st)))"
proof -
  let ?P = "\<lambda>s. srv_UID s = uid \<and> live_server s"
  let ?f = "\<lambda>s. let s1 = applyServerColumnUpdates u (s\<lparr>srv_UpdatedAt := now\<rparr>);
                  s2 = (case enc of None \<Rightarrow> s1 | Some e \<Rightarrow> s1\<lparr>srv_PasswordEncrypted := e\<rparr>)
              in case pd of None \<Rightarrow> s2 | Some d \<Rightarrow> s2\<lparr>srv_ProtocolData := Some d\<rparr>"
  have "db_servers (snd (update_server_row uid u enc pd now st)) = db_servers st
    \<or> db_servers (snd (update_server_row uid u enc pd now st)) = update_where ?P ?f (db_servers st)"
    by (simp add: update_server_row_def write_stmt_def stmt_def Let_def split: list.splits)
  moreover have "servers_ok storage (update_where ?P ?f (db_servers st))"
  proof (rule servers_ok_update [OF ok, where uid = uid])
    fix s assume s: "s \<in> set (db_servers st)" "?P s"
    have "row_ok storage (applyServerColumnUpdates u (s\<lparr>srv_UpdatedAt := now\<rparr>))"
      using row_ok_columns [OF _ addr [OF s(1)]] s(2) servers_okD(6) [OF ok s(1)] by (simp add: row_ok_def)
    then have "row_ok storage (?f s)"
      using pd row_ok_ssh by (auto simp: Let_def row_ok_fields(1) split: option.splits)
    then show "srv_UID (?f s) = srv_UID s \<and> srv_Name (?f s) = srv_Name s \<and> row_ok storage (?f s)"
      by (simp add: Let_def applyServerColumnUpdates_def split: option.splits)
    have "uid \<noteq> uuid_Nil" using servers_okD(3) [OF ok] s by auto
    then show "srv_ViaUID s = Some v \<or> v \<in> set (map srv_UID (db_servers st)) \<and> (v, uid) \<notin> (via_edges (db_servers st))\<^sup>*"
      if "srv_ViaUID (?f s) = Some v" for v
      using that via by (simp add: Let_def applyServerColumnUpdates_def split: option.splits if_splits)
  qed simp
  ultimately show ?thesis using ok by auto
qed

text \<open>Steps that only read come first.\<close>

lemma after_reads:
  assumes "servers_ok storage (db_servers st)" and "same_tables st (snd r)"
    and "\<And>x s. r = (Inr x, s) \<Longrightarrow> same_tables st s \<Longrightarrow> servers_ok storage (db_servers (snd (k x s)))"
  shows "servers_ok storage (db_servers (snd (and_then r k)))"
  using assms by (cases r) (auto simp: and_then_def servers_ok_same split: sum.splits)

lemma UpdateServer_ok:
  assumes ok: "servers_ok storage (db_servers st)"
  shows "servers_ok storage (db_servers (snd (UpdateServer X uuid_String storage R uid u key now st)))"
  unfolding UpdateServer_def
proof (rule after_reads [OF ok conflict_check_same], rule after_reads [OF ok], goal_cases)
  case (1 x st1)
  show ?case using 1(2) by (auto simp: split: option.splits intro: same_tables_trans [OF _ validateViaUID_same])
next
  case (2 x1 st1 x2 st2)
  have via: "v \<in> set (map srv_UID (db_servers st)) \<and> (uid \<noteq> uuid_Nil \<longrightarrow> (v, uid) \<notin> (via_edges (db_servers st))\<^sup>*)"
    if "su_ViaUID u = Some v" for v
    using validate_via_sound [of uid "{}" v st1] 2(2,3) that servers_okD(1) [OF ok] by (simp add: validateViaUID_def same_tables_select)
  note addr = conflict_check_sound [OF ok 2(1)]
  show ?case
  proof (rule after_reads [OF ok], goal_cases)
    case 1
    then show ?case using 2(4) by (auto simp: lift_err_same split: option.splits intro!: and_then_keeps [where I = "same_tables st"])
  next
    case (2 enc st3)
    show ?case
    proof (rule after_reads [OF ok], goal_cases)
      case 1
      then show ?case using 2(2) same_tables_trans [OF 2(2) merged_same]
        by (auto intro!: and_then_keeps [where I = "same_tables st"])
    next
      case (2 pd st4)
      have "pd = None \<or> (\<exists>d s. mergedSSHSecrets X uuid_String R uid u key st3 = (Inr d, s) \<and> pd = Some d)"
        using 2(1) by (auto simp: and_then_Inr split: if_splits)
      then show ?case
        using merged_plain_free [of storage st3] \<open>same_tables st st3\<close> ok 2(2) addr via
        by (intro update_server_row_ok) (auto simp: same_tables_select)
    qed
  qed
qed

lemma server_step_ok:
  "servers_ok storage (db_servers st) \<Longrightarrow> fresh_uid op \<Longrightarrow> servers_ok storage (db_servers (server_step X uuid_String storage op st))"
  by (cases op) (simp_all add: server_step_def fresh_uid_def CreateServer_ok UpdateServer_ok DeleteServer_ok SetKnownHostKey_ok)


section \<open>The stored secrets\<close>

lemma Encrypt_nonempty: "length nonce = gcm_NonceSize \<Longrightarrow> Encrypt X nonce p key aad = Inr c \<Longrightarrow> c \<noteq> []"
  by (auto simp: Encrypt_def gcm_NonceSize_def split: if_splits)

text \<open>The secrets of a row that was written with plain secrets \<open>sd\<close>.\<close>

definition ssh_recovered :: "ssh_server_data \<Rightarrow> crypto_error + server \<Rightarrow> bool" where
  "ssh_recovered sd r = (case r of Inl _ \<Rightarrow> False
     | Inr s \<Rightarrow> (case SSHData s of None \<Rightarrow> False | Some d \<Rightarrow> sd_PrivateKey d = sd_PrivateKey sd \<and> sd_Passphrase d = sd_Passphrase sd))"

lemma ssh_secrets_invert:
  assumes X: "seal_inverts X" and n: "length n1 = gcm_NonceSize" "length n2 = gcm_NonceSize"
    and plain: "sd_PrivateKeyEncrypted sd = []" "sd_PassphraseEncrypted sd = []"
    and enc: "encryptSSHSecrets X us n1 n2 uid sd key = Inr sd1"
    and row: "srv_UID row = uid" "srv_ProtocolData row = Some (d\<lparr>sp_SSH := Some (sd1\<lparr>sd_PrivateKey := [], sd_Passphrase := []\<rparr>)\<rparr>)"
  shows "ssh_recovered sd (DecryptSSHSecrets X us key row)"
proof -
  let ?aad = "ServerAAD (us uid)"
  obtain c1 c2 where c: "sd1 = sd\<lparr>sd_PrivateKeyEncrypted := c1, sd_PrivateKey := [], sd_PassphraseEncrypted := c2, sd_Passphrase := []\<rparr>"
    "if sd_PrivateKey sd = [] then c1 = [] else Encrypt X n1 (bytes_of (sd_PrivateKey sd)) key ?aad = Inr c1"
    "if sd_Passphrase sd = [] then c2 = [] else Encrypt X n2 (bytes_of (sd_Passphrase sd)) key ?aad = Inr c2"
    using enc plain by (cases sd) (auto simp: encryptSSHSecrets_def Let_def split: if_splits sum.splits)
  have d1: "if sd_PrivateKey sd = [] then c1 = [] else c1 \<noteq> [] \<and> Decrypt X c1 key ?aad = Inr (bytes_of (sd_PrivateKey sd))"
    using c(2) decrypt_encrypt [OF X n(1)] Encrypt_nonempty [OF n(1)] by (auto split: if_splits)
  have d2: "if sd_Passphrase sd = [] then c2 = [] else c2 \<noteq> [] \<and> Decrypt X c2 key ?aad = Inr (bytes_of (sd_Passphrase sd))"
    using c(3) decrypt_encrypt [OF X n(2)] Encrypt_nonempty [OF n(2)] by (auto split: if_splits)
  show ?thesis
    using d1 d2 by (simp add: DecryptSSHSecrets_def SSHData_def row ssh_recovered_def set_ssh_def c(1) Let_def split: if_splits)
qed

text \<open>Rows of an identifier that are live.\<close>

definition live_rows :: "uuid \<Rightarrow> db \<Rightarrow> server set" where
  "live_rows uid st = {s \<in> set (db_servers st). srv_UID s = uid \<and> live_server s}"

lemma update_pk_rows:
  assumes "update_pk uid f st = (Inr x, st')" and "s \<in> live_rows uid st" and "srv_UID (f s) = uid" and "live_server (f s)"
  shows "f s \<in> live_rows uid st'"
proof -
  from write_stmt_Inr [OF assms(1) [unfolded update_pk_def]] obtain st1 where st1: "same_tables st st1"
    "st' = st1\<lparr>db_servers := update_where (\<lambda>s. srv_UID s = uid \<and> live_server s) f (db_servers st1)\<rparr>" by auto
  have "s \<in> set (db_servers st1)" using assms(2) st1(1) by (simp add: live_rows_def same_tables_select)
  then have "f s \<in> set (db_servers st')" using assms(2) unfolding st1(2) by (auto simp: set_update_where live_rows_def intro!: image_eqI [of _ _ s])
  then show ?thesis using assms(3,4) by (simp add: live_rows_def)
qed

lemma insert_server_row:
  assumes "insert_server s st = (Inr x, st')" and "live_server s"
  shows "stored s \<in> live_rows (srv_UID s) st'"
  using write_stmt_Inr [OF assms(1) [unfolded insert_server_def]] assms(2)
  by (auto simp: live_rows_def stored_def split: if_splits)

lemma lift_err_Inr: "lift_err r st = (Inr x, st') \<longleftrightarrow> r = Inr x \<and> st' = st"
  by (auto simp: lift_err_def split: sum.splits)

lemma SSHData_password: "SSHData (s\<lparr>srv_PasswordEncrypted := e\<rparr>) = SSHData s"
  by (simp add: SSHData_def)

lemma created_secrets:
  assumes X: "seal_inverts X" and n: "length (sr_nonce R) = gcm_NonceSize" "length (sr_nonce_key R) = gcm_NonceSize" "length (sr_nonce_pass R) = gcm_NonceSize"
    and c: "create_in_tx X us R key pw ssh s st = (Inr y, st')" and live: "live_server s"
  shows "\<exists>row\<in>live_rows (srv_UID s) st'. DecryptPassword X us key row = Inr (row\<lparr>srv_Password := pw\<rparr>)
    \<and> (\<forall>sd. SSHData s = Some sd \<longrightarrow> ssh \<longrightarrow> sd_PrivateKeyEncrypted sd = [] \<longrightarrow> sd_PassphraseEncrypted sd = [] \<longrightarrow>
        ssh_recovered sd (DecryptSSHSecrets X us key row))"
proof -
  let ?uid = "srv_UID s"
  from c obtain st1 enc st2 st3 where i: "insert_server (s\<lparr>srv_PasswordEncrypted := bytes_of ''placeholder''\<rparr>) st = (Inr (), st1)"
    and e: "Encrypt X (sr_nonce R) (bytes_of pw) key (ServerAAD (us ?uid)) = Inr enc"
    and u: "update_pk ?uid (\<lambda>s. s\<lparr>srv_PasswordEncrypted := enc\<rparr>) st1 = (Inr (), st3)"
    and k: "(if \<not> ssh then (Inr (s\<lparr>srv_PasswordEncrypted := enc\<rparr>), st3) else case SSHData s of None \<Rightarrow> (Inr (s\<lparr>srv_PasswordEncrypted := enc\<rparr>), st3)
       | Some sd \<Rightarrow> and_then (lift_err (encryptSSHSecrets X us (sr_nonce_key R) (sr_nonce_pass R) ?uid sd key) st3) (\<lambda>sd1 st4.
         and_then (update_pk ?uid (\<lambda>r. r\<lparr>srv_ProtocolData := srv_ProtocolData (stored (set_ssh sd1 (s\<lparr>srv_PasswordEncrypted := enc\<rparr>)))\<rparr>) st4)
           (\<lambda>_ st5. (Inr (set_ssh sd1 (s\<lparr>srv_PasswordEncrypted := enc\<rparr>)), st5)))) = (Inr y, st')"
    unfolding create_in_tx_def Let_def SSHData_password by (simp only: and_then_Inr lift_err_Inr old.unit.exhaust) auto
  let ?r = "(stored (s\<lparr>srv_PasswordEncrypted := bytes_of ''placeholder''\<rparr>))\<lparr>srv_PasswordEncrypted := enc\<rparr>"
  have r: "?r \<in> live_rows ?uid st3"
    using update_pk_rows [OF u insert_server_row [OF i, simplified]] live by (simp add: stored_def)
  have p: "DecryptPassword X us key t = Inr (t\<lparr>srv_Password := pw\<rparr>)" if "srv_UID t = ?uid" "srv_PasswordEncrypted t = enc" for t
    using decrypt_encrypt [OF X n(1) e] that by (simp add: DecryptPassword_def)
  show ?thesis
  proof (cases "ssh \<and> SSHData s \<noteq> None")
    case False
    then have "st' = st3" using k by (auto split: if_splits option.splits)
    then show ?thesis using False r p [of ?r] by (intro bexI [of _ ?r]) (auto simp: stored_def)
  next
    case True
    then obtain sd where sd: "SSHData s = Some sd" by auto
    from k True sd obtain sd1 where k1: "encryptSSHSecrets X us (sr_nonce_key R) (sr_nonce_pass R) ?uid sd key = Inr sd1"
      and k2: "update_pk ?uid (\<lambda>r. r\<lparr>srv_ProtocolData := srv_ProtocolData (stored (set_ssh sd1 (s\<lparr>srv_PasswordEncrypted := enc\<rparr>)))\<rparr>) st3 = (Inr (), st')"
      by (auto simp: and_then_Inr lift_err_Inr)
    let ?q = "?r\<lparr>srv_ProtocolData := srv_ProtocolData (stored (set_ssh sd1 (s\<lparr>srv_PasswordEncrypted := enc\<rparr>)))\<rparr>"
    have q: "?q \<in> live_rows ?uid st'" using update_pk_rows [OF k2 r] live by (simp add: stored_def)
    obtain d where "srv_ProtocolData s = Some d" using sd by (auto simp: SSHData_def split: option.splits)
    then have "srv_ProtocolData ?q = Some (d\<lparr>sp_SSH := Some (sd1\<lparr>sd_PrivateKey := [], sd_Passphrase := []\<rparr>)\<rparr>)"
      by (simp add: stored_def set_ssh_def)
    then have "ssh_recovered sd (DecryptSSHSecrets X us key ?q)" if "sd_PrivateKeyEncrypted sd = []" "sd_PassphraseEncrypted sd = []"
      using ssh_secrets_invert [OF X n(2,3) that k1] by (simp add: stored_def)
    then show ?thesis using q p [of ?q] sd by (intro bexI [of _ ?q]) (auto simp: stored_def)
  qed
qed


section \<open>Secrets are stored encrypted\<close>

text \<open>A column holds a ciphertext under the key, bound to the identifier of the row.\<close>

definition sealed :: "prims \<Rightarrow> (uuid \<Rightarrow> string) \<Rightarrow> bytes \<Rightarrow> uuid \<Rightarrow> bytes \<Rightarrow> bool" where
  "sealed X uuid_String key uid c \<longleftrightarrow> (\<exists>nonce p. Encrypt X nonce p key (ServerAAD (uuid_String uid)) = Inr c)"

definition ssh_sealed :: "prims \<Rightarrow> (uuid \<Rightarrow> string) \<Rightarrow> bytes \<Rightarrow> uuid \<Rightarrow> ssh_server_data \<Rightarrow> bool" where
  "ssh_sealed X us key uid sd \<longleftrightarrow>
     (sd_PrivateKeyEncrypted sd = [] \<or> sealed X us key uid (sd_PrivateKeyEncrypted sd))
     \<and> (sd_PassphraseEncrypted sd = [] \<or> sealed X us key uid (sd_PassphraseEncrypted sd))"

definition row_sealed :: "prims \<Rightarrow> (uuid \<Rightarrow> string) \<Rightarrow> bytes \<Rightarrow> server \<Rightarrow> bool" where
  "row_sealed X us key s \<longleftrightarrow> sealed X us key (srv_UID s) (srv_PasswordEncrypted s) \<and> ssh_sealed X us key (srv_UID s) (ssh_of (protocol_data_of s))"

text \<open>A request as the callers make it: with the key of the process, and without ciphertexts.\<close>

definition submitted :: "bytes \<Rightarrow> server_op \<Rightarrow> bool" where
  "submitted key op = (case op of
       Create_server R s k now now' \<Rightarrow> k = key \<and> sd_PrivateKeyEncrypted (ssh_of (protocol_data_of s)) = [] \<and> sd_PassphraseEncrypted (ssh_of (protocol_data_of s)) = []
     | Update_server R uid u k now \<Rightarrow> k = key
     | _ \<Rightarrow> True)"

lemma sealedI: "Encrypt X nonce p key (ServerAAD (us uid)) = Inr c \<Longrightarrow> sealed X us key uid c"
  by (auto simp: sealed_def)

lemma write_rows:
  assumes "Q (db_servers st)" and "\<And>st1 x st'. db_servers st1 = db_servers st \<Longrightarrow> f st1 = Inr (x, st') \<Longrightarrow> Q (db_servers st')"
  shows "Q (db_servers (snd (write_stmt f st)))"
proof (cases "write_stmt f st")
  case (Pair r st')
  show ?thesis
  proof (cases r)
    case (Inl e)
    then show ?thesis using Pair write_stmt_Inl [of f st e st'] assms(1) by (simp add: same_tables_select)
  next
    case (Inr x)
    from write_stmt_Inr [OF Pair [unfolded Inr]] obtain st1 where "same_tables st st1" "f st1 = Inr (x, st')" by blast
    then show ?thesis using Pair assms(2) [of st1 x st'] by (simp add: same_tables_select)
  qed
qed

lemma update_rows:
  assumes "list_all P rows" and "\<And>s. s \<in> set rows \<Longrightarrow> P s \<Longrightarrow> hit s \<Longrightarrow> P (f s)"
  shows "list_all P (update_where hit f rows)"
  using assms by (auto simp: list_all_iff update_where_def)

lemma stored_ssh [simp]:
  "sd_PrivateKeyEncrypted (ssh_of (protocol_data_of (stored s))) = sd_PrivateKeyEncrypted (ssh_of (protocol_data_of s))"
  "sd_PassphraseEncrypted (ssh_of (protocol_data_of (stored s))) = sd_PassphraseEncrypted (ssh_of (protocol_data_of s))"
  by (auto simp: stored_def protocol_data_of_def ssh_of_def split: option.splits)

lemma encrypted_ssh_sealed:
  assumes "encryptSSHSecrets X us n1 n2 uid sd key = Inr sd'" and "ssh_sealed X us key uid sd"
  shows "ssh_sealed X us key uid sd'"
  using assms by (auto simp: encryptSSHSecrets_def ssh_sealed_def Let_def split: if_splits sum.splits dest!: sealedI)

text \<open>While a row is created, its password column holds a placeholder until the ciphertext replaces it.\<close>

definition creating :: "prims \<Rightarrow> (uuid \<Rightarrow> string) \<Rightarrow> bytes \<Rightarrow> uuid \<Rightarrow> server \<Rightarrow> bool" where
  "creating X us key uid s \<longleftrightarrow> (if srv_UID s = uid then live_server s \<and> ssh_sealed X us key uid (ssh_of (protocol_data_of s)) else row_sealed X us key s)"

lemma create_sealed:
  assumes all: "list_all (row_sealed X us key) (db_servers st)" and s: "ssh_sealed X us key (srv_UID s) (ssh_of (protocol_data_of s))" "srv_DeletedAt s = None"
    and c: "create_in_tx X us R key pw ssh s st = (Inr y, st')"
  shows "list_all (row_sealed X us key) (db_servers st')"
proof -
  let ?uid = "srv_UID s"
  from c obtain st1 enc st2 where i: "insert_server (s\<lparr>srv_PasswordEncrypted := bytes_of ''placeholder''\<rparr>) st = (Inr (), st1)"
    and e: "Encrypt X (sr_nonce R) (bytes_of pw) key (ServerAAD (us ?uid)) = Inr enc"
    and u: "update_pk ?uid (\<lambda>s. s\<lparr>srv_PasswordEncrypted := enc\<rparr>) st1 = (Inr (), st2)"
    and r: "(if \<not> ssh then (Inr (s\<lparr>srv_PasswordEncrypted := enc\<rparr>), st2)
      else case SSHData (s\<lparr>srv_PasswordEncrypted := enc\<rparr>) of None \<Rightarrow> (Inr (s\<lparr>srv_PasswordEncrypted := enc\<rparr>), st2)
      | Some sd \<Rightarrow> and_then (lift_err (encryptSSHSecrets X us (sr_nonce_key R) (sr_nonce_pass R) ?uid sd key) st2) (\<lambda>sd1 st4.
          and_then (update_pk ?uid (\<lambda>r. r\<lparr>srv_ProtocolData := srv_ProtocolData (stored (set_ssh sd1 (s\<lparr>srv_PasswordEncrypted := enc\<rparr>)))\<rparr>) st4)
            (\<lambda>_ st5. (Inr (set_ssh sd1 (s\<lparr>srv_PasswordEncrypted := enc\<rparr>)), st5)))) = (Inr y, st')"
    unfolding create_in_tx_def Let_def by (auto simp: and_then_Inr lift_err_Inr)
  let ?row = "stored (s\<lparr>srv_PasswordEncrypted := bytes_of ''placeholder''\<rparr>)"
  from write_stmt_Inr [OF i [unfolded insert_server_def]] obtain st0 where st0: "same_tables st st0" "?uid \<notin> set (map srv_UID (db_servers st0))"
    "db_servers st1 = db_servers st0 @ [?row]" by (auto split: if_splits)
  have row: "srv_UID ?row = ?uid" "live_server ?row" using s(2) by (simp_all add: stored_def)
  have "ssh_sealed X us key ?uid (ssh_of (protocol_data_of ?row))" using s(1) by (simp add: ssh_sealed_def) (simp add: protocol_data_of_def)
  moreover have "creating X us key ?uid x" if "x \<in> set (db_servers st0)" for x
  proof -
    have "srv_UID x \<noteq> ?uid" using st0(2) that by (metis image_eqI set_map)
    then show ?thesis using all that same_tables_select(2) [OF st0(1)] by (simp add: list_all_iff creating_def)
  qed
  ultimately have c1: "list_all (creating X us key ?uid) (db_servers st1)"
    using row by (simp add: st0(3) list_all_iff creating_def)
  from write_stmt_Inr [OF u [unfolded update_pk_def]] obtain st1' where st1': "same_tables st1 st1'"
    "db_servers st2 = update_where (\<lambda>s. srv_UID s = ?uid \<and> live_server s) (\<lambda>s. s\<lparr>srv_PasswordEncrypted := enc\<rparr>) (db_servers st1')" by auto
  have enc: "sealed X us key ?uid enc" using e by (auto simp: sealed_def)
  have c2: "list_all (row_sealed X us key) (db_servers st2)"
    unfolding st1'(2) list_all_iff set_update_where
  proof (intro ballI, elim imageE)
    fix x y assume y: "y \<in> set (db_servers st1')" and x: "x = (if srv_UID y = ?uid \<and> live_server y then y\<lparr>srv_PasswordEncrypted := enc\<rparr> else y)"
    have "creating X us key ?uid y" using c1 y same_tables_select(2) [OF st1'(1)] by (simp add: list_all_iff)
    then show "row_sealed X us key x" unfolding x creating_def using enc
      by (cases "srv_UID y = ?uid") (simp_all add: row_sealed_def protocol_data_of_def)
  qed
  show ?thesis
  proof (cases "ssh \<and> SSHData (s\<lparr>srv_PasswordEncrypted := enc\<rparr>) \<noteq> None")
    case False
    then show ?thesis using r c2 by (auto split: if_splits option.splits)
  next
    case True
    then obtain sd where sd: "SSHData (s\<lparr>srv_PasswordEncrypted := enc\<rparr>) = Some sd" by blast
    with r True obtain sd1 where k: "encryptSSHSecrets X us (sr_nonce_key R) (sr_nonce_pass R) ?uid sd key = Inr sd1"
      and w: "update_pk ?uid (\<lambda>r. r\<lparr>srv_ProtocolData := srv_ProtocolData (stored (set_ssh sd1 (s\<lparr>srv_PasswordEncrypted := enc\<rparr>)))\<rparr>) st2 = (Inr (), st')"
      by (auto simp: and_then_Inr lift_err_Inr)
    have d: "ssh_of (protocol_data_of s) = sd" "srv_ProtocolData s \<noteq> None"
      using sd by (auto simp: SSHData_def ssh_of_def protocol_data_of_def split: option.splits)
    have "ssh_sealed X us key ?uid sd1" using encrypted_ssh_sealed [OF k] s(1) d(1) by simp
    moreover have "ssh_of (protocol_data_of (set_ssh sd1 (s\<lparr>srv_PasswordEncrypted := enc\<rparr>))) = sd1"
      using d(2) by (auto simp: set_ssh_def protocol_data_of_def ssh_of_def)
    ultimately have sealed1: "ssh_sealed X us key ?uid (ssh_of (protocol_data_of (stored (set_ssh sd1 (s\<lparr>srv_PasswordEncrypted := enc\<rparr>)))))"
      by (simp add: ssh_sealed_def)
    from write_stmt_Inr [OF w [unfolded update_pk_def]] obtain st2' where st2': "same_tables st2 st2'"
      "db_servers st' = update_where (\<lambda>s. srv_UID s = ?uid \<and> live_server s)
         (\<lambda>r. r\<lparr>srv_ProtocolData := srv_ProtocolData (stored (set_ssh sd1 (s\<lparr>srv_PasswordEncrypted := enc\<rparr>)))\<rparr>) (db_servers st2')" by auto
    show ?thesis unfolding st2'(2)
      by (rule update_rows) (use c2 same_tables_select(2) [OF st2'(1)] sealed1 in \<open>auto simp: row_sealed_def protocol_data_of_def\<close>)
  qed
qed

lemma CreateServer_sealed:
  assumes all: "list_all (row_sealed X us key) (db_servers st)" and s: "submitted key (Create_server R s key now now')"
  shows "list_all (row_sealed X us key) (db_servers (snd (CreateServer X us storage R s key now now' st)))"
proof -
  let ?Q = "list_all (row_sealed X us key)"
  let ?s = "s\<lparr>srv_UID := sr_uid R, srv_Password := [], srv_PasswordEncrypted := [], srv_CreatedAt := now, srv_UpdatedAt := now', srv_DeletedAt := None\<rparr>"
  let ?body = "create_in_tx X us R key (srv_Password s) (has_ssh_secret s) ?s"
  have ssh: "ssh_sealed X us key (srv_UID ?s) (ssh_of (protocol_data_of ?s))" using s by (simp add: submitted_def ssh_sealed_def protocol_data_of_def)
  have tx: "?Q (db_servers (snd (RunInTx ?body st1)))" if "?Q (db_servers st1)" for st1
  proof (cases "RunInTx ?body st1")
    case (Pair r st')
    show ?thesis
    proof (cases r)
      case (Inl e)
      then show ?thesis using Pair RunInTx_Inl [of ?body st1 e st'] that by (simp add: same_tables_select)
    next
      case (Inr x)
      from RunInTx_Inr [OF Pair [unfolded Inr]] obtain s1 s2 where t: "same_tables st1 s1" "?body s1 = (Inr x, s2)" "same_tables s2 st'" by blast
      have "?Q (db_servers s1)" using that same_tables_select(2) [OF t(1)] by simp
      from create_sealed [OF this ssh _ t(2)] show ?thesis using Pair same_tables_select(2) [OF t(3)] by simp
    qed
  qed
  have v: "?Q (db_servers (snd (validateViaUID uuid_Nil v st)))" for v using all same_tables_select(2) [OF validateViaUID_same] by metis
  show ?thesis unfolding CreateServer_def using all v
    by (auto intro!: and_then_keeps [where I = "\<lambda>st. ?Q (db_servers st)"] tx split: option.splits)
qed

lemma merged_sealed:
  assumes "list_all (row_sealed X us key) (db_servers st)" and "mergedSSHSecrets X us R uid u key st = (Inr d, st')"
  shows "ssh_sealed X us key uid (ssh_of d)"
proof -
  from assms(2) obtain cur st1 where g: "GetServerByUID uid st = (Inr cur, st1)" unfolding mergedSSHSecrets_def by (auto simp: and_then_Inr)
  have "ssh_sealed X us key uid (ssh_of (protocol_data_of cur))"
    using assms(1) GetServerByUID_found(2,3) [OF g] by (auto simp: list_all_iff row_sealed_def)
  then show ?thesis using assms(2) g unfolding mergedSSHSecrets_def
    by (auto simp: and_then_Inr lift_err_Inr Let_def ssh_sealed_def ssh_of_def [of "_\<lparr>sp_SSH := _\<rparr>"] split: option.splits dest!: sealedI)
qed

lemma column_updates_sealed:
  "row_sealed X us key (applyServerColumnUpdates u (s\<lparr>srv_UpdatedAt := now\<rparr>)) = row_sealed X us key s"
proof -
  have "ssh_of (protocol_data_of (applyServerColumnUpdates u (s\<lparr>srv_UpdatedAt := now\<rparr>))) = ssh_of (protocol_data_of s)"
    by (auto simp: applyServerColumnUpdates_def protocol_data_of_def ssh_of_def split: option.splits)
  moreover have "srv_UID (applyServerColumnUpdates u t) = srv_UID t" "srv_PasswordEncrypted (applyServerColumnUpdates u t) = srv_PasswordEncrypted t" for t
    by (simp_all add: applyServerColumnUpdates_def)
  ultimately show ?thesis by (simp add: row_sealed_def)
qed

lemma secrets_sealed:
  "row_sealed X us key s \<Longrightarrow> sealed X us key (srv_UID s) e \<Longrightarrow> row_sealed X us key (s\<lparr>srv_PasswordEncrypted := e\<rparr>)"
  "row_sealed X us key s \<Longrightarrow> ssh_sealed X us key (srv_UID s) (ssh_of d) \<Longrightarrow> row_sealed X us key (s\<lparr>srv_ProtocolData := Some d\<rparr>)"
  by (simp_all add: row_sealed_def protocol_data_of_def)

lemma update_row_sealed:
  assumes all: "list_all (row_sealed X us key) (db_servers st)"
    and enc: "\<And>e. enc = Some e \<Longrightarrow> sealed X us key uid e" and pd: "\<And>d. pd = Some d \<Longrightarrow> ssh_sealed X us key uid (ssh_of d)"
  shows "list_all (row_sealed X us key) (db_servers (snd (update_server_row uid u enc pd now st)))"
proof -
  let ?P = "\<lambda>s. srv_UID s = uid \<and> live_server s"
  let ?f = "\<lambda>s. let s1 = applyServerColumnUpdates u (s\<lparr>srv_UpdatedAt := now\<rparr>);
                  s2 = (case enc of None \<Rightarrow> s1 | Some e \<Rightarrow> s1\<lparr>srv_PasswordEncrypted := e\<rparr>)
              in case pd of None \<Rightarrow> s2 | Some d \<Rightarrow> s2\<lparr>srv_ProtocolData := Some d\<rparr>"
  have rows: "db_servers (snd (update_server_row uid u enc pd now st)) = db_servers st
    \<or> db_servers (snd (update_server_row uid u enc pd now st)) = update_where ?P ?f (db_servers st)"
    by (simp add: update_server_row_def write_stmt_def stmt_def Let_def split: list.splits)
  have "row_sealed X us key (?f s)" if s: "row_sealed X us key s" "srv_UID s = uid" for s
  proof -
    let ?s1 = "applyServerColumnUpdates u (s\<lparr>srv_UpdatedAt := now\<rparr>)"
    have uid: "srv_UID ?s1 = uid" using s(2) by (simp add: applyServerColumnUpdates_def)
    have 1: "row_sealed X us key ?s1" using s(1) by (simp add: column_updates_sealed)
    have 2: "row_sealed X us key (case enc of None \<Rightarrow> ?s1 | Some e \<Rightarrow> ?s1\<lparr>srv_PasswordEncrypted := e\<rparr>)"
      using 1 enc uid secrets_sealed(1) [OF 1] by (simp split: option.split)
    have "srv_UID (case enc of None \<Rightarrow> ?s1 | Some e \<Rightarrow> ?s1\<lparr>srv_PasswordEncrypted := e\<rparr>) = uid" using uid by (simp split: option.split)
    then show ?thesis using 2 pd secrets_sealed(2) [OF 2] unfolding Let_def by (simp split: option.split)
  qed
  then have changed: "list_all (row_sealed X us key) (update_where ?P ?f (db_servers st))" by (intro update_rows [OF all]) blast
  from rows show ?thesis
  proof
    assume "db_servers (snd (update_server_row uid u enc pd now st)) = db_servers st"
    then show ?thesis using all by (simp only:)
  next
    assume "db_servers (snd (update_server_row uid u enc pd now st)) = update_where ?P ?f (db_servers st)"
    then show ?thesis using changed by (simp only:)
  qed
qed

lemma UpdateServer_sealed:
  assumes all: "list_all (row_sealed X us key) (db_servers st)"
  shows "list_all (row_sealed X us key) (db_servers (snd (UpdateServer X us storage R uid u key now st)))"
proof -
  let ?Q = "\<lambda>st. list_all (row_sealed X us key) (db_servers st)"
  have same: "?Q t'" if "?Q t" "same_tables t t'" for t t' using that(1) same_tables_select(2) [OF that(2)] by simp
  have seal: "case x of None \<Rightarrow> True | Some e \<Rightarrow> sealed X us key uid e"
    if "(case su_Password u of None \<Rightarrow> (Inr None, t)
       | Some p \<Rightarrow> and_then (lift_err (Encrypt X (sr_nonce R) (bytes_of p) key (ServerAAD (us uid))) t) (\<lambda>enc st. (Inr (Some enc), st))) = (Inr x, t')" for x t t'
    using that by (auto simp: and_then_Inr lift_err_Inr split: option.splits dest!: sealedI)
  have ssh: "case pd of None \<Rightarrow> True | Some d \<Rightarrow> ssh_sealed X us key uid (ssh_of d)"
    if "?Q t" "(if su_SSHPrivateKey u \<noteq> None \<or> su_SSHPassphrase u \<noteq> None
       then and_then (mergedSSHSecrets X us R uid u key t) (\<lambda>d st. (Inr (Some d), st)) else (Inr None, t)) = (Inr pd, t')" for pd t t'
    using that(2) merged_sealed [OF that(1)] by (auto simp: and_then_Inr split: if_splits)
  show ?thesis unfolding UpdateServer_def
  proof (rule and_then_keeps [where I = ?Q], goal_cases)
    case 1
    show ?case by (rule same [OF all conflict_check_same])
  next
    case (2 x1 st1)
    show ?case
    proof (rule and_then_keeps [where I = ?Q], goal_cases)
      case 1
      show ?case using 2(2) same [OF 2(2) validateViaUID_same] by (simp split: option.split)
    next
      case (2 x2 st2)
      show ?case
      proof (rule and_then_keeps [where I = ?Q], goal_cases)
        case 1
        show ?case using 2(2) by (auto simp: lift_err_same split: option.split intro!: and_then_keeps [where I = ?Q])
      next
        case (2 enc st3)
        note e = seal [OF 2(1)] and q3 = 2(2)
        show ?case
        proof (rule and_then_keeps [where I = ?Q], goal_cases)
          case 1
          show ?case using q3 same [OF q3 merged_same] by (auto intro!: and_then_keeps [where I = ?Q])
        next
          case (2 pd st4)
          show ?case by (rule update_row_sealed [OF 2(2)]) (use e ssh [OF q3 2(1)] in simp_all)
        qed
      qed
    qed
  qed
qed

lemma server_step_sealed:
  assumes "list_all (row_sealed X us key) (db_servers st)" and "submitted key op"
  shows "list_all (row_sealed X us key) (db_servers (server_step X us storage op st))"
proof (cases op)
  case (Create_server R s k now now')
  then show ?thesis using CreateServer_sealed [OF assms(1)] assms(2) by (auto simp: server_step_def submitted_def)
next
  case (Update_server R uid u k now)
  then show ?thesis using UpdateServer_sealed [OF assms(1)] assms(2) by (simp add: server_step_def submitted_def)
next
  case (Delete_server uid now)
  have "list_all (row_sealed X us key) (db_servers (snd (DeleteServer uid now st)))"
    unfolding DeleteServer_def Let_def
    by (rule write_rows [where Q = "list_all (row_sealed X us key)", OF assms(1)]) (use assms(1) in \<open>auto split: if_splits intro!: update_rows simp: row_sealed_def protocol_data_of_def\<close>)
  then show ?thesis by (simp add: Delete_server server_step_def)
next
  case (Pin_host_key uid k)
  have "list_all (row_sealed X us key) (db_servers (snd (SetKnownHostKey uid k st)))"
    unfolding SetKnownHostKey_def update_pk_def Let_def
    by (rule write_rows [where Q = "list_all (row_sealed X us key)", OF assms(1)])
      (use assms(1) in \<open>auto intro!: update_rows secrets_sealed(2) simp: row_sealed_def ssh_sealed_def ssh_of_def [of "_\<lparr>sp_SSH := _\<rparr>"]\<close>)
  then show ?thesis by (simp add: Pin_host_key server_step_def)
qed

section \<open>Results\<close>

text \<open>C23. Whatever sequence of creations, changes, deletions and host-key pinnings runs, one after another and whichever
  statements fail: identifiers and names stay unique, every bastion a row names exists, the chains of bastions have no cycle, no
  row addresses the storage database, and the secrets of every row are ciphertexts under the key of the process, bound to the
  identifier of that row, with nothing in the fields for plain secrets. (Two changes that overlap can leave a cycle, see \<open>via_race\<close>.)\<close>

theorem servers_wellformed:
  assumes "servers_ok storage (db_servers st)" and "list_all fresh_uid ops"
    and "list_all (row_sealed X uuid_String key) (db_servers st)" and "list_all (submitted key) ops"
  shows "servers_ok storage (db_servers (server_run X uuid_String storage ops st))
    \<and> list_all (row_sealed X uuid_String key) (db_servers (server_run X uuid_String storage ops st))"
  using assms by (induction ops arbitrary: st) (simp_all add: server_run_def server_step_ok server_step_sealed)

text \<open>C25. The password and the SSH secrets given to \<open>CreateServer\<close> are the ones the stored row decrypts to.\<close>

theorem server_secrets_roundtrip:
  assumes X: "seal_inverts X" and n: "length (sr_nonce R) = gcm_NonceSize" "length (sr_nonce_key R) = gcm_NonceSize" "length (sr_nonce_pass R) = gcm_NonceSize"
    and c: "CreateServer X us storage R s key now now' st = (Inr y, st')"
  shows "\<exists>row\<in>live_rows (sr_uid R) st'. DecryptPassword X us key row = Inr (row\<lparr>srv_Password := srv_Password s\<rparr>)
    \<and> (\<forall>sd. SSHData s = Some sd \<longrightarrow> has_ssh_secret s \<longrightarrow> sd_PrivateKeyEncrypted sd = [] \<longrightarrow> sd_PassphraseEncrypted sd = [] \<longrightarrow>
        ssh_recovered sd (DecryptSSHSecrets X us key row))"
proof -
  let ?s = "s\<lparr>srv_UID := sr_uid R, srv_Password := [], srv_PasswordEncrypted := [], srv_CreatedAt := now, srv_UpdatedAt := now', srv_DeletedAt := None\<rparr>"
  from c obtain st1 where "RunInTx (create_in_tx X us R key (srv_Password s) (has_ssh_secret s) ?s) st1 = (Inr y, st')"
    unfolding CreateServer_def by (auto simp: and_then_Inr split: if_splits)
  from RunInTx_Inr [OF this] obtain st2 st3 where b: "create_in_tx X us R key (srv_Password s) (has_ssh_secret s) ?s st2 = (Inr y, st3)" "same_tables st3 st'" by blast
  have "live_rows u st' = live_rows u st3" for u using b(2) by (simp add: live_rows_def same_tables_select)
  then show ?thesis using created_secrets [OF X n b(1)] by (simp add: SSHData_def)
qed


definition empty_db :: db where
  "empty_db = \<lparr>db_users = [], db_servers = [], db_grants = [], db_definitions = [], db_requests = [], db_connections = [], db_queries = [],
     db_groups = [], db_members = [], db_audit = [], db_rows = [], db_keys = [], db_oauth = [], db_identities = [], db_faults = []\<rparr>"

definition sample_server :: "string \<Rightarrow> string \<Rightarrow> string \<Rightarrow> uuid option \<Rightarrow> server" where
  "sample_server name host protocol via =
     \<lparr>srv_UID = 0, srv_Name = name, srv_Description = [], srv_Host = host, srv_Port = 5432, srv_DatabaseName = ''dbbat'', srv_Username = ''u'',
      srv_Password = ''pw'', srv_PasswordEncrypted = [], srv_SSLMode = [], srv_Protocol = protocol, srv_OracleServiceName = None, srv_ViaUID = via,
      srv_ProtocolData = Some \<lparr>sp_MongoDB = None, sp_SSH = Some (empty_ssh\<lparr>sd_PrivateKey := ''pem''\<rparr>)\<rparr>, srv_Listable = True, srv_CreatedBy = None,
      srv_CreatedAt = 0, srv_UpdatedAt = 0, srv_DeletedAt = None\<rparr>"

definition sample_random_for :: "uuid \<Rightarrow> server_random" where
  "sample_random_for uid = \<lparr>sr_uid = uid, sr_nonce = replicate 12 1, sr_nonce_key = replicate 12 2, sr_nonce_pass = replicate 12 3\<rparr>"

definition set_via :: "uuid \<Rightarrow> server_update" where
  "set_via v = \<lparr>su_Description = None, su_Host = None, su_Port = None, su_DatabaseName = None, su_Username = None, su_Password = None,
     su_SSLMode = None, su_Protocol = None, su_OracleServiceName = None, su_MongoAuthSource = None, su_Listable = None, su_ViaUID = Some v,
     su_ClearViaUID = False, su_SSHPrivateKey = None, su_SSHPassphrase = None\<rparr>"

definition sample_storage :: "dsn_components option" where
  "sample_storage = Some \<lparr>dsn_Host = ''localhost'', dsn_Port = ''5432'', dsn_Server = ''dbbat''\<rparr>"

definition sample_ops :: "server_op list" where
  "sample_ops = [Create_server (sample_random_for 1) (sample_server ''jump'' ''b1'' ''ssh'' None) (replicate 32 9) 5 6,
     Create_server (sample_random_for 2) (sample_server ''jump2'' ''b2'' ''ssh'' (Some 1)) (replicate 32 9) 5 6,
     Update_server (sample_random_for 0) 1 (set_via 2) (replicate 32 9) 7,
     Create_server (sample_random_for 3) (sample_server ''own'' ''LOCALHOST'' ''postgresql'' None) (replicate 32 9) 5 6]"

lemma sample_texts: "FormatInt 5432 = ''5432''"
  by (simp add: FormatInt_def digits.simps [of 5432] digits.simps [of 543] digits.simps [of 54] digits.simps [of 5]; code_simp)

lemma sample_hosts: "map ascii_lower ''b1'' = ''b1''" "map ascii_lower ''b2'' = ''b2''" "map ascii_lower ''LOCALHOST'' = ''localhost''"
  by code_simp+

lemma sample_addresses:
  "MatchesStorageDSN sample_storage ''b1'' 5432 ''dbbat'' = False" "MatchesStorageDSN sample_storage ''b2'' 5432 ''dbbat'' = False"
  "MatchesStorageDSN sample_storage ''LOCALHOST'' 5432 ''dbbat'' = True"
  by (simp_all add: MatchesStorageDSN_def sample_storage_def normalizeHost_def ToLower_ascii Let_def sample_texts sample_hosts del: list.map)

lemmas server_eval = server_step_def CreateServer_def sample_server_def sample_random_for_def sample_addresses empty_db_def and_then_def RunInTx_def
  create_in_tx_def insert_server_def write_stmt_def lift_err_def Encrypt_def update_pk_def update_where_def stored_def has_ssh_secret_def SSHData_def
  empty_ssh_def encryptSSHSecrets_def set_ssh_def validateViaUID_def GetServerByUID_def read_stmt_def server_exists_def ProtocolSSH_def
  UpdateServer_def checkStorageDSNConflict_def set_via_def stmt_def update_server_row_def applyServerColumnUpdates_def valueOrDefault_def

lemma sample_run_edges:
  "map (\<lambda>s. (srv_UID s, srv_ViaUID s)) (db_servers (server_run sample_prims (\<lambda>_. ''u'') sample_storage sample_ops empty_db)) = [(1, None), (2, Some 1)]"
  by (simp add: server_run_def sample_ops_def server_eval Let_def validate_via.simps [of 0 "{}" 1] validate_via.simps [of 1 "{}" 2] validate_via.simps [of 1 "{2}" 1])

theorem servers_wellformed_witness:
  "servers_ok sample_storage (db_servers (server_run sample_prims (\<lambda>_. ''u'') sample_storage sample_ops empty_db))
   \<and> list_all (row_sealed sample_prims (\<lambda>_. ''u'') (replicate 32 9)) (db_servers (server_run sample_prims (\<lambda>_. ''u'') sample_storage sample_ops empty_db))
   \<and> map (\<lambda>s. (srv_UID s, srv_ViaUID s)) (db_servers (server_run sample_prims (\<lambda>_. ''u'') sample_storage sample_ops empty_db)) = [(1, None), (2, Some 1)]"
proof -
  have "servers_ok sample_storage (db_servers empty_db)" by (simp add: servers_ok_def empty_db_def via_edges_def acyclic_def)
  moreover have "list_all fresh_uid sample_ops" by (simp add: sample_ops_def fresh_uid_def sample_random_for_def)
  moreover have "list_all (row_sealed sample_prims (\<lambda>_. ''u'') (replicate 32 9)) (db_servers empty_db)" by (simp add: empty_db_def)
  moreover have "list_all (submitted (replicate 32 9)) sample_ops"
    by (simp add: sample_ops_def submitted_def sample_server_def protocol_data_of_def ssh_of_def empty_ssh_def)
  ultimately show ?thesis
    using servers_wellformed [of sample_storage empty_db sample_ops sample_prims "\<lambda>_. ''u''" "replicate 32 9"] sample_run_edges by blast
qed

theorem server_secrets_roundtrip_witness:
  "\<exists>row. row \<in> live_rows 1 (snd (CreateServer sample_prims (\<lambda>_. ''u'') sample_storage (sample_random_for 1)
      (sample_server ''jump'' ''b1'' ''ssh'' None) (replicate 32 9) 5 6 empty_db))
    \<and> DecryptPassword sample_prims (\<lambda>_. ''u'') (replicate 32 9) row = Inr (row\<lparr>srv_Password := ''pw''\<rparr>)
    \<and> ssh_recovered (empty_ssh\<lparr>sd_PrivateKey := ''pem''\<rparr>) (DecryptSSHSecrets sample_prims (\<lambda>_. ''u'') (replicate 32 9) row)"
proof -
  let ?c = "CreateServer sample_prims (\<lambda>_. ''u'') sample_storage (sample_random_for 1) (sample_server ''jump'' ''b1'' ''ssh'' None) (replicate 32 9) 5 6 empty_db"
  have "\<exists>y. fst ?c = Inr y" by (simp add: server_eval Let_def)
  then obtain y where "?c = (Inr y, snd ?c)" by (metis prod.collapse)
  from server_secrets_roundtrip [OF sample_prims_ok(1) _ _ _ this] obtain row where "row \<in> live_rows (sr_uid (sample_random_for 1)) (snd ?c)"
    "DecryptPassword sample_prims (\<lambda>_. ''u'') (replicate 32 9) row = Inr (row\<lparr>srv_Password := ''pw''\<rparr>)"
    "ssh_recovered (empty_ssh\<lparr>sd_PrivateKey := ''pem''\<rparr>) (DecryptSSHSecrets sample_prims (\<lambda>_. ''u'') (replicate 32 9) row)"
    by (simp add: sample_random_for_def gcm_NonceSize_def) (simp add: sample_server_def SSHData_def has_ssh_secret_def empty_ssh_def, blast)
  then show ?thesis by (intro exI [of _ row]) (simp add: sample_random_for_def)
qed

definition two_bastions :: db where
  "two_bastions = empty_db\<lparr>db_servers := [(sample_server ''a'' ''b1'' ''ssh'' None)\<lparr>srv_UID := 1\<rparr>, (sample_server ''b'' ''b2'' ''ssh'' None)\<lparr>srv_UID := 2\<rparr>]\<rparr>"

text \<open>The check and the write of \<open>UpdateServer\<close> are separate statements: two changes that run at once pass
  both checks and leave two bastions that are reached through each other.\<close>

theorem via_race:
  "validateViaUID 1 2 two_bastions = (Inr (), two_bastions) \<and> validateViaUID 2 1 two_bastions = (Inr (), two_bastions)
   \<and> map (\<lambda>s. (srv_UID s, srv_ViaUID s)) (db_servers (snd (update_server_row 2 (set_via 1) None None 7 (snd (update_server_row 1 (set_via 2) None None 7 two_bastions)))))
     = [(1, Some 2), (2, Some 1)]"
  by (simp add: two_bastions_def server_eval Let_def validate_via.simps [of 1 "{}" 2] validate_via.simps [of 2 "{}" 1])

end
