(* ===== verification/Pg_Session.thy ===== *)
theory Pg_Session
  imports Pg_Intercept
begin

text \<open>
  \<open>internal/proxy/postgresql/session.go\<close>: the relay of a PostgreSQL session. Two goroutines, a
  watchdog and other parts of the process (a revocation through the registry) act on one state;
  an execution is a list of events, one per message handled by a goroutine, in any interleaving.
  The outcome of each read and write (bytes moved, failure) is an input. A slice panic in a
  goroutine ends the process (\<open>px_crashed\<close>).
\<close>

section \<open>Messages and relay state\<close>

datatype client_msg =
    CQuery string
  | CParse string string "u32 list"
  | CBind string string "int list" "bytes list"
  | CExecute string
  | CDescribe object_type string
  | CClose object_type string
  | CCopyData string
  | CCopyDone
  | CCopyFail string
  | COther

datatype server_msg =
    SParameterDescription "u32 list"
  | SRowDescription "(string \<times> u32) list"
  | SCommandComplete string
  | SErrorResponse string
  | SDataRow "string option list"
  | SCopyOutResponse byte
  | SCopyInResponse byte
  | SCopyData string
  | SCopyDone
  | SReadyForQuery
  | SOther

datatype to_client =
    Relayed server_msg
  | QueryErrorFrame pg_error
  | LimitErrorFrame limit_error
  | ReadyFrame

text \<open>How a relay goroutine returned.\<close>

datatype relay_result = RelayEOF | ReceiveFailed | SendFailed | LimitReached limit_error

record proxy =
  px_session :: session
  px_heap :: heap
  px_registry :: "registry option"
  px_rowsAffected :: "int option"
  px_queryError :: "string option"
  px_upstream :: "client_msg list"
  px_client :: "to_client list"
  px_writes :: "(int \<times> bool) list"
  px_closed :: bool
  px_c2u :: "relay_result option"
  px_u2c :: "relay_result option"
  px_crashed :: bool

definition upd_session :: "(session \<Rightarrow> session) \<Rightarrow> proxy \<Rightarrow> proxy" where
  "upd_session f p = p\<lparr>px_session := f (px_session p)\<rparr>"

definition client_conn :: "proxy \<Rightarrow> counting_conn" where
  "client_conn p = NewCountingConn (Some (ss_bytesFromClient (px_session p))) (Some (ss_bytesToClient (px_session p)))"

text \<open>A read of \<open>n\<close> bytes and a write on the counted client connection. The script \<open>px_writes\<close>
  gives the outcome of each write; a closed connection takes nothing.\<close>

definition count_read :: "int \<Rightarrow> proxy \<Rightarrow> proxy" where
  "count_read n p = p\<lparr>px_heap := snd (cc_Read (client_conn p) (n, None :: unit option) (px_heap p))\<rparr>"

definition client_write :: "to_client \<Rightarrow> proxy \<Rightarrow> bool \<times> proxy" where
  "client_write m p =
     (let (n, ok) = (if px_closed p then (0, False) else case px_writes p of [] \<Rightarrow> (0, False) | w # _ \<Rightarrow> w)
      in (ok, p\<lparr>px_writes := tl (px_writes p),
                px_heap := snd (cc_Write (client_conn p) (n, None :: unit option) (px_heap p)),
                px_client := (if ok then px_client p @ [m] else px_client p)\<rparr>))"

section \<open>Client to upstream\<close>

definition sendQueryError :: "pg_error \<Rightarrow> proxy \<Rightarrow> proxy" where
  "sendQueryError e p =
     (let (ok, p1) = client_write (QueryErrorFrame e) p in
      if \<not> ok then p1 else snd (client_write ReadyFrame p1))"

text \<open>The type switch of \<open>proxyClientToUpstream\<close>.\<close>

definition intercept ::
  "pg_lib \<Rightarrow> client_msg \<Rightarrow> heap \<Rightarrow> time \<Rightarrow> session \<Rightarrow> pg_error option \<times> session" where
  "intercept L msg hp now s =
     (case msg of
        CQuery sql \<Rightarrow> handleQuery sql hp now s
      | CParse name sql oids \<Rightarrow> handleParse name sql oids s
      | CBind portal stmt codes params \<Rightarrow> (None, handleBind L portal stmt codes params s)
      | CExecute portal \<Rightarrow> handleExecute portal hp now s
      | CDescribe ty name \<Rightarrow> (None, handleDescribe ty name s)
      | CClose ty name \<Rightarrow> (None, handleClose ty name s)
      | CCopyData data \<Rightarrow>
          (None, case ss_copyState s of None \<Rightarrow> s
                 | Some cp \<Rightarrow> if cp_direction cp = CopyIn then captureCopyData data s else s)
      | CCopyDone \<Rightarrow> (None, s)
      | CCopyFail _ \<Rightarrow> (None, s\<lparr>ss_copyState := None\<rparr>)
      | COther \<Rightarrow> (None, s))"

text \<open>One round of the loop: a message of \<open>n\<close> bytes has been received; \<open>flushed\<close> tells whether
  the flush to upstream succeeds.\<close>

definition proxyClientToUpstream ::
  "pg_lib \<Rightarrow> int \<Rightarrow> client_msg \<Rightarrow> time \<Rightarrow> bool \<Rightarrow> proxy \<Rightarrow> proxy" where
  "proxyClientToUpstream L n msg now flushed p0 =
     (let p = count_read n p0;
          (err, s) = intercept L msg (px_heap p) now (px_session p);
          p1 = p\<lparr>px_session := s\<rparr>
      in case err of Some e \<Rightarrow> sendQueryError e p1
         | None \<Rightarrow>
             if flushed \<and> \<not> px_closed p1 then p1\<lparr>px_upstream := px_upstream p1 @ [msg]\<rparr>
             else p1\<lparr>px_c2u := Some SendFailed\<rparr>)"

section \<open>Upstream to client\<close>

definition wire_total :: "heap \<Rightarrow> session \<Rightarrow> int" where
  "wire_total hp s = wrap_i64 (LoadInt hp (ss_bytesFromClient s) + LoadInt hp (ss_bytesToClient s))"

definition pop_pending :: "session \<Rightarrow> session" where
  "pop_pending s =
     (case xs_pendingQueries (ss_extended s) of [] \<Rightarrow> s
      | q # qs \<Rightarrow> upd_extended (\<lambda>x. x\<lparr>xs_pendingQueries := qs\<rparr>) (s\<lparr>ss_currentQuery := Some q\<rparr>))"

definition start_copy :: "copy_direction \<Rightarrow> byte \<Rightarrow> proxy \<Rightarrow> proxy" where
  "start_copy dir fmt p =
     (let names = (case ss_currentQuery (px_session p) of None \<Rightarrow> Inr []
                   | Some q \<Rightarrow> parseCopyColumnNames (pq_sql q))
      in case names of Inl _ \<Rightarrow> p\<lparr>px_crashed := True\<rparr>
         | Inr ns \<Rightarrow> upd_session (\<lambda>s. s\<lparr>ss_copyState := Some
             \<lparr>cp_direction = dir, cp_format = fmt, cp_columnNames = ns, cp_dataChunks = [],
              cp_totalBytes = 0, cp_truncated = False\<rparr>\<rparr>) p)"

definition query_done :: "pg_lib \<Rightarrow> proxy \<Rightarrow> proxy" where
  "query_done L p =
     (let s = px_session p in
      case ss_currentQuery s of None \<Rightarrow> p
      | Some _ \<Rightarrow>
          let total = wire_total (px_heap p) s;
              bytesTransferred = wrap_i64 (total - ss_lastBytesSnapshot s);
              s1 = logQuery L (px_rowsAffected p) (px_queryError p) bytesTransferred
                     (s\<lparr>ss_lastBytesSnapshot := total\<rparr>)
          in p\<lparr>px_session := s1\<lparr>ss_currentQuery := None, ss_copyState := None\<rparr>,
               px_rowsAffected := None, px_queryError := None\<rparr>)"

text \<open>The type switch of \<open>proxyUpstreamToClient\<close>.\<close>

definition observe :: "pg_lib \<Rightarrow> server_msg \<Rightarrow> proxy \<Rightarrow> proxy" where
  "observe L msg p =
     (case msg of
        SParameterDescription oids \<Rightarrow> upd_session (handleParameterDescription oids) p
      | SRowDescription cols \<Rightarrow> upd_session (captureRowDescription cols) p
      | SCommandComplete tag \<Rightarrow> (upd_session pop_pending p)\<lparr>px_rowsAffected := parseRowsAffected tag\<rparr>
      | SErrorResponse m \<Rightarrow> (upd_session pop_pending p)\<lparr>px_queryError := Some m\<rparr>
      | SDataRow vals \<Rightarrow>
          upd_session (\<lambda>s. upd_pending (capture_row L (ss_storage s) vals) s) p
      | SCopyOutResponse fmt \<Rightarrow> start_copy CopyOut fmt p
      | SCopyInResponse fmt \<Rightarrow> start_copy CopyIn fmt p
      | SCopyData data \<Rightarrow>
          upd_session (\<lambda>s. case ss_copyState s of None \<Rightarrow> s
            | Some cp \<Rightarrow> if cp_direction cp = CopyOut then captureCopyData data s else s) p
      | SCopyDone \<Rightarrow> p
      | SReadyForQuery \<Rightarrow> query_done L p
      | SOther \<Rightarrow> p)"

definition persistAbortedQuery :: "pg_lib \<Rightarrow> limit_error \<Rightarrow> proxy \<Rightarrow> proxy" where
  "persistAbortedQuery L cause p =
     (let s = px_session p in
      case getCurrentPendingQuery s of None \<Rightarrow> p
      | Some q \<Rightarrow>
          let total = wire_total (px_heap p) s;
              bytesTransferred = wrap_i64 (total - ss_lastBytesSnapshot s)
          in if bytesTransferred \<le> 0 then p
             else upd_session (\<lambda>s. logQuery L None (Some (''aborted: '' @ limit_text cause)) bytesTransferred
                    (s\<lparr>ss_lastBytesSnapshot := total,
                       ss_currentQuery := (case ss_currentQuery s of None \<Rightarrow> Some q | Some c \<Rightarrow> Some c)\<rparr>)) p)"

definition abortStream :: "pg_lib \<Rightarrow> limit_error \<Rightarrow> proxy \<Rightarrow> proxy" where
  "abortStream L cause p =
     (let (ok, p1) = client_write (LimitErrorFrame cause) p in
      if \<not> ok then p1 else persistAbortedQuery L cause (snd (client_write ReadyFrame p1)))"

definition enforceStreamLimits :: "pg_lib \<Rightarrow> time \<Rightarrow> proxy \<Rightarrow> limit_error option \<times> proxy" where
  "enforceStreamLimits L now p =
     (case getCurrentPendingQuery (px_session p) of None \<Rightarrow> (None, p)
      | Some _ \<Rightarrow>
          (case Check (px_heap p) now (ss_guard (px_session p)) of None \<Rightarrow> (None, p)
           | Some e \<Rightarrow> (Some e, abortStream L e p)))"

definition proxyUpstreamToClient :: "pg_lib \<Rightarrow> server_msg \<Rightarrow> time \<Rightarrow> proxy \<Rightarrow> proxy" where
  "proxyUpstreamToClient L msg now p =
     (let p1 = observe L msg p in
      if px_crashed p1 then p1
      else
        let (ok, p2) = client_write (Relayed msg) p1 in
        if \<not> ok then p2\<lparr>px_u2c := Some SendFailed\<rparr>
        else case enforceStreamLimits L now p2 of
               (None, p3) \<Rightarrow> p3
             | (Some e, p3) \<Rightarrow> p3\<lparr>px_u2c := Some (LimitReached e)\<rparr>)"

section \<open>The session\<close>

definition onLimitViolation :: "proxy \<Rightarrow> proxy" where
  "onLimitViolation p = p\<lparr>px_closed := True\<rparr>"

text \<open>The part of \<open>cleanup\<close> that concerns the registry and the upstream connection.\<close>

definition cleanup :: "proxy \<Rightarrow> proxy" where
  "cleanup p = p\<lparr>px_registry :=
       (case ss_revocation (px_session p) of None \<Rightarrow> px_registry p
        | Some h \<Rightarrow> Deregister (px_registry p) (ag_UID (ss_grant (px_session p))) (Some h)),
     px_closed := True\<rparr>"

text \<open>Events. \<open>EvRegistry\<close> is an operation of another part of the process on the registry.\<close>

datatype pg_event =
    EvClient int client_msg time bool
  | EvClientEnd bool
  | EvServer server_msg time
  | EvServerEnd bool
  | EvWatchdog time
  | EvRegistry bus_op
  | EvCleanup

definition on_bus :: "(bus \<Rightarrow> bus) \<Rightarrow> proxy \<Rightarrow> proxy" where
  "on_bus f p = (let (r, hp) = f (px_registry p, px_heap p) in p\<lparr>px_registry := r, px_heap := hp\<rparr>)"

definition step :: "pg_lib \<Rightarrow> pg_event \<Rightarrow> proxy \<Rightarrow> proxy" where
  "step L ev p =
     (if px_crashed p then p
      else case ev of
        EvClient n msg now flushed \<Rightarrow>
          if px_c2u p = None then proxyClientToUpstream L n msg now flushed p else p
      | EvClientEnd eof \<Rightarrow>
          if px_c2u p = None then p\<lparr>px_c2u := Some (if eof then RelayEOF else ReceiveFailed)\<rparr> else p
      | EvServer msg now \<Rightarrow>
          if px_u2c p = None then proxyUpstreamToClient L msg now p else p
      | EvServerEnd eof \<Rightarrow>
          if px_u2c p = None then p\<lparr>px_u2c := Some (if eof then RelayEOF else ReceiveFailed)\<rparr> else p
      | EvWatchdog now \<Rightarrow>
          (case Check (px_heap p) now (ss_guard (px_session p)) of None \<Rightarrow> p | Some _ \<Rightarrow> onLimitViolation p)
      | EvRegistry b \<Rightarrow> on_bus (bus_step b) p
      | EvCleanup \<Rightarrow> if px_c2u p = None \<and> px_u2c p = None then p else cleanup p)"

definition run :: "pg_lib \<Rightarrow> pg_event list \<Rightarrow> proxy \<Rightarrow> proxy" where
  "run L evs p = fold (step L) evs p"

text \<open>\<open>NewSession\<close> and the start of \<open>proxyMessages\<close>: two fresh counters, then, once the grant is
  known and the bytes of the handshake have been counted, the registration and the guard.\<close>

definition NewSession :: "query_storage \<Rightarrow> access_grant \<Rightarrow> uuid \<Rightarrow> heap \<Rightarrow> session \<times> heap" where
  "NewSession cfg g conn hp =
     (let (a, hp1) = NewInt hp; (b, hp2) = NewInt hp1
      in (\<lparr>ss_grant = g, ss_connectionUID = conn, ss_storage = cfg,
           ss_extended = \<lparr>xs_preparedStatements = Map.empty, xs_portals = Map.empty,
                          xs_pendingQueries = [], xs_pendingDescribes = []\<rparr>,
           ss_currentQuery = None, ss_copyState = None, ss_revocation = None, ss_guard = None,
           ss_bytesFromClient = a, ss_bytesToClient = b, ss_lastBytesSnapshot = 0, ss_logged = []\<rparr>, hp2))"

definition proxyMessages :: "session \<Rightarrow> heap \<Rightarrow> registry option \<Rightarrow> (int \<times> bool) list \<Rightarrow> proxy" where
  "proxyMessages s hp r writes =
     (let (h, r1, hp1) = Register r (ag_UID (ss_grant s)) hp;
          guard = WithRevocation (Some (NewLimitGuard (Some (ss_grant s)) (Some (ss_bytesFromClient s))
                    (Some (ss_bytesToClient s)))) (Flag (Some h))
      in \<lparr>px_session = s\<lparr>ss_revocation := Some h, ss_guard := guard\<rparr>, px_heap = hp1, px_registry = r1,
          px_rowsAffected = None, px_queryError = None, px_upstream = [], px_client = [],
          px_writes = writes, px_closed = False, px_c2u = None, px_u2c = None, px_crashed = False\<rparr>)"

section \<open>The startup phase\<close>

datatype startup_error =
    PeekFailed
  | WriteFailed
  | HandshakeFailed
  | ErrUnknownStartupMagic nat
  | ErrTooManyNegotiationRounds
  | ReadFailed read_error
  | DecodeFailed
  | Panic

text \<open>The client connection before the relay: what the client sends, what was written to it, the
  outcome of the next writes, whether TLS is configured, and the plaintext stream that a
  handshake yields (\<open>None\<close> when it fails).\<close>

record startup_io =
  io_in :: bytes
  io_out :: bytes
  io_wok :: "bool list"
  io_tls :: bool
  io_handshake :: "bytes option"

definition io_write :: "byte \<Rightarrow> startup_io \<Rightarrow> bool \<times> startup_io" where
  "io_write b io = (case io_wok io of
       True # ws \<Rightarrow> (True, io\<lparr>io_out := io_out io @ [b], io_wok := ws\<rparr>)
     | ws \<Rightarrow> (False, io\<lparr>io_wok := tl ws\<rparr>))"

definition pgSSLRequestCode :: nat where "pgSSLRequestCode = 80877103"
definition pgGSSEncRequestCode :: nat where "pgGSSEncRequestCode = 80877104"
definition maxStartupNegotiationRounds :: nat where "maxStartupNegotiationRounds = 3"

definition byte_N :: byte where "byte_N = 78"
definition byte_S :: byte where "byte_S = 83"

definition handleSSLRequest :: "startup_io \<Rightarrow> (startup_error + bool) \<times> startup_io" where
  "handleSSLRequest io0 =
     (let io = io0\<lparr>io_in := drop 8 (io_in io0)\<rparr> in
      if \<not> io_tls io then
        (case io_write byte_N io of (ok, io1) \<Rightarrow> (if ok then Inr False else Inl WriteFailed, io1))
      else
        (case io_write byte_S io of (ok, io1) \<Rightarrow>
           if \<not> ok then (Inl WriteFailed, io1)
           else case io_handshake io1 of None \<Rightarrow> (Inl HandshakeFailed, io1)
                | Some plain \<Rightarrow> (Inr True, io1\<lparr>io_in := plain\<rparr>)))"

definition handleGSSRequest :: "startup_io \<Rightarrow> startup_error option \<times> startup_io" where
  "handleGSSRequest io0 =
     (case io_write byte_N (io0\<lparr>io_in := drop 8 (io_in io0)\<rparr>) of
        (ok, io1) \<Rightarrow> (if ok then None else Some WriteFailed, io1))"

text \<open>The loop of \<open>negotiateSSL\<close>, by the rounds left.\<close>

fun negotiate :: "nat \<Rightarrow> startup_io \<Rightarrow> startup_error option \<times> startup_io" where
  "negotiate 0 io = (Some ErrTooManyNegotiationRounds, io)"
| "negotiate (Suc r) io =
     (if length (io_in io) < 8 then (Some PeekFailed, io)
      else if be_dec (take 4 (io_in io)) \<noteq> 8 then (None, io)
      else
        let version = be_dec (take 4 (drop 4 (io_in io))) in
        if version = pgSSLRequestCode then
          (case handleSSLRequest io of
             (Inl e, io1) \<Rightarrow> (Some e, io1)
           | (Inr True, io1) \<Rightarrow> (None, io1)
           | (Inr False, io1) \<Rightarrow> negotiate r io1)
        else if version = pgGSSEncRequestCode then
          (case handleGSSRequest io of
             (Some e, io1) \<Rightarrow> (Some e, io1)
           | (None, io1) \<Rightarrow> negotiate r io1)
        else (Some (ErrUnknownStartupMagic version), io))"

definition negotiateSSL :: "startup_io \<Rightarrow> startup_error option \<times> startup_io" where
  "negotiateSSL io = negotiate maxStartupNegotiationRounds io"

text \<open>\<open>decode\<close> is \<open>StartupMessage.Decode\<close> of \<open>pgproto3\<close>. Slicing \<open>msgBuf[4:]\<close> of a buffer
  shorter than four bytes panics, as do a negative allocation and \<open>dataBuf[:-1]\<close>.\<close>

definition receiveStartupMessage ::
  "(bytes \<Rightarrow> 'm option) \<Rightarrow> startup_io \<Rightarrow> (startup_error + 'm) \<times> startup_io" where
  "receiveStartupMessage decode io =
     (case ReadFull 4 (io_in io) of Inl e \<Rightarrow> (Inl (ReadFailed e), io\<lparr>io_in := []\<rparr>)
      | Inr (lengthBuf, rest) \<Rightarrow>
          let length = be_dec lengthBuf; io1 = io\<lparr>io_in := rest\<rparr> in
          if length < 4 then (Inl Panic, io1)
          else case ReadFull (length - 4) rest of Inl e \<Rightarrow> (Inl (ReadFailed e), io1\<lparr>io_in := []\<rparr>)
          | Inr (body, rest') \<Rightarrow>
              (case decode body of None \<Rightarrow> Inl DecodeFailed | Some m \<Rightarrow> Inr m, io1\<lparr>io_in := rest'\<rparr>))"

definition receivePasswordMessage :: "startup_io \<Rightarrow> (startup_error + string) \<times> startup_io" where
  "receivePasswordMessage io =
     (case ReadFull 1 (io_in io) of Inl e \<Rightarrow> (Inl (ReadFailed e), io\<lparr>io_in := []\<rparr>)
      | Inr (_, r1) \<Rightarrow>
     (case ReadFull 4 r1 of Inl e \<Rightarrow> (Inl (ReadFailed e), io\<lparr>io_in := []\<rparr>)
      | Inr (lengthBuf, rest) \<Rightarrow>
          let length = be_dec lengthBuf; io1 = io\<lparr>io_in := rest\<rparr> in
          if length < 4 then (Inl Panic, io1)
          else case ReadFull (length - 4) rest of Inl e \<Rightarrow> (Inl (ReadFailed e), io1\<lparr>io_in := []\<rparr>)
          | Inr (body, rest') \<Rightarrow>
              (if body = [] then Inl Panic else Inr (str_of (butlast body)), io1\<lparr>io_in := rest'\<rparr>)))"

section \<open>Lemmas\<close>

lemma run_simps [simp]:
  "run L [] p = p"
  "run L (e # es) p = run L es (step L e p)"
  "run L (es @ es') p = run L es' (run L es p)"
  by (simp_all add: run_def)

lemma run_invariant:
  assumes "I p" and "\<And>e p. e \<in> set evs \<Longrightarrow> I p \<Longrightarrow> I (step L e p)"
  shows "I (run L evs p)"
  using assms by (induction evs arbitrary: p) auto

text \<open>Writes and reads on the client connection touch the counters, the script and the frames.\<close>

lemma client_write_frame [simp]:
  "px_session (snd (client_write m p)) = px_session p"
  "px_upstream (snd (client_write m p)) = px_upstream p"
  "px_registry (snd (client_write m p)) = px_registry p"
  "px_closed (snd (client_write m p)) = px_closed p"
  "px_crashed (snd (client_write m p)) = px_crashed p"
  "px_c2u (snd (client_write m p)) = px_c2u p"
  "bools (px_heap (snd (client_write m p))) = bools (px_heap p)"
  "next_addr (px_heap (snd (client_write m p))) = next_addr (px_heap p)"
  by (auto simp: client_write_def cc_Write_def cc_count_def split: option.split prod.split)

lemma count_read_frame [simp]:
  "px_session (count_read n p) = px_session p"
  "px_upstream (count_read n p) = px_upstream p"
  "px_registry (count_read n p) = px_registry p"
  "px_closed (count_read n p) = px_closed p"
  "px_crashed (count_read n p) = px_crashed p"
  "px_c2u (count_read n p) = px_c2u p"
  "bools (px_heap (count_read n p)) = bools (px_heap p)"
  "next_addr (px_heap (count_read n p)) = next_addr (px_heap p)"
  by (auto simp: count_read_def cc_Read_def cc_count_def split: option.split)

lemma sendQueryError_frame [simp]:
  "px_session (sendQueryError e p) = px_session p"
  "px_upstream (sendQueryError e p) = px_upstream p"
  "px_registry (sendQueryError e p) = px_registry p"
  "px_closed (sendQueryError e p) = px_closed p"
  "px_crashed (sendQueryError e p) = px_crashed p"
  "px_c2u (sendQueryError e p) = px_c2u p"
  "bools (px_heap (sendQueryError e p)) = bools (px_heap p)"
  "next_addr (px_heap (sendQueryError e p)) = next_addr (px_heap p)"
  by (simp_all add: sendQueryError_def split_beta)

text \<open>A relay step of either goroutine, seen as: the session becomes the result of a handler or of
  a log entry, and at most one message is forwarded.\<close>

lemma on_bus_frame [simp]:
  "px_session (on_bus f p) = px_session p"
  "px_upstream (on_bus f p) = px_upstream p"
  "px_closed (on_bus f p) = px_closed p"
  "px_crashed (on_bus f p) = px_crashed p"
  "px_registry (on_bus f p) = fst (f (px_registry p, px_heap p))"
  "px_heap (on_bus f p) = snd (f (px_registry p, px_heap p))"
  by (simp_all add: on_bus_def split_beta)

text \<open>What the upstream relay can do to the session: one observation, then possibly the log entry
  of an aborted query. A predicate on sessions closed under both is kept.\<close>

lemma session_step_induct:
  assumes intercept: "\<And>msg hp now s. P s \<Longrightarrow> P (snd (intercept L msg hp now s))"
    and observe: "\<And>msg q. P (px_session q) \<Longrightarrow> P (px_session (observe L msg q))"
    and abort: "\<And>e q. P (px_session q) \<Longrightarrow> P (px_session (persistAbortedQuery L e q))"
    and P: "P (px_session p)"
  shows "P (px_session (step L ev p))"
proof -
  have "P (px_session (abortStream L e q))" if "P (px_session q)" for e q
    using that abort [of "snd (client_write ReadyFrame (snd (client_write (LimitErrorFrame e) q)))" e]
    by (simp add: abortStream_def split_beta)
  then have up: "P (px_session (proxyUpstreamToClient L msg now q))" if "P (px_session q)" for msg now q
    using observe [OF that, of msg]
    by (auto simp: proxyUpstreamToClient_def enforceStreamLimits_def split_beta Let_def split: option.split)
  have down: "P (px_session (proxyClientToUpstream L n msg now fl q))" if "P (px_session q)" for n msg now fl q
    using intercept [OF that, of msg "px_heap (count_read n q)" now]
    by (auto simp: proxyClientToUpstream_def split_beta Let_def split: option.split)
  show ?thesis
    using P up down
    by (auto simp: step_def onLimitViolation_def cleanup_def split: pg_event.split option.split)
qed

lemma upd_extended_simps [simp]:
  "ss_grant (upd_extended f s) = ss_grant s"
  "ss_currentQuery (upd_extended f s) = ss_currentQuery s"
  "ss_extended (upd_extended f s) = f (ss_extended s)"
  "ss_logged (upd_extended f s) = ss_logged s"
  "ss_copyState (upd_extended f s) = ss_copyState s"
  "ss_storage (upd_extended f s) = ss_storage s"
  "ss_connectionUID (upd_extended f s) = ss_connectionUID s"
  "ss_revocation (upd_extended f s) = ss_revocation s"
  "ss_guard (upd_extended f s) = ss_guard s"
  "ss_bytesFromClient (upd_extended f s) = ss_bytesFromClient s"
  "ss_bytesToClient (upd_extended f s) = ss_bytesToClient s"
  "ss_lastBytesSnapshot (upd_extended f s) = ss_lastBytesSnapshot s"
  by (simp_all add: upd_extended_def)

lemma new_query_simps [simp]:
  "pq_sql (new_query sql ps now) = sql" "pq_capturedRows (new_query sql ps now) = []"
  "pq_capturedBytes (new_query sql ps now) = 0" "pq_rowNumber (new_query sql ps now) = 0"
  by (simp_all add: new_query_def)

lemmas handler_defs = intercept_def handleQuery_def handleParse_def handleBind_def handleExecute_def
  handleDescribe_def handleClose_def captureCopyData_def Let_def

lemmas observe_defs = observe_def upd_session_def handleParameterDescription_def captureRowDescription_def
  pop_pending_def upd_pending_def start_copy_def query_done_def logQuery_def persistAbortedQuery_def Let_def

lemmas handler_splits = option.splits client_msg.splits object_type.splits

text \<open>Every statement a session holds (running, queued, prepared or logged) passes the statement
  controls of the grant.\<close>

definition only_allowed :: "access_grant \<Rightarrow> session \<Rightarrow> bool" where
  "only_allowed g s \<longleftrightarrow> ag_Controls (ss_grant s) = ag_Controls g
     \<and> (\<forall>q. ss_currentQuery s = Some q \<longrightarrow> control_error g (pq_sql q) = None)
     \<and> (\<forall>q \<in> set (xs_pendingQueries (ss_extended s)). control_error g (pq_sql q) = None)
     \<and> (\<forall>n st. xs_preparedStatements (ss_extended s) n = Some st \<longrightarrow> control_error g (ps_sql st) = None)
     \<and> (\<forall>e \<in> set (ss_logged s). control_error g (lq_SQLText e) = None)"

lemma control_error_cong: "ag_Controls g = ag_Controls g' \<Longrightarrow> control_error g sql = control_error g' sql"
  by (simp add: control_error_def IsReadOnly_def ShouldBlockDDL_def ShouldBlockCopy_def HasControl_def)

lemma control_error_Nil [simp]: "control_error g [] = None"
proof -
  have "\<not> IsPasswordChangeQuery []" "\<not> isReadOnlyBypassAttempt []" "\<not> IsWriteQuery []" "\<not> IsDDLQuery []"
    "\<not> isCopyQuery []" by code_simp+
  then show ?thesis by (simp add: control_error_def)
qed

lemma only_allowed_control: "only_allowed g s \<Longrightarrow> control_error (ss_grant s) sql = control_error g sql"
  by (rule control_error_cong) (simp add: only_allowed_def)

lemma only_allowed_intercept:
  assumes "only_allowed g s"
  shows "only_allowed g (snd (intercept L msg hp now s))"
  using assms only_allowed_control [OF assms]
  by (cases msg) (auto simp: handler_defs only_allowed_def split: handler_splits if_splits)

lemma only_allowed_observe:
  assumes "only_allowed g (px_session p)"
  shows "only_allowed g (px_session (observe L msg p))"
  using assms
  by (cases msg)
     (auto simp: observe_defs captureCopyData_def only_allowed_def capture_row_def
       split: option.splits list.splits sum.splits if_splits dest: in_set_butlastD)

lemma only_allowed_abort:
  assumes "only_allowed g (px_session p)"
  shows "only_allowed g (px_session (persistAbortedQuery L e p))"
  using assms
  by (auto simp: observe_defs only_allowed_def getCurrentPendingQuery_def split: option.splits list.splits)

lemma only_allowed_step:
  "only_allowed g (px_session p) \<Longrightarrow> only_allowed g (px_session (step L ev p))"
  by (rule session_step_induct [where P = "only_allowed g"])
     (auto intro: only_allowed_intercept only_allowed_observe only_allowed_abort)

lemma upstream_relay_forwards_nothing [simp]:
  "px_upstream (proxyUpstreamToClient L msg now p) = px_upstream p"
proof -
  have "px_upstream (observe L msg p) = px_upstream p"
    by (cases msg) (auto simp: observe_def upd_session_def start_copy_def query_done_def Let_def
        split: option.splits sum.splits)
  moreover have "px_upstream (persistAbortedQuery L e q) = px_upstream q" for e q
    by (simp add: persistAbortedQuery_def upd_session_def Let_def split: option.split)
  ultimately show ?thesis
    by (auto simp: proxyUpstreamToClient_def enforceStreamLimits_def abortStream_def split_beta Let_def
        split: option.split)
qed

text \<open>A message reaches the upstream server only through an accepting handler, on an open connection.\<close>

lemma step_upstream:
  "px_upstream (step L ev p) = px_upstream p \<or>
   (\<exists>n msg now. ev = EvClient n msg now True \<and> \<not> px_closed p \<and> \<not> px_crashed p \<and>
      fst (intercept L msg (px_heap (count_read n p)) now (px_session p)) = None \<and>
      px_upstream (step L ev p) = px_upstream p @ [msg])"
  by (cases ev) (auto simp: step_def proxyClientToUpstream_def onLimitViolation_def cleanup_def split_beta
      Let_def split: option.split)

definition statement_of :: "client_msg \<Rightarrow> string option" where
  "statement_of m = (case m of CQuery sql \<Rightarrow> Some sql | CParse _ sql _ \<Rightarrow> Some sql | _ \<Rightarrow> None)"

lemma intercept_statement:
  "fst (intercept L msg hp now s) = None \<Longrightarrow> statement_of msg = Some sql \<Longrightarrow> control_error (ss_grant s) sql = None"
  by (cases msg) (auto simp: intercept_def handleQuery_def handleParse_def statement_of_def split: option.splits)

definition relay_allowed :: "access_grant \<Rightarrow> proxy \<Rightarrow> bool" where
  "relay_allowed g p \<longleftrightarrow> only_allowed g (px_session p) \<and>
     (\<forall>m \<in> set (px_upstream p). \<forall>sql. statement_of m = Some sql \<longrightarrow> control_error g sql = None)"

lemma relay_allowed_step:
  assumes "relay_allowed g p"
  shows "relay_allowed g (step L ev p)"
  using assms step_upstream [of L ev p] only_allowed_step [of g p L ev]
    intercept_statement [of L _ _ _ "px_session p"] only_allowed_control [of g "px_session p"]
  unfolding relay_allowed_def by fastforce

lemma relay_allowed_start: "relay_allowed g (proxyMessages (fst (NewSession cfg g conn hp0)) hp r ws)"
  by (simp add: relay_allowed_def only_allowed_def proxyMessages_def NewSession_def NewInt_def Let_def split_beta)

text \<open>C1. Under every interleaving of client messages, server messages, watchdog ticks and
  revocations, a statement that reaches the upstream server (a simple query or a prepared
  statement) changes no password, and respects each control of the grant the session started
  with; the same holds of every statement in the query log.\<close>

theorem forwarded_statements_allowed:
  assumes "p = proxyMessages (fst (NewSession cfg g conn hp0)) hp r ws"
    and "(\<exists>m \<in> set (px_upstream (run L evs p)). statement_of m = Some sql) \<or>
         sql \<in> lq_SQLText ` set (ss_logged (px_session (run L evs p)))"
  shows "\<not> IsPasswordChangeQuery sql
    \<and> (IsReadOnly g \<longrightarrow> \<not> IsWriteQuery sql \<and> \<not> isReadOnlyBypassAttempt sql)
    \<and> (ShouldBlockDDL g \<and> \<not> IsReadOnly g \<longrightarrow> \<not> IsDDLQuery sql)
    \<and> (ShouldBlockCopy g \<longrightarrow> \<not> isCopyQuery sql)"
proof -
  have "relay_allowed g (run L evs p)"
    unfolding assms(1) by (rule run_invariant) (auto intro: relay_allowed_start relay_allowed_step)
  then have "control_error g sql = None"
    using assms(2) by (auto simp: relay_allowed_def only_allowed_def)
  then show ?thesis by (auto simp: control_error_def split: if_splits)
qed

definition pg_grant :: access_grant where
  "pg_grant = \<lparr>ag_UID = 7, ag_UserID = 1, ag_DatabaseID = 2, ag_Controls = [ControlReadOnly],
     ag_GrantedBy = 3, ag_StartsAt = 0, ag_ExpiresAt = 1000, ag_RevokedAt = None, ag_RevokedBy = None,
     ag_MaxQueryCounts = Some 10, ag_MaxBytesTransferred = None, ag_CreatedAt = 0, ag_QueryCount = 0,
     ag_BytesTransferred = 5\<rparr>"

definition sample_storage :: query_storage where
  "sample_storage = \<lparr>cfg_StoreResults = True, cfg_MaxResultRows = 2, cfg_MaxResultBytes = 10\<rparr>"

definition sample_lib :: pg_lib where
  "sample_lib = \<lparr>FormatFloat32 = (\<lambda>_. []), FormatFloat64 = (\<lambda>_. []), ParseFloat = (\<lambda>_. None),
     json_valid = (\<lambda>_. False), json_Marshal = (\<lambda>_. Inr [])\<rparr>"

definition sample_outcomes :: "(int \<times> bool) list" where
  "sample_outcomes = replicate 12 (20, True)"

definition sample_proxy :: proxy where
  "sample_proxy = proxyMessages (fst (NewSession sample_storage pg_grant 9 empty_heap))
     (snd (NewSession sample_storage pg_grant 9 empty_heap)) (Some NewRevocationRegistry) sample_outcomes"

lemma sample_forwards:
  "px_upstream (run sample_lib [EvClient 14 (CQuery ''SELECT 1'') 5 True] sample_proxy) = [CQuery ''SELECT 1'']"
  by code_simp

theorem forwarded_statements_allowed_witness: "\<not> IsWriteQuery ''SELECT 1''"
proof -
  have "\<exists>m \<in> set (px_upstream (run sample_lib [EvClient 14 (CQuery ''SELECT 1'') 5 True] sample_proxy)).
      statement_of m = Some ''SELECT 1''"
    by (simp only: sample_forwards) (simp add: statement_of_def)
  moreover have "IsReadOnly pg_grant" by code_simp
  ultimately show ?thesis
    using forwarded_statements_allowed [OF sample_proxy_def, of sample_lib
        "[EvClient 14 (CQuery ''SELECT 1'') 5 True]" "''SELECT 1''"] by blast
qed

section \<open>Revocation\<close>

definition bus_of :: "proxy \<Rightarrow> bus" where
  "bus_of p = (px_registry p, px_heap p)"

text \<open>What the relay leaves alone, whichever the event.\<close>

lemma client_relay_frame [simp]:
  "px_registry (proxyClientToUpstream L n msg now fl p) = px_registry p"
  "bools (px_heap (proxyClientToUpstream L n msg now fl p)) = bools (px_heap p)"
  "next_addr (px_heap (proxyClientToUpstream L n msg now fl p)) = next_addr (px_heap p)"
  "px_closed (proxyClientToUpstream L n msg now fl p) = px_closed p"
  "px_crashed (proxyClientToUpstream L n msg now fl p) = px_crashed p"
  by (simp_all add: proxyClientToUpstream_def split_beta Let_def split: option.split)

lemma observe_frame [simp]:
  "px_registry (observe L msg p) = px_registry p"
  "px_heap (observe L msg p) = px_heap p"
  "px_closed (observe L msg p) = px_closed p"
  "px_crashed p \<Longrightarrow> px_crashed (observe L msg p)"
  by (cases msg; auto simp: observe_def upd_session_def start_copy_def query_done_def Let_def
      split: option.splits sum.splits)+

lemma persistAbortedQuery_frame [simp]:
  "px_registry (persistAbortedQuery L e p) = px_registry p"
  "px_heap (persistAbortedQuery L e p) = px_heap p"
  "px_closed (persistAbortedQuery L e p) = px_closed p"
  "px_crashed (persistAbortedQuery L e p) = px_crashed p"
  by (simp_all add: persistAbortedQuery_def upd_session_def Let_def split: option.split)

lemma server_relay_frame [simp]:
  "px_registry (proxyUpstreamToClient L msg now p) = px_registry p"
  "bools (px_heap (proxyUpstreamToClient L msg now p)) = bools (px_heap p)"
  "next_addr (px_heap (proxyUpstreamToClient L msg now p)) = next_addr (px_heap p)"
  "px_closed (proxyUpstreamToClient L msg now p) = px_closed p"
  "px_crashed p \<Longrightarrow> px_crashed (proxyUpstreamToClient L msg now p)"
  by (auto simp: proxyUpstreamToClient_def enforceStreamLimits_def abortStream_def split_beta Let_def
      split: option.split)

text \<open>The identity of a session: its grant, its revocation handle and its guard never change.\<close>

definition identity :: "session \<Rightarrow> uuid \<times> addr option \<times> limit_guard option" where
  "identity s = (ag_UID (ss_grant s), ss_revocation s, ss_guard s)"

lemma identity_intercept: "identity (snd (intercept L msg hp now s)) = identity s"
  by (cases msg) (auto simp: handler_defs identity_def split: handler_splits if_splits)

lemma identity_observe: "identity (px_session (observe L msg p)) = identity (px_session p)"
  by (cases msg) (auto simp: observe_defs captureCopyData_def identity_def
      split: option.splits list.splits sum.splits if_splits)

lemma identity_abort: "identity (px_session (persistAbortedQuery L e p)) = identity (px_session p)"
  by (auto simp: observe_defs identity_def split: option.splits)

lemma identity_step [simp]: "identity (px_session (step L ev p)) = identity (px_session p)"
  by (rule session_step_induct [where P = "\<lambda>s. identity s = identity (px_session p)"])
     (simp_all add: identity_intercept identity_observe identity_abort)

lemma bus_of_on_bus [simp]: "bus_of (on_bus f p) = f (bus_of p)"
  by (simp add: bus_of_def)

lemma session_of_step:
  "ag_UID (ss_grant (px_session (step L ev p))) = ag_UID (ss_grant (px_session p))"
  "ss_revocation (px_session (step L ev p)) = ss_revocation (px_session p)"
  using identity_step [of L ev p] by (simp_all add: identity_def)

text \<open>How an event acts on the bus.\<close>

lemma step_bus:
  "step L ev p = p
   \<or> (bools (px_heap (step L ev p)) = bools (px_heap p) \<and> next_addr (px_heap (step L ev p)) = next_addr (px_heap p)
      \<and> px_registry (step L ev p) = px_registry p \<and> (px_closed p \<longrightarrow> px_closed (step L ev p))
      \<and> (px_crashed p \<longrightarrow> px_crashed (step L ev p)))
   \<or> (\<exists>op. ev = EvRegistry op \<and> step L ev p = on_bus (bus_step op) p)
   \<or> (ev = EvCleanup \<and> step L ev p = cleanup p)"
  by (cases ev) (auto simp: step_def onLimitViolation_def split: option.split)

definition executes :: "client_msg \<Rightarrow> bool" where
  "executes m = (case m of CQuery _ \<Rightarrow> True | CExecute _ \<Rightarrow> True | _ \<Rightarrow> False)"

definition pg_over :: "proxy \<Rightarrow> bool" where
  "pg_over p \<longleftrightarrow> px_closed p \<or> px_crashed p"

definition pg_executed :: "proxy \<Rightarrow> client_msg list" where
  "pg_executed p = filter executes (px_upstream p)"

lemma revoked_forwards:
  assumes "px_closed p \<or> px_crashed p \<or> Revoked (px_heap p) (ss_revocation (px_session p))"
  shows "filter executes (px_upstream (step L ev p)) = filter executes (px_upstream p)"
  using step_upstream [of L ev p]
proof (elim disjE exE conjE)
  fix n msg now
  assume "\<not> px_closed p" "\<not> px_crashed p" and
    acc: "fst (intercept L msg (px_heap (count_read n p)) now (px_session p)) = None"
    and up: "px_upstream (step L ev p) = px_upstream p @ [msg]"
  then have "checkQuotas (px_heap (count_read n p)) now (px_session p) = Some (PgLimit ErrGrantRevoked)"
    using assms by (simp add: checkQuotas_def Revoked_def Let_def split: option.splits)
  then have "\<not> executes msg" using acc
    by (cases msg) (simp_all add: executes_def intercept_def handleQuery_def handleExecute_def)
  then show ?thesis using up by simp
qed simp

interpretation pg_relay: revocable_session "step L" bus_of "\<lambda>p. ss_revocation (px_session p)" pg_over pg_executed EvRegistry for L
proof unfold_locales
  fix e p h op
  show "ss_revocation (px_session (step L e p)) = ss_revocation (px_session p)" by (rule session_of_step)
  show "pg_over p \<Longrightarrow> pg_over (step L e p)"
    using step_bus [of L e p] by (auto simp: pg_over_def cleanup_def)
  show "\<not> pg_over (step L e p) \<Longrightarrow> (\<exists>op. e = EvRegistry op \<and> bus_of (step L e p) = bus_step op (bus_of p)) \<or>
      same_flags (bus_of p) (bus_of (step L e p))"
    using step_bus [of L e p] by (auto simp: pg_over_def cleanup_def same_flags_def bus_of_def)
  show "\<not> pg_over p \<Longrightarrow> bus_of (step L (EvRegistry op) p) = bus_step op (bus_of p)"
    by (simp add: step_def pg_over_def)
  show "pg_executed (step L (EvRegistry op) p) = pg_executed p" by (simp add: step_def pg_executed_def)
  show "pg_over p \<Longrightarrow> pg_executed (step L e p) = pg_executed p"
    using revoked_forwards [of p L e] by (auto simp: pg_over_def pg_executed_def)
  show "ss_revocation (px_session p) = Some h \<Longrightarrow> bools (snd (bus_of p)) h \<Longrightarrow> pg_executed (step L e p) = pg_executed p"
    using revoked_forwards [of p L e] by (simp add: pg_executed_def bus_of_def Revoked_def)
qed

lemma pg_attached:
  assumes "bus_inv (r, hp)" and "ag_UID (ss_grant s) \<noteq> uuid_Nil"
  shows "pg_relay.attached (ag_UID (ss_grant s)) (next_addr hp) (proxyMessages s hp r ws)"
proof -
  obtain h r' hp' where reg: "Register r (ag_UID (ss_grant s)) hp = (h, r', hp')" by (cases "Register r (ag_UID (ss_grant s)) hp")
  show ?thesis
    using bus_register_new [OF assms reg] by (simp add: pg_relay.attached_def proxyMessages_def reg bus_of_def)
qed

text \<open>C3. From the moment a grant is revoked in the registry, a session that runs under it forwards
  no further query and no further execution to the upstream server, whatever it did before,
  whatever its client sends and however the goroutines interleave; only the session itself may
  deregister its handle.\<close>

theorem revoked_session_executes_nothing:
  assumes "bus_inv (r, hp)" and "ag_UID (ss_grant s) \<noteq> uuid_Nil"
    and "EvRegistry (OpDeregister (ag_UID (ss_grant s)) (next_addr hp)) \<notin> set before"
  shows "filter executes (px_upstream (run L (before @ EvRegistry (OpRevoke (ag_UID (ss_grant s))) # after)
      (proxyMessages s hp r ws)))
    = filter executes (px_upstream (run L before (proxyMessages s hp r ws)))"
  using pg_relay.revocation_final [OF pg_attached [OF assms(1,2)] assms(3)] by (simp add: run_def pg_executed_def)

theorem revoked_session_executes_nothing_witness:
  "filter executes (px_upstream (run sample_lib
     [EvClient 14 (CQuery ''SELECT 1'') 5 True, EvRegistry (OpRevoke 7),
      EvClient 14 (CQuery ''SELECT 2'') 6 True] sample_proxy)) = [CQuery ''SELECT 1'']"
proof -
  let ?s = "fst (NewSession sample_storage pg_grant 9 empty_heap)"
  let ?hp = "snd (NewSession sample_storage pg_grant 9 empty_heap)"
  have g: "ag_UID (ss_grant ?s) = 7"
    by (simp add: NewSession_def NewInt_def pg_grant_def)
  have "filter executes [CQuery ''SELECT 1''] = [CQuery ''SELECT 1'']" by (simp add: executes_def)
  moreover have "filter executes (px_upstream (run sample_lib ([EvClient 14 (CQuery ''SELECT 1'') 5 True] @
      EvRegistry (OpRevoke (ag_UID (ss_grant ?s))) # [EvClient 14 (CQuery ''SELECT 2'') 6 True]) sample_proxy))
    = filter executes (px_upstream (run sample_lib [EvClient 14 (CQuery ''SELECT 1'') 5 True] sample_proxy))"
    unfolding sample_proxy_def
    by (rule revoked_session_executes_nothing) (simp_all add: bus_inv_init g)
  ultimately show ?thesis
    by (simp only: g sample_forwards append_Cons append_Nil)
qed

end
