(* ===== verification/Audited_Session.thy ===== *)
theory Audited_Session
  imports Query_Log
begin

text \<open>
  What the MySQL and the MongoDB session have in common: the grant and its in-session counters,
  the audit record of the connection, the wire counters with the snapshot of the last recorded
  query, and \<open>recordQuery\<close>. The two packages repeat this code; the definitions here are the bodies
  that the protocol theories name. The interface \<open>audited_session\<close> states what a protocol may do
  with this state and carries the accounting once for both.
\<close>

section \<open>State\<close>

record audit_entry =
  ae_SQLText :: string
  ae_Parameters :: "query_parameters option"
  ae_ExecutedAt :: time
  ae_DurationMs :: int
  ae_RowsAffected :: "int option"
  ae_Error :: "string option"
  ae_Rows :: "result_row list"
  ae_Bytes :: int

text \<open>\<open>au_log\<close> has the entries handed to the goroutines of \<open>recordQuery\<close>, \<open>au_trailing\<close> the byte counts
  flushed at the disconnect.\<close>

record audited =
  au_grant :: access_grant
  au_connection :: "uuid option"
  au_revocation :: "addr option"
  au_guard :: "limit_guard option"
  au_from :: addr
  au_to :: addr
  au_snapshot :: int
  au_log :: "audit_entry list"
  au_trailing :: "int list"

definition cumulative_bytes :: "heap \<Rightarrow> audited \<Rightarrow> int" where
  "cumulative_bytes hp a = wrap_i64 (LoadInt hp (au_from a) + LoadInt hp (au_to a))"

text \<open>\<open>Duration.Microseconds\<close>; the result divided by 1000 is the value in milliseconds.\<close>

definition microseconds :: "time \<Rightarrow> time \<Rightarrow> int" where
  "microseconds now start = (let d = time_Sub now start in if d < 0 then - (- d div 1000) else d div 1000)"

definition record_query ::
  "string \<Rightarrow> query_parameters option \<Rightarrow> time \<Rightarrow> time \<Rightarrow> result_row list \<Rightarrow> int option \<Rightarrow> string option \<Rightarrow> heap \<Rightarrow> audited \<Rightarrow> audited" where
  "record_query sql params start now rows rowsAffected queryError hp a =
     (case au_connection a of None \<Rightarrow> a
      | Some _ \<Rightarrow>
          let t = cumulative_bytes hp a;
              bytesTransferred = wrap_i64 (t - au_snapshot a);
              g = au_grant a
          in a\<lparr>au_snapshot := t,
               au_log := au_log a @ [\<lparr>ae_SQLText = sql, ae_Parameters = params, ae_ExecutedAt = start,
                  ae_DurationMs = microseconds now start, ae_RowsAffected = rowsAffected, ae_Error = queryError,
                  ae_Rows = rows, ae_Bytes = bytesTransferred\<rparr>],
               au_grant := g\<lparr>ag_QueryCount := wrap_i64 (ag_QueryCount g + 1),
                             ag_BytesTransferred := wrap_i64 (ag_BytesTransferred g + bytesTransferred)\<rparr>\<rparr>)"

text \<open>The goroutine that \<open>recordQuery\<close> starts.\<close>

definition persist_record :: "uuid \<Rightarrow> audit_entry \<Rightarrow> uuid \<Rightarrow> uuid list \<Rightarrow> time \<Rightarrow> time \<Rightarrow> db \<Rightarrow> db" where
  "persist_record connectionUID e newUID rowUIDs now now' st =
     (case CreateQuery \<lparr>qry_UID = uuid_Nil, qry_ConnectionID = connectionUID, qry_SQLText = ae_SQLText e,
              qry_Parameters = ae_Parameters e, qry_ExecutedAt = ae_ExecutedAt e, qry_DurationMs = Some (ae_DurationMs e),
              qry_RowsAffected = ae_RowsAffected e, qry_Error = ae_Error e, qry_CopyFormat = None,
              qry_CopyDirection = None\<rparr> newUID now st of
        (Inl _, st1) \<Rightarrow> st1
      | (Inr created, st1) \<Rightarrow>
          let st2 = (if length (ae_Rows e) > 0 then snd (StoreQueryRows (qry_UID created) (ae_Rows e) rowUIDs st1) else st1)
          in if ae_Bytes e > 0 then snd (IncrementConnectionStats connectionUID (ae_Bytes e) now' st2) else st2)"

definition flush_trailing :: "heap \<Rightarrow> audited \<Rightarrow> audited" where
  "flush_trailing hp a =
     (case au_connection a of None \<Rightarrow> a
      | Some _ \<Rightarrow>
          let t = cumulative_bytes hp a; delta = wrap_i64 (t - au_snapshot a) in
          if delta > 0 then a\<lparr>au_snapshot := t, au_trailing := au_trailing a @ [delta]\<rparr> else a)"

text \<open>The statements of \<open>recordDisconnect\<close> for the delta it flushed, if any.\<close>

definition persist_disconnect :: "uuid \<Rightarrow> int option \<Rightarrow> time \<Rightarrow> time \<Rightarrow> db \<Rightarrow> db" where
  "persist_disconnect connectionUID delta now now' st =
     snd (CloseConnection connectionUID now'
       (case delta of None \<Rightarrow> st | Some d \<Rightarrow> snd (IncrementConnectionBytes connectionUID d now st)))"

section \<open>Quotas\<close>

datatype quota_failure = QuotaExpired | QuotaQueries | QuotaBytes

definition check_quotas :: "time \<Rightarrow> access_grant \<Rightarrow> quota_failure option" where
  "check_quotas now g =
     (if \<not> IsZero (ag_ExpiresAt g) \<and> \<not> now < ag_ExpiresAt g then Some QuotaExpired
      else if (case ag_MaxQueryCounts g of None \<Rightarrow> False | Some m \<Rightarrow> ag_QueryCount g \<ge> m) then Some QuotaQueries
      else if (case ag_MaxBytesTransferred g of None \<Rightarrow> False | Some m \<Rightarrow> ag_BytesTransferred g \<ge> m) then Some QuotaBytes
      else None)"

section \<open>Accounting\<close>

text \<open>The terms of a grant are its row without the counters.\<close>

definition terms :: "access_grant \<Rightarrow> access_grant" where
  "terms g = g\<lparr>ag_QueryCount := 0, ag_BytesTransferred := 0\<rparr>"

lemma terms_controls [simp]:
  "IsReadOnly (g\<lparr>ag_QueryCount := n, ag_BytesTransferred := b\<rparr>) = IsReadOnly g"
  "ShouldBlockDDL (g\<lparr>ag_QueryCount := n, ag_BytesTransferred := b\<rparr>) = ShouldBlockDDL g"
  by (simp_all add: IsReadOnly_def ShouldBlockDDL_def HasControl_def)

lemma terms_eq_controls:
  assumes "terms g = terms h"
  shows "IsReadOnly g = IsReadOnly h" and "ShouldBlockDDL g = ShouldBlockDDL h" and "ag_UID g = ag_UID h"
    and "ag_ExpiresAt g = ag_ExpiresAt h" and "ag_MaxQueryCounts g = ag_MaxQueryCounts h"
    and "ag_MaxBytesTransferred g = ag_MaxBytesTransferred h"
proof -
  have "IsReadOnly (terms g) = IsReadOnly (terms h)" "ShouldBlockDDL (terms g) = ShouldBlockDDL (terms h)"
    "ag_UID (terms g) = ag_UID (terms h)" "ag_ExpiresAt (terms g) = ag_ExpiresAt (terms h)"
    "ag_MaxQueryCounts (terms g) = ag_MaxQueryCounts (terms h)"
    "ag_MaxBytesTransferred (terms g) = ag_MaxBytesTransferred (terms h)"
    by (simp_all add: assms)
  then show "IsReadOnly g = IsReadOnly h" "ShouldBlockDDL g = ShouldBlockDDL h" "ag_UID g = ag_UID h"
    "ag_ExpiresAt g = ag_ExpiresAt h" "ag_MaxQueryCounts g = ag_MaxQueryCounts h"
    "ag_MaxBytesTransferred g = ag_MaxBytesTransferred h"
    by (simp_all add: terms_def)
qed

definition log_bytes :: "audited \<Rightarrow> int" where
  "log_bytes a = sum_list (map ae_Bytes (au_log a))"

text \<open>What one operation of a protocol may do to the audited state.\<close>

inductive audit_step :: "audited \<Rightarrow> audited \<Rightarrow> bool" where
  audit_record: "audit_step a (record_query sql params start now rows ra err hp a)"
| audit_flush: "audit_step a (flush_trailing hp a)"

text \<open>The charges of a session that started with \<open>a0\<close>: the counters of the grant grew by the entries of
  the log, and the snapshot by the logged and the flushed bytes.\<close>

definition accounted_for :: "audited \<Rightarrow> audited \<Rightarrow> bool" where
  "accounted_for a0 a \<longleftrightarrow> terms (au_grant a) = terms (au_grant a0)
     \<and> au_connection a = au_connection a0 \<and> au_revocation a = au_revocation a0 \<and> au_guard a = au_guard a0
     \<and> ag_QueryCount (au_grant a) = wrap_i64 (ag_QueryCount (au_grant a0) + int (length (au_log a)))
     \<and> ag_BytesTransferred (au_grant a) = wrap_i64 (ag_BytesTransferred (au_grant a0) + log_bytes a)
     \<and> au_snapshot a = wrap_i64 (au_snapshot a0 + log_bytes a + sum_list (au_trailing a))"

definition fresh_audit :: "audited \<Rightarrow> bool" where
  "fresh_audit a \<longleftrightarrow> au_log a = [] \<and> au_trailing a = [] \<and> in_i64 (au_snapshot a)
     \<and> in_i64 (ag_QueryCount (au_grant a)) \<and> in_i64 (ag_BytesTransferred (au_grant a))"

lemma accounted_for_init: "fresh_audit a \<Longrightarrow> accounted_for a a"
  by (simp add: accounted_for_def fresh_audit_def log_bytes_def)

lemma in_i64_cumulative [simp]: "in_i64 (cumulative_bytes hp a)"
  by (simp add: cumulative_bytes_def)

lemma wrap_catch_up:
  assumes "s = wrap_i64 x" and "in_i64 t"
  shows "wrap_i64 (x + wrap_i64 (t - s)) = t"
proof -
  have "wrap_i64 (x + wrap_i64 (t - s)) = wrap_i64 (x + t - s)" by (simp only: wrap_i64_add add_diff_eq)
  also have "\<dots> = wrap_i64 (x + t - x)" by (simp only: assms(1) wrap_i64_add)
  finally show ?thesis using assms(2) by simp
qed

lemma record_query_sel:
  fixes sql params start now rows ra err hp a
  defines "b \<equiv> record_query sql params start now rows ra err hp a"
    and "d \<equiv> wrap_i64 (cumulative_bytes hp a - au_snapshot a)"
  assumes "au_connection a = Some c"
  shows "terms (au_grant b) = terms (au_grant a)" and "au_connection b = au_connection a"
    and "au_revocation b = au_revocation a" and "au_guard b = au_guard a" and "au_trailing b = au_trailing a"
    and "length (au_log b) = Suc (length (au_log a))" and "log_bytes b = log_bytes a + d"
    and "au_snapshot b = cumulative_bytes hp a"
    and "ag_QueryCount (au_grant b) = wrap_i64 (ag_QueryCount (au_grant a) + 1)"
    and "ag_BytesTransferred (au_grant b) = wrap_i64 (ag_BytesTransferred (au_grant a) + d)"
  using assms(3) by (simp_all add: b_def d_def record_query_def terms_def log_bytes_def Let_def)

lemma accounted_for_step:
  assumes "audit_step a b" and "accounted_for a0 a"
  shows "accounted_for a0 b"
  using assms(1)
proof cases
  case (audit_record sql params start now rows ra err hp)
  show ?thesis
  proof (cases "au_connection a")
    case None
    then show ?thesis using assms(2) by (simp add: audit_record record_query_def)
  next
    case (Some c)
    let ?t = "cumulative_bytes hp a" and ?d = "wrap_i64 (cumulative_bytes hp a - au_snapshot a)"
    have acc: "accounted_for a0 a" by (rule assms(2))
    have "wrap_i64 (au_snapshot a0 + log_bytes a + sum_list (au_trailing a) + ?d) = ?t"
      by (rule wrap_catch_up) (use acc in \<open>simp_all add: accounted_for_def\<close>)
    then have "?t = wrap_i64 (au_snapshot a0 + (log_bytes a + ?d) + sum_list (au_trailing a))"
      by (metis (no_types, opaque_lifting) add.assoc add.commute)
    moreover have "wrap_i64 (ag_BytesTransferred (au_grant a) + ?d) = wrap_i64 (ag_BytesTransferred (au_grant a0) + (log_bytes a + ?d))"
    proof -
      have "ag_BytesTransferred (au_grant a) = wrap_i64 (ag_BytesTransferred (au_grant a0) + log_bytes a)"
        using acc by (simp add: accounted_for_def)
      then show ?thesis by (metis (no_types) wrap_i64_add(1) add.assoc)
    qed
    moreover have "wrap_i64 (ag_QueryCount (au_grant a) + 1) = wrap_i64 (ag_QueryCount (au_grant a0) + int (Suc (length (au_log a))))"
      using acc by (simp add: accounted_for_def ac_simps)
    ultimately show ?thesis
      using acc unfolding audit_record accounted_for_def by (simp only: record_query_sel [OF Some])
  qed
next
  case (audit_flush hp)
  show ?thesis
  proof (cases "au_connection a = None \<or> \<not> 0 < wrap_i64 (cumulative_bytes hp a - au_snapshot a)")
    case True
    then have "b = a" by (auto simp: audit_flush flush_trailing_def Let_def split: option.split)
    then show ?thesis using assms(2) by simp
  next
    case False
    let ?t = "cumulative_bytes hp a"
    have "wrap_i64 (au_snapshot a0 + log_bytes a + sum_list (au_trailing a) + wrap_i64 (?t - au_snapshot a)) = ?t"
      by (rule wrap_catch_up) (use assms(2) in \<open>simp_all add: accounted_for_def\<close>)
    moreover have "b = a\<lparr>au_snapshot := ?t, au_trailing := au_trailing a @ [wrap_i64 (?t - au_snapshot a)]\<rparr>"
      using False by (auto simp: audit_flush flush_trailing_def Let_def)
    ultimately show ?thesis using assms(2) by (simp add: accounted_for_def log_bytes_def add.assoc)
  qed
qed

lemma audit_step_frame:
  assumes "audit_step a b"
  shows "terms (au_grant b) = terms (au_grant a)" and "au_connection b = au_connection a"
    and "au_revocation b = au_revocation a" and "au_guard b = au_guard a"
    and "length (au_log a) \<le> length (au_log b)"
  using assms
  by (induction rule: audit_step.induct)
     (simp_all add: record_query_def flush_trailing_def terms_def Let_def split: option.split)

lemma audit_steps_frame:
  assumes "audit_step\<^sup>*\<^sup>* a b"
  shows "terms (au_grant b) = terms (au_grant a)" and "au_connection b = au_connection a"
    and "au_revocation b = au_revocation a" and "au_guard b = au_guard a"
    and "length (au_log a) \<le> length (au_log b)"
  using assms by (induction rule: rtranclp_induct) (simp_all add: audit_step_frame order_trans [OF _ audit_step_frame(5)])

text \<open>A protocol reads and writes the audited state through those operations only.\<close>

locale audited_session =
  fixes core :: "'s \<Rightarrow> audited" and act :: "'e \<Rightarrow> 's \<Rightarrow> 's"
  assumes act_audited: "audit_step\<^sup>*\<^sup>* (core s) (core (act e s))"
begin

lemma run_audited: "audit_step\<^sup>*\<^sup>* (core s) (core (fold act es s))"
proof (induction es arbitrary: s)
  case (Cons e es)
  show ?case using rtranclp_trans [OF act_audited Cons.IH] by simp
qed simp

lemma accounted_act:
  assumes "accounted_for a0 (core s)"
  shows "accounted_for a0 (core (act e s))"
  using act_audited [of s e] assms by (induction rule: rtranclp_induct) (auto intro: accounted_for_step)

lemma accounted_run:
  assumes "accounted_for a0 (core s)"
  shows "accounted_for a0 (core (fold act es s))"
  using assms by (induction es arbitrary: s) (auto intro: accounted_act)

lemma session_accounted:
  assumes "fresh_audit (core s)"
  shows "accounted_for (core s) (core (fold act es s))"
  using assms by (intro accounted_run accounted_for_init)

end

end
