(* ===== verification/Mysql_Session.thy ===== *)
theory Mysql_Session
  imports Audited_Session
begin

text \<open>
  \<open>internal/proxy/mysql\<close>: the command handler of \<open>intercept.go\<close>, the row capture of \<open>result.go\<close> and the
  session of \<open>session.go\<close>. The protocol engine is a third-party package: it reads the commands and calls
  the handler, and the client of the same package runs statements on the upstream server. What
  it passes in (commands, results, the bytes that crossed the client connection) is an input of
  each event.
\<close>

section \<open>Results\<close>

text \<open>A value of a result row: \<open>FNum\<close> is a number by its JSON text.\<close>

datatype field_value = FNull | FNum string | FBytes string

record my_result =
  mr_AffectedRows :: int
  mr_FieldTypes :: "int option list"
  mr_Values :: "field_value list list option"

text \<open>The value given to the JSON encoder.\<close>

datatype 'j json_value = JNull | JNum string | JStr string | JBlob string | JParsed 'j

text \<open>The JSON package, the field types of the protocol engine and the error of its client on a closed
  connection.\<close>

record 'j mysql_lib =
  ml_Unmarshal :: "string \<Rightarrow> 'j option"
  ml_Marshal :: "'j json_value list \<Rightarrow> string option"
  ml_is_blob :: "int \<Rightarrow> bool"
  ml_is_json :: "int \<Rightarrow> bool"
  ml_ErrBadConn :: string

definition utf8_Valid :: "string \<Rightarrow> bool" where
  "utf8_Valid s = list_all (\<lambda>(r, bs). \<not> (r = 65533 \<and> length bs = 1)) (segs s)"

definition jsonBytesValue :: "'j mysql_lib \<Rightarrow> string \<Rightarrow> int \<Rightarrow> 'j json_value" where
  "jsonBytesValue J b fieldType =
     (if ml_is_blob J fieldType then
        if \<not> utf8_Valid b then JBlob (b64_encode (bytes_of b)) else JStr b
      else if ml_is_json J fieldType then
        (case ml_Unmarshal J b of Some parsed \<Rightarrow> JParsed parsed | None \<Rightarrow> JStr b)
      else JStr b)"

definition jsonValue :: "'j mysql_lib \<Rightarrow> field_value \<Rightarrow> int \<Rightarrow> 'j json_value" where
  "jsonValue J fv fieldType =
     (case fv of FNull \<Rightarrow> JNull | FNum t \<Rightarrow> JNum t | FBytes b \<Rightarrow> jsonBytesValue J b fieldType)"

definition field_type :: "int option list \<Rightarrow> nat \<Rightarrow> int" where
  "field_type flds i = (if i < length flds then (case flds ! i of Some t \<Rightarrow> t | None \<Rightarrow> 0) else 0)"

definition encodeRow :: "'j mysql_lib \<Rightarrow> int option list \<Rightarrow> field_value list \<Rightarrow> string option" where
  "encodeRow J flds row =
     ml_Marshal J (map (\<lambda>i. jsonValue J (row ! i) (field_type flds i)) [0..<length row])"

text \<open>The loop of \<open>captureRows\<close>: the rows, the bytes, whether a limit cut it.\<close>

fun capture_rows ::
  "'j mysql_lib \<Rightarrow> query_storage \<Rightarrow> int option list \<Rightarrow> int \<Rightarrow> int \<Rightarrow> field_value list list \<Rightarrow> result_row list \<times> int \<times> bool" where
  "capture_rows J q flds i totalBytes [] = ([], totalBytes, False)"
| "capture_rows J q flds i totalBytes (row # rest) =
     (if cfg_MaxResultRows q > 0 \<and> i \<ge> cfg_MaxResultRows q then ([], totalBytes, True)
      else case encodeRow J flds row of None \<Rightarrow> capture_rows J q flds (i + 1) totalBytes rest
      | Some rowJSON \<Rightarrow>
          let sz = int (length rowJSON) in
          if cfg_MaxResultBytes q > 0 \<and> totalBytes + sz > cfg_MaxResultBytes q then ([], totalBytes, True)
          else let (rows, t, cutoff) = capture_rows J q flds (i + 1) (totalBytes + sz) rest
               in (\<lparr>rr_RowNumber = i + 1, rr_RowData = rowJSON, rr_RowSizeBytes = sz\<rparr> # rows, t, cutoff))"

definition captureRows :: "'j mysql_lib \<Rightarrow> query_storage \<Rightarrow> my_result option \<Rightarrow> result_row list \<times> int \<times> bool" where
  "captureRows J q result =
     (case result of None \<Rightarrow> ([], 0, False)
      | Some r \<Rightarrow>
          (case mr_Values r of None \<Rightarrow> ([], 0, False)
           | Some values \<Rightarrow>
               if values = [] \<or> \<not> cfg_StoreResults q then ([], 0, False)
               else capture_rows J q (mr_FieldTypes r) 0 0 values))"

section \<open>Session\<close>

record mysql_session =
  my_core :: audited
  my_database :: server
  my_storage :: query_storage
  my_requestedDB :: string
  my_authComplete :: bool

datatype mysql_error =
    MyRevoked
  | MyQuota quota_failure
  | MyValidation validation_error
  | MyUpstream string
  | ErrCommandNotPermitted
  | ErrSwitchDatabaseDenied

fun mysql_text :: "mysql_error \<Rightarrow> string" where
  "mysql_text MyRevoked = limit_text ErrGrantRevoked"
| "mysql_text (MyQuota QuotaExpired) = limit_text ErrGrantExpired"
| "mysql_text (MyQuota QuotaQueries) = ''query count limit exceeded for this grant''"
| "mysql_text (MyQuota QuotaBytes) = ''data transfer limit exceeded for this grant''"
| "mysql_text (MyValidation e) = validation_text e"
| "mysql_text (MyUpstream t) = t"
| "mysql_text ErrCommandNotPermitted = ''command not permitted through dbbat''"
| "mysql_text ErrSwitchDatabaseDenied = ''switching database not permitted through dbbat''"

definition mysql_checkQuotas :: "time \<Rightarrow> access_grant \<Rightarrow> mysql_error option" where
  "mysql_checkQuotas now g = map_option MyQuota (check_quotas now g)"

text \<open>What the proxy asks of the upstream connection.\<close>

datatype upstream_call =
    UQuery string
  | UPrepare string
  | UExecute string "string option list"
  | UClose string
  | UFieldList string string

record mysql_proxy =
  my_session :: mysql_session
  my_heap :: heap
  my_registry :: "registry option"
  my_upstream :: "upstream_call list"
  my_closed :: bool
  my_ended :: bool

definition mysql_recordQuery ::
  "string \<Rightarrow> query_parameters option \<Rightarrow> time \<Rightarrow> time \<Rightarrow> result_row list \<Rightarrow> int option \<Rightarrow> string option \<Rightarrow> mysql_proxy \<Rightarrow> mysql_proxy" where
  "mysql_recordQuery sql params start now rows rowsAffected queryError p =
     p\<lparr>my_session := (my_session p)\<lparr>my_core :=
        record_query sql params start now rows rowsAffected queryError (my_heap p) (my_core (my_session p))\<rparr>\<rparr>"

text \<open>A call on the upstream connection, which fails at once when the connection is closed.\<close>

definition call_upstream :: "'j mysql_lib \<Rightarrow> upstream_call \<Rightarrow> string + 'r \<Rightarrow> mysql_proxy \<Rightarrow> (string + 'r) \<times> mysql_proxy" where
  "call_upstream J c outcome p =
     (if my_closed p then (Inl (ml_ErrBadConn J), p) else (outcome, p\<lparr>my_upstream := my_upstream p @ [c]\<rparr>))"

text \<open>The clock: at the quota check, at the start, at the record.\<close>

type_synonym my_clock = "time \<times> time \<times> time"

definition affected :: "my_result option \<Rightarrow> int option" where
  "affected result = (case result of None \<Rightarrow> None
     | Some r \<Rightarrow> if mr_AffectedRows r > 0 then Some (wrap_i64 (mr_AffectedRows r)) else None)"

definition runIntercepted ::
  "'j mysql_lib \<Rightarrow> string \<Rightarrow> query_parameters option \<Rightarrow> upstream_call \<Rightarrow> string + my_result option \<Rightarrow> my_clock \<Rightarrow> mysql_proxy
   \<Rightarrow> (mysql_error + my_result option) \<times> mysql_proxy" where
  "runIntercepted J sql params exec outcome clk p =
     (let (now, start, fin) = clk; a = my_core (my_session p);
          reject = (\<lambda>e. (Inl e, mysql_recordQuery sql params start fin [] None (Some (mysql_text e)) p))
      in if Revoked (my_heap p) (au_revocation a) then reject MyRevoked
      else case mysql_checkQuotas now (au_grant a) of Some e \<Rightarrow> reject e
      | None \<Rightarrow>
          (case ValidateMySQLQuery sql (au_grant a) of Some e \<Rightarrow> reject (MyValidation e)
           | None \<Rightarrow>
               (case call_upstream J exec outcome p of
                  (Inl e, p1) \<Rightarrow> (Inl (MyUpstream e), mysql_recordQuery sql params start fin [] None (Some e) p1)
                | (Inr result, p1) \<Rightarrow>
                    (Inr result, mysql_recordQuery sql params start fin
                       (fst (captureRows J (my_storage (my_session p1)) result)) (affected result) None p1))))"

section \<open>The handler\<close>

definition UseDB :: "string \<Rightarrow> time \<Rightarrow> time \<Rightarrow> mysql_proxy \<Rightarrow> mysql_error option \<times> mysql_proxy" where
  "UseDB dbName now now' p =
     (let s = my_session p in
      if \<not> my_authComplete s then (None, p\<lparr>my_session := s\<lparr>my_requestedDB := dbName\<rparr>\<rparr>)
      else
        let sql = ''USE '' @ dbName in
        if dbName = srv_Name (my_database s) \<or> dbName = srv_DatabaseName (my_database s)
        then (None, mysql_recordQuery sql None now now' [] None None p)
        else (Some ErrSwitchDatabaseDenied,
              mysql_recordQuery sql None now now' [] None (Some (mysql_text ErrSwitchDatabaseDenied)) p))"

definition HandleQuery ::
  "'j mysql_lib \<Rightarrow> string \<Rightarrow> string + my_result option \<Rightarrow> my_clock \<Rightarrow> mysql_proxy \<Rightarrow> (mysql_error + my_result option) \<times> mysql_proxy" where
  "HandleQuery J query outcome = runIntercepted J query None (UQuery query) outcome"

definition HandleFieldList :: "'j mysql_lib \<Rightarrow> string \<Rightarrow> string \<Rightarrow> string + unit \<Rightarrow> mysql_proxy \<Rightarrow> (string + unit) \<times> mysql_proxy" where
  "HandleFieldList J table wildcard outcome p = call_upstream J (UFieldList table wildcard) outcome p"

text \<open>A prepared statement is known by the text it was prepared from.\<close>

definition HandleStmtPrepare ::
  "'j mysql_lib \<Rightarrow> string \<Rightarrow> string + unit \<Rightarrow> time \<Rightarrow> time \<Rightarrow> mysql_proxy \<Rightarrow> (mysql_error + string) \<times> mysql_proxy" where
  "HandleStmtPrepare J query outcome start now p =
     (let sql = ''PREPARE: '' @ query in
      case call_upstream J (UPrepare query) outcome p of
        (Inl e, p1) \<Rightarrow> (Inl (MyUpstream e), mysql_recordQuery sql None start now [] None (Some e) p1)
      | (Inr _, p1) \<Rightarrow> (Inr query, mysql_recordQuery sql None start now [] None None p1))"

text \<open>\<open>None\<close> is a nil argument; another is given by its \<open>%v\<close> text.\<close>

definition stringifyArgs :: "string option list \<Rightarrow> query_parameters option" where
  "stringifyArgs args =
     (if args = [] then None
      else Some \<lparr>qp_Values = map (\<lambda>a. case a of None \<Rightarrow> ''NULL'' | Some t \<Rightarrow> t) args, qp_Raw = [], qp_FormatCodes = [], qp_TypeOIDs = []\<rparr>)"

definition HandleStmtExecute ::
  "'j mysql_lib \<Rightarrow> string option \<Rightarrow> string \<Rightarrow> string option list \<Rightarrow> string + my_result option \<Rightarrow> my_clock \<Rightarrow> mysql_proxy
   \<Rightarrow> (mysql_error + my_result option) \<times> mysql_proxy" where
  "HandleStmtExecute J ps query args outcome clk p =
     (case ps of None \<Rightarrow> (Inl ErrCommandNotPermitted, p)
      | Some prepared \<Rightarrow> runIntercepted J query (stringifyArgs args) (UExecute prepared args) outcome clk p)"

definition HandleStmtClose :: "'j mysql_lib \<Rightarrow> string option \<Rightarrow> string + unit \<Rightarrow> mysql_proxy \<Rightarrow> (string + unit) \<times> mysql_proxy" where
  "HandleStmtClose J ps outcome p =
     (case ps of None \<Rightarrow> (Inr (), p) | Some prepared \<Rightarrow> call_upstream J (UClose prepared) outcome p)"

definition HandleOtherCommand :: "byte \<Rightarrow> mysql_proxy \<Rightarrow> mysql_error \<times> mysql_proxy" where
  "HandleOtherCommand cmd p = (ErrCommandNotPermitted, p)"

section \<open>Executions\<close>

definition mysql_deregisterRevocation :: "mysql_proxy \<Rightarrow> mysql_proxy" where
  "mysql_deregisterRevocation p =
     (let a = my_core (my_session p) in
      case au_revocation a of None \<Rightarrow> p
      | Some h \<Rightarrow> p\<lparr>my_registry := Deregister (my_registry p) (ag_UID (au_grant a)) (Some h)\<rparr>)"

definition mysql_recordDisconnect :: "mysql_proxy \<Rightarrow> mysql_proxy" where
  "mysql_recordDisconnect p =
     p\<lparr>my_session := (my_session p)\<lparr>my_core := flush_trailing (my_heap p) (my_core (my_session p))\<rparr>\<rparr>"

definition mysql_conn :: "mysql_proxy \<Rightarrow> counting_conn" where
  "mysql_conn p = NewCountingConn (Some (au_from (my_core (my_session p)))) (Some (au_to (my_core (my_session p))))"

text \<open>\<open>MyTraffic\<close>: the engine reads \<open>n\<close> and writes \<open>k\<close> bytes on the client connection. \<open>MyEnd\<close>: the command loop
  has returned and the deferred calls of \<open>Run\<close> follow.\<close>

datatype mysql_event =
    MyTraffic int int
  | MyUseDB string time time
  | MyQuery string "string + my_result option" my_clock
  | MyFieldList string string "string + unit"
  | MyPrepare string "string + unit" time time
  | MyExecute "string option" string "string option list" "string + my_result option" my_clock
  | MyStmtClose "string option" "string + unit"
  | MyOther byte
  | MyWatchdog time
  | MyRegistry bus_op
  | MyEnd

definition mysql_step :: "'j mysql_lib \<Rightarrow> mysql_event \<Rightarrow> mysql_proxy \<Rightarrow> mysql_proxy" where
  "mysql_step J ev p =
     (case ev of
        MyRegistry b \<Rightarrow> (let (r, hp) = bus_step b (my_registry p, my_heap p) in p\<lparr>my_registry := r, my_heap := hp\<rparr>)
      | MyWatchdog now \<Rightarrow>
          (case Check (my_heap p) now (au_guard (my_core (my_session p))) of None \<Rightarrow> p | Some _ \<Rightarrow> p\<lparr>my_closed := True\<rparr>)
      | _ \<Rightarrow>
          if my_ended p then p
          else case ev of
            MyTraffic n k \<Rightarrow> p\<lparr>my_heap := snd (cc_Write (mysql_conn p) (k, None :: unit option)
                               (snd (cc_Read (mysql_conn p) (n, None :: unit option) (my_heap p))))\<rparr>
          | MyUseDB d now now' \<Rightarrow> snd (UseDB d now now' p)
          | MyQuery q outcome clk \<Rightarrow> snd (HandleQuery J q outcome clk p)
          | MyFieldList t w outcome \<Rightarrow> snd (HandleFieldList J t w outcome p)
          | MyPrepare q outcome start now \<Rightarrow> snd (HandleStmtPrepare J q outcome start now p)
          | MyExecute ps q args outcome clk \<Rightarrow> snd (HandleStmtExecute J ps q args outcome clk p)
          | MyStmtClose ps outcome \<Rightarrow> snd (HandleStmtClose J ps outcome p)
          | MyOther c \<Rightarrow> snd (HandleOtherCommand c p)
          | MyEnd \<Rightarrow> (mysql_deregisterRevocation (mysql_recordDisconnect p))\<lparr>my_ended := True\<rparr>)"

definition mysql_run :: "'j mysql_lib \<Rightarrow> mysql_event list \<Rightarrow> mysql_proxy \<Rightarrow> mysql_proxy" where
  "mysql_run J evs p = fold (mysql_step J) evs p"

text \<open>The end of \<open>OnAuthSuccess\<close>: registration and guard; then the connection record, if it was inserted.\<close>

definition mysql_start ::
  "server \<Rightarrow> query_storage \<Rightarrow> access_grant \<Rightarrow> uuid option \<Rightarrow> addr \<Rightarrow> addr \<Rightarrow> heap \<Rightarrow> registry option \<Rightarrow> mysql_proxy" where
  "mysql_start db cfg g conn from to hp r =
     (let (h, r1, hp1) = Register r (ag_UID g) hp;
          guard = WithRevocation (Some (NewLimitGuard (Some g) (Some from) (Some to))) (Flag (Some h))
      in \<lparr>my_session = \<lparr>my_core = \<lparr>au_grant = g, au_connection = conn, au_revocation = Some h, au_guard = guard,
             au_from = from, au_to = to, au_snapshot = 0, au_log = [], au_trailing = []\<rparr>,
            my_database = db, my_storage = cfg, my_requestedDB = [], my_authComplete = True\<rparr>,
          my_heap = hp1, my_registry = r1, my_upstream = [], my_closed = False, my_ended = False\<rparr>)"

section \<open>What an event changes\<close>

definition my_bus :: "mysql_proxy \<Rightarrow> bus" where
  "my_bus p = (my_registry p, my_heap p)"

lemma record_frame [simp]:
  "my_heap (mysql_recordQuery sql ps st now rows ra err p) = my_heap p"
  "my_registry (mysql_recordQuery sql ps st now rows ra err p) = my_registry p"
  "my_upstream (mysql_recordQuery sql ps st now rows ra err p) = my_upstream p"
  "my_closed (mysql_recordQuery sql ps st now rows ra err p) = my_closed p"
  "my_ended (mysql_recordQuery sql ps st now rows ra err p) = my_ended p"
  "audit_step (my_core (my_session p)) (my_core (my_session (mysql_recordQuery sql ps st now rows ra err p)))"
  by (simp_all add: mysql_recordQuery_def audit_record)

text \<open>The relation between the states around a command of the client.\<close>

definition command_frame :: "mysql_proxy \<Rightarrow> mysql_proxy \<Rightarrow> bool" where
  "command_frame p q \<longleftrightarrow> my_heap q = my_heap p \<and> my_registry q = my_registry p \<and> my_closed q = my_closed p \<and> my_ended q = my_ended p
     \<and> audit_step\<^sup>*\<^sup>* (my_core (my_session p)) (my_core (my_session q))"

lemma command_frame_refl [simp]: "command_frame p p"
  by (simp add: command_frame_def)

lemma command_frame_record [simp]: "command_frame p (mysql_recordQuery sql ps st now rows ra err p)"
  by (simp add: command_frame_def r_into_rtranclp)

lemma command_frame_called [simp]:
  "command_frame p (p\<lparr>my_upstream := us\<rparr>)"
  "command_frame p (mysql_recordQuery sql ps st now rows ra err (p\<lparr>my_upstream := us\<rparr>))"
  "command_frame p (p\<lparr>my_session := (my_session p)\<lparr>my_requestedDB := d\<rparr>\<rparr>)"
  by (simp_all add: command_frame_def r_into_rtranclp mysql_recordQuery_def audit_record)

lemma command_frame_call: "command_frame p (snd (call_upstream J c outcome p))"
  by (simp add: call_upstream_def)

lemma runIntercepted_frame: "command_frame p (snd (runIntercepted J sql ps c outcome clk p))"
  by (cases clk) (auto simp: runIntercepted_def call_upstream_def Let_def split: option.split sum.split)

lemma handlers_frame:
  "command_frame p (snd (UseDB d now now' p))" "command_frame p (snd (HandleQuery J q o1 clk p))"
  "command_frame p (snd (HandleFieldList J t w o2 p))" "command_frame p (snd (HandleStmtPrepare J q o2 now now' p))"
  "command_frame p (snd (HandleStmtExecute J pst q args o1 clk p))" "command_frame p (snd (HandleStmtClose J pst o2 p))"
  "command_frame p (snd (HandleOtherCommand cmd p))"
  by (auto simp: UseDB_def HandleQuery_def HandleFieldList_def HandleStmtPrepare_def HandleStmtExecute_def HandleStmtClose_def
      HandleOtherCommand_def runIntercepted_frame call_upstream_def Let_def split: option.split sum.split)

lemma mysql_step_cases:
  obtains "command_frame p (mysql_step J ev p)"
  | n k where "ev = MyTraffic n k" and "my_session (mysql_step J ev p) = my_session p" and "same_flags (my_bus p) (my_bus (mysql_step J ev p))"
    and "my_upstream (mysql_step J ev p) = my_upstream p" and "my_closed (mysql_step J ev p) = my_closed p"
    and "my_ended (mysql_step J ev p) = my_ended p"
  | op where "ev = MyRegistry op" and "mysql_step J ev p = p\<lparr>my_registry := fst (bus_step op (my_bus p)), my_heap := snd (bus_step op (my_bus p))\<rparr>"
  | "mysql_step J ev p = p\<lparr>my_closed := True\<rparr>"
  | "mysql_step J ev p = (mysql_deregisterRevocation (mysql_recordDisconnect p))\<lparr>my_ended := True\<rparr>"
proof (cases ev)
  case (MyRegistry op)
  then show ?thesis using that(3) by (simp add: mysql_step_def my_bus_def split_beta Let_def)
next
  case (MyWatchdog now)
  then show ?thesis using that(1,4)
    by (cases "Check (my_heap p) now (au_guard (my_core (my_session p)))") (simp_all add: mysql_step_def)
next
  case (MyTraffic n k)
  then show ?thesis using that(1,2)
    by (cases "my_ended p") (simp_all add: mysql_step_def my_bus_def same_flags_def cc_Read_def cc_Write_def cc_count_def AddInt_def split: option.split)
next
  case MyEnd
  then show ?thesis using that(1,5) by (cases "my_ended p") (simp_all add: mysql_step_def)
next
  case (MyUseDB d now now')
  show ?thesis by (rule that(1)) (simp add: MyUseDB mysql_step_def handlers_frame)
next
  case (MyQuery q outcome clk)
  show ?thesis by (rule that(1)) (simp add: MyQuery mysql_step_def handlers_frame)
next
  case (MyFieldList tbl w outcome)
  show ?thesis by (rule that(1)) (simp add: MyFieldList mysql_step_def handlers_frame)
next
  case (MyPrepare q outcome start now)
  show ?thesis by (rule that(1)) (simp add: MyPrepare mysql_step_def handlers_frame)
next
  case (MyExecute pst q args outcome clk)
  show ?thesis by (rule that(1)) (simp add: MyExecute mysql_step_def handlers_frame)
next
  case (MyStmtClose pst outcome)
  show ?thesis by (rule that(1)) (simp add: MyStmtClose mysql_step_def handlers_frame)
next
  case (MyOther c)
  show ?thesis by (rule that(1)) (simp add: MyOther mysql_step_def handlers_frame)
qed

lemma mysql_end_frame [simp]:
  "my_core (my_session (mysql_deregisterRevocation (mysql_recordDisconnect p))) = flush_trailing (my_heap p) (my_core (my_session p))"
  "my_upstream (mysql_deregisterRevocation (mysql_recordDisconnect p)) = my_upstream p"
  "my_closed (mysql_deregisterRevocation (mysql_recordDisconnect p)) = my_closed p"
  by (simp_all add: mysql_deregisterRevocation_def mysql_recordDisconnect_def Let_def split: option.split)

interpretation mysql_audit: audited_session "\<lambda>p. my_core (my_session p)" "mysql_step J" for J
proof
  fix p e
  show "audit_step\<^sup>*\<^sup>* (my_core (my_session p)) (my_core (my_session (mysql_step J e p)))"
    by (cases rule: mysql_step_cases [of p J e]) (simp_all add: command_frame_def audit_flush r_into_rtranclp)
qed

section \<open>What reaches the upstream server\<close>

fun runs :: "upstream_call \<Rightarrow> bool" where
  "runs (UQuery _) = True"
| "runs (UExecute _ _) = True"
| "runs _ = False"

definition ran :: "mysql_proxy \<Rightarrow> upstream_call list" where
  "ran p = filter runs (my_upstream p)"

text \<open>A statement passed the three checks.\<close>

definition passes :: "string \<Rightarrow> mysql_proxy \<Rightarrow> bool" where
  "passes sql p \<longleftrightarrow> \<not> Revoked (my_heap p) (au_revocation (my_core (my_session p)))
     \<and> ValidateMySQLQuery sql (au_grant (my_core (my_session p))) = None
     \<and> (\<exists>now. check_quotas now (au_grant (my_core (my_session p))) = None)"

lemma runIntercepted_upstream:
  "my_upstream (snd (runIntercepted J sql ps c outcome clk p)) = my_upstream p
   \<or> \<not> my_closed p \<and> passes sql p \<and> my_upstream (snd (runIntercepted J sql ps c outcome clk p)) = my_upstream p @ [c]"
  by (cases clk) (auto simp: runIntercepted_def passes_def mysql_checkQuotas_def call_upstream_def Let_def split: option.split sum.split)

text \<open>The engine hands the text of a prepared statement together with the statement.\<close>

definition paired :: "mysql_event \<Rightarrow> bool" where
  "paired ev = (case ev of MyExecute (Some prepared) query _ _ _ \<Rightarrow> query = prepared | _ \<Rightarrow> True)"

fun call_text :: "upstream_call \<Rightarrow> string" where
  "call_text (UQuery q) = q"
| "call_text (UExecute q _) = q"
| "call_text (UPrepare q) = q"
| "call_text (UClose q) = q"
| "call_text (UFieldList t _) = t"

lemma mysql_step_ran:
  "ran (mysql_step J ev p) = ran p
   \<or> \<not> my_closed p \<and> \<not> my_ended p \<and> (\<exists>c sql. ran (mysql_step J ev p) = ran p @ [c] \<and> passes sql p \<and> (paired ev \<longrightarrow> call_text c = sql))"
proof (cases ev)
  case (MyQuery q outcome clk)
  show ?thesis
    using runIntercepted_upstream [of J q None "UQuery q" outcome clk p]
    by (auto simp: MyQuery mysql_step_def HandleQuery_def ran_def)
next
  case (MyExecute pst q args outcome clk)
  show ?thesis
  proof (cases pst)
    case (Some prepared)
    show ?thesis
      using runIntercepted_upstream [of J q "stringifyArgs args" "UExecute prepared args" outcome clk p]
      by (auto simp: MyExecute Some mysql_step_def HandleStmtExecute_def ran_def paired_def)
  qed (simp add: MyExecute mysql_step_def HandleStmtExecute_def ran_def)
qed (auto simp: mysql_step_def UseDB_def HandleFieldList_def HandleStmtPrepare_def HandleStmtClose_def HandleOtherCommand_def
    call_upstream_def ran_def Let_def split_beta split: option.split sum.split)

definition mysql_over :: "mysql_proxy \<Rightarrow> bool" where
  "mysql_over p \<longleftrightarrow> my_closed p \<or> my_ended p"

lemma mysql_silent:
  assumes "mysql_over p \<or> Revoked (my_heap p) (au_revocation (my_core (my_session p)))"
  shows "ran (mysql_step J ev p) = ran p"
  using mysql_step_ran [of J ev p] assms by (auto simp: mysql_over_def passes_def)

interpretation mysql_relay: revocable_session "mysql_step J" my_bus "\<lambda>p. au_revocation (my_core (my_session p))"
  mysql_over ran MyRegistry for J
proof unfold_locales
  fix e p h op
  show "au_revocation (my_core (my_session (mysql_step J e p))) = au_revocation (my_core (my_session p))"
    using mysql_audit.act_audited by (rule audit_steps_frame(3))
  show "mysql_over p \<Longrightarrow> mysql_over (mysql_step J e p)"
    by (cases rule: mysql_step_cases [of p J e]) (auto simp: mysql_over_def command_frame_def)
  show "\<not> mysql_over (mysql_step J e p) \<Longrightarrow> (\<exists>op. e = MyRegistry op \<and> my_bus (mysql_step J e p) = bus_step op (my_bus p)) \<or>
      same_flags (my_bus p) (my_bus (mysql_step J e p))"
    by (cases rule: mysql_step_cases [of p J e]) (auto simp: mysql_over_def command_frame_def my_bus_def same_flags_def)
  show "\<not> mysql_over p \<Longrightarrow> my_bus (mysql_step J (MyRegistry op) p) = bus_step op (my_bus p)"
    by (simp add: mysql_step_def my_bus_def split_beta)
  show "ran (mysql_step J (MyRegistry op) p) = ran p"
    by (simp add: mysql_step_def ran_def split_beta)
  show "mysql_over p \<Longrightarrow> ran (mysql_step J e p) = ran p" by (simp add: mysql_silent)
  show "au_revocation (my_core (my_session p)) = Some h \<Longrightarrow> bools (snd (my_bus p)) h \<Longrightarrow> ran (mysql_step J e p) = ran p"
    by (rule mysql_silent) (simp add: Revoked_def my_bus_def)
qed

lemma mysql_attached:
  assumes "bus_inv (r, hp)" and "ag_UID g \<noteq> uuid_Nil"
  shows "mysql_relay.attached (ag_UID g) (next_addr hp) (mysql_start db cfg g conn from to hp r)"
proof -
  obtain h r' hp' where reg: "Register r (ag_UID g) hp = (h, r', hp')" by (cases "Register r (ag_UID g) hp")
  show ?thesis
    using bus_register_new [OF assms reg] by (simp add: mysql_relay.attached_def mysql_start_def reg my_bus_def)
qed

lemma mysql_start_core [simp]:
  "au_grant (my_core (my_session (mysql_start db cfg g conn from to hp r))) = g"
  "my_upstream (mysql_start db cfg g conn from to hp r) = []"
  by (simp_all add: mysql_start_def Let_def split: prod.split)

lemma validate_query_terms:
  assumes "terms g = terms h"
  shows "ValidateMySQLQuery q g = ValidateMySQLQuery q h"
  using terms_eq_controls [OF assms] by (simp add: ValidateMySQLQuery_def ValidateQuery_def)

definition my_bound :: "access_grant \<Rightarrow> mysql_proxy \<Rightarrow> bool" where
  "my_bound g p \<longleftrightarrow> terms (au_grant (my_core (my_session p))) = terms g
     \<and> list_all (\<lambda>c. ValidateMySQLQuery (call_text c) g = None) (ran p)"

lemma my_bound_step:
  assumes "my_bound g p" and "paired ev"
  shows "my_bound g (mysql_step J ev p)"
proof -
  have "terms (au_grant (my_core (my_session (mysql_step J ev p)))) = terms (au_grant (my_core (my_session p)))"
    by (rule audit_steps_frame(1) [OF mysql_audit.act_audited])
  moreover have "ValidateMySQLQuery sql g = None" if "passes sql p" for sql
    using that assms(1) validate_query_terms [of g "au_grant (my_core (my_session p))" sql] by (simp add: my_bound_def passes_def)
  ultimately show ?thesis using mysql_step_ran [of J ev p] assms by (auto simp: my_bound_def)
qed

lemma my_bound_run: "my_bound g p \<Longrightarrow> list_all paired evs \<Longrightarrow> my_bound g (mysql_run J evs p)"
  unfolding mysql_run_def by (induction evs arbitrary: p) (simp_all add: my_bound_step)

section \<open>Properties\<close>

text \<open>C19. Every statement that runs on the upstream server, as a text query or as the execution of a prepared
  statement, is one that the validator accepts under the grant of the session. The protocol engine is
  relied on to pass, with a prepared statement, the text it was prepared from.\<close>

theorem mysql_statements_allowed:
  assumes "list_all paired evs" and "p = mysql_run J evs (mysql_start db cfg g conn from to hp r)"
    and "c \<in> set (my_upstream p)" and "runs c"
  shows "ValidateMySQLQuery (call_text c) g = None"
proof -
  have "my_bound g p"
    unfolding assms(2) by (rule my_bound_run [OF _ assms(1)]) (simp add: my_bound_def ran_def)
  then show ?thesis using assms(3,4) by (auto simp: my_bound_def ran_def list_all_iff)
qed

text \<open>From the moment the grant of a MySQL session is revoked in the registry, no further statement runs
  on the upstream server.\<close>

theorem mysql_revocation_final:
  assumes "bus_inv (r, hp)" and "ag_UID g \<noteq> uuid_Nil"
    and "MyRegistry (OpDeregister (ag_UID g) (next_addr hp)) \<notin> set before"
    and "p = mysql_start db cfg g conn from to hp r"
  shows "ran (mysql_run J (before @ MyRegistry (OpRevoke (ag_UID g)) # after) p) = ran (mysql_run J before p)"
  unfolding mysql_run_def assms(4) by (rule mysql_relay.revocation_final) (use mysql_attached assms in auto)

text \<open>Each byte on the client connection of a MySQL session is charged once, to the entry that follows it
  or to the flush at the disconnect; responses are written after their entry and fall to the next one.\<close>

theorem mysql_bytes_charged_once:
  assumes "in_i64 (ag_QueryCount g)" and "in_i64 (ag_BytesTransferred g)"
    and "p0 = mysql_start db cfg g conn from to hp r"
  shows "accounted_for (my_core (my_session p0)) (my_core (my_session (mysql_run J evs p0)))"
  unfolding mysql_run_def
  by (rule mysql_audit.session_accounted)
     (use assms in \<open>simp add: fresh_audit_def mysql_start_def in_i64_def split_beta Let_def\<close>)

text \<open>Preparing a statement is not checked: it reaches the upstream server under a revoked or an exhausted
  grant and with a text that the controls forbid.\<close>

theorem mysql_prepare_unchecked:
  assumes "\<not> my_closed p" and "\<not> my_ended p"
  shows "my_upstream (mysql_step J (MyPrepare q outcome start now) p) = my_upstream p @ [UPrepare q]"
  using assms by (simp add: mysql_step_def HandleStmtPrepare_def call_upstream_def Let_def split: sum.split)

lemma capture_rows_bounds:
  "0 < cfg_MaxResultRows q \<Longrightarrow> i \<le> cfg_MaxResultRows q \<Longrightarrow>
     i + int (length (fst (capture_rows J q flds i t rows))) \<le> cfg_MaxResultRows q"
proof (induction rows arbitrary: i t)
  case (Cons row rows)
  show ?case
  proof (cases "i = cfg_MaxResultRows q")
    case False
    then have ih: "i + 1 + int (length (fst (capture_rows J q flds (i + 1) u rows))) \<le> cfg_MaxResultRows q" for u
      using Cons by simp
    have "i + int (length (fst (capture_rows J q flds (i + 1) u rows))) \<le> cfg_MaxResultRows q" for u using ih [of u] by linarith
    with False ih Cons.prems show ?thesis by (simp add: Let_def add.assoc split_beta split: option.split)
  qed (use Cons.prems in simp)
qed simp

lemma capture_rows_total:
  "fst (snd (capture_rows J q flds i t rows)) = t + sum_list (map rr_RowSizeBytes (fst (capture_rows J q flds i t rows)))"
  by (induction rows arbitrary: i t) (simp_all add: Let_def split_beta split: option.split)

lemma capture_rows_bytes:
  "0 < cfg_MaxResultBytes q \<Longrightarrow> t \<le> cfg_MaxResultBytes q \<Longrightarrow> fst (snd (capture_rows J q flds i t rows)) \<le> cfg_MaxResultBytes q"
  by (induction rows arbitrary: i t) (simp_all add: Let_def split_beta split: option.split)

text \<open>The rows captured from a MySQL result stay within the configured number of rows and of bytes, and the
  reported size is their sum.\<close>

theorem mysql_capture_bounded:
  assumes "captureRows J q result = (rs, tot, cutoff)"
  shows "(0 < cfg_MaxResultRows q \<longrightarrow> int (length rs) \<le> cfg_MaxResultRows q)
    \<and> (0 < cfg_MaxResultBytes q \<longrightarrow> tot \<le> cfg_MaxResultBytes q) \<and> tot = sum_list (map rr_RowSizeBytes rs)"
proof (cases "rs = [] \<and> tot = 0")
  case False
  then obtain flds vals where c: "capture_rows J q flds 0 0 vals = (rs, tot, cutoff)"
    using assms by (auto simp: captureRows_def split: option.splits if_splits)
  show ?thesis
    using capture_rows_bounds [of q 0 J flds 0 vals] capture_rows_total [of J q flds 0 0 vals]
      capture_rows_bytes [of q 0 J flds 0 vals] by (simp add: c)
qed simp

definition sample_mylib :: "string mysql_lib" where
  "sample_mylib = \<lparr>ml_Unmarshal = (\<lambda>_. None), ml_Marshal = (\<lambda>vs. Some (replicate (length vs) (CHR ''0''))),
     ml_is_blob = (\<lambda>t. t = 252), ml_is_json = (\<lambda>t. t = 245), ml_ErrBadConn = ''bad connection''\<rparr>"

definition sample_result :: my_result where
  "sample_result = \<lparr>mr_AffectedRows = 0, mr_FieldTypes = [Some 3, Some 252],
     mr_Values = Some [[FNum ''1'', FBytes [char_of (255 :: nat)]], [FNum ''2'', FNull]]\<rparr>"

definition sample_mysql :: mysql_proxy where
  "sample_mysql = mysql_start sample_server \<lparr>cfg_StoreResults = True, cfg_MaxResultRows = 1, cfg_MaxResultBytes = 0\<rparr>
     sample_grant (Some 9) 0 1 (empty_heap\<lparr>next_addr := 2\<rparr>) (Some NewRevocationRegistry)"

definition sample_select :: mysql_event where
  "sample_select = MyQuery ''SELECT 1'' (Inr (Some sample_result)) (5, 5, 5)"

definition selected :: mysql_proxy where
  "selected = mysql_run sample_mylib [MyTraffic 13 0, sample_select, MyTraffic 13 57] sample_mysql"

lemma selected_upstream: "my_upstream selected = [UQuery ''SELECT 1'']"
  by code_simp

theorem mysql_statements_allowed_witness:
  "my_upstream selected = [UQuery ''SELECT 1''] \<and> ValidateMySQLQuery ''SELECT 1'' sample_grant = None"
proof -
  have "list_all paired [MyTraffic 13 0, sample_select, MyTraffic 13 57]" by (simp add: paired_def sample_select_def)
  from mysql_statements_allowed [OF this selected_def [unfolded sample_mysql_def], of "UQuery ''SELECT 1''"]
  show ?thesis by (simp add: selected_upstream)
qed

theorem mysql_revocation_final_witness:
  "ran (mysql_run sample_mylib ([sample_select] @ MyRegistry (OpRevoke (ag_UID sample_grant)) # [sample_select]) sample_mysql) = [UQuery ''SELECT 1'']"
proof -
  have "ran (mysql_run sample_mylib [sample_select] sample_mysql) = [UQuery ''SELECT 1'']" by code_simp
  moreover have "ag_UID sample_grant \<noteq> uuid_Nil" by code_simp
  moreover have "MyRegistry x \<notin> set [sample_select]" for x by (simp add: sample_select_def)
  ultimately show ?thesis
    using mysql_revocation_final [OF bus_inv_init _ _ sample_mysql_def, of "[sample_select]" sample_mylib "[sample_select]"] by simp
qed

theorem mysql_bytes_charged_once_witness:
  "accounted_for (my_core (my_session sample_mysql)) (my_core (my_session selected))
   \<and> map ae_Bytes (au_log (my_core (my_session selected))) = [13]"
proof -
  have "map ae_Bytes (au_log (my_core (my_session selected))) = [13]" by code_simp
  then show ?thesis
    using mysql_bytes_charged_once [OF _ _ sample_mysql_def, of sample_mylib "[MyTraffic 13 0, sample_select, MyTraffic 13 57]"]
    by (simp add: selected_def sample_grant_def in_i64_def)
qed

theorem mysql_prepare_unchecked_witness:
  "ValidateMySQLQuery ''DELETE FROM t'' sample_grant = Some ErrReadOnlyViolation
   \<and> my_upstream (mysql_step sample_mylib (MyPrepare ''DELETE FROM t'' (Inr ()) 5 5) sample_mysql) = [UPrepare ''DELETE FROM t'']"
proof -
  have "ValidateMySQLQuery ''DELETE FROM t'' sample_grant = Some ErrReadOnlyViolation" by code_simp
  moreover have "\<not> my_closed sample_mysql" "\<not> my_ended sample_mysql" by code_simp+
  moreover have "my_upstream sample_mysql = []" by (simp add: sample_mysql_def)
  ultimately show ?thesis
    using mysql_prepare_unchecked [of sample_mysql sample_mylib "''DELETE FROM t''" "Inr ()" 5 5] by simp
qed

theorem mysql_capture_bounded_witness:
  "fst (captureRows sample_mylib (my_storage (my_session sample_mysql)) (Some sample_result)) =
     [\<lparr>rr_RowNumber = 1, rr_RowData = ''00'', rr_RowSizeBytes = 2\<rparr>]
   \<and> int (length (fst (captureRows sample_mylib (my_storage (my_session sample_mysql)) (Some sample_result)))) \<le> 1"
proof -
  have c: "captureRows sample_mylib (my_storage (my_session sample_mysql)) (Some sample_result) =
      ([\<lparr>rr_RowNumber = 1, rr_RowData = ''00'', rr_RowSizeBytes = 2\<rparr>], 2, True)" by code_simp
  have "cfg_MaxResultRows (my_storage (my_session sample_mysql)) = 1" by code_simp
  then show ?thesis using mysql_capture_bounded [OF c] by (simp add: c)
qed

end
