(* ===== verification/Proxy_Auth.thy ===== *)
theory Proxy_Auth
  imports Servers Api_Keys Pg_Session Mysql_Session
begin

text \<open>
  How a client of the PostgreSQL and of the MySQL listener becomes a session:
  \<open>internal/proxy/postgresql/auth.go\<close>, \<open>internal/proxy/mysql/auth.go\<close> and \<open>cachingsha2.go\<close>. A password that
  looks like a key is checked as an API key, any other against the Argon2id hash, through the
  cache when there is one. The order of the calls of the MySQL protocol engine, a third-party
  package, is the composition \<open>mysql_login\<close>.
\<close>

section \<open>Credentials\<close>

text \<open>The random order of map iteration that an eviction sees is \<open>vx_order\<close>.\<close>

record auth_env =
  vx_prims :: prims
  vx_hash :: "string \<Rightarrow> string"
  vx_uuid_String :: "uuid \<Rightarrow> string"
  vx_order :: "string list"

text \<open>\<open>vs_usage\<close> has the keys whose use is counted by a goroutine.\<close>

record auth_store =
  vs_db :: db
  vs_cache :: "auth_cache option"
  vs_usage :: "uuid list"

definition on_store :: "(db \<Rightarrow> 'a \<times> db) \<Rightarrow> auth_store \<Rightarrow> 'a \<times> auth_store" where
  "on_store f s = (let (r, st) = f (vs_db s) in (r, s\<lparr>vs_db := st\<rparr>))"

definition isAPIKey :: "string \<Rightarrow> bool" where
  "isAPIKey password \<longleftrightarrow> length password \<ge> APIKeyPrefixLength \<and> HasPrefix password APIKeyPrefix"

definition check_password :: "auth_env \<Rightarrow> time \<Rightarrow> user \<Rightarrow> string \<Rightarrow> auth_store \<Rightarrow> (crypto_error + bool) \<times> auth_store" where
  "check_password E now u password s =
     (case vs_cache s of
        Some c \<Rightarrow>
          (let (r, c1) = Auth_Cache.VerifyPassword (vx_hash E) (Crypto.VerifyPassword (vx_prims E)) (vx_order E) now
                           (vx_uuid_String E (usr_UID u)) password (usr_PasswordHash u) c
           in (r, s\<lparr>vs_cache := Some c1\<rparr>))
      | None \<Rightarrow> (Crypto.VerifyPassword (vx_prims E) (usr_PasswordHash u) password, s))"

definition verify_key :: "auth_env \<Rightarrow> time \<Rightarrow> string \<Rightarrow> auth_store \<Rightarrow> (store_error + api_key) \<times> auth_store" where
  "verify_key E now key s =
     (let (r, c, st) = VerifyAPIKey (vx_prims E) (vx_hash E) (vx_uuid_String E) (vx_order E) now key (vs_cache s) (vs_db s)
      in (r, s\<lparr>vs_cache := c, vs_db := st\<rparr>))"

section \<open>PostgreSQL\<close>

datatype startup_message = StartupMessage "string \<Rightarrow> string" | OtherStartup

datatype pg_auth_error =
    PaStartup startup_error
  | ErrExpectedStartupMessage
  | ErrMissingCredentials
  | PaUserNotFound store_error
  | PaDatabaseNotFound store_error
  | PaNoActiveGrant store_error
  | PaQuota pg_error
  | PaRequestFailed
  | PaPassword startup_error
  | ErrInvalidPassword
  | ErrAPIKeyVerifyFailed store_error
  | ErrAPIKeyOwnerMismatch

text \<open>\<open>pc_errors\<close> are the error messages sent to the client.\<close>

record pg_client =
  pc_io :: startup_io
  pc_store :: auth_store
  pc_errors :: "string list"
  pc_requested :: bool

record login =
  lg_user :: user
  lg_database :: server
  lg_grant :: access_grant

definition sendError :: "string \<Rightarrow> pg_client \<Rightarrow> pg_client" where
  "sendError text p = p\<lparr>pc_errors := pc_errors p @ [text]\<rparr>"

definition authenticateWithAPIKey :: "auth_env \<Rightarrow> time \<Rightarrow> string \<Rightarrow> user \<Rightarrow> auth_store \<Rightarrow> (pg_auth_error + unit) \<times> auth_store" where
  "authenticateWithAPIKey E now apiKey u s =
     (case verify_key E now apiKey s of
        (Inl e, s1) \<Rightarrow> (Inl (ErrAPIKeyVerifyFailed e), s1)
      | (Inr verified, s1) \<Rightarrow>
          if ak_UserID verified \<noteq> usr_UID u then (Inl ErrAPIKeyOwnerMismatch, s1)
          else (Inr (), s1\<lparr>vs_usage := vs_usage s1 @ [ak_ID verified]\<rparr>))"

text \<open>The texts of the errors of \<open>checkQuotas\<close>.\<close>

fun pg_quota_text :: "pg_error \<Rightarrow> string" where
  "pg_quota_text (PgLimit e) = limit_text e"
| "pg_quota_text ErrQueryLimitExceeded = ''query limit exceeded''"
| "pg_quota_text ErrDataLimitExceeded = ''data transfer limit exceeded''"
| "pg_quota_text _ = []"

text \<open>The request for a cleartext password.\<close>

definition request_password :: "pg_client \<Rightarrow> bool \<times> pg_client" where
  "request_password p =
     (case io_wok (pc_io p) of
        True # ws \<Rightarrow> (True, p\<lparr>pc_requested := True, pc_io := (pc_io p)\<lparr>io_wok := ws\<rparr>\<rparr>)
      | ws \<Rightarrow> (False, p\<lparr>pc_io := (pc_io p)\<lparr>io_wok := tl ws\<rparr>\<rparr>))"

text \<open>The password the client sends, against the user that was found.\<close>

definition pg_check_credentials :: "auth_env \<Rightarrow> time \<Rightarrow> string \<Rightarrow> user \<Rightarrow> pg_client \<Rightarrow> (pg_auth_error + unit) \<times> pg_client" where
  "pg_check_credentials E now password u p =
     (if isAPIKey password then
        (case authenticateWithAPIKey E now password u (pc_store p) of
           (Inl e, s) \<Rightarrow> (Inl ErrInvalidPassword, sendError ''authentication failed'' (p\<lparr>pc_store := s\<rparr>))
         | (Inr _, s) \<Rightarrow> (Inr (), p\<lparr>pc_store := s\<rparr>))
      else
        (case check_password E now u password (pc_store p) of
           (r, s) \<Rightarrow>
             if r = Inr True then (Inr (), p\<lparr>pc_store := s\<rparr>)
             else (Inl ErrInvalidPassword, sendError ''authentication failed'' (p\<lparr>pc_store := s\<rparr>))))"

definition pc_db :: "(db \<Rightarrow> 'a \<times> db) \<Rightarrow> pg_client \<Rightarrow> 'a \<times> pg_client" where
  "pc_db f p = (let (r, s) = on_store f (pc_store p) in (r, p\<lparr>pc_store := s\<rparr>))"

text \<open>The readings of the clock: for the grant, for its quotas, for the credentials. The session has no
  revocation handle yet.\<close>

definition authenticate ::
  "auth_env \<Rightarrow> query_storage \<Rightarrow> (bytes \<Rightarrow> startup_message option) \<Rightarrow> time \<times> time \<times> time \<Rightarrow> heap \<Rightarrow> pg_client \<Rightarrow> (pg_auth_error + login) \<times> pg_client" where
  "authenticate E cfg decode clk hp p0 =
     (let (nowG, nowQ, nowC) = clk in
      case receiveStartupMessage decode (pc_io p0) of
        (Inl e, io) \<Rightarrow> (Inl (PaStartup e), p0\<lparr>pc_io := io\<rparr>)
      | (Inr OtherStartup, io) \<Rightarrow> (Inl ErrExpectedStartupMessage, sendError ''invalid startup message'' (p0\<lparr>pc_io := io\<rparr>))
      | (Inr (StartupMessage params), io) \<Rightarrow>
          let p = p0\<lparr>pc_io := io\<rparr>; username = params ''user''; databaseName = params ''database'' in
          if username = [] \<or> databaseName = [] then (Inl ErrMissingCredentials, sendError ''username and database required'' p)
          else case pc_db (GetUserByUsername username) p of
            (Inl e, p1) \<Rightarrow> (Inl (PaUserNotFound e), sendError ''authentication failed'' p1)
          | (Inr u, p1) \<Rightarrow>
          (case pc_db (GetServerByName databaseName) p1 of
            (Inl e, p2) \<Rightarrow> (Inl (PaDatabaseNotFound e), sendError ''database not found'' p2)
          | (Inr database, p2) \<Rightarrow>
          (case pc_db (GetActiveGrant (usr_UID u) (srv_UID database) nowG) p2 of
            (Inl e, p3) \<Rightarrow> (Inl (PaNoActiveGrant e), sendError ''access denied: no valid grant'' p3)
          | (Inr grant, p3) \<Rightarrow>
          (case checkQuotas hp nowQ (fst (NewSession cfg grant uuid_Nil hp)) of
            Some e \<Rightarrow> (Inl (PaQuota e), sendError (pg_quota_text e) p3)
          | None \<Rightarrow>
          (case request_password p3 of
            (False, p4) \<Rightarrow> (Inl PaRequestFailed, p4)
          | (True, p4) \<Rightarrow>
          (case receivePasswordMessage (pc_io p4) of
            (Inl e, io) \<Rightarrow> (Inl (PaPassword e), p4\<lparr>pc_io := io\<rparr>)
          | (Inr password, io) \<Rightarrow>
          (case pg_check_credentials E nowC password u (p4\<lparr>pc_io := io\<rparr>) of
            (Inl e, p5) \<Rightarrow> (Inl e, p5)
          | (Inr _, p5) \<Rightarrow> (Inr \<lparr>lg_user = u, lg_database = database, lg_grant = grant\<rparr>, p5))))))))"

section \<open>MySQL\<close>

datatype mysql_auth_error =
    ErrAccessDenied
  | MaWriteFullAuth
  | MaReadFailed
  | ErrCachingSha2NeedsRSA
  | MaWritePubkey
  | MaSalt
  | MaDecrypt
  | ErrUnsupportedAuthPlugin
  | MaAPIKeyOwnerMismatch
  | MaUserUnknown
  | MaServerNotFound
  | MaNoActiveGrant
  | MaQuota mysql_error

definition AUTH_CACHING_SHA2_PASSWORD :: string where "AUTH_CACHING_SHA2_PASSWORD = ''caching_sha2_password''"
definition AUTH_CLEAR_PASSWORD :: string where "AUTH_CLEAR_PASSWORD = ''mysql_clear_password''"

text \<open>The connection during the handshake: the packets still to be read (\<open>None\<close> is a failed read), the outcome
  of the next writes, whether it is TLS, and the salt of the handshake when it can be read.\<close>

record mysql_wire =
  mw_packets :: "bytes option list"
  mw_writes :: "bool list"
  mw_tls :: bool
  mw_salt :: "bytes option"
  mw_out :: "bytes list"

definition mw_ReadPacket :: "mysql_wire \<Rightarrow> bytes option \<times> mysql_wire" where
  "mw_ReadPacket w = (case mw_packets w of [] \<Rightarrow> (None, w) | p # ps \<Rightarrow> (p, w\<lparr>mw_packets := ps\<rparr>))"

definition mw_WritePacket :: "bytes \<Rightarrow> mysql_wire \<Rightarrow> bool \<times> mysql_wire" where
  "mw_WritePacket data w =
     (case mw_writes w of True # ws \<Rightarrow> (True, w\<lparr>mw_writes := ws, mw_out := mw_out w @ [data]\<rparr>)
      | ws \<Rightarrow> (False, w\<lparr>mw_writes := tl ws\<rparr>))"

definition packetHeaderSize :: nat where "packetHeaderSize = 4"

definition trimTrailingNUL :: "string \<Rightarrow> string" where
  "trimTrailingNUL s = rev (dropWhile (\<lambda>c. c = CHR 0x00) (rev s))"

definition xorWithSalt :: "bytes \<Rightarrow> bytes \<Rightarrow> bytes" where
  "xorWithSalt data salt =
     (if length salt = 0 then data else map (\<lambda>i. xor (data ! i) (salt ! (i mod length salt))) [0..<length data])"

text \<open>An RSA key: OAEP decryption and the PEM form of the public key, both of the standard library.\<close>

record rsa_key =
  rsa_DecryptOAEP :: "bytes \<Rightarrow> bytes option"
  rsa_PEM :: bytes

definition decryptCachingSha2Password :: "bytes \<Rightarrow> rsa_key \<Rightarrow> bytes \<Rightarrow> mysql_auth_error + string" where
  "decryptCachingSha2Password encrypted key salt =
     (case rsa_DecryptOAEP key encrypted of None \<Rightarrow> Inl MaDecrypt
      | Some decrypted \<Rightarrow> Inr (trimTrailingNUL (str_of (xorWithSalt decrypted salt))))"

definition writeAuthMoreDataFullAuth :: "mysql_wire \<Rightarrow> bool \<times> mysql_wire" where
  "writeAuthMoreDataFullAuth = mw_WritePacket (replicate packetHeaderSize 0 @ [1, 4])"

definition writeAuthMoreDataPubkey :: "rsa_key \<Rightarrow> mysql_wire \<Rightarrow> bool \<times> mysql_wire" where
  "writeAuthMoreDataPubkey key = mw_WritePacket (replicate packetHeaderSize 0 @ [1] @ rsa_PEM key)"

text \<open>The end of the exchange on a plain connection.\<close>

definition rsa_password :: "rsa_key option \<Rightarrow> bytes \<Rightarrow> mysql_wire \<Rightarrow> (mysql_auth_error + string) \<times> mysql_wire" where
  "rsa_password rsaKey authData w =
     (case rsaKey of None \<Rightarrow> (Inl ErrCachingSha2NeedsRSA, w)
      | Some key \<Rightarrow>
          (case mw_salt w of None \<Rightarrow> (Inl MaSalt, w) | Some salt \<Rightarrow> (decryptCachingSha2Password authData key salt, w)))"

definition driveCachingSha2FullAuth :: "rsa_key option \<Rightarrow> mysql_wire \<Rightarrow> (mysql_auth_error + string) \<times> mysql_wire" where
  "driveCachingSha2FullAuth rsaKey w =
     (case writeAuthMoreDataFullAuth w of
        (False, w1) \<Rightarrow> (Inl MaWriteFullAuth, w1)
      | (True, w1) \<Rightarrow>
     (case mw_ReadPacket w1 of
        (None, w2) \<Rightarrow> (Inl MaReadFailed, w2)
      | (Some authData, w2) \<Rightarrow>
          if mw_tls w2 then (Inr (trimTrailingNUL (str_of authData)), w2)
          else if authData = [2] then
            (case rsaKey of None \<Rightarrow> (Inl ErrCachingSha2NeedsRSA, w2)
             | Some key \<Rightarrow>
                 (case writeAuthMoreDataPubkey key w2 of
                    (False, w3) \<Rightarrow> (Inl MaWritePubkey, w3)
                  | (True, w3) \<Rightarrow>
                      (case mw_ReadPacket w3 of (None, w4) \<Rightarrow> (Inl MaReadFailed, w4)
                       | (Some authData', w4) \<Rightarrow> rsa_password rsaKey authData' w4)))
          else rsa_password rsaKey authData w2))"

definition Validate :: "string \<Rightarrow> bool" where
  "Validate plugin \<longleftrightarrow> plugin = AUTH_CACHING_SHA2_PASSWORD \<or> plugin = AUTH_CLEAR_PASSWORD"

definition extractPlaintext :: "rsa_key option \<Rightarrow> string \<Rightarrow> bytes \<Rightarrow> mysql_wire \<Rightarrow> (mysql_auth_error + string) \<times> mysql_wire" where
  "extractPlaintext rsaKey plugin authData w =
     (if plugin = AUTH_CLEAR_PASSWORD then (Inr (trimTrailingNUL (str_of authData)), w)
      else if plugin = AUTH_CACHING_SHA2_PASSWORD then
        (if length authData = 0 then (Inr [], w) else driveCachingSha2FullAuth rsaKey w)
      else (Inl ErrUnsupportedAuthPlugin, w))"

definition mysql_authenticateAPIKey :: "auth_env \<Rightarrow> time \<Rightarrow> string \<Rightarrow> string \<Rightarrow> auth_store \<Rightarrow> (mysql_auth_error + unit) \<times> auth_store" where
  "mysql_authenticateAPIKey E now username key s =
     (case verify_key E now key s of
        (Inl e, s1) \<Rightarrow> (Inl ErrAccessDenied, s1)
      | (Inr verified, s1) \<Rightarrow>
          (case on_store (GetUserByUsername username) s1 of
             (Inl e, s2) \<Rightarrow> (Inl MaAPIKeyOwnerMismatch, s2)
           | (Inr u, s2) \<Rightarrow>
               if usr_UID u \<noteq> ak_UserID verified then (Inl MaAPIKeyOwnerMismatch, s2)
               else (Inr (), s2\<lparr>vs_usage := vs_usage s2 @ [ak_ID verified]\<rparr>)))"

definition mysql_verifyCredentials :: "auth_env \<Rightarrow> time \<Rightarrow> string \<Rightarrow> string \<Rightarrow> auth_store \<Rightarrow> (mysql_auth_error + unit) \<times> auth_store" where
  "mysql_verifyCredentials E now username password s =
     (if isAPIKey password then mysql_authenticateAPIKey E now username password s
      else case on_store (GetUserByUsername username) s of
        (Inl e, s1) \<Rightarrow> (Inl ErrAccessDenied, s1)
      | (Inr u, s1) \<Rightarrow>
          (case check_password E now u password s1 of (r, s2) \<Rightarrow> (if r = Inr True then Inr () else Inl ErrAccessDenied, s2)))"

text \<open>\<open>Authenticate\<close>, with the password it recovered.\<close>

definition Authenticate ::
  "auth_env \<Rightarrow> rsa_key option \<Rightarrow> time \<Rightarrow> string \<Rightarrow> string \<Rightarrow> bytes \<Rightarrow> mysql_wire \<Rightarrow> auth_store \<Rightarrow> (mysql_auth_error + string) \<times> mysql_wire \<times> auth_store" where
  "Authenticate E rsaKey now username plugin authData w s =
     (case extractPlaintext rsaKey plugin authData w of
        (Inl e, w1) \<Rightarrow> (Inl e, w1, s)
      | (Inr password, w1) \<Rightarrow>
          (case mysql_verifyCredentials E now username password s of (Inl e, s1) \<Rightarrow> (Inl e, w1, s1) | (Inr _, s1) \<Rightarrow> (Inr password, w1, s1)))"

definition GetCredential :: "string \<Rightarrow> auth_store \<Rightarrow> user option \<times> auth_store" where
  "GetCredential username s =
     (case on_store (GetUserByUsername username) s of (Inl e, s1) \<Rightarrow> (None, s1) | (Inr u, s1) \<Rightarrow> (Some u, s1))"

definition OnAuthSuccess :: "time \<times> time \<Rightarrow> string \<Rightarrow> user \<Rightarrow> auth_store \<Rightarrow> (mysql_auth_error + login) \<times> auth_store" where
  "OnAuthSuccess clk requestedDB u s =
     (if requestedDB = [] then (Inl MaServerNotFound, s)
      else case on_store (GetServerByName requestedDB) s of
        (Inl e, s1) \<Rightarrow> (Inl MaServerNotFound, s1)
      | (Inr database, s1) \<Rightarrow>
          if \<not> IsMySQLFamily (srv_Protocol database) then (Inl MaServerNotFound, s1)
          else case on_store (GetActiveGrant (usr_UID u) (srv_UID database) (fst clk)) s1 of
            (Inl e, s2) \<Rightarrow> (Inl MaNoActiveGrant, s2)
          | (Inr grant, s2) \<Rightarrow>
              (case mysql_checkQuotas (snd clk) grant of Some e \<Rightarrow> (Inl (MaQuota e), s2)
               | None \<Rightarrow> (Inr \<lparr>lg_user = u, lg_database = database, lg_grant = grant\<rparr>, s2)))"

text \<open>The engine looks the user up, checks the plugin, authenticates, and reports success.\<close>

definition mysql_login ::
  "auth_env \<Rightarrow> rsa_key option \<Rightarrow> time \<times> time \<times> time \<Rightarrow> string \<Rightarrow> string \<Rightarrow> string \<Rightarrow> bytes \<Rightarrow> mysql_wire \<Rightarrow> auth_store
   \<Rightarrow> (mysql_auth_error + login \<times> string) \<times> auth_store" where
  "mysql_login E rsaKey clk username requestedDB plugin authData w s =
     (case GetCredential username s of
        (None, s1) \<Rightarrow> (Inl MaUserUnknown, s1)
      | (Some u, s1) \<Rightarrow>
          if \<not> Validate plugin then (Inl ErrUnsupportedAuthPlugin, s1)
          else case Authenticate E rsaKey (fst clk) username plugin authData w s1 of
            (Inl e, _, s2) \<Rightarrow> (Inl e, s2)
          | (Inr password, _, s2) \<Rightarrow>
              (case OnAuthSuccess (snd clk) requestedDB u s2 of (Inl e, s3) \<Rightarrow> (Inl e, s3) | (Inr l, s3) \<Rightarrow> (Inr (l, password), s3)))"

section \<open>Entitlement\<close>

text \<open>
  The cache of \<open>internal/cache/auth.go\<close> answers from verdicts of the past, so what a password check
  says depends on the hashes that were stored before. \<open>auth_run\<close> is the life of a process: it starts
  with no cache or an empty one; the rows of the store change by operations that keep the keys'
  identity (\<open>key_write\<close>, which \<open>Api_Keys\<close> proves of every operation on keys) and store hashes of at
  least 32 characters, as every \<open>HashPassword\<close> makes them; passwords are checked for rows that are or
  were stored, keys are verified, and the cache is cleaned or cleared, in any order. Its list
  has every password hash the store ever had, with the user's identifier.
\<close>

definition stored_hashes :: "db \<Rightarrow> (uuid \<times> string) list" where
  "stored_hashes st = map (\<lambda>u. (usr_UID u, usr_PasswordHash u)) (db_users st)"

definition hashes_long :: "(uuid \<times> string) list \<Rightarrow> bool" where
  "hashes_long hs \<longleftrightarrow> list_all (\<lambda>(i, h). 32 \<le> length h) hs"

inductive auth_run :: "auth_env \<Rightarrow> auth_store \<Rightarrow> (uuid \<times> string) list \<Rightarrow> bool" for E where
  start: "vs_cache s = None \<or> vs_cache s = Some (NewAuthCache enabled ttl maxSize) \<Longrightarrow> keys_ok (db_keys (vs_db s)) \<Longrightarrow>
    hashes_long (stored_hashes (vs_db s)) \<Longrightarrow> auth_run E s (stored_hashes (vs_db s))"
| store: "auth_run E s hs \<Longrightarrow> key_write (vs_db s) st \<Longrightarrow> hashes_long (stored_hashes st) \<Longrightarrow>
    auth_run E (s\<lparr>vs_db := st\<rparr>) (hs @ stored_hashes st)"
| password: "auth_run E s hs \<Longrightarrow> (usr_UID u, usr_PasswordHash u) \<in> set hs \<Longrightarrow>
    auth_run E (snd (check_password (E\<lparr>vx_order := order\<rparr>) now u pw s)) hs"
| key: "auth_run E s hs \<Longrightarrow> auth_run E (snd (verify_key (E\<lparr>vx_order := order\<rparr>) now key s)) hs"
| usage: "auth_run E s hs \<Longrightarrow> auth_run E (s\<lparr>vs_usage := ids\<rparr>) hs"
| cleanup: "auth_run E s hs \<Longrightarrow> auth_run E (s\<lparr>vs_cache := map_option (ac_cleanup now) (vs_cache s)\<rparr>) hs"
| clear: "auth_run E s hs \<Longrightarrow> auth_run E (s\<lparr>vs_cache := map_option ac_Clear (vs_cache s)\<rparr>) hs"

text \<open>The textual form of an identifier: different for different identifiers, at least eight characters, hexadecimal
  digits and dashes only.\<close>

definition uuid_text :: "(uuid \<Rightarrow> string) \<Rightarrow> bool" where
  "uuid_text S \<longleftrightarrow> inj S \<and> (\<forall>i. 8 \<le> length (S i) \<and> CHR '':'' \<notin> set (S i) \<and> CHR ''_'' \<notin> set (S i))"

text \<open>The earlier hashes a cached verdict can stem from.\<close>

definition earlier :: "auth_store \<Rightarrow> (uuid \<times> string) list \<Rightarrow> (uuid \<times> string) list" where
  "earlier s hs = (case vs_cache s of None \<Rightarrow> [] | Some c \<Rightarrow> hs)"

text \<open>A password is proved by the hash of the row, or, through the cache, by an earlier hash of the same user
  that has the row's first 32 characters.\<close>

definition password_ok :: "auth_env \<Rightarrow> (uuid \<times> string) list \<Rightarrow> user \<Rightarrow> string \<Rightarrow> bool" where
  "password_ok E past u pw \<longleftrightarrow> Crypto.VerifyPassword (vx_prims E) (usr_PasswordHash u) pw = Inr True
     \<or> list_ex (\<lambda>(i, h). i = usr_UID u \<and> take 32 h = take 32 (usr_PasswordHash u)
          \<and> Crypto.VerifyPassword (vx_prims E) h pw = Inr True) past"

definition credential_ok :: "auth_env \<Rightarrow> (uuid \<times> string) list \<Rightarrow> time \<Rightarrow> user \<Rightarrow> string \<Rightarrow> db \<Rightarrow> bool" where
  "credential_ok E past now u pw st =
     (if isAPIKey pw then list_ex (\<lambda>k. ak_UserID k = usr_UID u \<and> ak_KeyPrefix k = take 8 pw \<and> ak_RevokedAt k = None \<and> \<not> IsExpired now k
          \<and> Crypto.VerifyPassword (vx_prims E) (ak_KeyHash k) pw = Inr True) (db_keys st)
      else password_ok E past u pw)"

text \<open>What the tables say of a login: a live user with an active grant on a live target, with the counters of
  the log, and no quota used up.\<close>

definition authorized :: "time \<Rightarrow> time \<Rightarrow> login \<Rightarrow> db \<Rightarrow> bool" where
  "authorized nowG nowQ l st \<longleftrightarrow>
     lg_user l \<in> set (db_users st) \<and> live_user (lg_user l) \<and> lg_database l \<in> set (db_servers st) \<and> live_server (lg_database l)
     \<and> srv_Protocol (lg_database l) \<noteq> ProtocolSSH
     \<and> list_ex (\<lambda>g. ag_UserID g = usr_UID (lg_user l) \<and> ag_DatabaseID g = srv_UID (lg_database l) \<and> grant_active nowG g
          \<and> lg_grant l = g\<lparr>ag_QueryCount := count_queries g st, ag_BytesTransferred := sum_bytes g st\<rparr>) (db_grants st)
     \<and> check_quotas nowQ (lg_grant l) = None"

text \<open>The login is for the user and the target that were named, with a credential that verifies.\<close>

definition entitled :: "auth_env \<Rightarrow> (uuid \<times> string) list \<Rightarrow> time \<Rightarrow> time \<Rightarrow> time \<Rightarrow> string \<Rightarrow> string \<Rightarrow> string \<Rightarrow> login \<Rightarrow> db \<Rightarrow> bool" where
  "entitled E past nowC nowG nowQ username databaseName pw l st \<longleftrightarrow>
     authorized nowG nowQ l st \<and> usr_Username (lg_user l) = username \<and> srv_Name (lg_database l) = databaseName
     \<and> credential_ok E past nowC (lg_user l) pw st"

definition same_store :: "auth_store \<Rightarrow> auth_store \<Rightarrow> bool" where
  "same_store s s' \<longleftrightarrow> same_tables (vs_db s) (vs_db s') \<and> vs_cache s' = vs_cache s"

lemma same_store_refl [simp]: "same_store s s"
  by (simp add: same_store_def)

lemma same_store_trans: "same_store a b \<Longrightarrow> same_store b c \<Longrightarrow> same_store a c"
  by (auto simp: same_store_def intro: same_tables_trans)

lemma key_inv_same: "same_tables st st' \<Longrightarrow> key_inv X H c st' = key_inv X H c st"
  by (simp add: key_inv_def same_tables_select)

section \<open>What the cache holds\<close>

definition pw_entries_ok :: "auth_env \<Rightarrow> (uuid \<times> string) list \<Rightarrow> auth_cache \<Rightarrow> bool" where
  "pw_entries_ok E hs c \<longleftrightarrow>
     (\<forall>i pw h v. 32 \<le> length h \<longrightarrow> ac_entry c (computeKey (vx_hash E) (vx_uuid_String E i) pw h) = Some v \<longrightarrow>
        (\<exists>h'. (i, h') \<in> set hs \<and> take 32 h' = take 32 h \<and> Crypto.VerifyPassword (vx_prims E) h' pw = Inr v))"

definition cache_ok :: "auth_env \<Rightarrow> (uuid \<times> string) list \<Rightarrow> auth_store \<Rightarrow> bool" where
  "cache_ok E hs s \<longleftrightarrow> keys_ok (db_keys (vs_db s)) \<and> hashes_long hs \<and> set (stored_hashes (vs_db s)) \<subseteq> set hs
     \<and> (\<forall>c. vs_cache s = Some c \<longrightarrow> key_inv (vx_prims E) (vx_hash E) c (vs_db s) \<and> pw_entries_ok E hs c)"

lemma cache_ok_same:
  assumes "same_store s s'"
  shows "cache_ok E hs s' = cache_ok E hs s" and "earlier s' hs = earlier s hs"
proof -
  have t: "same_tables (vs_db s) (vs_db s')" and c: "vs_cache s' = vs_cache s" using assms by (simp_all add: same_store_def)
  show "cache_ok E hs s' = cache_ok E hs s"
    by (simp add: cache_ok_def c key_inv_same [OF t] same_tables_select(1,12) [OF t] stored_hashes_def)
  show "earlier s' hs = earlier s hs" by (simp add: earlier_def c)
qed

lemma pw_entries_shrink:
  "pw_entries_ok E hs c \<Longrightarrow> (\<And>k v. ac_entry c' k = Some v \<Longrightarrow> ac_entry c k = Some v) \<Longrightarrow> pw_entries_ok E hs c'"
  unfolding pw_entries_ok_def by blast

lemma pw_entries_more: "pw_entries_ok E hs c \<Longrightarrow> pw_entries_ok E (hs @ hs') c"
  unfolding pw_entries_ok_def by (simp, blast)

text \<open>A password check adds at most the verdict of the hash it was given.\<close>

lemma pw_entries_password:
  assumes inj: "inj (vx_hash E)" and uuid: "uuid_text (vx_uuid_String E)" and c: "pw_entries_ok E hs c"
    and h0: "(i0, h0) \<in> set hs" "hashes_long hs"
  shows "pw_entries_ok E hs (snd (Auth_Cache.VerifyPassword (vx_hash E) (Crypto.VerifyPassword (vx_prims E)) order now (vx_uuid_String E i0) pw0 h0 c))"
    (is "pw_entries_ok E hs ?c'")
  unfolding pw_entries_ok_def
proof (intro allI impI)
  fix i pw h v
  let ?k = "computeKey (vx_hash E) (vx_uuid_String E i) pw h"
  assume h: "32 \<le> length h" and "ac_entry ?c' ?k = Some v"
  then have "ac_entry c ?k = Some v \<or> ?k = computeKey (vx_hash E) (vx_uuid_String E i0) pw0 h0 \<and> Crypto.VerifyPassword (vx_prims E) h0 pw0 = Inr v"
    using pw_memo.entry_after [where q = "(vx_uuid_String E i0, pw0, h0, now, order)" and c = c and k = ?k and v = v
        and H = "vx_hash E" and V = "Crypto.VerifyPassword (vx_prims E)"] by simp
  then show "\<exists>h'. (i, h') \<in> set hs \<and> take 32 h' = take 32 h \<and> Crypto.VerifyPassword (vx_prims E) h' pw = Inr v"
  proof
    assume new: "?k = computeKey (vx_hash E) (vx_uuid_String E i0) pw0 h0 \<and> Crypto.VerifyPassword (vx_prims E) h0 pw0 = Inr v"
    have "32 \<le> length h0" using h0 by (auto simp: hashes_long_def list_all_iff)
    then have "vx_uuid_String E i = vx_uuid_String E i0 \<and> pw = pw0 \<and> take 32 h = take 32 h0"
      using computeKey_inj [OF inj conjunct1 [OF new]] uuid h by (simp add: uuid_text_def)
    then show ?thesis using new h0(1) uuid by (auto simp: uuid_text_def dest: injD)
  qed (use c h in \<open>unfold pw_entries_ok_def, blast\<close>)
qed

text \<open>A key check adds no entry a password can meet.\<close>

lemma pw_entries_key:
  assumes inj: "inj (vx_hash E)" and uuid: "uuid_text (vx_uuid_String E)" and c: "pw_entries_ok E hs c" and k: "prefix_ok (take 8 p)"
  shows "pw_entries_ok E hs (snd (VerifyKey (vx_hash E) (Crypto.VerifyPassword (vx_prims E)) order now i p h c))"
proof -
  have "ac_entry c x = Some v \<or> x = vx_hash E p"
    if "ac_entry (snd (VerifyKey (vx_hash E) (Crypto.VerifyPassword (vx_prims E)) order now i p h c)) x = Some v" for x v
    using key_memo.entry_after [where q = "(i, p, h, now, order)" and c = c and k = x and v = v
        and H = "vx_hash E" and V = "Crypto.VerifyPassword (vx_prims E)"] that by (auto simp: computeKeyHash_def)
  moreover have "computeKey (vx_hash E) (vx_uuid_String E j) pw h' \<noteq> vx_hash E p" for j pw h'
    using computeKey_not_key [OF inj, of "vx_uuid_String E j" pw h' p] uuid k by (auto simp: uuid_text_def)
  ultimately show ?thesis using c unfolding pw_entries_ok_def by blast
qed

lemma check_password_cache_ok:
  assumes inj: "inj (vx_hash E)" and uuid: "uuid_text (vx_uuid_String E)" and c: "cache_ok E hs s" and u: "(usr_UID u, usr_PasswordHash u) \<in> set hs"
  shows "cache_ok E hs (snd (check_password (E\<lparr>vx_order := order\<rparr>) now u pw s))"
proof (cases "vs_cache s")
  case (Some d)
  let ?S = "vx_uuid_String E (usr_UID u)"
  have "key_inv (vx_prims E) (vx_hash E) (snd (Auth_Cache.VerifyPassword (vx_hash E) (Crypto.VerifyPassword (vx_prims E)) order now ?S pw (usr_PasswordHash u) d)) (vs_db s)"
    using key_step_inv [OF inj key_step.password [of ?S]] uuid c Some by (simp add: uuid_text_def cache_ok_def)
  moreover note pw_entries_password [OF inj uuid _ u]
  ultimately show ?thesis using c Some by (simp add: check_password_def cache_ok_def case_prod_beta)
qed (use c in \<open>simp add: check_password_def\<close>)

lemma verify_key_cache_ok:
  assumes inj: "inj (vx_hash E)" and uuid: "uuid_text (vx_uuid_String E)" and c: "cache_ok E hs s"
  shows "cache_ok E hs (snd (verify_key (E\<lparr>vx_order := order\<rparr>) now key s))"
proof -
  obtain r cache st where v: "VerifyAPIKey (vx_prims E) (vx_hash E) (vx_uuid_String E) order now key (vs_cache s) (vs_db s) = (r, cache, st)"
    by (cases "VerifyAPIKey (vx_prims E) (vx_hash E) (vx_uuid_String E) order now key (vs_cache s) (vs_db s)")
  note f = VerifyAPIKey_found [OF v]
  have tables: "db_users st = db_users (vs_db s)" "db_keys st = db_keys (vs_db s)" using same_tables_select(1,12) [OF f(1)] by simp_all
  have "key_inv (vx_prims E) (vx_hash E) d st \<and> pw_entries_ok E hs d" if d: "cache = Some d" for d
  proof (cases "vs_cache s")
    case None
    then show ?thesis using f(2) d by (auto simp: check_key_def)
  next
    case (Some d0)
    have "key_inv (vx_prims E) (vx_hash E) d st"
      using key_step_inv [OF inj key_step.verify [OF v [unfolded Some d]]] c Some by (simp add: cache_ok_def)
    moreover have "pw_entries_ok E hs d"
    proof (cases "cache = Some d0")
      case False
      then obtain k where k: "k \<in> set (db_keys (vs_db s))" "ak_KeyPrefix k = take 8 key"
        "cache = snd (check_key (vx_prims E) (vx_hash E) (vx_uuid_String E) order now k key (Some d0))" using f(2) Some by auto
      have "prefix_ok (take 8 key)" using c k(1,2) by (auto simp: cache_ok_def keys_ok_def)
      then have "pw_entries_ok E hs (snd (VerifyKey (vx_hash E) (Crypto.VerifyPassword (vx_prims E)) order now (vx_uuid_String E (ak_ID k)) key (ak_KeyHash k) d0))"
        using pw_entries_key [OF inj uuid] c Some by (simp add: cache_ok_def)
      then show ?thesis using d k(3) by (simp add: check_key_def case_prod_beta)
    qed (use c Some d in \<open>simp add: cache_ok_def\<close>)
    ultimately show ?thesis ..
  qed
  then show ?thesis using c v tables by (simp add: verify_key_def cache_ok_def stored_hashes_def)
qed

text \<open>Throughout a run the cache holds verdicts of hashes that are or were stored.\<close>

lemma auth_run_ok:
  assumes "auth_run E s hs" and inj: "inj (vx_hash E)" and uuid: "uuid_text (vx_uuid_String E)"
  shows "cache_ok E hs s"
  using assms(1)
proof induction
  case (start s enabled ttl maxSize)
  then show ?case by (auto simp: cache_ok_def pw_entries_ok_def ac_entry_def NewAuthCache_def key_inv_def)
next
  case (store s hs st)
  then show ?case using key_inv_write [OF _ store(2)]
    by (auto simp: cache_ok_def key_write_def hashes_long_def intro: pw_entries_more)
next
  case (password s hs u order now pw)
  show ?case by (rule check_password_cache_ok [OF inj uuid password.IH password.hyps(2)])
next
  case (key s hs order now key)
  show ?case by (rule verify_key_cache_ok [OF inj uuid key.IH])
next
  case (usage s hs ids)
  then show ?case by (simp add: cache_ok_def)
next
  case (cleanup s hs now)
  have "key_inv (vx_prims E) (vx_hash E) (ac_cleanup now c) (vs_db s) \<and> pw_entries_ok E hs (ac_cleanup now c)" if c: "vs_cache s = Some c" for c
  proof
    have ok: "key_inv (vx_prims E) (vx_hash E) c (vs_db s)" "pw_entries_ok E hs c" using cleanup.IH c by (simp_all add: cache_ok_def)
    show "key_inv (vx_prims E) (vx_hash E) (ac_cleanup now c) (vs_db s)" by (rule key_inv_shrink [OF ok(1)]) (rule cleanup_entry)
    show "pw_entries_ok E hs (ac_cleanup now c)" by (rule pw_entries_shrink [OF ok(2)]) (rule cleanup_entry)
  qed
  then show ?case using cleanup.IH by (auto simp: cache_ok_def)
next
  case (clear s hs)
  have "ac_entry (ac_Clear c) k = None" for c k by (simp add: ac_entry_def ac_Clear_def)
  then show ?case using clear.IH by (auto simp: cache_ok_def pw_entries_ok_def key_inv_def)
qed

section \<open>Lookups\<close>

lemma sums_same: "same_tables st st' \<Longrightarrow> count_queries g st' = count_queries g st" "same_tables st st' \<Longrightarrow> sum_bytes g st' = sum_bytes g st"
  by (simp_all add: count_queries_def sum_bytes_def same_tables_select)

lemma on_store_lookup:
  assumes "on_store f s = (r, s')" and "\<And>st. same_tables st (snd (f st))"
  shows "same_store s s'" and "f (vs_db s) = (r, vs_db s')"
  using assms(1) assms(2) [of "vs_db s"] by (auto simp: on_store_def same_store_def split: prod.splits)

lemma user_lookup:
  assumes "on_store (GetUserByUsername n) s = (r, s')"
  shows "same_store s s'" and "r = Inr u \<Longrightarrow> u \<in> set (db_users (vs_db s)) \<and> usr_Username u = n \<and> live_user u"
proof -
  have "same_tables st (snd (GetUserByUsername n st))" for st
    unfolding GetUserByUsername_def by (rule read_stmt_same) (rule prod.collapse [symmetric])
  note l = on_store_lookup [OF assms this]
  show "same_store s s'" by (rule l(1))
  show "r = Inr u \<Longrightarrow> u \<in> set (db_users (vs_db s)) \<and> usr_Username u = n \<and> live_user u"
    using get_name_found [of n "vs_db s" u] l(2) by simp
qed

lemma server_lookup:
  assumes "on_store (GetServerByName n) s = (r, s')"
  shows "same_store s s'"
    and "r = Inr d \<Longrightarrow> d \<in> set (db_servers (vs_db s)) \<and> srv_Name d = n \<and> live_server d \<and> srv_Protocol d \<noteq> ProtocolSSH"
proof -
  have "same_tables st (snd (GetServerByName n st))" for st
    unfolding GetServerByName_def find_server_def by (rule read_stmt_same) (rule prod.collapse [symmetric])
  note l = on_store_lookup [OF assms this]
  show "same_store s s'" by (rule l(1))
  assume "r = Inr d"
  with l(2) have "GetServerByName n (vs_db s) = (Inr d, vs_db s')" by simp
  from read_stmt_Inr [OF this [unfolded GetServerByName_def find_server_def]]
  show "d \<in> set (db_servers (vs_db s)) \<and> srv_Name d = n \<and> live_server d \<and> srv_Protocol d \<noteq> ProtocolSSH"
    by (auto simp: same_tables_select split: option.splits dest!: find_SomeD)
qed

lemma grant_lookup:
  assumes "on_store (GetActiveGrant u d now) s = (r, s')"
  shows "same_store s s'"
    and "r = Inr g' \<Longrightarrow> list_ex (\<lambda>g. ag_UserID g = u \<and> ag_DatabaseID g = d \<and> grant_active now g
          \<and> g' = g\<lparr>ag_QueryCount := count_queries g (vs_db s), ag_BytesTransferred := sum_bytes g (vs_db s)\<rparr>) (db_grants (vs_db s))"
proof -
  note l = on_store_lookup [OF assms GetActiveGrant_same]
  show "same_store s s'" by (rule l(1))
  assume "r = Inr g'"
  with l(2) have "GetActiveGrant u d now (vs_db s) = (Inr g', vs_db s')" by simp
  then obtain g where "g \<in> set (db_grants (vs_db s))" "ag_UserID g = u" "ag_DatabaseID g = d" "grant_active now g"
    "g' = g\<lparr>ag_QueryCount := count_queries g (vs_db s), ag_BytesTransferred := sum_bytes g (vs_db s)\<rparr>" by (rule GetActiveGrant_Inr)
  then show "list_ex (\<lambda>g. ag_UserID g = u \<and> ag_DatabaseID g = d \<and> grant_active now g
          \<and> g' = g\<lparr>ag_QueryCount := count_queries g (vs_db s), ag_BytesTransferred := sum_bytes g (vs_db s)\<rparr>) (db_grants (vs_db s))"
    unfolding list_ex_iff by blast
qed

lemma check_password_sound:
  assumes "cache_ok E hs s" and "fst (check_password E now u pw s) = Inr True" and "u \<in> set (db_users (vs_db s))"
  shows "password_ok E (earlier s hs) u pw"
proof (cases "vs_cache s")
  case (Some c)
  let ?V = "Crypto.VerifyPassword (vx_prims E)"
  have "(usr_UID u, usr_PasswordHash u) \<in> set hs" using assms(1,3) by (auto simp: cache_ok_def stored_hashes_def)
  then have h: "32 \<le> length (usr_PasswordHash u)" using assms(1) by (auto simp: cache_ok_def hashes_long_def list_all_iff)
  have a: "fst (Auth_Cache.VerifyPassword (vx_hash E) ?V (vx_order E) now (vx_uuid_String E (usr_UID u)) pw (usr_PasswordHash u) c) = Inr True"
    using assms(2) Some by (simp add: check_password_def split: prod.splits)
  then have "ac_entry c (computeKey (vx_hash E) (vx_uuid_String E (usr_UID u)) pw (usr_PasswordHash u)) = Some True \<or> ?V (usr_PasswordHash u) pw = Inr True"
    by (auto simp: Auth_Cache.VerifyPassword_def split: if_splits dest: verify_through_answer)
  then show ?thesis
  proof
    assume "ac_entry c (computeKey (vx_hash E) (vx_uuid_String E (usr_UID u)) pw (usr_PasswordHash u)) = Some True"
    then obtain h' where "(usr_UID u, h') \<in> set hs" "take 32 h' = take 32 (usr_PasswordHash u)" "?V h' pw = Inr True"
      using assms(1) h Some unfolding cache_ok_def pw_entries_ok_def by blast
    then show ?thesis using Some by (auto simp: password_ok_def earlier_def list_ex_iff)
  qed (simp add: password_ok_def)
qed (use assms(2) in \<open>simp add: check_password_def password_ok_def\<close>)

lemma verify_key_sound:
  assumes "cache_ok E hs s" and "verify_key E now key s = (Inr k, s')"
  shows "k \<in> set (db_keys (vs_db s)) \<and> ak_KeyPrefix k = take 8 key \<and> ak_RevokedAt k = None \<and> \<not> IsExpired now k
      \<and> Crypto.VerifyPassword (vx_prims E) (ak_KeyHash k) key = Inr True" and "same_tables (vs_db s) (vs_db s')"
proof -
  obtain r c st where v: "VerifyAPIKey (vx_prims E) (vx_hash E) (vx_uuid_String E) (vx_order E) now key (vs_cache s) (vs_db s) = (r, c, st)"
    by (cases "VerifyAPIKey (vx_prims E) (vx_hash E) (vx_uuid_String E) (vx_order E) now key (vs_cache s) (vs_db s)")
  then have r: "r = Inr k" "vs_db s' = st" using assms(2) by (auto simp: verify_key_def)
  note f = VerifyAPIKey_found(3) [OF v r(1)]
  show "same_tables (vs_db s) (vs_db s')" using VerifyAPIKey_found(1) [OF v] r(2) by simp
  have "Crypto.VerifyPassword (vx_prims E) (ak_KeyHash k) key = Inr True"
  proof (cases "vs_cache s")
    case None
    then show ?thesis using f by (simp add: check_key_def)
  next
    case (Some c)
    then show ?thesis using check_key_true [of "vx_prims E" "vx_hash E" c "vs_db s"] f assms(1) by (auto simp: cache_ok_def)
  qed
  then show "k \<in> set (db_keys (vs_db s)) \<and> ak_KeyPrefix k = take 8 key \<and> ak_RevokedAt k = None \<and> \<not> IsExpired now k
      \<and> Crypto.VerifyPassword (vx_prims E) (ak_KeyHash k) key = Inr True" using f by blast
qed

lemma pc_db_eq: "pc_db f p = (r, p') \<longleftrightarrow> on_store f (pc_store p) = (r, pc_store p') \<and> p' = p\<lparr>pc_store := pc_store p'\<rparr>"
  by (auto simp: pc_db_def split: prod.splits)

text \<open>The steps of a successful login, in order.\<close>

lemma authenticate_Inr:
  assumes "authenticate E cfg decode clk hp p0 = (Inr l, p')"
  obtains params io p1 p2 p3 p4 pw io' where "receiveStartupMessage decode (pc_io p0) = (Inr (StartupMessage params), io)"
    and "pc_db (GetUserByUsername (params ''user'')) (p0\<lparr>pc_io := io\<rparr>) = (Inr (lg_user l), p1)"
    and "pc_db (GetServerByName (params ''database'')) p1 = (Inr (lg_database l), p2)"
    and "pc_db (GetActiveGrant (usr_UID (lg_user l)) (srv_UID (lg_database l)) (fst clk)) p2 = (Inr (lg_grant l), p3)"
    and "checkQuotas hp (fst (snd clk)) (fst (NewSession cfg (lg_grant l) uuid_Nil hp)) = None"
    and "request_password p3 = (True, p4)" and "receivePasswordMessage (pc_io p4) = (Inr pw, io')"
    and "pg_check_credentials E (snd (snd clk)) pw (lg_user l) (p4\<lparr>pc_io := io'\<rparr>) = (Inr (), p')"
proof -
  obtain r io where start: "receiveStartupMessage decode (pc_io p0) = (r, io)" by fastforce
  from assms start obtain params where r: "r = Inr (StartupMessage params)"
    by (cases r; cases "projr r") (auto simp: authenticate_def Let_def split: prod.splits)
  note a = assms [unfolded authenticate_def Let_def start r, simplified]
  obtain u p1 where u: "pc_db (GetUserByUsername (params ''user'')) (p0\<lparr>pc_io := io\<rparr>) = (Inr u, p1)"
    using a by (cases "pc_db (GetUserByUsername (params ''user'')) (p0\<lparr>pc_io := io\<rparr>)") (auto split: prod.splits sum.splits if_splits)
  obtain d p2 where d: "pc_db (GetServerByName (params ''database'')) p1 = (Inr d, p2)"
    using a u by (cases "pc_db (GetServerByName (params ''database'')) p1") (auto split: prod.splits sum.splits if_splits)
  obtain g p3 where g: "pc_db (GetActiveGrant (usr_UID u) (srv_UID d) (fst clk)) p2 = (Inr g, p3)"
    using a u d by (cases "pc_db (GetActiveGrant (usr_UID u) (srv_UID d) (fst clk)) p2") (auto split: prod.splits sum.splits if_splits)
  have q: "checkQuotas hp (fst (snd clk)) (fst (NewSession cfg g uuid_Nil hp)) = None"
    using a u d g by (auto split: prod.splits option.splits if_splits)
  obtain p4 where w: "request_password p3 = (True, p4)"
    using a u d g q by (cases "request_password p3") (auto split: prod.splits bool.splits if_splits)
  obtain pw io' where pw: "receivePasswordMessage (pc_io p4) = (Inr pw, io')"
    using a u d g q w by (cases "receivePasswordMessage (pc_io p4)") (auto split: prod.splits sum.splits if_splits)
  have "pg_check_credentials E (snd (snd clk)) pw u (p4\<lparr>pc_io := io'\<rparr>) = (Inr (), p')" "l = \<lparr>lg_user = u, lg_database = d, lg_grant = g\<rparr>"
    using a u d g q w pw by (auto split: prod.splits sum.splits if_splits)
  then show thesis using that start r u d g q w pw by simp
qed

lemma pg_quotas: "checkQuotas hp now (fst (NewSession cfg g c hp)) = None \<Longrightarrow> check_quotas now g = None"
  by (auto simp: checkQuotas_def NewSession_def check_quotas_def Let_def split: prod.splits if_splits option.splits)

lemma pg_credentials_sound:
  assumes "cache_ok E hs (pc_store p)" and "u \<in> set (db_users (vs_db (pc_store p)))" and "pg_check_credentials E now pw u p = (Inr (), p')"
  shows "credential_ok E (earlier (pc_store p) hs) now u pw (vs_db (pc_store p))"
proof (cases "isAPIKey pw")
  case True
  from assms(3) True obtain k s where "verify_key E now pw (pc_store p) = (Inr k, s)" "ak_UserID k = usr_UID u"
    by (auto simp: pg_check_credentials_def authenticateWithAPIKey_def split: prod.splits sum.splits if_splits)
  then show ?thesis using verify_key_sound(1) [OF assms(1)] True by (auto simp: credential_ok_def list_ex_iff)
next
  case False
  then have "fst (check_password E now u pw (pc_store p)) = Inr True"
    using assms(3) by (auto simp: pg_check_credentials_def split: prod.splits if_splits)
  then show ?thesis using check_password_sound [OF assms(1) _ assms(2)] False by (simp add: credential_ok_def)
qed


lemma credential_same: "same_tables st st' \<Longrightarrow> credential_ok E past now u pw st' = credential_ok E past now u pw st"
  by (simp add: credential_ok_def same_tables_select)

lemma pg_login_sound:
  assumes "cache_ok E hs (pc_store p0)" and "authenticate E cfg decode clk hp p0 = (Inr l, p')"
  shows "\<exists>params io pw. receiveStartupMessage decode (pc_io p0) = (Inr (StartupMessage params), io)
    \<and> fst (receivePasswordMessage (io\<lparr>io_wok := tl (io_wok io)\<rparr>)) = Inr pw
    \<and> entitled E (earlier (pc_store p0) hs) (snd (snd clk)) (fst clk) (fst (snd clk)) (params ''user'') (params ''database'') pw l (vs_db (pc_store p0))"
  using assms(2)
proof (rule authenticate_Inr)
  fix params io p1 p2 p3 p4 pw io'
  assume start: "receiveStartupMessage decode (pc_io p0) = (Inr (StartupMessage params), io)"
    and u: "pc_db (GetUserByUsername (params ''user'')) (p0\<lparr>pc_io := io\<rparr>) = (Inr (lg_user l), p1)"
    and d: "pc_db (GetServerByName (params ''database'')) p1 = (Inr (lg_database l), p2)"
    and g: "pc_db (GetActiveGrant (usr_UID (lg_user l)) (srv_UID (lg_database l)) (fst clk)) p2 = (Inr (lg_grant l), p3)"
    and q: "checkQuotas hp (fst (snd clk)) (fst (NewSession cfg (lg_grant l) uuid_Nil hp)) = None"
    and w: "request_password p3 = (True, p4)" and m: "receivePasswordMessage (pc_io p4) = (Inr pw, io')"
    and c: "pg_check_credentials E (snd (snd clk)) pw (lg_user l) (p4\<lparr>pc_io := io'\<rparr>) = (Inr (), p')"
  have s: "on_store (GetUserByUsername (params ''user'')) (pc_store p0) = (Inr (lg_user l), pc_store p1)"
    "on_store (GetServerByName (params ''database'')) (pc_store p1) = (Inr (lg_database l), pc_store p2)"
    "on_store (GetActiveGrant (usr_UID (lg_user l)) (srv_UID (lg_database l)) (fst clk)) (pc_store p2) = (Inr (lg_grant l), pc_store p3)"
    "pc_store p4 = pc_store p3"
    using u d g w by (simp_all add: pc_db_eq request_password_def split: list.splits bool.splits) auto
  note ul = user_lookup [OF s(1)] and dl = server_lookup [OF s(2)] and gl = grant_lookup [OF s(3)]
  have same: "same_store (pc_store p0) (pc_store p2)" "same_store (pc_store p0) (pc_store p4)"
    using same_store_trans ul(1) dl(1) gl(1) s(4) by metis+
  then have st: "same_tables (vs_db (pc_store p0)) (vs_db (pc_store p1))" "same_tables (vs_db (pc_store p0)) (vs_db (pc_store p2))"
    "same_tables (vs_db (pc_store p0)) (vs_db (pc_store p4))" using ul(1) by (simp_all add: same_store_def)
  have "pc_io p3 = io" using u d g by (auto simp: pc_db_def split: prod.splits)
  then have "pc_io p4 = io\<lparr>io_wok := tl (io_wok io)\<rparr>" using w by (auto simp: request_password_def split: list.splits bool.splits)
  then have msg: "fst (receivePasswordMessage (io\<lparr>io_wok := tl (io_wok io)\<rparr>)) = Inr pw" using m by simp
  have "credential_ok E (earlier (pc_store p0) hs) (snd (snd clk)) (lg_user l) pw (vs_db (pc_store p4))"
    using pg_credentials_sound [OF _ _ c] ul(2) cache_ok_same [OF same(2)] assms(1) st(3) by (simp add: same_tables_select)
  then have "entitled E (earlier (pc_store p0) hs) (snd (snd clk)) (fst clk) (fst (snd clk)) (params ''user'') (params ''database'') pw l (vs_db (pc_store p0))"
    using ul(2) dl(2) gl(2) pg_quotas [OF q] st credential_same [OF st(3)] by (simp add: entitled_def authorized_def same_tables_select sums_same)
  then show ?thesis using start msg by blast
qed

text \<open>Two lookups of a name over the same tables find the same user.\<close>

lemma user_lookup_again:
  assumes "on_store (GetUserByUsername n) s = (Inr u, s')" and "on_store (GetUserByUsername n) t = (Inr v, t')" and "same_tables (vs_db s) (vs_db t)"
  shows "v = u"
proof -
  have find: "find (\<lambda>u. usr_Username u = n \<and> live_user u) (db_users (vs_db x)) = Some y"
    if "on_store (GetUserByUsername n) x = (Inr y, x')" for x y x'
  proof -
    have "GetUserByUsername n (vs_db x) = (Inr y, vs_db x')" using that by (auto simp: on_store_def split: prod.splits)
    from read_stmt_Inr [OF this [unfolded GetUserByUsername_def]] show ?thesis by (auto simp: same_tables_select split: option.splits)
  qed
  show ?thesis using find [OF assms(1)] find [OF assms(2)] same_tables_select(1) [OF assms(3)] by simp
qed

lemma mysql_credentials_sound:
  assumes c: "cache_ok E hs s" and v: "mysql_verifyCredentials E now n pw s = (Inr (), s')"
    and u: "on_store (GetUserByUsername n) s0 = (Inr u, s)"
  shows "credential_ok E (earlier s hs) now u pw (vs_db s) \<and> same_tables (vs_db s) (vs_db s')"
proof (cases "isAPIKey pw")
  case True
  from v True obtain k s1 w s2 where k: "verify_key E now pw s = (Inr k, s1)" "on_store (GetUserByUsername n) s1 = (Inr w, s2)"
    "usr_UID w = ak_UserID k" "vs_db s' = vs_db s2"
    by (auto simp: mysql_verifyCredentials_def mysql_authenticateAPIKey_def split: prod.splits sum.splits if_splits)
  note key = verify_key_sound [OF c k(1)]
  have "same_tables (vs_db s0) (vs_db s1)" using user_lookup(1) [OF u] key(2) by (auto simp: same_store_def intro: same_tables_trans)
  then have "w = u" by (rule user_lookup_again [OF u k(2)])
  moreover have "same_tables (vs_db s) (vs_db s')" using key(2) user_lookup(1) [OF k(2)] k(4) by (auto simp: same_store_def intro: same_tables_trans)
  ultimately show ?thesis using key(1) k(3) True by (auto simp: credential_ok_def list_ex_iff)
next
  case False
  from v False obtain w s1 where w: "on_store (GetUserByUsername n) s = (Inr w, s1)" "fst (check_password E now w pw s1) = Inr True"
    "s' = snd (check_password E now w pw s1)"
    by (auto simp: mysql_verifyCredentials_def split: prod.splits sum.splits if_splits)
  note l = user_lookup [OF w(1)]
  have "w = u" by (rule user_lookup_again [OF u w(1)]) (use user_lookup(1) [OF u] in \<open>simp add: same_store_def\<close>)
  moreover have "password_ok E (earlier s1 hs) w pw"
  proof (rule check_password_sound [OF _ w(2)])
    show "cache_ok E hs s1" using cache_ok_same [OF l(1)] c by simp
    have "db_users (vs_db s1) = db_users (vs_db s)" using l(1) same_tables_select(1) [of "vs_db s" "vs_db s1"] by (simp add: same_store_def)
    then show "w \<in> set (db_users (vs_db s1))" using l(2) [OF refl] by simp
  qed
  moreover have "vs_db s' = vs_db s1" using w(3) by (simp add: check_password_def split: option.splits prod.splits)
  ultimately show ?thesis using False l(1) cache_ok_same(2) [OF l(1)] by (simp add: credential_ok_def same_store_def)
qed

lemma mysql_login_sound:
  assumes c: "cache_ok E hs s" and l: "mysql_login E rsa clk n dbn plugin authData w s = (Inr (l, pw), s')"
  shows "entitled E (earlier s hs) (fst clk) (fst (snd clk)) (snd (snd clk)) n dbn pw l (vs_db s) \<and> IsMySQLFamily (srv_Protocol (lg_database l))
    \<and> fst (extractPlaintext rsa plugin authData w) = Inr pw"
proof -
  from l obtain u s1 w1 s2 where u: "on_store (GetUserByUsername n) s = (Inr u, s1)"
    and a: "Authenticate E rsa (fst clk) n plugin authData w s1 = (Inr pw, w1, s2)"
    and o: "OnAuthSuccess (snd clk) dbn u s2 = (Inr l, s')"
    by (auto simp: mysql_login_def GetCredential_def split: prod.splits sum.splits option.splits if_splits)
  note ul = user_lookup [OF u]
  have v: "mysql_verifyCredentials E (fst clk) n pw s1 = (Inr (), s2)" and x: "fst (extractPlaintext rsa plugin authData w) = Inr pw"
    using a by (auto simp: Authenticate_def split: prod.splits sum.splits)
  note cred = mysql_credentials_sound [OF _ v u]
  from o obtain s3 s4 where d: "on_store (GetServerByName dbn) s2 = (Inr (lg_database l), s3)" and f: "IsMySQLFamily (srv_Protocol (lg_database l))"
    and g: "on_store (GetActiveGrant (usr_UID u) (srv_UID (lg_database l)) (fst (snd clk))) s3 = (Inr (lg_grant l), s4)"
    and q: "mysql_checkQuotas (snd (snd clk)) (lg_grant l) = None" and lu: "lg_user l = u"
    by (auto simp: OnAuthSuccess_def split: prod.splits sum.splits option.splits if_splits)
  have st: "same_tables (vs_db s) (vs_db s1)" "same_tables (vs_db s) (vs_db s2)" "same_tables (vs_db s) (vs_db s3)"
    using ul(1) cred c cache_ok_same(1) [OF ul(1)] server_lookup(1) [OF d] unfolding same_store_def by (metis same_tables_trans)+
  have "credential_ok E (earlier s hs) (fst clk) u pw (vs_db s)" using cred c cache_ok_same [OF ul(1)] credential_same [OF st(1)] by simp
  moreover have "check_quotas (snd (snd clk)) (lg_grant l) = None"
    using q by (simp add: mysql_checkQuotas_def split: option.splits)
  ultimately show ?thesis using x f ul(2) server_lookup(2) [OF d] grant_lookup(2) [OF g] st lu
    by (simp add: entitled_def authorized_def same_tables_select sums_same)
qed


section \<open>Results\<close>

text \<open>C15. A PostgreSQL client that gets through \<open>authenticate\<close> named a live user in its startup message and holds an
  active grant on the live target it named, with no quota used up. The password message it sent, read off the
  connection after the startup message, carried a credential of that user: an API key that verifies against the hash of a
  row of the user's own, neither revoked nor expired; or a password that verifies against the user's stored hash or,
  when the process has an authentication cache, against an earlier hash of the same user with the same first 32
  characters (the limit of the cache's keys: a replaced password may still be accepted from the cache).
  The cache is whatever a run of the process left in it: started empty, with any operations on keys and users, checks of
  passwords and keys, cleanups and clears in between. Assumed of other code: SHA-256 without collisions, and the documented
  text of identifiers.\<close>

theorem pg_login_entitled:
  assumes "inj (vx_hash E)" and "uuid_text (vx_uuid_String E)" and "auth_run E (pc_store p0) hs"
    and "authenticate E cfg decode clk hp p0 = (Inr l, p')"
  shows "\<exists>params io pw. receiveStartupMessage decode (pc_io p0) = (Inr (StartupMessage params), io)
    \<and> fst (receivePasswordMessage (io\<lparr>io_wok := tl (io_wok io)\<rparr>)) = Inr pw
    \<and> entitled E (earlier (pc_store p0) hs) (snd (snd clk)) (fst clk) (fst (snd clk)) (params ''user'') (params ''database'') pw l (vs_db (pc_store p0))"
  using pg_login_sound [OF auth_run_ok [OF assms(3,1,2)] assms(4)] .

text \<open>C16. A MySQL client that gets through the login holds an active grant, with no quota used up, on the live
  MySQL or MariaDB target it named, as the live user it named; and the plaintext its plugin delivered (in the clear, over
  TLS, or through RSA) is a credential of that user: a valid key of the user's own, or a password that verifies
  against the stored hash or, when the process has an authentication cache, against an earlier hash of the same
  user with the same first 32 characters. The cache is whatever a run of the process left in it, under the same two
  assumptions on other code.\<close>

theorem mysql_login_entitled:
  assumes "inj (vx_hash E)" and "uuid_text (vx_uuid_String E)" and "auth_run E s hs"
    and "mysql_login E rsa clk n dbn plugin authData w s = (Inr (l, pw), s')"
  shows "entitled E (earlier s hs) (fst clk) (fst (snd clk)) (snd (snd clk)) n dbn pw l (vs_db s) \<and> IsMySQLFamily (srv_Protocol (lg_database l))
    \<and> fst (extractPlaintext rsa plugin authData w) = Inr pw"
  using mysql_login_sound [OF auth_run_ok [OF assms(3,1,2)] assms(4)] .

text \<open>The PostgreSQL listener tells users and grants apart before it asks for a password: a startup message
  alone gets one answer for an unknown user and another for a user without a grant on the target.\<close>

theorem pg_login_oracle:
  assumes "db_faults (vs_db (pc_store p0)) = []" and "receiveStartupMessage decode (pc_io p0) = (Inr (StartupMessage params), io)"
    and "params ''user'' \<noteq> []" and "params ''database'' \<noteq> []" and "fst (GetServerByName (params ''database'') (vs_db (pc_store p0))) = Inr database"
  shows "case find (\<lambda>u. usr_Username u = params ''user'' \<and> live_user u) (db_users (vs_db (pc_store p0))) of
      None \<Rightarrow> pc_errors (snd (authenticate E cfg decode clk hp p0)) = pc_errors p0 @ [''authentication failed'']
    | Some u \<Rightarrow>
        filter (\<lambda>g. ag_UserID g = usr_UID u \<and> ag_DatabaseID g = srv_UID database \<and> grant_active (fst clk) g) (db_grants (vs_db (pc_store p0))) = []
        \<longrightarrow> pc_errors (snd (authenticate E cfg decode clk hp p0)) = pc_errors p0 @ [''access denied: no valid grant'']"
proof -
  let ?st = "vs_db (pc_store p0)"
  have s: "stmt ?st = (True, ?st)" using assms(1) by simp
  have d: "GetServerByName n ?st = (fst (GetServerByName n ?st), ?st)" for n
    by (simp add: GetServerByName_def find_server_def read_stmt_def s)
  have u: "GetUserByUsername n ?st = (case find (\<lambda>u. usr_Username u = n \<and> live_user u) (db_users ?st) of None \<Rightarrow> Inl ErrUserNotFound | Some u \<Rightarrow> Inr u, ?st)" for n
    by (simp add: GetUserByUsername_def read_stmt_def s split: option.split)
  have g: "GetActiveGrant x y now ?st = (Inl ErrNoActiveGrant, ?st)"
    if "filter (\<lambda>g. ag_UserID g = x \<and> ag_DatabaseID g = y \<and> grant_active now g) (db_grants ?st) = []" for x y now
    by (simp add: GetActiveGrant_def read_stmt_def s that newest_first_def and_then_def)
  show ?thesis
    using assms(2-4) d [of "params ''database''", unfolded assms(5)] u g
    by (simp add: authenticate_def Let_def case_prod_beta pc_db_def on_store_def sendError_def split: option.split)
qed

section \<open>Witnesses\<close>

definition auth_db :: "string \<Rightarrow> db" where
  "auth_db protocol = empty_db\<lparr>
     db_users := [\<lparr>usr_UID = 1, usr_Username = ''alice'', usr_PasswordHash = HashPassword sample_prims [1, 2] ''pw'', usr_Roles = [], usr_RateLimitExempt = False,
       usr_PasswordChangedAt = None, usr_CreatedAt = 0, usr_UpdatedAt = 0, usr_DeletedAt = None, usr_ProtocolData = None\<rparr>],
     db_servers := [(Servers.sample_server ''prod'' ''h'' protocol None)\<lparr>srv_UID := 2\<rparr>],
     db_grants := [sample_grant\<lparr>ag_UserID := 1, ag_DatabaseID := 2\<rparr>]\<rparr>"

definition uuid_bits :: "uuid \<Rightarrow> string" where
  "uuid_bits i = map (\<lambda>n. if bit i n then CHR ''1'' else CHR ''0'') [0..<128]"

lemma uuid_bits_text: "uuid_text uuid_bits"
proof -
  have "inj uuid_bits"
  proof (rule injI)
    fix i j assume "uuid_bits i = uuid_bits j"
    then have "bit i n = bit j n" if "n < 128" for n
      using that by (auto simp: uuid_bits_def map_eq_conv split: if_splits)
    then show "i = j" by (intro bit_word_eqI) simp
  qed
  then show ?thesis by (auto simp: uuid_text_def uuid_bits_def)
qed

definition auth_env0 :: auth_env where
  "auth_env0 = \<lparr>vx_prims = sample_prims, vx_hash = id, vx_uuid_String = uuid_bits, vx_order = []\<rparr>"

definition fresh_store :: "string \<Rightarrow> auth_store" where
  "fresh_store protocol = \<lparr>vs_db = auth_db protocol, vs_cache = Some (NewAuthCache True 300 100), vs_usage = []\<rparr>"

text \<open>The store after a first check of the user's password: the login that follows is answered by the cache.\<close>

definition auth_store0 :: "string \<Rightarrow> auth_store" where
  "auth_store0 protocol = snd (check_password auth_env0 1 (hd (db_users (auth_db protocol))) ''pw'' (fresh_store protocol))"

definition pg_client0 :: pg_client where
  "pg_client0 = \<lparr>pc_io = \<lparr>io_in = [0, 0, 0, 5, 9, 112, 0, 0, 0, 7, 112, 119, 0], io_out = [], io_wok = [True], io_tls = False, io_handshake = None\<rparr>,
     pc_store = auth_store0 ''postgresql'', pc_errors = [], pc_requested = False\<rparr>"

definition decode0 :: "string \<Rightarrow> bytes \<Rightarrow> startup_message option" where
  "decode0 user body = Some (StartupMessage (\<lambda>k. if k = ''user'' then user else ''prod''))"

lemma alice_verifies: "Crypto.VerifyPassword sample_prims (HashPassword sample_prims [1, 2] ''pw'') ''pw'' = Inr True"
  unfolding HashPassword_def using verify_hash [OF sample_prims_ok(2)] by simp

lemma auth_cache0:
  "vs_db (auth_store0 protocol) = auth_db protocol"
  "\<exists>c. vs_cache (auth_store0 protocol) = Some c \<and> ac_enabled c \<and> ac_ttl c = 300000000000
     \<and> ac_entries c (computeKey id (uuid_bits 1) ''pw'' (HashPassword sample_prims [1, 2] ''pw'')) = Some \<lparr>ce_valid = True, ce_timestamp = 1\<rparr>"
  using alice_verifies
  by (simp_all add: auth_store0_def check_password_def auth_env0_def fresh_store_def auth_db_def NewAuthCache_def Auth_Cache.VerifyPassword_def
      verify_through_def ac_set_def Let_def seconds_def wrap_i64_def)

lemma auth_check0:
  assumes "usr_UID u = 1" and "usr_PasswordHash u = HashPassword sample_prims [1, 2] ''pw''" and "vs_cache s = vs_cache (auth_store0 protocol)" and "now \<in> {2..9}"
  shows "fst (check_password auth_env0 now u ''pw'' s) = Inr True" "vs_db (snd (check_password auth_env0 now u ''pw'' s)) = vs_db s"
proof -
  obtain c where c: "vs_cache (auth_store0 protocol) = Some c" "ac_enabled c" "ac_ttl c = 300000000000"
    "ac_entries c (computeKey id (uuid_bits 1) ''pw'' (HashPassword sample_prims [1, 2] ''pw'')) = Some \<lparr>ce_valid = True, ce_timestamp = 1\<rparr>"
    using auth_cache0(2) by blast
  have "time_Sub now 1 < 300000000000" using assms(4) by (auto simp: time_Sub_def)
  then show "fst (check_password auth_env0 now u ''pw'' s) = Inr True" "vs_db (snd (check_password auth_env0 now u ''pw'' s)) = vs_db s"
    using assms c by (simp_all add: check_password_def auth_env0_def Auth_Cache.VerifyPassword_def verify_through_def case_prod_beta)
qed

text \<open>A hash of \<open>HashPassword\<close> is long enough to be told apart by a key of the cache.\<close>

lemma hash_long:
  assumes "argon2_sized X"
  shows "32 \<le> length (HashPassword X salt p)"
proof -
  let ?h = "argon2_IDKey X (bytes_of p) salt DefaultArgon2Time DefaultArgon2Memory DefaultArgon2Threads argon2KeyLen"
  have "length (b64_encode ?h) = 44" using assms by (simp add: length_b64 argon2_sized_def argon2KeyLen_def)
  moreover have "length (raw_encode ?h @ replicate ((4 - length (raw_encode ?h) mod 4) mod 4) (CHR ''='')) = length (b64_encode ?h)"
    by (simp only: raw_encode_pad)
  ultimately have "1 \<le> length (raw_encode ?h)" by (simp only: length_append length_replicate)
  moreover have "length (digits 19) = 2" "length (digits 8192) = 4" "length (digits 1) = 1" "length (digits 4) = 1"
    by (simp_all add: digits.simps)
  ultimately show ?thesis
    by (simp add: HashPassword_def HashPasswordWithParams_def Let_def DefaultHashParams_def DefaultArgon2Memory_def
        DefaultArgon2Time_def DefaultArgon2Threads_def argon2_Version_def)
qed

lemma auth_run0: "auth_run auth_env0 (auth_store0 protocol) (stored_hashes (auth_db protocol))"
proof -
  have "auth_run auth_env0 (fresh_store protocol) (stored_hashes (vs_db (fresh_store protocol)))"
  proof (rule auth_run.start)
    show "vs_cache (fresh_store protocol) = None \<or> vs_cache (fresh_store protocol) = Some (NewAuthCache True 300 100)" by (simp add: fresh_store_def)
    show "keys_ok (db_keys (vs_db (fresh_store protocol)))" by (simp add: fresh_store_def auth_db_def empty_db_def keys_ok_def)
    show "hashes_long (stored_hashes (vs_db (fresh_store protocol)))"
      using hash_long [OF sample_prims_ok(2)] by (simp add: hashes_long_def stored_hashes_def fresh_store_def auth_db_def)
  qed
  from auth_run.password [OF this, of "hd (db_users (auth_db protocol))" "[]" 1 "''pw''"] show ?thesis
    by (simp add: auth_store0_def fresh_store_def stored_hashes_def auth_db_def auth_env0_def)
qed

lemma auth_env0_ok: "inj (vx_hash auth_env0)" "uuid_text (vx_uuid_String auth_env0)"
  using uuid_bits_text by (simp_all add: auth_env0_def)

lemma startup_read: "receiveStartupMessage (decode0 u) (pc_io pg_client0) =
    (Inr (StartupMessage (\<lambda>k. if k = ''user'' then u else ''prod'')), (pc_io pg_client0)\<lparr>io_in := [112, 0, 0, 0, 7, 112, 119, 0]\<rparr>)"
  by (simp add: receiveStartupMessage_def pg_client0_def ReadFull_def be_dec_def decode0_def)

lemma password_read: "receivePasswordMessage ((pc_io pg_client0)\<lparr>io_in := [112, 0, 0, 0, 7, 112, 119, 0], io_wok := ws\<rparr>) =
    (Inr ''pw'', (pc_io pg_client0)\<lparr>io_in := [], io_wok := ws\<rparr>)"
  by (simp add: receivePasswordMessage_def pg_client0_def ReadFull_def be_dec_def str_of_def, code_simp)


lemmas auth_eval = auth_db_def empty_db_def Servers.sample_server_def sample_grant_def pc_db_def on_store_def GetUserByUsername_def
  GetServerByName_def find_server_def GetActiveGrant_def populateGrantCounters_def read_stmt_def live_user_def ProtocolSSH_def grant_active_def newest_first_def
  and_then_def count_queries_def sum_bytes_def isAPIKey_def APIKeyPrefixLength_def APIKeyPrefix_def

theorem pg_login_entitled_witness:
  "\<exists>l. fst (authenticate auth_env0 \<lparr>cfg_StoreResults = True, cfg_MaxResultRows = 1, cfg_MaxResultBytes = 1\<rparr> (decode0 ''alice'') (5, 6, 7) empty_heap pg_client0) = Inr l
    \<and> entitled auth_env0 (stored_hashes (auth_db ''postgresql'')) 7 5 6 ''alice'' ''prod'' ''pw'' l (auth_db ''postgresql'')"
proof -
  let ?a = "authenticate auth_env0 \<lparr>cfg_StoreResults = True, cfg_MaxResultRows = 1, cfg_MaxResultBytes = 1\<rparr> (decode0 ''alice'') (5, 6, 7) empty_heap pg_client0"
  have store: "pc_store pg_client0 = auth_store0 ''postgresql''" by (simp add: pg_client0_def)
  have "\<exists>l. fst ?a = Inr l"
    using startup_read [of "''alice''"] password_read [of "[]"] auth_check0(1) [of _ _ "''postgresql''" 7]
    by (simp add: authenticate_def pg_client0_def auth_eval auth_cache0(1) Let_def request_password_def checkQuotas_def NewSession_def case_prod_beta Revoked_def IsZero_def
        pg_check_credentials_def)
  then obtain l where l: "?a = (Inr l, snd ?a)" by (metis prod.collapse)
  have run: "auth_run auth_env0 (pc_store pg_client0) (stored_hashes (auth_db ''postgresql''))" using auth_run0 store by simp
  from pg_login_entitled [OF auth_env0_ok run l] obtain params io pw where w: "receiveStartupMessage (decode0 ''alice'') (pc_io pg_client0) = (Inr (StartupMessage params), io)"
    "fst (receivePasswordMessage (io\<lparr>io_wok := tl (io_wok io)\<rparr>)) = Inr pw"
    "entitled auth_env0 (earlier (pc_store pg_client0) (stored_hashes (auth_db ''postgresql''))) 7 5 6 (params ''user'') (params ''database'') pw l (vs_db (pc_store pg_client0))"
    by auto
  have "io = (pc_io pg_client0)\<lparr>io_in := [112, 0, 0, 0, 7, 112, 119, 0]\<rparr>" "params = (\<lambda>k. if k = ''user'' then ''alice'' else ''prod'')"
    using w(1) startup_read [of "''alice''"] by simp_all
  moreover from this have "pw = ''pw''" using w(2) password_read [of "[]"] by (simp add: pg_client0_def)
  moreover have "earlier (pc_store pg_client0) hs = hs" for hs using store auth_cache0(2) [of "''postgresql''"] by (auto simp: earlier_def)
  ultimately have "entitled auth_env0 (stored_hashes (auth_db ''postgresql'')) 7 5 6 ''alice'' ''prod'' ''pw'' l (auth_db ''postgresql'')"
    using w(3) store auth_cache0(1) by simp
  moreover have "fst ?a = Inr l" by (subst l) simp
  ultimately show ?thesis by blast
qed

theorem mysql_login_entitled_witness:
  "\<exists>l. fst (mysql_login auth_env0 None (5, 6, 7) ''alice'' ''prod'' AUTH_CLEAR_PASSWORD (bytes_of ''pw'') \<lparr>mw_packets = [], mw_writes = [], mw_tls = True, mw_salt = None, mw_out = []\<rparr>
      (auth_store0 ''mysql'')) = Inr (l, ''pw'') \<and> entitled auth_env0 (stored_hashes (auth_db ''mysql'')) 5 6 7 ''alice'' ''prod'' ''pw'' l (auth_db ''mysql'')"
proof -
  let ?m = "mysql_login auth_env0 None (5, 6, 7) ''alice'' ''prod'' AUTH_CLEAR_PASSWORD (bytes_of ''pw'') \<lparr>mw_packets = [], mw_writes = [], mw_tls = True, mw_salt = None, mw_out = []\<rparr>
      (auth_store0 ''mysql'')"
  have "trimTrailingNUL ''pw'' = ''pw''" by (simp add: trimTrailingNUL_def)
  then have "\<exists>l. fst ?m = Inr (l, ''pw'')"
    using auth_check0 [of _ _ "''mysql''" 5]
    by (simp add: mysql_login_def GetCredential_def Validate_def Authenticate_def extractPlaintext_def mysql_verifyCredentials_def OnAuthSuccess_def auth_eval auth_cache0(1) Let_def
        case_prod_beta mysql_checkQuotas_def check_quotas_def IsZero_def IsMySQLFamily_def ProtocolMySQL_def)
  then obtain l where l: "?m = (Inr (l, ''pw''), snd ?m)" by (metis prod.collapse)
  have "earlier (auth_store0 ''mysql'') hs = hs" for hs using auth_cache0(2) [of "''mysql''"] by (auto simp: earlier_def)
  with mysql_login_entitled [OF auth_env0_ok auth_run0 l]
  have "entitled auth_env0 (stored_hashes (auth_db ''mysql'')) 5 6 7 ''alice'' ''prod'' ''pw'' l (auth_db ''mysql'')"
    by (simp add: auth_cache0(1))
  then show ?thesis using l by (metis fst_conv)
qed

theorem pg_login_oracle_witness:
  "pc_errors (snd (authenticate auth_env0 \<lparr>cfg_StoreResults = True, cfg_MaxResultRows = 1, cfg_MaxResultBytes = 1\<rparr> (decode0 ''bob'') (5, 6, 7) empty_heap pg_client0))
    = [''authentication failed'']"
  using pg_login_oracle [OF _ startup_read [of "''bob''"], where E = auth_env0 and cfg = "\<lparr>cfg_StoreResults = True, cfg_MaxResultRows = 1, cfg_MaxResultBytes = 1\<rparr>"
      and clk = "(5, 6, 7)" and hp = empty_heap and database = "(Servers.sample_server ''prod'' ''h'' ''postgresql'' None)\<lparr>srv_UID := 2\<rparr>"]
  by (simp add: pg_client0_def auth_eval auth_cache0(1))

end
