(* ===== verification/User_Groups.thy ===== *)
theory User_Groups
  imports Database
begin

text \<open>
  \<open>internal/store/user_groups.go\<close>: group memberships, the eligibility input of a grant
  definition's scope, and the groups. The index on group names compares them with the database's
  \<open>lower\<close>, a parameter; memberships are pairs of a group and a user with the pair as primary
  key, and go away with their group. The listings sorted by name are left out.
\<close>

section \<open>Groups\<close>

definition group_exists :: "db \<Rightarrow> uuid \<Rightarrow> bool" where
  "group_exists st g \<longleftrightarrow> g \<in> set (map ug_UID (db_groups st))"

definition group_name_taken :: "(string \<Rightarrow> string) \<Rightarrow> db \<Rightarrow> uuid \<Rightarrow> string \<Rightarrow> bool" where
  "group_name_taken lower st uid name \<longleftrightarrow>
     list_ex (\<lambda>g. ug_UID g \<noteq> uid \<and> lower (ug_Name g) = lower name) (db_groups st)"

definition CreateUserGroup ::
  "(string \<Rightarrow> string) \<Rightarrow> user_group \<Rightarrow> uuid \<Rightarrow> time \<Rightarrow> db \<Rightarrow> (store_error + user_group) \<times> db" where
  "CreateUserGroup lower grp newUID now =
     write_stmt (\<lambda>st.
       let result = \<lparr>ug_UID = newUID, ug_Name = ug_Name grp, ug_Description = ug_Description grp,
                     ug_CreatedBy = ug_CreatedBy grp, ug_CreatedAt = now\<rparr> in
       if group_exists st newUID then Inl ErrDB
       else if group_name_taken lower st newUID (ug_Name grp) then Inl ErrUserGroupDuplicate
       else Inr (result, st\<lparr>db_groups := db_groups st @ [result]\<rparr>))"

definition GetUserGroup :: "uuid \<Rightarrow> db \<Rightarrow> (store_error + user_group) \<times> db" where
  "GetUserGroup uid =
     read_stmt (\<lambda>st. case find (\<lambda>g. ug_UID g = uid) (db_groups st) of
        None \<Rightarrow> Inl ErrUserGroupNotFound | Some g \<Rightarrow> Inr g)"

definition UpdateUserGroup :: "(string \<Rightarrow> string) \<Rightarrow> user_group \<Rightarrow> db \<Rightarrow> (store_error + unit) \<times> db" where
  "UpdateUserGroup lower grp =
     write_stmt (\<lambda>st.
       if \<not> group_exists st (ug_UID grp) then Inl ErrUserGroupNotFound
       else if group_name_taken lower st (ug_UID grp) (ug_Name grp) then Inl ErrUserGroupDuplicate
       else Inr ((), st\<lparr>db_groups := update_where (\<lambda>g. ug_UID g = ug_UID grp)
              (\<lambda>g. g\<lparr>ug_Name := ug_Name grp, ug_Description := ug_Description grp\<rparr>) (db_groups st)\<rparr>))"

definition DeleteUserGroup :: "uuid \<Rightarrow> db \<Rightarrow> (store_error + unit) \<times> db" where
  "DeleteUserGroup uid =
     write_stmt (\<lambda>st.
       if \<not> group_exists st uid then Inl ErrUserGroupNotFound
       else Inr ((), st\<lparr>db_groups := filter (\<lambda>g. ug_UID g \<noteq> uid) (db_groups st),
                        db_members := filter (\<lambda>(g, u). g \<noteq> uid) (db_members st)\<rparr>))"

section \<open>Memberships\<close>

definition insert_member :: "uuid \<Rightarrow> uuid \<Rightarrow> (uuid \<times> uuid) list \<Rightarrow> (uuid \<times> uuid) list" where
  "insert_member g u ms = (if (g, u) \<in> set ms then ms else ms @ [(g, u)])"

definition AddUserToGroup :: "uuid \<Rightarrow> uuid \<Rightarrow> db \<Rightarrow> (store_error + unit) \<times> db" where
  "AddUserToGroup groupUID userUID =
     write_stmt (\<lambda>st. if \<not> group_exists st groupUID \<or> \<not> user_exists st userUID then Inl ErrDB
       else Inr ((), st\<lparr>db_members := insert_member groupUID userUID (db_members st)\<rparr>))"

definition RemoveUserFromGroup :: "uuid \<Rightarrow> uuid \<Rightarrow> db \<Rightarrow> (store_error + unit) \<times> db" where
  "RemoveUserFromGroup groupUID userUID =
     write_stmt (\<lambda>st. Inr ((), st\<lparr>db_members := filter (\<lambda>(g, u). \<not> (g = groupUID \<and> u = userUID)) (db_members st)\<rparr>))"

definition ListGroupMemberUIDs :: "uuid \<Rightarrow> db \<Rightarrow> (store_error + uuid list) \<times> db" where
  "ListGroupMemberUIDs groupUID =
     read_stmt (\<lambda>st. Inr (map snd (filter (\<lambda>(g, u). g = groupUID) (db_members st))))"

definition ListUserGroupUIDs :: "uuid \<Rightarrow> db \<Rightarrow> (store_error + uuid list) \<times> db" where
  "ListUserGroupUIDs userUID =
     read_stmt (\<lambda>st. Inr (map fst (filter (\<lambda>(g, u). u = userUID) (db_members st))))"

text \<open>The two replacements delete and reinsert inside one transaction.\<close>

fun insert_members :: "(uuid \<times> uuid) list \<Rightarrow> db \<Rightarrow> (store_error + unit) \<times> db" where
  "insert_members [] st = (Inr (), st)"
| "insert_members ((g, u) # ms) st = and_then (AddUserToGroup g u st) (\<lambda>_ st1. insert_members ms st1)"

definition delete_members :: "(uuid \<times> uuid \<Rightarrow> bool) \<Rightarrow> db \<Rightarrow> (store_error + unit) \<times> db" where
  "delete_members P = write_stmt (\<lambda>st. Inr ((), st\<lparr>db_members := filter (\<lambda>m. \<not> P m) (db_members st)\<rparr>))"

definition SetGroupMembers :: "uuid \<Rightarrow> uuid list \<Rightarrow> db \<Rightarrow> (store_error + unit) \<times> db" where
  "SetGroupMembers groupUID userUIDs =
     RunInTx (\<lambda>st. and_then (delete_members (\<lambda>(g, u). g = groupUID) st) (\<lambda>_ st1.
       insert_members (map (\<lambda>u. (groupUID, u)) userUIDs) st1))"

definition SetUserGroups :: "uuid \<Rightarrow> uuid list \<Rightarrow> db \<Rightarrow> (store_error + unit) \<times> db" where
  "SetUserGroups userUID groupUIDs =
     RunInTx (\<lambda>st. and_then (delete_members (\<lambda>(g, u). u = userUID) st) (\<lambda>_ st1.
       insert_members (map (\<lambda>g. (g, userUID)) groupUIDs) st1))"

section \<open>Lemmas\<close>

lemma AddUserToGroup_Inr:
  assumes "AddUserToGroup g u st = (Inr x, st')"
  shows "set (db_members st') = insert (g, u) (set (db_members st))"
  using write_stmt_Inr [OF assms [unfolded AddUserToGroup_def]]
  by (auto simp: insert_member_def same_tables_select split: if_splits)

lemma insert_members_Inr:
  "insert_members ms st = (Inr x, st') \<Longrightarrow> set (db_members st') = set (db_members st) \<union> set ms"
proof (induction ms arbitrary: st)
  case (Cons m ms)
  obtain g u where m: "m = (g, u)" by force
  with Cons.prems obtain y st1 where "AddUserToGroup g u st = (Inr y, st1)" "insert_members ms st1 = (Inr x, st')"
    by (auto simp: and_then_Inr)
  with Cons.IH [of st1] AddUserToGroup_Inr show ?case by (auto simp: m)
qed simp

lemma delete_members_Inr:
  assumes "delete_members P st = (Inr x, st')"
  shows "set (db_members st') = {m \<in> set (db_members st). \<not> P m}"
  using write_stmt_Inr [OF assms [unfolded delete_members_def]] by (auto simp: same_tables_select)

lemma replace_members:
  assumes "RunInTx (\<lambda>st. and_then (delete_members P st) (\<lambda>_ st1. insert_members ms st1)) st = (Inr x, st')"
  shows "set (db_members st') = {m \<in> set (db_members st). \<not> P m} \<union> set ms"
proof -
  obtain s1 s2 s3 y where "same_tables st s1" "delete_members P s1 = (Inr y, s2)"
    "insert_members ms s2 = (Inr x, s3)" "same_tables s3 st'"
    using RunInTx_Inr [OF assms] by (auto simp: and_then_Inr)
  then show ?thesis
    using delete_members_Inr [of P s1 y s2] insert_members_Inr [of ms s2 x s3]
    by (simp add: same_tables_select)
qed

section \<open>Properties\<close>

text \<open>Replacing a user's groups is atomic and exact: on an error, at whatever statement, no
  table has changed (the user is never left without groups); on success the user is in exactly
  the given groups and nobody else's memberships have changed.\<close>

theorem set_user_groups_atomic:
  "case SetUserGroups userUID groupUIDs st of
     (Inl e, st') \<Rightarrow> same_tables st st'
   | (Inr _, st') \<Rightarrow>
       set (db_members st') = {(g, u) \<in> set (db_members st). u \<noteq> userUID} \<union> {(g, u). g \<in> set groupUIDs \<and> u = userUID}"
proof (cases "SetUserGroups userUID groupUIDs st")
  case (Pair res st')
  then have tx: "RunInTx (\<lambda>st. and_then (delete_members (\<lambda>(g, u). u = userUID) st) (\<lambda>_ st1.
       insert_members (map (\<lambda>g. (g, userUID)) groupUIDs) st1)) st = (res, st')" by (simp add: SetUserGroups_def)
  show ?thesis
  proof (cases res)
    case (Inl e)
    then show ?thesis using Pair tx RunInTx_Inl by auto
  next
    case (Inr x)
    then show ?thesis using Pair replace_members [OF tx [unfolded Inr]] by auto
  qed
qed

text \<open>Deleting a group fails closed: a definition scoped to that group alone keeps the dangling
  identifier, so afterwards it applies to no user, whatever groups the user is in.\<close>

theorem deleted_group_scope_closed:
  assumes "DeleteUserGroup grp st = (Inr u, st1)" and "gd_GroupUIDs d = [grp]"
    and "ListUserGroupUIDs userUID st1 = (Inr gs, st2)"
  shows "\<not> AppliesTo d gs databaseUID"
proof -
  have "(grp, x) \<notin> set (db_members st1)" for x
    using write_stmt_Inr [OF assms(1) [unfolded DeleteUserGroup_def]] by (auto split: if_splits)
  moreover have "gs = map fst (filter (\<lambda>(g, u). u = userUID) (db_members st1))"
    using read_stmt_Inr [OF assms(3) [unfolded ListUserGroupUIDs_def]] by (auto simp: same_tables_select)
  ultimately have "grp \<notin> set gs" by auto
  then show ?thesis using assms(2) by (intro AppliesTo_dangling) auto
qed

definition sample_groups_db :: db where
  "sample_groups_db = \<lparr>db_users = [], db_servers = [], db_grants = [], db_definitions = [], db_requests = [],
     db_connections = [], db_queries = [],
     db_groups = [\<lparr>ug_UID = 9, ug_Name = ''dba'', ug_Description = [], ug_CreatedBy = None, ug_CreatedAt = 0\<rparr>],
     db_members = [(9, 1), (8, 1)], db_audit = [], db_rows = [], db_keys = [],
     db_oauth = [], db_identities = [], db_faults = []\<rparr>"

theorem deleted_group_scope_closed_witness:
  "\<not> AppliesTo \<lparr>gd_UID = 3, gd_Name = ''ro'', gd_Description = [], gd_DurationSeconds = 60, gd_Controls = [],
       gd_MaxQueryCounts = None, gd_MaxBytesTransferred = None, gd_AutoApprove = True, gd_GroupUIDs = [9],
       gd_DatabaseUIDs = [], gd_IsActive = True, gd_CreatedBy = 1, gd_CreatedAt = 0\<rparr> [8] 2"
proof (rule deleted_group_scope_closed)
  let ?st = "sample_groups_db\<lparr>db_groups := [], db_members := [(8, 1)]\<rparr>"
  show "DeleteUserGroup 9 sample_groups_db = (Inr (), ?st)"
    by (simp add: DeleteUserGroup_def write_stmt_def sample_groups_db_def group_exists_def)
  show "ListUserGroupUIDs 1 ?st = (Inr [8], ?st)"
    by (simp add: ListUserGroupUIDs_def read_stmt_def sample_groups_db_def)
qed simp

end
