(* ===== verification/User_Api.thy ===== *)
theory User_Api
  imports Auth_Failures Proxy_Auth User_Groups
begin

text \<open>
  The accounts part of \<open>internal/api\<close>: the authentication and role middlewares of \<open>middleware.go\<close>, the handlers of
  \<open>users.go\<close>, \<open>auth.go\<close> and \<open>keys.go\<close>, and their routes in \<open>server.go\<close>. A handler maps the parsed path parameter and the
  bound body (or the binding error of gin), the context of the middleware and the state of the server to a reply and a new
  state. Random values, generated identifiers and the successive readings of the clock are the record \<open>inputs\<close>. The connection
  URLs that come with a new key, and the HTTP rate limiter between authentication and the handlers (\<open>Rate_Limiter\<close>), which
  only refuses, are left out.
\<close>

section \<open>Replies and state\<close>

datatype users_error =
    EInternalError | EValidationError | ENotFound | EUnauthorized | EForbidden | EInvalidCredentials
  | EPasswordChangeRequired | EWeakPassword | EConflict | EDuplicateName

datatype answer =
    AUser user
  | AUsers "user list"
  | AUserDetail user "user_group list"
  | AToken string user
  | AMe user "api_key option"
  | AKey api_key
  | ANewKey api_key string
  | AKeys "api_key list"
  | AMessage string
  | ANoContent

text \<open>\<open>writeError\<close>, \<open>writeRateLimited\<close> and successful replies.\<close>

datatype reply = Done int answer | Refused int users_error string | Limited int

definition internal_error :: reply where
  "internal_error = Refused 500 EInternalError ''An internal error occurred. Please try again.''"

record users_server =
  us_store :: auth_store
  us_failures :: failure_tracker

abbreviation us_db :: "users_server \<Rightarrow> db" where "us_db s \<equiv> vs_db (us_store s)"

text \<open>What is fixed while the server runs: its configuration and the code it calls.\<close>

record api_env =
  en_auth :: auth_env
  en_scram :: "string \<Rightarrow> bytes \<Rightarrow> int \<Rightarrow> (bytes \<times> bytes) option"
  en_collate :: "string \<Rightarrow> nat"
  en_encryptionKey :: bytes
  en_testMode :: bool
  en_demoMode :: bool

record inputs =
  in_clock :: "nat \<Rightarrow> time"
  in_uid :: uuid
  in_salt :: bytes
  in_scramSalt :: bytes
  in_nonce :: bytes
  in_nonce' :: bytes
  in_key :: key_random

definition with_store :: "(db \<Rightarrow> 'r \<times> db) \<Rightarrow> users_server \<Rightarrow> 'r \<times> users_server" where
  "with_store f s = (let (r, st) = on_store f (us_store s) in (r, s\<lparr>us_store := st\<rparr>))"

definition api_audit :: "string \<Rightarrow> uuid option \<Rightarrow> uuid option \<Rightarrow> (string \<times> detail) list \<Rightarrow> time \<Rightarrow> users_server \<Rightarrow> users_server" where
  "api_audit ty userID performedBy details now s =
     snd (with_store (LogAuditEvent \<lparr>al_EventType = ty, al_UserID = userID, al_PerformedBy = performedBy,
       al_Details = details, al_CreatedAt = now\<rparr> now) s)"

section \<open>Authentication\<close>

definition authMethodBasic :: string where "authMethodBasic = ''basic''"
definition authMethodAPIKey :: string where "authMethodAPIKey = ''api_key''"
definition authMethodWebSession :: string where "authMethodWebSession = ''web_session''"

record auth_context =
  cx_user :: user
  cx_key :: "api_key option"
  cx_method :: string

definition handleBearerAuth :: "api_env \<Rightarrow> inputs \<Rightarrow> string \<Rightarrow> users_server \<Rightarrow> (reply + auth_context) \<times> users_server" where
  "handleBearerAuth E I token s =
     (let (res, st) = verify_key (en_auth E) (in_clock I 0) token (us_store s); s1 = s\<lparr>us_store := st\<rparr> in
      case res of Inl _ \<Rightarrow> (Inl (Refused 401 EUnauthorized ''invalid API key''), s1)
      | Inr apiKey \<Rightarrow>
          (case with_store (GetUserByUID (ak_UserID apiKey)) s1 of
             (Inl _, s2) \<Rightarrow> (Inl (Refused 401 EUnauthorized ''user not found''), s2)
           | (Inr user, s2) \<Rightarrow>
               let s3 = s2\<lparr>us_store := (us_store s2)\<lparr>vs_usage := vs_usage (us_store s2) @ [ak_ID apiKey]\<rparr>\<rparr>;
                   authMethod = (if IsWebSession apiKey then authMethodWebSession else authMethodAPIKey)
               in (Inr \<lparr>cx_user = user, cx_key = Some apiKey, cx_method = authMethod\<rparr>, s3)))"

text \<open>\<open>http.Request.BasicAuth\<close>.\<close>

definition BasicAuth :: "string \<Rightarrow> (string \<times> string) option" where
  "BasicAuth auth =
     (if length auth < 6 \<or> map ascii_lower (take 6 auth) \<noteq> map ascii_lower ''Basic '' then None
      else case b64_decode (drop 6 auth) of None \<Rightarrow> None
      | Some c \<Rightarrow>
          (case Index (str_of c) '':'' of None \<Rightarrow> None
           | Some i \<Rightarrow> Some (take i (str_of c), drop (i + 1) (str_of c))))"

text \<open>The part that the four logins share: the lock-out, the lookup of the user, the check of the password. The lookup and
  the check are arguments.\<close>

datatype login_failure = LfLocked int | LfUnknown | LfWrong

definition guarded_login ::
  "api_env \<Rightarrow> inputs \<Rightarrow> string \<Rightarrow> (db \<Rightarrow> (store_error + user) \<times> db)
   \<Rightarrow> (user \<Rightarrow> auth_store \<Rightarrow> (crypto_error + bool) \<times> auth_store) \<Rightarrow> users_server \<Rightarrow> (login_failure + user) \<times> users_server" where
  "guarded_login E I key lookup check s =
     (let (allowed, retryAfter) = (if en_testMode E then (True, 0) else checkRateLimit (in_clock I 0) (in_clock I 1) key (us_failures s)) in
      if \<not> allowed then (Inl (LfLocked retryAfter), s)
      else case with_store lookup s of
        (Inl _, s1) \<Rightarrow> (Inl LfUnknown, s1\<lparr>us_failures := recordFailure (in_clock I 2) (in_clock I 3) key (us_failures s1)\<rparr>)
      | (Inr user, s1) \<Rightarrow>
          (case check user (us_store s1) of (valid, st) \<Rightarrow>
             let s2 = s1\<lparr>us_store := st\<rparr> in
             if valid \<noteq> Inr True
             then (Inl LfWrong, s2\<lparr>us_failures := recordFailure (in_clock I 2) (in_clock I 3) key (us_failures s2)\<rparr>)
             else (Inr user, s2\<lparr>us_failures := resetFailures key (us_failures s2)\<rparr>)))"

definition verifyPasswordDirect :: "api_env \<Rightarrow> string \<Rightarrow> user \<Rightarrow> auth_store \<Rightarrow> (crypto_error + bool) \<times> auth_store" where
  "verifyPasswordDirect E password user st = (Crypto.VerifyPassword (vx_prims (en_auth E)) (usr_PasswordHash user) password, st)"

definition handleBasicAuth :: "api_env \<Rightarrow> inputs \<Rightarrow> string \<Rightarrow> users_server \<Rightarrow> (reply + auth_context) \<times> users_server" where
  "handleBasicAuth E I header s =
     (case BasicAuth header of None \<Rightarrow> (Inl (Refused 401 EUnauthorized ''authentication required''), s)
      | Some (username, password) \<Rightarrow>
          (case guarded_login E I username (GetUserByUsername username) (\<lambda>u. check_password (en_auth E) (in_clock I 2) u password) s of
             (Inl (LfLocked n), s1) \<Rightarrow> (Inl (Limited n), s1)
           | (Inl _, s1) \<Rightarrow> (Inl (Refused 401 EInvalidCredentials ''invalid credentials''), s1)
           | (Inr user, s1) \<Rightarrow> (Inr \<lparr>cx_user = user, cx_key = None, cx_method = authMethodBasic\<rparr>, s1)))"

definition authMiddleware :: "api_env \<Rightarrow> inputs \<Rightarrow> string \<Rightarrow> users_server \<Rightarrow> (reply + auth_context) \<times> users_server" where
  "authMiddleware E I header s =
     (if HasPrefix header ''Bearer '' then handleBearerAuth E I (TrimPrefix header ''Bearer '') s else handleBasicAuth E I header s)"

text \<open>The middlewares behind it: a refusal, or nothing.\<close>

definition requireRole :: "string \<Rightarrow> auth_context \<Rightarrow> reply option" where
  "requireRole role cx = (if \<not> HasRole (cx_user cx) role then Some (Refused 403 EForbidden (role @ '' access required'')) else None)"

definition requireAdmin :: "auth_context \<Rightarrow> reply option" where
  "requireAdmin = requireRole ''admin''"

definition requireAdminOrViewer :: "auth_context \<Rightarrow> reply option" where
  "requireAdminOrViewer cx =
     (if \<not> IsAdmin (cx_user cx) \<and> \<not> IsViewer (cx_user cx) then Some (Refused 403 EForbidden ''admin or viewer access required'') else None)"

definition requireWebSessionOrBasicAuth :: "auth_context \<Rightarrow> reply option" where
  "requireWebSessionOrBasicAuth cx =
     (if cx_method cx \<noteq> authMethodBasic \<and> cx_method cx \<noteq> authMethodWebSession
      then Some (Refused 403 EForbidden ''API keys cannot perform this operation'') else None)"

definition isAPIKeyAuth :: "auth_context \<Rightarrow> bool" where
  "isAPIKeyAuth cx \<longleftrightarrow> cx_method cx = authMethodAPIKey"

section \<open>\<open>users.go\<close>\<close>

definition setMongoVerifier :: "api_env \<Rightarrow> inputs \<Rightarrow> uuid \<Rightarrow> string \<Rightarrow> time \<Rightarrow> users_server \<Rightarrow> users_server" where
  "setMongoVerifier E I userID password now s =
     snd (with_store (SetUserMongoVerifier (vx_prims (en_auth E)) (en_scram E) (vx_uuid_String (en_auth E)) (in_scramSalt I) (in_nonce I) (in_nonce' I)
       userID password (en_encryptionKey E) now) s)"

record create_user_request =
  cu_Username :: string
  cu_Password :: string
  cu_Roles :: "string list"

definition handleCreateUser :: "api_env \<Rightarrow> inputs \<Rightarrow> string + create_user_request \<Rightarrow> auth_context \<Rightarrow> users_server \<Rightarrow> reply \<times> users_server" where
  "handleCreateUser E I bound cx s =
     (case bound of Inl err \<Rightarrow> (Refused 400 EValidationError (''invalid request: '' @ err), s)
      | Inr req \<Rightarrow>
          (case with_store (CreateUser (cu_Username req) (HashPassword (vx_prims (en_auth E)) (in_salt I) (cu_Password req)) (cu_Roles req) (in_uid I)
                  (in_clock I 4) (in_clock I 5)) s of
             (Inl ErrUserNameConflict, s1) \<Rightarrow> (Refused 409 EDuplicateName ''a user with this username already exists'', s1)
           | (Inl _, s1) \<Rightarrow> (internal_error, s1)
           | (Inr user, s1) \<Rightarrow>
               let s2 = setMongoVerifier E I (usr_UID user) (cu_Password req) (in_clock I 6) s1
               in (Done 200 (AUser user),
                   api_audit ''user.created'' (Some (usr_UID user)) (Some (usr_UID (cx_user cx)))
                     [(''username'', DStr (usr_Username user)), (''roles'', DStrs (usr_Roles user))] (in_clock I 7) s2)))"

definition handleListUsers :: "api_env \<Rightarrow> auth_context \<Rightarrow> users_server \<Rightarrow> reply \<times> users_server" where
  "handleListUsers E cx s =
     (if IsAdmin (cx_user cx) \<or> IsViewer (cx_user cx)
      then case with_store (ListUsers (en_collate E)) s of (Inl _, s1) \<Rightarrow> (internal_error, s1) | (Inr users, s1) \<Rightarrow> (Done 200 (AUsers users), s1)
      else (Done 200 (AUsers [cx_user cx]), s))"

text \<open>A select that joins the memberships of the user with the groups, in order of their names.\<close>

definition ListGroupsForUser :: "(string \<Rightarrow> nat) \<Rightarrow> uuid \<Rightarrow> db \<Rightarrow> (store_error + user_group list) \<times> db" where
  "ListGroupsForUser collate uid =
     read_stmt (\<lambda>st. Inr (sort_key (\<lambda>g. collate (ug_Name g)) (filter (\<lambda>g. (ug_UID g, uid) \<in> set (db_members st)) (db_groups st))))"

definition handleGetUser :: "api_env \<Rightarrow> uuid option \<Rightarrow> users_server \<Rightarrow> reply \<times> users_server" where
  "handleGetUser E param s =
     (case param of None \<Rightarrow> (Refused 400 EValidationError ''invalid user UID'', s)
      | Some uid \<Rightarrow>
          (case with_store (GetUserByUID uid) s of
             (Inl _, s1) \<Rightarrow> (Refused 404 ENotFound ''user not found'', s1)
           | (Inr user, s1) \<Rightarrow>
               (case with_store (ListGroupsForUser (en_collate E) uid) s1 of
                  (Inl _, s2) \<Rightarrow> (internal_error, s2)
                | (Inr groups, s2) \<Rightarrow> (Done 200 (AUserDetail user groups), s2))))"

record update_user_request =
  ur_Password :: "string option"
  ur_Roles :: "string list option"
  ur_GroupUIDs :: "uuid list option"

definition checkSelfUpdateAllowed :: "uuid \<Rightarrow> user \<Rightarrow> update_user_request \<Rightarrow> reply option" where
  "checkSelfUpdateAllowed uid currentUser req =
     (if IsAdmin currentUser then None
      else if uid \<noteq> usr_UID currentUser then Some (Refused 403 EForbidden ''can only update your own user'')
      else if ur_Roles req \<noteq> None then Some (Refused 403 EForbidden ''cannot change roles'')
      else if ur_GroupUIDs req \<noteq> None then Some (Refused 403 EForbidden ''cannot change groups'')
      else None)"

fun checkGroupsExist :: "api_env \<Rightarrow> uuid list \<Rightarrow> users_server \<Rightarrow> reply option \<times> users_server" where
  "checkGroupsExist E [] s = (None, s)"
| "checkGroupsExist E (g # gs) s =
     (case with_store (GetUserGroup g) s of
        (Inl _, s1) \<Rightarrow> (Some (Refused 400 EValidationError (''user group does not exist: '' @ vx_uuid_String (en_auth E) g)), s1)
      | (Inr _, s1) \<Rightarrow> checkGroupsExist E gs s1)"

definition rejectLastAdminDemotion :: "uuid \<Rightarrow> string list option \<Rightarrow> users_server \<Rightarrow> reply option \<times> users_server" where
  "rejectLastAdminDemotion uid roles s =
     (if (case roles of None \<Rightarrow> True | Some rs \<Rightarrow> any_eq rs RoleAdmin) then (None, s)
      else case with_store (GetUserByUID uid) s of
        (Inl _, s1) \<Rightarrow> (Some (Refused 404 ENotFound ''user not found''), s1)
      | (Inr targetUser, s1) \<Rightarrow>
          if \<not> IsAdmin targetUser then (None, s1)
          else case with_store CountAdmins s1 of
            (Inl _, s2) \<Rightarrow> (Some internal_error, s2)
          | (Inr adminCount, s2) \<Rightarrow>
              if adminCount \<le> 1 then (Some (Refused 409 EConflict ''cannot remove the admin role from the last admin user''), s2) else (None, s2))"

definition demo_admin :: "api_env \<Rightarrow> uuid \<Rightarrow> users_server \<Rightarrow> bool \<times> users_server" where
  "demo_admin E uid s =
     (if \<not> en_demoMode E then (False, s)
      else case with_store (GetUserByUID uid) s of (Inl _, s1) \<Rightarrow> (False, s1) | (Inr u, s1) \<Rightarrow> (usr_Username u = ''admin'', s1))"

text \<open>The request as the JSON of an audit event.\<close>

definition request_detail :: "update_user_request \<Rightarrow> detail" where
  "request_detail req = DObj
     [(''password'', case ur_Password req of None \<Rightarrow> DNull | Some p \<Rightarrow> DStr p),
      (''roles'', case ur_Roles req of None \<Rightarrow> DNull | Some rs \<Rightarrow> DStrs rs),
      (''group_uids'', case ur_GroupUIDs req of None \<Rightarrow> DNull | Some gs \<Rightarrow> DUUIDs gs)]"

text \<open>After the checks: the writes and the events.\<close>

definition apply_update :: "api_env \<Rightarrow> inputs \<Rightarrow> uuid \<Rightarrow> update_user_request \<Rightarrow> auth_context \<Rightarrow> users_server \<Rightarrow> reply \<times> users_server" where
  "apply_update E I uid req cx s =
     (case with_store (UpdateUser uid \<lparr>uu_PasswordHash = map_option (HashPassword (vx_prims (en_auth E)) (in_salt I)) (ur_Password req), uu_Roles = ur_Roles req\<rparr>
             (in_clock I 4) (in_clock I 5)) s of
        (Inl _, s1) \<Rightarrow> (internal_error, s1)
      | (Inr _, s1) \<Rightarrow>
          (case (case ur_GroupUIDs req of None \<Rightarrow> (Inr (), s1) | Some gs \<Rightarrow> with_store (SetUserGroups uid gs) s1) of
             (Inl _, s2) \<Rightarrow> (internal_error, s2)
           | (Inr _, s2) \<Rightarrow>
               let s3 = (case ur_Password req of None \<Rightarrow> s2 | Some p \<Rightarrow> setMongoVerifier E I uid p (in_clock I 6) s2);
                   s4 = api_audit ''user.updated'' (Some uid) (Some (usr_UID (cx_user cx))) [(''updated_fields'', request_detail req)] (in_clock I 7) s3;
                   s5 = (case ur_GroupUIDs req of None \<Rightarrow> s4
                         | Some gs \<Rightarrow> api_audit ''user_group.membership_set'' (Some uid) (Some (usr_UID (cx_user cx)))
                             [(''user_uid'', DUUID uid), (''group_uids'', DUUIDs gs)] (in_clock I 8) s4)
               in (Done 200 (AMessage ''user updated''), s5)))"

definition handleUpdateUser :: "api_env \<Rightarrow> inputs \<Rightarrow> uuid option \<Rightarrow> string + update_user_request \<Rightarrow> auth_context \<Rightarrow> users_server \<Rightarrow> reply \<times> users_server" where
  "handleUpdateUser E I param bound cx s =
     (case param of None \<Rightarrow> (Refused 400 EValidationError ''invalid user UID'', s)
      | Some uid \<Rightarrow>
     (case bound of Inl err \<Rightarrow> (Refused 400 EValidationError (''invalid request: '' @ err), s)
      | Inr req \<Rightarrow>
          if ur_Password req \<noteq> None \<and> isAPIKeyAuth cx
          then (Refused 403 EForbidden ''password changes require password authentication'', s)
          else case (if ur_Password req \<noteq> None then demo_admin E uid s else (False, s)) of
            (True, s1) \<Rightarrow> (Refused 403 EForbidden ''cannot change admin password in demo mode'', s1)
          | (False, s1) \<Rightarrow>
              (case checkSelfUpdateAllowed uid (cx_user cx) req of Some r \<Rightarrow> (r, s1)
               | None \<Rightarrow>
              (case checkGroupsExist E (case ur_GroupUIDs req of None \<Rightarrow> [] | Some gs \<Rightarrow> gs) s1 of (Some r, s2) \<Rightarrow> (r, s2)
               | (None, s2) \<Rightarrow>
              (case rejectLastAdminDemotion uid (ur_Roles req) s2 of (Some r, s3) \<Rightarrow> (r, s3)
               | (None, s3) \<Rightarrow> apply_update E I uid req cx s3)))))"

definition handleDeleteUser :: "api_env \<Rightarrow> inputs \<Rightarrow> uuid option \<Rightarrow> auth_context \<Rightarrow> users_server \<Rightarrow> reply \<times> users_server" where
  "handleDeleteUser E I param cx s =
     (case param of None \<Rightarrow> (Refused 400 EValidationError ''invalid user UID'', s)
      | Some uid \<Rightarrow>
          if uid = usr_UID (cx_user cx) then (Refused 400 EValidationError ''cannot delete your own user'', s)
          else case with_store (GetUserByUID uid) s of
            (Inl _, s1) \<Rightarrow> (Refused 404 ENotFound ''user not found'', s1)
          | (Inr userToDelete, s1) \<Rightarrow>
              if en_demoMode E \<and> usr_Username userToDelete = ''admin''
              then (Refused 403 EForbidden ''cannot delete admin user in demo mode'', s1)
              else case (if IsAdmin userToDelete
                         then case with_store CountAdmins s1 of
                                (Inl _, s2) \<Rightarrow> (Some internal_error, s2)
                              | (Inr adminCount, s2) \<Rightarrow>
                                  (if adminCount \<le> 1 then Some (Refused 409 EConflict ''cannot delete the last admin user'') else None, s2)
                         else (None, s1)) of
                (Some r, s2) \<Rightarrow> (r, s2)
              | (None, s2) \<Rightarrow>
                  (case with_store (DeleteUser uid (in_clock I 4) (in_clock I 5)) s2 of
                     (Inl _, s3) \<Rightarrow> (internal_error, s3)
                   | (Inr _, s3) \<Rightarrow>
                       (Done 200 (AMessage ''user deleted''),
                        api_audit ''user.deleted'' (Some uid) (Some (usr_UID (cx_user cx))) [(''user_uid'', DUUID uid)] (in_clock I 7) s3)))"

section \<open>\<open>auth.go\<close>\<close>

definition minPasswordLength :: nat where "minPasswordLength = 8"

text \<open>The requests are user name (empty when absent), password and, for a change, the new password.\<close>

definition handleLogin :: "api_env \<Rightarrow> inputs \<Rightarrow> string + string \<times> string \<Rightarrow> users_server \<Rightarrow> reply \<times> users_server" where
  "handleLogin E I bound s =
     (case bound of Inl _ \<Rightarrow> (Refused 400 EValidationError ''invalid request: username and password required'', s)
      | Inr (username, password) \<Rightarrow>
          (case guarded_login E I username (GetUserByUsername username) (verifyPasswordDirect E password) s of
             (Inl (LfLocked n), s1) \<Rightarrow> (Limited n, s1)
           | (Inl _, s1) \<Rightarrow> (Refused 401 EInvalidCredentials ''invalid credentials'', s1)
           | (Inr user, s1) \<Rightarrow>
               if \<not> HasChangedPassword user
               then (Refused 403 EPasswordChangeRequired ''You must change your password before logging in'', s1)
               else case with_store (CreateWebSession (vx_prims (en_auth E)) (in_key I) (usr_UID user) (in_clock I 4) (in_clock I 5)) s1 of
                 (Inl _, s2) \<Rightarrow> (internal_error, s2)
               | (Inr (apiKey, plainKey), s2) \<Rightarrow> (Done 200 (AToken plainKey user), s2)))"

definition handleLogout :: "inputs \<Rightarrow> auth_context \<Rightarrow> users_server \<Rightarrow> reply \<times> users_server" where
  "handleLogout I cx s =
     (case cx_key cx of None \<Rightarrow> (Done 204 ANoContent, s)
      | Some apiKey \<Rightarrow> (Done 204 ANoContent, snd (with_store (RevokeAPIKey (ak_ID apiKey) (usr_UID (cx_user cx)) (in_clock I 4)) s)))"

definition handleMe :: "auth_context \<Rightarrow> reply" where
  "handleMe cx = Done 200 (AMe (cx_user cx) (cx_key cx))"

text \<open>Common to the three changes of a password: strength, hash, update, SCRAM verifier.\<close>

definition set_password :: "api_env \<Rightarrow> inputs \<Rightarrow> uuid \<Rightarrow> string \<Rightarrow> string \<Rightarrow> users_server \<Rightarrow> reply \<times> users_server" where
  "set_password E I uid newPassword message s =
     (case with_store (UpdateUser uid \<lparr>uu_PasswordHash = Some (HashPassword (vx_prims (en_auth E)) (in_salt I) newPassword), uu_Roles = None\<rparr>
             (in_clock I 4) (in_clock I 5)) s of
        (Inl _, s1) \<Rightarrow> (internal_error, s1)
      | (Inr _, s1) \<Rightarrow> (Done 200 (AMessage message), setMongoVerifier E I uid newPassword (in_clock I 6) s1))"

definition weak_password :: reply where
  "weak_password = Refused 400 EWeakPassword ''Password must be at least 8 characters''"

definition handlePreLoginPasswordChange :: "api_env \<Rightarrow> inputs \<Rightarrow> string + string \<times> string \<times> string \<Rightarrow> users_server \<Rightarrow> reply \<times> users_server" where
  "handlePreLoginPasswordChange E I bound s =
     (case bound of Inl _ \<Rightarrow> (Refused 400 EValidationError ''username, current_password, and new_password are required'', s)
      | Inr (username, currentPassword, newPassword) \<Rightarrow>
          (case guarded_login E I username (GetUserByUsername username) (verifyPasswordDirect E currentPassword) s of
             (Inl (LfLocked n), s1) \<Rightarrow> (Limited n, s1)
           | (Inl _, s1) \<Rightarrow> (Refused 401 EInvalidCredentials ''Invalid username or current password'', s1)
           | (Inr user, s1) \<Rightarrow>
               if length newPassword < minPasswordLength then (weak_password, s1)
               else set_password E I (usr_UID user) newPassword ''Password changed successfully'' s1))"

definition handleChangePassword ::
  "api_env \<Rightarrow> inputs \<Rightarrow> uuid option \<Rightarrow> string + string \<times> string \<times> string \<Rightarrow> users_server \<Rightarrow> reply \<times> users_server" where
  "handleChangePassword E I param bound s =
     (case param of None \<Rightarrow> (Refused 400 EValidationError ''invalid user ID'', s)
      | Some targetUID \<Rightarrow>
     (case bound of Inl _ \<Rightarrow> (Refused 400 EValidationError ''current_password and new_password are required'', s)
      | Inr (username, currentPassword, newPassword) \<Rightarrow>
          let (key, lookup) = (if username \<noteq> [] then (username, GetUserByUsername username) else (vx_uuid_String (en_auth E) targetUID, GetUserByUID targetUID)) in
          (case guarded_login E I key lookup (verifyPasswordDirect E currentPassword) s of
             (Inl (LfLocked n), s1) \<Rightarrow> (Limited n, s1)
           | (Inl LfUnknown, s1) \<Rightarrow>
               (Refused 401 EInvalidCredentials (if username \<noteq> [] then ''Invalid username or current password'' else ''Invalid current password''), s1)
           | (Inl LfWrong, s1) \<Rightarrow> (Refused 401 EInvalidCredentials ''Invalid current password'', s1)
           | (Inr authUser, s1) \<Rightarrow>
               (case (if username = [] then (Inr authUser, s1) else with_store (GetUserByUID targetUID) s1) of
                  (Inl _, s2) \<Rightarrow> (Refused 404 ENotFound ''user not found'', s2)
                | (Inr targetUser, s2) \<Rightarrow>
                    if usr_UID authUser \<noteq> targetUID \<and> \<not> IsAdmin authUser
                    then (Refused 403 EForbidden ''You can only change your own password'', s2)
                    else if length newPassword < minPasswordLength then (weak_password, s2)
                    else set_password E I targetUID newPassword ''Password changed successfully'' s2))))"

definition handleResetPassword ::
  "api_env \<Rightarrow> inputs \<Rightarrow> uuid option \<Rightarrow> string + string \<Rightarrow> auth_context \<Rightarrow> users_server \<Rightarrow> reply \<times> users_server" where
  "handleResetPassword E I param bound cx s =
     (if isAPIKeyAuth cx then (Refused 403 EForbidden ''web session required for password reset'', s)
      else if \<not> IsAdmin (cx_user cx) then (Refused 403 EForbidden ''admin access required'', s)
      else case param of None \<Rightarrow> (Refused 400 EValidationError ''invalid user ID'', s)
      | Some targetUID \<Rightarrow>
          if usr_UID (cx_user cx) = targetUID
          then (Refused 403 EForbidden ''cannot reset your own password; use the password change endpoint instead'', s)
          else case bound of Inl _ \<Rightarrow> (Refused 400 EValidationError ''new_password is required'', s)
          | Inr newPassword \<Rightarrow>
              if length newPassword < minPasswordLength then (weak_password, s)
              else case with_store (GetUserByUID targetUID) s of
                (Inl _, s1) \<Rightarrow> (Refused 404 ENotFound ''user not found'', s1)
              | (Inr _, s1) \<Rightarrow> set_password E I targetUID newPassword ''Password reset successfully'' s1)"

section \<open>\<open>keys.go\<close>\<close>

definition optional_time :: "time option \<Rightarrow> detail" where
  "optional_time t = (case t of None \<Rightarrow> DNull | Some x \<Rightarrow> DTime x)"

definition handleCreateAPIKey :: "api_env \<Rightarrow> inputs \<Rightarrow> string + string \<times> time option \<Rightarrow> auth_context \<Rightarrow> users_server \<Rightarrow> reply \<times> users_server" where
  "handleCreateAPIKey E I bound cx s =
     (case bound of Inl err \<Rightarrow> (Refused 400 EValidationError (''invalid request: '' @ err), s)
      | Inr (name, expiresAt) \<Rightarrow>
          (case with_store (CreateAPIKey (vx_prims (en_auth E)) (in_key I) (usr_UID (cx_user cx)) name expiresAt (en_encryptionKey E) (in_clock I 4) (in_clock I 5)) s of
             (Inl _, s1) \<Rightarrow> (internal_error, s1)
           | (Inr (apiKey, plainKey), s1) \<Rightarrow>
               (Done 201 (ANewKey apiKey plainKey),
                api_audit ''api_key.created'' (Some (usr_UID (cx_user cx))) (Some (usr_UID (cx_user cx)))
                  [(''key_name'', DStr (ak_Name apiKey)), (''key_prefix'', DStr (ak_KeyPrefix apiKey)), (''user_id'', DUUID (usr_UID (cx_user cx))),
                   (''expires_at'', optional_time (ak_ExpiresAt apiKey))] (in_clock I 7) s1)))"

text \<open>The query parameters \<open>include_all\<close>, \<open>all_users\<close> and, when it is given, the parsed \<open>user_id\<close>.\<close>

definition handleListAPIKeys :: "bool \<Rightarrow> bool \<Rightarrow> uuid option option \<Rightarrow> time \<Rightarrow> auth_context \<Rightarrow> users_server \<Rightarrow> reply \<times> users_server" where
  "handleListAPIKeys includeAll allUsers userID now cx s =
     (let f = (\<lambda>owner. \<lparr>kf_UserID = owner, kf_KeyType = Some KeyTypeAPI, kf_IncludeAll = includeAll, kf_Limit = 0, kf_Offset = 0\<rparr>);
          run = (\<lambda>owner. case with_store (ListAPIKeys (f owner) now) s of
             (Inl _, s1) \<Rightarrow> (internal_error, s1) | (Inr keys, s1) \<Rightarrow> (Done 200 (AKeys keys), s1))
      in if \<not> IsAdmin (cx_user cx) then run (Some (usr_UID (cx_user cx)))
         else case userID of
           None \<Rightarrow> run (if allUsers then None else Some (usr_UID (cx_user cx)))
         | Some None \<Rightarrow> (Refused 400 EValidationError ''invalid user_id'', s)
         | Some (Some uid) \<Rightarrow> run (Some uid))"

definition handleGetAPIKey :: "uuid option \<Rightarrow> auth_context \<Rightarrow> users_server \<Rightarrow> reply \<times> users_server" where
  "handleGetAPIKey param cx s =
     (case param of None \<Rightarrow> (Refused 400 EValidationError ''invalid API key ID'', s)
      | Some keyID \<Rightarrow>
          (case with_store (GetAPIKeyByID keyID) s of
             (Inl _, s1) \<Rightarrow> (Refused 404 ENotFound ''API key not found'', s1)
           | (Inr apiKey, s1) \<Rightarrow>
               if \<not> IsAdmin (cx_user cx) \<and> ak_UserID apiKey \<noteq> usr_UID (cx_user cx) then (Refused 403 EForbidden ''access denied'', s1)
               else (Done 200 (AKey apiKey), s1)))"

definition handleRevokeAPIKey :: "inputs \<Rightarrow> uuid option \<Rightarrow> auth_context \<Rightarrow> users_server \<Rightarrow> reply \<times> users_server" where
  "handleRevokeAPIKey I param cx s =
     (case param of None \<Rightarrow> (Refused 400 EValidationError ''invalid API key ID'', s)
      | Some keyID \<Rightarrow>
          (case with_store (GetAPIKeyByID keyID) s of
             (Inl _, s1) \<Rightarrow> (Refused 404 ENotFound ''API key not found'', s1)
           | (Inr apiKey, s1) \<Rightarrow>
               if \<not> IsAdmin (cx_user cx) \<and> ak_UserID apiKey \<noteq> usr_UID (cx_user cx) then (Refused 403 EForbidden ''access denied'', s1)
               else case with_store (RevokeAPIKey keyID (usr_UID (cx_user cx)) (in_clock I 4)) s1 of
                 (Inl _, s2) \<Rightarrow> (internal_error, s2)
               | (Inr _, s2) \<Rightarrow>
                   (Done 204 ANoContent,
                    api_audit ''api_key.revoked'' (Some (ak_UserID apiKey)) (Some (usr_UID (cx_user cx)))
                      [(''key_name'', DStr (ak_Name apiKey)), (''key_prefix'', DStr (ak_KeyPrefix apiKey)), (''revoked_by'', DUUID (usr_UID (cx_user cx)))]
                      (in_clock I 7) s2)))"

section \<open>Routes\<close>

datatype open_route =
    RLogin "string + string \<times> string"
  | RPreLoginPassword "string + string \<times> string \<times> string"
  | RChangePassword "uuid option" "string + string \<times> string \<times> string"

datatype user_route =
    RLogout
  | RMe
  | RCreateUser "string + create_user_request"
  | RListUsers
  | RGetUser "uuid option"
  | RUpdateUser "uuid option" "string + update_user_request"
  | RDeleteUser "uuid option"
  | RResetPassword "uuid option" "string + string"
  | RCreateKey "string + string \<times> time option"
  | RListKeys bool bool "uuid option option"
  | RGetKey "uuid option"
  | RRevokeKey "uuid option"

fun serve_open :: "api_env \<Rightarrow> inputs \<Rightarrow> open_route \<Rightarrow> users_server \<Rightarrow> reply \<times> users_server" where
  "serve_open E I (RLogin b) s = handleLogin E I b s"
| "serve_open E I (RPreLoginPassword b) s = handlePreLoginPasswordChange E I b s"
| "serve_open E I (RChangePassword u b) s = handleChangePassword E I u b s"

text \<open>The middlewares a route names.\<close>

fun route_guard :: "user_route \<Rightarrow> auth_context \<Rightarrow> reply option" where
  "route_guard (RCreateUser b) = requireAdmin"
| "route_guard (RDeleteUser u) = requireAdmin"
| "route_guard (RResetPassword u b) = requireAdmin"
| "route_guard (RCreateKey b) = requireWebSessionOrBasicAuth"
| "route_guard (RRevokeKey u) = requireWebSessionOrBasicAuth"
| "route_guard _ = (\<lambda>_. None)"

fun handle_route :: "api_env \<Rightarrow> inputs \<Rightarrow> user_route \<Rightarrow> auth_context \<Rightarrow> users_server \<Rightarrow> reply \<times> users_server" where
  "handle_route E I RLogout cx s = handleLogout I cx s"
| "handle_route E I RMe cx s = (handleMe cx, s)"
| "handle_route E I (RCreateUser b) cx s = handleCreateUser E I b cx s"
| "handle_route E I RListUsers cx s = handleListUsers E cx s"
| "handle_route E I (RGetUser u) cx s = handleGetUser E u s"
| "handle_route E I (RUpdateUser u b) cx s = handleUpdateUser E I u b cx s"
| "handle_route E I (RDeleteUser u) cx s = handleDeleteUser E I u cx s"
| "handle_route E I (RResetPassword u b) cx s = handleResetPassword E I u b cx s"
| "handle_route E I (RCreateKey b) cx s = handleCreateAPIKey E I b cx s"
| "handle_route E I (RListKeys a b u) cx s = handleListAPIKeys a b u (in_clock I 4) cx s"
| "handle_route E I (RGetKey u) cx s = handleGetAPIKey u cx s"
| "handle_route E I (RRevokeKey u) cx s = handleRevokeAPIKey I u cx s"

definition serve :: "api_env \<Rightarrow> inputs \<Rightarrow> string \<Rightarrow> user_route \<Rightarrow> users_server \<Rightarrow> reply \<times> users_server" where
  "serve E I header r s =
     (case authMiddleware E I header s of (Inl refusal, s1) \<Rightarrow> (refusal, s1)
      | (Inr cx, s1) \<Rightarrow> (case route_guard r cx of Some refusal \<Rightarrow> (refusal, s1) | None \<Rightarrow> handle_route E I r cx s1))"

section \<open>Requests\<close>

datatype request = ROpen open_route | RUser string user_route

fun respond :: "api_env \<Rightarrow> inputs \<Rightarrow> request \<Rightarrow> users_server \<Rightarrow> reply \<times> users_server" where
  "respond E I (ROpen r) s = serve_open E I r s"
| "respond E I (RUser header r) s = serve E I header r s"

fun respond_all :: "api_env \<Rightarrow> (inputs \<times> request) list \<Rightarrow> users_server \<Rightarrow> users_server" where
  "respond_all E [] s = s"
| "respond_all E ((I, req) # reqs) s = respond_all E reqs (snd (respond E I req s))"

end
