(* ===== verification/User_Authority.thy ===== *)
theory User_Authority
  imports User_Api
begin

text \<open>
  Who may change accounts and roles through the accounts API, that an administrator always remains, and what an update
  of a password leaves in the audit log.
\<close>

section \<open>What decides who may do what\<close>

text \<open>The accounts that exist and their roles.\<close>

definition authority :: "db \<Rightarrow> (uuid \<times> string list \<times> time option) list" where
  "authority st = map (\<lambda>u. (usr_UID u, usr_Roles u, usr_DeletedAt u)) (db_users st)"

text \<open>A store operation that leaves them as they were in \<open>st\<close>.\<close>

definition keeps_authority :: "db \<Rightarrow> 'r \<times> db \<Rightarrow> bool" where
  "keeps_authority st res \<longleftrightarrow> authority (snd res) = authority st"

named_theorems harmless

lemma same_authority: "same_tables st st' \<Longrightarrow> authority st' = authority st"
  by (simp add: authority_def same_tables_select)

lemma read_harmless [harmless]: "authority st1 = authority st \<Longrightarrow> keeps_authority st (read_stmt f st1)"
  using same_authority [of st1 "snd (read_stmt f st1)"] read_stmt_same [of f st1 "fst (read_stmt f st1)"] by (simp add: keeps_authority_def)

lemma write_harmless:
  assumes "\<And>s x s'. f s = Inr (x, s') \<Longrightarrow> authority s' = authority s" and "authority st1 = authority st"
  shows "keeps_authority st (write_stmt f st1)"
proof -
  obtain ok st2 where o: "stmt st1 = (ok, st2)" by fastforce
  then have a: "authority st2 = authority st" using same_authority [OF stmt_same [OF o]] assms(2) by simp
  show ?thesis
  proof (cases "f st2")
    case (Inr r)
    then show ?thesis using o a assms(1) [of st2 "fst r" "snd r"] by (auto simp: write_stmt_def keeps_authority_def split: prod.split)
  qed (use o a in \<open>simp add: write_stmt_def keeps_authority_def\<close>)
qed

lemma and_then_harmless [harmless]:
  assumes "keeps_authority st r" and "\<And>x st1. authority st1 = authority st \<Longrightarrow> keeps_authority st (k x st1)"
  shows "keeps_authority st (and_then r k)"
  using assms by (auto simp: and_then_def keeps_authority_def split: prod.split sum.split)

lemma tx_harmless [harmless]:
  assumes "\<And>st2. authority st2 = authority st \<Longrightarrow> keeps_authority st (body st2)" and "authority st1 = authority st"
  shows "keeps_authority st (RunInTx body st1)"
proof -
  obtain ok st2 where o: "stmt st1 = (ok, st2)" by fastforce
  then have a: "authority st2 = authority st" using same_authority [OF stmt_same [OF o]] assms(2) by simp
  obtain r st3 where b: "body st2 = (r, st3)" by fastforce
  then have c: "authority st3 = authority st" using assms(1) [OF a] by (simp add: keeps_authority_def)
  obtain ok4 st4 where d: "stmt st3 = (ok4, st4)" by fastforce
  then have e: "authority st4 = authority st" using same_authority [OF stmt_same [OF d]] c by simp
  have f: "authority (st2\<lparr>db_faults := fs\<rparr>) = authority st" for fs using a by (simp add: authority_def)
  show ?thesis using o b d a e f by (cases r) (simp_all add: RunInTx_def keeps_authority_def)
qed

lemma lift_crypto_harmless [harmless]: "authority st1 = authority st \<Longrightarrow> keeps_authority st (lift_crypto r st1)"
  by (simp add: lift_crypto_def keeps_authority_def split: sum.split)

lemma updated_authority:
  assumes "\<And>u. (usr_UID (f u), usr_Roles (f u), usr_DeletedAt (f u)) = (usr_UID u, usr_Roles u, usr_DeletedAt u)"
  shows "authority (st\<lparr>db_users := update_where P f (db_users st)\<rparr>) = authority st"
  using assms by (simp add: authority_def update_where_def)

lemma lookups_harmless [harmless]:
  assumes "authority st1 = authority st"
  shows "keeps_authority st (GetUserByUID u st1)" "keeps_authority st (GetUserByUsername n st1)" "keeps_authority st (CountAdmins st1)"
    "keeps_authority st (GetUserGroup g st1)" "keeps_authority st (GetAPIKeyByID k st1)" "keeps_authority st (ListAPIKeys f now st1)"
    "keeps_authority st (ListUsers c st1)" "keeps_authority st (ListGroupsForUser c u st1)"
  unfolding GetUserByUID_def GetUserByUsername_def CountAdmins_def GetUserGroup_def GetAPIKeyByID_def ListAPIKeys_def ListUsers_def ListGroupsForUser_def
  by (rule read_harmless [OF assms])+

lemma writes_harmless [harmless]:
  assumes "authority st1 = authority st"
  shows "keeps_authority st (LogAuditEvent ev now st1)" "keeps_authority st (RevokeAPIKey k b now st1)"
    "keeps_authority st (delete_members P st1)" "keeps_authority st (insert_key R k' st1)"
    "keeps_authority st (UpdateUser u \<lparr>uu_PasswordHash = h, uu_Roles = None\<rparr> now now' st1)"
    "keeps_authority st (persist_salts u d now st1)" "keeps_authority st (AddUserToGroup g m st1)"
  unfolding AddUserToGroup_def LogAuditEvent_def RevokeAPIKey_def delete_members_def insert_key_def UpdateUser_def persist_salts_def
  by ((rule write_harmless [OF _ assms], auto simp: authority_def Let_def update_where_def set_columns_def split: if_splits)+)

lemma return_harmless [harmless]: "authority st1 = authority st \<Longrightarrow> keeps_authority st (r, st1)"
  by (simp add: keeps_authority_def)

lemma insert_members_harmless [harmless]: "authority st1 = authority st \<Longrightarrow> keeps_authority st (insert_members ms st1)"
proof (induction ms arbitrary: st1)
  case (Cons m ms)
  show ?case
    by (cases m) (auto simp: Cons intro!: harmless)
qed (simp add: keeps_authority_def)

lemma groups_harmless [harmless]: "authority st1 = authority st \<Longrightarrow> keeps_authority st (SetUserGroups u gs st1)"
  unfolding SetUserGroups_def by (intro harmless)

lemma salts_harmless [harmless]: "authority st1 = authority st \<Longrightarrow> keeps_authority st (EnsureUserOracleSalts u d now st1)"
  unfolding EnsureUserOracleSalts_def salts_finish_def
  by (intro harmless | assumption | (auto split: option.split intro!: harmless))+

lemma attach_harmless [harmless]:
  assumes "authority st1 = authority st"
  shows "keeps_authority st (attachO5LogonVerifiers X R now key ek k st1)"
proof -
  have "keeps_authority st (EnsureUserOracleSalts (ak_UserID k) (kr_user_salts R) now st1)" by (rule salts_harmless [OF assms])
  then show ?thesis
    by (auto simp: attachO5LogonVerifiers_def keeps_authority_def lift_crypto_def split: prod.split sum.split)
qed

lemma keys_harmless [harmless]:
  assumes "authority st1 = authority st"
  shows "keeps_authority st (CreateAPIKey X R u n e ek now now' st1)" and "keeps_authority st (CreateWebSession X R u now now' st1)"
  using assms unfolding CreateAPIKey_def CreateWebSession_def create_key_def Let_def split_beta
  by (auto intro!: harmless)

lemma mongo_harmless [harmless]: "authority st1 = authority st \<Longrightarrow> keeps_authority st (SetUserMongoVerifier X scram us salt n n' u pw ek now st1)"
proof -
  have "keeps_authority st (persistUserMongoVerifier u creds now st2)" if "authority st2 = authority st" for creds st2
    unfolding persistUserMongoVerifier_def lock_user_def using that
    by (intro harmless write_harmless) (auto simp: updated_authority)
  then show "authority st1 = authority st \<Longrightarrow> ?thesis"
    unfolding SetUserMongoVerifier_def by (auto intro!: harmless simp: Let_def split: option.split)
qed

text \<open>The same of the server.\<close>

definition quiet :: "users_server \<Rightarrow> users_server \<Rightarrow> bool" where
  "quiet s s' \<longleftrightarrow> authority (us_db s') = authority (us_db s)"

lemma quiet_refl [simp]: "quiet s s"
  by (simp add: quiet_def)

lemma quiet_trans [trans]: "quiet a b \<Longrightarrow> quiet b c \<Longrightarrow> quiet a c"
  by (simp add: quiet_def)

lemma quiet_preorder: "reflp quiet" "transp quiet"
  by (auto simp: reflp_def transp_def quiet_def)

lemma quiet_store: "keeps_authority (us_db s) (f (us_db s)) \<Longrightarrow> with_store f s = (r, s') \<Longrightarrow> quiet s s'"
  by (auto simp: with_store_def on_store_def quiet_def keeps_authority_def split: prod.splits)

lemma quiet_store_snd: "keeps_authority (us_db s) (f (us_db s)) \<Longrightarrow> quiet s (snd (with_store f s))"
  using quiet_store [of s f "fst (with_store f s)"] by simp

lemma quiet_audit: "quiet s (api_audit ty u b d now s)"
  unfolding api_audit_def by (rule quiet_store_snd) (rule harmless refl)+

lemma quiet_mongo: "quiet s (setMongoVerifier E I u p now s)"
  unfolding setMongoVerifier_def by (rule quiet_store_snd) (rule harmless refl)+

lemma check_quiet:
  "vs_db (snd (check_password A now u p st)) = vs_db st" "vs_db (snd (verifyPasswordDirect E p u st)) = vs_db st"
  by (simp_all add: check_password_def verifyPasswordDirect_def split_beta split: option.split)

lemma login_quiet:
  assumes "guarded_login E I key lookup check s = (r, s')" and "\<And>u st. vs_db (snd (check u st)) = vs_db st"
    and "\<And>st. keeps_authority st (lookup st)"
  shows "quiet s s'"
proof -
  obtain l s1 where l: "with_store lookup s = (l, s1)" by fastforce
  then have q: "quiet s s1" by (intro quiet_store [where f = lookup] assms(3))
  have "us_db (s1\<lparr>us_store := snd (check u (us_store s1)), us_failures := t\<rparr>) = us_db s1" for u t using assms(2) by simp
  then show ?thesis using assms(1) l q
    by (auto simp: guarded_login_def quiet_def split_beta Let_def split: if_splits sum.splits)
qed

lemma bearer_quiet: "handleBearerAuth E I token s = (r, s') \<Longrightarrow> quiet s s'"
proof -
  assume a: "handleBearerAuth E I token s = (r, s')"
  obtain k st where v: "verify_key (en_auth E) (in_clock I 0) token (us_store s) = (k, st)" by fastforce
  have "same_tables (us_db s) (vs_db st)"
    using v VerifyAPIKey_found(1) by (auto simp: verify_key_def split: prod.splits)
  then have q: "quiet s (s\<lparr>us_store := st\<rparr>)" by (simp add: quiet_def same_authority)
  show ?thesis
  proof (cases k)
    case (Inl e)
    then show ?thesis using a v q by (simp add: handleBearerAuth_def)
  next
    case (Inr key)
    obtain u s2 where u: "with_store (GetUserByUID (ak_UserID key)) (s\<lparr>us_store := st\<rparr>) = (u, s2)" by fastforce
    then have "quiet s s2" using quiet_trans [OF q quiet_store [OF _ u]] by (simp add: harmless)
    then show ?thesis using a v Inr u by (auto simp: handleBearerAuth_def quiet_def Let_def split: sum.splits)
  qed
qed

lemma middleware_quiet: "authMiddleware E I header s = (r, s') \<Longrightarrow> quiet s s'"
proof -
  have basic: "quiet s s'" if "handleBasicAuth E I header s = (r, s')"
  proof (cases "BasicAuth header")
    case (Some c)
    obtain n p where c: "c = (n, p)" by (cases c)
    obtain l s1 where l: "guarded_login E I n (GetUserByUsername n) (\<lambda>u. check_password (en_auth E) (in_clock I 2) u p) s = (l, s1)" by fastforce
    have "quiet s s1" by (rule login_quiet [OF l check_quiet(1)]) (simp add: harmless)
    then show ?thesis using that Some c l by (auto simp: handleBasicAuth_def split: sum.splits login_failure.splits)
  qed (use that in \<open>simp add: handleBasicAuth_def\<close>)
  then show "authMiddleware E I header s = (r, s') \<Longrightarrow> quiet s s'"
    using bearer_quiet by (auto simp: authMiddleware_def split: if_splits)
qed

lemma set_password_quiet: "quiet s (snd (set_password E I u pw msg s))"
proof -
  obtain r s1 where u: "with_store (UpdateUser u \<lparr>uu_PasswordHash = Some (HashPassword (vx_prims (en_auth E)) (in_salt I) pw), uu_Roles = None\<rparr>
      (in_clock I 4) (in_clock I 5)) s = (r, s1)" by fastforce
  then have "quiet s s1" by (rule quiet_store [rotated]) (simp add: harmless)
  then show ?thesis using u quiet_trans [OF _ quiet_mongo] by (auto simp: set_password_def split: sum.split)
qed

text \<open>No route that is open to everyone changes an account's roles or existence.\<close>

lemma open_quiet: "quiet s (snd (serve_open E I r s))"
proof -
  have l: "quiet s s1" if "guarded_login E I key lookup (verifyPasswordDirect E p) s = (res, s1)" "\<And>st. keeps_authority st (lookup st)" for key lookup p res s1
    using login_quiet [OF that(1) check_quiet(2) that(2)] .
  show ?thesis
  proof (cases r)
    case (RLogin b)
    show ?thesis
    proof (cases b)
      case (Inr c)
      obtain n p where c: "c = (n, p)" by (cases c)
      obtain res s1 where g: "guarded_login E I n (GetUserByUsername n) (verifyPasswordDirect E p) s = (res, s1)" by fastforce
      have q: "quiet s s1" by (rule l [OF g]) (simp add: harmless)
      have w: "quiet s s2" if "with_store (CreateWebSession X R u now now') s1 = (k, s2)" for X R u now now' k s2
        using quiet_trans [OF q quiet_store [OF _ that]] by (simp add: harmless)
      show ?thesis using g q w by (auto simp: RLogin Inr c handleLogin_def split: sum.split login_failure.split prod.split)
    qed (simp add: RLogin handleLogin_def)
  next
    case (RPreLoginPassword b)
    show ?thesis
    proof (cases b)
      case (Inr c)
      obtain n p w where c: "c = (n, p, w)" by (cases c)
      obtain res s1 where g: "guarded_login E I n (GetUserByUsername n) (verifyPasswordDirect E p) s = (res, s1)" by fastforce
      have q: "quiet s s1" by (rule l [OF g]) (simp add: harmless)
      show ?thesis using g q quiet_trans [OF q set_password_quiet]
        by (auto simp: RPreLoginPassword Inr c handlePreLoginPasswordChange_def split: sum.split login_failure.split)
    qed (simp add: RPreLoginPassword handlePreLoginPasswordChange_def)
  next
    case (RChangePassword u b)
    show ?thesis
    proof (cases "u = None \<or> (\<exists>e. b = Inl e)")
      case False
      then obtain t n p w where c: "u = Some t" "b = Inr (n, p, w)" by (cases b) auto
      define key lookup where "key = (if n \<noteq> [] then n else vx_uuid_String (en_auth E) t)"
        and "lookup = (if n \<noteq> [] then GetUserByUsername n else GetUserByUID t)"
      obtain res s1 where g: "guarded_login E I key lookup (verifyPasswordDirect E p) s = (res, s1)" by fastforce
      have q: "quiet s s1" by (rule l [OF g]) (simp add: lookup_def harmless)
      have t: "quiet s s2" if "with_store (GetUserByUID t) s1 = (k, s2)" for k s2
        using quiet_trans [OF q quiet_store [OF _ that]] by (simp add: harmless)
      have p: "quiet s (snd (set_password E I a b c s2))" if "quiet s s2" for a b c s2 using quiet_trans [OF that set_password_quiet] .
      have pair: "(if n \<noteq> [] then (n, GetUserByUsername n) else (vx_uuid_String (en_auth E) t, GetUserByUID t)) = (key, lookup)"
        by (simp add: key_def lookup_def)
      show ?thesis using g q t p
        by (simp add: RChangePassword c handleChangePassword_def pair) (auto split: sum.split login_failure.split prod.split)
    qed (auto simp: RChangePassword handleChangePassword_def split: option.split)
  qed
qed

section \<open>Who sends a request\<close>

text \<open>The header proves who sends the request: a live user whose key, neither revoked nor expired, or whose
  user name and password it has; the password verifies against the stored hash or an earlier one the cache can answer for.\<close>

definition authenticated :: "api_env \<Rightarrow> (uuid \<times> string) list \<Rightarrow> inputs \<Rightarrow> string \<Rightarrow> user \<Rightarrow> db \<Rightarrow> bool" where
  "authenticated E past I header u st \<longleftrightarrow> u \<in> set (db_users st) \<and> live_user u \<and>
     (if HasPrefix header ''Bearer ''
      then list_ex (\<lambda>k. ak_UserID k = usr_UID u \<and> ak_RevokedAt k = None \<and> \<not> IsExpired (in_clock I 0) k
             \<and> Crypto.VerifyPassword (vx_prims (en_auth E)) (ak_KeyHash k) (TrimPrefix header ''Bearer '') = Inr True) (db_keys st)
      else case BasicAuth header of None \<Rightarrow> False
        | Some (username, password) \<Rightarrow> usr_Username u = username \<and> password_ok (en_auth E) past u password)"

lemma with_store_lookup:
  assumes "with_store f s = (r, s')" and "\<And>st. same_tables st (snd (f st))"
  shows "same_store (us_store s) (us_store s')" and "f (us_db s) = (r, us_db s')" and "us_failures s' = us_failures s"
  using assms(1) on_store_lookup [OF _ assms(2), of "us_store s" r "us_store s'"] by (auto simp: with_store_def split: prod.splits)

lemma uid_lookup:
  assumes "with_store (GetUserByUID uid) s = (r, s')"
  shows "same_store (us_store s) (us_store s')" and "r = Inr u \<Longrightarrow> u \<in> set (db_users (us_db s)) \<and> usr_UID u = uid \<and> live_user u"
proof -
  have "same_tables st (snd (GetUserByUID uid st))" for st
    unfolding GetUserByUID_def by (rule read_stmt_same) (rule prod.collapse [symmetric])
  note l = with_store_lookup [OF assms this]
  show "same_store (us_store s) (us_store s')" by (rule l(1))
  assume "r = Inr u"
  with l(2) have "GetUserByUID uid (us_db s) = (Inr u, us_db s')" by simp
  from read_stmt_Inr [OF this [unfolded GetUserByUID_def]] show "u \<in> set (db_users (us_db s)) \<and> usr_UID u = uid \<and> live_user u"
    by (auto simp: same_tables_select live_user_def split: option.splits dest!: find_SomeD)
qed

lemma bearer_sound:
  assumes "cache_ok (en_auth E) hs (us_store s)" and "handleBearerAuth E I token s = (Inr cx, s')"
  shows "cx_user cx \<in> set (db_users (us_db s)) \<and> live_user (cx_user cx) \<and>
    list_ex (\<lambda>k. ak_UserID k = usr_UID (cx_user cx) \<and> ak_RevokedAt k = None \<and> \<not> IsExpired (in_clock I 0) k
      \<and> Crypto.VerifyPassword (vx_prims (en_auth E)) (ak_KeyHash k) token = Inr True) (db_keys (us_db s))"
proof -
  from assms(2) obtain k st u s2 where v: "verify_key (en_auth E) (in_clock I 0) token (us_store s) = (Inr k, st)"
    and u: "with_store (GetUserByUID (ak_UserID k)) (s\<lparr>us_store := st\<rparr>) = (Inr u, s2)" and cx: "cx_user cx = u"
    by (auto simp: handleBearerAuth_def Let_def split: prod.splits sum.splits)
  note key = verify_key_sound [OF assms(1) v]
  note user = uid_lookup(2) [OF u refl]
  have users: "db_users (vs_db st) = db_users (us_db s)" using key(2) by (simp add: same_tables_select)
  have "u \<in> set (db_users (us_db s)) \<and> usr_UID u = ak_UserID k \<and> live_user u" using user by (simp add: users)
  then show ?thesis using key(1) by (auto simp: cx list_ex_iff)
qed

lemma basic_sound:
  assumes "cache_ok (en_auth E) hs (us_store s)" and "handleBasicAuth E I header s = (Inr cx, s')"
  shows "cx_user cx \<in> set (db_users (us_db s)) \<and> live_user (cx_user cx) \<and>
    (\<exists>n p. BasicAuth header = Some (n, p) \<and> usr_Username (cx_user cx) = n
      \<and> password_ok (en_auth E) (earlier (us_store s) hs) (cx_user cx) p)"
proof -
  from assms(2) obtain n p where b: "BasicAuth header = Some (n, p)" by (auto simp: handleBasicAuth_def split: option.splits)
  from assms(2) b have g: "guarded_login E I n (GetUserByUsername n) (\<lambda>u. check_password (en_auth E) (in_clock I 2) u p) s = (Inr (cx_user cx), s')"
    by (auto simp: handleBasicAuth_def split: prod.splits sum.splits login_failure.splits)
  from g obtain s1 where l: "with_store (GetUserByUsername n) s = (Inr (cx_user cx), s1)"
    and c: "fst (check_password (en_auth E) (in_clock I 2) (cx_user cx) p (us_store s1)) = Inr True"
    by (auto simp: guarded_login_def Let_def split: prod.splits sum.splits if_splits)
  then have o: "on_store (GetUserByUsername n) (us_store s) = (Inr (cx_user cx), us_store s1)" by (auto simp: with_store_def split: prod.splits)
  note u = user_lookup(1) [OF o] user_lookup(2) [OF o refl]
  have "cx_user cx \<in> set (db_users (vs_db (us_store s1)))" using u same_tables_select(1) [of "us_db s" "us_db s1"] by (simp add: same_store_def)
  then have "password_ok (en_auth E) (earlier (us_store s) hs) (cx_user cx) p"
    using check_password_sound [OF _ c] assms(1) cache_ok_same [OF u(1)] by simp
  then show ?thesis using u(2) b by simp
qed

lemma middleware_sound:
  assumes "cache_ok (en_auth E) hs (us_store s)" and "authMiddleware E I header s = (Inr cx, s')"
  shows "authenticated E (earlier (us_store s) hs) I header (cx_user cx) (us_db s)"
proof (cases "HasPrefix header ''Bearer ''")
  case True
  then show ?thesis using bearer_sound [OF assms(1), of I "TrimPrefix header ''Bearer ''" cx s'] assms(2)
    by (simp add: authMiddleware_def authenticated_def)
next
  case False
  then show ?thesis using basic_sound [OF assms(1), of I header cx s'] assms(2) by (auto simp: authMiddleware_def authenticated_def)
qed

section \<open>Only administrators change roles\<close>

lemma groups_exist_quiet: "quiet s (snd (checkGroupsExist E gs s))"
proof (induction gs arbitrary: s)
  case (Cons g gs)
  obtain r s1 where w: "with_store (GetUserGroup g) s = (r, s1)" by fastforce
  have "quiet s s1" by (rule quiet_store [OF _ w]) (simp add: harmless)
  then show ?case using w quiet_trans [OF _ Cons.IH] by (auto split: sum.split)
qed simp

lemma demotion_quiet: "quiet s (snd (rejectLastAdminDemotion uid roles s))"
proof -
  obtain r s1 where w: "with_store (GetUserByUID uid) s = (r, s1)" by fastforce
  obtain c s2 where v: "with_store CountAdmins s1 = (c, s2)" by fastforce
  have q: "quiet s s1" "quiet s1 s2" by (rule quiet_store [OF _ w] quiet_store [OF _ v]; simp add: harmless)+
  then show ?thesis using w v quiet_trans by (auto simp: rejectLastAdminDemotion_def split: sum.split)
qed

lemma demo_quiet: "quiet s (snd (demo_admin E uid s))"
proof -
  obtain r s1 where w: "with_store (GetUserByUID uid) s = (r, s1)" by fastforce
  have "quiet s s1" by (rule quiet_store [OF _ w]) (simp add: harmless)
  then show ?thesis using w by (auto simp: demo_admin_def split: sum.split)
qed

text \<open>What follows the write of the row.\<close>

lemma update_tail_quiet:
  assumes "with_store (UpdateUser uid \<lparr>uu_PasswordHash = map_option (HashPassword (vx_prims (en_auth E)) (in_salt I)) (ur_Password req), uu_Roles = ur_Roles req\<rparr>
             (in_clock I 4) (in_clock I 5)) s = (r, s1)"
  shows "quiet s1 (snd (apply_update E I uid req cx s))"
proof -
  obtain g s2 where g: "(case ur_GroupUIDs req of None \<Rightarrow> (Inr (), s1) | Some gs \<Rightarrow> with_store (SetUserGroups uid gs) s1) = (g, s2)" by fastforce
  have q: "quiet s1 s2"
    using g quiet_store [of s1 "SetUserGroups uid (the (ur_GroupUIDs req))"] by (auto simp: harmless split: option.splits)
  have m: "quiet s1 (case ur_Password req of None \<Rightarrow> s2 | Some p \<Rightarrow> setMongoVerifier E I uid p (in_clock I 6) s2)"
    using quiet_trans [OF q quiet_mongo] q by (simp split: option.split)
  have a: "quiet s1 (api_audit ty u b d now t)" if "quiet s1 t" for ty u b d now t using quiet_trans [OF that quiet_audit] .
  show ?thesis using assms g q m a [OF a [OF m]] a [OF m]
    by (cases r; cases g) (auto simp: apply_update_def Let_def split: option.split)
qed

lemma plain_update_quiet:
  assumes "ur_Roles req = None"
  shows "quiet s (snd (apply_update E I uid req cx s))"
proof -
  obtain r s1 where u: "with_store (UpdateUser uid \<lparr>uu_PasswordHash = map_option (HashPassword (vx_prims (en_auth E)) (in_salt I)) (ur_Password req), uu_Roles = ur_Roles req\<rparr>
      (in_clock I 4) (in_clock I 5)) s = (r, s1)" by fastforce
  have "quiet s s1" by (rule quiet_store [OF _ u]) (simp add: assms harmless)
  then show ?thesis using quiet_trans update_tail_quiet [OF u] by blast
qed

text \<open>The checks before the write: all of them refuse with an error, or the write follows. What they do to the state, they do
  by the three functions that read.\<close>

definition succeeds :: "reply \<Rightarrow> bool" where
  "succeeds r \<longleftrightarrow> (case r of Done n a \<Rightarrow> True | _ \<Rightarrow> False)"

lemma checks_refuse:
  "checkSelfUpdateAllowed uid u req = Some x \<Longrightarrow> \<not> succeeds x"
  "checkGroupsExist E gs s = (Some x, s') \<Longrightarrow> \<not> succeeds x"
  "rejectLastAdminDemotion uid roles s = (Some x, s') \<Longrightarrow> \<not> succeeds x"
proof -
  show "checkSelfUpdateAllowed uid u req = Some x \<Longrightarrow> \<not> succeeds x" by (auto simp: checkSelfUpdateAllowed_def succeeds_def split: if_splits)
  show "checkGroupsExist E gs s = (Some x, s') \<Longrightarrow> \<not> succeeds x"
    by (induction gs arbitrary: s) (auto simp: succeeds_def split: prod.splits sum.splits)
  show "rejectLastAdminDemotion uid roles s = (Some x, s') \<Longrightarrow> \<not> succeeds x"
    by (auto simp: rejectLastAdminDemotion_def succeeds_def internal_error_def split: prod.splits sum.splits if_splits)
qed

lemma update_checks:
  assumes R: "reflp R" "transp R"
    and reads: "\<And>u t. R t (snd (demo_admin E u t))" "\<And>gs t. R t (snd (checkGroupsExist E gs t))" "\<And>u rs t. R t (snd (rejectLastAdminDemotion u rs t))"
  obtains (refused) "R s (snd (handleUpdateUser E I param bound cx s))" and "\<not> succeeds (fst (handleUpdateUser E I param bound cx s))"
  | (applied) uid req s2 s3 where "param = Some uid" and "bound = Inr req" and "R s s2" and "R s s3"
      and "checkSelfUpdateAllowed uid (cx_user cx) req = None"
      and "rejectLastAdminDemotion uid (ur_Roles req) s2 = (None, s3)"
      and "handleUpdateUser E I param bound cx s = apply_update E I uid req cx s3"
proof (cases "\<exists>uid req. param = Some uid \<and> bound = Inr req \<and> \<not> (ur_Password req \<noteq> None \<and> isAPIKeyAuth cx)")
  case False
  then have "snd (handleUpdateUser E I param bound cx s) = s \<and> \<not> succeeds (fst (handleUpdateUser E I param bound cx s))"
    by (auto simp: handleUpdateUser_def succeeds_def split: option.split sum.split)
  then show ?thesis using refused R(1) by (simp add: reflpD)
next
  case True
  then obtain uid req where b: "param = Some uid" "bound = Inr req" "\<not> (ur_Password req \<noteq> None \<and> isAPIKeyAuth cx)" by blast
  obtain d s1 where d: "(if ur_Password req \<noteq> None then demo_admin E uid s else (False, s)) = (d, s1)" by fastforce
  have q1: "R s s1" using d reads(1) [of s uid] R(1) by (auto simp: reflpD split: if_splits)
  obtain g s2 where g: "checkGroupsExist E (case ur_GroupUIDs req of None \<Rightarrow> [] | Some gs \<Rightarrow> gs) s1 = (g, s2)" by fastforce
  have q2: "R s s2" using transpD [OF R(2) q1 reads(2) [of s1 "case ur_GroupUIDs req of None \<Rightarrow> [] | Some gs \<Rightarrow> gs"]] g by simp
  obtain r s3 where r: "rejectLastAdminDemotion uid (ur_Roles req) s2 = (r, s3)" by fastforce
  have q3: "R s s3" using transpD [OF R(2) q2 reads(3) [of s2 uid "ur_Roles req"]] r by simp
  have h: "handleUpdateUser E I param bound cx s =
      (if d then (Refused 403 EForbidden ''cannot change admin password in demo mode'', s1)
       else case checkSelfUpdateAllowed uid (cx_user cx) req of Some x \<Rightarrow> (x, s1)
       | None \<Rightarrow> (case g of Some x \<Rightarrow> (x, s2) | None \<Rightarrow> (case r of Some x \<Rightarrow> (x, s3) | None \<Rightarrow> apply_update E I uid req cx s3)))"
    unfolding handleUpdateUser_def b(1,2) option.case sum.case if_not_P [OF b(3)] d by (cases d) (simp_all add: g r split: option.split)
  show ?thesis
  proof (cases "d \<or> checkSelfUpdateAllowed uid (cx_user cx) req \<noteq> None \<or> g \<noteq> None \<or> r \<noteq> None")
    case True
    have no: "\<not> succeeds (Refused a b c)" for a b c by (simp add: succeeds_def)
    have "checkSelfUpdateAllowed uid (cx_user cx) req = Some x \<Longrightarrow> \<not> succeeds x" "g = Some x \<Longrightarrow> \<not> succeeds x" "r = Some x \<Longrightarrow> \<not> succeeds x" for x
      using checks_refuse(1) [of uid "cx_user cx" req x] checks_refuse(2) [of E _ s1 x s2] checks_refuse(3) [of uid "ur_Roles req" s2 x s3] g r by blast+
    with True have "R s (snd (handleUpdateUser E I param bound cx s))" "\<not> succeeds (fst (handleUpdateUser E I param bound cx s))"
      unfolding h using q1 q2 q3 no by (auto split: option.split)
    then show ?thesis by (rule refused)
  next
    case False
    then have "handleUpdateUser E I param bound cx s = apply_update E I uid req cx s3" unfolding h by simp
    then show ?thesis using applied [OF b(1,2) q2 q3] False r by auto
  qed
qed

fun account_route :: "user_route \<Rightarrow> bool" where
  "account_route (RCreateUser b) = True"
| "account_route (RUpdateUser u b) = True"
| "account_route (RDeleteUser u) = True"
| "account_route _ = False"

lemma other_route_quiet:
  assumes "\<not> account_route r"
  shows "quiet s (snd (handle_route E I r cx s))"
proof -
  have st: "quiet s' s1" if "with_store f s' = (x, s1)" "keeps_authority (us_db s') (f (us_db s'))" for f s' x s1
    using quiet_store [OF that(2,1)] .
  have au: "quiet s (api_audit ty u b d now t)" if "quiet s t" for ty u b d now t using quiet_trans [OF that quiet_audit] .
  show ?thesis
  proof (cases r)
    case (RResetPassword u b)
    have look: "quiet s s1" if "with_store (GetUserByUID t) s = (x, s1)" for t x s1 by (rule st [OF that]) (simp add: harmless)
    show ?thesis using look quiet_trans [OF look set_password_quiet]
      by (auto simp: RResetPassword handleResetPassword_def split: option.split sum.split prod.split)
  next
    case (RCreateKey b)
    obtain k s1 where k: "with_store (CreateAPIKey (vx_prims (en_auth E)) (in_key I) (usr_UID (cx_user cx)) (fst (projr b)) (snd (projr b)) (en_encryptionKey E) (in_clock I 4) (in_clock I 5)) s = (k, s1)"
      by fastforce
    have "quiet s s1" by (rule st [OF k]) (simp add: harmless)
    then show ?thesis using k au by (cases b) (auto simp: RCreateKey handleCreateAPIKey_def split: sum.split prod.split)
  next
    case (RRevokeKey u)
    show ?thesis
    proof (cases u)
      case (Some uid)
      obtain k s1 where k: "with_store (GetAPIKeyByID uid) s = (k, s1)" by fastforce
      obtain v s2 where v: "with_store (RevokeAPIKey uid (usr_UID (cx_user cx)) (in_clock I 4)) s1 = (v, s2)" by fastforce
      have q: "quiet s s1" "quiet s1 s2" by (rule st [OF k] st [OF v]; simp add: harmless)+
      then show ?thesis using k v au [OF quiet_trans [OF q]] quiet_trans [OF q]
        by (auto simp: RRevokeKey Some handleRevokeAPIKey_def split: sum.split)
    qed (simp add: RRevokeKey handleRevokeAPIKey_def)
  next
    case RLogout
    show ?thesis unfolding RLogout handle_route.simps handleLogout_def
      by (auto split: option.split intro!: quiet_store_snd harmless)
  next
    case RListUsers
    obtain k s1 where k: "with_store (ListUsers (en_collate E)) s = (k, s1)" by fastforce
    have "quiet s s1" by (rule st [OF k]) (simp add: harmless)
    then show ?thesis using k by (auto simp: RListUsers handleListUsers_def split: sum.split)
  next
    case (RGetUser u)
    show ?thesis
    proof (cases u)
      case (Some uid)
      obtain k s1 where k: "with_store (GetUserByUID uid) s = (k, s1)" by fastforce
      obtain v s2 where v: "with_store (ListGroupsForUser (en_collate E) uid) s1 = (v, s2)" by fastforce
      have q: "quiet s s1" "quiet s1 s2" by (rule st [OF k] st [OF v]; simp add: harmless)+
      then show ?thesis using k v quiet_trans [OF q] by (auto simp: RGetUser Some handleGetUser_def split: sum.split)
    qed (simp add: RGetUser handleGetUser_def)
  next
    case (RListKeys a b u)
    have "quiet s (snd (case with_store (ListAPIKeys f now) s of (Inl _, s1) \<Rightarrow> (internal_error, s1) | (Inr keys, s1) \<Rightarrow> (Done 200 (AKeys keys), s1)))" for f now
      using st [of "ListAPIKeys f now" s] by (auto simp: harmless split: prod.split sum.split)
    then show ?thesis by (simp add: RListKeys handleListAPIKeys_def Let_def split: option.split)
  next
    case (RGetKey u)
    show ?thesis
    proof (cases u)
      case (Some uid)
      obtain k s1 where k: "with_store (GetAPIKeyByID uid) s = (k, s1)" by fastforce
      have "quiet s s1" by (rule st [OF k]) (simp add: harmless)
      then show ?thesis using k by (auto simp: RGetKey Some handleGetAPIKey_def split: sum.split)
    qed (simp add: RGetKey handleGetAPIKey_def)
  qed (use assms in simp_all)
qed

lemma route_quiet:
  assumes "\<not> IsAdmin (cx_user cx)" and "route_guard r cx = None"
  shows "quiet s (snd (handle_route E I r cx s))"
proof (cases r)
  case (RUpdateUser u b)
  show ?thesis
  proof (cases rule: update_checks [where R = quiet and E = E and s = s and I = I and param = u and bound = b and cx = cx, OF quiet_preorder demo_quiet groups_exist_quiet demotion_quiet, case_names refused applied])
    case (applied uid req s2 s3)
    then have "ur_Roles req = None" using assms(1) by (auto simp: checkSelfUpdateAllowed_def split: if_splits)
    from quiet_trans [OF applied(4) plain_update_quiet [OF this]] show ?thesis using applied(7) by (simp add: RUpdateUser)
  qed (simp add: RUpdateUser)
qed (use assms other_route_quiet [of r s E I cx] in \<open>simp_all add: requireAdmin_def requireRole_def IsAdmin_def RoleAdmin_def\<close>)


section \<open>The last administrator\<close>

text \<open>Accounts have distinct identifiers and one of them is a live administrator.\<close>

definition admin_row :: "uuid \<times> string list \<times> time option \<Rightarrow> bool" where
  "admin_row = (\<lambda>(u, rs, del). RoleAdmin \<in> set rs \<and> del = None)"

definition administered :: "db \<Rightarrow> bool" where
  "administered st \<longleftrightarrow> distinct (map usr_UID (db_users st)) \<and> list_ex admin_row (authority st)"

lemma administered_quiet: "quiet s s' \<Longrightarrow> administered (us_db s) \<Longrightarrow> administered (us_db s')"
proof -
  have "map usr_UID (db_users st) = map fst (authority st)" for st by (simp add: authority_def)
  then show "quiet s s' \<Longrightarrow> administered (us_db s) \<Longrightarrow> administered (us_db s')" by (simp add: administered_def quiet_def)
qed

lemma two_admins:
  assumes "length (filter P xs) > 1" and "distinct (map f xs)"
  shows "\<exists>x\<in>set xs. P x \<and> f x \<noteq> k"
proof -
  from assms(1) obtain x y ys where p: "filter P xs = x # y # ys" by (cases "filter P xs"; cases "tl (filter P xs)") auto
  have "distinct (map f (filter P xs))" using assms(2) by (rule distinct_map_filter)
  then have "f x \<noteq> f y" by (simp add: p)
  moreover have "x \<in> set (filter P xs)" "y \<in> set (filter P xs)" by (simp_all add: p)
  ultimately show ?thesis by (cases "f x = k") auto
qed

text \<open>A change of the row of one live user keeps an administrator when that row stays one or another one remains.\<close>

lemma administered_update:
  assumes "administered st" and "\<And>u. usr_UID (f u) = usr_UID u"
    and "(\<forall>u. admin_row (usr_UID u, usr_Roles u, usr_DeletedAt u) \<longrightarrow> admin_row (usr_UID (f u), usr_Roles (f u), usr_DeletedAt (f u)))
      \<or> (\<exists>u\<in>set (db_users st). admin_row (usr_UID u, usr_Roles u, usr_DeletedAt u) \<and> usr_UID u \<noteq> uid)"
  shows "administered (st\<lparr>db_users := update_where (\<lambda>u. usr_UID u = uid \<and> live_user u) f (db_users st)\<rparr>)"
proof -
  let ?g = "\<lambda>u. if usr_UID u = uid \<and> live_user u then f u else u"
  have "usr_UID \<circ> ?g = usr_UID" using assms(2) by (auto simp: fun_eq_iff)
  moreover have "\<exists>u\<in>set (db_users st). admin_row (usr_UID (?g u), usr_Roles (?g u), usr_DeletedAt (?g u))"
    using assms(1,3) by (fastforce simp: administered_def authority_def list_ex_iff)
  ultimately show ?thesis using assms(1) by (simp add: administered_def authority_def update_where_def list_ex_iff)
qed

lemma write_user_effect:
  assumes "with_store (write_stmt f) s = (r, s')"
  shows "same_tables (us_db s) (us_db s') \<or> (\<exists>st x. same_tables (us_db s) st \<and> f st = Inr (x, us_db s'))"
  using assms stmt_same [of "us_db s"]
  by (auto simp: with_store_def on_store_def write_stmt_def split: prod.splits sum.splits if_splits)

lemma administered_same: "same_tables st st' \<Longrightarrow> administered st' = administered st"
  by (simp add: administered_def same_authority same_tables_select)

definition live_admin :: "user \<Rightarrow> bool" where
  "live_admin u \<longleftrightarrow> live_user u \<and> RoleAdmin \<in> set (usr_Roles u)"

lemma live_admin_row: "admin_row (usr_UID u, usr_Roles u, usr_DeletedAt u) \<longleftrightarrow> live_admin u"
  by (auto simp: admin_row_def live_admin_def live_user_def)

text \<open>What the check of the administrators leaves: the row is not one of them, or there is another.\<close>

lemma counted_admins:
  assumes "with_store CountAdmins s = (Inr n, s')" and "n > 1" and "administered (us_db s)"
  shows "\<exists>u\<in>set (db_users (us_db s)). live_admin u \<and> usr_UID u \<noteq> uid"
proof -
  have "same_tables st (snd (CountAdmins st))" for st
    unfolding CountAdmins_def by (rule read_stmt_same) (rule prod.collapse [symmetric])
  from with_store_lookup(2) [OF assms(1) this] have "CountAdmins (us_db s) = (Inr n, us_db s')" .
  from read_stmt_Inr [OF this [unfolded CountAdmins_def]]
  have "n = int (length (filter live_admin (db_users (us_db s))))" using same_tables_select(1) [of "us_db s" "us_db s'"] by (simp add: live_admin_def [abs_def])
  then show ?thesis using two_admins [of live_admin "db_users (us_db s)" usr_UID uid] assms(2,3) by (simp add: administered_def)
qed

lemma unchecked_target:
  assumes "u \<in> set (db_users st)" and "usr_UID u = uid" and "\<not> live_admin u" and "administered st"
  shows "\<exists>v\<in>set (db_users st). live_admin v \<and> usr_UID v \<noteq> uid"
proof -
  obtain v where v: "v \<in> set (db_users st)" "live_admin v"
    using assms(4) by (auto simp: administered_def authority_def list_ex_iff live_admin_row)
  moreover have "usr_UID v \<noteq> uid"
    using assms v inj_onD [of usr_UID "set (db_users st)" v u] by (auto simp: administered_def distinct_map)
  ultimately show ?thesis by blast
qed

lemma admins_same: "same_store (us_store s) (us_store s') \<Longrightarrow> administered (us_db s') = administered (us_db s) \<and> db_users (us_db s') = db_users (us_db s)"
  by (auto simp: same_store_def administered_same same_tables_select)

lemma demotion_pass:
  assumes "rejectLastAdminDemotion uid (Some rs) s = (None, s')" and "administered (us_db s)"
  shows "RoleAdmin \<in> set rs \<or> (\<exists>u\<in>set (db_users (us_db s')). live_admin u \<and> usr_UID u \<noteq> uid)"
proof (cases "RoleAdmin \<in> set rs")
  case False
  with assms(1) obtain u s1 where u: "with_store (GetUserByUID uid) s = (Inr u, s1)"
    and c: "if \<not> IsAdmin u then s' = s1 else \<exists>n. with_store CountAdmins s1 = (Inr n, s') \<and> n > 1"
    by (auto simp: rejectLastAdminDemotion_def split: prod.splits sum.splits if_splits)
  note l = uid_lookup(2) [OF u refl] admins_same [OF uid_lookup(1) [OF u]]
  show ?thesis
  proof (cases "IsAdmin u")
    case False
    then have "\<not> live_admin u" by (simp add: live_admin_def IsAdmin_def HasRole_def)
    from unchecked_target [OF _ _ this, of "us_db s" uid] show ?thesis using l assms(2) c False by auto
  next
    case True
    with c obtain n where n: "with_store CountAdmins s1 = (Inr n, s')" "n > 1" by auto
    have "same_tables st (snd (CountAdmins st))" for st
      unfolding CountAdmins_def by (rule read_stmt_same) (rule prod.collapse [symmetric])
    from admins_same [OF with_store_lookup(1) [OF n(1) this]] show ?thesis
      using counted_admins [OF n, of uid] l assms(2) by simp
  qed
qed simp

lemma update_administered:
  assumes "with_store (UpdateUser uid \<lparr>uu_PasswordHash = h, uu_Roles = rs\<rparr> now now') s = (r, s')" and "administered (us_db s)"
    and "case rs of None \<Rightarrow> True | Some x \<Rightarrow> RoleAdmin \<in> set x \<or> (\<exists>u\<in>set (db_users (us_db s)). live_admin u \<and> usr_UID u \<noteq> uid)"
  shows "administered (us_db s')"
  using write_user_effect [OF assms(1) [unfolded UpdateUser_def]]
proof
  assume "same_tables (us_db s) (us_db s')"
  then show ?thesis using assms(2) administered_same by simp
next
  assume "\<exists>st x. same_tables (us_db s) st \<and> (let hit = \<lambda>u. usr_UID u = uid \<and> live_user u
      in if case uu_Roles \<lparr>uu_PasswordHash = h, uu_Roles = rs\<rparr> of None \<Rightarrow> False | Some rs \<Rightarrow> \<not> list_all (\<lambda>r. r \<in> user_roles) rs then Inl ErrDB
         else if filter hit (db_users st) = [] then Inl ErrUserNotFound
         else Inr ((), st\<lparr>db_users := update_where hit (set_columns \<lparr>uu_PasswordHash = h, uu_Roles = rs\<rparr> now now') (db_users st)\<rparr>)) = Inr (x, us_db s')"
  then obtain st where st: "same_tables (us_db s) st"
    "us_db s' = st\<lparr>db_users := update_where (\<lambda>u. usr_UID u = uid \<and> live_user u) (set_columns \<lparr>uu_PasswordHash = h, uu_Roles = rs\<rparr> now now') (db_users st)\<rparr>"
    by (auto simp: Let_def split: if_splits)
  have "administered st" "db_users st = db_users (us_db s)" using st(1) assms(2) by (simp_all add: administered_same same_tables_select)
  then show ?thesis unfolding st(2) using assms(3)
    by (intro administered_update) (auto simp: set_columns_def live_admin_row admin_row_def live_admin_def live_user_def split: option.splits)
qed

lemma administered_append:
  assumes "administered st" and "usr_UID u \<notin> usr_UID ` set (db_users st)"
  shows "administered (st\<lparr>db_users := db_users st @ [u]\<rparr>)"
  using assms by (simp add: administered_def authority_def)

lemma write_administered:
  assumes "with_store (write_stmt f) s = (r, s')" and "administered (us_db s)"
    and "\<And>st x st'. administered st \<Longrightarrow> f st = Inr (x, st') \<Longrightarrow> administered st'"
  shows "administered (us_db s')"
  using write_user_effect [OF assms(1)]
proof (elim disjE exE conjE)
  assume "same_tables (us_db s) (us_db s')"
  then show ?thesis using assms(2) administered_same by blast
next
  fix st x assume "same_tables (us_db s) st" and f: "f st = Inr (x, us_db s')"
  then have "administered st" using assms(2) administered_same by blast
  then show ?thesis using f by (rule assms(3))
qed

lemma guarded_append:
  assumes "(if uid \<in> set (map usr_UID (db_users st)) \<or> P then Inl e else if Q then Inl e' else Inr (x, st\<lparr>db_users := db_users st @ [u]\<rparr>)) = Inr (y, st')"
    and "administered st" and "usr_UID u = uid"
  shows "administered st'"
proof -
  from assms(1,3) have "usr_UID u \<notin> usr_UID ` set (db_users st)" and st': "st' = st\<lparr>db_users := db_users st @ [u]\<rparr>" by (auto split: if_splits)
  from administered_append [OF assms(2) this(1)] show ?thesis unfolding st' .
qed

lemma create_administered:
  assumes "with_store (CreateUser n h rs uid now now') s = (r, s')" and "administered (us_db s)"
  shows "administered (us_db s')"
proof (rule write_administered [OF assms(1) [unfolded CreateUser_def Let_def] assms(2)])
  fix st x st' assume a: "administered st"
    and f: "(if uid \<in> set (map usr_UID (db_users st)) \<or> \<not> list_all (\<lambda>r. r \<in> user_roles) (if length rs = 0 then [RoleConnector] else rs) then Inl ErrDB
      else if list_ex (\<lambda>u. live_user u \<and> usr_Username u = n) (db_users st) then Inl ErrUserNameConflict
      else Inr (\<lparr>usr_UID = uid, usr_Username = n, usr_PasswordHash = h, usr_Roles = (if length rs = 0 then [RoleConnector] else rs),
          usr_RateLimitExempt = False, usr_PasswordChangedAt = None, usr_CreatedAt = now, usr_UpdatedAt = now', usr_DeletedAt = None, usr_ProtocolData = None\<rparr>,
        st\<lparr>db_users := db_users st @ [\<lparr>usr_UID = uid, usr_Username = n, usr_PasswordHash = h, usr_Roles = (if length rs = 0 then [RoleConnector] else rs),
          usr_RateLimitExempt = False, usr_PasswordChangedAt = None, usr_CreatedAt = now, usr_UpdatedAt = now', usr_DeletedAt = None, usr_ProtocolData = None\<rparr>]\<rparr>))
      = Inr (x, st')"
  show "administered st'" by (rule guarded_append [OF f a]) simp
qed

lemma delete_administered:
  assumes "with_store (DeleteUser uid now now') s = (r, s')" and "administered (us_db s)"
    and "\<exists>u\<in>set (db_users (us_db s)). live_admin u \<and> usr_UID u \<noteq> uid"
  shows "administered (us_db s')"
proof -
  let ?del = "\<lambda>st. st\<lparr>db_users := update_where (\<lambda>u. usr_UID u = uid \<and> live_user u) (\<lambda>u. u\<lparr>usr_DeletedAt := Some now'\<rparr>) (db_users st)\<rparr>"
  have one: "db_users (snd (delete_identities uid now st)) = db_users st" for st
  proof -
    obtain ok st1 where o: "stmt st = (ok, st1)" by fastforce
    show ?thesis using same_tables_select(1) [OF stmt_same [OF o]] by (simp add: delete_identities_def write_stmt_def o)
  qed
  have two: "db_users (snd (delete_user_row uid now' st)) = db_users st \<or> db_users (snd (delete_user_row uid now' st)) = db_users (?del st)" for st
  proof -
    obtain ok st1 where o: "stmt st = (ok, st1)" by fastforce
    show ?thesis using same_tables_select(1) [OF stmt_same [OF o]] by (simp add: delete_user_row_def write_stmt_def Let_def o)
  qed
  have body: "db_users (snd (and_then (delete_identities uid now st) (\<lambda>_ st1. delete_user_row uid now' st1))) = db_users st
      \<or> db_users (snd (and_then (delete_identities uid now st) (\<lambda>_ st1. delete_user_row uid now' st1))) = db_users (?del st)" for st
    using one [of st] two [of "snd (delete_identities uid now st)"] by (auto simp: and_then_def split: prod.split sum.split)
  have "db_users (us_db s') = db_users (us_db s) \<or> db_users (us_db s') = db_users (?del (us_db s))"
  proof -
    obtain ok st1 where o: "stmt (us_db s) = (ok, st1)" by fastforce
    obtain x st2 where b: "and_then (delete_identities uid now st1) (\<lambda>_ st1. delete_user_row uid now' st1) = (x, st2)" by fastforce
    obtain ok3 st3 where c: "stmt st2 = (ok3, st3)" by fastforce
    have "us_db s' = snd (RunInTx (\<lambda>st. and_then (delete_identities uid now st) (\<lambda>_ st1. delete_user_row uid now' st1)) (us_db s))"
      using assms(1) by (auto simp: with_store_def on_store_def DeleteUser_def split: prod.splits)
    then show ?thesis using o b c body [of st1] same_tables_select(1) [OF stmt_same [OF o]] same_tables_select(1) [OF stmt_same [OF c]]
      by (cases x) (auto simp: RunInTx_def split: if_splits)
  qed
  moreover have "administered (?del (us_db s))"
    using assms(2,3) by (intro administered_update) (auto simp: live_admin_row)
  ultimately show ?thesis using assms(2) by (auto simp: administered_def authority_def)
qed

lemma handleCreateUser_administered: "administered (us_db s) \<Longrightarrow> administered (us_db (snd (handleCreateUser E I b cx s)))"
proof (cases b)
  case (Inr req)
  assume a: "administered (us_db s)"
  obtain r s1 where c: "with_store (CreateUser (cu_Username req) (HashPassword (vx_prims (en_auth E)) (in_salt I) (cu_Password req)) (cu_Roles req) (in_uid I)
      (in_clock I 4) (in_clock I 5)) s = (r, s1)" by fastforce
  have a1: "administered (us_db s1)" by (rule create_administered [OF c a])
  have "administered (us_db (api_audit ty u p d now (setMongoVerifier E I v w now' s1)))" for ty u p d now v w now'
    by (rule administered_quiet [OF quiet_trans [OF quiet_mongo quiet_audit] a1])
  then show ?thesis using c a1 by (cases r) (auto simp: Inr handleCreateUser_def split: store_error.split)
qed (simp add: handleCreateUser_def)

lemma handleUpdateUser_administered:
  assumes "administered (us_db s)"
  shows "administered (us_db (snd (handleUpdateUser E I param b cx s)))"
proof (cases rule: update_checks [where R = quiet and E = E and s = s and I = I and param = param and bound = b and cx = cx, OF quiet_preorder demo_quiet groups_exist_quiet demotion_quiet, case_names refused applied])
  case refused
  then show ?thesis using administered_quiet assms by blast
next
  case (applied uid req s2 s3)
  note q = applied(3,6)
  obtain r s4 where u: "with_store (UpdateUser uid \<lparr>uu_PasswordHash = map_option (HashPassword (vx_prims (en_auth E)) (in_salt I)) (ur_Password req), uu_Roles = ur_Roles req\<rparr>
      (in_clock I 4) (in_clock I 5)) s3 = (r, s4)" by fastforce
  have "administered (us_db s4)"
  proof (rule update_administered [OF u])
    show "administered (us_db s3)" by (rule administered_quiet [OF applied(4) assms])
    show "case ur_Roles req of None \<Rightarrow> True | Some x \<Rightarrow> RoleAdmin \<in> set x \<or> (\<exists>u\<in>set (db_users (us_db s3)). live_admin u \<and> usr_UID u \<noteq> uid)"
    proof (cases "ur_Roles req")
      case (Some x)
      from demotion_pass [OF q(2) [unfolded Some] administered_quiet [OF q(1) assms]] show ?thesis by (simp add: Some)
    qed simp
  qed
  from administered_quiet [OF update_tail_quiet [OF u] this] show ?thesis using applied(7) by simp
qed

lemma handleDeleteUser_administered:
  assumes "administered (us_db s)"
  shows "administered (us_db (snd (handleDeleteUser E I param cx s)))"
proof (cases param)
  case (Some uid)
  obtain r s1 where u: "with_store (GetUserByUID uid) s = (r, s1)" by fastforce
  note same = admins_same [OF uid_lookup(1) [OF u]]
  show ?thesis
  proof (cases r)
    case (Inl e)
    then show ?thesis using u assms same by (simp add: Some handleDeleteUser_def)
  next
    case (Inr v)
    obtain g s2 where g: "(if IsAdmin v then case with_store CountAdmins s1 of (Inl _, s2) \<Rightarrow> (Some internal_error, s2)
        | (Inr n, s2) \<Rightarrow> (if n \<le> 1 then Some (Refused 409 EConflict ''cannot delete the last admin user'') else None, s2) else (None, s1)) = (g, s2)"
      by fastforce
    obtain c sc where c: "with_store CountAdmins s1 = (c, sc)" by fastforce
    have "same_tables st (snd (CountAdmins st))" for st
      unfolding CountAdmins_def by (rule read_stmt_same) (rule prod.collapse [symmetric])
    note counted = admins_same [OF with_store_lookup(1) [OF c this]]
    have s2: "administered (us_db s2)" "db_users (us_db s2) = db_users (us_db s1)"
      using g c counted same assms by (auto split: if_splits sum.splits)
    have other: "\<exists>u\<in>set (db_users (us_db s2)). live_admin u \<and> usr_UID u \<noteq> uid" if "g = None"
    proof (cases "IsAdmin v")
      case True
      with g c that obtain n where "c = Inr n" "n > 1" by (cases c) (auto split: if_splits)
      then show ?thesis using counted_admins [of s1 n sc uid] c same assms s2 by simp
    next
      case False
      then have "\<not> live_admin v" by (simp add: live_admin_def IsAdmin_def HasRole_def)
      from unchecked_target [OF _ _ this, of "us_db s" uid] show ?thesis using uid_lookup(2) [OF u Inr] assms same s2 by auto
    qed
    have del: "administered (us_db s3)" if "with_store (DeleteUser uid now now') s2 = (x, s3)" "g = None" for now now' x s3
      by (rule delete_administered [OF that(1) s2(1) other [OF that(2)]])
    have "administered (us_db (api_audit ty a b d now s3))" if "with_store (DeleteUser uid t t') s2 = (x, s3)" "g = None" for ty a b d now t t' x s3
      by (rule administered_quiet [OF quiet_audit del [OF that]])
    then show ?thesis using u g s2 del assms same
      by (simp add: Some Inr handleDeleteUser_def split: option.split prod.split sum.split)
  qed
qed (simp add: handleDeleteUser_def assms)

section \<open>Requests and sequences of requests\<close>

lemma respond_cases:
  obtains "quiet s (snd (respond E I req s))"
  | header r cx s1 where "req = RUser header r" and "authMiddleware E I header s = (Inr cx, s1)" and "quiet s s1"
      and "route_guard r cx = None" and "snd (respond E I req s) = snd (handle_route E I r cx s1)"
proof (cases req)
  case (ROpen r)
  then show ?thesis using that(1) open_quiet by simp
next
  case (RUser header r)
  obtain a s1 where a: "authMiddleware E I header s = (a, s1)" by fastforce
  note q = middleware_quiet [OF a]
  show ?thesis
  proof (cases "\<exists>cx. a = Inr cx \<and> route_guard r cx = None")
    case True
    then obtain cx where cx: "a = Inr cx" "route_guard r cx = None" by blast
    show ?thesis by (rule that(2) [OF RUser a [unfolded cx(1)] q cx(2)]) (simp add: RUser serve_def a cx)
  next
    case False
    then have "snd (respond E I req s) = s1" by (auto simp: RUser serve_def a split: sum.split option.split)
    then show ?thesis using that(1) q by simp
  qed
qed

text \<open>C27. Through the routes of the accounts API (login, passwords, users, API keys) accounts and roles change only for an
  administrator: when a request creates or deletes a user or changes a role, in any state a run of the process reaches and
  with any database faults, it came with an \<open>Authorization\<close> header that proves a live user with the role of an administrator:
  by a key of the user's own, neither revoked nor expired, or by the user's name with a password that verifies against the
  stored hash or, when the process has an authentication cache, against an earlier hash of the same user with the same
  first 32 characters. (Accounts that single sign-on creates do not come through these routes.)\<close>

theorem roles_need_admin:
  assumes "inj (vx_hash (en_auth E))" and "uuid_text (vx_uuid_String (en_auth E))" and "auth_run (en_auth E) (us_store s) hs"
    and "authority (us_db (snd (respond E I req s))) \<noteq> authority (us_db s)"
  shows "\<exists>header r u. req = RUser header r \<and> authenticated E (earlier (us_store s) hs) I header u (us_db s) \<and> IsAdmin u"
proof (cases rule: respond_cases [of s E I req])
  case 1
  then show ?thesis using assms(4) by (simp add: quiet_def)
next
  case (2 header r cx s1)
  have "IsAdmin (cx_user cx)"
  proof (rule ccontr)
    assume "\<not> IsAdmin (cx_user cx)"
    from quiet_trans [OF 2(3) route_quiet [OF this 2(4), of s1 E I]] show False using assms(4) 2(5) by (simp add: quiet_def)
  qed
  then show ?thesis using 2(1) middleware_sound [OF auth_run_ok [OF assms(3,1,2)] 2(2)] by blast
qed

lemma respond_administered:
  assumes "administered (us_db s)"
  shows "administered (us_db (snd (respond E I req s)))"
proof (cases rule: respond_cases [of s E I req])
  case 1
  then show ?thesis using administered_quiet assms by blast
next
  case (2 header r cx s1)
  have a: "administered (us_db s1)" by (rule administered_quiet [OF 2(3) assms])
  have "administered (us_db (snd (handle_route E I r cx s1)))"
  proof (cases "account_route r")
    case True
    then show ?thesis using a
      by (cases r) (simp_all add: handleCreateUser_administered handleUpdateUser_administered handleDeleteUser_administered)
  next
    case False
    show ?thesis by (rule administered_quiet [OF other_route_quiet [OF False] a])
  qed
  then show ?thesis using 2(5) by simp
qed

text \<open>C40. An administrator remains: from a state where accounts have distinct identifiers and a live administrator exists, no
  sequence of requests to the accounts API answered one after another, with any database faults among them, ends in a state
  without a live administrator: the last one can neither be deleted nor lose the role. (Overlapping requests can leave none: the
  count of administrators and the write that follows it are separate statements.)\<close>

theorem last_admin_remains:
  assumes "administered (us_db s)"
  shows "administered (us_db (respond_all E reqs s))"
  using assms
proof (induction reqs arbitrary: s)
  case (Cons r reqs)
  then show ?case by (cases r) (simp add: respond_administered)
qed simp

section \<open>The password in the audit log\<close>

text \<open>Operations under which an audit row stays and no fault is pending.\<close>

definition calm :: "db \<Rightarrow> 'r \<times> db \<Rightarrow> bool" where
  "calm st res \<longleftrightarrow> db_faults (snd res) = [] \<and> set (db_audit st) \<subseteq> set (db_audit (snd res))"

lemma calm_trans: "calm st (r, st1) \<Longrightarrow> calm st1 res \<Longrightarrow> calm st res"
  by (auto simp: calm_def)

lemma calm_read: "db_faults st = [] \<Longrightarrow> calm st (read_stmt f st)"
  by (simp add: calm_def read_stmt_def)

lemma calm_write:
  assumes "db_faults st = []" and "\<And>x st'. f st = Inr (x, st') \<Longrightarrow> db_faults st' = [] \<and> set (db_audit st) \<subseteq> set (db_audit st')"
  shows "calm st (write_stmt f st)"
  using assms by (auto simp: calm_def write_stmt_def split: sum.split)

lemma calm_and_then:
  assumes "calm st r" and "\<And>x st1. r = (Inr x, st1) \<Longrightarrow> db_faults st1 = [] \<Longrightarrow> calm st1 (k x st1)"
  shows "calm st (and_then r k)"
proof (cases r)
  case (Pair x st1)
  then show ?thesis using assms by (cases x) (auto simp: and_then_def calm_def)
qed

lemma calm_tx:
  assumes "db_faults st = []" and "calm st (body st)"
  shows "calm st (RunInTx body st)"
  using assms by (auto simp: RunInTx_def calm_def split: prod.split sum.split)

lemma calm_crypto: "db_faults st = [] \<Longrightarrow> calm st (lift_crypto r st)"
  by (simp add: lift_crypto_def calm_def split: sum.split)

lemma calm_mongo:
  assumes "db_faults st = []"
  shows "calm st (SetUserMongoVerifier X scram us salt n n' u pw ek now st)"
proof -
  have p: "calm st2 (persistUserMongoVerifier u creds now st2)" if "db_faults st2 = []" for creds st2
    unfolding persistUserMongoVerifier_def lock_user_def
    by (rule calm_tx [OF that]) (rule calm_and_then [OF calm_read [OF that]], rule calm_write, auto)
  have k: "calm st (and_then (lift_crypto a st) (\<lambda>x st1. and_then (lift_crypto b st1) (\<lambda>y st2. persistUserMongoVerifier u (c x y) now st2)))" for a b c
    by (intro calm_and_then calm_crypto p assms)
  show ?thesis
  proof (cases "scram pw salt MongoSCRAMIterations")
    case None
    then show ?thesis using assms by (simp add: SetUserMongoVerifier_def calm_def)
  next
    case (Some keys)
    then show ?thesis using k by (cases keys) (simp add: SetUserMongoVerifier_def Let_def)
  qed
qed

lemma calm_groups:
  assumes "db_faults st = []"
  shows "calm st (SetUserGroups u gs st)"
proof -
  have m: "calm st2 (insert_members ms st2)" if "db_faults st2 = []" for ms st2
    using that
  proof (induction ms arbitrary: st2)
    case (Cons m ms)
    have "calm st2 (AddUserToGroup (fst m) (snd m) st2)"
      unfolding AddUserToGroup_def by (rule calm_write [OF Cons.prems]) (auto simp: Cons.prems split: if_splits)
    then show ?case by (cases m) (auto intro!: calm_and_then Cons.IH)
  qed (simp add: calm_def)
  have d: "calm st (delete_members P st)" for P
    unfolding delete_members_def by (rule calm_write [OF assms]) (auto simp: assms)
  show ?thesis unfolding SetUserGroups_def
    by (rule calm_tx [OF assms]) (rule calm_and_then [OF d], rule m)
qed

lemma calm_update:
  assumes "db_faults st = []"
  shows "calm st (UpdateUser u up now now' st)"
  unfolding UpdateUser_def by (rule calm_write [OF assms]) (auto simp: Let_def assms split: if_splits)

lemma calm_reads:
  assumes "db_faults st = []"
  shows "calm st (GetUserByUID u st)" and "calm st (GetUserGroup g st)" and "calm st (CountAdmins st)"
  unfolding GetUserByUID_def GetUserGroup_def CountAdmins_def by (rule calm_read [OF assms])+

definition still :: "users_server \<Rightarrow> users_server \<Rightarrow> bool" where
  "still s s' \<longleftrightarrow> (db_faults (us_db s) = [] \<longrightarrow> db_faults (us_db s') = [] \<and> set (db_audit (us_db s)) \<subseteq> set (db_audit (us_db s')))"

lemma still_refl [simp]: "still s s"
  by (simp add: still_def)

lemma still_trans: "still a b \<Longrightarrow> still b c \<Longrightarrow> still a c"
  by (auto simp: still_def)

lemma still_preorder: "reflp still" "transp still"
  by (auto simp: reflp_def transp_def still_def)

lemma still_store:
  assumes "with_store f s = (r, s')" and "db_faults (us_db s) = [] \<Longrightarrow> calm (us_db s) (f (us_db s))"
  shows "still s s'"
  using assms by (auto simp: still_def with_store_def on_store_def calm_def split: prod.splits)

lemma audit_recorded:
  assumes "db_faults (us_db s) = []"
  shows "still s (api_audit ty u b d now s)"
    and "\<lparr>al_EventType = ty, al_UserID = u, al_PerformedBy = b, al_Details = d, al_CreatedAt = now\<rparr> \<in> set (db_audit (us_db (api_audit ty u b d now s)))"
  using assms by (auto simp: api_audit_def with_store_def on_store_def LogAuditEvent_def write_stmt_def still_def split: prod.split)

lemma checks_still:
  "still s (snd (demo_admin E uid s))" "still s (snd (checkGroupsExist E gs s))" "still s (snd (rejectLastAdminDemotion uid roles s))"
proof -
  have look: "still t t1" if "with_store (GetUserByUID u) t = (r, t1)" for u t r t1 by (rule still_store [OF that calm_reads(1)])
  have grp: "still t t1" if "with_store (GetUserGroup g) t = (r, t1)" for g t r t1 by (rule still_store [OF that calm_reads(2)])
  have cnt: "still t t1" if "with_store CountAdmins t = (r, t1)" for t r t1 by (rule still_store [OF that calm_reads(3)])
  show "still s (snd (demo_admin E uid s))" using look by (auto simp: demo_admin_def split: prod.split sum.split)
  show "still s (snd (checkGroupsExist E gs s))"
  proof (induction gs arbitrary: s)
    case (Cons g gs)
    show ?case using grp still_trans [OF grp Cons.IH] by (auto split: prod.split sum.split)
  qed simp
  show "still s (snd (rejectLastAdminDemotion uid roles s))"
    using look still_trans [OF look cnt] by (auto simp: rejectLastAdminDemotion_def split: prod.split sum.split)
qed

lemma apply_update_records:
  assumes "db_faults (us_db s) = []" and "apply_update E I uid req cx s = (r, s')" and "succeeds r"
  shows "\<lparr>al_EventType = ''user.updated'', al_UserID = Some uid, al_PerformedBy = Some (usr_UID (cx_user cx)),
    al_Details = [(''updated_fields'', request_detail req)], al_CreatedAt = in_clock I 7\<rparr> \<in> set (db_audit (us_db s'))"
proof -
  obtain x s1 where u: "with_store (UpdateUser uid \<lparr>uu_PasswordHash = map_option (HashPassword (vx_prims (en_auth E)) (in_salt I)) (ur_Password req), uu_Roles = ur_Roles req\<rparr>
      (in_clock I 4) (in_clock I 5)) s = (x, s1)" by fastforce
  obtain y s2 where g: "(case ur_GroupUIDs req of None \<Rightarrow> (Inr (), s1) | Some gs \<Rightarrow> with_store (SetUserGroups uid gs) s1) = (y, s2)" by fastforce
  define s3 where "s3 = (case ur_Password req of None \<Rightarrow> s2 | Some p \<Rightarrow> setMongoVerifier E I uid p (in_clock I 6) s2)"
  have q1: "still s s1" by (rule still_store [OF u calm_update])
  have q2: "still s1 s2" using g still_store [of "SetUserGroups uid gs" s1 y s2 for gs] calm_groups by (auto split: option.splits)
  have mv: "still t (setMongoVerifier E I uid p now t)" for p now t
    unfolding setMongoVerifier_def by (rule still_store [OF prod.collapse [symmetric]]) (rule calm_mongo)
  have q3: "still s2 s3" using mv by (simp add: s3_def split: option.split)
  have f: "db_faults (us_db s3) = []" using still_trans [OF still_trans [OF q1 q2] q3] assms(1) by (simp add: still_def)
  note a = audit_recorded [OF f, of "''user.updated''" "Some uid" "Some (usr_UID (cx_user cx))" "[(''updated_fields'', request_detail req)]" "in_clock I 7"]
  let ?s4 = "api_audit ''user.updated'' (Some uid) (Some (usr_UID (cx_user cx))) [(''updated_fields'', request_detail req)] (in_clock I 7) s3"
  have f4: "db_faults (us_db ?s4) = []" using a(1) f by (simp add: still_def)
  obtain v w where "x = Inr v" "y = Inr w"
    using assms(2,3) u g by (cases x; cases y) (auto simp: apply_update_def succeeds_def internal_error_def)
  then have "s' = (case ur_GroupUIDs req of None \<Rightarrow> ?s4 | Some gs \<Rightarrow> api_audit ''user_group.membership_set'' (Some uid) (Some (usr_UID (cx_user cx)))
      [(''user_uid'', DUUID uid), (''group_uids'', DUUIDs gs)] (in_clock I 8) ?s4)"
    unfolding s3_def using assms(2) u g by (simp add: apply_update_def Let_def)
  moreover have "set (db_audit (us_db ?s4)) \<subseteq> set (db_audit (us_db (api_audit ty u b d now ?s4)))" for ty u b d now
    using audit_recorded(1) [OF f4, of ty u b d now] f4 by (simp add: still_def)
  ultimately have "set (db_audit (us_db ?s4)) \<subseteq> set (db_audit (us_db s'))" by (simp split: option.split)
  then show ?thesis using a(2) by (rule subsetD)
qed

text \<open>The audit log gets the new password in plain text: whenever an update of a user that sets a password succeeds and the database
  answers, the table \<open>audit_log\<close>, which viewers can list, holds an event \<open>user.updated\<close> whose details contain the password
  as it was sent.\<close>

theorem password_written_to_audit:
  assumes "db_faults (us_db s) = []" and "handleUpdateUser E I param (Inr req) cx s = (Done n a, s')" and "ur_Password req = Some pw"
  shows "\<exists>ev\<in>set (db_audit (us_db s')). al_EventType ev = ''user.updated'' \<and>
    (\<exists>rest. al_Details ev = [(''updated_fields'', DObj ((''password'', DStr pw) # rest))])"
proof (cases rule: update_checks [where R = still and E = E and s = s and I = I and param = param and bound = "Inr req" and cx = cx,
      OF still_preorder checks_still, case_names refused applied])
  case refused
  then show ?thesis using assms(2) by (simp add: succeeds_def)
next
  case (applied uid req' s2 s3)
  have "db_faults (us_db s3) = []" using applied(4) assms(1) by (simp add: still_def)
  moreover have "apply_update E I uid req cx s3 = (Done n a, s')" using applied(2,7) assms(2) by simp
  ultimately show ?thesis
    using apply_update_records [of s3 E I uid req cx "Done n a" s'] by (auto simp: succeeds_def request_detail_def assms(3) intro!: bexI)
qed

section \<open>Witnesses\<close>

definition admin_row0 :: user where
  "admin_row0 = (hd (db_users (auth_db ''postgresql'')))\<lparr>usr_Roles := [RoleAdmin]\<rparr>"

definition admin_server :: users_server where
  "admin_server = \<lparr>us_store = (auth_store0 ''postgresql'')\<lparr>vs_db := (auth_db ''postgresql'')\<lparr>db_users := [admin_row0]\<rparr>\<rparr>,
     us_failures = newAuthFailureTracker\<rparr>"

definition api_env0 :: api_env where
  "api_env0 = \<lparr>en_auth = auth_env0, en_scram = (\<lambda>_ _ _. None), en_collate = length, en_encryptionKey = [], en_testMode = False, en_demoMode = False\<rparr>"

definition inputs0 :: inputs where
  "inputs0 = \<lparr>in_clock = (\<lambda>_. 5), in_uid = 9, in_salt = [3], in_scramSalt = [], in_nonce = [], in_nonce' = [], in_key = sample_random\<rparr>"

definition alice_auth :: string where
  "alice_auth = ''Basic '' @ b64_encode (bytes_of ''alice:pw'')"

definition new_viewer :: request where
  "new_viewer = RUser alice_auth (RCreateUser (Inr \<lparr>cu_Username = ''bob'', cu_Password = ''secret'', cu_Roles = [RoleViewer]\<rparr>))"

lemma alice_header: "BasicAuth alice_auth = Some (''alice'', ''pw'')"
  by (simp add: BasicAuth_def alice_auth_def ascii_lower_def HasPrefix_def)

lemma alice_bearer: "\<not> HasPrefix alice_auth ''Bearer ''"
  by (simp add: alice_auth_def HasPrefix_def)

lemma admin_run: "auth_run auth_env0 (us_store admin_server) (stored_hashes (auth_db ''postgresql'') @ stored_hashes (us_db admin_server))"
proof -
  have long: "hashes_long (stored_hashes (us_db admin_server))"
    using hash_long [OF sample_prims_ok(2)] by (simp add: hashes_long_def stored_hashes_def admin_server_def admin_row0_def auth_db_def)
  have "key_write (vs_db (auth_store0 ''postgresql'')) (us_db admin_server)"
    by (rule key_write_keys) (simp add: admin_server_def auth_cache0(1))
  from auth_run.store [OF auth_run0 this long] show ?thesis by (simp add: admin_server_def)
qed

lemma admin_login:
  obtains s1 where "authMiddleware api_env0 inputs0 alice_auth admin_server = (Inr \<lparr>cx_user = admin_row0, cx_key = None, cx_method = authMethodBasic\<rparr>, s1)"
    and "us_db s1 = us_db admin_server"
proof -
  have u: "with_store (GetUserByUsername ''alice'') admin_server = (Inr admin_row0, admin_server)"
    by (simp add: with_store_def on_store_def GetUserByUsername_def read_stmt_def admin_server_def admin_row0_def auth_db_def empty_db_def live_user_def)
  have c: "fst (check_password auth_env0 5 admin_row0 ''pw'' (us_store admin_server)) = Inr True"
    "vs_db (snd (check_password auth_env0 5 admin_row0 ''pw'' (us_store admin_server))) = us_db admin_server"
    by (rule auth_check0 [where protocol = "''postgresql''"]; simp add: admin_row0_def auth_db_def admin_server_def)+
  have "us_failures admin_server = Map.empty" by (simp add: admin_server_def newAuthFailureTracker_def)
  then have l: "fst (authMiddleware api_env0 inputs0 alice_auth admin_server) = Inr \<lparr>cx_user = admin_row0, cx_key = None, cx_method = authMethodBasic\<rparr>"
    "us_db (snd (authMiddleware api_env0 inputs0 alice_auth admin_server)) = us_db admin_server"
    using u c
    by (simp_all add: authMiddleware_def alice_bearer handleBasicAuth_def alice_header guarded_login_def api_env0_def inputs0_def checkRateLimit_def case_prod_beta Let_def)
  show thesis by (rule that [OF _ l(2)]) (metis l(1) prod.collapse)
qed

theorem roles_need_admin_witness:
  "authority (us_db (snd (respond api_env0 inputs0 new_viewer admin_server))) \<noteq> authority (us_db admin_server)
   \<and> (\<exists>header r u. new_viewer = RUser header r
     \<and> authenticated api_env0 (stored_hashes (auth_db ''postgresql'') @ stored_hashes (us_db admin_server)) inputs0 header u (us_db admin_server) \<and> IsAdmin u)"
proof -
  let ?hs = "stored_hashes (auth_db ''postgresql'') @ stored_hashes (us_db admin_server)"
  obtain s1 where l: "authMiddleware api_env0 inputs0 alice_auth admin_server = (Inr \<lparr>cx_user = admin_row0, cx_key = None, cx_method = authMethodBasic\<rparr>, s1)"
    and db: "us_db s1 = us_db admin_server" by (rule admin_login)
  let ?new = "CreateUser ''bob'' (HashPassword sample_prims [3] ''secret'') [RoleViewer] 9 5 5"
  obtain x s2 where c: "with_store ?new s1 = (Inr x, s2)" and a: "length (authority (us_db s2)) = 2"
    by (simp add: with_store_def on_store_def db CreateUser_def write_stmt_def admin_server_def admin_row0_def auth_db_def empty_db_def live_user_def
        Let_def authority_def user_roles_def RoleViewer_def RoleAdmin_def RoleConnector_def)
  have sel: "vx_prims (en_auth api_env0) = sample_prims" "in_salt inputs0 = [3]" "in_uid inputs0 = 9" "in_clock inputs0 n = 5" for n
    by (simp_all add: api_env0_def auth_env0_def inputs0_def)
  have "quiet s2 (snd (respond api_env0 inputs0 new_viewer admin_server))"
    using c quiet_trans [OF quiet_mongo quiet_audit]
    by (simp add: new_viewer_def serve_def l requireAdmin_def requireRole_def HasRole_def admin_row0_def RoleAdmin_def
        handleCreateUser_def sel Let_def)
  then have "length (authority (us_db (snd (respond api_env0 inputs0 new_viewer admin_server)))) = 2" using a by (simp add: quiet_def)
  moreover have "length (authority (us_db admin_server)) = 1" by (simp add: authority_def admin_server_def)
  ultimately have n: "authority (us_db (snd (respond api_env0 inputs0 new_viewer admin_server))) \<noteq> authority (us_db admin_server)" by auto
  have "earlier (us_store admin_server) ?hs = ?hs" using auth_cache0(2) [of "''postgresql''"] by (auto simp: earlier_def admin_server_def)
  with roles_need_admin [of api_env0 admin_server ?hs inputs0 new_viewer, OF _ _ _ n] auth_env0_ok admin_run
  have "\<exists>header r u. new_viewer = RUser header r \<and> authenticated api_env0 ?hs inputs0 header u (us_db admin_server) \<and> IsAdmin u"
    by (simp add: api_env0_def)
  then show ?thesis using n by blast
qed

text \<open>The only administrator asks to become a viewer.\<close>

theorem last_admin_remains_witness:
  "administered (us_db (respond_all api_env0 [(inputs0, RUser alice_auth (RUpdateUser (Some 1)
      (Inr \<lparr>ur_Password = None, ur_Roles = Some [RoleViewer], ur_GroupUIDs = None\<rparr>)))] admin_server))"
  by (rule last_admin_remains)
    (simp add: administered_def authority_def admin_row_def admin_server_def admin_row0_def auth_db_def)

end
