(* ===== verification/Device_Auth.thy ===== *)
theory Device_Auth
  imports Database
begin

text \<open>
  \<open>internal/store/device_auth.go\<close> and \<open>oauth_states.go\<close>: the table of OAuth states and the device
  authorization requests kept in it. The store operations are sequences of SQL statements; the
  ones between which another caller may act are definitions of their own. The abstract
  specification is a small state machine per device code.
\<close>

section \<open>OAuth states\<close>

definition CreateOAuthState :: "oauth_state \<Rightarrow> uuid \<Rightarrow> time \<Rightarrow> db \<Rightarrow> (store_error + oauth_state) \<times> db" where
  "CreateOAuthState state newUID now =
     write_stmt (\<lambda>st.
       if os_State state \<in> set (map os_State (db_oauth st)) \<or> newUID \<in> set (map os_UID (db_oauth st)) then Inl ErrDB
       else let row = state\<lparr>os_UID := newUID, os_CreatedAt := now\<rparr>
            in Inr (row, st\<lparr>db_oauth := db_oauth st @ [row]\<rparr>))"

text \<open>\<open>NewDelete ... Where("uid = ?")\<close>: deleting no row is no error.\<close>

definition delete_state :: "uuid \<Rightarrow> db \<Rightarrow> (store_error + unit) \<times> db" where
  "delete_state uid =
     write_stmt (\<lambda>st. Inr ((), st\<lparr>db_oauth := filter (\<lambda>s. os_UID s \<noteq> uid) (db_oauth st)\<rparr>))"

definition find_state :: "string \<Rightarrow> time \<Rightarrow> db \<Rightarrow> oauth_state option" where
  "find_state token now st = find (\<lambda>s. os_State s = token \<and> now < os_ExpiresAt s) (db_oauth st)"

definition consume_read :: "string \<Rightarrow> time \<Rightarrow> db \<Rightarrow> (store_error + oauth_state) \<times> db" where
  "consume_read token now =
     read_stmt (\<lambda>st. case find_state token now st of None \<Rightarrow> Inl ErrOAuthStateNotFound | Some s \<Rightarrow> Inr s)"

definition ConsumeOAuthState :: "string \<Rightarrow> time \<Rightarrow> db \<Rightarrow> (store_error + oauth_state) \<times> db" where
  "ConsumeOAuthState token now st =
     and_then (consume_read token now st) (\<lambda>state st1.
     and_then (delete_state (os_UID state) st1) (\<lambda>_ st2. (Inr state, st2)))"

definition CleanupExpiredOAuthStates :: "time \<Rightarrow> db \<Rightarrow> (store_error + nat) \<times> db" where
  "CleanupExpiredOAuthStates now =
     write_stmt (\<lambda>st. Inr (length (filter (\<lambda>s. os_ExpiresAt s \<le> now) (db_oauth st)),
       st\<lparr>db_oauth := filter (\<lambda>s. \<not> os_ExpiresAt s \<le> now) (db_oauth st)\<rparr>))"

section \<open>Device authorization requests\<close>

definition DeviceAuthProvider :: string where "DeviceAuthProvider = ''device''"
definition DeviceAuthTTL :: duration where "DeviceAuthTTL = 10 * minute"
definition DeviceAuthStatusPending :: string where "DeviceAuthStatusPending = ''pending''"
definition DeviceAuthStatusApproved :: string where "DeviceAuthStatusApproved = ''approved''"
definition DeviceAuthStatusDenied :: string where "DeviceAuthStatusDenied = ''denied''"

record device_request =
  dr_UID :: uuid
  dr_ClientName :: string
  dr_UserCode :: string
  dr_Status :: string
  dr_ExpiresAt :: time

definition device_view :: "oauth_state \<Rightarrow> device_metadata \<Rightarrow> device_request" where
  "device_view s m = \<lparr>dr_UID = os_UID s, dr_ClientName = dm_ClientName m, dr_UserCode = dm_UserCode m,
     dr_Status = dm_Status m, dr_ExpiresAt = os_ExpiresAt s\<rparr>"

text \<open>The \<open>WHERE\<close> clause of an unexpired device row with a user code.\<close>

definition live_code :: "string \<Rightarrow> time \<Rightarrow> oauth_state \<Rightarrow> bool" where
  "live_code userCode now s \<longleftrightarrow> os_Provider s = DeviceAuthProvider \<and> now < os_ExpiresAt s \<and>
     (case os_Metadata s of None \<Rightarrow> False | Some m \<Rightarrow> dm_UserCode m = userCode)"

definition deviceAuthUserCodeExists :: "string \<Rightarrow> time \<Rightarrow> db \<Rightarrow> (store_error + bool) \<times> db" where
  "deviceAuthUserCodeExists userCode now =
     read_stmt (\<lambda>st. Inr (0 < length (filter (live_code userCode now) (db_oauth st))))"

definition CreateDeviceAuthRequest ::
  "string \<Rightarrow> string \<Rightarrow> string \<Rightarrow> uuid \<Rightarrow> time \<Rightarrow> db \<Rightarrow> (store_error + device_request) \<times> db" where
  "CreateDeviceAuthRequest clientName deviceCode userCode newUID now st =
     and_then (deviceAuthUserCodeExists userCode now st) (\<lambda>taken st1.
     if taken then (Inl ErrDeviceAuthUserCodeTaken, st1)
     else
       let meta = \<lparr>dm_ClientName = clientName, dm_UserCode = userCode, dm_Status = DeviceAuthStatusPending,
                   dm_UserID = None, dm_EncryptedKey = [], dm_KeyPrefix = []\<rparr>;
           state = \<lparr>os_UID = uuid_Nil, os_State = deviceCode, os_Provider = DeviceAuthProvider, os_RedirectURL = [],
                    os_Metadata = Some meta, os_ExpiresAt = now + DeviceAuthTTL, os_CreatedAt = now\<rparr>
       in and_then (CreateOAuthState state newUID now st1) (\<lambda>row st2. (Inr (device_view row meta), st2)))"

text \<open>The most recent row wins; a row without readable metadata is a decoding error.\<close>

definition getDeviceAuthStateByUserCode ::
  "string \<Rightarrow> time \<Rightarrow> db \<Rightarrow> (store_error + oauth_state \<times> device_metadata) \<times> db" where
  "getDeviceAuthStateByUserCode userCode now =
     read_stmt (\<lambda>st. case sort_key (\<lambda>s. - os_CreatedAt s) (filter (live_code userCode now) (db_oauth st)) of
        [] \<Rightarrow> Inl ErrDeviceAuthNotFound
      | s # _ \<Rightarrow> (case os_Metadata s of None \<Rightarrow> Inl ErrDB | Some m \<Rightarrow> Inr (s, m)))"

definition GetDeviceAuthByUserCode :: "string \<Rightarrow> time \<Rightarrow> db \<Rightarrow> (store_error + device_request) \<times> db" where
  "GetDeviceAuthByUserCode userCode now st =
     and_then (getDeviceAuthStateByUserCode userCode now st) (\<lambda>(s, m) st1. (Inr (device_view s m), st1))"

definition resolve :: "uuid \<Rightarrow> bool \<Rightarrow> bytes \<Rightarrow> string \<Rightarrow> device_metadata \<Rightarrow> device_metadata" where
  "resolve userID approve encryptedKey keyPrefix m =
     (if approve then m\<lparr>dm_Status := DeviceAuthStatusApproved, dm_EncryptedKey := encryptedKey,
                        dm_KeyPrefix := keyPrefix, dm_UserID := Some userID\<rparr>
      else m\<lparr>dm_Status := DeviceAuthStatusDenied, dm_UserID := Some userID\<rparr>)"

text \<open>The conditional update: still pending, still unexpired.\<close>

definition respond_update ::
  "uuid \<Rightarrow> device_metadata \<Rightarrow> time \<Rightarrow> db \<Rightarrow> (store_error + unit) \<times> db" where
  "respond_update uid meta now =
     write_stmt (\<lambda>st.
       let hit = (\<lambda>s. os_UID s = uid \<and> os_Provider s = DeviceAuthProvider \<and> now < os_ExpiresAt s \<and>
                   (case os_Metadata s of None \<Rightarrow> False | Some m \<Rightarrow> dm_Status m = DeviceAuthStatusPending))
       in if filter hit (db_oauth st) = [] then Inl ErrDeviceAuthAlreadyResolved
          else Inr ((), st\<lparr>db_oauth := update_where hit (\<lambda>s. s\<lparr>os_Metadata := Some meta\<rparr>) (db_oauth st)\<rparr>))"

definition RespondToDeviceAuthByUserCode ::
  "string \<Rightarrow> uuid \<Rightarrow> bool \<Rightarrow> bytes \<Rightarrow> string \<Rightarrow> time \<Rightarrow> time \<Rightarrow> db \<Rightarrow> (store_error + unit) \<times> db" where
  "RespondToDeviceAuthByUserCode userCode userID approve encryptedKey keyPrefix now now' st =
     and_then (getDeviceAuthStateByUserCode userCode now st) (\<lambda>(s, m) st1.
     if dm_Status m \<noteq> DeviceAuthStatusPending then (Inl ErrDeviceAuthAlreadyResolved, st1)
     else respond_update (os_UID s) (resolve userID approve encryptedKey keyPrefix m) now' st1)"

definition poll_read :: "string \<Rightarrow> time \<Rightarrow> db \<Rightarrow> (store_error + oauth_state \<times> device_metadata) \<times> db" where
  "poll_read deviceCode now =
     read_stmt (\<lambda>st. case find (\<lambda>s. os_State s = deviceCode \<and> os_Provider s = DeviceAuthProvider \<and> now < os_ExpiresAt s)
         (db_oauth st) of
        None \<Rightarrow> Inl ErrDeviceAuthNotFound
      | Some s \<Rightarrow> (case os_Metadata s of None \<Rightarrow> Inl ErrDB | Some m \<Rightarrow> Inr (s, m)))"

text \<open>What follows the read: a pending request is left in place, a resolved one is deleted.\<close>

definition poll_finish ::
  "oauth_state \<times> device_metadata \<Rightarrow> db \<Rightarrow> (store_error + device_request \<times> bytes) \<times> db" where
  "poll_finish sm st =
     (let (s, m) = sm in
      if dm_Status m = DeviceAuthStatusPending then (Inr (device_view s m, []), st)
      else and_then (delete_state (os_UID s) st) (\<lambda>_ st1. (Inr (device_view s m, dm_EncryptedKey m), st1)))"

definition PollDeviceAuthToken :: "string \<Rightarrow> time \<Rightarrow> db \<Rightarrow> (store_error + device_request \<times> bytes) \<times> db" where
  "PollDeviceAuthToken deviceCode now st = and_then (poll_read deviceCode now st) poll_finish"

section \<open>Abstract specification\<close>

text \<open>A request is pending, approved with a key, or denied. The abstract state maps the device codes of
  the live requests to their user codes and phases.\<close>

datatype phase = DevPending | DevApproved bytes | DevDenied

type_synonym dev_state = "string \<rightharpoonup> string \<times> phase"

datatype dev_op =
    DevStart string string
  | DevRespond string bool bytes
  | DevPoll string

datatype dev_out = Started | Responded | StillPending | Denied | Delivered bytes | Refused store_error

definition code_used :: "dev_state \<Rightarrow> string \<Rightarrow> bool" where
  "code_used m uc \<longleftrightarrow> (\<exists>c ph. m c = Some (uc, ph))"

inductive dev_spec :: "dev_state \<Rightarrow> dev_op \<Rightarrow> dev_out \<Rightarrow> dev_state \<Rightarrow> bool" where
  start: "\<not> code_used m uc \<Longrightarrow> m dc = None \<Longrightarrow>
    dev_spec m (DevStart dc uc) Started (m(dc \<mapsto> (uc, DevPending)))"
| start_taken: "code_used m uc \<Longrightarrow> dev_spec m (DevStart dc uc) (Refused ErrDeviceAuthUserCodeTaken) m"
| approve: "m c = Some (uc, DevPending) \<Longrightarrow>
    dev_spec m (DevRespond uc True key) Responded (m(c \<mapsto> (uc, DevApproved key)))"
| deny: "m c = Some (uc, DevPending) \<Longrightarrow>
    dev_spec m (DevRespond uc False key) Responded (m(c \<mapsto> (uc, DevDenied)))"
| respond_late: "m c = Some (uc, ph) \<Longrightarrow> ph \<noteq> DevPending \<Longrightarrow>
    dev_spec m (DevRespond uc ok key) (Refused ErrDeviceAuthAlreadyResolved) m"
| respond_unknown: "\<not> code_used m uc \<Longrightarrow>
    dev_spec m (DevRespond uc ok key) (Refused ErrDeviceAuthNotFound) m"
| poll_unknown: "m dc = None \<Longrightarrow> dev_spec m (DevPoll dc) (Refused ErrDeviceAuthNotFound) m"
| poll_pending: "m dc = Some (uc, DevPending) \<Longrightarrow> dev_spec m (DevPoll dc) StillPending m"
| poll_denied: "m dc = Some (uc, DevDenied) \<Longrightarrow> dev_spec m (DevPoll dc) Denied (m(dc := None))"
| poll_key: "m dc = Some (uc, DevApproved k) \<Longrightarrow> dev_spec m (DevPoll dc) (Delivered k) (m(dc := None))"

inductive_cases dev_pollE: "dev_spec m (DevPoll dc) out m'"
inductive_cases dev_startE: "dev_spec m (DevStart dc uc) out m'"
inductive_cases dev_respondE: "dev_spec m (DevRespond uc ok key) out m'"

text \<open>Executions with a clock: between two operations live requests may expire.\<close>

inductive dev_trace :: "dev_state \<Rightarrow> (dev_op \<times> dev_out) list \<Rightarrow> dev_state \<Rightarrow> bool" where
  stop: "dev_trace m [] m"
| expire: "m1 \<subseteq>\<^sub>m m \<Longrightarrow> dev_trace m1 tr m' \<Longrightarrow> dev_trace m tr m'"
| act: "dev_spec m op out m1 \<Longrightarrow> dev_trace m1 tr m' \<Longrightarrow> dev_trace m ((op, out) # tr) m'"

definition starts :: "string \<Rightarrow> (dev_op \<times> dev_out) list \<Rightarrow> bool" where
  "starts dc tr \<longleftrightarrow> (\<exists>uc out. (DevStart dc uc, out) \<in> set tr)"

definition deliveries :: "string \<Rightarrow> (dev_op \<times> dev_out) list \<Rightarrow> bytes list" where
  "deliveries dc tr = List.map_filter (\<lambda>(op, out). case out of Delivered k \<Rightarrow> if op = DevPoll dc then Some k else None | _ \<Rightarrow> None) tr"

lemma deliveries_simps [simp]:
  "deliveries dc [] = []"
  "deliveries dc ((op, out) # tr) =
     (case out of Delivered k \<Rightarrow> if op = DevPoll dc then k # deliveries dc tr else deliveries dc tr | _ \<Rightarrow> deliveries dc tr)"
  by (simp_all add: deliveries_def map_filter_def split: dev_out.split)

lemma spec_absent:
  "dev_spec m op out m1 \<Longrightarrow> m dc = None \<Longrightarrow> (\<And>uc. op \<noteq> DevStart dc uc) \<Longrightarrow>
     m1 dc = None \<and> \<not> (op = DevPoll dc \<and> (\<exists>k. out = Delivered k))"
  by (induction rule: dev_spec.induct) auto

lemma map_le_None: "m1 \<subseteq>\<^sub>m m \<Longrightarrow> m k = None \<Longrightarrow> m1 k = None"
  by (cases "m1 k") (auto simp: map_le_def dom_def)

lemma trace_absent:
  "dev_trace m tr m' \<Longrightarrow> m dc = None \<Longrightarrow> \<not> starts dc tr \<Longrightarrow> deliveries dc tr = []"
proof (induction rule: dev_trace.induct)
  case (expire m1 m tr m')
  then show ?case using map_le_None [OF expire(1), of dc] by simp
next
  case (act m op out m1 tr m')
  have ns: "\<not> starts dc tr" "\<And>u. op \<noteq> DevStart dc u" using act.prems(2) by (auto simp: starts_def)
  show ?case using spec_absent [OF act(1) act.prems(1) ns(2)] act.IH [OF _ ns(1)]
    by (auto split: dev_out.split)
qed simp

text \<open>Every phase of a code is explained by what the caller saw.\<close>

definition approved_in :: "string \<Rightarrow> bytes \<Rightarrow> (dev_op \<times> dev_out) list \<Rightarrow> bool" where
  "approved_in uc k tr \<longleftrightarrow> (DevRespond uc True k, Responded) \<in> set tr"

lemma spec_present:
  assumes "dev_spec m op out m1" and "m dc = Some (uc, ph)" and "\<And>u. op \<noteq> DevStart dc u"
  shows "m1 dc = Some (uc, ph) \<and> \<not> (op = DevPoll dc \<and> (\<exists>k. out = Delivered k))
    \<or> m1 dc = None \<and> op = DevPoll dc \<and> (\<forall>k. out = Delivered k \<longrightarrow> ph = DevApproved k)
    \<or> (\<exists>k. m1 dc = Some (uc, DevApproved k) \<and> op = DevRespond uc True k \<and> out = Responded)
    \<or> m1 dc = Some (uc, DevDenied) \<and> (\<exists>ok k. op = DevRespond uc ok k)"
  using assms by (induction rule: dev_spec.induct) (auto simp: fun_upd_def)

lemma trace_once:
  assumes "dev_trace m tr m'" and "\<not> starts dc tr" and "m dc = Some (uc, ph)"
  shows "deliveries dc tr = []
    \<or> (\<exists>k. deliveries dc tr = [k] \<and> (ph = DevApproved k \<or> approved_in uc k tr))"
  using assms
proof (induction arbitrary: ph rule: dev_trace.induct)
  case (expire m1 m tr m')
  show ?case
  proof (cases "m1 dc")
    case None
    then show ?thesis using trace_absent [OF expire(2)] expire.prems by simp
  next
    case (Some v)
    then have "v = (uc, ph)" using expire(1) expire.prems(2) by (auto simp: map_le_def dom_def)
    then show ?thesis using expire.IH expire.prems Some by simp
  qed
next
  case (act m op out m1 tr m')
  have ns: "\<not> starts dc tr" "\<And>u. op \<noteq> DevStart dc u" using act.prems(1) by (auto simp: starts_def)
  note cases' = spec_present [OF act(1) act.prems(2) ns(2)]
  have rest: "deliveries dc tr = []" if "m1 dc = None" using trace_absent [OF act(2) that ns(1)] .
  have IH: "deliveries dc tr = [] \<or> (\<exists>k. deliveries dc tr = [k] \<and> (ph' = DevApproved k \<or> approved_in uc k tr))"
    if "m1 dc = Some (uc, ph')" for ph' using act.IH [OF ns(1) that] .
  have later: "approved_in uc k tr \<Longrightarrow> approved_in uc k ((op, out) # tr)" for k by (simp add: approved_in_def)
  from cases' show ?case
  proof (elim disjE conjE exE)
    assume "m1 dc = Some (uc, ph)" "\<not> (op = DevPoll dc \<and> (\<exists>k. out = Delivered k))"
    then show ?thesis using IH later by (auto split: dev_out.split)
  next
    assume "m1 dc = None" "op = DevPoll dc" "\<forall>k. out = Delivered k \<longrightarrow> ph = DevApproved k"
    then show ?thesis using rest by (auto split: dev_out.split)
  next
    fix k assume "m1 dc = Some (uc, DevApproved k)" "op = DevRespond uc True k" "out = Responded"
    then show ?thesis using IH later by (auto simp: approved_in_def)
  next
    fix ok k assume "m1 dc = Some (uc, DevDenied)" "op = DevRespond uc ok k"
    then show ?thesis using IH later by (auto split: dev_out.split)
  qed
qed simp

section \<open>The store refines the specification\<close>

definition phase_of :: "device_metadata \<Rightarrow> phase" where
  "phase_of m = (if dm_Status m = DeviceAuthStatusPending then DevPending
     else if dm_Status m = DeviceAuthStatusDenied then DevDenied else DevApproved (dm_EncryptedKey m))"

definition live_row :: "time \<Rightarrow> oauth_state \<Rightarrow> bool" where
  "live_row now s \<longleftrightarrow> os_Provider s = DeviceAuthProvider \<and> now < os_ExpiresAt s"

definition dev_abs :: "time \<Rightarrow> db \<Rightarrow> dev_state" where
  "dev_abs now st c =
     (case find (\<lambda>s. os_State s = c \<and> live_row now s) (db_oauth st) of None \<Rightarrow> None
      | Some s \<Rightarrow> map_option (\<lambda>m. (dm_UserCode m, phase_of m)) (os_Metadata s))"

text \<open>Keys are unique, device rows have metadata, and live requests have different user codes.\<close>

definition dev_inv :: "time \<Rightarrow> db \<Rightarrow> bool" where
  "dev_inv now st \<longleftrightarrow> distinct (map os_UID (db_oauth st)) \<and> distinct (map os_State (db_oauth st))
     \<and> (\<forall>s \<in> set (db_oauth st). os_Provider s = DeviceAuthProvider \<longrightarrow> os_Metadata s \<noteq> None)
     \<and> (\<forall>s \<in> set (db_oauth st). \<forall>s' \<in> set (db_oauth st). live_row now s \<longrightarrow> live_row now s' \<longrightarrow>
          map_option dm_UserCode (os_Metadata s) = map_option dm_UserCode (os_Metadata s') \<longrightarrow> s = s')"

lemma dev_abs_iff:
  assumes "distinct (map os_State (db_oauth st))"
  shows "dev_abs now st c = Some (uc, ph) \<longleftrightarrow>
    (\<exists>s m. s \<in> set (db_oauth st) \<and> os_State s = c \<and> live_row now s \<and> os_Metadata s = Some m \<and>
       uc = dm_UserCode m \<and> ph = phase_of m)"
proof (cases "find (\<lambda>s. os_State s = c \<and> live_row now s) (db_oauth st)")
  case None
  then have "\<not> (\<exists>s. s \<in> set (db_oauth st) \<and> os_State s = c \<and> live_row now s)" by (simp add: find_None_iff)
  then show ?thesis using None by (auto simp: dev_abs_def)
next
  case (Some s)
  then have s: "s \<in> set (db_oauth st)" "os_State s = c" "live_row now s" by (auto dest: find_SomeD)
  have uniq: "t = s" if "t \<in> set (db_oauth st)" "os_State t = c" for t
    using distinct_map_eq [OF assms that(1) s(1)] that(2) s(2) by simp
  have "dev_abs now st c = Some (uc, ph) \<longleftrightarrow>
      (\<exists>m. os_Metadata s = Some m \<and> uc = dm_UserCode m \<and> ph = phase_of m)"
    unfolding dev_abs_def Some by (cases "os_Metadata s") auto
  then show ?thesis using s uniq by blast
qed

lemma map_eqI: "(\<And>k a b. m k = Some (a, b) \<longleftrightarrow> m' k = Some (a, b)) \<Longrightarrow> m = m'"
proof
  fix k assume *: "\<And>k a b. m k = Some (a, b) \<longleftrightarrow> m' k = Some (a, b)"
  show "m k = m' k"
  proof (cases "m k")
    case None
    then show ?thesis using * [of k] by (cases "m' k") auto
  next
    case (Some v)
    then show ?thesis using * [of k "fst v" "snd v"] by simp
  qed
qed

lemma live_code_row: "live_code uc now s \<longleftrightarrow> live_row now s \<and> map_option dm_UserCode (os_Metadata s) = Some uc"
  by (auto simp: live_code_def live_row_def split: option.split)

lemma code_used_iff:
  assumes "dev_inv now st"
  shows "code_used (dev_abs now st) uc \<longleftrightarrow> (\<exists>s \<in> set (db_oauth st). live_code uc now s)"
  using assms unfolding code_used_def live_code_row
  by (auto simp: dev_abs_iff dev_inv_def)

text \<open>An operation of the store and what its caller sees; \<open>uid\<close> is the identifier the database
  generates or the user who responds, \<open>label\<close> the client name or the key prefix.\<close>

fun dev_exec :: "string \<Rightarrow> dev_op \<Rightarrow> uuid \<Rightarrow> time \<Rightarrow> db \<Rightarrow> dev_out \<times> db" where
  "dev_exec label (DevStart dc uc) uid now st =
     (case CreateDeviceAuthRequest label dc uc uid now st of
        (Inl e, st') \<Rightarrow> (Refused e, st') | (Inr _, st') \<Rightarrow> (Started, st'))"
| "dev_exec label (DevRespond uc ok key) uid now st =
     (case RespondToDeviceAuthByUserCode uc uid ok key label now now st of
        (Inl e, st') \<Rightarrow> (Refused e, st') | (Inr _, st') \<Rightarrow> (Responded, st'))"
| "dev_exec label (DevPoll dc) uid now st =
     (case PollDeviceAuthToken dc now st of
        (Inl e, st') \<Rightarrow> (Refused e, st')
      | (Inr (r, key), st') \<Rightarrow>
          (if dr_Status r = DeviceAuthStatusPending then StillPending
           else if dr_Status r = DeviceAuthStatusDenied then Denied else Delivered key, st'))"

definition fresh_for :: "dev_op \<Rightarrow> uuid \<Rightarrow> db \<Rightarrow> bool" where
  "fresh_for op uid st = (case op of
       DevStart dc uc \<Rightarrow> dc \<notin> set (map os_State (db_oauth st)) \<and> uid \<notin> set (map os_UID (db_oauth st))
     | _ \<Rightarrow> True)"

lemmas stmt_defs = read_stmt_def write_stmt_def stmt_def and_then_def

lemmas device_status = DeviceAuthStatusPending_def DeviceAuthStatusApproved_def DeviceAuthStatusDenied_def

lemma live_row_later: "now \<le> now' \<Longrightarrow> live_row now' s \<Longrightarrow> live_row now s"
  by (auto simp: live_row_def)

lemma dev_inv_later: "dev_inv now st \<Longrightarrow> now \<le> now' \<Longrightarrow> dev_inv now' st"
  unfolding dev_inv_def by (meson live_row_later)

lemma dev_abs_later:
  assumes "dev_inv now st" and "now \<le> now'"
  shows "dev_abs now' st \<subseteq>\<^sub>m dev_abs now st"
proof -
  have d: "distinct (map os_State (db_oauth st))" using assms(1) by (simp add: dev_inv_def)
  have "dev_abs now st c = Some (uc, ph)" if "dev_abs now' st c = Some (uc, ph)" for c uc ph
    using that live_row_later [OF assms(2)] unfolding dev_abs_iff [OF d] by blast
  then show ?thesis unfolding map_le_def by force
qed

lemma find_append: "find P (xs @ ys) = (case find P xs of None \<Rightarrow> find P ys | Some x \<Rightarrow> Some x)"
  by (induction xs) auto

lemma find_map: "find P (map f xs) = map_option f (find (P \<circ> f) xs)"
  by (induction xs) auto

lemma find_filter: "find P (filter Q xs) = find (\<lambda>x. P x \<and> Q x) xs"
  by (induction xs) auto

subsection \<open>Starting a request\<close>

lemma taken_iff:
  assumes "dev_inv now st"
  shows "0 < length (filter (live_code uc now) (db_oauth st)) \<longleftrightarrow> code_used (dev_abs now st) uc"
  unfolding code_used_iff [OF assms] by (auto simp: filter_empty_conv)

definition started_row :: "string \<Rightarrow> string \<Rightarrow> string \<Rightarrow> uuid \<Rightarrow> time \<Rightarrow> oauth_state" where
  "started_row label dc uc uid now =
     \<lparr>os_UID = uid, os_State = dc, os_Provider = DeviceAuthProvider, os_RedirectURL = [],
      os_Metadata = Some \<lparr>dm_ClientName = label, dm_UserCode = uc, dm_Status = DeviceAuthStatusPending,
        dm_UserID = None, dm_EncryptedKey = [], dm_KeyPrefix = []\<rparr>,
      os_ExpiresAt = now + DeviceAuthTTL, os_CreatedAt = now\<rparr>"

lemma start_exec:
  assumes "dev_inv now st" and "db_faults st = []" and "fresh_for (DevStart dc uc) uid st"
  shows "dev_exec label (DevStart dc uc) uid now st =
    (if code_used (dev_abs now st) uc then (Refused ErrDeviceAuthUserCodeTaken, st)
     else (Started, st\<lparr>db_oauth := db_oauth st @ [started_row label dc uc uid now]\<rparr>))"
  using assms taken_iff [OF assms(1), of uc]
  by (simp add: CreateDeviceAuthRequest_def deviceAuthUserCodeExists_def CreateOAuthState_def stmt_defs
      fresh_for_def started_row_def Let_def)

lemma started_live: "live_row now (started_row label dc uc uid now)"
  by (simp add: live_row_def started_row_def DeviceAuthTTL_def minute_def)

lemma start_refines:
  assumes inv: "dev_inv now st" and free: "\<not> code_used (dev_abs now st) uc" and "fresh_for (DevStart dc uc) uid st"
  shows "dev_abs now (st\<lparr>db_oauth := db_oauth st @ [started_row label dc uc uid now]\<rparr>)
      = (dev_abs now st)(dc \<mapsto> (uc, DevPending))"
    and "dev_inv now (st\<lparr>db_oauth := db_oauth st @ [started_row label dc uc uid now]\<rparr>)"
    and "dev_abs now st dc = None"
proof -
  let ?r = "started_row label dc uc uid now" and ?st = "st\<lparr>db_oauth := db_oauth st @ [started_row label dc uc uid now]\<rparr>"
  have new: "dc \<notin> os_State ` set (db_oauth st)" "uid \<notin> os_UID ` set (db_oauth st)"
    using assms(3) by (simp_all add: fresh_for_def)
  have d: "distinct (map os_State (db_oauth st))" "distinct (map os_UID (db_oauth st))" using inv by (simp_all add: dev_inv_def)
  have sel: "os_State ?r = dc" "os_UID ?r = uid" "os_Provider ?r = DeviceAuthProvider"
    "map_option (\<lambda>m. (dm_UserCode m, phase_of m)) (os_Metadata ?r) = Some (uc, DevPending)"
    "map_option dm_UserCode (os_Metadata ?r) = Some uc"
    by (simp_all add: started_row_def phase_of_def)
  have none: "\<not> live_row now s" if "s \<in> set (db_oauth st)" "map_option dm_UserCode (os_Metadata s) = Some uc" for s
    using free that unfolding code_used_iff [OF inv] live_code_row by blast
  have absent: "find (\<lambda>s. os_State s = dc \<and> live_row now s) (db_oauth st) = None"
    using new(1) by (auto simp: find_None_iff)
  show "dev_abs now ?st = (dev_abs now st)(dc \<mapsto> (uc, DevPending))"
  proof
    fix k show "dev_abs now ?st k = ((dev_abs now st)(dc \<mapsto> (uc, DevPending))) k"
      using absent sel started_live [of now label dc uc uid]
      by (cases "k = dc") (simp_all add: dev_abs_def find_append split: option.split)
  qed
  show "dev_abs now st dc = None" using absent by (simp add: dev_abs_def)
  have ok: "os_Metadata ?r \<noteq> None" using sel(5) by (cases "os_Metadata ?r") simp_all
  have apart: "\<not> live_row now s" if "s \<in> set (db_oauth st)" "map_option dm_UserCode (os_Metadata s) = map_option dm_UserCode (os_Metadata ?r)" for s
    using none [OF that(1)] that(2) sel(5) by simp
  show "dev_inv now ?st" unfolding dev_inv_def
  proof (intro conjI ballI impI)
    fix s assume "s \<in> set (db_oauth ?st)" "os_Provider s = DeviceAuthProvider"
    then show "os_Metadata s \<noteq> None" using inv ok unfolding dev_inv_def by (cases "s = ?r") simp_all
  next
    fix s s' assume "s \<in> set (db_oauth ?st)" "s' \<in> set (db_oauth ?st)" "live_row now s" "live_row now s'"
      and *: "map_option dm_UserCode (os_Metadata s) = map_option dm_UserCode (os_Metadata s')"
    then have "s = ?r \<or> s \<in> set (db_oauth st)" "s' = ?r \<or> s' \<in> set (db_oauth st)" by simp_all
    then show "s = s'" using apart [of s] apart [of s'] * \<open>live_row now s\<close> \<open>live_row now s'\<close> inv
      unfolding dev_inv_def by metis
  qed (use d new sel in simp_all)
qed

subsection \<open>Responding and polling\<close>

text \<open>A user code selects at most one live row.\<close>

lemma dev_inv_codeD:
  assumes "dev_inv now st" and "s \<in> set (db_oauth st)" and "s' \<in> set (db_oauth st)" and "live_row now s" and "live_row now s'"
    and "map_option dm_UserCode (os_Metadata s) = map_option dm_UserCode (os_Metadata s')"
  shows "s = s'"
  using assms unfolding dev_inv_def by blast

lemma code_row_unique:
  assumes "dev_inv now st" and "s \<in> set (db_oauth st)" and "live_code uc now s"
  shows "filter (live_code uc now) (db_oauth st) = [s]"
proof -
  have d: "distinct (db_oauth st)" using assms(1) by (simp add: dev_inv_def distinct_map)
  have same: "s' = s" if "s' \<in> set (filter (live_code uc now) (db_oauth st))" for s'
  proof (rule dev_inv_codeD [OF assms(1)])
    have "live_code uc now s'" using that by simp
    then show "live_row now s'" "live_row now s" "map_option dm_UserCode (os_Metadata s') = map_option dm_UserCode (os_Metadata s)"
      using assms(3) by (simp_all only: live_code_row)
  qed (use that assms(2) in simp_all)
  have "s \<in> set (filter (live_code uc now) (db_oauth st))" using assms(2,3) by simp
  then have "set (filter (live_code uc now) (db_oauth st)) = {s}" using same by blast
  then have "length (filter (live_code uc now) (db_oauth st)) = 1"
    using distinct_card [OF distinct_filter [OF d], of "live_code uc now"] by simp
  then obtain x where "filter (live_code uc now) (db_oauth st) = [x]" by (auto simp: length_Suc_conv)
  then show ?thesis using same [of x] by simp
qed

lemma lookup_code:
  assumes "dev_inv now st" and "db_faults st = []"
  shows "\<not> code_used (dev_abs now st) uc \<Longrightarrow> getDeviceAuthStateByUserCode uc now st = (Inl ErrDeviceAuthNotFound, st)"
    and "s \<in> set (db_oauth st) \<Longrightarrow> live_code uc now s \<Longrightarrow> os_Metadata s = Some m \<Longrightarrow>
      getDeviceAuthStateByUserCode uc now st = (Inr (s, m), st)"
proof -
  assume "\<not> code_used (dev_abs now st) uc"
  then have "filter (live_code uc now) (db_oauth st) = []" unfolding code_used_iff [OF assms(1)] by (simp add: filter_empty_conv)
  then show "getDeviceAuthStateByUserCode uc now st = (Inl ErrDeviceAuthNotFound, st)"
    using assms(2) by (simp add: getDeviceAuthStateByUserCode_def stmt_defs)
next
  assume "s \<in> set (db_oauth st)" "live_code uc now s" "os_Metadata s = Some m"
  then show "getDeviceAuthStateByUserCode uc now st = (Inr (s, m), st)"
    using code_row_unique [OF assms(1)] assms(2) by (simp add: getDeviceAuthStateByUserCode_def stmt_defs sort_key_def)
qed

lemma used_row:
  assumes "dev_inv now st" and "code_used (dev_abs now st) uc"
  obtains s m where "s \<in> set (db_oauth st)" "live_code uc now s" "live_row now s" "os_Metadata s = Some m" "dm_UserCode m = uc"
    "dev_abs now st (os_State s) = Some (uc, phase_of m)"
proof -
  obtain s where s: "s \<in> set (db_oauth st)" "live_code uc now s" using assms(2) code_used_iff [OF assms(1)] by blast
  then obtain m where m: "live_row now s" "os_Metadata s = Some m" "dm_UserCode m = uc" unfolding live_code_row by auto
  have "distinct (map os_State (db_oauth st))" using assms(1) by (simp add: dev_inv_def)
  then have "dev_abs now st (os_State s) = Some (uc, phase_of m)" using dev_abs_iff s m by blast
  then show thesis using that s m by blast
qed

definition set_meta :: "uuid \<Rightarrow> device_metadata \<Rightarrow> oauth_state \<Rightarrow> oauth_state" where
  "set_meta uid meta s = (if os_UID s = uid then s\<lparr>os_Metadata := Some meta\<rparr> else s)"

lemma set_meta_sel [simp]:
  "os_State (set_meta uid meta s) = os_State s" "os_UID (set_meta uid meta s) = os_UID s"
  "os_Provider (set_meta uid meta s) = os_Provider s" "live_row now (set_meta uid meta s) = live_row now s"
  "os_Metadata (set_meta uid meta s) = (if os_UID s = uid then Some meta else os_Metadata s)"
  by (simp_all add: set_meta_def live_row_def)

lemma respond_update_exec:
  assumes "dev_inv now st" and "db_faults st = []" and "s \<in> set (db_oauth st)" and "live_row now s"
    and "os_Metadata s = Some m" and "dm_Status m = DeviceAuthStatusPending"
  shows "respond_update (os_UID s) meta now st =
    (Inr (), st\<lparr>db_oauth := map (set_meta (os_UID s) meta) (db_oauth st)\<rparr>)"
proof -
  let ?hit = "\<lambda>s'. os_UID s' = os_UID s \<and> os_Provider s' = DeviceAuthProvider \<and> now < os_ExpiresAt s' \<and>
     (case os_Metadata s' of None \<Rightarrow> False | Some m \<Rightarrow> dm_Status m = DeviceAuthStatusPending)"
  have hit: "?hit s" using assms(4-6) by (simp add: live_row_def)
  have eq: "?hit s' \<longleftrightarrow> os_UID s' = os_UID s" if "s' \<in> set (db_oauth st)" for s'
  proof
    assume "os_UID s' = os_UID s"
    then have "s' = s" using distinct_map_eq [OF _ that assms(3), of os_UID] assms(1) by (simp add: dev_inv_def)
    then show "?hit s'" using hit by simp
  qed simp
  have ne: "filter ?hit (db_oauth st) \<noteq> []" using hit assms(3) by (auto simp: filter_empty_conv)
  have "update_where ?hit (\<lambda>s. s\<lparr>os_Metadata := Some meta\<rparr>) (db_oauth st) = map (set_meta (os_UID s) meta) (db_oauth st)"
    unfolding update_where_def using eq by (intro map_cong) (simp_all add: set_meta_def)
  then show ?thesis using assms(2) ne unfolding respond_update_def by (simp add: stmt_defs Let_def)
qed

lemma set_meta_refines:
  assumes inv: "dev_inv now st" and s: "s \<in> set (db_oauth st)" "live_row now s" "os_Metadata s = Some m"
    and code: "dm_UserCode meta = dm_UserCode m"
  shows "dev_abs now (st\<lparr>db_oauth := map (set_meta (os_UID s) meta) (db_oauth st)\<rparr>)
      = (dev_abs now st)(os_State s \<mapsto> (dm_UserCode m, phase_of meta))"
    and "dev_inv now (st\<lparr>db_oauth := map (set_meta (os_UID s) meta) (db_oauth st)\<rparr>)"
proof -
  let ?f = "set_meta (os_UID s) meta"
  have d: "distinct (map os_State (db_oauth st))" "distinct (map os_UID (db_oauth st))" using inv by (simp_all add: dev_inv_def)
  have only: "t = s" if "t \<in> set (db_oauth st)" "os_UID t = os_UID s" for t using distinct_map_eq [OF d(2) that(1) s(1) that(2)] .
  have codes: "map_option dm_UserCode (os_Metadata (?f t)) = map_option dm_UserCode (os_Metadata t)" if "t \<in> set (db_oauth st)" for t
    using only [OF that] s(3) code by (cases "os_UID t = os_UID s") simp_all
  have pred: "(\<lambda>t. os_State t = k \<and> live_row now t) \<circ> ?f = (\<lambda>t. os_State t = k \<and> live_row now t)" for k by (simp add: comp_def)
  show "dev_abs now (st\<lparr>db_oauth := map ?f (db_oauth st)\<rparr>) = (dev_abs now st)(os_State s \<mapsto> (dm_UserCode m, phase_of meta))"
  proof
    fix k show "dev_abs now (st\<lparr>db_oauth := map ?f (db_oauth st)\<rparr>) k = ((dev_abs now st)(os_State s \<mapsto> (dm_UserCode m, phase_of meta))) k"
    proof (cases "find (\<lambda>t. os_State t = k \<and> live_row now t) (db_oauth st)")
      case None
      then have "k \<noteq> os_State s" using s(1,2) by (auto simp: find_None_iff)
      then show ?thesis using None by (simp add: dev_abs_def find_map pred)
    next
      case (Some t)
      then have t: "t \<in> set (db_oauth st)" "os_State t = k" by (auto dest: find_SomeD)
      have "os_UID t = os_UID s \<longleftrightarrow> k = os_State s" using only [OF t(1)] t(2) distinct_map_eq [OF d(1) t(1) s(1)] by auto
      then show ?thesis using Some code by (simp add: dev_abs_def find_map pred)
    qed
  qed
  show "dev_inv now (st\<lparr>db_oauth := map ?f (db_oauth st)\<rparr>)"
    using inv codes unfolding dev_inv_def by (simp add: comp_def) (metis (no_types, opaque_lifting))
qed

lemma respond_refines:
  assumes "dev_inv now st" and "db_faults st = []" and "dev_exec label (DevRespond uc ok key) uid now st = (out, st')"
  shows "dev_spec (dev_abs now st) (DevRespond uc ok key) out (dev_abs now st') \<and> dev_inv now st'"
proof (cases "code_used (dev_abs now st) uc")
  case False
  then show ?thesis using assms lookup_code(1) [OF assms(1,2) False]
    by (auto simp: RespondToDeviceAuthByUserCode_def and_then_def intro: dev_spec.respond_unknown)
next
  case True
  then obtain s m where s: "s \<in> set (db_oauth st)" "live_code uc now s" "live_row now s" "os_Metadata s = Some m"
    "dm_UserCode m = uc" "dev_abs now st (os_State s) = Some (uc, phase_of m)" by (rule used_row [OF assms(1)])
  note found = lookup_code(2) [OF assms(1,2) s(1,2,4)]
  show ?thesis
  proof (cases "dm_Status m = DeviceAuthStatusPending")
    case False
    then have "phase_of m \<noteq> DevPending" by (simp add: phase_of_def)
    then have late: "dev_spec (dev_abs now st) (DevRespond uc ok key) (Refused ErrDeviceAuthAlreadyResolved) (dev_abs now st)"
      by (rule dev_spec.respond_late [where m = "dev_abs now st", OF s(6)])
    have "out = Refused ErrDeviceAuthAlreadyResolved" "st' = st"
      using assms(3) found False by (simp_all add: RespondToDeviceAuthByUserCode_def and_then_def)
    then show ?thesis using assms(1) late by simp
  next
    case True
    let ?meta = "resolve uid ok key label m"
    have pend: "dev_abs now st (os_State s) = Some (uc, DevPending)" using s(6) True by (simp add: phase_of_def)
    have out: "out = Responded" "st' = st\<lparr>db_oauth := map (set_meta (os_UID s) ?meta) (db_oauth st)\<rparr>"
      using assms(3) found True respond_update_exec [OF assms(1,2) s(1,3,4) True, of ?meta]
      by (simp_all add: RespondToDeviceAuthByUserCode_def and_then_def)
    have code: "dm_UserCode ?meta = dm_UserCode m" by (simp add: resolve_def)
    have ph: "phase_of ?meta = (if ok then DevApproved key else DevDenied)"
      by (simp add: resolve_def phase_of_def device_status)
    note upd = set_meta_refines [OF assms(1) s(1,3,4) code]
    show ?thesis unfolding out using upd ph s(5) dev_spec.approve [where m = "dev_abs now st", OF pend, of key]
        dev_spec.deny [where m = "dev_abs now st", OF pend, of key]
      by (cases ok) simp_all
  qed
qed

lemma delete_refines:
  assumes inv: "dev_inv now st" and s: "s \<in> set (db_oauth st)" "live_row now s"
  shows "dev_abs now (st\<lparr>db_oauth := filter (\<lambda>t. os_UID t \<noteq> os_UID s) (db_oauth st)\<rparr>) = (dev_abs now st)(os_State s := None)"
    and "dev_inv now (st\<lparr>db_oauth := filter (\<lambda>t. os_UID t \<noteq> os_UID s) (db_oauth st)\<rparr>)"
proof -
  have d: "distinct (map os_State (db_oauth st))" "distinct (map os_UID (db_oauth st))" using inv by (simp_all add: dev_inv_def)
  have "os_UID t = os_UID s \<longleftrightarrow> os_State t = os_State s" if "t \<in> set (db_oauth st)" for t
    using distinct_map_eq [OF d(2) that s(1)] distinct_map_eq [OF d(1) that s(1)] by auto
  then have eq: "filter (\<lambda>t. os_UID t \<noteq> os_UID s) (db_oauth st) = filter (\<lambda>t. os_State t \<noteq> os_State s) (db_oauth st)"
    by (intro filter_cong) simp_all
  show "dev_abs now (st\<lparr>db_oauth := filter (\<lambda>t. os_UID t \<noteq> os_UID s) (db_oauth st)\<rparr>) = (dev_abs now st)(os_State s := None)"
    unfolding eq
  proof
    fix k
    have "(\<lambda>x. (os_State x = k \<and> live_row now x) \<and> os_State x \<noteq> os_State s) =
      (if k = os_State s then (\<lambda>_. False) else (\<lambda>x. os_State x = k \<and> live_row now x))" by auto
    moreover have "find (\<lambda>_. False) xs = None" for xs :: "oauth_state list" by (induction xs) simp_all
    ultimately show "dev_abs now (st\<lparr>db_oauth := filter (\<lambda>t. os_State t \<noteq> os_State s) (db_oauth st)\<rparr>) k = ((dev_abs now st)(os_State s := None)) k"
      by (simp add: dev_abs_def find_filter)
  qed
  show "dev_inv now (st\<lparr>db_oauth := filter (\<lambda>t. os_UID t \<noteq> os_UID s) (db_oauth st)\<rparr>)"
    using inv unfolding dev_inv_def by (simp add: distinct_map_filter)
qed

lemma poll_read_exec:
  assumes "dev_inv now st" and "db_faults st = []"
  shows "dev_abs now st dc = None \<Longrightarrow> poll_read dc now st = (Inl ErrDeviceAuthNotFound, st)"
    and "dev_abs now st dc = Some (uc, ph) \<Longrightarrow> \<exists>s m. poll_read dc now st = (Inr (s, m), st) \<and> s \<in> set (db_oauth st) \<and>
      live_row now s \<and> os_State s = dc \<and> os_Metadata s = Some m \<and> uc = dm_UserCode m \<and> ph = phase_of m"
proof -
  let ?f = "find (\<lambda>s. os_State s = dc \<and> live_row now s) (db_oauth st)"
  have pr: "poll_read dc now st = (case ?f of None \<Rightarrow> (Inl ErrDeviceAuthNotFound, st)
      | Some s \<Rightarrow> (case os_Metadata s of None \<Rightarrow> (Inl ErrDB, st) | Some m \<Rightarrow> (Inr (s, m), st)))"
    using assms(2) by (simp add: poll_read_def stmt_defs live_row_def split: option.split)
  have meta: "os_Metadata s \<noteq> None" if "?f = Some s" for s
  proof -
    have "s \<in> set (db_oauth st)" "live_row now s" using find_SomeD [OF that] by simp_all
    then show ?thesis using assms(1) by (simp add: dev_inv_def live_row_def)
  qed
  show "poll_read dc now st = (Inl ErrDeviceAuthNotFound, st)" if "dev_abs now st dc = None"
    using that meta unfolding pr by (cases ?f) (auto simp: dev_abs_def)
  assume a: "dev_abs now st dc = Some (uc, ph)"
  then obtain s where s: "?f = Some s" by (cases ?f) (simp_all add: dev_abs_def)
  then obtain m where m: "os_Metadata s = Some m" using meta by blast
  then have "uc = dm_UserCode m" "ph = phase_of m" using a s by (simp_all add: dev_abs_def)
  moreover have "poll_read dc now st = (Inr (s, m), st)" unfolding pr using s m by simp
  ultimately show "\<exists>s m. poll_read dc now st = (Inr (s, m), st) \<and> s \<in> set (db_oauth st) \<and>
      live_row now s \<and> os_State s = dc \<and> os_Metadata s = Some m \<and> uc = dm_UserCode m \<and> ph = phase_of m"
    using find_SomeD [OF s] m by blast
qed

lemma poll_refines:
  assumes "dev_inv now st" and "db_faults st = []" and "dev_exec label (DevPoll dc) uid now st = (out, st')"
  shows "dev_spec (dev_abs now st) (DevPoll dc) out (dev_abs now st') \<and> dev_inv now st'"
proof (cases "dev_abs now st dc")
  case None
  then show ?thesis using assms poll_read_exec(1) [OF assms(1,2) None] dev_spec.poll_unknown [where m = "dev_abs now st", OF None]
    by (simp add: PollDeviceAuthToken_def and_then_def)
next
  case (Some v)
  then obtain uc ph where v: "dev_abs now st dc = Some (uc, ph)" by (cases v) simp
  then obtain s m where s: "poll_read dc now st = (Inr (s, m), st)" "s \<in> set (db_oauth st)" "live_row now s" "os_State s = dc"
    "ph = phase_of m" using poll_read_exec(2) [OF assms(1,2)] by blast
  have fin: "PollDeviceAuthToken dc now st = poll_finish (s, m) st" using s(1) by (simp add: PollDeviceAuthToken_def and_then_def)
  note del = delete_refines [OF assms(1) s(2,3), unfolded s(4)]
  show ?thesis
  proof (cases "dm_Status m = DeviceAuthStatusPending")
    case True
    then have "out = StillPending" "st' = st" "ph = DevPending"
      using assms(3) s(5) fin by (simp_all add: poll_finish_def device_view_def phase_of_def)
    then show ?thesis using assms(1) dev_spec.poll_pending [where m = "dev_abs now st", of dc uc] v by simp
  next
    case False
    then have st': "st' = st\<lparr>db_oauth := filter (\<lambda>t. os_UID t \<noteq> os_UID s) (db_oauth st)\<rparr>"
      and out: "out = (if dm_Status m = DeviceAuthStatusDenied then Denied else Delivered (dm_EncryptedKey m))"
      using assms(2,3) fin by (simp_all add: poll_finish_def device_view_def delete_state_def stmt_defs)
    have "ph = (if dm_Status m = DeviceAuthStatusDenied then DevDenied else DevApproved (dm_EncryptedKey m))"
      using False s(5) by (simp add: phase_of_def)
    then show ?thesis unfolding st' out using del v dev_spec.poll_denied [where m = "dev_abs now st", of dc uc]
        dev_spec.poll_key [where m = "dev_abs now st", of dc uc]
      by (simp split: if_splits)
  qed
qed

lemma start_spec:
  assumes "dev_inv now st" and "db_faults st = []" and "fresh_for (DevStart dc uc) uid st"
    and "dev_exec label (DevStart dc uc) uid now st = (out, st')"
  shows "dev_spec (dev_abs now st) (DevStart dc uc) out (dev_abs now st') \<and> dev_inv now st'"
proof (cases "code_used (dev_abs now st) uc")
  case True
  then show ?thesis using assms start_exec [OF assms(1-3)] dev_spec.start_taken [OF True] by simp
next
  case False
  have out: "out = Started" "st' = st\<lparr>db_oauth := db_oauth st @ [started_row label dc uc uid now]\<rparr>"
    using start_exec [OF assms(1-3)] False assms(4) by simp_all
  show ?thesis unfolding out
    using start_refines [OF assms(1) False assms(3)] dev_spec.start [where m = "dev_abs now st", OF False] by simp
qed

lemma no_faults_kept:
  assumes "dev_exec label op uid now st = (out, st')" and "db_faults st = []"
  shows "db_faults st' = []"
  using assms
  by (cases op) (auto simp: CreateDeviceAuthRequest_def deviceAuthUserCodeExists_def CreateOAuthState_def stmt_defs Let_def
      RespondToDeviceAuthByUserCode_def getDeviceAuthStateByUserCode_def respond_update_def
      PollDeviceAuthToken_def poll_read_def poll_finish_def delete_state_def
      split: sum.splits if_splits option.splits list.splits prod.splits)

section \<open>Runs\<close>

text \<open>A sequence of calls, each with its arguments and the time it is made.\<close>

type_synonym dev_call = "string \<times> dev_op \<times> uuid \<times> time"

type_synonym 's dev_exec_fn = "string \<Rightarrow> dev_op \<Rightarrow> uuid \<Rightarrow> time \<Rightarrow> 's \<Rightarrow> dev_out \<times> 's"

fun run_calls :: "'s dev_exec_fn \<Rightarrow> dev_call list \<Rightarrow> 's \<Rightarrow> (dev_op \<times> dev_out) list" where
  "run_calls exec [] st = []"
| "run_calls exec ((l, op, uid, now) # cs) st =
     (let (out, st') = exec l op uid now st in (op, out) # run_calls exec cs st')"

text \<open>Time does not go back, and each call finds what it needs.\<close>

fun calls_ready :: "(dev_op \<Rightarrow> uuid \<Rightarrow> 's \<Rightarrow> bool) \<Rightarrow> 's dev_exec_fn \<Rightarrow> time \<Rightarrow> dev_call list \<Rightarrow> 's \<Rightarrow> bool" where
  "calls_ready ready exec t [] st = True"
| "calls_ready ready exec t ((l, op, uid, now) # cs) st \<longleftrightarrow>
     t \<le> now \<and> ready op uid st \<and> calls_ready ready exec now cs (snd (exec l op uid now st))"

locale device_flow =
  fixes exec :: "'s dev_exec_fn"
    and abs :: "time \<Rightarrow> 's \<Rightarrow> dev_state"
    and inv :: "time \<Rightarrow> 's \<Rightarrow> bool"
    and ready :: "dev_op \<Rightarrow> uuid \<Rightarrow> 's \<Rightarrow> bool"
  assumes refines: "inv now st \<Longrightarrow> ready op uid st \<Longrightarrow> exec l op uid now st = (out, st') \<Longrightarrow>
      dev_spec (abs now st) op out (abs now st') \<and> inv now st'"
    and ageing: "inv now st \<Longrightarrow> now \<le> now' \<Longrightarrow> inv now' st \<and> abs now' st \<subseteq>\<^sub>m abs now st"
begin

lemma run_is_trace: "inv t st \<Longrightarrow> calls_ready ready exec t cs st \<Longrightarrow> \<exists>m'. dev_trace (abs t st) (run_calls exec cs st) m'"
proof (induction cs arbitrary: t st)
  case Nil
  then show ?case by (auto intro: dev_trace.stop)
next
  case (Cons c cs)
  obtain l op uid now where c: "c = (l, op, uid, now)" by (cases c)
  obtain out st' where e: "exec l op uid now st = (out, st')" by fastforce
  have pre: "t \<le> now" "ready op uid st" "calls_ready ready exec now cs st'" using Cons.prems(2) c e by simp_all
  have aged: "inv now st" "abs now st \<subseteq>\<^sub>m abs t st" using ageing [OF Cons.prems(1) pre(1)] by simp_all
  have step: "dev_spec (abs now st) op out (abs now st')" "inv now st'" using refines [OF aged(1) pre(2) e] by simp_all
  obtain m' where "dev_trace (abs now st') (run_calls exec cs st') m'" using Cons.IH [OF step(2) pre(3)] by blast
  then show ?case using dev_trace.expire [OF aged(2) dev_trace.act [OF step(1)]] c e by auto
qed

lemma delivered_once:
  assumes "inv t st" and "calls_ready ready exec t cs st" and "abs t st dc = Some (uc, DevPending)"
    and "\<not> starts dc (run_calls exec cs st)"
  shows "deliveries dc (run_calls exec cs st) = []
    \<or> (\<exists>k. deliveries dc (run_calls exec cs st) = [k] \<and> approved_in uc k (run_calls exec cs st))"
proof -
  obtain m' where "dev_trace (abs t st) (run_calls exec cs st) m'" using run_is_trace [OF assms(1,2)] by blast
  from trace_once [OF this assms(4), of uc DevPending] assms(3) show ?thesis by simp
qed

end

interpretation store_device: device_flow dev_exec dev_abs "\<lambda>now st. dev_inv now st \<and> db_faults st = []" fresh_for
proof
  fix now st op uid l out st'
  assume a: "dev_inv now st \<and> db_faults st = []" "fresh_for op uid st" "dev_exec l op uid now st = (out, st')"
  then have "db_faults st' = []" using no_faults_kept by blast
  then show "dev_spec (dev_abs now st) op out (dev_abs now st') \<and> dev_inv now st' \<and> db_faults st' = []"
    using a start_spec [of now st _ _ uid l out st'] respond_refines [of now st l _ _ _ uid out st'] poll_refines [of now st l _ uid out st']
    by (cases op) simp_all
qed (use dev_inv_later dev_abs_later in blast)

text \<open>C13. The store implements the specification of the device flow: on a well-formed table, starting a
  request, answering it by its user code and polling it by its device code return what the state
  machine returns and leave the requests of its successor state.\<close>

theorem device_auth_refines:
  assumes "dev_inv now st" and "db_faults st = []" and "fresh_for op uid st"
    and "dev_exec label op uid now st = (out, st')"
  shows "dev_spec (dev_abs now st) op out (dev_abs now st') \<and> dev_inv now st'"
  using store_device.refines assms by blast

definition sample_device_db :: db where
  "sample_device_db = \<lparr>db_users = [], db_servers = [], db_grants = [], db_definitions = [], db_requests = [],
     db_connections = [], db_queries = [], db_groups = [], db_members = [], db_audit = [], db_rows = [], db_keys = [],
     db_oauth = [started_row ''cli'' ''dc1'' ''AAAA'' 1 0], db_identities = [], db_faults = []\<rparr>"

lemma sample_device_inv: "dev_inv 0 sample_device_db" "db_faults sample_device_db = []"
  by (simp_all add: dev_inv_def sample_device_db_def started_row_def)

theorem device_auth_refines_witness:
  "dev_spec (dev_abs 0 sample_device_db) (DevPoll ''dc1'') StillPending (dev_abs 0 sample_device_db) \<and> dev_inv 0 sample_device_db"
  using device_auth_refines [OF sample_device_inv, of "DevPoll ''dc1''" 0 "''cli''" StillPending sample_device_db]
  by (simp add: fresh_for_def sample_device_db_def started_row_def PollDeviceAuthToken_def poll_read_def poll_finish_def
      stmt_defs device_view_def DeviceAuthTTL_def minute_def)

text \<open>C14. Whatever operations follow one after another, in any order, without database faults and with requests expiring in
  between, the key of a device request is handed out at most once, and only after the owner of the user code approved
  it with that key. (Polls that overlap are not covered: two of them can both get the key, see \<open>concurrent_polls_both_deliver\<close>.)\<close>

theorem device_key_delivered_once:
  assumes "dev_inv t st" and "db_faults st = []" and "calls_ready fresh_for dev_exec t cs st"
    and "dev_abs t st dc = Some (uc, DevPending)" and "\<not> starts dc (run_calls dev_exec cs st)"
  shows "deliveries dc (run_calls dev_exec cs st) = []
    \<or> (\<exists>k. deliveries dc (run_calls dev_exec cs st) = [k] \<and> approved_in uc k (run_calls dev_exec cs st))"
  using store_device.delivered_once assms by blast

definition sample_device_calls :: "dev_call list" where
  "sample_device_calls = [([], DevPoll ''dc1'', 0, 1), (''dbb_1'', DevRespond ''AAAA'' True [9], 7, 2),
     ([], DevPoll ''dc1'', 0, 3), ([], DevPoll ''dc1'', 0, 4)]"

lemmas device_exec_defs = sample_device_db_def started_row_def PollDeviceAuthToken_def poll_read_def poll_finish_def
  stmt_defs device_view_def DeviceAuthTTL_def minute_def RespondToDeviceAuthByUserCode_def getDeviceAuthStateByUserCode_def
  respond_update_def resolve_def live_code_def sort_key_def update_where_def delete_state_def device_status DeviceAuthProvider_def

theorem device_key_delivered_once_witness:
  "deliveries ''dc1'' (run_calls dev_exec sample_device_calls sample_device_db) = [[9]]
   \<and> approved_in ''AAAA'' [9] (run_calls dev_exec sample_device_calls sample_device_db)"
proof -
  have run: "run_calls dev_exec sample_device_calls sample_device_db =
     [(DevPoll ''dc1'', StillPending), (DevRespond ''AAAA'' True [9], Responded), (DevPoll ''dc1'', Delivered [9]),
      (DevPoll ''dc1'', Refused ErrDeviceAuthNotFound)]"
    by (simp add: sample_device_calls_def device_exec_defs)
  have ready: "calls_ready fresh_for dev_exec 0 sample_device_calls sample_device_db"
    by (simp add: sample_device_calls_def fresh_for_def)
  have pending: "dev_abs 0 sample_device_db ''dc1'' = Some (''AAAA'', DevPending)"
    by (simp add: dev_abs_def phase_of_def live_row_def device_exec_defs)
  have "\<not> starts ''dc1'' (run_calls dev_exec sample_device_calls sample_device_db)" by (simp add: run starts_def)
  from device_key_delivered_once [OF sample_device_inv ready pending this] show ?thesis by (simp add: run)
qed

text \<open>The read and the delete of a poll are separate statements without a lock or a check of the
  number of rows deleted: two polls that both read an approved request before either deletes it
  both return its key.\<close>

theorem concurrent_polls_both_deliver:
  assumes "dev_inv now st" and "db_faults st = []" and "dev_abs now st dc = Some (uc, DevApproved k)"
  shows "\<exists>sm r. poll_read dc now st = (Inr sm, st)
     \<and> fst (poll_finish sm st) = Inr (r, k)
     \<and> fst (poll_finish sm (snd (poll_finish sm st))) = Inr (r, k)"
proof -
  obtain s m where s: "poll_read dc now st = (Inr (s, m), st)" "DevApproved k = phase_of m"
    using poll_read_exec(2) [OF assms] by blast
  have "dm_Status m \<noteq> DeviceAuthStatusPending" "dm_EncryptedKey m = k" using s(2) by (simp_all add: phase_of_def split: if_splits)
  then show ?thesis using s(1) assms(2)
    by (intro exI [of _ "(s, m)"] exI [of _ "device_view s m"]) (simp add: poll_finish_def delete_state_def stmt_defs)
qed

definition sample_approved_device_db :: db where
  "sample_approved_device_db = snd (dev_exec ''dbb_1'' (DevRespond ''AAAA'' True [9]) 7 2 sample_device_db)"

theorem concurrent_polls_both_deliver_witness:
  "\<exists>sm r. poll_read ''dc1'' 3 sample_approved_device_db = (Inr sm, sample_approved_device_db)
     \<and> fst (poll_finish sm sample_approved_device_db) = Inr (r, [9])
     \<and> fst (poll_finish sm (snd (poll_finish sm sample_approved_device_db))) = Inr (r, [9])"
proof (rule concurrent_polls_both_deliver)
  show "dev_inv 3 sample_approved_device_db"
    by (simp add: sample_approved_device_db_def dev_inv_def device_exec_defs)
  show "db_faults sample_approved_device_db = []" by (simp add: sample_approved_device_db_def device_exec_defs)
  show "dev_abs 3 sample_approved_device_db ''dc1'' = Some (''AAAA'', DevApproved [9])"
    by (simp add: sample_approved_device_db_def dev_abs_def phase_of_def live_row_def device_exec_defs)
qed

end
