(* ===== verification/Rate_Limiter.thy ===== *)
theory Rate_Limiter
  imports Models
begin

text \<open>
  \<open>internal/api/ratelimit.go\<close>: the sliding-window rate limiter of the REST API with its
  three middlewares. The text form of a user id (\<open>uuid.String\<close>) is the parameter \<open>S\<close>.
  A window's lock serialises the checks of one key, so an execution is a sequence of checks and
  cleanups at increasing times. (A cleanup that removes a stale window between a check's
  \<open>getWindow\<close> and its lock is not modelled: the check is one step.)
\<close>

record rate_limiter =
  rl_enabled :: bool
  rl_requestsPerMinute :: int
  rl_requestsPerMinuteAnon :: int
  rl_burst :: int
  rl_windows :: "string \<rightharpoonup> time list"

definition NewRateLimiter :: "bool \<Rightarrow> int \<Rightarrow> int \<Rightarrow> int \<Rightarrow> rate_limiter" where
  "NewRateLimiter enabled rpm rpmAnon burst =
     \<lparr>rl_enabled = enabled, rl_requestsPerMinute = rpm, rl_requestsPerMinuteAnon = rpmAnon,
      rl_burst = burst, rl_windows = Map.empty\<rparr>"

section \<open>Windows\<close>

definition rl_cleanup :: "time \<Rightarrow> rate_limiter \<Rightarrow> rate_limiter" where
  "rl_cleanup now rl =
     rl\<lparr>rl_windows := (\<lambda>k. case rl_windows rl k of None \<Rightarrow> None
        | Some w \<Rightarrow> if length w = 0 then None
                   else if time_Sub now (last w) > minute then None
                   else Some w)\<rparr>"

definition getWindow :: "string \<Rightarrow> rate_limiter \<Rightarrow> time list \<times> rate_limiter" where
  "getWindow key rl =
     (case rl_windows rl key of
        Some w \<Rightarrow> (w, rl)
      | None \<Rightarrow> ([], rl\<lparr>rl_windows := (rl_windows rl)(key \<mapsto> [])\<rparr>))"

text \<open>The loop of \<open>check\<close> that finds the first timestamp inside the window.\<close>

fun valid_start :: "time \<Rightarrow> nat \<Rightarrow> nat \<Rightarrow> time list \<Rightarrow> nat \<Rightarrow> nat" where
  "valid_start windowStart n i [] validStart = validStart"
| "valid_start windowStart n i (ts # tss) validStart =
     (if windowStart < ts then i
      else valid_start windowStart n (Suc i) tss (if Suc i = n then n else validStart))"

definition check :: "string \<Rightarrow> int \<Rightarrow> time \<Rightarrow> rate_limiter \<Rightarrow> (bool \<times> int \<times> time) \<times> rate_limiter" where
  "check key limit now rl =
     (let (w, rl1) = getWindow key rl;
          windowStart = now - minute;
          w1 = drop (valid_start windowStart (length w) 0 w 0) w;
          effectiveLimit = limit + rl_burst rl;
          currentCount = int (length w1);
          remaining = effectiveLimit - currentCount - 1;
          remaining' = (if remaining < 0 then 0 else remaining);
          resetTime = (if length w1 > 0 then w1 ! 0 + minute else now + minute)
      in if currentCount \<ge> effectiveLimit
         then ((False, 0, resetTime), rl1\<lparr>rl_windows := (rl_windows rl1)(key \<mapsto> w1)\<rparr>)
         else ((True, remaining', resetTime), rl1\<lparr>rl_windows := (rl_windows rl1)(key \<mapsto> w1 @ [now])\<rparr>))"

section \<open>Middlewares\<close>

text \<open>The rate-limit headers and what becomes of the request.\<close>

record rl_headers =
  hdr_Limit :: int
  hdr_Remaining :: int
  hdr_Reset :: int

datatype mw_result = Next "rl_headers option" | TooManyRequests rl_headers int

definition retry_after :: "time \<Rightarrow> time \<Rightarrow> int" where
  "retry_after resetTime now =
     (let d = time_Sub resetTime now;
          s = (if d < 0 then - ((- d) div seconds 1) else d div seconds 1)
      in if s < 1 then 1 else s)"

definition limited :: "string \<Rightarrow> int \<Rightarrow> time \<Rightarrow> time \<Rightarrow> rate_limiter \<Rightarrow> mw_result \<times> rate_limiter" where
  "limited key limit now now' rl =
     (let ((allowed, remaining, resetTime), rl') = check key limit now rl;
          h = \<lparr>hdr_Limit = limit, hdr_Remaining = remaining, hdr_Reset = resetTime div seconds 1\<rparr>
      in if \<not> allowed then (TooManyRequests h (retry_after resetTime now'), rl')
         else (Next (Some h), rl'))"

definition Middleware ::
  "(uuid \<Rightarrow> string) \<Rightarrow> user option \<Rightarrow> string \<Rightarrow> time \<Rightarrow> time \<Rightarrow> rate_limiter
   \<Rightarrow> mw_result \<times> rate_limiter" where
  "Middleware S usr clientIP now now' rl =
     (if \<not> rl_enabled rl then (Next None, rl)
      else case usr of
        Some u \<Rightarrow>
          if usr_RateLimitExempt u then (Next None, rl)
          else limited (''user:'' @ S (usr_UID u)) (rl_requestsPerMinute rl) now now' rl
      | None \<Rightarrow> limited (''ip:'' @ clientIP) (rl_requestsPerMinuteAnon rl) now now' rl)"

definition PostAuthMiddleware ::
  "(uuid \<Rightarrow> string) \<Rightarrow> user option \<Rightarrow> time \<Rightarrow> time \<Rightarrow> rate_limiter \<Rightarrow> mw_result \<times> rate_limiter" where
  "PostAuthMiddleware S usr now now' rl =
     (if \<not> rl_enabled rl then (Next None, rl)
      else case usr of
        None \<Rightarrow> (Next None, rl)
      | Some u \<Rightarrow>
          if usr_RateLimitExempt u then (Next None, rl)
          else limited (''user:'' @ S (usr_UID u)) (rl_requestsPerMinute rl) now now' rl)"

definition PreAuthMiddleware ::
  "string \<Rightarrow> time \<Rightarrow> time \<Rightarrow> rate_limiter \<Rightarrow> mw_result \<times> rate_limiter" where
  "PreAuthMiddleware clientIP now now' rl =
     (if \<not> rl_enabled rl then (Next None, rl)
      else limited (''ip:'' @ clientIP) (rl_requestsPerMinuteAnon rl) now now' rl)"

fun first_after :: "time \<Rightarrow> time list \<Rightarrow> time option" where
  "first_after ws [] = None"
| "first_after ws (t # ts) = (if ws < t then Some t else first_after ws ts)"

definition GetStats ::
  "(uuid \<Rightarrow> string) \<Rightarrow> uuid option \<Rightarrow> string \<Rightarrow> time \<Rightarrow> rate_limiter \<Rightarrow> int \<times> time" where
  "GetStats S userID ip now rl =
     (let key = (case userID of Some u \<Rightarrow> ''user:'' @ S u | None \<Rightarrow> ''ip:'' @ ip) in
      case rl_windows rl key of
        None \<Rightarrow> (0, now + minute)
      | Some w \<Rightarrow>
          (int (length (filter (\<lambda>ts. now - minute < ts) w)),
           (case first_after (now - minute) w of None \<Rightarrow> now + minute | Some ts \<Rightarrow> ts + minute)))"

section \<open>Executions\<close>

datatype rl_event = RlCheck string int | RlCleanup

text \<open>A run, and the admitted requests of it with their times, in order.\<close>

fun rl_run :: "rate_limiter \<Rightarrow> (rl_event \<times> time) list \<Rightarrow> rate_limiter \<times> (string \<times> time) list" where
  "rl_run rl [] = (rl, [])"
| "rl_run rl ((RlCheck key limit, now) # es) =
     (let ((allowed, _, _), rl1) = check key limit now rl; (rl2, adm) = rl_run rl1 es
      in (rl2, (if allowed then [(key, now)] else []) @ adm))"
| "rl_run rl ((RlCleanup, now) # es) = rl_run (rl_cleanup now rl) es"

section \<open>The window is the recent history\<close>

lemma valid_start_drop:
  "drop (valid_start ws (i + length tss) i tss vs) (pre @ tss) = dropWhile (\<lambda>t. t \<le> ws) tss"
  if "length pre = i" and "tss = [] \<longrightarrow> vs = i"
  using that
proof (induction tss arbitrary: i vs pre)
  case (Cons t tss)
  show ?case
  proof (cases "ws < t")
    case False
    let ?n = "i + length (t # tss)"
    have "drop (valid_start ws (Suc i + length tss) (Suc i) tss (if Suc i = ?n then ?n else vs))
      ((pre @ [t]) @ tss) = dropWhile (\<lambda>t. t \<le> ws) tss"
      by (rule Cons.IH) (use Cons.prems in auto)
    moreover have "valid_start ws ?n i (t # tss) vs =
      valid_start ws (Suc i + length tss) (Suc i) tss (if Suc i = ?n then ?n else vs)"
      using False by simp
    moreover have "(pre @ [t]) @ tss = pre @ t # tss" by simp
    moreover have "dropWhile (\<lambda>t. t \<le> ws) (t # tss) = dropWhile (\<lambda>t. t \<le> ws) tss"
      using False by simp
    ultimately show ?thesis by metis
  qed (use Cons.prems in auto)
qed simp

lemma check_trim: "drop (valid_start ws (length w) 0 w 0) w = dropWhile (\<lambda>t. t \<le> ws) w"
  using valid_start_drop [of "[]" 0 w 0 ws] by simp

definition window :: "rate_limiter \<Rightarrow> string \<Rightarrow> time list" where
  "window rl k = (case rl_windows rl k of None \<Rightarrow> [] | Some w \<Rightarrow> w)"

definition recent :: "time \<Rightarrow> time list \<Rightarrow> time list" where
  "recent now ts = filter (\<lambda>t. now - minute < t) ts"

lemma recent_Nil [simp]: "recent now [] = []"
  by (simp add: recent_def)

lemma dropWhile_recent: "sorted w \<Longrightarrow> dropWhile (\<lambda>t. t \<le> now - minute) w = recent now w"
proof (induction w)
  case (Cons a w)
  then show ?case
    by (cases "now - minute < a") (auto simp: recent_def intro!: filter_True [symmetric])
qed (simp add: recent_def)

lemma recent_recent: "now \<le> now' \<Longrightarrow> recent now' (recent now w) = recent now' w"
  by (auto simp: recent_def intro!: filter_cong)

lemma check_window:
  assumes "sorted (window rl k)"
  shows "fst (fst (check k limit now rl)) \<longleftrightarrow> int (length (recent now (window rl k))) < limit + rl_burst rl"
    and "window (snd (check k limit now rl)) k =
      recent now (window rl k) @ (if fst (fst (check k limit now rl)) then [now] else [])"
    and "k' \<noteq> k \<Longrightarrow> window (snd (check k limit now rl)) k' = window rl k'"
    and "rl_burst (snd (check k limit now rl)) = rl_burst rl"
  using dropWhile_recent [OF assms, of now]
  by (auto simp: check_def check_trim getWindow_def window_def Let_def split: option.splits)

lemma cleanup_window:
  "window (rl_cleanup now rl) k = window rl k
   \<or> window (rl_cleanup now rl) k = [] \<and> (window rl k = [] \<or> time_Sub now (last (window rl k)) > minute)"
  by (auto simp: rl_cleanup_def window_def split: option.splits)

lemma cleanup_recent:
  assumes "sorted (window rl k)" and "now \<le> now'"
  shows "recent now' (window (rl_cleanup now rl) k) = recent now' (window rl k)"
    and "sorted (window (rl_cleanup now rl) k)" and "set (window (rl_cleanup now rl) k) \<subseteq> set (window rl k)"
proof -
  have "recent now' (window rl k) = []"
    if "window rl k \<noteq> []" "time_Sub now (last (window rl k)) > minute"
  proof -
    have "last (window rl k) < now - minute"
      using that(2) by (auto simp: time_Sub_def minute_def)
    moreover have "\<forall>t\<in>set (window rl k). t \<le> last (window rl k)"
      using assms(1) that(1) by (metis append_butlast_last_id in_set_conv_decomp insertE list.set(2)
          empty_iff empty_set sorted_append set_append UnE list.set_intros(1) order_refl)
    ultimately show ?thesis using assms(2) by (fastforce simp: recent_def filter_empty_conv)
  qed
  then show "recent now' (window (rl_cleanup now rl) k) = recent now' (window rl k)"
    using cleanup_window [of now rl k] by (cases "window rl k = []") auto
  show "sorted (window (rl_cleanup now rl) k)" "set (window (rl_cleanup now rl) k) \<subseteq> set (window rl k)"
    using cleanup_window [of now rl k] assms(1) by auto
qed

text \<open>
  The invariant of one key: its window, restricted to the last minute, is its admission history
  \<open>A\<close> restricted to the last minute, and no minute of that history holds more than \<open>E\<close>
  admissions.
\<close>

definition in_minute :: "time \<Rightarrow> time list \<Rightarrow> time list" where
  "in_minute t A = filter (\<lambda>a. t - minute < a \<and> a \<le> t) A"

definition rl_inv :: "int \<Rightarrow> rate_limiter \<Rightarrow> string \<Rightarrow> time \<Rightarrow> time list \<Rightarrow> bool" where
  "rl_inv E rl k now A \<longleftrightarrow>
     sorted (window rl k) \<and> (\<forall>t\<in>set (window rl k). t \<le> now) \<and> (\<forall>t\<in>set A. t \<le> now) \<and>
     recent now (window rl k) = recent now A \<and>
     (\<forall>t. int (length (in_minute t A)) \<le> max 0 E)"

lemma rl_inv_later:
  "rl_inv E rl k now A \<Longrightarrow> now \<le> now' \<Longrightarrow> recent now' (window rl k) = recent now' A"
  using recent_recent [of now now' "window rl k"] recent_recent [of now now' A]
  by (simp add: rl_inv_def)

lemma in_minute_snoc:
  assumes "\<forall>a\<in>set A. a \<le> now" and "int (length (recent now A)) < E"
    and "\<forall>t. int (length (in_minute t A)) \<le> max 0 E"
  shows "int (length (in_minute t (A @ [now]))) \<le> max 0 E"
proof (cases "now \<le> t")
  case True
  have "length (in_minute t A) \<le> length (recent now A)"
  proof -
    have "in_minute t A = filter (\<lambda>a. t - minute < a \<and> a \<le> t) (recent now A)"
      using True by (auto simp: in_minute_def recent_def intro!: filter_cong)
    then show ?thesis by simp
  qed
  with assms(2) show ?thesis by (simp add: in_minute_def)
next
  case False
  then show ?thesis using assms(3) by (simp add: in_minute_def)
qed

lemma check_inv:
  assumes "rl_inv (limit + rl_burst rl) rl k now A" and "now \<le> now'"
  shows "rl_inv (limit + rl_burst rl) (snd (check k limit now' rl)) k now'
    (A @ (if fst (fst (check k limit now' rl)) then [now'] else []))"
proof -
  have s: "sorted (window rl k)" and le: "\<forall>t\<in>set (window rl k). t \<le> now" "\<forall>a\<in>set A. a \<le> now"
    and bd: "\<forall>t. int (length (in_minute t A)) \<le> max 0 (limit + rl_burst rl)"
    using assms(1) by (auto simp: rl_inv_def)
  note w = check_window [OF s, where limit = limit and now = now']
  have rec: "recent now' (window rl k) = recent now' A" using rl_inv_later [OF assms] .
  have ss: "sorted (recent now' (window rl k))" using s by (simp add: recent_def sorted_wrt_filter)
  have le': "\<forall>t\<in>set (recent now' (window rl k)). t \<le> now'" "\<forall>a\<in>set A. a \<le> now'"
    using le assms(2) by (auto simp: recent_def)
  show ?thesis
  proof (cases "fst (fst (check k limit now' rl))")
    case True
    then have "int (length (recent now' A)) < limit + rl_burst rl" using w(1) rec by simp
    from in_minute_snoc [OF le'(2) this bd] True w(2) ss le' rec show ?thesis
      by (auto simp: rl_inv_def sorted_append recent_recent minute_def) (auto simp: recent_def)
  next
    case False
    with w(2) ss le' rec bd show ?thesis by (auto simp: rl_inv_def recent_recent)
  qed
qed

lemma other_check_inv:
  "rl_inv E rl k now A \<Longrightarrow> now \<le> now' \<Longrightarrow> sorted (window rl k') \<Longrightarrow> k' \<noteq> k \<Longrightarrow>
     rl_inv E (snd (check k' limit now' rl)) k now' A"
  using rl_inv_later [of E rl k now A now'] check_window(3) [of rl k' k limit now']
  by (auto simp: rl_inv_def)

lemma cleanup_inv:
  assumes "rl_inv E rl k now A" and "now \<le> now'"
  shows "rl_inv E (rl_cleanup now' rl) k now' A"
proof -
  have "sorted (window rl k)" using assms(1) by (simp add: rl_inv_def)
  note c = cleanup_recent [OF this order_refl, of now']
  show ?thesis
    using c rl_inv_later [OF assms] assms by (auto simp: rl_inv_def intro: order_trans)
qed

text \<open>All windows stay sorted when the clock does not go back.\<close>

definition rl_sorted :: "rate_limiter \<Rightarrow> time \<Rightarrow> bool" where
  "rl_sorted rl now \<longleftrightarrow> (\<forall>k. sorted (window rl k) \<and> (\<forall>t\<in>set (window rl k). t \<le> now))"

lemma check_sorted:
  assumes "rl_sorted rl now" and "now \<le> now'"
  shows "rl_sorted (snd (check k limit now' rl)) now'"
proof -
  have s: "sorted (window rl k)" using assms(1) by (simp add: rl_sorted_def)
  show ?thesis unfolding rl_sorted_def
  proof
    fix k'
    show "sorted (window (snd (check k limit now' rl)) k') \<and>
      (\<forall>t\<in>set (window (snd (check k limit now' rl)) k'). t \<le> now')"
    proof (cases "k' = k")
      case True
      then show ?thesis using assms check_window(2) [OF s, of limit now']
        by (auto simp: rl_sorted_def sorted_append recent_def sorted_wrt_filter intro: order_trans)
    next
      case False
      then show ?thesis using assms check_window(3) [OF s, of k' limit now']
        by (auto simp: rl_sorted_def intro: order_trans)
    qed
  qed
qed

lemma cleanup_sorted: "rl_sorted rl now \<Longrightarrow> now \<le> now' \<Longrightarrow> rl_sorted (rl_cleanup now' rl) now'"
  using cleanup_recent(2,3) [of rl _ now' now'] by (fastforce simp: rl_sorted_def)

lemma cleanup_burst [simp]: "rl_burst (rl_cleanup now rl) = rl_burst rl"
  by (simp add: rl_cleanup_def)

lemma check_step_inv:
  assumes "rl_inv (L + rl_burst rl) rl k now A" and "rl_sorted rl now" and "now \<le> now'"
    and "key = k \<longrightarrow> limit = L" and c: "check key limit now' rl = ((a, r), rl1)"
  shows "rl_inv (L + rl_burst rl) rl1 k now' (A @ (if a \<and> key = k then [now'] else []))"
    and "rl_sorted rl1 now'" and "rl_burst rl1 = rl_burst rl"
proof -
  have s: "sorted (window rl key)" using assms(2) by (simp add: rl_sorted_def)
  show "rl_burst rl1 = rl_burst rl" using check_window(4) [OF s, of limit now'] c by simp
  show "rl_sorted rl1 now'" using check_sorted [OF assms(2,3), of key limit] c by simp
  show "rl_inv (L + rl_burst rl) rl1 k now' (A @ (if a \<and> key = k then [now'] else []))"
  proof (cases "key = k")
    case True
    with assms(4) check_inv [of limit rl key now A now'] assms(1,3) c show ?thesis by auto
  next
    case False
    with other_check_inv [OF assms(1,3) s False, of limit] c show ?thesis by auto
  qed
qed

definition admitted :: "string \<Rightarrow> (string \<times> time) list \<Rightarrow> time list" where
  "admitted k adm = map snd (filter (\<lambda>e. fst e = k) adm)"

lemma admitted_simps [simp]:
  "admitted k [] = []"
  "admitted k ((k', t) # adm) = (if k' = k then [t] else []) @ admitted k adm"
  by (simp_all add: admitted_def)

lemma rl_run_inv:
  assumes "rl_inv (L + rl_burst rl) rl k now A" and "rl_sorted rl now"
    and "sorted (now # map snd es)"
    and "\<forall>limit t. (RlCheck k limit, t) \<in> set es \<longrightarrow> limit = L"
  shows "rl_inv (L + rl_burst rl) (fst (rl_run rl es)) k (last (now # map snd es))
    (A @ admitted k (snd (rl_run rl es)))"
  using assms
proof (induction es arbitrary: rl now A)
  case (Cons e es)
  obtain ev now' where e: "e = (ev, now')" by force
  have le: "now \<le> now'" and srt: "sorted (now' # map snd es)" using Cons.prems(3) e by auto
  have lim: "\<forall>limit t. (RlCheck k limit, t) \<in> set es \<longrightarrow> limit = L" using Cons.prems(4) by auto
  show ?case
  proof (cases ev)
    case (RlCheck key limit)
    obtain a r rl1 where c: "check key limit now' rl = ((a, r), rl1)" by (metis surj_pair)
    have "key = k \<longrightarrow> limit = L" using Cons.prems(4) e RlCheck by auto
    note st = check_step_inv [OF Cons.prems(1,2) le this c]
    from Cons.IH [OF _ st(2) srt lim, unfolded st(3), OF st(1)]
    have "rl_inv (L + rl_burst rl) (fst (rl_run rl1 es)) k (last (now' # map snd es))
      ((A @ (if a \<and> key = k then [now'] else [])) @ admitted k (snd (rl_run rl1 es)))" .
    then show ?thesis using e RlCheck c
      by (cases r; cases "rl_run rl1 es") (auto split: if_splits)
  next
    case RlCleanup
    from Cons.IH [OF _ cleanup_sorted [OF Cons.prems(2) le] srt lim, of A]
      cleanup_inv [OF Cons.prems(1) le] e RlCleanup
    show ?thesis by simp
  qed
qed simp

text \<open>From a new limiter, the invariant holds at any time after the last event.\<close>

lemma new_inv: "rl_inv E (NewRateLimiter en a b burst) k now []" "rl_sorted (NewRateLimiter en a b burst) now"
  by (simp_all add: rl_inv_def rl_sorted_def NewRateLimiter_def window_def in_minute_def)

lemma new_run_inv:
  assumes "sorted (map snd es @ [now])"
    and "\<forall>limit t. (RlCheck k limit, t) \<in> set es \<longrightarrow> limit = L"
  shows "\<exists>t\<le>now. rl_inv (L + burst) (fst (rl_run (NewRateLimiter en a b burst) es)) k t
    (admitted k (snd (rl_run (NewRateLimiter en a b burst) es)))"
proof -
  let ?rl = "NewRateLimiter en a b burst"
  define t0 where "t0 = (case es of [] \<Rightarrow> now | e # _ \<Rightarrow> snd e)"
  have b: "rl_burst ?rl = burst" by (simp add: NewRateLimiter_def)
  have "sorted (t0 # map snd es)" using assms(1) by (cases es) (auto simp: t0_def sorted_append)
  from rl_run_inv [OF new_inv(1) new_inv(2) this assms(2), of en a b burst]
  have "rl_inv (L + burst) (fst (rl_run ?rl es)) k (last (t0 # map snd es)) (admitted k (snd (rl_run ?rl es)))"
    by (simp add: b)
  moreover have "last (t0 # map snd es) \<le> now"
    using assms(1) by (cases es rule: rev_cases) (auto simp: t0_def sorted_append)
  ultimately show ?thesis by blast
qed

lemma in_minute_recent: "\<forall>a\<in>set A. a \<le> now \<Longrightarrow> in_minute now A = recent now A"
  by (auto simp: in_minute_def recent_def intro!: filter_cong)

lemma rl_inv_recent_bound:
  assumes "rl_inv E rl k t A" and "t \<le> now"
  shows "recent now (window rl k) = in_minute now A"
    and "int (length (recent now (window rl k))) \<le> max 0 E"
proof -
  have "\<forall>a\<in>set A. a \<le> now" using assms by (auto simp: rl_inv_def)
  then show eq: "recent now (window rl k) = in_minute now A"
    using rl_inv_later [OF assms] in_minute_recent by simp
  show "int (length (recent now (window rl k))) \<le> max 0 E"
    unfolding eq using assms(1) by (simp add: rl_inv_def)
qed

lemma check_burst [simp]: "rl_burst (snd (check k limit now rl)) = rl_burst rl"
  by (auto simp: check_def getWindow_def Let_def split: option.splits)

lemma run_burst [simp]: "rl_burst (fst (rl_run rl es)) = rl_burst rl"
proof (induction es arbitrary: rl)
  case (Cons e es)
  obtain ev now where e: "e = (ev, now)" by force
  show ?case
  proof (cases ev)
    case (RlCheck key limit)
    obtain a r rl1 where c: "check key limit now rl = ((a, r), rl1)" by (metis surj_pair)
    then have "rl_burst rl1 = rl_burst rl" using check_burst [of key limit now rl] by simp
    with Cons.IH [of rl1] c e RlCheck show ?thesis by (cases r; cases "rl_run rl1 es") auto
  qed (use Cons.IH e in simp)
qed simp



lemma GetStats_window:
  "fst (GetStats S None ip now rl) = int (length (recent now (window rl (''ip:'' @ ip))))"
  "fst (GetStats S (Some u) ip now rl) = int (length (recent now (window rl (''user:'' @ S u))))"
  by (auto simp: GetStats_def window_def recent_def split: option.splits)

section \<open>Properties\<close>

text \<open>C34. The sliding window holds: in every run of a new limiter, whatever cleanups and
  requests of other keys are interleaved, no minute contains more admitted requests of one key
  than its limit plus the burst.\<close>

theorem sliding_window_bound:
  assumes "sorted (map snd es)"
    and "\<forall>limit t. (RlCheck k limit, t) \<in> set es \<longrightarrow> limit = L"
  shows "int (length (in_minute t (admitted k (snd (rl_run (NewRateLimiter en a b burst) es)))))
    \<le> max 0 (L + burst)"
proof -
  obtain now where "sorted (map snd es @ [now])"
    using assms(1) by (cases es rule: rev_cases) (force simp: sorted_append)+
  from new_run_inv [OF this assms(2), of burst en a b] show ?thesis by (auto simp: rl_inv_def)
qed

theorem sliding_window_bound_witness:
  "int (length (in_minute 9 (admitted ''ip:h'' (snd (rl_run (NewRateLimiter True 5 1 1)
     [(RlCheck ''ip:h'' 1, 5), (RlCleanup, 6), (RlCheck ''ip:h'' 1, 7), (RlCheck ''ip:h'' 1, 9)])))))
   \<le> max 0 (1 + 1)"
  by (rule sliding_window_bound) auto




lemma reset_header_early:
  "\<exists>h wait. fst (limited ''ip:h'' 1 (seconds 60) (seconds 60) ((NewRateLimiter True 5 1 0)\<lparr>rl_windows := [''ip:h'' \<mapsto> [5]]\<rparr>)) = TooManyRequests h wait"
  by (simp add: limited_def check_def getWindow_def NewRateLimiter_def minute_def seconds_def Let_def)

text \<open>The statistics are exact: after any run, \<open>GetStats\<close> of an address reports the
  number of requests of that address admitted during the last minute, however many stale
  timestamps the windows still hold.\<close>

theorem stats_exact:
  assumes "sorted (map snd es @ [now])"
    and "\<forall>limit t. (RlCheck (''ip:'' @ ip) limit, t) \<in> set es \<longrightarrow> limit = L"
  shows "fst (GetStats S None ip now (fst (rl_run (NewRateLimiter en a b burst) es))) =
    int (length (in_minute now (admitted (''ip:'' @ ip) (snd (rl_run (NewRateLimiter en a b burst) es)))))"
proof -
  obtain t where t: "t \<le> now" "rl_inv (L + burst) (fst (rl_run (NewRateLimiter en a b burst) es)) (''ip:'' @ ip) t
    (admitted (''ip:'' @ ip) (snd (rl_run (NewRateLimiter en a b burst) es)))"
    using new_run_inv [OF assms, of burst en a b] by blast
  show ?thesis unfolding GetStats_window rl_inv_recent_bound(1) [OF t(2,1)] ..
qed

theorem stats_exact_witness:
  "fst (GetStats (\<lambda>_. []) None ''h'' 8 (fst (rl_run (NewRateLimiter True 5 1 0)
     [(RlCheck ''ip:h'' 3, 5), (RlCleanup, 6), (RlCheck ''ip:h'' 3, 7)]))) =
   int (length (in_minute 8 (admitted (''ip:'' @ ''h'') (snd (rl_run (NewRateLimiter True 5 1 0)
     [(RlCheck ''ip:h'' 3, 5), (RlCleanup, 6), (RlCheck ''ip:h'' 3, 7)])))))"
  by (rule stats_exact [where L = 3]) auto

end
