(* ===== verification/Dump.thy ===== *)
theory Dump
  imports Models
begin

text \<open>
  \<open>internal/dump\<close>: the binary session dumps. A file system maps paths to contents, accepts a
  bounded number of further bytes (a write beyond them is short and fails, as on a full disk)
  and refuses to create some paths. A writer and a reader hold the path of their open file, so
  reading a file that is being rewritten is visible. The JSON codec of the header is the pair of
  parameters \<open>jMarshal\<close>, \<open>jUnmarshal\<close>; the laws used of it are hypotheses.
\<close>

section \<open>Format\<close>

definition magic :: bytes where
  "magic = [0x44, 0x42, 0x42, 0x41, 0x54, 0x5F, 0x44, 0x55, 0x4D, 0x50, 0, 0, 0, 0, 0, 0]"

definition magicSize :: nat where "magicSize = 16"
definition minMagic :: nat where "minMagic = 10"
definition dump_version :: u16 where "dump_version = 2"
definition versionLen :: nat where "versionLen = 2"
definition headerLenLen :: nat where "headerLenLen = 4"
definition eofMarker :: byte where "eofMarker = 0xFF"
definition packetFrameSize :: nat where "packetFrameSize = 13"
definition FileExt :: string where "FileExt = ''.dbbat-dump''"

definition DirClientToServer :: byte where "DirClientToServer = 0"
definition DirServerToClient :: byte where "DirServerToClient = 1"

lemmas dump_consts = magicSize_def minMagic_def dump_version_def versionLen_def headerLenLen_def
  eofMarker_def packetFrameSize_def

record 'v dump_header =
  dh_SessionID :: string
  dh_Protocol :: string
  dh_StartTime :: time
  dh_Connection :: "(string \<times> 'v) list"

record packet =
  pkt_RelativeNs :: u64
  pkt_Direction :: byte
  pkt_Data :: bytes

datatype dump_error =
    ErrInvalidMagic
  | ErrUnsupportedVersion u16
  | ReadErr read_error
  | ErrUnmarshal
  | ErrMarshal
  | ErrOpen
  | ErrCreate
  | ErrShortWrite
  | ErrClosed
  | EndOfDump

text \<open>\<open>errors.Is (err, io.EOF)\<close>: the marker, and every wrapped \<open>io.EOF\<close> of a read.\<close>

fun Is_EOF :: "dump_error \<Rightarrow> bool" where
  "Is_EOF EndOfDump = True"
| "Is_EOF (ReadErr e) = (e = EOF)"
| "Is_EOF _ = False"

section \<open>Files\<close>

record fsys =
  fs_files :: "string \<rightharpoonup> bytes"
  fs_room :: nat
  fs_denied :: "string list"

definition os_Create :: "string \<Rightarrow> fsys \<Rightarrow> fsys option" where
  "os_Create path fs =
     (if path \<in> set (fs_denied fs) then None
      else Some (fs\<lparr>fs_files := (fs_files fs)(path \<mapsto> [])\<rparr>))"

definition os_Remove :: "string \<Rightarrow> fsys \<Rightarrow> fsys" where
  "os_Remove path fs = fs\<lparr>fs_files := (fs_files fs)(path := None)\<rparr>"

definition contents :: "string \<Rightarrow> fsys \<Rightarrow> bytes" where
  "contents path fs = (case fs_files fs path of None \<Rightarrow> [] | Some bs \<Rightarrow> bs)"

text \<open>A write returns whether it was complete.\<close>

definition file_Write :: "string \<Rightarrow> bytes \<Rightarrow> fsys \<Rightarrow> bool \<times> fsys" where
  "file_Write path data fs =
     (length data \<le> fs_room fs,
      fs\<lparr>fs_files := (fs_files fs)(path \<mapsto> contents path fs @ take (fs_room fs) data),
         fs_room := fs_room fs - length data\<rparr>)"

text \<open>Successive writes, stopping at the first that fails.\<close>

fun write_all :: "string \<Rightarrow> bytes list \<Rightarrow> fsys \<Rightarrow> bool \<times> fsys" where
  "write_all path [] fs = (True, fs)"
| "write_all path (d # ds) fs =
     (let (ok, fs1) = file_Write path d fs in if ok then write_all path ds fs1 else (False, fs1))"

section \<open>Writer\<close>

record writer =
  wr_file :: string
  wr_open :: bool
  wr_startTime :: time
  wr_maxSize :: int
  wr_written :: int

definition writeHeader ::
  "('v dump_header \<Rightarrow> bytes option) \<Rightarrow> 'v dump_header \<Rightarrow> writer \<Rightarrow> fsys
   \<Rightarrow> (dump_error + writer) \<times> fsys" where
  "writeHeader jMarshal h w fs =
     (let (ok, fs1) = write_all (wr_file w) [magic, PutUint16_BE dump_version] fs in
      if \<not> ok then (Inl ErrShortWrite, fs1)
      else case jMarshal h of
        None \<Rightarrow> (Inl ErrMarshal, fs1)
      | Some jsonData \<Rightarrow>
          let (ok2, fs2) = write_all (wr_file w) [PutUint32_BE (of_nat (length jsonData)), jsonData] fs1 in
          if \<not> ok2 then (Inl ErrShortWrite, fs2)
          else (Inr (w\<lparr>wr_written := int (length (contents (wr_file w) fs2))\<rparr>), fs2))"

definition NewWriter ::
  "('v dump_header \<Rightarrow> bytes option) \<Rightarrow> string \<Rightarrow> 'v dump_header \<Rightarrow> int \<Rightarrow> fsys
   \<Rightarrow> (dump_error + writer) \<times> fsys" where
  "NewWriter jMarshal path h maxSize fs =
     (case os_Create path fs of
        None \<Rightarrow> (Inl ErrCreate, fs)
      | Some fs1 \<Rightarrow>
          (case writeHeader jMarshal h \<lparr>wr_file = path, wr_open = True, wr_startTime = dh_StartTime h,
                                        wr_maxSize = maxSize, wr_written = 0\<rparr> fs1 of
             (Inl e, fs2) \<Rightarrow> (Inl e, os_Remove path fs2)
           | (Inr w, fs2) \<Rightarrow> (Inr w, fs2)))"

definition relNs :: "writer \<Rightarrow> time \<Rightarrow> u64" where
  "relNs w now = word_of_int (time_Sub now (wr_startTime w))"

definition frame :: "u64 \<Rightarrow> byte \<Rightarrow> u32 \<Rightarrow> bytes" where
  "frame ns direction len = PutUint64_BE ns @ [direction] @ PutUint32_BE len"

text \<open>The two writes of a packet: an error leaves \<open>written\<close> as it was.\<close>

definition write_frame ::
  "writer \<Rightarrow> u64 \<Rightarrow> byte \<Rightarrow> bytes \<Rightarrow> fsys \<Rightarrow> dump_error option \<times> writer \<times> fsys" where
  "write_frame w ns direction data fs =
     (if \<not> wr_open w then (Some ErrClosed, w, fs)
      else
        let (ok, fs1) = write_all (wr_file w) [frame ns direction (of_nat (length data)), data] fs in
        if \<not> ok then (Some ErrShortWrite, w, fs1)
        else (None, w\<lparr>wr_written := wr_written w + int (packetFrameSize + length data)\<rparr>, fs1))"

definition WritePacket ::
  "writer \<Rightarrow> byte \<Rightarrow> bytes \<Rightarrow> time \<Rightarrow> fsys \<Rightarrow> dump_error option \<times> writer \<times> fsys" where
  "WritePacket w direction data now fs =
     (let frameTotal = int (packetFrameSize + length data) in
      if wr_maxSize w > 0 \<and> wr_written w + frameTotal > wr_maxSize w then (None, w, fs)
      else write_frame w (relNs w now) direction data fs)"

definition writePacketRaw ::
  "writer \<Rightarrow> u64 \<Rightarrow> byte \<Rightarrow> bytes \<Rightarrow> fsys \<Rightarrow> dump_error option \<times> writer \<times> fsys" where
  "writePacketRaw w relativeNs direction data fs = write_frame w relativeNs direction data fs"

text \<open>Close: the marker's own write error is ignored; closing twice is an error.\<close>

definition Close :: "writer \<Rightarrow> time \<Rightarrow> fsys \<Rightarrow> dump_error option \<times> writer \<times> fsys" where
  "Close w now fs =
     (if \<not> wr_open w then (Some ErrClosed, w, fs)
      else (None, w\<lparr>wr_open := False\<rparr>, snd (file_Write (wr_file w) (frame (relNs w now) eofMarker 0) fs)))"

section \<open>Reader\<close>

record 'v reader =
  rd_file :: string
  rd_offset :: nat
  rd_header :: "'v dump_header"

text \<open>\<open>io.ReadFull\<close> on an open file: the bytes and the new offset.\<close>

definition file_Read :: "string \<Rightarrow> nat \<Rightarrow> nat \<Rightarrow> fsys \<Rightarrow> read_error + bytes \<times> nat" where
  "file_Read path off n fs =
     (case ReadFull n (drop off (contents path fs)) of
        Inl e \<Rightarrow> Inl e
      | Inr (bs, _) \<Rightarrow> Inr (bs, off + n))"

definition readHeader ::
  "(bytes \<Rightarrow> 'v dump_header option) \<Rightarrow> string \<Rightarrow> fsys \<Rightarrow> dump_error + 'v reader" where
  "readHeader jUnmarshal path fs =
     (case file_Read path 0 magicSize fs of Inl e \<Rightarrow> Inl (ReadErr e)
      | Inr (magicBuf, o1) \<Rightarrow>
     if take minMagic magicBuf \<noteq> take minMagic magic then Inl ErrInvalidMagic
     else case file_Read path o1 versionLen fs of Inl e \<Rightarrow> Inl (ReadErr e)
      | Inr (vBuf, o2) \<Rightarrow>
     if Uint16_BE vBuf \<noteq> dump_version then Inl (ErrUnsupportedVersion (Uint16_BE vBuf))
     else case file_Read path o2 headerLenLen fs of Inl e \<Rightarrow> Inl (ReadErr e)
      | Inr (hLenBuf, o3) \<Rightarrow>
     (case file_Read path o3 (unat (Uint32_BE hLenBuf)) fs of Inl e \<Rightarrow> Inl (ReadErr e)
      | Inr (jsonBuf, o4) \<Rightarrow>
     (case jUnmarshal jsonBuf of None \<Rightarrow> Inl ErrUnmarshal
      | Some h \<Rightarrow> Inr \<lparr>rd_file = path, rd_offset = o4, rd_header = h\<rparr>)))"

definition OpenReader ::
  "(bytes \<Rightarrow> 'v dump_header option) \<Rightarrow> string \<Rightarrow> fsys \<Rightarrow> dump_error + 'v reader" where
  "OpenReader jUnmarshal path fs =
     (case fs_files fs path of None \<Rightarrow> Inl ErrOpen | Some _ \<Rightarrow> readHeader jUnmarshal path fs)"

text \<open>Reading a packet; after a failed read the offset no longer matters to any caller.\<close>

definition ReadPacket :: "'v reader \<Rightarrow> fsys \<Rightarrow> dump_error + packet \<times> 'v reader" where
  "ReadPacket r fs =
     (case file_Read (rd_file r) (rd_offset r) packetFrameSize fs of Inl e \<Rightarrow> Inl (ReadErr e)
      | Inr (frameBuf, o1) \<Rightarrow>
        let direction = frameBuf ! 8; len = Uint32_BE (drop 9 frameBuf) in
        if direction = eofMarker then Inl EndOfDump
        else case file_Read (rd_file r) o1 (unat len) fs of Inl e \<Rightarrow> Inl (ReadErr e)
        | Inr (data, o2) \<Rightarrow>
            Inr (\<lparr>pkt_RelativeNs = Uint64_BE (take 8 frameBuf), pkt_Direction = direction, pkt_Data = data\<rparr>,
                 r\<lparr>rd_offset := o2\<rparr>))"

section \<open>Anonymise\<close>

text \<open>The copying loop. Its fuel bounds the number of packets; the result \<open>None\<close> means that
  the fuel was not enough.\<close>

fun anonymise_loop ::
  "nat \<Rightarrow> 'v reader \<Rightarrow> writer \<Rightarrow> time \<Rightarrow> fsys \<Rightarrow> (dump_error option \<times> fsys) option" where
  "anonymise_loop 0 r w now fs = None"
| "anonymise_loop (Suc n) r w now fs =
     (case ReadPacket r fs of
        Inl e \<Rightarrow>
          if Is_EOF e then (case Close w now fs of (res, _, fs') \<Rightarrow> Some (res, fs'))
          else (case Close w now fs of (_, _, fs') \<Rightarrow> Some (Some e, fs'))
      | Inr (pkt, r') \<Rightarrow>
          (case writePacketRaw w (pkt_RelativeNs pkt) (pkt_Direction pkt) (pkt_Data pkt) fs of
             (Some e, w1, fs1) \<Rightarrow> (case Close w1 now fs1 of (_, _, fs') \<Rightarrow> Some (Some e, fs'))
           | (None, w1, fs1) \<Rightarrow> anonymise_loop n r' w1 now fs1))"

definition strip :: "'v dump_header \<Rightarrow> 'v dump_header" where
  "strip h = \<lparr>dh_SessionID = dh_SessionID h, dh_Protocol = dh_Protocol h,
              dh_StartTime = zero_time, dh_Connection = []\<rparr>"

definition Anonymise ::
  "('v dump_header \<Rightarrow> bytes option) \<Rightarrow> (bytes \<Rightarrow> 'v dump_header option) \<Rightarrow> nat
   \<Rightarrow> string \<Rightarrow> string \<Rightarrow> time \<Rightarrow> fsys \<Rightarrow> (dump_error option \<times> fsys) option" where
  "Anonymise jMarshal jUnmarshal fuel inputPath outputPath now fs =
     (case OpenReader jUnmarshal inputPath fs of
        Inl e \<Rightarrow> Some (Some e, fs)
      | Inr r \<Rightarrow>
          (case NewWriter jMarshal outputPath (strip (rd_header r)) 0 fs of
             (Inl e, fs1) \<Rightarrow> Some (Some e, fs1)
           | (Inr w, fs1) \<Rightarrow> anonymise_loop fuel r w now fs1))"

section \<open>TapConn\<close>

record tap_conn =
  tc_readDir :: byte
  tc_writeDir :: byte

text \<open>The wrapped connection's result, the bytes it moved and its error, is an input.\<close>

definition tap ::
  "byte \<Rightarrow> bytes \<times> 'e option \<Rightarrow> time \<Rightarrow> writer \<times> fsys \<Rightarrow> (bytes \<times> 'e option) \<times> writer \<times> fsys" where
  "tap dir res now st =
     (res, if length (fst res) > 0 then snd (WritePacket (fst st) dir (fst res) now (snd st)) else st)"

definition tap_Read ::
  "tap_conn \<Rightarrow> bytes \<times> 'e option \<Rightarrow> time \<Rightarrow> writer \<times> fsys \<Rightarrow> (bytes \<times> 'e option) \<times> writer \<times> fsys" where
  "tap_Read t res now st = tap (tc_readDir t) res now st"

definition tap_Write ::
  "tap_conn \<Rightarrow> bytes \<times> 'e option \<Rightarrow> time \<Rightarrow> writer \<times> fsys \<Rightarrow> (bytes \<times> 'e option) \<times> writer \<times> fsys" where
  "tap_Write t res now st = tap (tc_writeDir t) res now st"

section \<open>Retention\<close>

record dir_entry =
  de_Name :: string
  de_IsDir :: bool
  de_ModTime :: "time option"
  de_removable :: bool

text \<open>\<open>filepath.Ext\<close>: from the last dot of the last path element.\<close>

fun ext_loop :: "string \<Rightarrow> string \<Rightarrow> string" where
  "ext_loop [] acc = []"
| "ext_loop (c # cs) acc =
     (if c = CHR ''/'' then [] else if c = CHR ''.'' then c # acc else ext_loop cs (c # acc))"

definition Ext :: "string \<Rightarrow> string" where
  "Ext name = ext_loop (rev name) []"

fun CleanupOldFiles :: "time \<Rightarrow> duration \<Rightarrow> dir_entry list \<Rightarrow> nat \<times> dir_entry list" where
  "CleanupOldFiles now retention [] = (0, [])"
| "CleanupOldFiles now retention (e # es) =
     (let (deleted, rest) = CleanupOldFiles now retention es in
      if de_IsDir e \<or> Ext (de_Name e) \<noteq> FileExt then (deleted, e # rest)
      else case de_ModTime e of
        None \<Rightarrow> (deleted, e # rest)
      | Some t \<Rightarrow>
          if t < now - retention \<and> de_removable e then (Suc deleted, rest) else (deleted, e # rest))"

section \<open>Files: lemmas\<close>

definition appended :: "string \<Rightarrow> bytes \<Rightarrow> fsys \<Rightarrow> fsys" where
  "appended path bs fs =
     fs\<lparr>fs_files := (fs_files fs)(path \<mapsto> contents path fs @ bs), fs_room := fs_room fs - length bs\<rparr>"

lemma contents_appended [simp]:
  "contents q (appended path bs fs) = (if q = path then contents path fs @ bs else contents q fs)"
  by (simp add: appended_def contents_def)

lemma files_appended [simp]: "fs_files (appended path bs fs) path = Some (contents path fs @ bs)"
  by (simp add: appended_def)

lemma room_appended [simp]: "fs_room (appended path bs fs) = fs_room fs - length bs"
  by (simp add: appended_def)

lemma appended_appended [simp]:
  "appended path cs (appended path bs fs) = appended path (bs @ cs) fs"
  by (simp add: appended_def contents_def)

lemma file_Write_fits: "length bs \<le> fs_room fs \<Longrightarrow> file_Write path bs fs = (True, appended path bs fs)"
  by (simp add: file_Write_def appended_def)

lemma write_all_two:
  "length a + length b \<le> fs_room fs \<Longrightarrow> write_all path [a, b] fs = (True, appended path (a @ b) fs)"
  by (simp add: file_Write_fits)

lemma ReadPacket_cong:
  assumes "contents (rd_file r) fs = contents (rd_file r) fs'"
  shows "ReadPacket r fs = ReadPacket r fs'"
proof -
  have "file_Read (rd_file r) off n fs = file_Read (rd_file r) off n fs'" for off n
    by (simp add: file_Read_def assms)
  then show ?thesis unfolding ReadPacket_def by (simp only:)
qed

section \<open>The encoding of a packet\<close>

definition enc_packet :: "packet \<Rightarrow> bytes" where
  "enc_packet p = frame (pkt_RelativeNs p) (pkt_Direction p) (of_nat (length (pkt_Data p))) @ pkt_Data p"

definition packet_ok :: "packet \<Rightarrow> bool" where
  "packet_ok p \<longleftrightarrow> pkt_Direction p \<noteq> eofMarker \<and> length (pkt_Data p) < 2 ^ 32"

lemma length_frame [simp]: "length (frame ns d l) = packetFrameSize"
  by (simp add: frame_def packetFrameSize_def)

lemma length_enc_packet [simp]: "length (enc_packet p) = packetFrameSize + length (pkt_Data p)"
  by (simp add: enc_packet_def)

lemma frame_fields:
  "frame ns d l ! 8 = d" "Uint64_BE (take 8 (frame ns d l)) = ns" "Uint32_BE (drop 9 (frame ns d l)) = l"
  by (simp_all add: frame_def nth_append)

lemma file_Read_append:
  "drop off (contents path fs) = xs @ ys \<Longrightarrow> length xs = n \<Longrightarrow>
     file_Read path off n fs = Inr (xs, off + n) \<and> drop (off + n) (contents path fs) = ys"
  by (simp add: file_Read_def add.commute flip: drop_drop)

lemma file_Read_Inr:
  assumes "file_Read path off n fs = Inr (xs, o')"
  shows "length xs = n" and "o' = off + n" and "off + n \<le> max off (length (contents path fs))"
    and "drop off (contents path fs) = xs @ drop (off + n) (contents path fs)"
proof -
  obtain ys where "ReadFull n (drop off (contents path fs)) = Inr (xs, ys)" and o: "o' = off + n"
    using assms by (auto simp: file_Read_def split: sum.splits prod.splits)
  then have l: "length xs = n" "drop off (contents path fs) = xs @ ys" by (auto simp: ReadFull_Inr)
  show "length xs = n" "o' = off + n" using l o by auto
  have "length (drop off (contents path fs)) = length (xs @ ys)" using l(2) by simp
  then show "off + n \<le> max off (length (contents path fs))" using l(1) by simp
  have "drop (off + n) (contents path fs) = ys"
    using l by (metis add.commute append_eq_conv_conj drop_drop)
  with l(2) show "drop off (contents path fs) = xs @ drop (off + n) (contents path fs)" by simp
qed

lemma ReadPacket_enc:
  assumes "drop (rd_offset r) (contents (rd_file r) fs) = enc_packet p @ rest" and "packet_ok p"
  shows "ReadPacket r fs = Inr (p, r\<lparr>rd_offset := rd_offset r + length (enc_packet p)\<rparr>)"
    and "drop (rd_offset r + length (enc_packet p)) (contents (rd_file r) fs) = rest"
proof -
  let ?f = "frame (pkt_RelativeNs p) (pkt_Direction p) (of_nat (length (pkt_Data p)))"
  have "file_Read (rd_file r) (rd_offset r) packetFrameSize fs = Inr (?f, rd_offset r + packetFrameSize) \<and>
    drop (rd_offset r + packetFrameSize) (contents (rd_file r) fs) = pkt_Data p @ rest"
    by (rule file_Read_append) (simp_all add: assms(1) enc_packet_def)
  then have f: "file_Read (rd_file r) (rd_offset r) packetFrameSize fs = Inr (?f, rd_offset r + packetFrameSize)"
    and d: "drop (rd_offset r + packetFrameSize) (contents (rd_file r) fs) = pkt_Data p @ rest" by auto
  note g = file_Read_append [OF d refl]
  have len: "unat (of_nat (length (pkt_Data p)) :: u32) = length (pkt_Data p)"
    using assms(2) by (simp add: packet_ok_def)
  show "ReadPacket r fs = Inr (p, r\<lparr>rd_offset := rd_offset r + length (enc_packet p)\<rparr>)"
    using assms(2) g
    by (simp add: ReadPacket_def f frame_fields packet_ok_def len Let_def add.assoc)
  show "drop (rd_offset r + length (enc_packet p)) (contents (rd_file r) fs) = rest"
    using g by (simp add: add.assoc)
qed

lemma ReadPacket_marker:
  assumes "drop (rd_offset r) (contents (rd_file r) fs) = frame ns eofMarker 0"
  shows "ReadPacket r fs = Inl EndOfDump"
  using file_Read_append [of "rd_offset r" "rd_file r" fs _ "[]" packetFrameSize] assms
  by (simp add: ReadPacket_def frame_fields Let_def)

lemma Uint_fields_frame:
  assumes "length bs = packetFrameSize"
  shows "bs = frame (Uint64_BE (take 8 bs)) (bs ! 8) (Uint32_BE (drop 9 bs))"
proof -
  have "PutUint64_BE (Uint64_BE (take 8 bs)) = take 8 bs"
    using be_dec_bound [of "take 8 bs"] be_enc_dec [of "take 8 bs" 8] assms
    by (simp add: PutUint64_BE_def Uint64_BE_def unat_of_nat packetFrameSize_def)
  moreover have "PutUint32_BE (Uint32_BE (drop 9 bs)) = drop 9 bs"
    using be_dec_bound [of "drop 9 bs"] be_enc_dec [of "drop 9 bs" 4] assms
    by (simp add: PutUint32_BE_def Uint32_BE_def unat_of_nat packetFrameSize_def)
  moreover have "bs = take 8 bs @ [bs ! 8] @ drop 9 bs"
    using assms id_take_nth_drop [of 8 bs] by (simp add: packetFrameSize_def)
  ultimately show ?thesis by (simp add: frame_def)
qed

lemma ReadPacket_Inr:
  assumes "ReadPacket r fs = Inr (p, r')"
  shows "packet_ok p" and "r' = r\<lparr>rd_offset := rd_offset r + length (enc_packet p)\<rparr>"
    and "drop (rd_offset r) (contents (rd_file r) fs) =
      enc_packet p @ drop (rd_offset r + length (enc_packet p)) (contents (rd_file r) fs)"
proof -
  obtain fb o1 data o2 where a: "file_Read (rd_file r) (rd_offset r) packetFrameSize fs = Inr (fb, o1)"
    "fb ! 8 \<noteq> eofMarker" "file_Read (rd_file r) o1 (unat (Uint32_BE (drop 9 fb))) fs = Inr (data, o2)"
    "p = \<lparr>pkt_RelativeNs = Uint64_BE (take 8 fb), pkt_Direction = fb ! 8, pkt_Data = data\<rparr>"
    "r' = r\<lparr>rd_offset := o2\<rparr>"
    using assms by (auto simp: ReadPacket_def Let_def split: sum.splits if_splits)
  note f = file_Read_Inr [OF a(1)] and g = file_Read_Inr [OF a(3)]
  have b: "unat (Uint32_BE (drop 9 fb)) < 2 ^ 32" using unat_bounds(2) by simp
  then show ok: "packet_ok p" using a(2,4) g(1) by (simp add: packet_ok_def)
  have e: "enc_packet p = fb @ data"
    using Uint_fields_frame [OF f(1)] a(4) g(1) by (simp add: enc_packet_def)
  show "r' = r\<lparr>rd_offset := rd_offset r + length (enc_packet p)\<rparr>"
    using a(5) f(1,2) g(1,2) e by (simp add: add.assoc)
  show "drop (rd_offset r) (contents (rd_file r) fs) =
      enc_packet p @ drop (rd_offset r + length (enc_packet p)) (contents (rd_file r) fs)"
    using f g e by (simp add: add.assoc)
qed

text \<open>Reading a dump to its end, as every client of the reader does.\<close>

function read_packets :: "'v reader \<Rightarrow> fsys \<Rightarrow> packet list \<times> dump_error" where
  "read_packets r fs =
     (case ReadPacket r fs of
        Inl e \<Rightarrow> ([], e)
      | Inr (p, r') \<Rightarrow> let (ps, e) = read_packets r' fs in (p # ps, e))"
  by pat_completeness auto
termination
proof (relation "measure (\<lambda>(r, fs). length (contents (rd_file r) fs) - rd_offset r)")
  fix r :: "'v reader" and fs and x and p and r'
  assume "ReadPacket r fs = Inr x" and "(p, r') = x"
  then have rd: "ReadPacket r fs = Inr (p, r')" by simp
  note i = ReadPacket_Inr [OF rd]
  have "length (drop (rd_offset r) (contents (rd_file r) fs)) \<ge> length (enc_packet p)"
    using arg_cong [OF i(3), of length] by simp
  then show "((r', fs), r, fs) \<in> measure (\<lambda>(r, fs). length (contents (rd_file r) fs) - rd_offset r)"
    using i(2) by (simp add: packetFrameSize_def)
qed simp

declare read_packets.simps [simp del]

lemma read_packets_cong:
  "contents (rd_file r) fs = contents (rd_file r) fs' \<Longrightarrow> read_packets r fs = read_packets r fs'"
proof (induction r fs rule: read_packets.induct)
  case (1 r fs)
  have eq: "ReadPacket r fs = ReadPacket r fs'" by (rule ReadPacket_cong) (rule "1.prems")
  show ?case
  proof (cases "ReadPacket r fs")
    case (Inr q)
    then obtain p r' where rd: "ReadPacket r fs = Inr (p, r')" by (cases q) auto
    have "read_packets r' fs = read_packets r' fs'"
      by (rule "1.IH" [OF rd refl]) (use "1.prems" ReadPacket_Inr(2) [OF rd] in simp)
    with rd eq show ?thesis by (simp add: read_packets.simps [of r])
  qed (use eq in \<open>simp add: read_packets.simps [of r]\<close>)
qed

lemma read_packets_enc:
  "drop (rd_offset r) (contents (rd_file r) fs) = concat (map enc_packet ps) @ frame ns eofMarker 0 \<Longrightarrow>
     list_all packet_ok ps \<Longrightarrow> read_packets r fs = (ps, EndOfDump)"
proof (induction ps arbitrary: r)
  case Nil
  then show ?case by (simp add: read_packets.simps ReadPacket_marker)
next
  case (Cons p ps)
  then have d: "drop (rd_offset r) (contents (rd_file r) fs) =
    enc_packet p @ concat (map enc_packet ps) @ frame ns eofMarker 0" and ok: "packet_ok p" by auto
  note e = ReadPacket_enc [OF d ok]
  have "read_packets (r\<lparr>rd_offset := rd_offset r + length (enc_packet p)\<rparr>) fs = (ps, EndOfDump)"
    by (rule Cons.IH) (use e Cons.prems in simp_all)
  then show ?case using e by (simp add: read_packets.simps [of r])
qed

section \<open>The header\<close>

definition enc_header :: "bytes \<Rightarrow> bytes" where
  "enc_header j = magic @ PutUint16_BE dump_version @ PutUint32_BE (of_nat (length j)) @ j"

lemma length_magic [simp]: "length magic = 16"
  by (simp add: magic_def)

lemma length_enc_header [simp]: "length (enc_header j) = 22 + length j"
  by (simp add: enc_header_def)

lemma OpenReader_enc:
  assumes "fs_files fs path = Some (enc_header j @ rest)" and "length j < 2 ^ 32" and "jUnmarshal j = Some h"
  shows "OpenReader jUnmarshal path fs =
    Inr \<lparr>rd_file = path, rd_offset = length (enc_header j), rd_header = h\<rparr>"
proof -
  let ?l = "PutUint32_BE (of_nat (length j))" and ?v = "PutUint16_BE dump_version"
  have c: "drop 0 (contents path fs) = magic @ ?v @ ?l @ j @ rest"
    using assms(1) by (simp add: contents_def enc_header_def)
  have u: "unat (of_nat (length j) :: u32) = length j" using assms(2) by simp
  have r1: "file_Read path 0 16 fs = Inr (magic, 0 + 16)" and c1: "drop (0 + 16) (contents path fs) = ?v @ ?l @ j @ rest"
    using file_Read_append [OF c] by simp_all
  have r2: "file_Read path 16 2 fs = Inr (?v, 16 + 2)" and c2: "drop (16 + 2) (contents path fs) = ?l @ j @ rest"
    using file_Read_append [of 16 path fs ?v _ 2] c1 by simp_all
  have r3: "file_Read path 18 4 fs = Inr (?l, 18 + 4)" and c3: "drop (18 + 4) (contents path fs) = j @ rest"
    using file_Read_append [of 18 path fs ?l _ 4] c2 by simp_all
  have r4: "file_Read path 22 (length j) fs = Inr (j, 22 + length j)"
    using file_Read_append [of 22 path fs j _ "length j"] c3 by simp
  show ?thesis
    using assms(1,3) r1 r2 r3 r4 by (simp add: OpenReader_def readHeader_def dump_consts u)
qed

lemma writeHeader_fits:
  assumes "jMarshal h = Some j" and "length (enc_header j) \<le> fs_room fs"
  shows "writeHeader jMarshal h w fs =
    (Inr (w\<lparr>wr_written := int (length (contents (wr_file w) fs @ enc_header j))\<rparr>),
     appended (wr_file w) (enc_header j) fs)"
proof -
  let ?p = "wr_file w" and ?v = "PutUint16_BE dump_version" and ?l = "PutUint32_BE (of_nat (length j))"
  have "write_all ?p [magic, ?v] fs = (True, appended ?p (magic @ ?v) fs)"
    using assms(2) by (simp add: write_all_two del: write_all.simps)
  moreover have "write_all ?p [?l, j] (appended ?p (magic @ ?v) fs) = (True, appended ?p (enc_header j) fs)"
    using assms(2) by (subst write_all_two) (simp_all add: enc_header_def)
  ultimately show ?thesis
    using assms(1) by (simp add: writeHeader_def del: write_all.simps)
qed

lemma writeHeader_Inr:
  assumes "writeHeader jMarshal h w fs = (Inr w', fs')"
  obtains j where "jMarshal h = Some j" and "length (enc_header j) \<le> fs_room fs"
proof -
  have a: "16 \<le> fs_room fs" "2 \<le> fs_room fs - 16" and "jMarshal h \<noteq> None"
    using assms by (auto simp: writeHeader_def file_Write_def Let_def split: if_splits option.splits)
  then obtain j where j: "jMarshal h = Some j" by auto
  have "4 \<le> fs_room fs - 18 \<and> length j \<le> fs_room fs - 22"
    using assms a j by (auto simp: writeHeader_def file_Write_def Let_def split: if_splits)
  with a have "length (enc_header j) \<le> fs_room fs" by (simp; linarith)
  with j show ?thesis by (rule that)
qed

lemma NewWriter_fits:
  assumes "path \<notin> set (fs_denied fs)" and "jMarshal h = Some j" and "length (enc_header j) \<le> fs_room fs"
  shows "NewWriter jMarshal path h maxSize fs =
    (Inr \<lparr>wr_file = path, wr_open = True, wr_startTime = dh_StartTime h, wr_maxSize = maxSize,
          wr_written = int (length (enc_header j))\<rparr>,
     fs\<lparr>fs_files := (fs_files fs)(path \<mapsto> enc_header j), fs_room := fs_room fs - length (enc_header j)\<rparr>)"
  using assms
  by (simp add: NewWriter_def os_Create_def writeHeader_fits [where jMarshal = jMarshal and h = h, OF assms(2)] appended_def contents_def)

lemma NewWriter_Inr:
  assumes "NewWriter jMarshal path h maxSize fs = (Inr w, fs1)"
  obtains j where "path \<notin> set (fs_denied fs)" and "jMarshal h = Some j"
    and "length (enc_header j) \<le> fs_room fs"
proof -
  have d: "path \<notin> set (fs_denied fs)" using assms by (auto simp: NewWriter_def os_Create_def)
  obtain w0 w' fs' where "writeHeader jMarshal h w0 (fs\<lparr>fs_files := (fs_files fs)(path \<mapsto> [])\<rparr>) = (Inr w', fs')"
    using assms d by (auto simp: NewWriter_def os_Create_def split: prod.splits sum.splits)
  then obtain j where "jMarshal h = Some j" "length (enc_header j) \<le> fs_room fs"
    by (rule writeHeader_Inr) auto
  with d show ?thesis using that by blast
qed

section \<open>Writing packets\<close>

lemma write_frame_fits:
  assumes "wr_open w" and "packetFrameSize + length data \<le> fs_room fs"
  shows "write_frame w ns dir data fs =
    (None, w\<lparr>wr_written := wr_written w + int (packetFrameSize + length data)\<rparr>,
     appended (wr_file w) (enc_packet \<lparr>pkt_RelativeNs = ns, pkt_Direction = dir, pkt_Data = data\<rparr>) fs)"
  using assms by (simp add: write_frame_def write_all_two enc_packet_def del: write_all.simps)

lemma Close_fits:
  "wr_open w \<Longrightarrow> packetFrameSize \<le> fs_room fs \<Longrightarrow>
     Close w now fs = (None, w\<lparr>wr_open := False\<rparr>,
       appended (wr_file w) (frame (relNs w now) eofMarker 0) fs)"
  by (simp add: Close_def file_Write_fits)

fun write_packets :: "(time \<times> byte \<times> bytes) list \<Rightarrow> writer \<times> fsys \<Rightarrow> writer \<times> fsys" where
  "write_packets [] st = st"
| "write_packets ((now, dir, data) # xs) st =
     write_packets xs (snd (WritePacket (fst st) dir data now (snd st)))"

text \<open>What a dump should hold: the packets in order, less those that would pass the maximum
  size (zero: no maximum).\<close>

fun kept :: "time \<Rightarrow> int \<Rightarrow> int \<Rightarrow> (time \<times> byte \<times> bytes) list \<Rightarrow> packet list" where
  "kept start m n [] = []"
| "kept start m n ((now, dir, data) # xs) =
     (if 0 < m \<and> m < n + 13 + int (length data) then kept start m n xs
      else \<lparr>pkt_RelativeNs = word_of_int (time_Sub now start), pkt_Direction = dir, pkt_Data = data\<rparr>
           # kept start m (n + 13 + int (length data)) xs)"

definition frames_size :: "(time \<times> byte \<times> bytes) list \<Rightarrow> nat" where
  "frames_size xs = sum_list (map (\<lambda>(now, dir, data). 13 + length data) xs)"

lemma kept_ok:
  "\<forall>(now, dir, data)\<in>set xs. dir \<noteq> eofMarker \<and> length data < 2 ^ 32 \<Longrightarrow> list_all packet_ok (kept s m n xs)"
  by (induction xs arbitrary: n) (auto simp: packet_ok_def)

lemma write_packets_spec:
  assumes "wr_open w" and "frames_size xs + k \<le> fs_room fs" and "fs_files fs (wr_file w) = Some c"
  shows "\<exists>w' fs'. write_packets xs (w, fs) = (w', fs') \<and> wr_open w' \<and> wr_file w' = wr_file w
    \<and> wr_startTime w' = wr_startTime w \<and> k \<le> fs_room fs' \<and> fs_files fs' (wr_file w) =
      Some (c @ concat (map enc_packet (kept (wr_startTime w) (wr_maxSize w) (wr_written w) xs)))"
  using assms
proof (induction xs arbitrary: w fs c)
  case (Cons x xs)
  obtain now dir data where x: "x = (now, dir, data)" by (cases x) auto
  show ?case
  proof (cases "0 < wr_maxSize w \<and> wr_maxSize w < wr_written w + 13 + int (length data)")
    case True
    have "frames_size xs + k \<le> fs_room fs" using Cons.prems(2) by (simp add: frames_size_def)
    from Cons.IH [OF Cons.prems(1) this Cons.prems(3)] True show ?thesis
      by (simp add: x WritePacket_def packetFrameSize_def)
  next
    case False
    let ?p = "\<lparr>pkt_RelativeNs = relNs w now, pkt_Direction = dir, pkt_Data = data\<rparr>"
    let ?w = "w\<lparr>wr_written := wr_written w + 13 + int (length data)\<rparr>"
    let ?fs = "appended (wr_file w) (enc_packet ?p) fs"
    have fit: "packetFrameSize + length data \<le> fs_room fs"
      using Cons.prems(2) by (simp add: frames_size_def x packetFrameSize_def)
    have wp: "WritePacket w dir data now fs = (None, ?w, ?fs)"
      using False write_frame_fits [OF Cons.prems(1) fit, of "relNs w now" dir]
      by (auto simp: WritePacket_def packetFrameSize_def add.assoc)
    have "frames_size xs + k \<le> fs_room ?fs"
      using Cons.prems(2) by (simp add: frames_size_def x packetFrameSize_def)
    moreover have "fs_files ?fs (wr_file ?w) = Some (c @ enc_packet ?p)"
      using Cons.prems(3) by (simp add: contents_def)
    ultimately show ?thesis using Cons.IH [of ?w ?fs "c @ enc_packet ?p"] Cons.prems(1) False
      by (auto simp: x wp relNs_def)
  qed
qed (auto simp: frames_size_def)

lemma kept_size:
  "m \<le> 0 \<or> n + int (length (concat (map enc_packet (kept s m n xs)))) \<le> max n m"
proof (induction xs arbitrary: n)
  case (Cons x xs)
  obtain now dir data where x: "x = (now, dir, data)" by (cases x) auto
  show ?case
    using Cons.IH [of n] Cons.IH [of "n + 13 + int (length data)"]
    by (auto simp: x packetFrameSize_def max_def split: if_splits)
qed simp

section \<open>Copying\<close>

lemma anonymise_loop_spec:
  assumes "rd_file r \<noteq> wr_file w" and "wr_open w" and "fs_files fs (wr_file w) = Some c"
    and "read_packets r fs = (ps, e)" and "length ps < n"
    and "length (concat (map enc_packet ps)) + packetFrameSize \<le> fs_room fs"
  shows "anonymise_loop n r w now fs =
    Some (if Is_EOF e then None else Some e,
      appended (wr_file w) (concat (map enc_packet ps) @ frame (relNs w now) eofMarker 0) fs)"
  using assms
proof (induction n arbitrary: r w fs c ps)
  case (Suc n)
  show ?case
  proof (cases "ReadPacket r fs")
    case (Inl e')
    with Suc.prems(4) have "ps = []" "e = e'" by (simp_all add: read_packets.simps)
    with Inl Suc.prems(2,6) show ?thesis by (simp add: Close_fits)
  next
    case (Inr q)
    then obtain p r' where rd: "ReadPacket r fs = Inr (p, r')" by (cases q) auto
    obtain qs where qs: "read_packets r' fs = (qs, e)" "ps = p # qs"
      using Suc.prems(4) rd by (auto simp: read_packets.simps [of r] split: prod.splits)
    let ?w = "w\<lparr>wr_written := wr_written w + int (packetFrameSize + length (pkt_Data p))\<rparr>"
    let ?fs = "appended (wr_file w) (enc_packet p) fs"
    have wr: "writePacketRaw w (pkt_RelativeNs p) (pkt_Direction p) (pkt_Data p) fs = (None, ?w, ?fs)"
      using Suc.prems(2,6) qs(2) write_frame_fits [of w "pkt_Data p" fs]
      by (cases p) (simp add: writePacketRaw_def)
    have rf: "rd_file r' = rd_file r" using ReadPacket_Inr(2) [OF rd] by simp
    have "read_packets r' ?fs = (qs, e)"
      using qs(1) read_packets_cong [of r' fs ?fs] Suc.prems(1) rf by simp
    then have "anonymise_loop n r' ?w now ?fs = Some (if Is_EOF e then None else Some e,
        appended (wr_file ?w) (concat (map enc_packet qs) @ frame (relNs ?w now) eofMarker 0) ?fs)"
      by (intro Suc.IH) (use Suc.prems rf qs in auto)
    then show ?thesis using rd wr qs(2) by (simp add: relNs_def)
  qed
qed simp

lemma read_packets_length:
  assumes "read_packets r fs = (ps, e)"
  shows "list_all packet_ok ps \<and> length (concat (map enc_packet ps)) \<le> length (contents (rd_file r) fs)
    \<and> length ps \<le> length (concat (map enc_packet ps))"
proof -
  have "list_all packet_ok ps \<and> length (concat (map enc_packet ps)) \<le> length (contents (rd_file r) fs) - rd_offset r
    \<and> length ps \<le> length (concat (map enc_packet ps))"
    using assms
  proof (induction r fs arbitrary: ps rule: read_packets.induct)
    case (1 r fs)
    show ?case
    proof (cases "ReadPacket r fs")
      case (Inl e')
      with "1.prems" show ?thesis by (simp add: read_packets.simps)
    next
      case (Inr q)
      then obtain p r' where rd: "ReadPacket r fs = Inr (p, r')" by (cases q) auto
      obtain qs where qs: "read_packets r' fs = (qs, e)" "ps = p # qs"
        using "1.prems" rd by (auto simp: read_packets.simps [of r] split: prod.splits)
      note i = ReadPacket_Inr [OF rd]
      have "length (enc_packet p) \<le> length (contents (rd_file r) fs) - rd_offset r"
        using arg_cong [OF i(3), of length] by simp
      then show ?thesis using "1.IH" [OF rd refl qs(1)] i(1,2) qs(2) by (auto simp: packetFrameSize_def)
    qed
  qed
  then show ?thesis by auto
qed

section \<open>Retention: lemmas\<close>

definition stale_dump :: "time \<Rightarrow> duration \<Rightarrow> dir_entry \<Rightarrow> bool" where
  "stale_dump now retention e \<longleftrightarrow> \<not> de_IsDir e \<and> Ext (de_Name e) = FileExt \<and> de_removable e \<and>
     (\<exists>t. de_ModTime e = Some t \<and> t < now - retention)"

lemma CleanupOldFiles_spec:
  "CleanupOldFiles now retention es =
     (length (filter (stale_dump now retention) es), filter (\<lambda>e. \<not> stale_dump now retention e) es)"
  by (induction es) (auto simp: stale_dump_def split: option.splits)

lemma ext_loop_append:
  "CHR ''.'' \<notin> set xs \<Longrightarrow> CHR ''/'' \<notin> set xs \<Longrightarrow>
     ext_loop (xs @ CHR ''.'' # ys) acc = CHR ''.'' # rev xs @ acc"
  by (induction xs arbitrary: acc) auto

lemma Ext_append:
  "CHR ''.'' \<notin> set ext \<Longrightarrow> CHR ''/'' \<notin> set ext \<Longrightarrow>
     Ext (name @ CHR ''.'' # ext) = CHR ''.'' # ext"
  using ext_loop_append [of "rev ext" "rev name" "[]"] by (simp add: Ext_def)

section \<open>Sample dumps\<close>

text \<open>A codec that stores only the session id, and a session recorded with it.\<close>

definition sample_marshal :: "unit dump_header \<Rightarrow> bytes option" where
  "sample_marshal h = Some (map (\<lambda>c. of_nat (of_char c)) (dh_SessionID h))"

definition sample_unmarshal :: "bytes \<Rightarrow> unit dump_header option" where
  "sample_unmarshal bs = Some \<lparr>dh_SessionID = map (\<lambda>b. char_of (unat b)) bs, dh_Protocol = [],
     dh_StartTime = zero_time, dh_Connection = []\<rparr>"

definition sample_header :: "unit dump_header" where
  "sample_header = \<lparr>dh_SessionID = ''s1'', dh_Protocol = [], dh_StartTime = zero_time, dh_Connection = []\<rparr>"

definition sample_writes :: "(time \<times> byte \<times> bytes) list" where
  "sample_writes = [(5, DirClientToServer, [1, 2]), (9, DirServerToClient, [3, 4, 5, 6]), (11, DirClientToServer, [7])]"

definition sample_disk :: fsys where
  "sample_disk = \<lparr>fs_files = Map.empty, fs_room = 1000, fs_denied = []\<rparr>"

definition sample_new :: "int \<Rightarrow> (dump_error + writer) \<times> fsys" where
  "sample_new m = NewWriter sample_marshal ''p'' sample_header m sample_disk"

definition sample_written :: "int \<Rightarrow> writer \<times> fsys" where
  "sample_written m = write_packets sample_writes (projr (fst (sample_new m)), snd (sample_new m))"

definition sample_closed :: "int \<Rightarrow> dump_error option \<times> writer \<times> fsys" where
  "sample_closed m = Close (fst (sample_written m)) 12 (snd (sample_written m))"

lemma sample_json:
  "sample_marshal sample_header = Some [0x73, 0x31]" "sample_unmarshal [0x73, 0x31] = Some sample_header"
  "strip sample_header = sample_header"
  by code_simp+

lemma sample_new_eval:
  "sample_new m = (Inr \<lparr>wr_file = ''p'', wr_open = True, wr_startTime = zero_time, wr_maxSize = m, wr_written = 24\<rparr>,
     sample_disk\<lparr>fs_files := [''p'' \<mapsto> enc_header [0x73, 0x31]], fs_room := 976\<rparr>)"
  using NewWriter_fits [of "''p''" sample_disk sample_marshal sample_header "[0x73, 0x31]" m] sample_json(1)
  by (simp add: sample_new_def sample_disk_def sample_header_def)

text \<open>A finished dump of one packet.\<close>

definition sample_dump :: fsys where
  "sample_dump = sample_disk\<lparr>fs_files := [''p'' \<mapsto> enc_header [0x73, 0x31] @
     enc_packet \<lparr>pkt_RelativeNs = 5, pkt_Direction = 0, pkt_Data = [1, 2]\<rparr> @ frame 9 eofMarker 0]\<rparr>"

lemma sample_dump_reads:
  "OpenReader sample_unmarshal ''p'' sample_dump =
     Inr \<lparr>rd_file = ''p'', rd_offset = 24, rd_header = sample_header\<rparr>"
  "read_packets \<lparr>rd_file = ''p'', rd_offset = 24, rd_header = sample_header\<rparr> sample_dump =
     ([\<lparr>pkt_RelativeNs = 5, pkt_Direction = 0, pkt_Data = [1, 2]\<rparr>], EndOfDump)"
proof -
  show "OpenReader sample_unmarshal ''p'' sample_dump =
     Inr \<lparr>rd_file = ''p'', rd_offset = 24, rd_header = sample_header\<rparr>"
    using OpenReader_enc [of sample_dump "''p''" "[0x73, 0x31]" _ sample_unmarshal sample_header] sample_json(2)
    by (simp add: sample_dump_def)
  show "read_packets \<lparr>rd_file = ''p'', rd_offset = 24, rd_header = sample_header\<rparr> sample_dump =
     ([\<lparr>pkt_RelativeNs = 5, pkt_Direction = 0, pkt_Data = [1, 2]\<rparr>], EndOfDump)"
    by (rule read_packets_enc [where ns = 9])
      (simp_all add: sample_dump_def contents_def packet_ok_def eofMarker_def)
qed

section \<open>Properties\<close>

text \<open>C32. Round trip of a session dump: a file created by \<open>NewWriter\<close>, filled by
  \<open>WritePacket\<close> and closed opens again with the header that was stored, and its packets are
  exactly the recorded ones in order with their timestamps and directions, less those that would
  have passed the maximum size; then the end marker.\<close>

theorem dump_roundtrip:
  assumes "NewWriter jMarshal path h maxSize fs = (Inr w, fs1)"
    and "jMarshal h = Some j" and "jUnmarshal j = Some h'" and "length j < 2 ^ 32"
    and "\<forall>(now, dir, data)\<in>set xs. dir \<noteq> eofMarker \<and> length data < 2 ^ 32"
    and "frames_size xs + packetFrameSize \<le> fs_room fs1"
    and "write_packets xs (w, fs1) = (w2, fs2)" and "Close w2 end fs2 = (res, w3, fs3)"
  shows "res = None \<and> (\<exists>r. OpenReader jUnmarshal path fs3 = Inr r \<and> rd_header r = h' \<and>
    read_packets r fs3 = (kept (dh_StartTime h) maxSize (22 + int (length j)) xs, EndOfDump))"
proof -
  have nw: "w = \<lparr>wr_file = path, wr_open = True, wr_startTime = dh_StartTime h, wr_maxSize = maxSize,
          wr_written = int (length (enc_header j))\<rparr>" "fs_files fs1 path = Some (enc_header j)"
    using assms(1,2) NewWriter_fits [of path fs jMarshal h j maxSize]
    by (auto elim!: NewWriter_Inr)
  let ?ps = "kept (dh_StartTime h) maxSize (22 + int (length j)) xs"
  have wp: "wr_open w2" "wr_file w2 = path" "packetFrameSize \<le> fs_room fs2"
    "fs_files fs2 path = Some (enc_header j @ concat (map enc_packet ?ps))"
    using write_packets_spec [of w xs packetFrameSize fs1 "enc_header j"] assms(6,7) nw by auto
  have cl: "res = None" "fs3 = appended path (frame (relNs w2 end) eofMarker 0) fs2"
    using Close_fits [OF wp(1,3)] assms(8) wp(2) by auto
  then have f3: "fs_files fs3 path =
      Some (enc_header j @ concat (map enc_packet ?ps) @ frame (relNs w2 end) eofMarker 0)"
    using wp(4) by (simp add: contents_def)
  note op = OpenReader_enc [where jUnmarshal = jUnmarshal, OF f3 assms(4,3)]
  have "read_packets \<lparr>rd_file = path, rd_offset = length (enc_header j), rd_header = h'\<rparr> fs3 = (?ps, EndOfDump)"
    by (rule read_packets_enc [where ns = "relNs w2 end"])
      (use f3 kept_ok [OF assms(5)] in \<open>simp_all add: contents_def\<close>)
  with cl(1) op show ?thesis by simp
qed

theorem dump_roundtrip_witness:
  "\<exists>r. OpenReader sample_unmarshal ''p'' (snd (snd (sample_closed 60))) = Inr r \<and> rd_header r = sample_header \<and>
    read_packets r (snd (snd (sample_closed 60))) =
      (kept zero_time 60 (22 + int (length [0x73, 0x31 :: byte])) sample_writes, EndOfDump)"
proof -
  have "fst (sample_closed 60) = None \<and> (\<exists>r. OpenReader sample_unmarshal ''p'' (snd (snd (sample_closed 60))) = Inr r \<and>
    rd_header r = sample_header \<and> read_packets r (snd (snd (sample_closed 60))) =
      (kept (dh_StartTime sample_header) 60 (22 + int (length [0x73, 0x31 :: byte])) sample_writes, EndOfDump))"
  proof (rule dump_roundtrip)
    show "NewWriter sample_marshal ''p'' sample_header 60 sample_disk =
      (Inr (projr (fst (sample_new 60))), snd (sample_new 60))"
      using sample_new_eval [of 60] by (simp add: sample_new_def)
    show "write_packets sample_writes (projr (fst (sample_new 60)), snd (sample_new 60)) =
      (fst (sample_written 60), snd (sample_written 60))" by (simp add: sample_written_def)
    show "Close (fst (sample_written 60)) 12 (snd (sample_written 60)) =
      (fst (sample_closed 60), fst (snd (sample_closed 60)), snd (snd (sample_closed 60)))"
      by (simp add: sample_closed_def)
  qed (simp_all add: sample_json sample_new_eval frames_size_def sample_writes_def DirClientToServer_def
      DirServerToClient_def dump_consts)
  then show ?thesis by (simp add: sample_header_def)
qed

text \<open>The size limit: with a positive maximum that the header respects, a finished dump is
  at most 13 bytes (the end marker, written without a check) longer than the maximum.\<close>

theorem dump_size_bounded:
  assumes "NewWriter jMarshal path h maxSize fs = (Inr w, fs1)" and "0 < maxSize"
    and "wr_written w \<le> maxSize" and "frames_size xs + packetFrameSize \<le> fs_room fs1"
    and "write_packets xs (w, fs1) = (w2, fs2)" and "Close w2 end fs2 = (res, w3, fs3)"
  shows "int (length (contents path fs3)) \<le> maxSize + 13"
proof -
  obtain j where j: "path \<notin> set (fs_denied fs)" "jMarshal h = Some j" "length (enc_header j) \<le> fs_room fs"
    using assms(1) by (rule NewWriter_Inr)
  have nw: "w = \<lparr>wr_file = path, wr_open = True, wr_startTime = dh_StartTime h, wr_maxSize = maxSize,
          wr_written = int (length (enc_header j))\<rparr>" "fs_files fs1 path = Some (enc_header j)"
    using assms(1) NewWriter_fits [where jMarshal = jMarshal and h = h and maxSize = maxSize, OF j] by auto
  let ?ps = "kept (dh_StartTime h) maxSize (int (length (enc_header j))) xs"
  have wp: "wr_open w2" "wr_file w2 = path" "packetFrameSize \<le> fs_room fs2"
    "fs_files fs2 path = Some (enc_header j @ concat (map enc_packet ?ps))"
    using write_packets_spec [of w xs packetFrameSize fs1 "enc_header j"] assms(4,5) nw by auto
  have "contents path fs3 = enc_header j @ concat (map enc_packet ?ps) @ frame (relNs w2 end) eofMarker 0"
    using Close_fits [OF wp(1,3)] assms(6) wp(2,4) by (auto simp: contents_def)
  with kept_size [of maxSize "int (length (enc_header j))" "dh_StartTime h" xs] assms(2,3) nw(1)
  show ?thesis by (simp add: packetFrameSize_def)
qed

theorem dump_size_bounded_witness:
  "int (length (contents ''p'' (snd (snd (sample_closed 60))))) \<le> 60 + 13"
proof (rule dump_size_bounded)
  show "NewWriter sample_marshal ''p'' sample_header 60 sample_disk =
    (Inr (projr (fst (sample_new 60))), snd (sample_new 60))"
    using sample_new_eval [of 60] by (simp add: sample_new_def)
  show "write_packets sample_writes (projr (fst (sample_new 60)), snd (sample_new 60)) =
    (fst (sample_written 60), snd (sample_written 60))" by (simp add: sample_written_def)
  show "Close (fst (sample_written 60)) 12 (snd (sample_written 60)) =
    (fst (sample_closed 60), fst (snd (sample_closed 60)), snd (snd (sample_closed 60)))"
    by (simp add: sample_closed_def)
qed (simp_all add: sample_new_eval frames_size_def sample_writes_def dump_consts)

text \<open>Anonymising a readable dump to another path terminates and copies exactly the packets
  that can be read from the input, byte for byte, under a header that keeps only session id and
  protocol; the input is untouched, and the reported error is the input's own, if any.\<close>

theorem anonymise_copies_packets:
  assumes "inPath \<noteq> outPath" and "outPath \<notin> set (fs_denied fs)"
    and "OpenReader jUnmarshal inPath fs = Inr r" and "read_packets r fs = (ps, e)"
    and "jMarshal (strip (rd_header r)) = Some j" and "jUnmarshal j = Some (strip (rd_header r))"
    and "length j < 2 ^ 32" and "22 + length j + length (contents inPath fs) + 13 \<le> fs_room fs"
  shows "\<exists>fs'. Anonymise jMarshal jUnmarshal (Suc (length (contents inPath fs))) inPath outPath now fs =
      Some (if Is_EOF e then None else Some e, fs') \<and> contents inPath fs' = contents inPath fs \<and>
    (\<exists>r'. OpenReader jUnmarshal outPath fs' = Inr r' \<and> rd_header r' = strip (rd_header r) \<and>
      read_packets r' fs' = (ps, EndOfDump))"
proof -
  have rf: "rd_file r = inPath"
    using assms(3) by (auto simp: OpenReader_def readHeader_def split: option.splits sum.splits if_splits)
  let ?w = "\<lparr>wr_file = outPath, wr_open = True, wr_startTime = zero_time, wr_maxSize = 0,
          wr_written = int (length (enc_header j))\<rparr>"
  let ?fs1 = "fs\<lparr>fs_files := (fs_files fs)(outPath \<mapsto> enc_header j), fs_room := fs_room fs - length (enc_header j)\<rparr>"
  let ?body = "concat (map enc_packet ps)" and ?m = "frame (relNs ?w now) eofMarker 0"
  have nw: "NewWriter jMarshal outPath (strip (rd_header r)) 0 fs = (Inr ?w, ?fs1)"
    using NewWriter_fits [of outPath fs jMarshal "strip (rd_header r)" j 0] assms(2,5,8)
    by (simp add: strip_def)
  have c: "contents inPath ?fs1 = contents inPath fs" using assms(1) by (simp add: contents_def)
  have rp: "read_packets r ?fs1 = (ps, e)" using assms(4) read_packets_cong [of r fs ?fs1] c rf by simp
  note len = read_packets_length [OF assms(4), unfolded rf]
  have loop: "anonymise_loop (Suc (length (contents inPath fs))) r ?w now ?fs1 =
      Some (if Is_EOF e then None else Some e, appended outPath (?body @ ?m) ?fs1)"
    by (subst anonymise_loop_spec [where c = "enc_header j" and ps = ps and e = e])
      (use rf rp assms(1,8) len in \<open>auto simp: packetFrameSize_def\<close>)
  have f: "fs_files (appended outPath (?body @ ?m) ?fs1) outPath = Some (enc_header j @ ?body @ ?m)"
    by (simp add: contents_def)
  have "read_packets \<lparr>rd_file = outPath, rd_offset = length (enc_header j), rd_header = strip (rd_header r)\<rparr>
      (appended outPath (?body @ ?m) ?fs1) = (ps, EndOfDump)"
    by (rule read_packets_enc [where ns = "relNs ?w now"]) (use len in \<open>simp_all add: contents_def\<close>)
  with loop nw assms(1,3) c OpenReader_enc [where jUnmarshal = jUnmarshal, OF f assms(7,6)] show ?thesis
    by (simp add: Anonymise_def)
qed

theorem anonymise_copies_packets_witness:
  "\<exists>fs'. Anonymise sample_marshal sample_unmarshal (Suc (length (contents ''p'' sample_dump))) ''p'' ''q'' 0 sample_dump =
      Some (if Is_EOF EndOfDump then None else Some EndOfDump, fs') \<and> contents ''p'' fs' = contents ''p'' sample_dump \<and>
    (\<exists>r'. OpenReader sample_unmarshal ''q'' fs' = Inr r' \<and> rd_header r' = strip sample_header \<and>
      read_packets r' fs' = ([\<lparr>pkt_RelativeNs = 5, pkt_Direction = 0, pkt_Data = [1, 2]\<rparr>], EndOfDump))"
  using anonymise_copies_packets [OF _ _ sample_dump_reads, of "''q''" sample_marshal "[0x73, 0x31]" 0]
  by (simp add: sample_json sample_dump_def sample_disk_def contents_def packetFrameSize_def
      del: anonymise_loop.simps)

text \<open>A dump that was cut off right after the frame of a packet, before any of its data,
  reads as complete: the missing data is an \<open>io.EOF\<close>, which the copying loop takes for the end
  marker, so the loss of the packet goes unreported.\<close>

theorem truncated_packet_unreported:
  assumes "drop (rd_offset r) (contents (rd_file r) fs) = concat (map enc_packet ps) @ frame ns d l"
    and "list_all packet_ok ps" and "d \<noteq> eofMarker" and "l \<noteq> 0"
  shows "\<exists>e. read_packets r fs = (ps, e) \<and> Is_EOF e"
  using assms(1,2)
proof (induction ps arbitrary: r)
  case Nil
  then have "file_Read (rd_file r) (rd_offset r) packetFrameSize fs = Inr (frame ns d l, rd_offset r + packetFrameSize)
      \<and> drop (rd_offset r + packetFrameSize) (contents (rd_file r) fs) = []"
    by (intro file_Read_append) simp_all
  moreover have "0 < unat l" using assms(4) by (simp add: unat_gt_0)
  ultimately have "ReadPacket r fs = Inl (ReadErr EOF)"
    using assms(3) by (simp add: ReadPacket_def frame_fields Let_def file_Read_def [of _ "rd_offset r + packetFrameSize"] ReadFull_def)
  then show ?case by (simp add: read_packets.simps)
next
  case (Cons p ps)
  then have dr: "drop (rd_offset r) (contents (rd_file r) fs) =
    enc_packet p @ concat (map enc_packet ps) @ frame ns d l" and ok: "packet_ok p" by auto
  note e = ReadPacket_enc [OF dr ok]
  have "\<exists>e. read_packets (r\<lparr>rd_offset := rd_offset r + length (enc_packet p)\<rparr>) fs = (ps, e) \<and> Is_EOF e"
    by (rule Cons.IH) (use e Cons.prems in simp_all)
  then show ?case using e by (auto simp: read_packets.simps [of r])
qed

theorem truncated_packet_unreported_witness:
  "\<exists>e. read_packets \<lparr>rd_file = ''p'', rd_offset = 24, rd_header = sample_header\<rparr>
      (sample_disk\<lparr>fs_files := [''p'' \<mapsto> enc_header [0x73, 0x31] @ frame 5 DirClientToServer 7]\<rparr>) = ([], e) \<and> Is_EOF e"
  by (rule truncated_packet_unreported [where ns = 5 and d = DirClientToServer and l = 7])
    (simp_all add: contents_def DirClientToServer_def eofMarker_def)

text \<open>Anonymising a dump in place, the same path for input and output, destroys it: the
  output file is created over the input before any packet is read. Whenever the new header is
  not longer than the old one, the call succeeds and leaves a dump without packets.\<close>

theorem anonymise_in_place_loses_packets:
  assumes "OpenReader jUnmarshal path fs = Inr r" and "path \<notin> set (fs_denied fs)"
    and "jMarshal (strip (rd_header r)) = Some j" and "length (enc_header j) \<le> rd_offset r"
    and "length (enc_header j) + packetFrameSize \<le> fs_room fs"
  shows "\<exists>fs' ns. Anonymise jMarshal jUnmarshal 1 path path now fs = Some (None, fs')
    \<and> contents path fs' = enc_header j @ frame ns eofMarker 0"
proof -
  have rf: "rd_file r = path"
    using assms(1) by (auto simp: OpenReader_def readHeader_def split: option.splits sum.splits if_splits)
  let ?w = "\<lparr>wr_file = path, wr_open = True, wr_startTime = zero_time, wr_maxSize = 0,
          wr_written = int (length (enc_header j))\<rparr>"
  let ?fs1 = "fs\<lparr>fs_files := (fs_files fs)(path \<mapsto> enc_header j), fs_room := fs_room fs - length (enc_header j)\<rparr>"
  have nw: "NewWriter jMarshal path (strip (rd_header r)) 0 fs = (Inr ?w, ?fs1)"
    using NewWriter_fits [of path fs jMarshal "strip (rd_header r)" j 0] assms(2,3,5)
    by (simp add: strip_def)
  have "ReadPacket r ?fs1 = Inl (ReadErr EOF)"
    using rf assms(4) by (simp add: ReadPacket_def file_Read_def ReadFull_def contents_def packetFrameSize_def)
  moreover have "Close ?w now ?fs1 =
      (None, ?w\<lparr>wr_open := False\<rparr>, appended path (frame (relNs ?w now) eofMarker 0) ?fs1)"
    using Close_fits [of ?w ?fs1 now] assms(5) by simp
  ultimately show ?thesis
    using nw assms(1) by (simp add: Anonymise_def contents_def) blast
qed

theorem anonymise_in_place_loses_packets_witness:
  "\<exists>fs' ns. Anonymise sample_marshal sample_unmarshal 1 ''p'' ''p'' 0 sample_dump = Some (None, fs')
    \<and> contents ''p'' fs' = enc_header [0x73, 0x31] @ frame ns eofMarker 0"
  by (rule anonymise_in_place_loses_packets [OF sample_dump_reads(1)])
    (simp_all add: sample_json sample_dump_def sample_disk_def packetFrameSize_def)

end
