(* ===== verification/Mongo_Wire.thy ===== *)
theory Mongo_Wire
  imports Validation
begin

text \<open>
  \<open>internal/proxy/mongodb/wire.go\<close>: framing of the MongoDB wire protocol. A Go \<open>int32\<close> is
  a 32-bit word read with \<open>sint\<close> where its sign matters. \<open>compress/zlib\<close> is the parameter
  record \<open>zlib_lib\<close> and \<open>bson.Marshal\<close> a function parameter; BSON documents are the byte
  slices (\<open>bson.Raw\<close>) the code handles.
\<close>

unbundle bit_operations_syntax

section \<open>Constants and errors\<close>

definition opCodeReply :: u32 where "opCodeReply = 1"
definition opCodeQuery :: u32 where "opCodeQuery = 2004"
definition opCodeCompressed :: u32 where "opCodeCompressed = 2012"
definition opCodeMsg :: u32 where "opCodeMsg = 2013"

definition compressorNoop :: byte where "compressorNoop = 0"
definition compressorZlib :: byte where "compressorZlib = 2"

definition opCompressedHeaderLen :: nat where "opCompressedHeaderLen = 9"
definition headerLen :: nat where "headerLen = 16"
definition maxWireMessageSize :: int where "maxWireMessageSize = 48 * 1000 * 1000"

definition flagChecksumPresent :: u32 where "flagChecksumPresent = 1"
definition flagMoreToCome :: u32 where "flagMoreToCome = 2"
definition opReplyAwaitCapable :: u32 where "opReplyAwaitCapable = 8"

lemmas mongo_consts = headerLen_def opCompressedHeaderLen_def maxWireMessageSize_def

datatype wire_error =
    WireRead read_error
  | ErrShortMessage
  | ErrMessageTooLarge
  | ErrUnsupportedCompress byte
  | ErrCompressedSizeMismat
  | ErrBadSection byte
  | ErrZlibReader
  | ErrZlibInflate
  | ErrZlibDeflate
  | ErrMarshalReply

section \<open>Messages\<close>

record message =
  msg_length :: u32
  msg_requestID :: u32
  msg_responseTo :: u32
  msg_opCode :: u32
  msg_body :: bytes
  msg_raw :: bytes

text \<open>The header a buffer is given by \<open>writeHeader\<close>.\<close>

definition msg_header :: "u32 \<Rightarrow> u32 \<Rightarrow> u32 \<Rightarrow> u32 \<Rightarrow> bytes" where
  "msg_header len requestID responseTo opCode =
     PutUint32_LE len @ PutUint32_LE requestID @ PutUint32_LE responseTo @ PutUint32_LE opCode"

text \<open>Reading one framed message from a stream: the message and the rest of the stream.\<close>

definition readMessage :: "bytes \<Rightarrow> wire_error + message \<times> bytes" where
  "readMessage r =
     (case ReadFull headerLen r of Inl e \<Rightarrow> Inl (WireRead e)
      | Inr (hdr, r1) \<Rightarrow>
        let len = Uint32_LE hdr in
        if sint len < int headerLen then Inl ErrShortMessage
        else if sint len > maxWireMessageSize then Inl ErrMessageTooLarge
        else case ReadFull (nat (sint len) - headerLen) r1 of Inl e \<Rightarrow> Inl (WireRead e)
        | Inr (body, r2) \<Rightarrow>
            Inr (\<lparr>msg_length = len, msg_requestID = Uint32_LE (drop 4 hdr),
                  msg_responseTo = Uint32_LE (drop 8 hdr), msg_opCode = Uint32_LE (drop 12 hdr),
                  msg_body = body, msg_raw = hdr @ body\<rparr>, r2))"

section \<open>Compression\<close>

text \<open>
  \<open>deflate\<close>: the output of a zlib writer fed all of its input. \<open>inflate\<close>: \<open>None\<close> when the
  reader cannot be created, otherwise the bytes the stream yields and whether it then ends
  without an error.
\<close>

record zlib_lib =
  deflate :: "bytes \<Rightarrow> bytes option"
  inflate :: "bytes \<Rightarrow> (bytes \<times> bool) option"

definition decompress :: "zlib_lib \<Rightarrow> byte \<Rightarrow> bytes \<Rightarrow> nat \<Rightarrow> wire_error + bytes" where
  "decompress Z compressorID data uncompressedSize =
     (if compressorID = compressorNoop then Inr data
      else if compressorID = compressorZlib then
        (case inflate Z data of None \<Rightarrow> Inl ErrZlibReader
         | Some (out, ok) \<Rightarrow>
             if uncompressedSize < length out then Inr (take (uncompressedSize + 1) out)
             else if ok then Inr out else Inl ErrZlibInflate)
      else Inl (ErrUnsupportedCompress compressorID))"

definition compress :: "zlib_lib \<Rightarrow> byte \<Rightarrow> bytes \<Rightarrow> wire_error + bytes" where
  "compress Z compressorID data =
     (if compressorID = compressorNoop then Inr data
      else if compressorID = compressorZlib then
        (case deflate Z data of None \<Rightarrow> Inl ErrZlibDeflate | Some out \<Rightarrow> Inr out)
      else Inl (ErrUnsupportedCompress compressorID))"

definition decompressMessage :: "zlib_lib \<Rightarrow> message \<Rightarrow> wire_error + message \<times> byte" where
  "decompressMessage Z m =
     (if length (msg_body m) < opCompressedHeaderLen then Inl ErrShortMessage
      else
        let originalOpcode = Uint32_LE (msg_body m);
            uncompressedSize = unat (Uint32_LE (drop 4 (msg_body m)));
            compressorID = msg_body m ! 8;
            compressed = drop opCompressedHeaderLen (msg_body m)
        in if int uncompressedSize > maxWireMessageSize then Inl ErrMessageTooLarge
        else case decompress Z compressorID compressed uncompressedSize of Inl e \<Rightarrow> Inl e
        | Inr innerBody \<Rightarrow>
            if length innerBody \<noteq> uncompressedSize then Inl ErrCompressedSizeMismat
            else
              let total = of_nat (headerLen + length innerBody);
                  raw = msg_header total (msg_requestID m) (msg_responseTo m) originalOpcode @ innerBody
              in Inr (\<lparr>msg_length = total, msg_requestID = msg_requestID m,
                       msg_responseTo = msg_responseTo m, msg_opCode = originalOpcode,
                       msg_body = innerBody, msg_raw = raw\<rparr>, compressorID))"

definition compressMessage :: "zlib_lib \<Rightarrow> bytes \<Rightarrow> byte \<Rightarrow> wire_error + bytes" where
  "compressMessage Z raw compressorID =
     (if length raw < headerLen then Inl ErrShortMessage
      else
        let requestID = Uint32_LE (drop 4 raw); responseTo = Uint32_LE (drop 8 raw);
            originalOpcode = Uint32_LE (drop 12 raw); innerBody = drop headerLen raw
        in case compress Z compressorID innerBody of Inl e \<Rightarrow> Inl e
        | Inr compressed \<Rightarrow>
            Inr (msg_header (of_nat (headerLen + opCompressedHeaderLen + length compressed))
                   requestID responseTo opCodeCompressed @
                 PutUint32_LE originalOpcode @ PutUint32_LE (of_nat (length innerBody)) @
                 [compressorID] @ compressed))"

definition compressorIDForName :: "string \<Rightarrow> byte \<times> bool" where
  "compressorIDForName name = (if name = ''zlib'' then (compressorZlib, True) else (0, False))"

section \<open>\<open>OP_MSG\<close>\<close>

record opMsgSection =
  sec_kind :: byte
  sec_identifier :: bytes
  sec_documents :: "bytes list"

record opMsg =
  om_flags :: u32
  om_sections :: "opMsgSection list"

definition minDocSize :: nat where "minDocSize = 5"

definition readBSONDoc :: "bytes \<Rightarrow> wire_error + bytes" where
  "readBSONDoc b =
     (if length b < 4 then Inl ErrShortMessage
      else let size = unat (Uint32_LE b) in
        if size < minDocSize \<or> size > length b then Inl ErrShortMessage else Inr (take size b))"

lemma readBSONDoc_Inr:
  assumes "readBSONDoc b = Inr doc"
  shows "5 \<le> length doc" and "length doc \<le> length b" and "doc = take (length doc) b"
    and "unat (Uint32_LE doc) = length doc"
proof -
  have "min 4 (unat (Uint32_LE b)) = 4" if "5 \<le> unat (Uint32_LE b)" using that by simp
  then show "5 \<le> length doc" "length doc \<le> length b" "doc = take (length doc) b"
    "unat (Uint32_LE doc) = length doc"
    using assms by (auto simp: readBSONDoc_def minDocSize_def Let_def Uint32_LE_def split: if_splits)
qed

text \<open>\<open>indexByte\<close>: \<open>None\<close> is the source's \<open>-1\<close>.\<close>

fun indexByte :: "bytes \<Rightarrow> byte \<Rightarrow> nat option" where
  "indexByte [] c = None"
| "indexByte (v # b) c = (if v = c then Some 0 else map_option Suc (indexByte b c))"

text \<open>The loop over the documents of a sequence.\<close>

function read_docs :: "bytes \<Rightarrow> wire_error + bytes list" where
  "read_docs b =
     (if b = [] then Inr []
      else case readBSONDoc b of Inl e \<Rightarrow> Inl e
        | Inr doc \<Rightarrow>
            (case read_docs (drop (length doc) b) of Inl e \<Rightarrow> Inl e | Inr docs \<Rightarrow> Inr (doc # docs)))"
  by pat_completeness auto
termination
  by (relation "measure length") (use readBSONDoc_Inr in fastforce)+

definition parseDocumentSequence :: "bytes \<Rightarrow> wire_error + opMsgSection \<times> nat" where
  "parseDocumentSequence rest =
     (if length rest < 4 then Inl ErrShortMessage
      else let size = unat (Uint32_LE rest) in
        if size < 5 \<or> size > length rest then Inl ErrShortMessage
        else let inner = drop 4 (take size rest) in
          case indexByte inner 0 of None \<Rightarrow> Inl ErrShortMessage
          | Some idEnd \<Rightarrow>
              (case read_docs (drop (idEnd + 1) inner) of Inl e \<Rightarrow> Inl e
               | Inr docs \<Rightarrow>
                   Inr (\<lparr>sec_kind = 1, sec_identifier = take idEnd inner, sec_documents = docs\<rparr>, size)))"

text \<open>One turn of the section loop of \<open>parseOpMsg\<close>, and the loop.\<close>

definition parse_section :: "bytes \<Rightarrow> wire_error + opMsgSection \<times> bytes" where
  "parse_section s =
     (let kind = hd s; rest = tl s in
      if kind = 0 then
        (case readBSONDoc rest of Inl e \<Rightarrow> Inl e
         | Inr doc \<Rightarrow>
             Inr (\<lparr>sec_kind = 0, sec_identifier = [], sec_documents = [doc]\<rparr>, drop (length doc) rest))
      else if kind = 1 then
        (case parseDocumentSequence rest of Inl e \<Rightarrow> Inl e
         | Inr (section, consumed) \<Rightarrow> Inr (section, drop consumed rest))
      else Inl (ErrBadSection kind))"

function parse_sections :: "bytes \<Rightarrow> wire_error + opMsgSection list" where
  "parse_sections s =
     (if s = [] then Inr []
      else case parse_section s of Inl e \<Rightarrow> Inl e
        | Inr (sec, rest) \<Rightarrow>
            (case parse_sections rest of Inl e \<Rightarrow> Inl e | Inr secs \<Rightarrow> Inr (sec # secs)))"
  by pat_completeness auto
termination
  by (relation "measure length") (auto simp: parse_section_def Let_def split: if_splits sum.splits)

definition parseOpMsg :: "bytes \<Rightarrow> wire_error + opMsg" where
  "parseOpMsg body =
     (if length body < 4 then Inl ErrShortMessage
      else let flags = Uint32_LE body; rest = drop 4 body in
        if flags AND flagChecksumPresent \<noteq> 0 \<and> length rest < 4 then Inl ErrShortMessage
        else let rest' = (if flags AND flagChecksumPresent \<noteq> 0 then take (length rest - 4) rest else rest) in
          case parse_sections rest' of Inl e \<Rightarrow> Inl e
          | Inr secs \<Rightarrow> Inr \<lparr>om_flags = flags, om_sections = secs\<rparr>)"

fun first_body :: "opMsgSection list \<Rightarrow> bytes option" where
  "first_body [] = None"
| "first_body (s # ss) =
     (if sec_kind s = 0 \<and> length (sec_documents s) = 1 then Some (sec_documents s ! 0) else first_body ss)"

definition commandBody :: "opMsg \<Rightarrow> bytes option" where
  "commandBody m = first_body (om_sections m)"

fun first_sequence :: "opMsgSection list \<Rightarrow> bytes \<Rightarrow> bytes list option" where
  "first_sequence [] i = None"
| "first_sequence (s # ss) i =
     (if sec_kind s = 1 \<and> sec_identifier s = i then Some (sec_documents s) else first_sequence ss i)"

definition msg_sequence :: "opMsg \<Rightarrow> bytes \<Rightarrow> bytes list option" where
  "msg_sequence m identifier = first_sequence (om_sections m) identifier"

section \<open>\<open>OP_QUERY\<close> and replies\<close>

record opQuery =
  oq_fullCollectionName :: bytes
  oq_query :: bytes

definition parseOpQuery :: "bytes \<Rightarrow> wire_error + opQuery" where
  "parseOpQuery body =
     (if length body < 4 then Inl ErrShortMessage
      else case indexByte (drop 4 body) 0 of None \<Rightarrow> Inl ErrShortMessage
      | Some nameEnd \<Rightarrow>
          let name = take nameEnd (drop 4 body); pos = 4 + (nameEnd + 1 + 8) in
          if pos > length body then Inl ErrShortMessage
          else case readBSONDoc (drop pos body) of Inl e \<Rightarrow> Inl e
          | Inr q \<Rightarrow> Inr \<lparr>oq_fullCollectionName = name, oq_query = q\<rparr>)"

definition buildOpMsgReply :: "('d \<Rightarrow> bytes option) \<Rightarrow> u32 \<Rightarrow> u32 \<Rightarrow> 'd \<Rightarrow> wire_error + bytes" where
  "buildOpMsgReply bsonMarshal requestID responseTo doc =
     (case bsonMarshal doc of None \<Rightarrow> Inl ErrMarshalReply
      | Some docBytes \<Rightarrow>
          Inr (msg_header (of_nat (headerLen + 4 + 1 + length docBytes)) requestID responseTo opCodeMsg @
               PutUint32_LE 0 @ [0] @ docBytes))"

definition buildOpReply :: "('d \<Rightarrow> bytes option) \<Rightarrow> u32 \<Rightarrow> u32 \<Rightarrow> 'd \<Rightarrow> wire_error + bytes" where
  "buildOpReply bsonMarshal requestID responseTo doc =
     (case bsonMarshal doc of None \<Rightarrow> Inl ErrMarshalReply
      | Some docBytes \<Rightarrow>
          Inr (msg_header (of_nat (headerLen + (4 + 8 + 4 + 4) + length docBytes)) requestID responseTo opCodeReply @
               PutUint32_LE opReplyAwaitCapable @ replicate 8 0 @ replicate 4 0 @ PutUint32_LE 1 @ docBytes))"

section \<open>Command documents\<close>

definition commandName :: "'v bson_lib \<Rightarrow> bytes \<Rightarrow> string" where
  "commandName B doc =
     (case bson_ElementKeys B doc of None \<Rightarrow> [] | Some [] \<Rightarrow> [] | Some (k # _) \<Rightarrow> k)"

definition lookupString :: "'v bson_lib \<Rightarrow> bytes option \<Rightarrow> string \<Rightarrow> string" where
  "lookupString B doc key =
     (case doc of None \<Rightarrow> []
      | Some d \<Rightarrow> (case bson_StringOK B (bson_Lookup B d key) of Some s \<Rightarrow> s | None \<Rightarrow> []))"

section \<open>Documents\<close>

declare read_docs.simps [simp del] parse_sections.simps [simp del]

definition doc_ok :: "bytes \<Rightarrow> bool" where
  "doc_ok d \<longleftrightarrow> 5 \<le> length d \<and> unat (Uint32_LE d) = length d"

definition next_doc :: "bytes \<Rightarrow> wire_error + bytes \<times> bytes" where
  "next_doc b = (case readBSONDoc b of Inl e \<Rightarrow> Inl e | Inr d \<Rightarrow> Inr (d, drop (length d) b))"

lemma Uint32_LE_append: "4 \<le> length xs \<Longrightarrow> Uint32_LE (xs @ ys) = Uint32_LE xs"
  by (simp add: Uint32_LE_def)

lemma readBSONDoc_ok: "doc_ok d \<Longrightarrow> readBSONDoc (d @ r) = Inr d"
  by (simp add: doc_ok_def readBSONDoc_def Uint32_LE_append minDocSize_def Let_def)

lemma readBSONDoc_exact:
  assumes "readBSONDoc b = Inr d"
  shows "doc_ok d \<and> b = d @ drop (length d) b"
proof -
  have "d = take (length d) b" "5 \<le> length d" "unat (Uint32_LE d) = length d"
    using readBSONDoc_Inr [OF assms] by auto
  then show ?thesis by (metis append_take_drop_id doc_ok_def)
qed

interpretation docs: exact_decoder "\<lambda>d. d" next_doc read_docs doc_ok
proof unfold_locales
  show "x \<noteq> []" if "doc_ok x" for x using that by (auto simp: doc_ok_def)
  show "next_doc (x @ r) = Inr (x, r)" if "doc_ok x" for x r
    using that by (simp add: next_doc_def readBSONDoc_ok)
  show "read_docs [] = Inr []" by (simp add: read_docs.simps)
  show "read_docs s = (case next_doc s of Inl e \<Rightarrow> Inl e
     | Inr (x, r) \<Rightarrow> (case read_docs r of Inl e \<Rightarrow> Inl e | Inr xs \<Rightarrow> Inr (x # xs)))" if "s \<noteq> []" for s
    using that by (cases "readBSONDoc s") (simp_all add: read_docs.simps [of s] next_doc_def)
  show "doc_ok x \<and> s = x @ r" if "s \<noteq> []" "next_doc s = Inr (x, r)" for s x r
    using that(2) readBSONDoc_exact [of s x] by (auto simp: next_doc_def split: sum.splits)
qed

section \<open>Sections\<close>

definition seq_payload :: "opMsgSection \<Rightarrow> bytes" where
  "seq_payload s = sec_identifier s @ [0] @ concat (sec_documents s)"

definition enc_section :: "opMsgSection \<Rightarrow> bytes" where
  "enc_section s =
     (if sec_kind s = 0 then 0 # concat (sec_documents s)
      else 1 # PutUint32_LE (of_nat (4 + length (seq_payload s))) @ seq_payload s)"

definition section_ok :: "opMsgSection \<Rightarrow> bool" where
  "section_ok s \<longleftrightarrow>
     sec_kind s = 0 \<and> sec_identifier s = [] \<and> length (sec_documents s) = 1 \<and> doc_ok (hd (sec_documents s)) \<or>
     sec_kind s = 1 \<and> 0 \<notin> set (sec_identifier s) \<and> list_all doc_ok (sec_documents s) \<and>
       4 + length (seq_payload s) < 2 ^ 32"

lemma indexByte_append: "c \<notin> set xs \<Longrightarrow> indexByte (xs @ c # ys) c = Some (length xs)"
  by (induction xs) auto

lemma indexByte_Some:
  "indexByte b c = Some i \<Longrightarrow> c \<notin> set (take i b) \<and> b = take i b @ c # drop (Suc i) b \<and> i < length b"
  by (induction b arbitrary: i) (auto split: if_splits)

lemma parseDocumentSequence_enc:
  assumes "0 \<notin> set i" and "list_all doc_ok ds" and "4 + length (i @ [0] @ concat ds) < 2 ^ 32"
  shows "parseDocumentSequence (PutUint32_LE (of_nat (4 + length (i @ [0] @ concat ds))) @ (i @ [0] @ concat ds) @ r) =
    Inr (\<lparr>sec_kind = 1, sec_identifier = i, sec_documents = ds\<rparr>, 4 + length (i @ [0] @ concat ds))"
proof -
  have u: "unat (of_nat (4 + length (i @ [0] @ concat ds)) :: u32) = 4 + length (i @ [0] @ concat ds)"
    by (rule unat_of_nat_u32) (use assms(3) in simp)
  have d: "read_docs (concat ds) = Inr ds" using docs.loop_concat [OF assms(2)] by simp
  show ?thesis
    unfolding parseDocumentSequence_def Let_def Uint_Put u
    using indexByte_append [OF assms(1), of "concat ds"] d by simp
qed

lemma parseDocumentSequence_Inr:
  assumes "parseDocumentSequence b = Inr (s, n)"
  shows "section_ok s" and "sec_kind s = 1" and "n \<le> length b" and "n = 4 + length (seq_payload s)"
    and "take n b = PutUint32_LE (of_nat n) @ seq_payload s"
proof -
  obtain e ds where a: "4 \<le> length b" "n = unat (Uint32_LE b)" "5 \<le> n" "n \<le> length b"
    "indexByte (drop 4 (take n b)) 0 = Some e" "read_docs (drop (e + 1) (drop 4 (take n b))) = Inr ds"
    "s = \<lparr>sec_kind = 1, sec_identifier = take e (drop 4 (take n b)), sec_documents = ds\<rparr>"
    using assms by (auto simp: parseDocumentSequence_def Let_def split: if_splits option.splits sum.splits)
  note i = indexByte_Some [OF a(5)] and dd = docs.loop_exact [OF a(6)]
  have pay: "seq_payload s = drop 4 (take n b)"
    using i dd a(7) by (simp add: seq_payload_def)
  show n: "n = 4 + length (seq_payload s)" using a(3,4) by (simp add: pay)
  have "n < 2 ^ 32" using a(2) unat_bounds(2) [of "Uint32_LE b"] by simp
  then show "section_ok s" "sec_kind s = 1" "n \<le> length b"
    unfolding section_ok_def n [symmetric] using i dd a(4,7) by simp_all
  have w: "(of_nat n :: u32) = Uint32_LE (take 4 b)" using a(2) by (simp add: Uint32_LE_def [of b] Uint32_LE_def [of "take 4 b"])
  have "PutUint32_LE (of_nat n) = take 4 b"
    unfolding w using a(1) by (intro Put_Uint32_LE) simp
  moreover have "take n b = take 4 b @ drop 4 (take n b)"
    using a(3) append_take_drop_id [of 4 "take n b"] by (simp add: min_def)
  ultimately show "take n b = PutUint32_LE (of_nat n) @ seq_payload s" by (simp add: pay)
qed

interpretation secs: exact_decoder enc_section parse_section parse_sections section_ok
proof unfold_locales
  show "enc_section x \<noteq> []" for x by (simp add: enc_section_def)
  show "parse_section (enc_section x @ r) = Inr (x, r)" if ok: "section_ok x" for x r
  proof (cases "sec_kind x = 0")
    case True
    with ok obtain d where "x = \<lparr>sec_kind = 0, sec_identifier = [], sec_documents = [d]\<rparr>" "doc_ok d"
      by (cases x) (auto simp: section_ok_def length_Suc_conv)
    then show ?thesis by (simp add: parse_section_def enc_section_def readBSONDoc_ok)
  next
    case False
    with ok have k: "x = \<lparr>sec_kind = 1, sec_identifier = sec_identifier x, sec_documents = sec_documents x\<rparr>"
      "0 \<notin> set (sec_identifier x)" "list_all doc_ok (sec_documents x)"
      "4 + length (sec_identifier x @ [0] @ concat (sec_documents x)) < 2 ^ 32"
      by (auto simp: section_ok_def seq_payload_def)
    then show ?thesis
      using parseDocumentSequence_enc [OF k(2,3,4), of r] False
      by (simp add: parse_section_def enc_section_def seq_payload_def)
  qed
  show "parse_sections [] = Inr []" by (simp add: parse_sections.simps)
  show "parse_sections s = (case parse_section s of Inl e \<Rightarrow> Inl e
     | Inr (x, r) \<Rightarrow> (case parse_sections r of Inl e \<Rightarrow> Inl e | Inr xs \<Rightarrow> Inr (x # xs)))" if "s \<noteq> []" for s
    using that by (simp add: parse_sections.simps [of s])
  show "section_ok x \<and> s = enc_section x @ r" if ne: "s \<noteq> []" and ps: "parse_section s = Inr (x, r)" for s x r
  proof (cases "hd s = 0")
    case True
    then obtain d where "readBSONDoc (tl s) = Inr d" "x = \<lparr>sec_kind = 0, sec_identifier = [], sec_documents = [d]\<rparr>"
      "r = drop (length d) (tl s)" using ps by (auto simp: parse_section_def Let_def split: sum.splits)
    with readBSONDoc_exact [of "tl s" d] ne True show ?thesis
      by (cases s) (auto simp: section_ok_def enc_section_def)
  next
    case False
    then obtain n where k: "hd s = 1" "parseDocumentSequence (tl s) = Inr (x, n)" "r = drop n (tl s)"
      using ps by (auto simp: parse_section_def Let_def split: sum.splits if_splits)
    note q = parseDocumentSequence_Inr [OF k(2)]
    have "tl s = take n (tl s) @ r" using k(3) by simp
    then have "tl s = PutUint32_LE (of_nat n) @ seq_payload x @ r" using q(5) by simp
    with ne k(1) q(1,2,4) show ?thesis by (cases s) (auto simp: enc_section_def)
  qed
qed

section \<open>Frames\<close>

lemma length_msg_header [simp]: "length (msg_header l q t opc) = 16"
  by (simp add: msg_header_def)

lemma msg_header_fields [simp]:
  "Uint32_LE (msg_header l q t opc @ r) = l" "Uint32_LE (drop 4 (msg_header l q t opc) @ r) = q"
  "Uint32_LE (drop 8 (msg_header l q t opc) @ r) = t" "Uint32_LE (drop 12 (msg_header l q t opc) @ r) = opc"
  by (simp_all add: msg_header_def)

lemma msg_header_fields_Nil [simp]:
  "Uint32_LE (msg_header l q t opc) = l" "Uint32_LE (drop 4 (msg_header l q t opc)) = q"
  "Uint32_LE (drop 8 (msg_header l q t opc)) = t" "Uint32_LE (drop 12 (msg_header l q t opc)) = opc"
  using msg_header_fields [where r = "[]"] by simp_all

lemma msg_header_Uint:
  assumes "length h = 16"
  shows "msg_header (Uint32_LE h) (Uint32_LE (drop 4 h)) (Uint32_LE (drop 8 h)) (Uint32_LE (drop 12 h)) = h"
proof -
  have p: "PutUint32_LE (Uint32_LE (drop n h)) = take 4 (drop n h)" if "n \<le> 12" for n
    using Put_Uint32_LE [of "take 4 (drop n h)"] that assms by (simp add: Uint32_LE_def)
  have "h = take 4 h @ take 4 (drop 4 h) @ take 4 (drop 8 h) @ take 4 (drop 12 h)"
    using append_take_drop_id [of 4 h] append_take_drop_id [of 4 "drop 4 h"]
      append_take_drop_id [of 4 "drop 8 h"] assms by simp
  with p [of 0] p [of 4] p [of 8] p [of 12] show ?thesis by (simp add: msg_header_def)
qed

lemma sint_of_nat_u32: "n < 2 ^ 31 \<Longrightarrow> sint (of_nat n :: u32) = int n"
  by (simp add: signed_of_nat signed_take_bit_int_eq_self)

definition mk_message :: "u32 \<Rightarrow> u32 \<Rightarrow> u32 \<Rightarrow> bytes \<Rightarrow> message" where
  "mk_message q t opc body =
     \<lparr>msg_length = of_nat (16 + length body), msg_requestID = q, msg_responseTo = t, msg_opCode = opc,
      msg_body = body, msg_raw = msg_header (of_nat (16 + length body)) q t opc @ body\<rparr>"

lemma readMessage_enc:
  assumes "16 + int (length body) \<le> maxWireMessageSize"
  shows "readMessage (msg_raw (mk_message q t opc body) @ r) = Inr (mk_message q t opc body, r)"
proof -
  let ?l = "of_nat (16 + length body) :: u32"
  have l: "sint ?l = 16 + int (length body)"
    using sint_of_nat_u32 [of "16 + length body"] assms by (simp add: mongo_consts)
  have "ReadFull 16 (msg_header ?l q t opc @ body @ r) = Inr (msg_header ?l q t opc, body @ r)" by simp
  then show ?thesis
    using assms by (simp add: readMessage_def mk_message_def mongo_consts Let_def l [simplified])
qed

lemma readMessage_exact:
  assumes "readMessage s = Inr (m, r)"
  shows "s = msg_raw m @ r" and "int (length (msg_raw m)) \<le> maxWireMessageSize"
    and "m = mk_message (msg_requestID m) (msg_responseTo m) (msg_opCode m) (msg_body m)"
proof -
  obtain hdr r1 body where a: "ReadFull headerLen s = Inr (hdr, r1)" "16 \<le> sint (Uint32_LE hdr)"
    "sint (Uint32_LE hdr) \<le> maxWireMessageSize"
    "ReadFull (nat (sint (Uint32_LE hdr)) - headerLen) r1 = Inr (body, r)"
    "m = \<lparr>msg_length = Uint32_LE hdr, msg_requestID = Uint32_LE (drop 4 hdr),
          msg_responseTo = Uint32_LE (drop 8 hdr), msg_opCode = Uint32_LE (drop 12 hdr),
          msg_body = body, msg_raw = hdr @ body\<rparr>"
    using assms by (auto simp: readMessage_def Let_def headerLen_def split: sum.splits if_splits)
  have h: "length hdr = 16" "s = hdr @ r1" and b: "length body = nat (sint (Uint32_LE hdr)) - 16" "r1 = body @ r"
    using a(1,4) by (auto simp: ReadFull_Inr headerLen_def)
  show "s = msg_raw m @ r" using h b a(5) by simp
  show "int (length (msg_raw m)) \<le> maxWireMessageSize" using a(2,3,5) h(1) b(1) by simp
  have "int (16 + length body) = sint (Uint32_LE hdr)" using b(1) a(2) by simp
  then have "of_nat (16 + length body) = Uint32_LE hdr"
    by (metis of_int_of_nat_eq of_int_sint scast_id)
  with msg_header_Uint [OF h(1)] a(5)
  show "m = mk_message (msg_requestID m) (msg_responseTo m) (msg_opCode m) (msg_body m)"
    by (simp add: mk_message_def)
qed

definition has_checksum :: "u32 \<Rightarrow> bool" where
  "has_checksum flags \<longleftrightarrow> flags AND flagChecksumPresent \<noteq> 0"

definition enc_opMsg :: "opMsg \<Rightarrow> bytes \<Rightarrow> bytes" where
  "enc_opMsg m crc = PutUint32_LE (om_flags m) @ concat (map enc_section (om_sections m)) @ crc"

lemma parseOpMsg_alt:
  "parseOpMsg body = Inr m \<longleftrightarrow> 4 \<le> length body \<and> om_flags m = Uint32_LE body \<and>
     (has_checksum (Uint32_LE body) \<longrightarrow> 8 \<le> length body) \<and>
     parse_sections (take (length body - 4 - (if has_checksum (Uint32_LE body) then 4 else 0)) (drop 4 body))
       = Inr (om_sections m)"
  by (cases m) (auto simp: parseOpMsg_def Let_def has_checksum_def split: sum.splits)

lemma parseOpMsg_iff:
  "parseOpMsg body = Inr m \<longleftrightarrow> list_all section_ok (om_sections m) \<and>
     (\<exists>crc. length crc = (if has_checksum (om_flags m) then 4 else 0) \<and> body = enc_opMsg m crc)"
  (is "?L \<longleftrightarrow> ?R")
proof
  assume ?L
  define c :: nat where "c = (if has_checksum (Uint32_LE body) then 4 else 0)"
  define mid where "mid = take (length body - 4 - c) (drop 4 body)"
  have a: "4 + c \<le> length body" "om_flags m = Uint32_LE body" "parse_sections mid = Inr (om_sections m)"
    using \<open>?L\<close> by (auto simp: parseOpMsg_alt c_def mid_def)
  have ok: "list_all section_ok (om_sections m)" "mid = concat (map enc_section (om_sections m))"
    using secs.loop_exact [OF a(3)] by auto
  let ?crc = "drop (length body - c) body"
  have w: "PutUint32_LE (om_flags m) = take 4 body"
    using Put_Uint32_LE [of "take 4 body"] a(1,2) by (simp add: Uint32_LE_def)
  have "drop 4 body = mid @ drop (length body - 4 - c) (drop 4 body)"
    by (simp only: mid_def append_take_drop_id)
  also have "drop (length body - 4 - c) (drop 4 body) = ?crc" using a(1) by (simp add: add.commute)
  finally have "body = take 4 body @ mid @ ?crc" by (metis append_take_drop_id)
  then have "body = enc_opMsg m ?crc" by (simp add: enc_opMsg_def w ok(2))
  moreover have "length ?crc = c" using a(1) by simp
  ultimately have "\<exists>crc. length crc = c \<and> body = enc_opMsg m crc" by metis
  then show ?R using ok(1) by (simp only: a(2) c_def)
next
  assume ?R
  then obtain crc where ok: "list_all section_ok (om_sections m)"
    and crc: "length crc = (if has_checksum (om_flags m) then 4 else 0)" and body: "body = enc_opMsg m crc" by auto
  have "parse_sections (concat (map enc_section (om_sections m))) = Inr (om_sections m)"
    using secs.loop_concat [OF ok] .
  then show ?L using crc body by (simp add: parseOpMsg_alt enc_opMsg_def)
qed

lemma first_body_enc:
  "list_all section_ok ss \<Longrightarrow> first_body ss = Some d \<Longrightarrow> \<exists>xs ys. concat (map enc_section ss) = xs @ 0 # d @ ys"
proof (induction ss)
  case (Cons s ss)
  show ?case
  proof (cases "sec_kind s = 0 \<and> length (sec_documents s) = 1")
    case True
    then have "concat (map enc_section (s # ss)) = [] @ 0 # d @ concat (map enc_section ss)"
      using Cons.prems(2) by (cases "sec_documents s") (auto simp: enc_section_def)
    then show ?thesis by blast
  next
    case False
    then have "first_body ss = Some d" using Cons.prems(2) by auto
    with Cons obtain xs ys where "concat (map enc_section ss) = xs @ 0 # d @ ys" by auto
    then have "concat (map enc_section (s # ss)) = (enc_section s @ xs) @ 0 # d @ ys" by simp
    then show ?thesis by blast
  qed
qed simp

section \<open>Properties\<close>

text \<open>Framing is exact: a successful \<open>readMessage\<close> consumes exactly the bytes it keeps for
  the verbatim relay, never more than the maximum message size, and the fields it reports are
  those of the relayed header.\<close>

theorem read_message_exact:
  assumes "readMessage s = Inr (m, r)"
  shows "s = msg_raw m @ r \<and> int (length (msg_raw m)) \<le> maxWireMessageSize \<and>
    msg_raw m = msg_header (msg_length m) (msg_requestID m) (msg_responseTo m) (msg_opCode m) @ msg_body m"
  using readMessage_exact [OF assms] by (metis message.select_convs(1,5,6) mk_message_def)

theorem read_message_exact_witness:
  "\<exists>m. readMessage (msg_header 18 7 0 2013 @ [1, 2] @ [9]) = Inr (m, [9]) \<and> msg_raw m = msg_header 18 7 0 2013 @ [1, 2]"
proof -
  have "readMessage (msg_header 18 7 0 2013 @ [1, 2] @ [9]) = Inr (mk_message 7 0 2013 [1, 2], [9])"
    using readMessage_enc [of "[1, 2]" 7 0 2013 "[9]"] by (simp add: mk_message_def mongo_consts)
  with read_message_exact [OF this] show ?thesis by (auto simp: mk_message_def)
qed

text \<open>C29. \<open>parseOpMsg\<close> is exact in both directions: it accepts a body exactly when the body is
  the encoding of the message it returns (with four checksum bytes when the flag says so), so
  no relayed byte of an accepted command escapes inspection and every well-formed message is
  accepted.\<close>

theorem parse_op_msg_exact:
  "parseOpMsg body = Inr m \<longleftrightarrow> list_all section_ok (om_sections m) \<and>
     (\<exists>crc. length crc = (if has_checksum (om_flags m) then 4 else 0) \<and> body = enc_opMsg m crc)"
  by (rule parseOpMsg_iff)

text \<open>Compression round trip: wrapping a frame with \<open>compressMessage\<close> gives a frame that
  \<open>readMessage\<close> reads as one OP_COMPRESSED message, and \<open>decompressMessage\<close> restores the
  original frame and reports the compressor, for the noop compressor and for a zlib whose reader
  inverts its writer.\<close>

theorem compress_roundtrip:
  assumes "\<And>c. deflate Z body = Some c \<Longrightarrow> inflate Z c = Some (body, True)"
    and "compressMessage Z (msg_raw (mk_message q t opc body)) cid = Inr wrapped"
    and "16 + int (length body) \<le> maxWireMessageSize" and "int (length wrapped) \<le> maxWireMessageSize"
  shows "\<exists>m. readMessage (wrapped @ r) = Inr (m, r) \<and> msg_opCode m = opCodeCompressed \<and>
    decompressMessage Z m = Inr (mk_message q t opc body, cid)"
proof -
  obtain c where c: "compress Z cid body = Inr c"
    and w: "wrapped = msg_raw (mk_message q t opCodeCompressed
      (PutUint32_LE opc @ PutUint32_LE (of_nat (length body)) @ [cid] @ c))"
    using assms(2) by (auto simp: compressMessage_def mk_message_def Let_def mongo_consts split: sum.splits)
  let ?b = "PutUint32_LE opc @ PutUint32_LE (of_nat (length body)) @ [cid] @ c"
  have rd: "readMessage (wrapped @ r) = Inr (mk_message q t opCodeCompressed ?b, r)"
    unfolding w by (rule readMessage_enc) (use assms(4) in \<open>simp add: w mk_message_def\<close>)
  have l: "length body < 2 ^ 32" using assms(3) by (simp add: mongo_consts)
  have u: "unat (of_nat (length body) :: u32) = length body" using l by simp
  have d: "decompress Z cid c (length body) = Inr body"
    using c assms(1) by (auto simp: compress_def decompress_def split: if_splits option.splits)
  have "decompressMessage Z (mk_message q t opCodeCompressed ?b) = Inr (mk_message q t opc body, cid)"
    using assms(3) d by (simp add: decompressMessage_def mk_message_def mongo_consts Let_def u nth_append)
  with rd show ?thesis by (auto simp: mk_message_def)
qed

theorem compress_roundtrip_witness:
  "\<exists>m. readMessage (projr (compressMessage \<lparr>deflate = (\<lambda>b. Some (0 # b)), inflate = (\<lambda>b. Some (tl b, True))\<rparr>
      (msg_raw (mk_message 7 0 2013 [1, 2, 3])) 2) @ []) = Inr (m, []) \<and> msg_opCode m = opCodeCompressed \<and>
    decompressMessage \<lparr>deflate = (\<lambda>b. Some (0 # b)), inflate = (\<lambda>b. Some (tl b, True))\<rparr> m =
      Inr (mk_message 7 0 2013 [1, 2, 3], 2)"
  by (rule compress_roundtrip)
    (simp_all add: compressMessage_def mk_message_def Let_def compress_def compressorNoop_def
      compressorZlib_def mongo_consts)

text \<open>A hostile compressed frame cannot make the proxy build an oversized message: whatever
  zlib yields, a decompressed message has exactly the declared size, at most the maximum, and
  its reconstructed frame carries its own fields and body.\<close>

theorem decompress_bounded:
  assumes "decompressMessage Z m = Inr (m', cid)"
  shows "int (length (msg_body m')) \<le> maxWireMessageSize \<and>
    length (msg_body m') = unat (Uint32_LE (drop 4 (msg_body m))) \<and>
    m' = mk_message (msg_requestID m) (msg_responseTo m) (Uint32_LE (msg_body m)) (msg_body m')"
  using assms by (auto simp: decompressMessage_def Let_def mk_message_def mongo_consts split: if_splits sum.splits)

theorem decompress_bounded_witness:
  "int (length (msg_body (mk_message 7 0 2013 [5, 6]))) \<le> maxWireMessageSize \<and>
    length (msg_body (mk_message 7 0 2013 [5, 6])) =
      unat (Uint32_LE (drop 4 (msg_body (mk_message 7 0 2012 (PutUint32_LE 2013 @ PutUint32_LE 2 @ [0, 5, 6])))))"
proof -
  have "decompressMessage \<lparr>deflate = Some, inflate = (\<lambda>_. None)\<rparr>
      (mk_message 7 0 2012 (PutUint32_LE 2013 @ PutUint32_LE 2 @ [0, 5, 6])) = Inr (mk_message 7 0 2013 [5, 6], 0)"
    by (simp add: decompressMessage_def mk_message_def mongo_consts Let_def decompress_def compressorNoop_def
        nth_append)
  from decompress_bounded [OF this] show ?thesis by (auto simp: mk_message_def)
qed

text \<open>A reply the proxy builds is read back by the same protocol: the frame of
  \<open>buildOpMsgReply\<close> parses to a message with no flags whose command body is the marshalled
  document.\<close>

theorem op_msg_reply_roundtrip:
  assumes "bsonMarshal doc = Some d" and "doc_ok d" and "21 + int (length d) \<le> maxWireMessageSize"
    and "buildOpMsgReply bsonMarshal q t doc = Inr raw"
  shows "\<exists>m om. readMessage (raw @ r) = Inr (m, r) \<and> msg_opCode m = opCodeMsg \<and> msg_responseTo m = t \<and>
    parseOpMsg (msg_body m) = Inr om \<and> om_flags om = 0 \<and> commandBody om = Some d"
proof -
  let ?om = "\<lparr>om_flags = 0, om_sections = [\<lparr>sec_kind = 0, sec_identifier = [], sec_documents = [d]\<rparr>]\<rparr>"
  let ?b = "enc_opMsg ?om []"
  have raw: "raw = msg_raw (mk_message q t opCodeMsg ?b)"
    using assms(1,4) by (auto simp: buildOpMsgReply_def mk_message_def enc_opMsg_def enc_section_def mongo_consts)
  have rd: "readMessage (raw @ r) = Inr (mk_message q t opCodeMsg ?b, r)"
    unfolding raw by (rule readMessage_enc) (use assms(3) in \<open>simp add: enc_opMsg_def enc_section_def\<close>)
  have "list_all section_ok (om_sections ?om)" using assms(2) by (simp add: section_ok_def)
  then have "parseOpMsg ?b = Inr ?om" unfolding parseOpMsg_iff by (simp add: has_checksum_def)
  with rd show ?thesis by (auto simp: mk_message_def commandBody_def)
qed

theorem op_msg_reply_roundtrip_witness:
  "\<exists>m om. readMessage (projr (buildOpMsgReply (\<lambda>_. Some [5, 0, 0, 0, 0]) 1 7 ()) @ []) = Inr (m, []) \<and>
    msg_opCode m = opCodeMsg \<and> msg_responseTo m = 7 \<and>
    parseOpMsg (msg_body m) = Inr om \<and> om_flags om = 0 \<and> commandBody om = Some [5, 0, 0, 0, 0]"
  by (rule op_msg_reply_roundtrip [where bsonMarshal = "\<lambda>_. Some [5, 0, 0, 0, 0]" and q = 1 and doc = "()"])
    (simp_all add: doc_ok_def Uint32_LE_def mongo_consts buildOpMsgReply_def)

end
