(* ===== verification/Mongo_Session.thy ===== *)
theory Mongo_Session
  imports Mongo_Wire Audited_Session
begin

text \<open>
  \<open>internal/proxy/mongodb\<close> after authentication: \<open>intercept.go\<close>, \<open>result.go\<close>, \<open>lineage.go\<close>, the document
  builders of \<open>errors.go\<close> and \<open>hello.go\<close>, and the relay of \<open>session.go\<close>. The two pumps, the watchdog, the
  registry and the teardown act on one state, one message per event, in any interleaving. The
  BSON accessors and encoders of the driver are the record \<open>bson_ext\<close>; the counters are
  those of \<open>Audited_Session\<close>. A read supplies the bytes of one frame and how many bytes the
  counting connection moved for it.
\<close>

section \<open>Documents\<close>

text \<open>The \<open>bson.D\<close> documents the proxy builds: \<open>BFloat n d\<close> is \<open>float64(n) / d\<close>, \<open>BVal\<close> a value taken from
  another document, \<open>BDoc\<close> a raw document.\<close>

datatype 'v bval =
    BFloat int int
  | BStr string
  | BInt32 int
  | BBool bool
  | BBin bytes
  | BDate time
  | BObjectID bytes
  | BArr "'v bval list"
  | BVal 'v
  | BDoc bytes

type_synonym 'v bdoc = "(string \<times> 'v bval) list"

text \<open>\<open>bx_DoubleOK\<close> gives a double by its conversion to \<open>int64\<close> and whether it equals 1.\<close>

record 'v bson_ext =
  bx_lib :: "'v bson_lib"
  bx_Int32OK :: "'v \<Rightarrow> int option"
  bx_Int64OK :: "'v \<Rightarrow> int option"
  bx_DoubleOK :: "'v \<Rightarrow> (int \<times> bool) option"
  bx_BinaryOK :: "'v \<Rightarrow> bytes option"
  bx_BooleanOK :: "'v \<Rightarrow> bool option"
  bx_Elements :: "bytes \<Rightarrow> (string \<times> 'v) list option"
  bx_ExtJSON :: "bytes \<Rightarrow> string option"
  bx_Marshal :: "'v bdoc \<Rightarrow> bytes option"

abbreviation raw_lookup :: "'v bson_ext \<Rightarrow> bytes \<Rightarrow> string \<Rightarrow> 'v" where
  "raw_lookup E doc key \<equiv> bson_Lookup (bx_lib E) doc key"

abbreviation str_field :: "'v bson_ext \<Rightarrow> bytes \<Rightarrow> string \<Rightarrow> string" where
  "str_field E doc key \<equiv> lookupString (bx_lib E) (Some doc) key"

definition lookupBool :: "'v bson_ext \<Rightarrow> bytes option \<Rightarrow> string \<Rightarrow> bool" where
  "lookupBool E doc key =
     (case doc of None \<Rightarrow> False
      | Some d \<Rightarrow> (case bx_BooleanOK E (raw_lookup E d key) of Some b \<Rightarrow> b | None \<Rightarrow> False))"

definition lookupInt64 :: "'v bson_ext \<Rightarrow> bytes \<Rightarrow> string \<Rightarrow> int option" where
  "lookupInt64 E doc key =
     (let v = raw_lookup E doc key in
      case bx_Int32OK E v of Some i \<Rightarrow> Some i
      | None \<Rightarrow> (case bx_Int64OK E v of Some i \<Rightarrow> Some i
        | None \<Rightarrow> (case bx_DoubleOK E v of Some (i, _) \<Rightarrow> Some i | None \<Rightarrow> None)))"

definition replyOK :: "'v bson_ext \<Rightarrow> bytes \<Rightarrow> bool" where
  "replyOK E body =
     (let v = raw_lookup E body ''ok'' in
      case bx_DoubleOK E v of Some (_, one) \<Rightarrow> one
      | None \<Rightarrow> (case bx_Int32OK E v of Some i \<Rightarrow> i = 1
        | None \<Rightarrow> (case bx_Int64OK E v of Some i \<Rightarrow> i = 1 | None \<Rightarrow> False)))"

definition codeAuthenticationFailed :: int where "codeAuthenticationFailed = 18"
definition codeUnauthorized :: int where "codeUnauthorized = 13"
definition codeNameAuthenticationFailed :: string where "codeNameAuthenticationFailed = ''AuthenticationFailed''"
definition codeNameUnauthorized :: string where "codeNameUnauthorized = ''Unauthorized''"
definition authFailedMsg :: string where "authFailedMsg = ''Authentication failed.''"

definition errorDoc :: "int \<Rightarrow> string \<Rightarrow> string \<Rightarrow> 'v bdoc" where
  "errorDoc errCode codeName errmsg =
     [(''ok'', BFloat 0 1), (''errmsg'', BStr errmsg), (''code'', BInt32 errCode), (''codeName'', BStr codeName)]"

definition authFailedDoc :: "'v bdoc" where
  "authFailedDoc = errorDoc codeAuthenticationFailed codeNameAuthenticationFailed authFailedMsg"

definition unauthorizedDoc :: "string \<Rightarrow> 'v bdoc" where
  "unauthorizedDoc reason = errorDoc codeUnauthorized codeNameUnauthorized reason"

definition okDoc :: "'v bdoc" where
  "okDoc = [(''ok'', BFloat 1 1)]"

section \<open>Errors\<close>

text \<open>What ends a pump, and why a command is refused.\<close>

datatype mongo_error = MgWire wire_error | ErrNoCommandBody | MgWriteFailed

datatype mongo_refusal = MgRevoked | MgQuota quota_failure | MgValidation validation_error

fun mongo_text :: "mongo_refusal \<Rightarrow> string" where
  "mongo_text MgRevoked = limit_text ErrGrantRevoked"
| "mongo_text (MgQuota QuotaExpired) = limit_text ErrGrantExpired"
| "mongo_text (MgQuota QuotaQueries) = ''dbbat: query count limit exceeded for this grant''"
| "mongo_text (MgQuota QuotaBytes) = ''dbbat: data transfer limit exceeded for this grant''"
| "mongo_text (MgValidation e) = validation_text e"

definition mongo_checkQuotas :: "time \<Rightarrow> access_grant \<Rightarrow> mongo_refusal option" where
  "mongo_checkQuotas now g = map_option MgQuota (check_quotas now g)"

section \<open>Session\<close>

record mongo_pending =
  mq_command :: string
  mq_sqlText :: string
  mq_params :: "query_parameters option"
  mq_start :: time
  mq_moreToCome :: bool
  mq_cursorID :: int

record cursor_origin =
  co_command :: string
  co_namespace :: string

record mongo_session =
  ms_core :: audited
  ms_database :: server
  ms_storage :: query_storage
  ms_pending :: "u32 \<rightharpoonup> mongo_pending"
  ms_cursorOrigins :: "int \<rightharpoonup> cursor_origin"
  ms_clientCompressor :: byte
  ms_compressReplies :: bool
  ms_replyReqID :: u32

definition preAuthReplyRequestIDBase :: u32 where "preAuthReplyRequestIDBase = 2 ^ 30"

definition recordQuery ::
  "mongo_pending \<Rightarrow> result_row list \<Rightarrow> int option \<Rightarrow> string option \<Rightarrow> heap \<Rightarrow> time \<Rightarrow> mongo_session \<Rightarrow> mongo_session" where
  "recordQuery pq rows rowsAffected queryError hp now s =
     s\<lparr>ms_core := record_query (mq_sqlText pq) (mq_params pq) (mq_start pq) now rows rowsAffected queryError hp (ms_core s)\<rparr>"

definition registerPending :: "u32 \<Rightarrow> mongo_pending \<Rightarrow> mongo_session \<Rightarrow> mongo_session" where
  "registerPending requestID pq s = s\<lparr>ms_pending := (ms_pending s)(requestID \<mapsto> pq)\<rparr>"

definition takePending :: "u32 \<Rightarrow> mongo_session \<Rightarrow> mongo_pending option \<times> mongo_session" where
  "takePending responseTo s =
     (case ms_pending s responseTo of None \<Rightarrow> (None, s)
      | Some pq \<Rightarrow> (Some pq, s\<lparr>ms_pending := (ms_pending s)(responseTo := None)\<rparr>))"

definition pendingCommand :: "u32 \<Rightarrow> mongo_session \<Rightarrow> string" where
  "pendingCommand responseTo s = (case ms_pending s responseTo of Some pq \<Rightarrow> mq_command pq | None \<Rightarrow> [])"

section \<open>Command text and parameters\<close>

definition maxSQLTextLen :: nat where "maxSQLTextLen = 8 * 1024"

definition buildSQLText :: "'v bson_ext \<Rightarrow> string \<Rightarrow> bytes \<Rightarrow> string" where
  "buildSQLText E cmd body =
     (case bx_ExtJSON E body of None \<Rightarrow> cmd
      | Some extJSON \<Rightarrow>
          let t = cmd @ '' '' @ extJSON in if length t > maxSQLTextLen then take maxSQLTextLen t else t)"

definition with_values :: "string list \<Rightarrow> query_parameters" where
  "with_values values = \<lparr>qp_Values = values, qp_Raw = [], qp_FormatCodes = [], qp_TypeOIDs = []\<rparr>"

definition extractParams :: "'v bson_ext \<Rightarrow> bytes \<Rightarrow> query_parameters option" where
  "extractParams E body =
     (let lsid = (case bson_DocumentOK (bx_lib E) (raw_lookup E body ''lsid'') of None \<Rightarrow> []
                  | Some d \<Rightarrow> (case bx_ExtJSON E d of None \<Rightarrow> [] | Some ej \<Rightarrow> [''lsid='' @ ej]));
          txn = (case lookupInt64 E body ''txnNumber'' of None \<Rightarrow> [] | Some n \<Rightarrow> [''txnNumber='' @ FormatInt n]);
          values = lsid @ txn
      in if values = [] then None else Some (with_values values))"

definition appendPendingParam :: "mongo_pending \<Rightarrow> string \<Rightarrow> mongo_pending" where
  "appendPendingParam pq value =
     pq\<lparr>mq_params := Some (case mq_params pq of None \<Rightarrow> with_values [value]
        | Some p \<Rightarrow> p\<lparr>qp_Values := qp_Values p @ [value]\<rparr>)\<rparr>"

section \<open>Cursor lineage\<close>

definition cursorOpeningCommands :: "string list" where
  "cursorOpeningCommands = [''find'', ''aggregate'', ''listCollections'', ''listIndexes'']"

definition putCursorOrigin :: "int \<Rightarrow> cursor_origin \<Rightarrow> mongo_session \<Rightarrow> mongo_session" where
  "putCursorOrigin cid origin s = s\<lparr>ms_cursorOrigins := (ms_cursorOrigins s)(cid \<mapsto> origin)\<rparr>"

definition getCursorOrigin :: "int \<Rightarrow> mongo_session \<Rightarrow> cursor_origin option" where
  "getCursorOrigin cid s = ms_cursorOrigins s cid"

definition dropCursorOrigin :: "int \<Rightarrow> mongo_session \<Rightarrow> mongo_session" where
  "dropCursorOrigin cid s = s\<lparr>ms_cursorOrigins := (ms_cursorOrigins s)(cid := None)\<rparr>"

definition annotateGetMore :: "'v bson_ext \<Rightarrow> mongo_session \<Rightarrow> bytes \<Rightarrow> mongo_pending \<Rightarrow> mongo_pending" where
  "annotateGetMore E s body pq =
     (case lookupInt64 E body ''getMore'' of None \<Rightarrow> pq
      | Some cursorID \<Rightarrow>
          let pq1 = appendPendingParam (pq\<lparr>mq_cursorID := cursorID\<rparr>) (''cursor_id='' @ FormatInt cursorID) in
          case getCursorOrigin cursorID s of None \<Rightarrow> pq1
          | Some origin \<Rightarrow>
              let ref = co_command origin @ (if co_namespace origin \<noteq> [] then '' '' @ co_namespace origin else [])
              in appendPendingParam pq1 (''cursor_origin='' @ ref))"

definition trackCursorFromReply ::
  "'v bson_ext \<Rightarrow> bytes \<Rightarrow> mongo_pending \<Rightarrow> mongo_session \<Rightarrow> mongo_pending \<times> mongo_session" where
  "trackCursorFromReply E body pq s =
     (case bson_DocumentOK (bx_lib E) (raw_lookup E body ''cursor'') of None \<Rightarrow> (pq, s)
      | Some cursor \<Rightarrow>
          let replyCursorID = (case lookupInt64 E cursor ''id'' of Some i \<Rightarrow> i | None \<Rightarrow> 0) in
          if mq_command pq \<in> set cursorOpeningCommands then
            if replyCursorID \<noteq> 0 then
              (appendPendingParam pq (''cursor_id='' @ FormatInt replyCursorID),
               putCursorOrigin replyCursorID \<lparr>co_command = mq_command pq, co_namespace = str_field E cursor ''ns''\<rparr> s)
            else (pq, s)
          else if mq_command pq = ''getMore'' then
            if replyCursorID = 0 \<and> mq_cursorID pq \<noteq> 0 then (pq, dropCursorOrigin (mq_cursorID pq) s) else (pq, s)
          else (pq, s))"

section \<open>Results\<close>

definition rowsAffectedFrom :: "'v bson_ext \<Rightarrow> bytes \<Rightarrow> int option" where
  "rowsAffectedFrom E body =
     (case lookupInt64 E body ''nModified'' of Some v \<Rightarrow> Some v | None \<Rightarrow> lookupInt64 E body ''n'')"

text \<open>The loop over the documents of a batch.\<close>

fun capture_docs :: "'v bson_ext \<Rightarrow> query_storage \<Rightarrow> int \<Rightarrow> int \<Rightarrow> 'v list \<Rightarrow> result_row list" where
  "capture_docs E q i totalBytes [] = []"
| "capture_docs E q i totalBytes (v # vs) =
     (if cfg_MaxResultRows q > 0 \<and> i \<ge> cfg_MaxResultRows q then []
      else case bson_DocumentOK (bx_lib E) v of None \<Rightarrow> capture_docs E q (i + 1) totalBytes vs
      | Some doc \<Rightarrow>
          (case bx_ExtJSON E doc of None \<Rightarrow> capture_docs E q (i + 1) totalBytes vs
           | Some extJSON \<Rightarrow>
               let sz = int (length extJSON) in
               if cfg_MaxResultBytes q > 0 \<and> totalBytes + sz > cfg_MaxResultBytes q then []
               else \<lparr>rr_RowNumber = i + 1, rr_RowData = extJSON, rr_RowSizeBytes = sz\<rparr>
                    # capture_docs E q (i + 1) (totalBytes + sz) vs))"

definition captureCursorRows :: "'v bson_ext \<Rightarrow> query_storage \<Rightarrow> bytes \<Rightarrow> result_row list" where
  "captureCursorRows E q body =
     (let B = bx_lib E in
      if \<not> cfg_StoreResults q then []
      else case bson_DocumentOK B (raw_lookup E body ''cursor'') of None \<Rightarrow> []
      | Some cursor \<Rightarrow>
          (case (case bson_ArrayOK B (raw_lookup E cursor ''firstBatch'') of Some b \<Rightarrow> Some b
                 | None \<Rightarrow> bson_ArrayOK B (raw_lookup E cursor ''nextBatch'')) of
             None \<Rightarrow> []
           | Some batch \<Rightarrow>
               (case bson_Values B batch of None \<Rightarrow> [] | Some values \<Rightarrow> capture_docs E q 0 0 values)))"

definition captureResult :: "'v bson_ext \<Rightarrow> message \<Rightarrow> heap \<Rightarrow> time \<Rightarrow> mongo_session \<Rightarrow> mongo_session" where
  "captureResult E m hp now s =
     (if msg_opCode m \<noteq> opCodeMsg then s
      else case takePending (msg_responseTo m) s of (None, s1) \<Rightarrow> s1
      | (Some pq, s1) \<Rightarrow>
          (case parseOpMsg (msg_body m) of Inl _ \<Rightarrow> recordQuery pq [] None None hp now s1
           | Inr parsed \<Rightarrow>
               (case commandBody parsed of None \<Rightarrow> recordQuery pq [] None None hp now s1
                | Some body \<Rightarrow>
                    let queryError = (if replyOK E body then None
                          else Some (let e = str_field E body ''errmsg'' in if e = [] then ''command failed'' else e));
                        rowsAffected = rowsAffectedFrom E body;
                        rows = captureCursorRows E (ms_storage s1) body;
                        (pq1, s2) = trackCursorFromReply E body pq s1
                    in recordQuery pq1 rows rowsAffected queryError hp now s2)))"

text \<open>The loop over the entries of a listDatabases reply: the kept documents and their size, an \<open>int64\<close>.\<close>

fun keep_databases :: "'v bson_ext \<Rightarrow> string \<Rightarrow> bytes list \<Rightarrow> int \<Rightarrow> 'v list \<Rightarrow> bytes list \<times> int" where
  "keep_databases E allowed kept totalSize [] = (kept, totalSize)"
| "keep_databases E allowed kept totalSize (v # vs) =
     (case bson_DocumentOK (bx_lib E) v of None \<Rightarrow> keep_databases E allowed kept totalSize vs
      | Some doc \<Rightarrow>
          if str_field E doc ''name'' \<noteq> allowed then keep_databases E allowed kept totalSize vs
          else keep_databases E allowed (kept @ [doc])
                 (case lookupInt64 E doc ''sizeOnDisk'' of Some sz \<Rightarrow> wrap_i64 (totalSize + sz) | None \<Rightarrow> totalSize) vs)"

definition bytesPerMB :: int where "bytesPerMB = 1024 * 1024"

definition rewriteDatabasesField :: "'v bson_ext \<Rightarrow> bytes \<Rightarrow> bytes list \<Rightarrow> int \<Rightarrow> 'v bdoc" where
  "rewriteDatabasesField E body databases totalSize =
     (let dbs = BArr (map BDoc databases) in
      case bx_Elements E body of
        None \<Rightarrow> [(''databases'', dbs), (''totalSize'', BFloat totalSize 1), (''ok'', BFloat 1 1)]
      | Some elems \<Rightarrow>
          map (\<lambda>(k, v). if k = ''databases'' then (''databases'', dbs)
                        else if k = ''totalSize'' then (''totalSize'', BFloat totalSize 1)
                        else if k = ''totalSizeMb'' then (''totalSizeMb'', BFloat totalSize bytesPerMB)
                        else (k, BVal v)) elems)"

definition filterListDatabasesReply :: "'v bson_ext \<Rightarrow> message \<Rightarrow> mongo_session \<Rightarrow> bytes option" where
  "filterListDatabasesReply E m s =
     (case parseOpMsg (msg_body m) of Inl _ \<Rightarrow> None
      | Inr parsed \<Rightarrow>
          (case commandBody parsed of None \<Rightarrow> None
           | Some body \<Rightarrow>
               (case bson_ArrayOK (bx_lib E) (raw_lookup E body ''databases'') of None \<Rightarrow> None
                | Some arr \<Rightarrow>
                    (case bson_Values (bx_lib E) arr of None \<Rightarrow> None
                     | Some values \<Rightarrow>
                         let (kept, totalSize) = keep_databases E (srv_DatabaseName (ms_database s)) [] 0 values in
                         case buildOpMsgReply (bx_Marshal E) (msg_requestID m) (msg_responseTo m)
                                (rewriteDatabasesField E body kept totalSize) of
                           Inl _ \<Rightarrow> None | Inr raw \<Rightarrow> Some raw))))"

section \<open>The relay\<close>

text \<open>
  \<open>mx_upstream\<close>: the frames forwarded, \<open>mx_client\<close>: the frames written to the client before
  compression, \<open>mx_dump\<close>: the packets given to the dump writer. A write takes its outcome (bytes,
  success) from \<open>mx_writes\<close>; a closed connection takes nothing. \<open>mx_c2u\<close> and \<open>mx_u2c\<close> tell how a pump
  returned.
\<close>

record mongo_proxy =
  mx_session :: mongo_session
  mx_heap :: heap
  mx_registry :: "registry option"
  mx_upstream :: "message list"
  mx_client :: "bytes list"
  mx_dump :: "(byte \<times> bytes) list option"
  mx_writes :: "(int \<times> bool) list"
  mx_closed :: bool
  mx_c2u :: "mongo_error option"
  mx_u2c :: "mongo_error option"

definition upd_ms :: "(mongo_session \<Rightarrow> mongo_session) \<Rightarrow> mongo_proxy \<Rightarrow> mongo_proxy" where
  "upd_ms f p = p\<lparr>mx_session := f (mx_session p)\<rparr>"

definition mongo_conn :: "mongo_proxy \<Rightarrow> counting_conn" where
  "mongo_conn p = NewCountingConn (Some (au_from (ms_core (mx_session p)))) (Some (au_to (ms_core (mx_session p))))"

definition dumpPacket :: "byte \<Rightarrow> bytes \<Rightarrow> mongo_proxy \<Rightarrow> mongo_proxy" where
  "dumpPacket dir raw p = p\<lparr>mx_dump := map_option (\<lambda>ps. ps @ [(dir, raw)]) (mx_dump p)\<rparr>"

definition maybeCompress :: "zlib_lib \<Rightarrow> mongo_session \<Rightarrow> bytes \<Rightarrow> wire_error + bytes" where
  "maybeCompress Z s raw =
     (if \<not> ms_compressReplies s \<or> ms_clientCompressor s = compressorNoop \<or> length raw < headerLen then Inr raw
      else let opCode = Uint32_LE (drop 12 raw) in
        if opCode \<noteq> opCodeMsg \<and> opCode \<noteq> opCodeReply then Inr raw
        else compressMessage Z raw (ms_clientCompressor s))"

definition writeClient :: "zlib_lib \<Rightarrow> bytes \<Rightarrow> mongo_proxy \<Rightarrow> mongo_error option \<times> mongo_proxy" where
  "writeClient Z raw p =
     (case maybeCompress Z (mx_session p) raw of Inl e \<Rightarrow> (Some (MgWire e), p)
      | Inr _ \<Rightarrow>
          let (n, ok) = (if mx_closed p then (0, False) else case mx_writes p of [] \<Rightarrow> (0, False) | w # _ \<Rightarrow> w)
          in (if ok then None else Some MgWriteFailed,
              p\<lparr>mx_writes := tl (mx_writes p),
                mx_heap := snd (cc_Write (mongo_conn p) (n, None :: unit option) (mx_heap p)),
                mx_client := (if ok then mx_client p @ [raw] else mx_client p)\<rparr>))"

definition nextReplyID :: "mongo_session \<Rightarrow> u32 \<times> mongo_session" where
  "nextReplyID s = (ms_replyReqID s + 1, s\<lparr>ms_replyReqID := ms_replyReqID s + 1\<rparr>)"

definition replyOpMsg ::
  "'v bson_ext \<Rightarrow> zlib_lib \<Rightarrow> u32 \<Rightarrow> 'v bdoc \<Rightarrow> mongo_proxy \<Rightarrow> mongo_error option \<times> mongo_proxy" where
  "replyOpMsg E Z responseTo doc p =
     (let (rid, s) = nextReplyID (mx_session p); p1 = p\<lparr>mx_session := s\<rparr> in
      case buildOpMsgReply (bx_Marshal E) rid responseTo doc of Inl e \<Rightarrow> (Some (MgWire e), p1)
      | Inr reply \<Rightarrow> writeClient Z reply p1)"

definition forward :: "bool \<Rightarrow> message \<Rightarrow> mongo_proxy \<Rightarrow> mongo_error option \<times> mongo_proxy" where
  "forward written m p =
     (let p1 = dumpPacket 0 (msg_raw m) p in
      if written \<and> \<not> mx_closed p1 then (None, p1\<lparr>mx_upstream := mx_upstream p1 @ [m]\<rparr>) else (Some MgWriteFailed, p1))"

definition rejectCommand ::
  "'v bson_ext \<Rightarrow> zlib_lib \<Rightarrow> message \<Rightarrow> string \<Rightarrow> bytes \<Rightarrow> bool \<Rightarrow> mongo_refusal \<Rightarrow> time \<Rightarrow> time \<Rightarrow> mongo_proxy
   \<Rightarrow> mongo_error option \<times> mongo_proxy" where
  "rejectCommand E Z m cmd body moreToCome verr now now' p =
     (let pq = \<lparr>mq_command = cmd, mq_sqlText = buildSQLText E cmd body, mq_params = extractParams E body, mq_start = now,
                mq_moreToCome = False, mq_cursorID = 0\<rparr>;
          p1 = upd_ms (recordQuery pq [] None (Some (mongo_text verr)) (mx_heap p) now') p
      in if moreToCome then (None, p1) else replyOpMsg E Z (msg_requestID m) (unauthorizedDoc (mongo_text verr)) p1)"

text \<open>The three checks of a command, in the order of the code.\<close>

definition refusal ::
  "'v bson_ext \<Rightarrow> heap \<Rightarrow> time \<Rightarrow> string \<Rightarrow> bytes \<Rightarrow> mongo_session \<Rightarrow> mongo_refusal option" where
  "refusal E hp now cmd body s =
     (let a = ms_core s in
      if Revoked hp (au_revocation a) then Some MgRevoked
      else case mongo_checkQuotas now (au_grant a) of Some e \<Rightarrow> Some e
      | None \<Rightarrow> map_option MgValidation
          (ValidateMongoCommand (bx_lib E) cmd (str_field E body ''$db'') body (Some (ms_database s)) (au_grant a)))"

text \<open>The readings of the clock: at the quota check, at the start of the query, at its record.\<close>

type_synonym clock3 = "time \<times> time \<times> time"

definition new_pending :: "'v bson_ext \<Rightarrow> string \<Rightarrow> bytes \<Rightarrow> bool \<Rightarrow> time \<Rightarrow> mongo_session \<Rightarrow> mongo_pending" where
  "new_pending E cmd body moreToCome now s =
     (let pq = \<lparr>mq_command = cmd, mq_sqlText = buildSQLText E cmd body, mq_params = extractParams E body, mq_start = now,
                mq_moreToCome = moreToCome, mq_cursorID = 0\<rparr>
      in if cmd = ''getMore'' then annotateGetMore E s body pq else pq)"

definition handleClientOpMsg ::
  "'v bson_ext \<Rightarrow> zlib_lib \<Rightarrow> message \<Rightarrow> clock3 \<Rightarrow> bool \<Rightarrow> mongo_proxy \<Rightarrow> mongo_error option \<times> mongo_proxy" where
  "handleClientOpMsg E Z m clk written p =
     (case parseOpMsg (msg_body m) of Inl e \<Rightarrow> (Some (MgWire e), p)
      | Inr parsed \<Rightarrow>
          (case commandBody parsed of None \<Rightarrow> (Some ErrNoCommandBody, p)
           | Some body \<Rightarrow>
               let (now, start, done) = clk;
                   cmd = commandName (bx_lib E) body;
                   moreToCome = om_flags parsed AND flagMoreToCome \<noteq> 0
               in case refusal E (mx_heap p) now cmd body (mx_session p) of
                    Some e \<Rightarrow> rejectCommand E Z m cmd body moreToCome e start done p
                  | None \<Rightarrow>
                      let pq = new_pending E cmd body moreToCome start (mx_session p) in
                      case forward written m (upd_ms (registerPending (msg_requestID m) pq) p) of
                        (Some e, p1) \<Rightarrow> (Some e, upd_ms (\<lambda>s. snd (takePending (msg_requestID m) s)) p1)
                      | (None, p1) \<Rightarrow>
                          if moreToCome then
                            (case takePending (msg_requestID m) (mx_session p1) of
                               (None, s) \<Rightarrow> (None, p1\<lparr>mx_session := s\<rparr>)
                             | (Some pq', s) \<Rightarrow> (None, p1\<lparr>mx_session := recordQuery pq' [] None None (mx_heap p1) done s\<rparr>))
                          else (None, p1)))"

definition readClientMessage ::
  "zlib_lib \<Rightarrow> bytes \<Rightarrow> mongo_session \<Rightarrow> (wire_error + message) \<times> mongo_session" where
  "readClientMessage Z stream s =
     (case readMessage stream of Inl e \<Rightarrow> (Inl e, s)
      | Inr (m, _) \<Rightarrow>
          if msg_opCode m \<noteq> opCodeCompressed then (Inr m, s)
          else case decompressMessage Z m of Inl e \<Rightarrow> (Inl e, s)
          | Inr (inner, compressorID) \<Rightarrow>
              (Inr inner, s\<lparr>ms_clientCompressor := compressorID, ms_compressReplies := True\<rparr>))"

text \<open>One round of each pump.\<close>

definition pumpClientToUpstream ::
  "'v bson_ext \<Rightarrow> zlib_lib \<Rightarrow> int \<Rightarrow> bytes \<Rightarrow> clock3 \<Rightarrow> bool \<Rightarrow> mongo_proxy \<Rightarrow> mongo_proxy" where
  "pumpClientToUpstream E Z n stream clk written p0 =
     (let p = p0\<lparr>mx_heap := snd (cc_Read (mongo_conn p0) (n, None :: unit option) (mx_heap p0))\<rparr> in
      case readClientMessage Z stream (mx_session p) of (Inl e, s) \<Rightarrow> p\<lparr>mx_session := s, mx_c2u := Some (MgWire e)\<rparr>
      | (Inr m, s) \<Rightarrow>
          let p1 = p\<lparr>mx_session := s\<rparr>;
              (err, p2) = (if msg_opCode m \<noteq> opCodeMsg then forward written m p1 else handleClientOpMsg E Z m clk written p1)
          in p2\<lparr>mx_c2u := err\<rparr>)"

definition pumpUpstreamToClient ::
  "'v bson_ext \<Rightarrow> zlib_lib \<Rightarrow> bytes \<Rightarrow> time \<Rightarrow> mongo_proxy \<Rightarrow> mongo_proxy" where
  "pumpUpstreamToClient E Z stream now p =
     (case readMessage stream of Inl e \<Rightarrow> p\<lparr>mx_u2c := Some (MgWire e)\<rparr>
      | Inr (m, _) \<Rightarrow>
          let s = mx_session p;
              outRaw = (if pendingCommand (msg_responseTo m) s = ''listDatabases''
                        then (case filterListDatabasesReply E m s of Some rewritten \<Rightarrow> rewritten | None \<Rightarrow> msg_raw m)
                        else msg_raw m);
              (err, p1) = writeClient Z outRaw (dumpPacket 1 outRaw (upd_ms (captureResult E m (mx_heap p) now) p))
          in p1\<lparr>mx_u2c := err\<rparr>)"

section \<open>Executions\<close>

text \<open>The end of a session: the registration is dropped and the trailing bytes are flushed.\<close>

definition deregisterRevocation :: "mongo_proxy \<Rightarrow> mongo_proxy" where
  "deregisterRevocation p =
     (let a = ms_core (mx_session p) in
      case au_revocation a of None \<Rightarrow> p
      | Some h \<Rightarrow> p\<lparr>mx_registry := Deregister (mx_registry p) (ag_UID (au_grant a)) (Some h)\<rparr>)"

definition recordDisconnect :: "mongo_proxy \<Rightarrow> mongo_proxy" where
  "recordDisconnect p = upd_ms (\<lambda>s. s\<lparr>ms_core := flush_trailing (mx_heap p) (ms_core s)\<rparr>) p"

text \<open>\<open>MevClose\<close> is the reaction of \<open>relay\<close> to the end of one pump, \<open>MevEnd\<close> the deferred calls of \<open>Run\<close>
  after both have ended.\<close>

datatype mongo_event =
    MevClient int bytes clock3 bool
  | MevServer bytes time
  | MevWatchdog time
  | MevRegistry bus_op
  | MevClose
  | MevEnd

definition mongo_step :: "'v bson_ext \<Rightarrow> zlib_lib \<Rightarrow> mongo_event \<Rightarrow> mongo_proxy \<Rightarrow> mongo_proxy" where
  "mongo_step E Z ev p =
     (case ev of
        MevClient n stream clk written \<Rightarrow>
          if mx_c2u p = None then pumpClientToUpstream E Z n stream clk written p else p
      | MevServer stream now \<Rightarrow> if mx_u2c p = None then pumpUpstreamToClient E Z stream now p else p
      | MevWatchdog now \<Rightarrow>
          (case Check (mx_heap p) now (au_guard (ms_core (mx_session p))) of None \<Rightarrow> p | Some _ \<Rightarrow> p\<lparr>mx_closed := True\<rparr>)
      | MevRegistry b \<Rightarrow> (let (r, hp) = bus_step b (mx_registry p, mx_heap p) in p\<lparr>mx_registry := r, mx_heap := hp\<rparr>)
      | MevClose \<Rightarrow> if mx_c2u p = None \<and> mx_u2c p = None then p else p\<lparr>mx_closed := True\<rparr>
      | MevEnd \<Rightarrow>
          if mx_c2u p = None \<or> mx_u2c p = None then p else deregisterRevocation (recordDisconnect p))"

definition mongo_run :: "'v bson_ext \<Rightarrow> zlib_lib \<Rightarrow> mongo_event list \<Rightarrow> mongo_proxy \<Rightarrow> mongo_proxy" where
  "mongo_run E Z evs p = fold (mongo_step E Z) evs p"

section \<open>What the relay leaves alone\<close>

definition mx_bus :: "mongo_proxy \<Rightarrow> bus" where
  "mx_bus p = (mx_registry p, mx_heap p)"

text \<open>The relations that hold between the states before and after every operation of a pump: registry,
  flags and the state of the connection are untouched, and the audited state moves by audited steps.\<close>

definition relay_frame :: "mongo_proxy \<Rightarrow> mongo_proxy \<Rightarrow> bool" where
  "relay_frame p q \<longleftrightarrow> same_flags (mx_bus p) (mx_bus q) \<and> mx_closed q = mx_closed p
     \<and> ms_database (mx_session q) = ms_database (mx_session p)
     \<and> audit_step\<^sup>*\<^sup>* (ms_core (mx_session p)) (ms_core (mx_session q))"

lemma relay_frame_refl [simp, intro]: "relay_frame p p"
  by (simp add: relay_frame_def same_flags_def)

lemma relay_frame_trans: "relay_frame p q \<Longrightarrow> relay_frame q r \<Longrightarrow> relay_frame p r"
  by (auto simp: relay_frame_def same_flags_def)

lemma relay_frame_session:
  "ms_core s = ms_core (mx_session p) \<Longrightarrow> ms_database s = ms_database (mx_session p) \<Longrightarrow> relay_frame p (p\<lparr>mx_session := s\<rparr>)"
  by (simp add: relay_frame_def same_flags_def mx_bus_def)

lemma relay_frame_fields:
  "relay_frame p (p\<lparr>mx_c2u := e\<rparr>)" "relay_frame p (p\<lparr>mx_u2c := e\<rparr>)" "relay_frame p (p\<lparr>mx_upstream := ms\<rparr>)"
  "relay_frame p (p\<lparr>mx_dump := d\<rparr>)" "relay_frame p (p\<lparr>mx_heap := snd (cc_Read c x (mx_heap p))\<rparr>)"
  by (simp_all add: relay_frame_def same_flags_def mx_bus_def cc_Read_def cc_count_def AddInt_def split: option.split)

lemma relay_frame_write: "relay_frame p (snd (writeClient Z raw p))"
  by (simp add: writeClient_def split_beta Let_def relay_frame_def same_flags_def mx_bus_def cc_Write_def cc_count_def AddInt_def
      split: sum.split option.split)

lemma relay_frame_reply: "relay_frame p (snd (replyOpMsg E Z rt doc p))"
proof -
  let ?p1 = "p\<lparr>mx_session := snd (nextReplyID (mx_session p))\<rparr>"
  have p1: "relay_frame p ?p1" by (rule relay_frame_session) (simp_all add: nextReplyID_def)
  show ?thesis
    using p1 relay_frame_trans [OF p1 relay_frame_write] by (simp add: replyOpMsg_def split_beta Let_def split: sum.split)
qed

lemma relay_frame_record:
  "relay_frame p (upd_ms (recordQuery pq rows ra err hp now) p)"
  by (simp add: relay_frame_def same_flags_def mx_bus_def upd_ms_def recordQuery_def audit_record r_into_rtranclp)

lemma relay_frame_forward: "relay_frame p (snd (forward w m p))"
  by (simp add: forward_def dumpPacket_def Let_def relay_frame_def same_flags_def mx_bus_def)

lemma relay_frame_reject: "relay_frame p (snd (rejectCommand E Z m cmd body mtc e now now' p))"
  unfolding rejectCommand_def Let_def
  by (auto intro: relay_frame_record relay_frame_trans [OF relay_frame_record relay_frame_reply])

lemma takePending_core [simp]:
  "ms_core (snd (takePending r s)) = ms_core s" "ms_database (snd (takePending r s)) = ms_database s"
  by (simp_all add: takePending_def split: option.split)

lemma relay_frame_opmsg: "relay_frame p (snd (handleClientOpMsg E Z m clk w p))"
proof -
  { fix pq
    let ?q = "upd_ms (registerPending (msg_requestID m) pq) p"
    have "relay_frame p ?q" by (simp add: upd_ms_def registerPending_def relay_frame_session)
    from relay_frame_trans [OF this relay_frame_forward] have "relay_frame p (snd (forward w m ?q))" . }
  note fwd = this
  have taken: "relay_frame p1 (p1\<lparr>mx_session := snd (takePending r (mx_session p1))\<rparr>)" for p1 r
    by (rule relay_frame_session) simp_all
  have rec: "relay_frame p1 (p1\<lparr>mx_session := recordQuery pq' [] None None hp t (snd (takePending r (mx_session p1)))\<rparr>)" for p1 pq' hp t r
    by (simp add: relay_frame_def same_flags_def mx_bus_def recordQuery_def audit_record r_into_rtranclp)
  show ?thesis
  proof (cases "parseOpMsg (msg_body m)")
    case (Inr parsed)
    show ?thesis
    proof (cases "commandBody parsed")
      case (Some body)
      obtain now start t3 where clk: "clk = (now, start, t3)" by (cases clk)
      let ?cmd = "commandName (bx_lib E) body" and ?mtc = "om_flags parsed AND flagMoreToCome \<noteq> 0"
      show ?thesis
      proof (cases "refusal E (mx_heap p) now ?cmd body (mx_session p)")
        case None
        let ?pq = "new_pending E ?cmd body ?mtc start (mx_session p)"
        obtain e p1 where f: "forward w m (upd_ms (registerPending (msg_requestID m) ?pq) p) = (e, p1)" by fastforce
        with fwd have p1: "relay_frame p p1" by (metis snd_conv)
        obtain pq' s' where tp: "takePending (msg_requestID m) (mx_session p1) = (pq', s')" by fastforce
        have s': "s' = snd (takePending (msg_requestID m) (mx_session p1))" using tp by simp
        have "snd (handleClientOpMsg E Z m clk w p) \<in> {p1, p1\<lparr>mx_session := s'\<rparr>}
            \<union> {p1\<lparr>mx_session := recordQuery q [] None None (mx_heap p1) t3 s'\<rparr> | q. True}"
          using Inr Some None f tp clk by (auto simp: handleClientOpMsg_def Let_def upd_ms_def split: option.split)
        then show ?thesis
          using p1 relay_frame_trans [OF p1 taken] relay_frame_trans [OF p1 rec] by (auto simp: s')
      qed (use Inr Some clk relay_frame_reject in \<open>simp add: handleClientOpMsg_def Let_def\<close>)
    qed (use Inr in \<open>simp add: handleClientOpMsg_def\<close>)
  qed (simp add: handleClientOpMsg_def)
qed

lemma readClientMessage_core [simp]:
  "ms_core (snd (readClientMessage Z st s)) = ms_core s" "ms_database (snd (readClientMessage Z st s)) = ms_database s"
  "ms_pending (snd (readClientMessage Z st s)) = ms_pending s"
  by (auto simp: readClientMessage_def split: sum.split)

text \<open>The state in which a client message is handled.\<close>

definition received :: "zlib_lib \<Rightarrow> int \<Rightarrow> bytes \<Rightarrow> mongo_proxy \<Rightarrow> mongo_proxy" where
  "received Z n stream p = p\<lparr>mx_heap := snd (cc_Read (mongo_conn p) (n, None :: unit option) (mx_heap p)),
     mx_session := snd (readClientMessage Z stream (mx_session p))\<rparr>"

lemma received_frame: "relay_frame p (received Z n stream p)"
  by (simp add: received_def relay_frame_def same_flags_def mx_bus_def cc_Read_def cc_count_def AddInt_def split: option.split)

lemma received_fields [simp]:
  "mx_upstream (received Z n stream p) = mx_upstream p" "mx_closed (received Z n stream p) = mx_closed p"
  "ms_pending (mx_session (received Z n stream p)) = ms_pending (mx_session p)"
  "ms_core (mx_session (received Z n stream p)) = ms_core (mx_session p)"
  "ms_database (mx_session (received Z n stream p)) = ms_database (mx_session p)"
  by (simp_all add: received_def)

lemma pump_client_cases:
  obtains e where "fst (readClientMessage Z stream (mx_session p)) = Inl e"
    and "pumpClientToUpstream E Z n stream clk w p = (received Z n stream p)\<lparr>mx_c2u := Some (MgWire e)\<rparr>"
  | m where "fst (readClientMessage Z stream (mx_session p)) = Inr m" and "msg_opCode m \<noteq> opCodeMsg"
    and "pumpClientToUpstream E Z n stream clk w p =
      (snd (forward w m (received Z n stream p)))\<lparr>mx_c2u := fst (forward w m (received Z n stream p))\<rparr>"
  | m where "fst (readClientMessage Z stream (mx_session p)) = Inr m" and "msg_opCode m = opCodeMsg"
    and "pumpClientToUpstream E Z n stream clk w p =
      (snd (handleClientOpMsg E Z m clk w (received Z n stream p)))\<lparr>mx_c2u := fst (handleClientOpMsg E Z m clk w (received Z n stream p))\<rparr>"
proof -
  obtain r s where rs: "readClientMessage Z stream (mx_session p) = (r, s)" by fastforce
  show ?thesis
  proof (cases r)
    case (Inl e)
    then show ?thesis using that(1) rs by (simp add: pumpClientToUpstream_def received_def Let_def)
  next
    case (Inr m)
    then show ?thesis using that(2,3) rs by (cases "msg_opCode m = opCodeMsg")
        (simp_all add: pumpClientToUpstream_def received_def split_beta Let_def)
  qed
qed

lemma relay_frame_client: "relay_frame p (pumpClientToUpstream E Z n stream clk w p)"
proof (cases rule: pump_client_cases [of Z stream p E n clk w])
  case (1 e)
  show ?thesis unfolding 1(2) by (rule relay_frame_trans [OF received_frame relay_frame_fields(1)])
next
  case (2 m)
  show ?thesis unfolding 2(3)
    by (rule relay_frame_trans [OF received_frame relay_frame_trans [OF relay_frame_forward relay_frame_fields(1)]])
next
  case (3 m)
  show ?thesis unfolding 3(3)
    by (rule relay_frame_trans [OF received_frame relay_frame_trans [OF relay_frame_opmsg relay_frame_fields(1)]])
qed

lemma captureResult_core:
  "audit_step\<^sup>*\<^sup>* (ms_core s) (ms_core (captureResult E m hp now s))" "ms_database (captureResult E m hp now s) = ms_database s"
  by (auto simp: captureResult_def recordQuery_def takePending_def trackCursorFromReply_def putCursorOrigin_def dropCursorOrigin_def Let_def
      split: option.split sum.split prod.split intro: r_into_rtranclp audit_record)

lemma relay_frame_server: "relay_frame p (pumpUpstreamToClient E Z stream now p)"
proof (cases "readMessage stream")
  case (Inl e)
  then show ?thesis by (simp add: pumpUpstreamToClient_def relay_frame_fields)
next
  case (Inr mr)
  obtain m rest where mr: "mr = (m, rest)" by fastforce
  let ?q = "\<lambda>out. dumpPacket 1 out (upd_ms (captureResult E m (mx_heap p) now) p)"
  have "ms_database (captureResult E m (mx_heap p) now (mx_session p)) = ms_database (mx_session p)"
    by (rule captureResult_core(2))
  then have "relay_frame p (?q out)" for out
    by (simp add: relay_frame_def same_flags_def mx_bus_def upd_ms_def dumpPacket_def captureResult_core(1))
  then have "relay_frame p ((snd (writeClient Z out (?q out)))\<lparr>mx_u2c := e\<rparr>)" for out e
    by (blast intro: relay_frame_trans relay_frame_write relay_frame_fields)
  then show ?thesis by (simp add: pumpUpstreamToClient_def Inr mr split_beta Let_def)
qed

lemma pump_server_upstream [simp]:
  "mx_upstream (pumpUpstreamToClient E Z stream now p) = mx_upstream p" "mx_c2u (pumpUpstreamToClient E Z stream now p) = mx_c2u p"
  by (simp_all add: pumpUpstreamToClient_def writeClient_def dumpPacket_def upd_ms_def split_beta Let_def split: sum.split prod.split)

text \<open>How an event acts on the parts that revocation and accounting are about.\<close>

lemma mongo_step_cases:
  obtains "relay_frame p (mongo_step E Z ev p)" and "mx_c2u p = None \<or> mx_c2u (mongo_step E Z ev p) = mx_c2u p"
  | op where "ev = MevRegistry op" and "mongo_step E Z ev p = p\<lparr>mx_registry := fst (bus_step op (mx_bus p)), mx_heap := snd (bus_step op (mx_bus p))\<rparr>"
  | "mongo_step E Z ev p = p\<lparr>mx_closed := True\<rparr>"
  | "mx_c2u p \<noteq> None" and "mongo_step E Z ev p = deregisterRevocation (recordDisconnect p)"
proof (cases ev)
  case (MevRegistry op)
  then show ?thesis using that(2) by (simp add: mongo_step_def mx_bus_def split_beta Let_def)
next
  case (MevClient n stream clk w)
  then show ?thesis using that(1) by (cases "mx_c2u p") (simp_all add: mongo_step_def relay_frame_client)
next
  case (MevServer stream now)
  then show ?thesis using that(1) by (cases "mx_u2c p") (simp_all add: mongo_step_def relay_frame_server)
next
  case (MevWatchdog now)
  then show ?thesis using that(1,3)
    by (cases "Check (mx_heap p) now (au_guard (ms_core (mx_session p)))") (simp_all add: mongo_step_def)
next
  case MevClose
  then show ?thesis using that(1,3) by (cases "mx_c2u p = None \<and> mx_u2c p = None") (auto simp: mongo_step_def)
next
  case MevEnd
  then show ?thesis using that(1,4) by (cases "mx_c2u p = None \<or> mx_u2c p = None") (auto simp: mongo_step_def)
qed

lemma deregister_frame [simp]:
  "mx_session (deregisterRevocation p) = mx_session p" "mx_c2u (deregisterRevocation p) = mx_c2u p"
  "mx_upstream (deregisterRevocation p) = mx_upstream p" "mx_closed (deregisterRevocation p) = mx_closed p"
  by (simp_all add: deregisterRevocation_def Let_def split: option.split)

lemma disconnect_frame [simp]:
  "ms_core (mx_session (recordDisconnect p)) = flush_trailing (mx_heap p) (ms_core (mx_session p))"
  "mx_c2u (recordDisconnect p) = mx_c2u p" "mx_upstream (recordDisconnect p) = mx_upstream p" "mx_closed (recordDisconnect p) = mx_closed p"
  "ms_database (mx_session (recordDisconnect p)) = ms_database (mx_session p)"
  "ms_pending (mx_session (recordDisconnect p)) = ms_pending (mx_session p)"
  by (simp_all add: recordDisconnect_def upd_ms_def)

interpretation mongo_audit: audited_session "\<lambda>p. ms_core (mx_session p)" "mongo_step E Z" for E Z
proof
  fix p e
  show "audit_step\<^sup>*\<^sup>* (ms_core (mx_session p)) (ms_core (mx_session (mongo_step E Z e p)))"
    by (cases rule: mongo_step_cases [of p E Z e]) (simp_all add: relay_frame_def audit_flush r_into_rtranclp)
qed

section \<open>What reaches the upstream server\<close>

lemma writeClient_frame [simp]:
  "mx_upstream (snd (writeClient Z raw p)) = mx_upstream p" "mx_session (snd (writeClient Z raw p)) = mx_session p"
  by (simp_all add: writeClient_def split_beta Let_def split: sum.split)

lemma replyOpMsg_frame [simp]:
  "mx_upstream (snd (replyOpMsg E Z rt doc p)) = mx_upstream p"
  "ms_core (mx_session (snd (replyOpMsg E Z rt doc p))) = ms_core (mx_session p)"
  "ms_pending (mx_session (snd (replyOpMsg E Z rt doc p))) = ms_pending (mx_session p)"
  by (simp_all add: replyOpMsg_def nextReplyID_def split_beta Let_def split: sum.split)

lemma reject_frame [simp]:
  "mx_upstream (snd (rejectCommand E Z m cmd body mtc e now now' p)) = mx_upstream p"
  "ms_pending (mx_session (snd (rejectCommand E Z m cmd body mtc e now now' p))) = ms_pending (mx_session p)"
  by (simp_all add: rejectCommand_def upd_ms_def recordQuery_def Let_def)

lemma forward_upstream:
  "mx_upstream (snd (forward w m p)) = mx_upstream p @ (if w \<and> \<not> mx_closed p then [m] else [])"
  "mx_session (snd (forward w m p)) = mx_session p" "mx_heap (snd (forward w m p)) = mx_heap p"
  "fst (forward w m p) = (if w \<and> \<not> mx_closed p then None else Some MgWriteFailed)"
  by (simp_all add: forward_def dumpPacket_def Let_def)

text \<open>A command that passed the checks in the state \<open>p\<close>.\<close>

definition admitted :: "'v bson_ext \<Rightarrow> message \<Rightarrow> mongo_proxy \<Rightarrow> bool" where
  "admitted E m p \<longleftrightarrow> (\<exists>parsed body now. parseOpMsg (msg_body m) = Inr parsed \<and> commandBody parsed = Some body
     \<and> refusal E (mx_heap p) now (commandName (bx_lib E) body) body (mx_session p) = None)"

lemma opmsg_upstream:
  "mx_upstream (snd (handleClientOpMsg E Z m clk w p)) = mx_upstream p
   \<or> \<not> mx_closed p \<and> admitted E m p \<and> mx_upstream (snd (handleClientOpMsg E Z m clk w p)) = mx_upstream p @ [m]"
proof (cases "parseOpMsg (msg_body m)")
  case (Inr parsed)
  show ?thesis
  proof (cases "commandBody parsed")
    case (Some body)
    obtain now start t3 where clk: "clk = (now, start, t3)" by (cases clk)
    let ?cmd = "commandName (bx_lib E) body"
    show ?thesis
    proof (cases "refusal E (mx_heap p) now ?cmd body (mx_session p)")
      case None
      let ?q = "upd_ms (registerPending (msg_requestID m) (new_pending E ?cmd body (om_flags parsed AND flagMoreToCome \<noteq> 0) start (mx_session p))) p"
      obtain e p1 where f: "forward w m ?q = (e, p1)" by fastforce
      have "mx_upstream p1 = mx_upstream p @ (if w \<and> \<not> mx_closed p then [m] else [])"
        using forward_upstream(1) [of w m ?q] f by (simp add: upd_ms_def)
      moreover have "mx_upstream (snd (handleClientOpMsg E Z m clk w p)) = mx_upstream p1"
        using Inr Some None f clk by (simp add: handleClientOpMsg_def Let_def upd_ms_def split: option.split prod.split)
      moreover have "admitted E m p" using Inr Some None unfolding admitted_def by blast
      ultimately show ?thesis by auto
    qed (use Inr Some clk in \<open>simp add: handleClientOpMsg_def Let_def\<close>)
  qed (use Inr in \<open>simp add: handleClientOpMsg_def\<close>)
qed (simp add: handleClientOpMsg_def)

text \<open>An event forwards nothing, a frame that is not an \<open>OP_MSG\<close>, or an admitted command.\<close>

lemma mongo_step_upstream:
  "mx_upstream (mongo_step E Z ev p) = mx_upstream p
   \<or> \<not> mx_closed p \<and> mx_c2u p = None \<and>
     (\<exists>m q. mx_upstream (mongo_step E Z ev p) = mx_upstream p @ [m] \<and> relay_frame p q
        \<and> ms_core (mx_session q) = ms_core (mx_session p) \<and> (msg_opCode m = opCodeMsg \<longrightarrow> admitted E m q))"
proof (cases "\<exists>n stream clk w. ev = MevClient n stream clk w \<and> mx_c2u p = None")
  case True
  then obtain n stream clk w where ev: "ev = MevClient n stream clk w" and c: "mx_c2u p = None" by blast
  let ?q = "received Z n stream p"
  have st: "mongo_step E Z ev p = pumpClientToUpstream E Z n stream clk w p" by (simp add: ev c mongo_step_def)
  show ?thesis
  proof (cases rule: pump_client_cases [of Z stream p E n clk w])
    case (1 e)
    then show ?thesis by (simp add: st)
  next
    case (2 m)
    have "mx_upstream (mongo_step E Z ev p) = mx_upstream p @ (if w \<and> \<not> mx_closed p then [m] else [])"
      by (simp add: st 2(3) forward_upstream)
    then show ?thesis using c 2(2) received_frame [of p Z n stream]
      by (cases "w \<and> \<not> mx_closed p") auto
  next
    case (3 m)
    have "mx_upstream (mongo_step E Z ev p) = mx_upstream (snd (handleClientOpMsg E Z m clk w ?q))"
      by (simp add: st 3(3))
    moreover have "\<exists>q. relay_frame p q \<and> ms_core (mx_session q) = ms_core (mx_session p) \<and> (msg_opCode m = opCodeMsg \<longrightarrow> admitted E m q)"
      if "admitted E m ?q" by (rule exI [of _ ?q]) (simp add: received_frame that)
    ultimately show ?thesis
      using opmsg_upstream [of E Z m clk w ?q] c by auto
  qed
next
  case False
  then show ?thesis
    by (cases ev) (auto simp: mongo_step_def split_beta split: option.split)
qed

definition mongo_over :: "mongo_proxy \<Rightarrow> bool" where
  "mongo_over p \<longleftrightarrow> mx_closed p \<or> mx_c2u p \<noteq> None"

definition commands :: "mongo_proxy \<Rightarrow> message list" where
  "commands p = filter (\<lambda>m. msg_opCode m = opCodeMsg) (mx_upstream p)"

lemma flagged_refused:
  assumes "relay_frame p q" and "Revoked (mx_heap p) (au_revocation (ms_core (mx_session p)))"
  shows "\<not> admitted E m q"
proof -
  have "au_revocation (ms_core (mx_session q)) = au_revocation (ms_core (mx_session p))"
    using assms(1) audit_steps_frame(3) by (simp add: relay_frame_def)
  moreover have "bools (mx_heap q) = bools (mx_heap p)" using assms(1) by (simp add: relay_frame_def same_flags_def mx_bus_def)
  ultimately have "Revoked (mx_heap q) (au_revocation (ms_core (mx_session q)))"
    using assms(2) by (simp add: Revoked_def split: option.splits)
  then show ?thesis by (auto simp: admitted_def refusal_def Let_def)
qed

lemma mongo_silent:
  assumes "mongo_over p \<or> Revoked (mx_heap p) (au_revocation (ms_core (mx_session p)))"
  shows "commands (mongo_step E Z ev p) = commands p"
  using mongo_step_upstream [of E Z ev p] flagged_refused [of p] assms by (auto simp: commands_def mongo_over_def)

interpretation mongo_relay: revocable_session "mongo_step E Z" mx_bus "\<lambda>p. au_revocation (ms_core (mx_session p))"
  mongo_over commands MevRegistry for E Z
proof unfold_locales
  fix e p h op
  show "au_revocation (ms_core (mx_session (mongo_step E Z e p))) = au_revocation (ms_core (mx_session p))"
    using mongo_audit.act_audited by (rule audit_steps_frame(3))
  show "mongo_over p \<Longrightarrow> mongo_over (mongo_step E Z e p)"
    by (cases rule: mongo_step_cases [of p E Z e]) (auto simp: mongo_over_def relay_frame_def)
  show "\<not> mongo_over (mongo_step E Z e p) \<Longrightarrow> (\<exists>op. e = MevRegistry op \<and> mx_bus (mongo_step E Z e p) = bus_step op (mx_bus p)) \<or>
      same_flags (mx_bus p) (mx_bus (mongo_step E Z e p))"
    by (cases rule: mongo_step_cases [of p E Z e]) (auto simp: mongo_over_def relay_frame_def mx_bus_def)
  show "\<not> mongo_over p \<Longrightarrow> mx_bus (mongo_step E Z (MevRegistry op) p) = bus_step op (mx_bus p)"
    by (simp add: mongo_step_def mx_bus_def split_beta)
  show "commands (mongo_step E Z (MevRegistry op) p) = commands p"
    by (simp add: mongo_step_def commands_def split_beta)
  show "mongo_over p \<Longrightarrow> commands (mongo_step E Z e p) = commands p" by (simp add: mongo_silent)
  show "au_revocation (ms_core (mx_session p)) = Some h \<Longrightarrow> bools (snd (mx_bus p)) h \<Longrightarrow> commands (mongo_step E Z e p) = commands p"
    by (rule mongo_silent) (simp add: Revoked_def mx_bus_def)
qed

text \<open>\<open>establishSession\<close>, from the registration on: the guard over the counters, the connection record when
  it could be inserted, and the state of the relay.\<close>

definition establishSession ::
  "server \<Rightarrow> query_storage \<Rightarrow> access_grant \<Rightarrow> uuid option \<Rightarrow> addr \<Rightarrow> addr \<Rightarrow> heap \<Rightarrow> registry option \<Rightarrow> bool \<Rightarrow> (int \<times> bool) list \<Rightarrow> mongo_proxy" where
  "establishSession db cfg g conn from to hp r dumping writes =
     (let (h, r1, hp1) = Register r (ag_UID g) hp;
          guard = WithRevocation (Some (NewLimitGuard (Some g) (Some from) (Some to))) (Flag (Some h))
      in \<lparr>mx_session = \<lparr>ms_core = \<lparr>au_grant = g, au_connection = conn, au_revocation = Some h, au_guard = guard,
             au_from = from, au_to = to, au_snapshot = 0, au_log = [], au_trailing = []\<rparr>,
            ms_database = db, ms_storage = cfg, ms_pending = Map.empty, ms_cursorOrigins = Map.empty,
            ms_clientCompressor = compressorNoop, ms_compressReplies = False, ms_replyReqID = preAuthReplyRequestIDBase\<rparr>,
          mx_heap = hp1, mx_registry = r1, mx_upstream = [], mx_client = [], mx_dump = (if dumping then Some [] else None),
          mx_writes = writes, mx_closed = False, mx_c2u = None, mx_u2c = None\<rparr>)"

lemma mongo_attached:
  assumes "bus_inv (r, hp)" and "ag_UID g \<noteq> uuid_Nil"
  shows "mongo_relay.attached (ag_UID g) (next_addr hp) (establishSession db cfg g conn from to hp r dumping ws)"
proof -
  obtain h r' hp' where reg: "Register r (ag_UID g) hp = (h, r', hp')" by (cases "Register r (ag_UID g) hp")
  show ?thesis
    using bus_register_new [OF assms reg] by (simp add: mongo_relay.attached_def establishSession_def reg mx_bus_def)
qed

lemma validate_terms:
  assumes "terms g = terms h"
  shows "ValidateMongoCommand B cmd db body d g = ValidateMongoCommand B cmd db body d h"
  using terms_eq_controls [OF assms] by (simp add: ValidateMongoCommand_def Let_def split: mongoCmdClass.split)

lemma establish_core [simp]:
  "au_grant (ms_core (mx_session (establishSession db cfg g conn from to hp r dumping ws))) = g"
  "ms_database (mx_session (establishSession db cfg g conn from to hp r dumping ws)) = db"
  "mx_upstream (establishSession db cfg g conn from to hp r dumping ws) = []"
  "ms_pending (mx_session (establishSession db cfg g conn from to hp r dumping ws)) = Map.empty"
  "au_connection (ms_core (mx_session (establishSession db cfg g conn from to hp r dumping ws))) = conn"
  by (simp_all add: establishSession_def Let_def split: prod.split)

text \<open>Invariant: the session is bound to its grant and database, and every command upstream was allowed.\<close>

definition bound :: "'v bson_ext \<Rightarrow> access_grant \<Rightarrow> server \<Rightarrow> mongo_proxy \<Rightarrow> bool" where
  "bound E g db p \<longleftrightarrow> terms (au_grant (ms_core (mx_session p))) = terms g \<and> ms_database (mx_session p) = db
     \<and> (\<forall>m \<in> set (commands p). \<exists>parsed body. parseOpMsg (msg_body m) = Inr parsed \<and> commandBody parsed = Some body
          \<and> ValidateMongoCommand (bx_lib E) (commandName (bx_lib E) body) (str_field E body ''$db'') body (Some db) g = None)"

lemma mongo_step_database: "ms_database (mx_session (mongo_step E Z ev p)) = ms_database (mx_session p)"
  by (cases rule: mongo_step_cases [of p E Z ev]) (simp_all add: relay_frame_def)

lemma bound_step:
  assumes "bound E g db p"
  shows "bound E g db (mongo_step E Z ev p)"
proof -
  have "terms (au_grant (ms_core (mx_session (mongo_step E Z ev p)))) = terms (au_grant (ms_core (mx_session p)))"
    by (rule audit_steps_frame(1) [OF mongo_audit.act_audited])
  then have "terms (au_grant (ms_core (mx_session (mongo_step E Z ev p)))) = terms g"
    using assms by (simp add: bound_def)
  moreover have "\<exists>parsed body. parseOpMsg (msg_body m) = Inr parsed \<and> commandBody parsed = Some body
      \<and> ValidateMongoCommand (bx_lib E) (commandName (bx_lib E) body) (str_field E body ''$db'') body (Some db) g = None"
    if m: "m \<in> set (commands (mongo_step E Z ev p))" for m
  proof (cases "m \<in> set (commands p)")
    case True
    then show ?thesis using assms by (simp add: bound_def)
  next
    case False
    with m mongo_step_upstream [of E Z ev p] obtain q where q: "relay_frame p q" "ms_core (mx_session q) = ms_core (mx_session p)" "admitted E m q"
      by (auto simp: commands_def)
    then obtain parsed body now where a: "parseOpMsg (msg_body m) = Inr parsed" "commandBody parsed = Some body"
      "refusal E (mx_heap q) now (commandName (bx_lib E) body) body (mx_session q) = None" by (auto simp: admitted_def)
    then have "ValidateMongoCommand (bx_lib E) (commandName (bx_lib E) body) (str_field E body ''$db'') body
        (Some (ms_database (mx_session q))) (au_grant (ms_core (mx_session q))) = None"
      by (simp add: refusal_def Let_def split: if_splits option.splits)
    moreover have "ms_database (mx_session q) = db" "terms (au_grant (ms_core (mx_session q))) = terms g"
      using q assms by (simp_all add: bound_def relay_frame_def)
    ultimately show ?thesis using a(1,2) validate_terms by metis
  qed
  ultimately show ?thesis using assms by (simp add: bound_def mongo_step_database)
qed

lemma bound_run: "bound E g db p \<Longrightarrow> bound E g db (mongo_run E Z evs p)"
  unfolding mongo_run_def by (induction evs arbitrary: p) (simp_all add: bound_step)

section \<open>Every command is logged or awaits its reply\<close>

definition tracked :: "mongo_proxy \<Rightarrow> nat" where
  "tracked p = length (au_log (ms_core (mx_session p))) + card (dom (ms_pending (mx_session p)))"

definition log_inv :: "mongo_proxy \<Rightarrow> bool" where
  "log_inv p \<longleftrightarrow> finite (dom (ms_pending (mx_session p))) \<and> au_connection (ms_core (mx_session p)) \<noteq> None
     \<and> length (commands p) \<le> tracked p"

text \<open>The client does not use the number of a request that is still in flight.\<close>

definition fresh_id :: "zlib_lib \<Rightarrow> mongo_event \<Rightarrow> mongo_proxy \<Rightarrow> bool" where
  "fresh_id Z ev p = (case ev of
       MevClient n stream clk w \<Rightarrow>
         (case fst (readClientMessage Z stream (mx_session p)) of Inl _ \<Rightarrow> True
          | Inr m \<Rightarrow> ms_pending (mx_session p) (msg_requestID m) = None)
     | _ \<Rightarrow> True)"

fun fresh_ids :: "'v bson_ext \<Rightarrow> zlib_lib \<Rightarrow> mongo_event list \<Rightarrow> mongo_proxy \<Rightarrow> bool" where
  "fresh_ids E Z [] p = True"
| "fresh_ids E Z (ev # evs) p = (fresh_id Z ev p \<and> fresh_ids E Z evs (mongo_step E Z ev p))"

lemma record_length:
  "au_connection a \<noteq> None \<Longrightarrow> length (au_log (record_query sql ps st now rows ra err hp a)) = Suc (length (au_log a))"
  by (auto simp: record_query_def Let_def)

lemma record_connection [simp]: "au_connection (record_query sql ps st now rows ra err hp a) = au_connection a"
  by (simp add: record_query_def Let_def split: option.split)

lemma captureResult_tracked:
  assumes "finite (dom (ms_pending s))" and "au_connection (ms_core s) \<noteq> None"
  shows "length (au_log (ms_core s)) + card (dom (ms_pending s)) \<le>
      length (au_log (ms_core (captureResult E m hp now s))) + card (dom (ms_pending (captureResult E m hp now s)))
    \<and> finite (dom (ms_pending (captureResult E m hp now s)))
    \<and> au_connection (ms_core (captureResult E m hp now s)) \<noteq> None"
proof (cases "msg_opCode m = opCodeMsg \<and> ms_pending s (msg_responseTo m) \<noteq> None")
  case False
  then have "captureResult E m hp now s = s" by (auto simp: captureResult_def takePending_def split: option.split)
  then show ?thesis using assms by simp
next
  case True
  then obtain pq where pq: "msg_opCode m = opCodeMsg" "ms_pending s (msg_responseTo m) = Some pq" by blast
  let ?s1 = "s\<lparr>ms_pending := (ms_pending s)(msg_responseTo m := None)\<rparr>"
  have card: "card (dom (ms_pending s)) = Suc (card (dom (ms_pending ?s1)))"
  proof -
    have "dom (ms_pending ?s1) = dom (ms_pending s) - {msg_responseTo m}" by auto
    then show ?thesis using card.remove [OF assms(1), of "msg_responseTo m"] pq(2) by (simp only: domI)
  qed
  have "ms_pending (captureResult E m hp now s) = ms_pending ?s1
      \<and> length (au_log (ms_core (captureResult E m hp now s))) = Suc (length (au_log (ms_core s)))
      \<and> au_connection (ms_core (captureResult E m hp now s)) = au_connection (ms_core s)"
    using pq assms(2)
    by (simp add: captureResult_def takePending_def recordQuery_def record_length trackCursorFromReply_def putCursorOrigin_def
        dropCursorOrigin_def Let_def split: sum.split option.split)
  then show ?thesis using card assms by simp
qed

lemma opmsg_tracked:
  fixes E Z m clk w p
  assumes "finite (dom (ms_pending (mx_session p)))" and "au_connection (ms_core (mx_session p)) \<noteq> None"
    and "ms_pending (mx_session p) (msg_requestID m) = None" and "msg_opCode m = opCodeMsg"
  defines "q \<equiv> snd (handleClientOpMsg E Z m clk w p)"
  shows "tracked p + length (commands q) \<le> tracked q + length (commands p) \<and> finite (dom (ms_pending (mx_session q)))"
proof (cases "parseOpMsg (msg_body m)")
  case (Inr parsed)
  show ?thesis
  proof (cases "commandBody parsed")
    case (Some body)
    obtain now start t3 where clk: "clk = (now, start, t3)" by (cases clk)
    let ?cmd = "commandName (bx_lib E) body" and ?mtc = "om_flags parsed AND flagMoreToCome \<noteq> 0"
    show ?thesis
    proof (cases "refusal E (mx_heap p) now ?cmd body (mx_session p)")
      case None
      let ?pq = "new_pending E ?cmd body ?mtc start (mx_session p)"
      let ?p0 = "upd_ms (registerPending (msg_requestID m) ?pq) p"
      obtain e p1 where f: "forward w m ?p0 = (e, p1)" by fastforce
      have p1: "mx_session p1 = mx_session ?p0" "commands p1 = commands p @ (if w \<and> \<not> mx_closed p then [m] else [])"
        "e = (if w \<and> \<not> mx_closed p then None else Some MgWriteFailed)"
        using forward_upstream [of w m ?p0] f assms(4) by (simp_all add: upd_ms_def commands_def)
      have undone: "(ms_pending (mx_session p))(msg_requestID m := None) = ms_pending (mx_session p)"
        using assms(3) by auto
      have "q = (if e \<noteq> None then upd_ms (\<lambda>s. snd (takePending (msg_requestID m) s)) p1
          else if ?mtc then p1\<lparr>mx_session := recordQuery ?pq [] None None (mx_heap p1) t3 (snd (takePending (msg_requestID m) (mx_session p1)))\<rparr>
          else p1)"
        using Inr Some None f clk p1(1)
        by (simp add: q_def handleClientOpMsg_def Let_def upd_ms_def takePending_def registerPending_def split: option.split)
      then show ?thesis
        using p1 assms(1,2,3) undone
        by (simp add: tracked_def upd_ms_def registerPending_def takePending_def recordQuery_def record_length commands_def domIff)
    next
      case (Some r)
      then show ?thesis
        using Inr \<open>commandBody parsed = Some body\<close> clk assms(1,2)
        by (simp add: q_def handleClientOpMsg_def Let_def tracked_def commands_def rejectCommand_def upd_ms_def recordQuery_def record_length)
    qed
  qed (use Inr assms in \<open>simp add: q_def handleClientOpMsg_def\<close>)
qed (use assms in \<open>simp add: q_def handleClientOpMsg_def\<close>)

lemma log_inv_step:
  assumes inv: "log_inv p" and fresh: "fresh_id Z ev p"
  shows "log_inv (mongo_step E Z ev p)"
proof (cases ev)
  case (MevClient n stream clk w)
  show ?thesis
  proof (cases "mx_c2u p = None")
    case True
    let ?q = "received Z n stream p"
    have q: "tracked ?q = tracked p" "commands ?q = commands p" by (simp_all add: tracked_def commands_def)
    have st: "mongo_step E Z ev p = pumpClientToUpstream E Z n stream clk w p" by (simp add: MevClient True mongo_step_def)
    have frame: "au_connection (ms_core (mx_session (mongo_step E Z ev p))) \<noteq> None"
      using audit_steps_frame(2) [OF mongo_audit.act_audited] inv by (metis log_inv_def)
    show ?thesis
    proof (cases rule: pump_client_cases [of Z stream p E n clk w])
      case (1 e)
      then show ?thesis using inv q by (simp add: st log_inv_def tracked_def commands_def)
    next
      case (2 m)
      then show ?thesis using inv q frame by (simp add: st log_inv_def tracked_def commands_def forward_upstream)
    next
      case (3 m)
      let ?h = "handleClientOpMsg E Z m clk w ?q"
      have "tracked ?q + length (commands (snd ?h)) \<le> tracked (snd ?h) + length (commands ?q) \<and> finite (dom (ms_pending (mx_session (snd ?h))))"
        by (rule opmsg_tracked) (use inv fresh 3 MevClient in \<open>simp_all add: log_inv_def fresh_id_def\<close>)
      moreover have "tracked (mongo_step E Z ev p) = tracked (snd ?h)" "commands (mongo_step E Z ev p) = commands (snd ?h)"
        "ms_pending (mx_session (mongo_step E Z ev p)) = ms_pending (mx_session (snd ?h))"
        by (simp_all add: st 3(3) tracked_def commands_def)
      ultimately show ?thesis using inv frame q by (simp add: log_inv_def)
    qed
  next
    case False
    then have "mongo_step E Z ev p = p" by (auto simp: MevClient mongo_step_def)
    then show ?thesis using inv by simp
  qed
next
  case (MevServer stream now)
  show ?thesis
  proof (cases "mx_u2c p = None \<and> (\<exists>m rest. readMessage stream = Inr (m, rest))")
    case True
    then obtain m rest where m: "readMessage stream = Inr (m, rest)" by blast
    have "mx_session (mongo_step E Z ev p) = captureResult E m (mx_heap p) now (mx_session p)" "commands (mongo_step E Z ev p) = commands p"
      using True m by (simp_all add: MevServer mongo_step_def pumpUpstreamToClient_def dumpPacket_def upd_ms_def commands_def split_beta Let_def)
    then show ?thesis
      using captureResult_tracked [of "mx_session p" E m "mx_heap p" now] inv by (simp add: log_inv_def tracked_def)
  next
    case False
    then have "mongo_step E Z ev p = p \<or> (\<exists>e. mongo_step E Z ev p = p\<lparr>mx_u2c := e\<rparr>)"
      by (auto simp: MevServer mongo_step_def pumpUpstreamToClient_def split: sum.split)
    then show ?thesis using inv by (auto simp: log_inv_def tracked_def commands_def)
  qed
qed (use inv in \<open>auto simp: mongo_step_def log_inv_def tracked_def commands_def flush_trailing_def split_beta Let_def split: option.split\<close>)

lemma log_inv_run: "log_inv p \<Longrightarrow> fresh_ids E Z evs p \<Longrightarrow> log_inv (mongo_run E Z evs p)"
  unfolding mongo_run_def by (induction evs arbitrary: p) (simp_all add: log_inv_step)

section \<open>Properties\<close>

text \<open>C18. Whatever the client sends and however the pumps interleave, every \<open>OP_MSG\<close> frame that reaches the
  upstream server carries a command that the validator accepts for the database and the grant of the
  session.\<close>

theorem mongo_commands_allowed:
  assumes "p = mongo_run E Z evs (establishSession db cfg g conn from to hp r dumping ws)"
    and "m \<in> set (mx_upstream p)" and "msg_opCode m = opCodeMsg"
  shows "\<exists>parsed body. parseOpMsg (msg_body m) = Inr parsed \<and> commandBody parsed = Some body
    \<and> ValidateMongoCommand (bx_lib E) (commandName (bx_lib E) body) (lookupString (bx_lib E) (Some body) ''$db'') body (Some db) g = None"
proof -
  have "bound E g db p"
    unfolding assms(1) by (rule bound_run) (simp add: bound_def commands_def)
  then show ?thesis using assms(2,3) by (auto simp: bound_def commands_def)
qed

text \<open>From the moment the grant of a MongoDB session is revoked in the registry, the session forwards no
  further \<open>OP_MSG\<close> command, whatever it did before and however the pumps interleave.\<close>

theorem mongo_revocation_final:
  assumes "bus_inv (r, hp)" and "ag_UID g \<noteq> uuid_Nil"
    and "MevRegistry (OpDeregister (ag_UID g) (next_addr hp)) \<notin> set before"
    and "p = establishSession db cfg g conn from to hp r dumping ws"
  shows "commands (mongo_run E Z (before @ MevRegistry (OpRevoke (ag_UID g)) # after) p) = commands (mongo_run E Z before p)"
  unfolding mongo_run_def assms(4) by (rule mongo_relay.revocation_final) (use mongo_attached assms in auto)

text \<open>Each byte on the client connection is charged once: in every execution the counters of the grant
  grow by exactly the entries of the query log, and the snapshot by the logged and the trailing bytes.\<close>

theorem mongo_bytes_charged_once:
  assumes "in_i64 (ag_QueryCount g)" and "in_i64 (ag_BytesTransferred g)"
    and "p0 = establishSession db cfg g conn from to hp r dumping ws"
  shows "accounted_for (ms_core (mx_session p0)) (ms_core (mx_session (mongo_run E Z evs p0)))"
  unfolding mongo_run_def
  by (rule mongo_audit.session_accounted)
     (use assms in \<open>simp add: fresh_audit_def establishSession_def in_i64_def split_beta Let_def\<close>)

text \<open>A client that never reuses the number of a request in flight has every command that reached the
  upstream server in the query log, or awaiting its reply.\<close>

theorem mongo_commands_logged:
  assumes "fresh_ids E Z evs (establishSession db cfg g (Some conn) from to hp r dumping ws)"
    and "p = mongo_run E Z evs (establishSession db cfg g (Some conn) from to hp r dumping ws)"
  shows "length (filter (\<lambda>m. msg_opCode m = opCodeMsg) (mx_upstream p))
    \<le> length (au_log (ms_core (mx_session p))) + card (dom (ms_pending (mx_session p)))"
proof -
  have "log_inv p"
    unfolding assms(2) by (rule log_inv_run [OF _ assms(1)]) (simp add: log_inv_def commands_def)
  then show ?thesis by (simp add: log_inv_def tracked_def commands_def)
qed

text \<open>A frame of any other kind is forwarded unchecked: a legacy write opcode passes a read-only and even
  a revoked grant, and leaves no entry in the query log.\<close>

theorem mongo_legacy_frame_unchecked:
  assumes "readMessage stream = Inr (m, rest)" and "msg_opCode m \<notin> {opCodeMsg, opCodeCompressed}"
    and "mx_c2u p = None" and "\<not> mx_closed p"
  shows "mx_upstream (mongo_step E Z (MevClient n stream clk True) p) = mx_upstream p @ [m]
    \<and> au_log (ms_core (mx_session (mongo_step E Z (MevClient n stream clk True) p))) = au_log (ms_core (mx_session p))"
  using assms by (simp add: mongo_step_def pumpClientToUpstream_def readClientMessage_def forward_def dumpPacket_def Let_def)

definition sample_docs :: "(byte \<times> string) bson_ext" where
  "sample_docs =
     \<lparr>bx_lib = \<lparr>bson_Lookup = (\<lambda>d k. (last d, k)), bson_ArrayOK = (\<lambda>(b, k). if b = 3 \<and> k = ''databases'' \<or> k = ''firstBatch'' then Some [9] else None),
        bson_Values = (\<lambda>_. Some [(10, []), (11, [])]), bson_DocumentOK = (\<lambda>(b, k). if k = [] \<or> k = ''cursor'' then Some [5, 0, 0, 0, b] else None),
        bson_ElementKeys = (\<lambda>d. if last d = 1 then Some [''listDatabases''] else if last d = 2 then Some [''ping''] else Some [''find'']),
        bson_StringOK = (\<lambda>(b, k). if k = ''$db'' then Some (if b = 2 then ''admin'' else ''app'') else if k = ''name'' then Some (if b = 10 then ''app'' else ''secret'') else None)\<rparr>,
      bx_Int32OK = (\<lambda>_. None), bx_Int64OK = (\<lambda>_. None), bx_DoubleOK = (\<lambda>(b, k). if k = ''ok'' then Some (1, True) else None),
      bx_BinaryOK = (\<lambda>_. None), bx_BooleanOK = (\<lambda>_. None), bx_Elements = (\<lambda>_. Some [(''databases'', (3, ''databases'')), (''ok'', (3, ''ok''))]),
      bx_ExtJSON = (\<lambda>_. Some ''{}''), bx_Marshal = (\<lambda>d. Some [5, 0, 0, 0, of_nat (length d)])\<rparr>"

definition sample_zlib :: zlib_lib where
  "sample_zlib = \<lparr>deflate = Some, inflate = (\<lambda>x. Some (x, True))\<rparr>"

definition sample_frame :: "u32 \<Rightarrow> u32 \<Rightarrow> byte \<Rightarrow> bytes" where
  "sample_frame rid resp tag = msg_header 26 rid resp opCodeMsg @ PutUint32_LE 0 @ [0, 5, 0, 0, 0, tag]"

definition sample_mongo :: mongo_proxy where
  "sample_mongo = establishSession sample_server \<lparr>cfg_StoreResults = False, cfg_MaxResultRows = 0, cfg_MaxResultBytes = 0\<rparr>
     sample_grant (Some 9) 0 1 (empty_heap\<lparr>next_addr := 2\<rparr>) (Some NewRevocationRegistry) False (replicate 4 (26, True))"

definition ping_then_find :: "mongo_event list" where
  "ping_then_find = [MevClient 26 (sample_frame 7 0 2) (5, 5, 5) True, MevServer (sample_frame 1 7 4) 6,
     MevClient 26 (sample_frame 8 0 4) (7, 7, 7) True]"

definition pinged :: mongo_proxy where
  "pinged = mongo_run sample_docs sample_zlib ping_then_find sample_mongo"

lemma pinged_upstream: "map (\<lambda>m. (msg_opCode m, msg_requestID m)) (mx_upstream pinged) = [(opCodeMsg, 7), (opCodeMsg, 8)]"
  by code_simp

theorem mongo_commands_allowed_witness:
  "list_all (\<lambda>m. \<exists>parsed body. parseOpMsg (msg_body m) = Inr parsed \<and> commandBody parsed = Some body
     \<and> ValidateMongoCommand (bx_lib sample_docs) (commandName (bx_lib sample_docs) body)
         (lookupString (bx_lib sample_docs) (Some body) ''$db'') body (Some sample_server) sample_grant = None) (mx_upstream pinged)
   \<and> length (mx_upstream pinged) = 2"
proof -
  have "\<forall>m \<in> set (mx_upstream pinged). msg_opCode m = opCodeMsg"
  proof -
    have "list_all (\<lambda>x. fst x = opCodeMsg) (map (\<lambda>m. (msg_opCode m, msg_requestID m)) (mx_upstream pinged))"
      unfolding pinged_upstream by simp
    then show ?thesis by (simp add: list_all_iff)
  qed
  moreover have "length (mx_upstream pinged) = 2"
    using arg_cong [OF pinged_upstream, where f = length] by simp
  ultimately show ?thesis
    using mongo_commands_allowed [OF pinged_def [unfolded sample_mongo_def]] by (simp add: list_all_iff)
qed

theorem mongo_revocation_final_witness:
  "length (commands (mongo_run sample_docs sample_zlib ([MevClient 26 (sample_frame 7 0 2) (5, 5, 5) True] @ MevRegistry (OpRevoke (ag_UID sample_grant)) #
     [MevClient 26 (sample_frame 8 0 2) (7, 7, 7) True]) sample_mongo)) = 1"
proof -
  have "length (commands (mongo_run sample_docs sample_zlib [MevClient 26 (sample_frame 7 0 2) (5, 5, 5) True] sample_mongo)) = 1"
    by code_simp
  moreover have "ag_UID sample_grant \<noteq> uuid_Nil" by code_simp
  ultimately show ?thesis
    using mongo_revocation_final [OF bus_inv_init _ _ sample_mongo_def,
        of "[MevClient 26 (sample_frame 7 0 2) (5, 5, 5) True]" sample_docs sample_zlib "[MevClient 26 (sample_frame 8 0 2) (7, 7, 7) True]"]
    by simp
qed

theorem mongo_bytes_charged_once_witness:
  "accounted_for (ms_core (mx_session sample_mongo)) (ms_core (mx_session pinged)) \<and> length (au_log (ms_core (mx_session pinged))) = 1"
proof -
  have "length (au_log (ms_core (mx_session pinged))) = 1" by code_simp
  then show ?thesis
    using mongo_bytes_charged_once [OF _ _ sample_mongo_def, of sample_docs sample_zlib ping_then_find]
    by (simp add: pinged_def sample_grant_def in_i64_def)
qed

theorem mongo_commands_logged_witness:
  "length (filter (\<lambda>m. msg_opCode m = opCodeMsg) (mx_upstream pinged))
    \<le> length (au_log (ms_core (mx_session pinged))) + card (dom (ms_pending (mx_session pinged)))"
proof -
  have "fresh_ids sample_docs sample_zlib ping_then_find sample_mongo" by code_simp
  then show ?thesis
    using mongo_commands_logged [of sample_docs sample_zlib ping_then_find] unfolding sample_mongo_def pinged_def by blast
qed

definition insert_frame :: bytes where
  "insert_frame = msg_header 17 7 0 2002 @ [0]"

theorem mongo_legacy_frame_unchecked_witness:
  "IsReadOnly sample_grant
   \<and> map msg_raw (mx_upstream (mongo_step sample_docs sample_zlib (MevClient 17 insert_frame (5, 5, 5) True) sample_mongo)) = [insert_frame]"
proof -
  let ?m = "\<lparr>msg_length = 17, msg_requestID = 7, msg_responseTo = 0, msg_opCode = 2002, msg_body = [0], msg_raw = insert_frame\<rparr>"
  have "readMessage insert_frame = Inr (?m, [])" by code_simp
  moreover have "mx_c2u sample_mongo = None" "\<not> mx_closed sample_mongo" "mx_upstream sample_mongo = []" by code_simp+
  ultimately have "mx_upstream (mongo_step sample_docs sample_zlib (MevClient 17 insert_frame (5, 5, 5) True) sample_mongo) = [?m]"
    using mongo_legacy_frame_unchecked [of insert_frame ?m "[]" sample_mongo sample_docs sample_zlib 17 "(5, 5, 5)"]
    by (simp add: opCodeMsg_def opCodeCompressed_def)
  then show ?thesis by simp
qed

definition reused :: mongo_proxy where
  "reused = mongo_run sample_docs sample_zlib
       [MevClient 26 (sample_frame 7 0 1) (5, 5, 5) True, MevClient 26 (sample_frame 7 0 2) (6, 6, 6) True,
        MevServer (sample_frame 1 7 3) 7, MevServer (sample_frame 2 7 4) 8] sample_mongo"

text \<open>A reused request number hides a command and opens the filter: after listDatabases and ping under
  one number, both reach the server, the log has the ping only, and the reply to listDatabases is relayed
  as it came, with the entry of another database.\<close>

theorem mongo_reused_request_id:
  "map msg_raw (mx_upstream reused) = [sample_frame 7 0 1, sample_frame 7 0 2]
   \<and> map ae_SQLText (au_log (ms_core (mx_session reused))) = [''ping {}''] \<and> ms_pending (mx_session reused) 7 = None
   \<and> mx_client reused = [sample_frame 1 7 3, sample_frame 2 7 4]"
  by code_simp

section \<open>Result capture and the database list\<close>

lemma capture_docs_rows:
  "0 < cfg_MaxResultRows q \<Longrightarrow> i \<le> cfg_MaxResultRows q \<Longrightarrow> i + int (length (capture_docs E q i t vs)) \<le> cfg_MaxResultRows q"
proof (induction vs arbitrary: i t)
  case (Cons v vs)
  show ?case
  proof (cases "i = cfg_MaxResultRows q")
    case False
    then have ih: "i + 1 + int (length (capture_docs E q (i + 1) u vs)) \<le> cfg_MaxResultRows q" for u
      using Cons by simp
    have "i + int (length (capture_docs E q (i + 1) u vs)) \<le> cfg_MaxResultRows q" for u using ih [of u] by linarith
    with False ih Cons.prems show ?thesis by (simp add: Let_def add.assoc split: option.split)
  qed (use Cons.prems in simp)
qed simp

lemma capture_docs_bytes:
  "0 < cfg_MaxResultBytes q \<Longrightarrow> t \<le> cfg_MaxResultBytes q \<Longrightarrow>
     t + sum_list (map rr_RowSizeBytes (capture_docs E q i t vs)) \<le> cfg_MaxResultBytes q"
proof (induction vs arbitrary: i t)
  case (Cons v vs)
  have ih: "u \<le> cfg_MaxResultBytes q \<Longrightarrow> u + sum_list (map rr_RowSizeBytes (capture_docs E q (i + 1) u vs)) \<le> cfg_MaxResultBytes q" for u
    using Cons by blast
  then show ?case using Cons.prems by (simp add: Let_def flip: add.assoc split: option.split)
qed simp

lemma capture_docs_sizes: "list_all (\<lambda>r. rr_RowSizeBytes r = int (length (rr_RowData r))) (capture_docs E q i t vs)"
  by (induction vs arbitrary: i t) (simp_all add: Let_def split: option.split)

text \<open>The rows captured from one reply stay within the configured number of rows and of bytes, and record
  their true size.\<close>

theorem mongo_capture_bounded:
  "(0 < cfg_MaxResultRows q \<longrightarrow> int (length (captureCursorRows E q body)) \<le> cfg_MaxResultRows q)
   \<and> (0 < cfg_MaxResultBytes q \<longrightarrow> sum_list (map rr_RowSizeBytes (captureCursorRows E q body)) \<le> cfg_MaxResultBytes q)
   \<and> list_all (\<lambda>r. rr_RowSizeBytes r = int (length (rr_RowData r))) (captureCursorRows E q body)"
  using capture_docs_rows [of q 0 E 0] capture_docs_bytes [of q 0 E 0] capture_docs_sizes [of E q 0 0]
  by (auto simp: captureCursorRows_def Let_def split: option.split)

definition one_row :: query_storage where
  "one_row = \<lparr>cfg_StoreResults = True, cfg_MaxResultRows = 1, cfg_MaxResultBytes = 100\<rparr>"

theorem mongo_capture_bounded_witness:
  "captureCursorRows sample_docs one_row [5, 0, 0, 0, 4] = [\<lparr>rr_RowNumber = 1, rr_RowData = ''{}'', rr_RowSizeBytes = 2\<rparr>]
   \<and> int (length (captureCursorRows sample_docs one_row [5, 0, 0, 0, 4])) \<le> cfg_MaxResultRows one_row"
proof
  show "captureCursorRows sample_docs one_row [5, 0, 0, 0, 4] = [\<lparr>rr_RowNumber = 1, rr_RowData = ''{}'', rr_RowSizeBytes = 2\<rparr>]"
    by code_simp
  have "0 < cfg_MaxResultRows one_row" by (simp add: one_row_def)
  then show "int (length (captureCursorRows sample_docs one_row [5, 0, 0, 0, 4])) \<le> cfg_MaxResultRows one_row"
    using mongo_capture_bounded by blast
qed

text \<open>The documents of the reply that name the database.\<close>

definition entries_named :: "'v bson_ext \<Rightarrow> string \<Rightarrow> 'v list \<Rightarrow> bytes list" where
  "entries_named E name vs = filter (\<lambda>d. str_field E d ''name'' = name) (List.map_filter (bson_DocumentOK (bx_lib E)) vs)"

lemma keep_databases_exact: "fst (keep_databases E allowed kept t vs) = kept @ entries_named E allowed vs"
  by (induction E allowed kept t vs rule: keep_databases.induct)
     (auto simp: entries_named_def map_filter_def split: option.split)

text \<open>A rewritten reply to listDatabases keeps the fields of the reply in order and lists exactly its
  entries for the database of the session.\<close>

theorem mongo_list_databases_confined:
  assumes "filterListDatabasesReply E m s = Some raw"
  shows "\<exists>parsed body arr vs n doc. parseOpMsg (msg_body m) = Inr parsed \<and> commandBody parsed = Some body
    \<and> bson_ArrayOK (bx_lib E) (bson_Lookup (bx_lib E) body ''databases'') = Some arr \<and> bson_Values (bx_lib E) arr = Some vs
    \<and> doc = rewriteDatabasesField E body (entries_named E (srv_DatabaseName (ms_database s)) vs) n
    \<and> buildOpMsgReply (bx_Marshal E) (msg_requestID m) (msg_responseTo m) doc = Inr raw"
proof -
  obtain parsed body arr vs where p: "parseOpMsg (msg_body m) = Inr parsed" "commandBody parsed = Some body"
    "bson_ArrayOK (bx_lib E) (bson_Lookup (bx_lib E) body ''databases'') = Some arr" "bson_Values (bx_lib E) arr = Some vs"
    using assms by (auto simp: filterListDatabasesReply_def split: sum.splits option.splits)
  obtain kept n where k: "keep_databases E (srv_DatabaseName (ms_database s)) [] 0 vs = (kept, n)" by fastforce
  then have "kept = entries_named E (srv_DatabaseName (ms_database s)) vs"
    using keep_databases_exact [of E "srv_DatabaseName (ms_database s)" "[]" 0 vs] by simp
  moreover have "buildOpMsgReply (bx_Marshal E) (msg_requestID m) (msg_responseTo m) (rewriteDatabasesField E body kept n) = Inr raw"
    using assms p k by (simp add: filterListDatabasesReply_def split: sum.splits)
  ultimately show ?thesis using p by blast
qed

theorem mongo_list_databases_confined_witness:
  "\<exists>parsed body arr vs n doc. parseOpMsg ([0, 0, 0, 0, 0, 5, 0, 0, 0, 3]) = Inr parsed \<and> commandBody parsed = Some body
    \<and> bson_ArrayOK (bx_lib sample_docs) (bson_Lookup (bx_lib sample_docs) body ''databases'') = Some arr
    \<and> bson_Values (bx_lib sample_docs) arr = Some vs
    \<and> doc = rewriteDatabasesField sample_docs body (entries_named sample_docs ''app'' vs) n
    \<and> buildOpMsgReply (bx_Marshal sample_docs) 1 7 doc = Inr (sample_frame 1 7 2)"
proof -
  let ?m = "\<lparr>msg_length = 26, msg_requestID = 1, msg_responseTo = 7, msg_opCode = opCodeMsg, msg_body = [0, 0, 0, 0, 0, 5, 0, 0, 0, 3],
    msg_raw = sample_frame 1 7 3\<rparr>"
  have "filterListDatabasesReply sample_docs ?m (mx_session sample_mongo) = Some (sample_frame 1 7 2)" by code_simp
  moreover have "srv_DatabaseName (ms_database (mx_session sample_mongo)) = ''app''" by code_simp
  ultimately show ?thesis
    using mongo_list_databases_confined [of sample_docs ?m "mx_session sample_mongo" "sample_frame 1 7 2"] by simp
qed

end
