(* ===== verification/Mongo_Auth.thy ===== *)
theory Mongo_Auth
  imports Proxy_Auth Mongo_Session
begin

text \<open>
  The MongoDB listener before authentication: \<open>auth.go\<close>, \<open>scram_server.go\<close>, \<open>hello.go\<close> and the pre-auth loop
  of \<open>session.go\<close> under \<open>internal/proxy/mongodb\<close>. The SCRAM conversation is a third-party package and
  enters as the record \<open>scram_lib\<close>. The loop gets the messages of the client after framing
  and inflation; a reply succeeds or fails as the connection decides. The delays after a
  failed attempt are not modelled.
\<close>

section \<open>Environment and state\<close>

record stored_credentials =
  sk_Salt :: bytes
  sk_Iters :: int
  sk_StoredKey :: bytes
  sk_ServerKey :: bytes

text \<open>\<open>sc_username\<close> reads the name of a client-first message, \<open>sc_server_first\<close> answers it, \<open>sc_server_final\<close>
  answers the client-final message when its proof holds for the credentials.\<close>

record scram_lib =
  sc_username :: "string \<Rightarrow> string option"
  sc_server_first :: "stored_credentials \<Rightarrow> string \<Rightarrow> string"
  sc_server_final :: "stored_credentials \<Rightarrow> string \<Rightarrow> string \<Rightarrow> string option"

record 'v mongo_listener =
  ml_auth :: auth_env
  ml_bson :: "'v bson_ext"
  ml_scram :: scram_lib
  ml_encryptionKey :: bytes
  ml_tlsConfig :: bool
  ml_serviceID :: bytes

datatype mongo_auth_error =
    ErrAuthenticationFailed
  | ErrTLSRequired
  | ErrDatabaseNotResolvable
  | MaGrantMissing
  | MaQuotaExceeded mongo_refusal
  | ErrUpstreamConnect
  | MaUnknownOpCode
  | MaParse wire_error
  | MaNoCommandBody
  | MaReplyFailed
  | MaReadEnded

text \<open>\<open>mp_conv\<close> is the conversation in flight: the credentials it was started with and the client-first message.\<close>

record 'v mongo_pre =
  mp_store :: auth_store
  mp_authSource :: string
  mp_conv :: "(stored_credentials \<times> string) option"
  mp_scramUser :: "user option"
  mp_scramUserDBHint :: string
  mp_tlsActive :: bool
  mp_connID :: int
  mp_writes :: "bool list"
  mp_replies :: "(u32 \<times> 'v bdoc) list"
  mp_login :: "login option"

text \<open>One message of the client with what its handling meets: the readings of the clock and whether the upstream server can
  be reached.\<close>

record auth_clock =
  clk_hello :: time
  clk_credential :: time
  clk_list :: time
  clk_grant :: time
  clk_quota :: time

record pre_input =
  pi_message :: message
  pi_clock :: auth_clock
  pi_connected :: bool

definition mp_on_store :: "(auth_store \<Rightarrow> 'a \<times> auth_store) \<Rightarrow> 'v mongo_pre \<Rightarrow> 'a \<times> 'v mongo_pre" where
  "mp_on_store f p = (let (r, s) = f (mp_store p) in (r, p\<lparr>mp_store := s\<rparr>))"

text \<open>A reply, as \<open>OP_MSG\<close> or \<open>OP_REPLY\<close>: false when it could not be encoded or written.\<close>

definition mp_reply :: "'v mongo_listener \<Rightarrow> u32 \<Rightarrow> 'v bdoc \<Rightarrow> 'v mongo_pre \<Rightarrow> bool \<times> 'v mongo_pre" where
  "mp_reply L responseTo doc p =
     (if bx_Marshal (ml_bson L) doc = None then (False, p)
      else case mp_writes p of
        True # ws \<Rightarrow> (True, p\<lparr>mp_writes := ws, mp_replies := mp_replies p @ [(responseTo, doc)]\<rparr>)
      | ws \<Rightarrow> (False, p\<lparr>mp_writes := tl ws\<rparr>))"

section \<open>Hello\<close>

definition minWireVersion :: int where "minWireVersion = 0"
definition maxWireVersion :: int where "maxWireVersion = 21"
definition maxBSONObjectSize :: int where "maxBSONObjectSize = 16 * 1024 * 1024"
definition maxMessageSizeBytes :: int where "maxMessageSizeBytes = 48000000"
definition maxWriteBatchSize :: int where "maxWriteBatchSize = 100000"
definition logicalSessionTimeoutMinutes :: int where "logicalSessionTimeoutMinutes = 30"

definition clientOffersZlib :: "'v bson_ext \<Rightarrow> bytes \<Rightarrow> bool" where
  "clientOffersZlib E request =
     (let B = bx_lib E in
      case bson_ArrayOK B (bson_Lookup B request ''compression'') of None \<Rightarrow> False
      | Some arr \<Rightarrow>
          (case bson_Values B arr of None \<Rightarrow> False
           | Some vs \<Rightarrow> list_ex (\<lambda>v. case bson_StringOK B v of None \<Rightarrow> False | Some name \<Rightarrow> snd (compressorIDForName name)) vs))"

definition userHasMongoVerifier :: "string \<Rightarrow> auth_store \<Rightarrow> bool \<times> auth_store" where
  "userHasMongoVerifier username s =
     (case on_store (GetUserByUsername username) s of (Inl e, s1) \<Rightarrow> (False, s1) | (Inr u, s1) \<Rightarrow> (MongoSCRAMCredentials u \<noteq> None, s1))"

definition supportedMechsFor :: "string \<Rightarrow> auth_store \<Rightarrow> string list \<times> auth_store" where
  "supportedMechsFor probe s =
     (let username = (case indexByte (bytes_of probe) 46 of None \<Rightarrow> [] | Some idx \<Rightarrow> drop (idx + 1) probe) in
      if username = [] then ([''PLAIN''], s)
      else case userHasMongoVerifier username s of (has, s1) \<Rightarrow> (if has then [''SCRAM-SHA-256'', ''PLAIN''] else [''PLAIN''], s1))"

definition helloDoc :: "'v mongo_listener \<Rightarrow> time \<Rightarrow> string \<Rightarrow> bytes \<Rightarrow> 'v mongo_pre \<Rightarrow> 'v bdoc \<times> 'v mongo_pre" where
  "helloDoc L now name request p =
     (let E = ml_bson L;
          d1 = [(if name = ''hello'' then ''isWritablePrimary'' else ''ismaster'', BBool True)]
            @ (if lookupBool E (Some request) ''helloOk'' then [(''helloOk'', BBool True)] else [])
            @ [(''maxBsonObjectSize'', BInt32 maxBSONObjectSize), (''maxMessageSizeBytes'', BInt32 maxMessageSizeBytes),
               (''maxWriteBatchSize'', BInt32 maxWriteBatchSize), (''localTime'', BDate now),
               (''logicalSessionTimeoutMinutes'', BInt32 logicalSessionTimeoutMinutes), (''connectionId'', BInt32 (mp_connID p)),
               (''minWireVersion'', BInt32 minWireVersion), (''maxWireVersion'', BInt32 maxWireVersion), (''readOnly'', BBool False)];
          mechs = str_field E request ''saslSupportedMechs'';
          (d2, p1) = (if mechs = [] then ([], p)
             else case mp_on_store (supportedMechsFor mechs) p of (ms, p1) \<Rightarrow> ([(''saslSupportedMechs'', BArr (map BStr ms))], p1))
      in (d1 @ d2 @ (if clientOffersZlib E request then [(''compression'', BArr [BStr ''zlib''])] else [])
           @ (if lookupBool E (Some request) ''loadBalanced'' then [(''serviceId'', BObjectID (ml_serviceID L))] else [])
           @ [(''ok'', BFloat 1 1)], p1))"

definition buildInfoDoc :: "'v bdoc" where
  "buildInfoDoc = [(''version'', BStr ''7.0.0''), (''versionArray'', BArr [BInt32 7, BInt32 0, BInt32 0, BInt32 0]),
     (''maxWireVersion'', BInt32 maxWireVersion), (''ok'', BFloat 1 1)]"

section \<open>Credentials\<close>

text \<open>\<open>bytes.Split\<close> at NUL, the last two fields.\<close>

definition parsePlainPayload :: "'v bson_ext \<Rightarrow> bytes \<Rightarrow> (string \<times> string) option" where
  "parsePlainPayload E body =
     (case bx_BinaryOK E (raw_lookup E body ''payload'') of None \<Rightarrow> None
      | Some data \<Rightarrow>
          let parts = Split (str_of data) (CHR 0x00) in
          if length parts < 2 then None
          else let username = parts ! (length parts - 2); password = parts ! (length parts - 1)
               in if username = [] then None else Some (username, password))"

definition splitUserDBHint :: "string \<Rightarrow> string \<times> string" where
  "splitUserDBHint raw = (case LastIndex raw ''#'' of Some idx \<Rightarrow> (take idx raw, drop (idx + 1) raw) | None \<Rightarrow> (raw, []))"

definition authenticateAPIKey :: "auth_env \<Rightarrow> time \<Rightarrow> string \<Rightarrow> string \<Rightarrow> auth_store \<Rightarrow> (mongo_auth_error + user) \<times> auth_store" where
  "authenticateAPIKey A now username key s =
     (case verify_key A now key s of
        (Inl e, s1) \<Rightarrow> (Inl ErrAuthenticationFailed, s1)
      | (Inr verified, s1) \<Rightarrow>
          (case on_store (GetUserByUsername username) s1 of
             (Inl e, s2) \<Rightarrow> (Inl ErrAuthenticationFailed, s2)
           | (Inr u, s2) \<Rightarrow>
               if usr_UID u \<noteq> ak_UserID verified then (Inl ErrAuthenticationFailed, s2)
               else (Inr u, s2\<lparr>vs_usage := vs_usage s2 @ [ak_ID verified]\<rparr>)))"

definition verifyCredentials :: "auth_env \<Rightarrow> time \<Rightarrow> string \<Rightarrow> string \<Rightarrow> auth_store \<Rightarrow> (mongo_auth_error + user) \<times> auth_store" where
  "verifyCredentials A now username password s =
     (if isAPIKey password then authenticateAPIKey A now username password s
      else case on_store (GetUserByUsername username) s of
        (Inl e, s1) \<Rightarrow> (Inl ErrAuthenticationFailed, s1)
      | (Inr u, s1) \<Rightarrow>
          (case check_password A now u password s1 of (r, s2) \<Rightarrow> (if r = Inr True then Inr u else Inl ErrAuthenticationFailed, s2)))"

section \<open>The target\<close>

text \<open>The loop over the grants of the user; a grant whose target cannot be read is skipped.\<close>

fun single_target :: "access_grant list \<Rightarrow> server option \<Rightarrow> auth_store \<Rightarrow> (mongo_auth_error + server option) \<times> auth_store" where
  "single_target [] resolved s = (Inr resolved, s)"
| "single_target (g # gs) resolved s =
     (case on_store (GetServerByUID (ag_DatabaseID g)) s of
        (Inl e, s1) \<Rightarrow> single_target gs resolved s1
      | (Inr db, s1) \<Rightarrow>
          if srv_Protocol db \<noteq> ProtocolMongoDB then single_target gs resolved s1
          else if (case resolved of None \<Rightarrow> False | Some r \<Rightarrow> srv_UID r \<noteq> srv_UID db) then (Inl ErrDatabaseNotResolvable, s1)
          else single_target gs (Some db) s1)"

definition resolveSingleGrantDatabase :: "time \<Rightarrow> user \<Rightarrow> auth_store \<Rightarrow> (mongo_auth_error + server) \<times> auth_store" where
  "resolveSingleGrantDatabase now u s =
     (case on_store (ListGrants \<lparr>gf_UserID = Some (usr_UID u), gf_DatabaseID = None, gf_ActiveOnly = True\<rparr> now) s of
        (Inl e, s1) \<Rightarrow> (Inl ErrDatabaseNotResolvable, s1)
      | (Inr grants, s1) \<Rightarrow>
          (case single_target grants None s1 of
             (Inl e, s2) \<Rightarrow> (Inl e, s2) | (Inr None, s2) \<Rightarrow> (Inl ErrDatabaseNotResolvable, s2) | (Inr (Some db), s2) \<Rightarrow> (Inr db, s2)))"

definition resolveDatabase :: "auth_clock \<Rightarrow> user \<Rightarrow> string \<Rightarrow> string \<Rightarrow> auth_store \<Rightarrow> (mongo_auth_error + server) \<times> auth_store" where
  "resolveDatabase now u authSource userDBHint s =
     (let name = (if authSource \<noteq> [] \<and> authSource \<noteq> ''$external'' \<and> authSource \<noteq> ''admin'' then authSource
                  else if userDBHint \<noteq> [] then userDBHint else [])
      in if name \<noteq> [] then
           (case on_store (GetServerByName name) s of
              (Inl e, s1) \<Rightarrow> (Inl ErrDatabaseNotResolvable, s1)
            | (Inr db, s1) \<Rightarrow> if srv_Protocol db \<noteq> ProtocolMongoDB then (Inl ErrDatabaseNotResolvable, s1) else (Inr db, s1))
         else resolveSingleGrantDatabase (clk_list now) u s)"

section \<open>Authorisation\<close>

text \<open>The texts that an error reply carries.\<close>

fun mongo_auth_text :: "mongo_auth_error \<Rightarrow> string" where
  "mongo_auth_text ErrTLSRequired = ''dbbat: PLAIN authentication requires TLS''"
| "mongo_auth_text ErrDatabaseNotResolvable = ''dbbat: could not resolve target database; connect with authSource=<dbbat-database-name> (or username 'user#database')''"
| "mongo_auth_text MaGrantMissing = ''dbbat: no active grant for this database''"
| "mongo_auth_text (MaQuotaExceeded e) = mongo_text e"
| "mongo_auth_text ErrUpstreamConnect = ''dbbat: upstream MongoDB connection failed''"
| "mongo_auth_text _ = authFailedMsg"

definition failAuth :: "'v mongo_listener \<Rightarrow> u32 \<Rightarrow> 'v mongo_pre \<Rightarrow> (mongo_auth_error + bool) \<times> 'v mongo_pre" where
  "failAuth L responseTo p = (Inl ErrAuthenticationFailed, snd (mp_reply L responseTo authFailedDoc p))"

definition refuse_with :: "'v mongo_listener \<Rightarrow> u32 \<Rightarrow> mongo_auth_error \<Rightarrow> 'v mongo_pre \<Rightarrow> (mongo_auth_error + 'a) \<times> 'v mongo_pre" where
  "refuse_with L responseTo e p =
     (Inl e, snd (mp_reply L responseTo (errorDoc codeAuthenticationFailed codeNameAuthenticationFailed (mongo_auth_text e)) p))"

definition authorizeAndEstablish ::
  "'v mongo_listener \<Rightarrow> auth_clock \<Rightarrow> bool \<Rightarrow> u32 \<Rightarrow> user \<Rightarrow> string \<Rightarrow> 'v mongo_pre \<Rightarrow> (mongo_auth_error + unit) \<times> 'v mongo_pre" where
  "authorizeAndEstablish L now connected responseTo u userDBHint p =
     (case mp_on_store (resolveDatabase now u (mp_authSource p) userDBHint) p of
        (Inl e, p1) \<Rightarrow> refuse_with L responseTo e p1
      | (Inr db, p1) \<Rightarrow>
          (case mp_on_store (on_store (GetActiveGrant (usr_UID u) (srv_UID db) (clk_grant now))) p1 of
             (Inl e, p2) \<Rightarrow> refuse_with L responseTo MaGrantMissing p2
           | (Inr grant, p2) \<Rightarrow>
               (case mongo_checkQuotas (clk_quota now) grant of
                  Some e \<Rightarrow> refuse_with L responseTo (MaQuotaExceeded e) p2
                | None \<Rightarrow>
                    if \<not> connected then refuse_with L responseTo ErrUpstreamConnect p2
                    else (Inr (), p2\<lparr>mp_login := Some \<lparr>lg_user = u, lg_database = db, lg_grant = grant\<rparr>\<rparr>))))"

definition sasl_reply :: "bytes \<Rightarrow> bool \<Rightarrow> 'v bdoc" where
  "sasl_reply payload finished =
     [(''conversationId'', BInt32 1), (''done'', BBool finished), (''payload'', BBin payload), (''ok'', BFloat 1 1)]"

text \<open>A reply whose failure is the error of the handler.\<close>

definition reply_result :: "'v mongo_listener \<Rightarrow> u32 \<Rightarrow> 'v bdoc \<Rightarrow> bool \<Rightarrow> 'v mongo_pre \<Rightarrow> (mongo_auth_error + bool) \<times> 'v mongo_pre" where
  "reply_result L responseTo doc finished p =
     (case mp_reply L responseTo doc p of (ok, p1) \<Rightarrow> (if ok then Inr finished else Inl MaReplyFailed, p1))"

definition handlePlainStart ::
  "'v mongo_listener \<Rightarrow> auth_clock \<Rightarrow> bool \<Rightarrow> u32 \<Rightarrow> bytes \<Rightarrow> 'v mongo_pre \<Rightarrow> (mongo_auth_error + bool) \<times> 'v mongo_pre" where
  "handlePlainStart L now connected responseTo body p =
     (if ml_tlsConfig L \<and> \<not> mp_tlsActive p then refuse_with L responseTo ErrTLSRequired p
      else case parsePlainPayload (ml_bson L) body of None \<Rightarrow> failAuth L responseTo p
      | Some (rawUser, password) \<Rightarrow>
          let (bareUser, userDBHint) = splitUserDBHint rawUser in
          (case mp_on_store (verifyCredentials (ml_auth L) (clk_credential now) bareUser password) p of
             (Inl e, p1) \<Rightarrow> failAuth L responseTo p1
           | (Inr u, p1) \<Rightarrow>
               (case authorizeAndEstablish L now connected responseTo u userDBHint p1 of
                  (Inl e, p2) \<Rightarrow> (Inl e, p2)
                | (Inr _, p2) \<Rightarrow> reply_result L responseTo (sasl_reply [] True) True p2)))"

section \<open>SCRAM\<close>

definition decryptMongoSCRAM :: "'v mongo_listener \<Rightarrow> uuid \<Rightarrow> mongo_scram_credentials \<Rightarrow> (bytes \<times> bytes) option" where
  "decryptMongoSCRAM L userUID creds =
     (let X = vx_prims (ml_auth L); aad = UserAAD (vx_uuid_String (ml_auth L) userUID) in
      case Decrypt X (ms_StoredKey creds) (ml_encryptionKey L) aad of Inl e \<Rightarrow> None
      | Inr storedKey \<Rightarrow>
          (case Decrypt X (ms_ServerKey creds) (ml_encryptionKey L) aad of Inl e \<Rightarrow> None | Inr serverKey \<Rightarrow> Some (storedKey, serverKey)))"

text \<open>The credentials of a user, when there are any.\<close>

definition scram_credentials :: "'v mongo_listener \<Rightarrow> user \<Rightarrow> stored_credentials option" where
  "scram_credentials L u =
     (case MongoSCRAMCredentials u of None \<Rightarrow> None
      | Some creds \<Rightarrow>
          (case decryptMongoSCRAM L (usr_UID u) creds of None \<Rightarrow> None
           | Some (storedKey, serverKey) \<Rightarrow>
               Some \<lparr>sk_Salt = ms_Salt creds, sk_Iters = ms_Iterations creds, sk_StoredKey = storedKey, sk_ServerKey = serverKey\<rparr>))"

definition scramCredentialLookup :: "'v mongo_listener \<Rightarrow> string \<Rightarrow> 'v mongo_pre \<Rightarrow> stored_credentials option \<times> 'v mongo_pre" where
  "scramCredentialLookup L username p =
     (let (bareUser, hint) = splitUserDBHint username in
      case mp_on_store (on_store (GetUserByUsername bareUser)) p of
        (Inl e, p1) \<Rightarrow> (None, p1)
      | (Inr u, p1) \<Rightarrow>
          (case scram_credentials L u of None \<Rightarrow> (None, p1)
           | Some c \<Rightarrow> (Some c, p1\<lparr>mp_scramUser := Some u, mp_scramUserDBHint := hint\<rparr>)))"

definition handleScramStart :: "'v mongo_listener \<Rightarrow> u32 \<Rightarrow> bytes \<Rightarrow> 'v mongo_pre \<Rightarrow> (mongo_auth_error + bool) \<times> 'v mongo_pre" where
  "handleScramStart L responseTo body p =
     (case bx_BinaryOK (ml_bson L) (raw_lookup (ml_bson L) body ''payload'') of None \<Rightarrow> failAuth L responseTo p
      | Some clientFirst \<Rightarrow>
          (case sc_username (ml_scram L) (str_of clientFirst) of None \<Rightarrow> failAuth L responseTo p
           | Some username \<Rightarrow>
               (case scramCredentialLookup L username p of
                  (None, p1) \<Rightarrow> failAuth L responseTo p1
                | (Some c, p1) \<Rightarrow>
                    reply_result L responseTo (sasl_reply (bytes_of (sc_server_first (ml_scram L) c (str_of clientFirst))) False) False
                      (p1\<lparr>mp_conv := Some (c, str_of clientFirst)\<rparr>))))"

definition handleScramContinue ::
  "'v mongo_listener \<Rightarrow> auth_clock \<Rightarrow> bool \<Rightarrow> u32 \<Rightarrow> bytes \<Rightarrow> 'v mongo_pre \<Rightarrow> (mongo_auth_error + bool) \<times> 'v mongo_pre" where
  "handleScramContinue L now connected responseTo body p =
     (case mp_conv p of None \<Rightarrow> failAuth L responseTo p
      | Some (c, clientFirst) \<Rightarrow>
          (case bx_BinaryOK (ml_bson L) (raw_lookup (ml_bson L) body ''payload'') of None \<Rightarrow> failAuth L responseTo p
           | Some clientFinal \<Rightarrow>
               (case sc_server_final (ml_scram L) c clientFirst (str_of clientFinal) of None \<Rightarrow> failAuth L responseTo p
                | Some serverFinal \<Rightarrow>
                    (case mp_scramUser p of None \<Rightarrow> failAuth L responseTo p
                     | Some u \<Rightarrow>
                         (case authorizeAndEstablish L now connected responseTo u (mp_scramUserDBHint p) p of
                            (Inl e, p1) \<Rightarrow> (Inl e, p1)
                          | (Inr _, p1) \<Rightarrow> reply_result L responseTo (sasl_reply (bytes_of serverFinal) True) True p1)))))"

definition handleSaslStart ::
  "'v mongo_listener \<Rightarrow> auth_clock \<Rightarrow> bool \<Rightarrow> u32 \<Rightarrow> bytes \<Rightarrow> 'v mongo_pre \<Rightarrow> (mongo_auth_error + bool) \<times> 'v mongo_pre" where
  "handleSaslStart L now connected responseTo body p0 =
     (let p = p0\<lparr>mp_authSource := str_field (ml_bson L) body ''$db''\<rparr>; mech = str_field (ml_bson L) body ''mechanism'' in
      if mech = ''PLAIN'' then handlePlainStart L now connected responseTo body p
      else if mech = ''SCRAM-SHA-256'' then handleScramStart L responseTo body p
      else failAuth L responseTo p)"

section \<open>The loop before authentication\<close>

definition is_hello :: "string \<Rightarrow> bool" where
  "is_hello name \<longleftrightarrow> name = ''hello'' \<or> name = ''isMaster'' \<or> name = ''ismaster''"

definition ErrPreAuthNotAllowed :: string where "ErrPreAuthNotAllowed = ''dbbat: authentication required''"

definition dispatchPreAuthOpQuery :: "'v mongo_listener \<Rightarrow> pre_input \<Rightarrow> 'v mongo_pre \<Rightarrow> (mongo_auth_error + bool) \<times> 'v mongo_pre" where
  "dispatchPreAuthOpQuery L i p =
     (let m = pi_message i in
      case parseOpQuery (msg_body m) of Inl e \<Rightarrow> (Inl (MaParse e), p)
      | Inr q \<Rightarrow>
          let name = commandName (bx_lib (ml_bson L)) (oq_query q) in
          if is_hello name then
            (case helloDoc L (clk_hello (pi_clock i)) name (oq_query q) p of (doc, p1) \<Rightarrow> reply_result L (msg_requestID m) doc False p1)
          else reply_result L (msg_requestID m) (unauthorizedDoc ErrPreAuthNotAllowed) False p)"

definition dispatchPreAuthOpMsg :: "'v mongo_listener \<Rightarrow> pre_input \<Rightarrow> 'v mongo_pre \<Rightarrow> (mongo_auth_error + bool) \<times> 'v mongo_pre" where
  "dispatchPreAuthOpMsg L i p =
     (let m = pi_message i; rid = msg_requestID m in
      case parseOpMsg (msg_body m) of Inl e \<Rightarrow> (Inl (MaParse e), p)
      | Inr parsed \<Rightarrow>
          (case commandBody parsed of None \<Rightarrow> (Inl MaNoCommandBody, p)
           | Some body \<Rightarrow>
               let name = commandName (bx_lib (ml_bson L)) body in
               if is_hello name then (case helloDoc L (clk_hello (pi_clock i)) name body p of (doc, p1) \<Rightarrow> reply_result L rid doc False p1)
               else if name = ''ping'' then reply_result L rid okDoc False p
               else if name = ''buildInfo'' \<or> name = ''buildinfo'' then reply_result L rid buildInfoDoc False p
               else if name = ''endSessions'' then reply_result L rid okDoc False p
               else if name = ''saslStart'' then handleSaslStart L (pi_clock i) (pi_connected i) rid body p
               else if name = ''saslContinue'' then
                 (if mp_conv p \<noteq> None then handleScramContinue L (pi_clock i) (pi_connected i) rid body p else failAuth L rid p)
               else reply_result L rid (unauthorizedDoc ErrPreAuthNotAllowed) False p))"

definition dispatchPreAuth :: "'v mongo_listener \<Rightarrow> pre_input \<Rightarrow> 'v mongo_pre \<Rightarrow> (mongo_auth_error + bool) \<times> 'v mongo_pre" where
  "dispatchPreAuth L i p =
     (let c = msg_opCode (pi_message i) in
      if c = opCodeQuery then dispatchPreAuthOpQuery L i p
      else if c = opCodeMsg then dispatchPreAuthOpMsg L i p
      else (Inl MaUnknownOpCode, p))"

fun preAuthLoop :: "'v mongo_listener \<Rightarrow> pre_input list \<Rightarrow> 'v mongo_pre \<Rightarrow> (mongo_auth_error + unit) \<times> 'v mongo_pre" where
  "preAuthLoop L [] p = (Inl MaReadEnded, p)"
| "preAuthLoop L (i # is) p =
     (case dispatchPreAuth L i p of
        (Inl e, p1) \<Rightarrow> (Inl e, p1)
      | (Inr True, p1) \<Rightarrow> (Inr (), p1)
      | (Inr False, p1) \<Rightarrow> preAuthLoop L is p1)"

section \<open>Lookups\<close>

lemma target_lookup:
  assumes "on_store (GetServerByUID uid) s = (r, s')"
  shows "same_store s s'" and "r = Inr d \<Longrightarrow> d \<in> set (db_servers (vs_db s)) \<and> live_server d"
proof -
  note l = on_store_lookup [OF assms GetServerByUID_same]
  show "same_store s s'" by (rule l(1))
  show "r = Inr d \<Longrightarrow> d \<in> set (db_servers (vs_db s)) \<and> live_server d" using GetServerByUID_found [of uid "vs_db s" d "vs_db s'"] l(2) by simp
qed

definition mongo_target :: "db \<Rightarrow> server \<Rightarrow> bool" where
  "mongo_target st d \<longleftrightarrow> d \<in> set (db_servers st) \<and> live_server d \<and> srv_Protocol d = ProtocolMongoDB"

lemma mongo_target_same: "same_store s s' \<Longrightarrow> mongo_target (vs_db s') d = mongo_target (vs_db s) d"
  using same_tables_select(2) [of "vs_db s" "vs_db s'"] by (simp add: mongo_target_def same_store_def)

lemma single_target_sound:
  "(\<forall>d. resolved = Some d \<longrightarrow> mongo_target (vs_db s) d) \<Longrightarrow>
     same_store s (snd (single_target gs resolved s)) \<and> (\<forall>d. fst (single_target gs resolved s) = Inr (Some d) \<longrightarrow> mongo_target (vs_db s) d)"
proof (induction gs resolved s rule: single_target.induct)
  case (2 g gs resolved s)
  obtain r s1 where l: "on_store (GetServerByUID (ag_DatabaseID g)) s = (r, s1)" by fastforce
  note t = target_lookup [OF l]
  note same = mongo_target_same [OF t(1)]
  show ?case
  proof (cases r)
    case (Inl e)
    then show ?thesis using 2(1) [OF l [symmetric] Inl] 2(4) t(1) same by (auto simp: l intro: same_store_trans)
  next
    case (Inr d)
    have d: "srv_Protocol d = ProtocolMongoDB \<Longrightarrow> mongo_target (vs_db s) d" using t(2) [OF Inr] by (simp add: mongo_target_def)
    show ?thesis using 2(2,3) [OF l [symmetric] Inr] 2(4) t(1) same d by (auto simp: l Inr intro: same_store_trans)
  qed
qed simp

lemma populate_all_same: "same_tables st st1 \<Longrightarrow> same_tables st (snd (populate_all gs st1))"
proof (induction gs arbitrary: st1)
  case (Cons g gs)
  show ?case unfolding populate_all.simps by (intro and_then_same populate_same Cons) auto
qed simp

lemma ListGrants_same: "same_tables st (snd (ListGrants f now st))"
  unfolding ListGrants_def by (intro and_then_same read_stmt_same_snd populate_all_same) auto

lemma resolve_sound:
  assumes "resolveDatabase now u src hint s = (r, s')"
  shows "same_store s s'" and "r = Inr d \<Longrightarrow> mongo_target (vs_db s) d"
proof -
  have "same_store s s' \<and> (r = Inr d \<longrightarrow> mongo_target (vs_db s) d)"
  proof (cases "(src \<noteq> [] \<and> src \<noteq> ''$external'' \<and> src \<noteq> ''admin'') \<or> hint \<noteq> []")
    case True
    define n where "n = (if src \<noteq> [] \<and> src \<noteq> ''$external'' \<and> src \<noteq> ''admin'' then src else if hint \<noteq> [] then hint else [])"
    have n: "n \<noteq> []" using True by (auto simp: n_def)
    obtain r1 s1 where l: "on_store (GetServerByName n) s = (r1, s1)" by fastforce
    note t = server_lookup [OF l]
    have e: "(case r1 of Inl e \<Rightarrow> (Inl ErrDatabaseNotResolvable, s1)
        | Inr db \<Rightarrow> if srv_Protocol db \<noteq> ProtocolMongoDB then (Inl ErrDatabaseNotResolvable, s1) else (Inr db, s1)) = (r, s')"
      using assms n l by (simp add: resolveDatabase_def Let_def flip: n_def split: sum.splits)
    show ?thesis using e t by (cases r1) (simp_all add: mongo_target_def split: if_splits, auto)
  next
    case False
    then have a: "resolveSingleGrantDatabase (clk_list now) u s = (r, s')" using assms by (auto simp: resolveDatabase_def)
    obtain gs s1 where l: "on_store (ListGrants \<lparr>gf_UserID = Some (usr_UID u), gf_DatabaseID = None, gf_ActiveOnly = True\<rparr> (clk_list now)) s = (gs, s1)" by fastforce
    have same: "same_store s s1" by (rule on_store_lookup(1) [OF l ListGrants_same])
    show ?thesis
    proof (cases gs)
      case (Inl e)
      then show ?thesis using a l same by (auto simp: resolveSingleGrantDatabase_def)
    next
      case (Inr gl)
      then show ?thesis using a l same single_target_sound [of None s1 gl] mongo_target_same [OF same]
        by (auto simp: resolveSingleGrantDatabase_def split: prod.splits sum.splits option.splits intro: same_store_trans)
    qed
  qed
  then show "same_store s s'" and "r = Inr d \<Longrightarrow> mongo_target (vs_db s) d" by auto
qed

lemma credentials_sound:
  assumes c: "cache_ok A hs s" and v: "verifyCredentials A now n pw s = (Inr u, s')"
  shows "u \<in> set (db_users (vs_db s)) \<and> live_user u \<and> usr_Username u = n \<and> credential_ok A (earlier s hs) now u pw (vs_db s) \<and> same_tables (vs_db s) (vs_db s')"
proof (cases "isAPIKey pw")
  case True
  from v True obtain k s1 s2 where k: "verify_key A now pw s = (Inr k, s1)" "on_store (GetUserByUsername n) s1 = (Inr u, s2)"
    "usr_UID u = ak_UserID k" "vs_db s' = vs_db s2"
    by (auto simp: verifyCredentials_def authenticateAPIKey_def split: prod.splits sum.splits if_splits)
  note key = verify_key_sound [OF c k(1)] and ul = user_lookup [OF k(2)]
  have "same_tables (vs_db s) (vs_db s')" using key(2) ul(1) k(4) by (auto simp: same_store_def intro: same_tables_trans)
  then show ?thesis using key k(3) True ul(2) same_tables_select(1) [OF key(2)] by (auto simp: credential_ok_def list_ex_iff)
next
  case False
  obtain r1 s1 where l: "on_store (GetUserByUsername n) s = (r1, s1)" by fastforce
  with v False have r1: "r1 = Inr u" and w2: "fst (check_password A now u pw s1) = Inr True" "s' = snd (check_password A now u pw s1)"
    by (simp_all add: verifyCredentials_def split: sum.splits prod.splits if_splits)
  note w = l [unfolded r1] w2
  note ul = user_lookup [OF w(1)]
  have "db_users (vs_db s1) = db_users (vs_db s)" using ul(1) same_tables_select(1) [of "vs_db s" "vs_db s1"] by (simp add: same_store_def)
  then have "password_ok A (earlier s hs) u pw"
    using check_password_sound [OF _ w(2)] cache_ok_same [OF ul(1)] c ul(2) by simp
  moreover have "vs_db s' = vs_db s1" using w(3) by (simp add: check_password_def split: option.splits prod.splits)
  ultimately show ?thesis using False ul by (simp add: credential_ok_def same_store_def)
qed

lemma authorized_same: "same_tables st st' \<Longrightarrow> authorized nowG nowQ l st' = authorized nowG nowQ l st"
  by (simp add: authorized_def same_tables_select sums_same)

section \<open>Steps of the loop\<close>

lemma no_success [simp]: "failAuth L rid p \<noteq> (Inr b, p')" "refuse_with L rid e p \<noteq> (Inr x, p')"
  by (simp_all add: failAuth_def refuse_with_def)

text \<open>A reply changes neither the store nor the conversation.\<close>

definition same_login :: "'v mongo_pre \<Rightarrow> 'v mongo_pre \<Rightarrow> bool" where
  "same_login p p' \<longleftrightarrow> mp_conv p' = mp_conv p \<and> mp_scramUser p' = mp_scramUser p \<and> mp_tlsActive p' = mp_tlsActive p \<and> mp_login p' = mp_login p"

lemma reply_done:
  assumes "reply_result L rid doc f p = (Inr b, p')"
  shows "b = f" and "same_login p p'" and "mp_store p' = mp_store p"
  using assms by (auto simp: reply_result_def mp_reply_def same_login_def split: prod.splits if_splits list.splits bool.splits)

lemma mp_on_store_eq: "mp_on_store f p = (r, p') \<longleftrightarrow> f (mp_store p) = (r, mp_store p') \<and> p' = p\<lparr>mp_store := mp_store p'\<rparr>"
  by (auto simp: mp_on_store_def split: prod.splits)

lemma hello_same:
  assumes "helloDoc L now name req p = (doc, p')"
  shows "same_login p p'" and "same_store (mp_store p) (mp_store p')"
proof -
  have "same_store s (snd (userHasMongoVerifier n s))" for n s
    using user_lookup(1) [of n s] by (auto simp: userHasMongoVerifier_def split: prod.splits sum.splits)
  then have "same_store s (snd (supportedMechsFor n s))" for n s
    unfolding supportedMechsFor_def by (simp add: Let_def case_prod_beta)
  then show "same_store (mp_store p) (mp_store p')"
    using assms by (auto simp: helloDoc_def Let_def mp_on_store_def case_prod_beta split: if_splits)
  show "same_login p p'" using assms by (auto simp: same_login_def helloDoc_def Let_def mp_on_store_def case_prod_beta split: if_splits)
qed

lemma authorize_sound:
  assumes "authorizeAndEstablish L now connected rid u hint p = (Inr x, p')" and "u \<in> set (db_users (vs_db (mp_store p)))" and "live_user u"
  shows "\<exists>l. mp_login p' = Some l \<and> lg_user l = u \<and> srv_Protocol (lg_database l) = ProtocolMongoDB
    \<and> authorized (clk_grant now) (clk_quota now) l (vs_db (mp_store p))"
proof -
  obtain r p1 where r: "mp_on_store (resolveDatabase now u (mp_authSource p) hint) p = (r, p1)" by fastforce
  with assms(1) obtain d where d: "r = Inr d" by (cases r) (simp_all add: authorizeAndEstablish_def)
  obtain g p2 where g: "mp_on_store (on_store (GetActiveGrant (usr_UID u) (srv_UID d) (clk_grant now))) p1 = (g, p2)" by fastforce
  with assms(1) r d obtain gr where gr: "g = Inr gr" by (cases g) (simp_all add: authorizeAndEstablish_def)
  have q: "mongo_checkQuotas (clk_quota now) gr = None" and l: "mp_login p' = Some \<lparr>lg_user = u, lg_database = d, lg_grant = gr\<rparr>"
    using assms(1) r d g gr by (auto simp: authorizeAndEstablish_def split: option.splits if_splits)
  have rs: "resolveDatabase now u (mp_authSource p) hint (mp_store p) = (Inr d, mp_store p1)"
    and gs: "on_store (GetActiveGrant (usr_UID u) (srv_UID d) (clk_grant now)) (mp_store p1) = (Inr gr, mp_store p2)"
    using r g d gr by (simp_all add: mp_on_store_eq)
  have same: "same_tables (vs_db (mp_store p)) (vs_db (mp_store p1))" using resolve_sound(1) [OF rs] by (simp add: same_store_def)
  have "mongo_target (vs_db (mp_store p)) d" using resolve_sound(2) [OF rs] by simp
  moreover have "check_quotas (clk_quota now) gr = None" using q by (simp add: mongo_checkQuotas_def)
  ultimately have "authorized (clk_grant now) (clk_quota now) \<lparr>lg_user = u, lg_database = d, lg_grant = gr\<rparr> (vs_db (mp_store p))"
    using grant_lookup(2) [OF gs] assms(2,3) same_tables_select(3) [OF same] sums_same [OF same]
    by (simp add: authorized_def mongo_target_def ProtocolMongoDB_def ProtocolSSH_def same_tables_select [OF same])
  then show ?thesis using l \<open>mongo_target (vs_db (mp_store p)) d\<close> by (simp add: mongo_target_def)
qed

section \<open>The conversation\<close>

definition command_of :: "pre_input \<Rightarrow> bytes option" where
  "command_of i = (case parseOpMsg (msg_body (pi_message i)) of Inl e \<Rightarrow> None | Inr m \<Rightarrow> commandBody m)"

definition payload_of :: "'v bson_ext \<Rightarrow> pre_input \<Rightarrow> string option" where
  "payload_of E i = (case command_of i of None \<Rightarrow> None | Some body \<Rightarrow> map_option str_of (bx_BinaryOK E (raw_lookup E body ''payload'')))"

text \<open>The message carries a user and a password that verifies, over TLS when the listener has a certificate.\<close>

definition plain_proof :: "'v mongo_listener \<Rightarrow> (uuid \<times> string) list \<Rightarrow> bool \<Rightarrow> db \<Rightarrow> user \<Rightarrow> pre_input \<Rightarrow> bool" where
  "plain_proof L past tls st u i \<longleftrightarrow>
     (ml_tlsConfig L \<longrightarrow> tls)
     \<and> (\<exists>body raw pw. command_of i = Some body \<and> parsePlainPayload (ml_bson L) body = Some (raw, pw)
          \<and> usr_Username u = fst (splitUserDBHint raw) \<and> credential_ok (ml_auth L) past (clk_credential (pi_clock i)) u pw st)"

text \<open>The conversation \<open>(c, first)\<close> was opened by a message for the user with its credentials.\<close>

definition opened :: "'v mongo_listener \<Rightarrow> db \<Rightarrow> pre_input list \<Rightarrow> user \<Rightarrow> stored_credentials \<Rightarrow> string \<Rightarrow> bool" where
  "opened L st is u c first \<longleftrightarrow>
     u \<in> set (db_users st) \<and> live_user u \<and> scram_credentials L u = Some c
     \<and> list_ex (\<lambda>i. payload_of (ml_bson L) i = Some first) is
     \<and> (case sc_username (ml_scram L) first of None \<Rightarrow> False | Some n \<Rightarrow> usr_Username u = fst (splitUserDBHint n))"

definition scram_proof :: "'v mongo_listener \<Rightarrow> db \<Rightarrow> pre_input list \<Rightarrow> user \<Rightarrow> pre_input \<Rightarrow> bool" where
  "scram_proof L st is u i \<longleftrightarrow>
     (\<exists>c first final. opened L st is u c first \<and> payload_of (ml_bson L) i = Some final \<and> sc_server_final (ml_scram L) c first final \<noteq> None)"

definition mongo_entitled :: "'v mongo_listener \<Rightarrow> (uuid \<times> string) list \<Rightarrow> bool \<Rightarrow> db \<Rightarrow> pre_input list \<Rightarrow> pre_input \<Rightarrow> login \<Rightarrow> bool" where
  "mongo_entitled L past tls st is i l \<longleftrightarrow>
     authorized (clk_grant (pi_clock i)) (clk_quota (pi_clock i)) l st \<and> srv_Protocol (lg_database l) = ProtocolMongoDB
     \<and> (plain_proof L past tls st (lg_user l) i \<or> scram_proof L st is (lg_user l) i)"

definition conv_ok :: "'v mongo_listener \<Rightarrow> db \<Rightarrow> pre_input list \<Rightarrow> (stored_credentials \<times> string) option \<Rightarrow> user option \<Rightarrow> bool" where
  "conv_ok L st is conv scramUser =
     (case conv of None \<Rightarrow> True
      | Some (c, first) \<Rightarrow> (case scramUser of None \<Rightarrow> False | Some u \<Rightarrow> opened L st is u c first))"

definition pre_inv :: "'v mongo_listener \<Rightarrow> pre_input list \<Rightarrow> 'v mongo_pre \<Rightarrow> 'v mongo_pre \<Rightarrow> bool" where
  "pre_inv L is p0 p \<longleftrightarrow>
     same_store (mp_store p0) (mp_store p) \<and> mp_tlsActive p = mp_tlsActive p0
     \<and> conv_ok L (vs_db (mp_store p0)) is (mp_conv p) (mp_scramUser p)"

lemma pre_inv_step: "pre_inv L is p0 p \<Longrightarrow> same_login p p' \<Longrightarrow> same_store (mp_store p) (mp_store p') \<Longrightarrow> pre_inv L is p0 p'"
  unfolding pre_inv_def same_login_def using same_store_trans [of "mp_store p0" "mp_store p" "mp_store p'"] by simp

lemma pre_inv_reply: "pre_inv L is p0 p \<Longrightarrow> reply_result L rid doc f p = (Inr b, p') \<Longrightarrow> b = f \<and> pre_inv L is p0 p'"
  using reply_done [of L rid doc f p b p'] pre_inv_step by fastforce

lemma plain_step:
  assumes inv: "pre_inv L is p0 p" and c: "cache_ok (ml_auth L) hs (mp_store p0)" and b: "command_of i = Some body"
    and h: "handlePlainStart L (pi_clock i) connected rid body p = (Inr b, p')"
  shows "b \<and> (\<exists>l. mp_login p' = Some l \<and> mongo_entitled L (earlier (mp_store p0) hs) (mp_tlsActive p0) (vs_db (mp_store p0)) is i l)"
proof -
  have st: "same_store (mp_store p0) (mp_store p)" "mp_tlsActive p = mp_tlsActive p0" using inv by (simp_all add: pre_inv_def)
  have tls: "ml_tlsConfig L \<longrightarrow> mp_tlsActive p0" using h st(2) by (auto simp: handlePlainStart_def split: if_splits)
  from h obtain raw pw where pp: "parsePlainPayload (ml_bson L) body = Some (raw, pw)"
    by (cases "parsePlainPayload (ml_bson L) body") (auto simp: handlePlainStart_def split: if_splits)
  obtain bare hint where sp: "splitUserDBHint raw = (bare, hint)" by fastforce
  obtain r p1 where v: "mp_on_store (verifyCredentials (ml_auth L) (clk_credential (pi_clock i)) bare pw) p = (r, p1)" by fastforce
  from h pp sp v obtain u where u: "r = Inr u" by (cases r) (simp_all add: handlePlainStart_def split: if_splits)
  obtain ra p2 where a: "authorizeAndEstablish L (pi_clock i) connected rid u hint p1 = (ra, p2)" by fastforce
  from h pp sp v u a obtain x where x: "ra = Inr x" by (cases ra) (simp_all add: handlePlainStart_def split: if_splits)
  have rr: "reply_result L rid (sasl_reply [] True) True p2 = (Inr b, p')"
    using h pp sp v u a x by (simp add: handlePlainStart_def split: if_splits)
  have "cache_ok (ml_auth L) hs (mp_store p)" using c cache_ok_same [OF st(1)] by simp
  moreover have vc: "verifyCredentials (ml_auth L) (clk_credential (pi_clock i)) bare pw (mp_store p) = (Inr u, mp_store p1)"
    using v u by (simp add: mp_on_store_eq)
  ultimately have cs: "u \<in> set (db_users (vs_db (mp_store p)))" "live_user u" "usr_Username u = bare"
    "credential_ok (ml_auth L) (earlier (mp_store p) hs) (clk_credential (pi_clock i)) u pw (vs_db (mp_store p))" "same_tables (vs_db (mp_store p)) (vs_db (mp_store p1))"
    by (simp_all add: credentials_sound)
  have s0: "same_tables (vs_db (mp_store p0)) (vs_db (mp_store p))" using st(1) by (simp add: same_store_def)
  have s1: "same_tables (vs_db (mp_store p0)) (vs_db (mp_store p1))" by (rule same_tables_trans [OF s0 cs(5)])
  have "u \<in> set (db_users (vs_db (mp_store p1)))" using cs(1) same_tables_select(1) [OF cs(5)] by simp
  from authorize_sound [OF a [unfolded x] this cs(2)] obtain l where l: "mp_login p2 = Some l" "lg_user l = u"
    "srv_Protocol (lg_database l) = ProtocolMongoDB" "authorized (clk_grant (pi_clock i)) (clk_quota (pi_clock i)) l (vs_db (mp_store p1))" by blast
  have "plain_proof L (earlier (mp_store p0) hs) (mp_tlsActive p0) (vs_db (mp_store p0)) u i"
    unfolding plain_proof_def using tls b pp sp cs(3,4) credential_same [OF s0] cache_ok_same(2) [OF st(1)] by simp
  then have "mongo_entitled L (earlier (mp_store p0) hs) (mp_tlsActive p0) (vs_db (mp_store p0)) is i l" using l authorized_same [OF s1] by (simp add: mongo_entitled_def)
  then show ?thesis using reply_done [OF rr] l(1) by (simp add: same_login_def)
qed

lemma scram_start_step:
  assumes inv: "pre_inv L is p0 p" and b: "command_of i = Some body" and i: "i \<in> set is" and h: "handleScramStart L rid body p = (Inr b, p')"
  shows "\<not> b \<and> pre_inv L is p0 p'"
proof -
  let ?pay = "bx_BinaryOK (ml_bson L) (raw_lookup (ml_bson L) body ''payload'')"
  from h obtain first where f: "?pay = Some first" by (cases ?pay) (simp_all add: handleScramStart_def)
  from h f obtain n where n: "sc_username (ml_scram L) (str_of first) = Some n"
    by (cases "sc_username (ml_scram L) (str_of first)") (simp_all add: handleScramStart_def)
  obtain bare hint where sp: "splitUserDBHint n = (bare, hint)" by fastforce
  obtain r p1 where u: "mp_on_store (on_store (GetUserByUsername bare)) p = (r, p1)" by fastforce
  from h f n sp u obtain x where x: "r = Inr x" by (cases r) (simp_all add: handleScramStart_def scramCredentialLookup_def)
  from h f n sp u x obtain c where c: "scram_credentials L x = Some c"
    by (cases "scram_credentials L x") (simp_all add: handleScramStart_def scramCredentialLookup_def)
  let ?p = "p1\<lparr>mp_scramUser := Some x, mp_scramUserDBHint := hint, mp_conv := Some (c, str_of first)\<rparr>"
  have rr: "reply_result L rid (sasl_reply (bytes_of (sc_server_first (ml_scram L) c (str_of first))) False) False ?p = (Inr b, p')"
    using h f n sp u x c by (simp add: handleScramStart_def scramCredentialLookup_def)
  have ul: "on_store (GetUserByUsername bare) (mp_store p) = (Inr x, mp_store p1)" "mp_tlsActive p1 = mp_tlsActive p"
    using u x unfolding mp_on_store_eq by (simp, metis mongo_pre.select_convs(6) mongo_pre.surjective mongo_pre.update_convs(1))
  note user = user_lookup [OF ul(1)]
  have st: "same_store (mp_store p0) (mp_store p)" using inv by (simp add: pre_inv_def)
  then have "db_users (vs_db (mp_store p)) = db_users (vs_db (mp_store p0))"
    using same_tables_select(1) [of "vs_db (mp_store p0)" "vs_db (mp_store p)"] by (simp add: same_store_def)
  then have "x \<in> set (db_users (vs_db (mp_store p0)))" "live_user x" "usr_Username x = bare" using user(2) [of x] by auto
  moreover have "list_ex (\<lambda>i. payload_of (ml_bson L) i = Some (str_of first)) is"
    using i b f by (auto simp: list_ex_iff payload_of_def intro!: bexI [of _ i])
  ultimately have "opened L (vs_db (mp_store p0)) is x c (str_of first)" using c n sp by (simp add: opened_def)
  moreover have "same_store (mp_store p0) (mp_store p1)" by (rule same_store_trans [OF st user(1)])
  ultimately have "pre_inv L is p0 ?p" using inv ul(2) by (simp add: pre_inv_def conv_ok_def)
  then show ?thesis using pre_inv_reply [OF _ rr] by blast
qed

lemma scram_continue_step:
  assumes inv: "pre_inv L is p0 p" and b: "command_of i = Some body"
    and h: "handleScramContinue L (pi_clock i) connected rid body p = (Inr b, p')"
  shows "b \<and> (\<exists>l. mp_login p' = Some l \<and> mongo_entitled L (earlier (mp_store p0) hs) (mp_tlsActive p0) (vs_db (mp_store p0)) is i l)"
proof -
  let ?pay = "bx_BinaryOK (ml_bson L) (raw_lookup (ml_bson L) body ''payload'')"
  from h obtain c first where cv: "mp_conv p = Some (c, first)" by (cases "mp_conv p") (auto simp: handleScramContinue_def)
  from h cv obtain final where f: "?pay = Some final" by (cases ?pay) (simp_all add: handleScramContinue_def)
  from h cv f obtain answer where n: "sc_server_final (ml_scram L) c first (str_of final) = Some answer"
    by (cases "sc_server_final (ml_scram L) c first (str_of final)") (simp_all add: handleScramContinue_def)
  from h cv f n obtain u where u: "mp_scramUser p = Some u" by (cases "mp_scramUser p") (simp_all add: handleScramContinue_def)
  obtain r p1 where a: "authorizeAndEstablish L (pi_clock i) connected rid u (mp_scramUserDBHint p) p = (r, p1)" by fastforce
  from h cv f n u a obtain x where x: "r = Inr x" by (cases r) (simp_all add: handleScramContinue_def)
  have rr: "reply_result L rid (sasl_reply (bytes_of answer) True) True p1 = (Inr b, p')"
    using h cv f n u a x by (simp add: handleScramContinue_def)
  have op: "opened L (vs_db (mp_store p0)) is u c first" using inv cv u by (simp add: pre_inv_def conv_ok_def)
  have s: "same_tables (vs_db (mp_store p0)) (vs_db (mp_store p))" using inv by (simp add: pre_inv_def same_store_def)
  have "u \<in> set (db_users (vs_db (mp_store p)))" "live_user u" using op same_tables_select(1) [OF s] by (simp_all add: opened_def)
  from authorize_sound [OF a [unfolded x] this] obtain l where l: "mp_login p1 = Some l" "lg_user l = u"
    "srv_Protocol (lg_database l) = ProtocolMongoDB" "authorized (clk_grant (pi_clock i)) (clk_quota (pi_clock i)) l (vs_db (mp_store p))" by blast
  have "scram_proof L (vs_db (mp_store p0)) is u i"
    unfolding scram_proof_def using op b f n by (intro exI [of _ c] exI [of _ first] exI [of _ "str_of final"]) (simp add: payload_of_def)
  then have "mongo_entitled L (earlier (mp_store p0) hs) (mp_tlsActive p0) (vs_db (mp_store p0)) is i l" using l authorized_same [OF s] by (simp add: mongo_entitled_def)
  then show ?thesis using reply_done [OF rr] l(1) by (simp add: same_login_def)
qed

lemma hello_step:
  assumes "pre_inv L is p0 p" and "(case helloDoc L now name req p of (doc, p1) \<Rightarrow> reply_result L rid doc False p1) = (Inr b, p')"
  shows "\<not> b \<and> pre_inv L is p0 p'"
proof -
  obtain doc p1 where h: "helloDoc L now name req p = (doc, p1)" by fastforce
  then have "pre_inv L is p0 p1" using pre_inv_step [OF assms(1)] hello_same [OF h] by simp
  then show ?thesis using assms(2) pre_inv_reply [of L "is" p0 p1 rid doc False b p'] h by simp
qed

lemma pre_inv_auth_source: "pre_inv L is p0 (p\<lparr>mp_authSource := d\<rparr>) = pre_inv L is p0 p"
  by (simp add: pre_inv_def)

lemma dispatch_step:
  assumes inv: "pre_inv L is p0 p" and c: "cache_ok (ml_auth L) hs (mp_store p0)" and i: "i \<in> set is" and d: "dispatchPreAuth L i p = (Inr b, p')"
  shows "if b then \<exists>l. mp_login p' = Some l \<and> mongo_entitled L (earlier (mp_store p0) hs) (mp_tlsActive p0) (vs_db (mp_store p0)) is i l else pre_inv L is p0 p'"
proof (cases "msg_opCode (pi_message i) = opCodeQuery")
  case True
  with d have q: "dispatchPreAuthOpQuery L i p = (Inr b, p')" by (simp add: dispatchPreAuth_def Let_def)
  show ?thesis
  proof (cases "parseOpQuery (msg_body (pi_message i))")
    case (Inl e)
    then show ?thesis using q by (simp add: dispatchPreAuthOpQuery_def)
  next
    case (Inr oq)
    then show ?thesis using q hello_step [OF inv] pre_inv_reply [OF inv]
      unfolding dispatchPreAuthOpQuery_def Let_def by (simp split: if_splits) blast+
  qed
next
  case False
  with d have q: "dispatchPreAuthOpMsg L i p = (Inr b, p')" by (simp add: dispatchPreAuth_def Let_def split: if_splits)
  obtain m where m: "parseOpMsg (msg_body (pi_message i)) = Inr m"
    using q by (cases "parseOpMsg (msg_body (pi_message i))") (simp_all add: dispatchPreAuthOpMsg_def)
  obtain body where bd: "commandBody m = Some body" using q m by (cases "commandBody m") (simp_all add: dispatchPreAuthOpMsg_def)
  have co: "command_of i = Some body" using m bd by (simp add: command_of_def)
  define name rid where "name = commandName (bx_lib (ml_bson L)) body" and "rid = msg_requestID (pi_message i)"
  note eq = q [unfolded dispatchPreAuthOpMsg_def Let_def m bd sum.case option.case, folded name_def rid_def]
  consider (hello) "is_hello name" | (plain) doc where "reply_result L rid doc False p = (Inr b, p')"
    | (start) "handleSaslStart L (pi_clock i) (pi_connected i) rid body p = (Inr b, p')"
    | (continue) "handleScramContinue L (pi_clock i) (pi_connected i) rid body p = (Inr b, p')"
    using eq no_success(1) by (simp split: if_splits)
  then show ?thesis
  proof cases
    case hello
    then have "(case helloDoc L (clk_hello (pi_clock i)) name body p of (doc, p1) \<Rightarrow> reply_result L rid doc False p1) = (Inr b, p')" using eq by simp
    from hello_step [OF inv this] show ?thesis by simp
  next
    case plain
    from pre_inv_reply [OF inv this] show ?thesis by simp
  next
    case start
    have inv': "pre_inv L is p0 (p\<lparr>mp_authSource := str_field (ml_bson L) body ''$db''\<rparr>)" using inv by (simp add: pre_inv_auth_source)
    show ?thesis using start plain_step [OF inv' c co, of "pi_connected i" rid b p'] scram_start_step [OF inv' co i, of rid b p']
      by (simp add: handleSaslStart_def Let_def split: if_splits)
  next
    case continue
    from scram_continue_step [OF inv co this] show ?thesis by simp
  qed
qed

lemma loop_sound:
  assumes "preAuthLoop L is p = (Inr (), p')" and "pre_inv L all p0 p" and "cache_ok (ml_auth L) hs (mp_store p0)" and "set is \<subseteq> set all"
  shows "\<exists>l i. i \<in> set is \<and> mp_login p' = Some l \<and> mongo_entitled L (earlier (mp_store p0) hs) (mp_tlsActive p0) (vs_db (mp_store p0)) all i l"
  using assms
proof (induction L "is" p rule: preAuthLoop.induct)
  case (2 L i ms p)
  obtain r p1 where d: "dispatchPreAuth L i p = (r, p1)" by fastforce
  with "2.prems"(1) obtain b where b: "r = Inr b" by (cases r) simp_all
  have i: "i \<in> set all" using "2.prems"(4) by simp
  note step = dispatch_step [OF "2.prems"(2,3) i d [unfolded b]]
  show ?case
  proof (cases b)
    case True
    then show ?thesis using step "2.prems"(1) d b by auto
  next
    case False
    then have "preAuthLoop L ms p1 = (Inr (), p')" "pre_inv L all p0 p1" using step "2.prems"(1) d b by simp_all
    then show ?thesis using "2.IH" [OF d [symmetric] b] False "2.prems"(3,4) by auto
  qed
qed simp

section \<open>Results\<close>

text \<open>C17. A MongoDB client that gets through the loop before authentication holds, as a live user, an active
  grant on the MongoDB target of the session with no quota used up. One of the messages it sent proves that user: a
  PLAIN message (over TLS when the listener has a certificate) whose secret is a valid key of the user's own, or a
  password that verifies against the stored hash or, when the process has an authentication cache, against an
  earlier hash of the same user with the same first 32 characters; or the final message of a SCRAM conversation
  that was opened for that user with its stored credentials. The cache is whatever a run of the process left in it;
  SHA-256 is taken as free of collisions, and identifiers have their documented text.\<close>

theorem mongo_login_entitled:
  assumes "inj (vx_hash (ml_auth L))" and "uuid_text (vx_uuid_String (ml_auth L))" and "auth_run (ml_auth L) (mp_store p0) hs"
    and "mp_conv p0 = None" and "preAuthLoop L is p0 = (Inr (), p')"
  shows "\<exists>l i. i \<in> set is \<and> mp_login p' = Some l
    \<and> mongo_entitled L (earlier (mp_store p0) hs) (mp_tlsActive p0) (vs_db (mp_store p0)) is i l"
  using loop_sound [OF assms(5) _ auth_run_ok [OF assms(3,1,2)], of "is"] assms(4) by (simp add: pre_inv_def conv_ok_def)

definition sasl_docs :: "string bson_ext" where
  "sasl_docs =
     \<lparr>bx_lib = \<lparr>bson_Lookup = (\<lambda>d k. k), bson_ArrayOK = (\<lambda>_. None), bson_Values = (\<lambda>_. None), bson_DocumentOK = (\<lambda>_. None),
        bson_ElementKeys = (\<lambda>_. Some [''saslStart'']), bson_StringOK = (\<lambda>k. Some (if k = ''mechanism'' then ''PLAIN'' else ''prod''))\<rparr>,
      bx_Int32OK = (\<lambda>_. None), bx_Int64OK = (\<lambda>_. None), bx_DoubleOK = (\<lambda>_. None), bx_BinaryOK = (\<lambda>_. Some (0 # bytes_of ''alice'' @ 0 # bytes_of ''pw'')),
      bx_BooleanOK = (\<lambda>_. None), bx_Elements = (\<lambda>_. None), bx_ExtJSON = (\<lambda>_. None), bx_Marshal = (\<lambda>_. Some [])\<rparr>"

definition mongo_listener0 :: "string mongo_listener" where
  "mongo_listener0 = \<lparr>ml_auth = auth_env0, ml_bson = sasl_docs,
     ml_scram = \<lparr>sc_username = (\<lambda>_. None), sc_server_first = (\<lambda>_ _. []), sc_server_final = (\<lambda>_ _ _. None)\<rparr>,
     ml_encryptionKey = [], ml_tlsConfig = True, ml_serviceID = []\<rparr>"

definition mongo_pre0 :: "string mongo_pre" where
  "mongo_pre0 = \<lparr>mp_store = auth_store0 ''mongodb'', mp_authSource = [], mp_conv = None, mp_scramUser = None, mp_scramUserDBHint = [],
     mp_tlsActive = True, mp_connID = 1, mp_writes = [True], mp_replies = [], mp_login = None\<rparr>"

definition plain_input :: pre_input where
  "plain_input = \<lparr>pi_message = \<lparr>msg_length = 26, msg_requestID = 7, msg_responseTo = 0, msg_opCode = opCodeMsg,
       msg_body = [0, 0, 0, 0, 0, 5, 0, 0, 0, 0], msg_raw = []\<rparr>,
     pi_clock = \<lparr>clk_hello = 1, clk_credential = 2, clk_list = 3, clk_grant = 4, clk_quota = 5\<rparr>, pi_connected = True\<rparr>"

lemma plain_command: "command_of plain_input = Some [5, 0, 0, 0, 0]" by code_simp

lemma plain_payload: "parsePlainPayload sasl_docs body = Some (''alice'', ''pw'')"
proof -
  have "Split (str_of (0 # bytes_of ''alice'' @ 0 # bytes_of ''pw'')) (CHR 0x00) = [[], ''alice'', ''pw'']" by code_simp
  then show ?thesis by (simp add: parsePlainPayload_def sasl_docs_def)
qed

lemma plain_split: "splitUserDBHint ''alice'' = (''alice'', [])" by code_simp

theorem mongo_login_entitled_witness:
  "\<exists>l. mp_login (snd (preAuthLoop mongo_listener0 [plain_input] mongo_pre0)) = Some l
    \<and> mongo_entitled mongo_listener0 (stored_hashes (auth_db ''mongodb'')) True (auth_db ''mongodb'') [plain_input] plain_input l"
proof -
  obtain m where m: "parseOpMsg (msg_body (pi_message plain_input)) = Inr m" "commandBody m = Some [5, 0, 0, 0, 0]"
    using plain_command by (cases "parseOpMsg (msg_body (pi_message plain_input))") (simp_all add: command_of_def)
  have "dispatchPreAuth mongo_listener0 plain_input mongo_pre0 =
      handlePlainStart mongo_listener0 (pi_clock plain_input) True 7 [5, 0, 0, 0, 0] (mongo_pre0\<lparr>mp_authSource := ''prod''\<rparr>)"
    using m by (simp add: dispatchPreAuth_def dispatchPreAuthOpMsg_def Let_def handleSaslStart_def commandName_def lookupString_def is_hello_def
        plain_input_def mongo_listener0_def sasl_docs_def opCodeMsg_def opCodeQuery_def)
  also have "fst \<dots> = Inr True"
    using auth_check0 [of _ _ "''mongodb''" 2] plain_payload plain_split
    by (simp add: handlePlainStart_def mongo_listener0_def mongo_pre0_def plain_input_def mp_on_store_def verifyCredentials_def
        authorizeAndEstablish_def resolveDatabase_def Let_def auth_eval auth_cache0(1) case_prod_beta mongo_checkQuotas_def check_quotas_def IsZero_def
        reply_result_def mp_reply_def sasl_docs_def ProtocolMongoDB_def)
  finally have "fst (preAuthLoop mongo_listener0 [plain_input] mongo_pre0) = Inr ()"
    by (cases "dispatchPreAuth mongo_listener0 plain_input mongo_pre0") simp
  then have "preAuthLoop mongo_listener0 [plain_input] mongo_pre0 = (Inr (), snd (preAuthLoop mongo_listener0 [plain_input] mongo_pre0))"
    by (metis prod.collapse)
  from mongo_login_entitled [OF _ _ _ _ this, of "stored_hashes (auth_db ''mongodb'')"] auth_env0_ok auth_run0 auth_cache0(2) [of "''mongodb''"]
  show ?thesis by (auto simp: mongo_listener0_def mongo_pre0_def auth_cache0(1) earlier_def)
qed

end
