(* ===== verification/Dial.thy ===== *)
theory Dial
  imports Servers
begin

text \<open>
  \<open>internal/proxy/shared/dial.go\<close>: connections to a target, direct or through a chain of SSH
  bastions, with one pooled client per bastion and host keys pinned on first use. The network is
  a parameter that answers each operation by the number of operations before it; parsing a
  private key is another. Deadlines are not modelled: a dial that runs out of time fails.
\<close>

datatype dial_error =
    ErrSSHHostKeyMismatch
  | ErrBastionNotSSH
  | ErrNoSSHAuthMethod
  | ErrServerViaCycleDial
  | ErrLoadBastion store_error
  | ErrSecrets crypto_error
  | ErrParseKey
  | ErrReach
  | ErrHandshake
  | ErrPinHostKey store_error

text \<open>\<open>net_key\<close> is what \<open>ssh.MarshalAuthorizedKey\<close> prints for the key the peer presents.\<close>

record network =
  net_dial :: "nat \<Rightarrow> bool"
  net_key :: "nat \<Rightarrow> string"
  net_auth :: "nat \<Rightarrow> bool"

record dial_env =
  de_prims :: prims
  de_uuid_String :: "uuid \<Rightarrow> string"
  de_encryptionKey :: bytes
  de_parse_key :: "string \<Rightarrow> string \<Rightarrow> bool"
  de_net :: network

text \<open>A client remembers the key its peer has proved to hold.\<close>

record ssh_client =
  cl_id :: nat
  cl_key :: string

record dialer =
  dl_clients :: "uuid \<rightharpoonup> ssh_client"
  dl_db :: db
  dl_clock :: nat
  dl_closed :: "nat set"

definition NewDialer :: "db \<Rightarrow> nat \<Rightarrow> dialer" where
  "NewDialer st now = \<lparr>dl_clients = Map.empty, dl_db = st, dl_clock = now, dl_closed = {}\<rparr>"

definition drop_client :: "uuid \<Rightarrow> dialer \<Rightarrow> dialer" where
  "drop_client uid d =
     (case dl_clients d uid of None \<Rightarrow> d
      | Some c \<Rightarrow> d\<lparr>dl_closed := insert (cl_id c) (dl_closed d), dl_clients := (dl_clients d)(uid := None)\<rparr>)"

definition pool :: "uuid \<Rightarrow> ssh_client \<Rightarrow> dialer \<Rightarrow> dialer" where
  "pool uid client d =
     (let d1 = (case dl_clients d uid of None \<Rightarrow> d
        | Some existing \<Rightarrow> if existing \<noteq> client then d\<lparr>dl_closed := insert (cl_id existing) (dl_closed d)\<rparr> else d)
      in d1\<lparr>dl_clients := (dl_clients d1)(uid \<mapsto> client)\<rparr>)"

definition trimTrailingNewline :: "string \<Rightarrow> string" where
  "trimTrailingNewline s = (if length s > 0 \<and> last s = CHR 0x0A then butlast s else s)"

datatype auth_method = PublicKeys string string | Password string

definition sshAuthMethods :: "(string \<Rightarrow> string \<Rightarrow> bool) \<Rightarrow> server \<Rightarrow> dial_error + auth_method list" where
  "sshAuthMethods parse_key bastion =
     (case (case SSHData bastion of None \<Rightarrow> Inr []
        | Some sd \<Rightarrow>
            if sd_PrivateKey sd \<noteq> [] then
              if parse_key (sd_PrivateKey sd) (sd_Passphrase sd) then Inr [PublicKeys (sd_PrivateKey sd) (sd_Passphrase sd)] else Inl ErrParseKey
            else Inr []) of
        Inl e \<Rightarrow> Inl e
      | Inr ms \<Rightarrow>
          let methods = ms @ (if srv_Password bastion \<noteq> [] then [Password (srv_Password bastion)] else [])
          in if length methods = 0 then Inl ErrNoSSHAuthMethod else Inr methods)"

definition KnownHostKey :: "server \<Rightarrow> string" where
  "KnownHostKey bastion = (case SSHData bastion of None \<Rightarrow> [] | Some sd \<Rightarrow> sd_KnownHostKey sd)"

text \<open>The callback: the error it returns, or what it leaves in \<open>recorded\<close>.\<close>

definition hostKeyCallback :: "server \<Rightarrow> string \<Rightarrow> dial_error + string" where
  "hostKeyCallback bastion marshalled =
     (let presented = trimTrailingNewline marshalled; pinned = KnownHostKey bastion in
      if pinned = [] then Inr presented
      else if pinned \<noteq> presented then Inl ErrSSHHostKeyMismatch
      else Inr [])"

text \<open>\<open>nd.DialContext\<close> and \<open>client.DialContext\<close>.\<close>

definition dial_tcp :: "dial_env \<Rightarrow> dialer \<Rightarrow> bool \<times> dialer" where
  "dial_tcp E d = (net_dial (de_net E) (dl_clock d), d\<lparr>dl_clock := Suc (dl_clock d)\<rparr>)"

text \<open>The bastion with its secrets decrypted, or the error.\<close>

definition load_secrets :: "dial_env \<Rightarrow> server \<Rightarrow> dial_error + server" where
  "load_secrets E bastion =
     (case DecryptSSHSecrets (de_prims E) (de_uuid_String E) (de_encryptionKey E) bastion of Inl e \<Rightarrow> Inl (ErrSecrets e)
      | Inr b \<Rightarrow>
          if length (srv_PasswordEncrypted b) > 0 then
            (case DecryptPassword (de_prims E) (de_uuid_String E) (de_encryptionKey E) b of Inl e \<Rightarrow> Inl (ErrSecrets e) | Inr b' \<Rightarrow> Inr b')
          else Inr b)"

text \<open>The handshake on a raw connection, the pinning and the pooling.\<close>

definition connect_bastion :: "dial_env \<Rightarrow> uuid \<Rightarrow> server \<Rightarrow> dialer \<Rightarrow> (dial_error + ssh_client) \<times> dialer" where
  "connect_bastion E uid bastion d =
     (let now = dl_clock d; d1 = d\<lparr>dl_clock := Suc now\<rparr>; marshalled = net_key (de_net E) now in
      case hostKeyCallback bastion marshalled of Inl e \<Rightarrow> (Inl e, d1)
      | Inr recordedKey \<Rightarrow>
          if \<not> net_auth (de_net E) now then (Inl ErrHandshake, d1)
          else
            let client = \<lparr>cl_id = now, cl_key = trimTrailingNewline marshalled\<rparr> in
            if recordedKey \<noteq> [] \<and> KnownHostKey bastion = [] then
              (case SetKnownHostKey uid recordedKey (dl_db d1) of
                 (Inl e, st) \<Rightarrow> (Inl (ErrPinHostKey e), pool uid client (d1\<lparr>dl_db := st\<rparr>))
               | (Inr _, st) \<Rightarrow> (Inr client, pool uid client (d1\<lparr>dl_db := st\<rparr>)))
            else (Inr client, pool uid client d1))"

text \<open>The raw connection, direct or through the parent, and what follows it.\<close>

definition reach_bastion :: "dial_env \<Rightarrow> uuid \<Rightarrow> server \<Rightarrow> dialer \<Rightarrow> (dial_error + ssh_client) \<times> dialer" where
  "reach_bastion E uid bastion d = (case dial_tcp E d of (ok, d1) \<Rightarrow> if ok then connect_bastion E uid bastion d1 else (Inl ErrReach, d1))"

text \<open>Each level of the recursion marks a row that was not marked before. Dials run one after another: two first dials of a
  bastion at the same time, and updates of its row during a dial, are not executions of this model.\<close>

function sshClientFor :: "dial_env \<Rightarrow> uuid \<Rightarrow> uuid set \<Rightarrow> dialer \<Rightarrow> (dial_error + ssh_client) \<times> dialer" where
  "sshClientFor E uid seen d =
     (case dl_clients d uid of Some c \<Rightarrow> (Inr c, d)
      | None \<Rightarrow>
          if uid \<in> seen then (Inl ErrServerViaCycleDial, d)
          else case GetServerByUID uid (dl_db d) of
            (Inl e, st) \<Rightarrow> (Inl (ErrLoadBastion e), d\<lparr>dl_db := st\<rparr>)
          | (Inr row, st) \<Rightarrow>
              let d1 = d\<lparr>dl_db := st\<rparr> in
              if srv_Protocol row \<noteq> ProtocolSSH then (Inl ErrBastionNotSSH, d1)
              else case load_secrets E row of Inl e \<Rightarrow> (Inl e, d1)
              | Inr bastion \<Rightarrow>
                  (case sshAuthMethods (de_parse_key E) bastion of Inl e \<Rightarrow> (Inl e, d1)
                   | Inr auths \<Rightarrow>
                       (case srv_ViaUID row of
                          None \<Rightarrow> reach_bastion E uid bastion d1
                        | Some via \<Rightarrow>
                            (case sshClientFor E via (insert uid seen) d1 of (Inl e, d2) \<Rightarrow> (Inl e, d2)
                             | (Inr parent, d2) \<Rightarrow> reach_bastion E uid bastion d2))))"
  by pat_completeness auto

termination
proof (relation "measure (\<lambda>(E, uid, seen, d). card (set (map srv_UID (db_servers (dl_db d))) - seen))", goal_cases)
  case (2 E uid seen d x st row d1 bastion auths via)
  then have g: "GetServerByUID uid (dl_db d) = (Inr row, st)" by simp
  have "uid \<in> set (map srv_UID (db_servers (dl_db d))) - seen" "db_servers st = db_servers (dl_db d)"
    using 2 GetServerByUID_found [OF g] by (auto simp: same_tables_select)
  moreover have "card (A - insert uid seen) < card (A - seen)" if "uid \<in> A - seen" "finite A" for A :: "uuid set"
    by (rule psubset_card_mono) (use that in auto)
  ultimately show ?case using 2 by simp
qed simp

declare sshClientFor.simps [simp del]

text \<open>A connection to the target: direct, or through a client.\<close>

definition DialUpstream :: "dial_env \<Rightarrow> server \<Rightarrow> dialer \<Rightarrow> (dial_error + ssh_client option) \<times> dialer" where
  "DialUpstream E srv d =
     (case srv_ViaUID srv of
        None \<Rightarrow> (case dial_tcp E d of (ok, d1) \<Rightarrow> if ok then (Inr None, d1) else (Inl ErrReach, d1))
      | Some via \<Rightarrow>
          (case sshClientFor E via {} d of (Inl e, d1) \<Rightarrow> (Inl e, d1)
           | (Inr client, d1) \<Rightarrow>
               (case dial_tcp E d1 of (ok, d2) \<Rightarrow>
                  if ok then (Inr (Some client), d2)
                  else
                    (case sshClientFor E via {} (drop_client via d2) of (Inl e, d3) \<Rightarrow> (Inl e, d3)
                     | (Inr client', d3) \<Rightarrow>
                         (case dial_tcp E d3 of (ok', d4) \<Rightarrow> if ok' then (Inr (Some client'), d4) else (Inl ErrReach, d4))))))"

definition ConnectBastion :: "dial_env \<Rightarrow> uuid \<Rightarrow> dialer \<Rightarrow> (dial_error + ssh_client) \<times> dialer" where
  "ConnectBastion E uid d = sshClientFor E uid {} d"

definition Close :: "dialer \<Rightarrow> dialer" where
  "Close d = d\<lparr>dl_closed := dl_closed d \<union> cl_id ` ran (dl_clients d), dl_clients := Map.empty\<rparr>"

section \<open>Reasoning about a chain\<close>

lemma load_secrets_no_cycle: "load_secrets E b \<noteq> Inl ErrServerViaCycleDial"
  by (auto simp: load_secrets_def split: sum.splits)

lemma sshAuthMethods_no_cycle: "sshAuthMethods p b \<noteq> Inl ErrServerViaCycleDial"
  by (auto simp: sshAuthMethods_def Let_def split: option.splits sum.splits if_splits)

text \<open>The outcomes of \<open>sshClientFor\<close>: a pooled client, a failure before the network is used, a bastion reached
  directly, a bastion reached through its parent.\<close>

lemma client_induct [case_names pooled failed direct chained]:
  assumes pooled: "\<And>uid seen d c. dl_clients d uid = Some c \<Longrightarrow> P uid seen d (Inr c, d)"
    and failed: "\<And>uid seen d e st. dl_clients d uid = None \<Longrightarrow> same_tables (dl_db d) st \<Longrightarrow> (e = ErrServerViaCycleDial \<Longrightarrow> uid \<in> seen)
      \<Longrightarrow> P uid seen d (Inl e, d\<lparr>dl_db := st\<rparr>)"
    and direct: "\<And>uid seen d row st b. dl_clients d uid = None \<Longrightarrow> uid \<notin> seen \<Longrightarrow> GetServerByUID uid (dl_db d) = (Inr row, st) \<Longrightarrow>
      load_secrets E row = Inr b \<Longrightarrow> srv_ViaUID row = None \<Longrightarrow> P uid seen d (reach_bastion E uid b (d\<lparr>dl_db := st\<rparr>))"
    and chained: "\<And>uid seen d row st b v r d2. dl_clients d uid = None \<Longrightarrow> uid \<notin> seen \<Longrightarrow> GetServerByUID uid (dl_db d) = (Inr row, st) \<Longrightarrow>
      load_secrets E row = Inr b \<Longrightarrow> srv_ViaUID row = Some v \<Longrightarrow> P v (insert uid seen) (d\<lparr>dl_db := st\<rparr>) (r, d2) \<Longrightarrow>
      P uid seen d (case r of Inl e \<Rightarrow> (Inl e, d2) | Inr _ \<Rightarrow> reach_bastion E uid b d2)"
  shows "P uid seen d (sshClientFor E uid seen d)"
proof -
  have "E' = E \<Longrightarrow> P uid seen d (sshClientFor E' uid seen d)" for E'
  proof (induction E' uid seen d rule: sshClientFor.induct)
    case (1 E' uid seen d)
    note E = 1(2)
    obtain r st where g: "GetServerByUID uid (dl_db d) = (r, st)" by fastforce
    have same: "same_tables (dl_db d) st" using GetServerByUID_same [of "dl_db d" uid] g by simp
    note unf = sshClientFor.simps [of E uid seen d]
    show ?case
    proof (cases "dl_clients d uid")
      case (Some c)
      then show ?thesis using pooled [OF Some] by (simp add: E unf)
    next
      case none: None
      note fail = failed [OF none same]
      show ?thesis
      proof (cases "uid \<in> seen")
        case True
        then show ?thesis using failed [OF none same_tables_refl, of ErrServerViaCycleDial seen] by (simp add: E unf none)
      next
        case ns: False
        show ?thesis
        proof (cases r)
          case (Inl e)
          then show ?thesis using fail [of "ErrLoadBastion e" seen] g by (simp add: E unf none ns)
        next
          case (Inr row)
          have IH: "P v (insert uid seen) (d\<lparr>dl_db := st\<rparr>) (sshClientFor E v (insert uid seen) (d\<lparr>dl_db := st\<rparr>))"
            if "srv_Protocol row = ProtocolSSH" "load_secrets E row = Inr b" "sshAuthMethods (de_parse_key E) b = Inr as" "srv_ViaUID row = Some v" for b as v
            using 1(1) [OF none ns g [symmetric] Inr refl _ that(2) [folded E] that(3) [folded E] that(4) E] that(1) E by simp
          note unf' = unf [unfolded none g Inr, simplified ns, simplified]
          consider "srv_Protocol row \<noteq> ProtocolSSH"
            | e where "srv_Protocol row = ProtocolSSH" "load_secrets E row = Inl e"
            | b e where "srv_Protocol row = ProtocolSSH" "load_secrets E row = Inr b" "sshAuthMethods (de_parse_key E) b = Inl e"
            | b as where "srv_Protocol row = ProtocolSSH" "load_secrets E row = Inr b" "sshAuthMethods (de_parse_key E) b = Inr as"
            by (metis sum.exhaust)
          then show ?thesis
          proof cases
            case 1
            then show ?thesis using fail [of ErrBastionNotSSH seen] by (simp add: E unf' Let_def)
          next
            case 2
            then show ?thesis using fail [of e seen] load_secrets_no_cycle [of E row] by (auto simp: E unf' Let_def)
          next
            case 3
            then show ?thesis using fail [of e seen] sshAuthMethods_no_cycle [of "de_parse_key E" b] by (auto simp: E unf' Let_def)
          next
            case 4
            show ?thesis
            proof (cases "srv_ViaUID row")
              case None
              then show ?thesis using 4 direct [OF none ns g [unfolded Inr] 4(2) None] by (simp add: E unf' Let_def)
            next
              case (Some v)
              obtain r2 d2 where rd: "sshClientFor E v (insert uid seen) (d\<lparr>dl_db := st\<rparr>) = (r2, d2)" by fastforce
              then show ?thesis
                using 4 Some chained [OF none ns g [unfolded Inr] 4(2) Some IH [OF 4 Some, unfolded rd]] by (cases r2) (simp_all add: E unf' Let_def)
            qed
          qed
        qed
      qed
    qed
  qed
  then show ?thesis by simp
qed

section \<open>The chain ends\<close>

lemma reach_bastion_no_cycle: "fst (reach_bastion E uid b d) \<noteq> Inl ErrServerViaCycleDial"
  by (auto simp: reach_bastion_def dial_tcp_def connect_bastion_def hostKeyCallback_def Let_def split: sum.splits prod.splits if_splits)

text \<open>Every marked row leads to the current one.\<close>

lemma client_no_cycle:
  "acyclic (via_edges (db_servers (dl_db d))) \<Longrightarrow> (\<And>x. x \<in> seen \<Longrightarrow> (x, uid) \<in> (via_edges (db_servers (dl_db d)))\<^sup>+) \<Longrightarrow>
     fst (sshClientFor E uid seen d) \<noteq> Inl ErrServerViaCycleDial"
proof (induction rule: client_induct [where E = E])
  case (failed uid seen d e st)
  then show ?case by (auto simp: acyclic_def)
next
  case (chained uid seen d row st b v r d2)
  let ?e = "via_edges (db_servers (dl_db d))"
  note f = GetServerByUID_found [OF \<open>GetServerByUID uid (dl_db d) = (Inr row, st)\<close>]
  have "(uid, v) \<in> ?e" using f(2,3) chained(5) by (auto simp: via_edges_iff)
  then have "(x, v) \<in> ?e\<^sup>+" if "x \<in> insert uid seen" for x using that chained(8) by (auto intro: trancl_into_trancl)
  then show ?case using chained(6,7) f(1) reach_bastion_no_cycle by (auto simp: same_tables_select split: sum.split)
qed (simp_all add: reach_bastion_no_cycle)

section \<open>Host keys\<close>

lemma load_secrets_known: "load_secrets E row = Inr b \<Longrightarrow> KnownHostKey b = KnownHostKey row"
  by (auto simp: load_secrets_def DecryptSSHSecrets_def DecryptPassword_def KnownHostKey_def SSHData_def set_ssh_def Let_def
      split: sum.splits option.splits if_splits)

text \<open>The rows of a bastion are pinned to a key, and so is its pooled client.\<close>

definition pinned_to :: "uuid \<Rightarrow> string \<Rightarrow> dialer \<Rightarrow> bool" where
  "pinned_to b K d \<longleftrightarrow> list_all (\<lambda>s. srv_UID s = b \<and> live_server s \<longrightarrow> KnownHostKey s = K) (db_servers (dl_db d))
     \<and> (case dl_clients d b of None \<Rightarrow> True | Some c \<Rightarrow> cl_key c = K)"

lemma pinned_to_same: "same_tables (dl_db d) st \<Longrightarrow> pinned_to b K (d\<lparr>dl_db := st\<rparr>) = pinned_to b K d"
  by (simp add: pinned_to_def same_tables_select)

lemma SetKnownHostKey_rows:
  "list_all (\<lambda>s. srv_UID s = b \<and> live_server s \<longrightarrow> P s) (db_servers st) \<Longrightarrow> uid \<noteq> b \<Longrightarrow>
     list_all (\<lambda>s. srv_UID s = b \<and> live_server s \<longrightarrow> P s) (db_servers (snd (SetKnownHostKey uid k st)))"
  by (auto simp: SetKnownHostKey_def update_pk_def write_stmt_def stmt_def Let_def list_all_iff set_update_where split: list.splits if_splits)

lemma SetKnownHostKey_pins:
  "SetKnownHostKey uid k st = (Inr x, st') \<Longrightarrow> list_all (\<lambda>s. srv_UID s = uid \<and> live_server s \<longrightarrow> KnownHostKey s = k) (db_servers st')"
proof -
  assume a: "SetKnownHostKey uid k st = (Inr x, st')"
  from write_stmt_Inr [OF a [unfolded SetKnownHostKey_def update_pk_def]] obtain st1 where st1:
    "st' = st1\<lparr>db_servers := update_where (\<lambda>s. srv_UID s = uid \<and> live_server s) (\<lambda>s. let d = protocol_data_of s in
       s\<lparr>srv_ProtocolData := Some (d\<lparr>sp_SSH := Some ((ssh_of d)\<lparr>sd_KnownHostKey := k\<rparr>)\<rparr>)\<rparr>) (db_servers st1)\<rparr>" by (simp, blast)
  show ?thesis unfolding st1 by (auto simp: list_all_iff ball_update_where KnownHostKey_def SSHData_def Let_def)
qed

lemma pool_simps [simp]: "dl_clients (pool uid c d) = (dl_clients d)(uid \<mapsto> c)" "dl_db (pool uid c d) = dl_db d"
  by (auto simp: pool_def Let_def split: option.splits)

lemma drop_simps [simp]: "dl_clients (drop_client uid d) = (dl_clients d)(uid := None)" "dl_db (drop_client uid d) = dl_db d"
  by (auto simp: drop_client_def split: option.splits)

lemma connect_pinned:
  assumes "pinned_to b K d" and "uid = b \<Longrightarrow> KnownHostKey bastion = K" and "K \<noteq> []"
  shows "pinned_to b K (snd (connect_bastion E uid bastion d))"
proof (cases "uid = b")
  case True
  then show ?thesis using assms
    by (auto simp: connect_bastion_def hostKeyCallback_def pinned_to_def Let_def split: sum.splits prod.splits if_splits option.splits)
next
  case False
  have rows: "list_all (\<lambda>s. srv_UID s = b \<and> live_server s \<longrightarrow> KnownHostKey s = K) (db_servers (snd (SetKnownHostKey uid k (dl_db d))))" for k
    using SetKnownHostKey_rows [OF _ False, of "\<lambda>s. KnownHostKey s = K"] assms(1) by (simp add: pinned_to_def)
  show ?thesis using assms(1) False rows
    by (simp add: connect_bastion_def pinned_to_def Let_def case_prod_beta split: sum.split option.split)
qed

lemma reach_pinned:
  assumes "pinned_to b K d" and "uid = b \<Longrightarrow> KnownHostKey bastion = K" and "K \<noteq> []"
  shows "pinned_to b K (snd (reach_bastion E uid bastion d))"
  using assms connect_pinned [of b K "d\<lparr>dl_clock := Suc (dl_clock d)\<rparr>" uid bastion E]
  by (auto simp: reach_bastion_def dial_tcp_def pinned_to_def)

lemma found_pinned: "pinned_to b K d \<Longrightarrow> GetServerByUID b (dl_db d) = (Inr row, st) \<Longrightarrow> KnownHostKey row = K"
  using GetServerByUID_found [of b "dl_db d" row st] by (auto simp: pinned_to_def list_all_iff)

lemma client_pinned:
  assumes "K \<noteq> []"
  shows "pinned_to b K d \<longrightarrow> pinned_to b K (snd (sshClientFor E uid seen d))"
proof (induction rule: client_induct [where E = E and P = "\<lambda>uid seen d r. pinned_to b K d \<longrightarrow> pinned_to b K (snd r)"])
  case (direct uid seen d row st bastion)
  show ?case
  proof
    assume d: "pinned_to b K d"
    have "pinned_to b K (d\<lparr>dl_db := st\<rparr>)" using d GetServerByUID_found(1) [OF \<open>GetServerByUID uid (dl_db d) = (Inr row, st)\<close>] by (simp add: pinned_to_same)
    then show "pinned_to b K (snd (reach_bastion E uid bastion (d\<lparr>dl_db := st\<rparr>)))"
      by (rule reach_pinned) (use assms found_pinned [OF d] \<open>GetServerByUID uid (dl_db d) = (Inr row, st)\<close> load_secrets_known [OF \<open>load_secrets E row = Inr bastion\<close>] in auto)
  qed
next
  case (chained uid seen d row st bastion v r d2)
  show ?case
  proof
    assume d: "pinned_to b K d"
    have "pinned_to b K d2" using d chained GetServerByUID_found(1) [OF \<open>GetServerByUID uid (dl_db d) = (Inr row, st)\<close>] by (simp add: pinned_to_same)
    then show "pinned_to b K (snd (case r of Inl e \<Rightarrow> (Inl e, d2) | Inr _ \<Rightarrow> reach_bastion E uid bastion d2))"
      using reach_pinned [OF _ _ assms, of b d2 uid bastion E] found_pinned [OF d] \<open>GetServerByUID uid (dl_db d) = (Inr row, st)\<close> load_secrets_known [OF \<open>load_secrets E row = Inr bastion\<close>]
      by (auto split: sum.split)
  qed
qed (simp_all add: pinned_to_same)

lemma connect_pooled: "fst (connect_bastion E uid b d) = Inr c \<Longrightarrow> dl_clients (snd (connect_bastion E uid b d)) uid = Some c"
  by (auto simp: connect_bastion_def Let_def split: sum.splits prod.splits if_splits)

lemma client_pooled: "fst (sshClientFor E uid seen d) = Inr c \<longrightarrow> dl_clients (snd (sshClientFor E uid seen d)) uid = Some c"
  by (induction rule: client_induct [where E = E and P = "\<lambda>uid seen d r. fst r = Inr c \<longrightarrow> dl_clients (snd r) uid = Some c"])
    (auto simp: reach_bastion_def connect_pooled split: sum.splits prod.splits if_splits)

text \<open>A dial through a bastion uses a client that \<open>sshClientFor\<close> returned, at once or after a reconnection.\<close>

lemma dial_via:
  assumes "srv_ViaUID srv = Some v" and keep: "\<And>x n. I x \<Longrightarrow> I (x\<lparr>dl_clock := n\<rparr>)" "\<And>x. I x \<Longrightarrow> I (drop_client v x)"
    "\<And>x. I x \<Longrightarrow> I (snd (sshClientFor E v {} x))" and "I d"
  shows "I (snd (DialUpstream E srv d)) \<and> (fst (DialUpstream E srv d) = Inr (Some c) \<longrightarrow> (\<exists>x. I x \<and> fst (sshClientFor E v {} x) = Inr c))"
proof -
  obtain r1 d1 where s1: "sshClientFor E v {} d = (r1, d1)" by fastforce
  have I1: "I d1" using keep(3) [OF assms(5)] s1 by simp
  let ?d2 = "d1\<lparr>dl_clock := Suc (dl_clock d1)\<rparr>"
  obtain r3 d3 where s3: "sshClientFor E v {} (drop_client v ?d2) = (r3, d3)" by fastforce
  have I3: "I d3" "I (drop_client v ?d2)" using keep(3) [of "drop_client v ?d2"] keep(1,2) I1 s3 by auto
  show ?thesis
  proof (cases r1)
    case (Inl e)
    then show ?thesis using I1 by (simp add: DialUpstream_def assms(1) s1)
  next
    case r1: (Inr c1)
    show ?thesis
    proof (cases "net_dial (de_net E) (dl_clock d1)")
      case True
      then show ?thesis using I1 keep(1) s1 r1 assms(5) by (auto simp: DialUpstream_def assms(1) dial_tcp_def intro!: exI [of _ d])
    next
      case False
      then show ?thesis using I3 keep(1) s1 r1 s3
        by (cases r3) (auto simp: DialUpstream_def assms(1) dial_tcp_def intro!: exI [of _ "drop_client v ?d2"])
    qed
  qed
qed

lemma dial_pinned:
  assumes "K \<noteq> []" and "pinned_to b K d"
  shows "pinned_to b K (snd (DialUpstream E srv d))"
    and "srv_ViaUID srv = Some b \<Longrightarrow> fst (DialUpstream E srv d) = Inr (Some c) \<Longrightarrow> cl_key c = K"
proof -
  have tick: "pinned_to b K x \<Longrightarrow> pinned_to b K (x\<lparr>dl_clock := n\<rparr>)" "pinned_to b K x \<Longrightarrow> pinned_to b K (drop_client v x)" for x n v
    by (simp_all add: pinned_to_def split: option.splits)
  note via = dial_via [where I = "pinned_to b K", OF _ tick client_pinned [OF assms(1), THEN mp] assms(2)]
  show "pinned_to b K (snd (DialUpstream E srv d))"
    using via assms(2) by (cases "srv_ViaUID srv") (auto simp: DialUpstream_def dial_tcp_def tick)
  show "cl_key c = K" if s: "srv_ViaUID srv = Some b" "fst (DialUpstream E srv d) = Inr (Some c)"
  proof -
    obtain x where "pinned_to b K x" "fst (sshClientFor E b {} x) = Inr c" using via [OF s(1)] s(2) by blast
    then show ?thesis using client_pinned [OF assms(1), of b x E b "{}"] client_pooled by (fastforce simp: pinned_to_def)
  qed
qed


text \<open>While a bastion is being dialled its parents leave its row and its entry in the pool alone.\<close>

definition rows_of_uid :: "uuid \<Rightarrow> dialer \<Rightarrow> server list" where
  "rows_of_uid b d = filter (\<lambda>s. srv_UID s = b) (db_servers (dl_db d))"

lemma SetKnownHostKey_filter:
  "uid \<noteq> b \<Longrightarrow> filter (\<lambda>s. srv_UID s = b) (db_servers (snd (SetKnownHostKey uid k st))) = filter (\<lambda>s. srv_UID s = b) (db_servers st)"
proof -
  assume "uid \<noteq> b"
  then have "filter (\<lambda>s. srv_UID s = b) (update_where (\<lambda>s. srv_UID s = uid \<and> live_server s) (\<lambda>s. s\<lparr>srv_ProtocolData := f s\<rparr>) rows)
      = filter (\<lambda>s. srv_UID s = b) rows" for f and rows :: "server list"
    by (induction rows) (auto simp: update_where_def)
  then show ?thesis by (simp add: SetKnownHostKey_def update_pk_def write_stmt_def stmt_def Let_def split: list.split)
qed

lemma reach_frame:
  "uid \<noteq> b \<Longrightarrow> dl_clients (snd (reach_bastion E uid x d)) b = dl_clients d b \<and> rows_of_uid b (snd (reach_bastion E uid x d)) = rows_of_uid b d"
  using SetKnownHostKey_filter [of uid b _ "dl_db d"]
  by (simp add: reach_bastion_def dial_tcp_def connect_bastion_def rows_of_uid_def Let_def case_prod_beta split: sum.split)

lemma client_frame:
  "b \<in> seen \<and> dl_clients d b = None \<longrightarrow> dl_clients (snd (sshClientFor E uid seen d)) b = None \<and> rows_of_uid b (snd (sshClientFor E uid seen d)) = rows_of_uid b d"
proof (induction rule: client_induct [where E = E and
    P = "\<lambda>uid seen d r. b \<in> seen \<and> dl_clients d b = None \<longrightarrow> dl_clients (snd r) b = None \<and> rows_of_uid b (snd r) = rows_of_uid b d"])
  case (failed uid seen d e st)
  then show ?case by (simp add: rows_of_uid_def same_tables_select)
next
  case (direct uid seen d row st x)
  then have "b \<in> seen \<longrightarrow> uid \<noteq> b" "rows_of_uid b (d\<lparr>dl_db := st\<rparr>) = rows_of_uid b d"
    using GetServerByUID_found(1) [of uid "dl_db d" row st] by (auto simp: rows_of_uid_def same_tables_select)
  then show ?case using reach_frame [of uid b E x "d\<lparr>dl_db := st\<rparr>"] by auto
next
  case (chained uid seen d row st x v r d2)
  then have "b \<in> seen \<longrightarrow> uid \<noteq> b" "rows_of_uid b (d\<lparr>dl_db := st\<rparr>) = rows_of_uid b d"
    using GetServerByUID_found(1) [of uid "dl_db d" row st] by (auto simp: rows_of_uid_def same_tables_select)
  then show ?case using reach_frame [of uid b E x d2] chained by (auto split: sum.split)
qed simp

lemma pinned_to_rows: "pinned_to b K d \<longleftrightarrow> list_all (\<lambda>s. live_server s \<longrightarrow> KnownHostKey s = K) (rows_of_uid b d)
     \<and> (case dl_clients d b of None \<Rightarrow> True | Some c \<Rightarrow> cl_key c = K)"
  by (auto simp: pinned_to_def rows_of_uid_def list_all_iff)

lemma reach_pins:
  assumes "reach_bastion E b x d = (Inr c, d')" and "cl_key c \<noteq> []" and "list_all (\<lambda>s. live_server s \<longrightarrow> KnownHostKey s = KnownHostKey x) (rows_of_uid b d)"
  shows "pinned_to b (cl_key c) d'"
proof -
  let ?k = "net_key (de_net E) (Suc (dl_clock d))"
  have "hostKeyCallback x ?k \<noteq> Inl e" for e using assms(1)
    by (auto simp: reach_bastion_def dial_tcp_def connect_bastion_def Let_def split: if_splits)
  then obtain rk where rk: "hostKeyCallback x ?k = Inr rk" by (metis sum.exhaust)
  have c: "cl_key c = trimTrailingNewline ?k" using assms(1) rk
    by (auto simp: reach_bastion_def dial_tcp_def connect_bastion_def Let_def split: if_splits prod.splits sum.splits)
  show ?thesis
  proof (cases "KnownHostKey x = []")
    case True
    then have "rk = cl_key c" using rk c by (simp add: hostKeyCallback_def Let_def)
    then show ?thesis using assms(1,2) rk True
      by (auto simp: reach_bastion_def dial_tcp_def connect_bastion_def Let_def pinned_to_def dest!: SetKnownHostKey_pins
          split: if_splits prod.splits sum.splits)
  next
    case False
    then have "KnownHostKey x = cl_key c" "rk = []" using rk c by (auto simp: hostKeyCallback_def Let_def split: if_splits)
    then show ?thesis using assms(1,3) rk False
      by (auto simp: reach_bastion_def dial_tcp_def connect_bastion_def Let_def pinned_to_rows rows_of_uid_def split: if_splits)
  qed
qed

lemma client_pins:
  assumes d: "distinct (map srv_UID (db_servers (dl_db d)))" and none: "dl_clients d b = None"
    and ok: "sshClientFor E b {} d = (Inr c, d')" and key: "cl_key c \<noteq> []"
  shows "pinned_to b (cl_key c) d'"
proof -
  have rows: "list_all (\<lambda>s. live_server s \<longrightarrow> KnownHostKey s = KnownHostKey x) (rows_of_uid b d)"
    if "GetServerByUID b (dl_db d) = (Inr row, st)" "load_secrets E row = Inr x" for row st x
    using GetServerByUID_found [OF that(1)] distinct_map_eq [OF d] load_secrets_known [OF that(2)]
    by (auto simp: list_all_iff rows_of_uid_def)
  obtain r st where g: "GetServerByUID b (dl_db d) = (r, st)" by fastforce
  from ok g none obtain row where r: "r = Inr row" by (cases r) (auto simp: sshClientFor.simps [of E b])
  note f = GetServerByUID_found [OF g [unfolded r]]
  from ok g none r obtain x where x: "load_secrets E row = Inr x"
    by (cases "load_secrets E row") (auto simp: sshClientFor.simps [of E b] Let_def split: if_splits)
  have same: "rows_of_uid b (d\<lparr>dl_db := st\<rparr>) = rows_of_uid b d" using f(1) by (simp add: rows_of_uid_def same_tables_select)
  from ok g none r x consider "reach_bastion E b x (d\<lparr>dl_db := st\<rparr>) = (Inr c, d')"
    | v p d2 where "sshClientFor E v {b} (d\<lparr>dl_db := st\<rparr>) = (Inr p, d2)" "reach_bastion E b x d2 = (Inr c, d')"
    by (auto simp: sshClientFor.simps [of E b] Let_def split: if_splits sum.splits option.splits prod.splits)
  then show ?thesis
  proof cases
    case 1
    then show ?thesis using reach_pins [OF 1 key] rows [OF g [unfolded r] x] same by simp
  next
    case 2
    have "rows_of_uid b d2 = rows_of_uid b d" using client_frame [of b "{b}" "d\<lparr>dl_db := st\<rparr>" E v] 2(1) none same by simp
    then show ?thesis using reach_pins [OF 2(2) key] rows [OF g [unfolded r] x] by simp
  qed
qed


section \<open>Results\<close>

lemma dials_pinned: "K \<noteq> [] \<Longrightarrow> pinned_to b K d \<Longrightarrow> pinned_to b K (fold (\<lambda>s d. snd (DialUpstream E s d)) srvs d)"
  by (induction srvs arbitrary: d) (simp_all add: dial_pinned(1))

text \<open>C24. Trust on first use: after a bastion was connected once, however often it is reconnected, through
  whatever targets, every connection it carries is with a peer that presented the same host key.\<close>

theorem host_key_trusted_once:
  assumes "distinct (map srv_UID (db_servers (dl_db d)))" and "dl_clients d b = None"
    and "ConnectBastion E b d = (Inr c, d1)" and "cl_key c \<noteq> []" and "srv_ViaUID s = Some b"
    and "fst (DialUpstream E s (fold (\<lambda>s d. snd (DialUpstream E s d)) srvs d1)) = Inr (Some c')"
  shows "cl_key c' = cl_key c"
  using dial_pinned(2) [OF assms(4) dials_pinned [OF assms(4) client_pins [OF assms(1,2,3) [unfolded ConnectBastion_def] assms(4)]] assms(5,6)] .

text \<open>A dial over the rows that the store keeps never runs into a cycle, and the network decides nothing
  about that.\<close>

theorem dial_never_cycles:
  assumes "servers_ok storage (db_servers (dl_db d))"
  shows "fst (ConnectBastion E uid d) \<noteq> Inl ErrServerViaCycleDial"
  unfolding ConnectBastion_def using servers_okD(5) [OF assms] by (intro client_no_cycle) auto

text \<open>When the host key cannot be stored the client is pooled and the call fails all the same; the next
  call is served by that client with no key pinned.\<close>

theorem failed_pin_reported_once:
  assumes "KnownHostKey bastion = []" and "trimTrailingNewline (net_key (de_net E) (dl_clock d)) \<noteq> []" and "net_auth (de_net E) (dl_clock d)"
    and "SetKnownHostKey uid (trimTrailingNewline (net_key (de_net E) (dl_clock d))) (dl_db d) = (Inl e, st)"
  shows "\<exists>d1. connect_bastion E uid bastion d = (Inl (ErrPinHostKey e), d1)
    \<and> sshClientFor E uid {} d1 = (Inr \<lparr>cl_id = dl_clock d, cl_key = trimTrailingNewline (net_key (de_net E) (dl_clock d))\<rparr>, d1)"
  using assms by (simp add: connect_bastion_def hostKeyCallback_def Let_def sshClientFor.simps)

section \<open>Witnesses\<close>

definition sample_net :: "string \<Rightarrow> dial_env" where
  "sample_net k = \<lparr>de_prims = sample_prims, de_uuid_String = (\<lambda>_. ''u''), de_encryptionKey = replicate 32 9, de_parse_key = (\<lambda>_ _. True),
     de_net = \<lparr>net_dial = (\<lambda>_. True), net_key = (\<lambda>_. k), net_auth = (\<lambda>_. True)\<rparr>\<rparr>"

definition sample_bastion :: server where
  "sample_bastion = (sample_server ''jump'' ''b1'' ''ssh'' None)\<lparr>srv_UID := 1, srv_ProtocolData := None\<rparr>"

definition sample_dialer :: dialer where
  "sample_dialer = NewDialer (empty_db\<lparr>db_servers := [sample_bastion]\<rparr>) 0"

lemmas dial_eval = sample_dialer_def NewDialer_def sample_net_def sample_bastion_def sample_server_def empty_db_def ConnectBastion_def
  sshClientFor.simps [of _ 1] GetServerByUID_def read_stmt_def load_secrets_def DecryptSSHSecrets_def SSHData_def ProtocolSSH_def
  sshAuthMethods_def reach_bastion_def dial_tcp_def connect_bastion_def hostKeyCallback_def KnownHostKey_def trimTrailingNewline_def
  SetKnownHostKey_def update_pk_def write_stmt_def stmt_def update_where_def protocol_data_of_def ssh_of_def pool_def Let_def DialUpstream_def

theorem host_key_trusted_once_witness:
  "cl_key (projr (fst (ConnectBastion (sample_net ''k'') 1 sample_dialer))) = ''k''
   \<and> cl_key (the (projr (fst (DialUpstream (sample_net ''k'') (sample_server ''t'' ''h'' ''postgresql'' (Some 1)) (snd (ConnectBastion (sample_net ''k'') 1 sample_dialer)))))) = ''k''"
proof -
  let ?E = "sample_net ''k''" and ?s = "sample_server ''t'' ''h'' ''postgresql'' (Some 1)"
  have c: "\<exists>d1. ConnectBastion ?E 1 sample_dialer = (Inr \<lparr>cl_id = 1, cl_key = ''k''\<rparr>, d1)" by (simp add: dial_eval)
  then obtain d1 where d1: "ConnectBastion ?E 1 sample_dialer = (Inr \<lparr>cl_id = 1, cl_key = ''k''\<rparr>, d1)" ..
  have "dl_clients d1 1 = Some \<lparr>cl_id = 1, cl_key = ''k''\<rparr>" using d1 client_pooled [of ?E 1 "{}" sample_dialer] by (simp add: ConnectBastion_def)
  then have "\<exists>c'. fst (DialUpstream ?E ?s d1) = Inr (Some c')"
    by (simp add: DialUpstream_def sample_server_def sshClientFor.simps dial_tcp_def sample_net_def)
  then obtain c' where c': "fst (DialUpstream ?E ?s d1) = Inr (Some c')" ..
  have "distinct (map srv_UID (db_servers (dl_db sample_dialer)))" "dl_clients sample_dialer 1 = None"
    by (simp_all add: sample_dialer_def NewDialer_def empty_db_def)
  from host_key_trusted_once [OF this d1, of ?s "[]" c'] show ?thesis using d1 c' by (simp add: sample_server_def)
qed

theorem dial_never_cycles_witness: "fst (ConnectBastion (sample_net ''k'') 1 (NewDialer empty_db 0)) \<noteq> Inl ErrServerViaCycleDial"
  by (rule dial_never_cycles [of sample_storage]) (simp add: servers_ok_def empty_db_def via_edges_def acyclic_def NewDialer_def)

theorem failed_pin_reported_once_witness:
  "\<exists>d1. connect_bastion (sample_net ''k'') 1 sample_bastion (NewDialer (empty_db\<lparr>db_faults := [True]\<rparr>) 0) = (Inl (ErrPinHostKey ErrDB), d1)
    \<and> sshClientFor (sample_net ''k'') 1 {} d1 = (Inr \<lparr>cl_id = 0, cl_key = ''k''\<rparr>, d1)"
  using failed_pin_reported_once [of sample_bastion "sample_net ''k''" "NewDialer (empty_db\<lparr>db_faults := [True]\<rparr>) 0" 1 ErrDB]
  by (simp add: NewDialer_def sample_net_def sample_bastion_def KnownHostKey_def SSHData_def trimTrailingNewline_def SetKnownHostKey_def update_pk_def
      write_stmt_def stmt_def)

end
