(* ===== verification/Grant_Api.thy ===== *)
theory Grant_Api
  imports Grant_Store User_Groups Revocation
begin

text \<open>
  \<open>internal/api/grants.go\<close> and \<open>grant_requests.go\<close>: the handlers that create, list and
  revoke grants and that file, decide and cancel grant requests. A handler maps its inputs (the
  bound body or the binding error of gin, the parsed path parameter, the current user of the
  authentication middleware) and the server's state to a response and a new state. The state is
  the database, the revocation registry with the heap of its flags, and the notifications sent.
  Identifiers the database generates and the clock are arguments. The Slack lookups of an
  interactive notifier are left out.
\<close>

section \<open>Responses\<close>

datatype ErrorCode = ErrCodeInternalError | ErrCodeValidationError | ErrCodeNotFound | ErrCodeForbidden | ErrCodeConflict

datatype payload =
    PGrant access_grant
  | PGrants "access_grant list"
  | PRequest grant_request
  | PRequests "grant_request list"
  | PApproved grant_request access_grant
  | PMessage string

datatype response = Success payload | Failure int ErrorCode string

definition writeInternalError :: response where
  "writeInternalError = Failure 500 ErrCodeInternalError ''An internal error occurred. Please try again.''"

section \<open>State\<close>

datatype GrantAction = GrantActionCreated | GrantActionApproved | GrantActionDenied | GrantActionCancelled

record grant_event =
  ev_Action :: GrantAction
  ev_Request :: grant_request
  ev_Decider :: "user option"
  ev_Definition :: "grant_definition option"
  ev_Server :: "server option"
  ev_Requester :: "user option"

record api_state =
  as_db :: db
  as_registry :: "registry option"
  as_heap :: heap
  as_notifier :: bool
  as_notified :: "grant_event list"

text \<open>Running a store operation inside a handler.\<close>

definition with_db :: "(db \<Rightarrow> 'r \<times> db) \<Rightarrow> api_state \<Rightarrow> 'r \<times> api_state" where
  "with_db f s = (let (r, d) = f (as_db s) in (r, s\<lparr>as_db := d\<rparr>))"

definition notifyAsync :: "grant_event \<Rightarrow> api_state \<Rightarrow> api_state" where
  "notifyAsync ev s = (if as_notifier s then s\<lparr>as_notified := as_notified s @ [ev]\<rparr> else s)"

definition right :: "'a + 'b \<Rightarrow> 'b option" where
  "right r = (case r of Inl _ \<Rightarrow> None | Inr x \<Rightarrow> Some x)"

definition loadEventContext ::
  "GrantAction \<Rightarrow> grant_request \<Rightarrow> user option \<Rightarrow> api_state \<Rightarrow> grant_event \<times> api_state" where
  "loadEventContext action req decider s =
     (let (def, s1) = with_db (GetGrantDefinition (gr_GrantDefinitionID req)) s;
          (srv, s2) = with_db (GetServerByUID (gr_DatabaseID req)) s1;
          (usr, s3) = with_db (GetUserByUID (gr_UserID req)) s2
      in (\<lparr>ev_Action = action, ev_Request = req, ev_Decider = decider, ev_Definition = right def,
           ev_Server = right srv, ev_Requester = right usr\<rparr>, s3))"

definition notify_about :: "GrantAction \<Rightarrow> grant_request \<Rightarrow> user option \<Rightarrow> api_state \<Rightarrow> api_state" where
  "notify_about action req decider s =
     (let (ev, s1) = loadEventContext action req decider s in notifyAsync ev s1)"

text \<open>An audit event, whose own failure is ignored.\<close>

definition audit ::
  "string \<Rightarrow> uuid option \<Rightarrow> uuid option \<Rightarrow> (string \<times> detail) list \<Rightarrow> time \<Rightarrow> api_state \<Rightarrow> api_state" where
  "audit ty userID performedBy details now s =
     snd (with_db (LogAuditEvent \<lparr>al_EventType = ty, al_UserID = userID, al_PerformedBy = performedBy,
       al_Details = details, al_CreatedAt = now\<rparr> now) s)"

section \<open>\<open>grants.go\<close>\<close>

record create_grant_body =
  cg_UserID :: uuid
  cg_DatabaseID :: uuid
  cg_Controls :: "string list"
  cg_StartsAt :: time
  cg_ExpiresAt :: time
  cg_MaxQueryCounts :: "int option"
  cg_MaxBytesTransferred :: "int option"

fun first_invalid_control :: "string list \<Rightarrow> string option" where
  "first_invalid_control [] = None"
| "first_invalid_control (c # cs) =
     (if any_eq ValidControls c then first_invalid_control cs else Some c)"

text \<open>The target must not be an SSH bastion; a failed lookup does not stop the handler.\<close>

definition target_is_ssh :: "store_error + server \<Rightarrow> bool" where
  "target_is_ssh r = (case r of Inl _ \<Rightarrow> False | Inr s \<Rightarrow> IsSSH s)"

definition handleCreateGrant ::
  "string + create_grant_body \<Rightarrow> user \<Rightarrow> uuid \<Rightarrow> time \<Rightarrow> api_state \<Rightarrow> response \<times> api_state" where
  "handleCreateGrant bound currentUser newUID now s =
     (case bound of Inl err \<Rightarrow> (Failure 400 ErrCodeValidationError (''invalid request: '' @ err), s)
      | Inr req \<Rightarrow>
     case first_invalid_control (cg_Controls req) of
       Some c \<Rightarrow> (Failure 400 ErrCodeValidationError (''invalid control: '' @ c), s)
     | None \<Rightarrow>
     if \<not> cg_StartsAt req < cg_ExpiresAt req
     then (Failure 400 ErrCodeValidationError ''starts_at must be before expires_at'', s)
     else
     let (target, s1) = with_db (GetServerByUID (cg_DatabaseID req)) s in
     if target_is_ssh target then (Failure 400 ErrCodeValidationError ''cannot grant access to an ssh server'', s1)
     else
     let grant = \<lparr>ag_UID = uuid_Nil, ag_UserID = cg_UserID req, ag_DatabaseID = cg_DatabaseID req,
           ag_Controls = cg_Controls req, ag_GrantedBy = usr_UID currentUser, ag_StartsAt = cg_StartsAt req,
           ag_ExpiresAt = cg_ExpiresAt req, ag_RevokedAt = None, ag_RevokedBy = None,
           ag_MaxQueryCounts = cg_MaxQueryCounts req, ag_MaxBytesTransferred = cg_MaxBytesTransferred req,
           ag_CreatedAt = zero_time, ag_QueryCount = 0, ag_BytesTransferred = 0\<rparr>;
         (res, s2) = with_db (CreateGrant grant newUID now) s1 in
     case res of Inl _ \<Rightarrow> (writeInternalError, s2)
     | Inr result \<Rightarrow>
         (Success (PGrant result),
          audit ''grant.created'' (Some (ag_UserID result)) (Some (usr_UID currentUser))
            [(''grant_uid'', DUUID (ag_UID result)), (''user_id'', DUUID (ag_UserID result)),
             (''database_id'', DUUID (ag_DatabaseID result)), (''controls'', DStrs (ag_Controls result)),
             (''starts_at'', DTime (ag_StartsAt result)), (''expires_at'', DTime (ag_ExpiresAt result))] now s2))"

text \<open>\<open>uuid.Parse\<close> of a query parameter is the parameter \<open>P\<close>.\<close>

definition query_uid :: "(string \<Rightarrow> uuid option) \<Rightarrow> string \<Rightarrow> uuid option" where
  "query_uid P q = (if q = [] then None else P q)"

definition handleListGrants ::
  "(string \<Rightarrow> uuid option) \<Rightarrow> string \<Rightarrow> string \<Rightarrow> string \<Rightarrow> user \<Rightarrow> time \<Rightarrow> api_state \<Rightarrow> response \<times> api_state" where
  "handleListGrants P userID databaseID active_only currentUser now s =
     (let f = \<lparr>gf_UserID = query_uid P userID, gf_DatabaseID = query_uid P databaseID,
               gf_ActiveOnly = (active_only = ''true'')\<rparr>;
          f' = (if \<not> IsAdmin currentUser \<and> \<not> IsViewer currentUser
                then f\<lparr>gf_UserID := Some (usr_UID currentUser)\<rparr> else f);
          (res, s1) = with_db (ListGrants f' now) s
      in case res of Inl _ \<Rightarrow> (writeInternalError, s1) | Inr gs \<Rightarrow> (Success (PGrants gs), s1))"

definition handleGetGrant :: "uuid option \<Rightarrow> user \<Rightarrow> api_state \<Rightarrow> response \<times> api_state" where
  "handleGetGrant param currentUser s =
     (case param of None \<Rightarrow> (Failure 400 ErrCodeValidationError ''invalid grant UID'', s)
      | Some uid \<Rightarrow>
        let (res, s1) = with_db (GetGrantByUID uid) s in
        case res of Inl _ \<Rightarrow> (Failure 404 ErrCodeNotFound ''grant not found'', s1)
        | Inr grant \<Rightarrow>
            if \<not> IsAdmin currentUser \<and> \<not> IsViewer currentUser \<and> ag_UserID grant \<noteq> usr_UID currentUser
            then (Failure 403 ErrCodeForbidden ''no access to this grant'', s1)
            else (Success (PGrant grant), s1))"

definition handleRevokeGrant :: "uuid option \<Rightarrow> user \<Rightarrow> time \<Rightarrow> api_state \<Rightarrow> response \<times> api_state" where
  "handleRevokeGrant param currentUser now s =
     (case param of None \<Rightarrow> (Failure 400 ErrCodeValidationError ''invalid grant UID'', s)
      | Some uid \<Rightarrow>
        let (res, s1) = with_db (RevokeGrant uid (usr_UID currentUser) now) s in
        case res of Inl _ \<Rightarrow> (writeInternalError, s1)
        | Inr _ \<Rightarrow>
            let s2 = s1\<lparr>as_heap := snd (Revoke (as_registry s1) uid (as_heap s1))\<rparr>;
                (grant, s3) = with_db (GetGrantByUID uid) s2
            in (Success (PMessage ''grant revoked''),
                audit ''grant.revoked'' (map_option ag_UserID (right grant)) (Some (usr_UID currentUser))
                  [(''grant_uid'', DUUID uid)] now s3))"

section \<open>\<open>grant_requests.go\<close>\<close>

definition maxJustificationLen :: nat where "maxJustificationLen = 1000"

record create_request_body =
  cr_GrantDefinitionID :: uuid
  cr_DatabaseID :: uuid
  cr_Justification :: string

text \<open>\<open>None\<close>: the scope covers the request.\<close>

definition enforceRequestScope ::
  "grant_definition \<Rightarrow> user \<Rightarrow> uuid \<Rightarrow> api_state \<Rightarrow> response option \<times> api_state" where
  "enforceRequestScope def requester databaseID s =
     (let (res, s1) = with_db (ListUserGroupUIDs (usr_UID requester)) s in
      case res of Inl _ \<Rightarrow> (Some writeInternalError, s1)
      | Inr groupUIDs \<Rightarrow>
          if \<not> AppliesToGroups def groupUIDs
          then (Some (Failure 403 ErrCodeForbidden ''this grant definition is not available to your user groups''), s1)
          else if \<not> AppliesToDatabase def databaseID
          then (Some (Failure 403 ErrCodeForbidden ''this grant definition cannot be requested for this database''), s1)
          else (None, s1))"

datatype decisionSource = decisionSourceWeb | decisionSourceSlack | decisionSourceAutoApprove

fun via :: "decisionSource \<Rightarrow> (string \<times> detail) list" where
  "via decisionSourceWeb = []"
| "via decisionSourceSlack = [(''via'', DStr ''slack'')]"
| "via decisionSourceAutoApprove = [(''via'', DStr ''auto_approve'')]"

definition decisionDetails :: "(string \<times> detail) list \<Rightarrow> decisionSource \<Rightarrow> (string \<times> detail) list" where
  "decisionDetails base source = base @ via source"

datatype api_error = StoreErr store_error | ErrRequestOutOfScope

definition autoApproveGrantRequest ::
  "grant_request \<Rightarrow> user \<Rightarrow> uuid \<Rightarrow> time \<Rightarrow> api_state \<Rightarrow> (store_error + grant_request \<times> access_grant) \<times> api_state" where
  "autoApproveGrantRequest request requester newUID now s =
     (let (res, s1) = with_db (AutoApproveGrantRequest (gr_UID request) (usr_UID requester) newUID now now) s in
      case res of Inl e \<Rightarrow> (Inl e, s1)
      | Inr (grant, updated) \<Rightarrow>
          let s2 = audit ''grant_request.approved'' (Some (gr_UserID updated)) None
                (decisionDetails [(''grant_request_uid'', DUUID (gr_UID updated)),
                  (''resulting_grant_id'', DUUID (ag_UID grant))] decisionSourceAutoApprove) now s1
          in (Inr (updated, grant), notify_about GrantActionApproved updated None s2))"

text \<open>The tail of the creation handler, once the request row exists.\<close>

definition request_created ::
  "grant_definition \<Rightarrow> grant_request \<Rightarrow> user \<Rightarrow> uuid \<Rightarrow> time \<Rightarrow> api_state \<Rightarrow> response \<times> api_state" where
  "request_created def created currentUser newGrant now s =
     (let s1 = audit ''grant_request.created'' (Some (usr_UID currentUser)) (Some (usr_UID currentUser))
            [(''grant_request_uid'', DUUID (gr_UID created)),
             (''grant_definition_id'', DUUID (gr_GrantDefinitionID created)),
             (''database_id'', DUUID (gr_DatabaseID created))] now s in
      if gd_AutoApprove def then
        (case autoApproveGrantRequest created currentUser newGrant now s1 of
           (Inl _, s2) \<Rightarrow> (Success (PRequest created), notify_about GrantActionCreated created None s2)
         | (Inr (updated, _), s2) \<Rightarrow> (Success (PRequest updated), s2))
      else (Success (PRequest created), notify_about GrantActionCreated created None s1))"

definition handleCreateGrantRequest ::
  "string + create_request_body \<Rightarrow> user \<Rightarrow> uuid \<Rightarrow> uuid \<Rightarrow> time \<Rightarrow> api_state \<Rightarrow> response \<times> api_state" where
  "handleCreateGrantRequest bound currentUser newUID newGrant now s =
     (case bound of Inl err \<Rightarrow> (Failure 400 ErrCodeValidationError (''invalid request: '' @ err), s)
      | Inr req \<Rightarrow>
     if length (cr_Justification req) > maxJustificationLen
     then (Failure 400 ErrCodeValidationError ''justification too long'', s)
     else
     let (dres, s1) = with_db (GetGrantDefinition (cr_GrantDefinitionID req)) s in
     case dres of
       Inl e \<Rightarrow> (if e = ErrGrantDefinitionNotFound
                 then Failure 400 ErrCodeValidationError ''grant_definition_id does not exist''
                 else writeInternalError, s1)
     | Inr def \<Rightarrow>
     if \<not> gd_IsActive def then (Failure 400 ErrCodeValidationError ''grant definition is not active'', s1)
     else if gd_AutoApprove def \<and> cr_Justification req = []
     then (Failure 400 ErrCodeValidationError ''justification is required for auto-approved grant definitions'', s1)
     else
     let (blocked, s2) = enforceRequestScope def currentUser (cr_DatabaseID req) s1 in
     case blocked of Some r \<Rightarrow> (r, s2)
     | None \<Rightarrow>
     let (target, s3) = with_db (GetServerByUID (cr_DatabaseID req)) s2 in
     if target_is_ssh target then (Failure 400 ErrCodeValidationError ''cannot request access to an ssh server'', s3)
     else
     let (pend, s4) = with_db (HasPendingRequest (usr_UID currentUser) (cr_GrantDefinitionID req) (cr_DatabaseID req)) s3 in
     case pend of Inl _ \<Rightarrow> (writeInternalError, s4)
     | Inr True \<Rightarrow>
         (Failure 409 ErrCodeConflict ''a pending request already exists for this database and definition'', s4)
     | Inr False \<Rightarrow>
     let (cres, s5) = with_db (CreateGrantRequest (usr_UID currentUser) (cr_GrantDefinitionID req) (cr_DatabaseID req)
           (cr_Justification req) newUID now) s4 in
     case cres of Inl _ \<Rightarrow> (writeInternalError, s5)
     | Inr created \<Rightarrow> request_created def created currentUser newGrant now s5)"

definition handleListGrantRequests ::
  "(string \<Rightarrow> uuid option) \<Rightarrow> string \<Rightarrow> GrantRequestStatus option \<Rightarrow> string \<Rightarrow> user \<Rightarrow> api_state
   \<Rightarrow> response \<times> api_state" where
  "handleListGrantRequests P userID status databaseID currentUser s =
     (let f = \<lparr>rf_UserID = (if \<not> IsAdmin currentUser then Some (usr_UID currentUser) else query_uid P userID),
               rf_DatabaseID = query_uid P databaseID, rf_Status = status, rf_Limit = 0, rf_Offset = 0\<rparr>;
          (res, s1) = with_db (ListGrantRequests f) s
      in case res of Inl _ \<Rightarrow> (writeInternalError, s1) | Inr rs \<Rightarrow> (Success (PRequests rs), s1))"

definition handleGetGrantRequest :: "uuid option \<Rightarrow> user \<Rightarrow> api_state \<Rightarrow> response \<times> api_state" where
  "handleGetGrantRequest param currentUser s =
     (case param of None \<Rightarrow> (Failure 400 ErrCodeValidationError ''invalid grant request UID'', s)
      | Some uid \<Rightarrow>
        let (res, s1) = with_db (GetGrantRequest uid) s in
        case res of
          Inl e \<Rightarrow> (if e = ErrGrantRequestNotFound then Failure 404 ErrCodeNotFound ''grant request not found''
                    else writeInternalError, s1)
        | Inr req \<Rightarrow>
            if \<not> IsAdmin currentUser \<and> gr_UserID req \<noteq> usr_UID currentUser
            then (Failure 403 ErrCodeForbidden ''no access to this grant request'', s1)
            else (Success (PRequest req), s1))"

text \<open>Any error of the first two lookups, not only a missing row, counts as in scope.\<close>

definition checkRequestInScope :: "uuid \<Rightarrow> api_state \<Rightarrow> api_error option \<times> api_state" where
  "checkRequestInScope uid s =
     (case with_db (GetGrantRequest uid) s of (Inl _, s1) \<Rightarrow> (None, s1)
      | (Inr request, s1) \<Rightarrow>
     case with_db (GetGrantDefinition (gr_GrantDefinitionID request)) s1 of (Inl _, s2) \<Rightarrow> (None, s2)
      | (Inr def, s2) \<Rightarrow>
     case with_db (ListUserGroupUIDs (gr_UserID request)) s2 of (Inl e, s3) \<Rightarrow> (Some (StoreErr e), s3)
      | (Inr groupUIDs, s3) \<Rightarrow>
          (if \<not> AppliesTo def groupUIDs (gr_DatabaseID request) then Some ErrRequestOutOfScope else None, s3))"

definition approveGrantRequest ::
  "uuid \<Rightarrow> user \<Rightarrow> decisionSource \<Rightarrow> uuid \<Rightarrow> time \<Rightarrow> api_state
   \<Rightarrow> (api_error + grant_request \<times> access_grant) \<times> api_state" where
  "approveGrantRequest uid decider source newUID now s =
     (case checkRequestInScope uid s of (Some e, s1) \<Rightarrow> (Inl e, s1)
      | (None, s1) \<Rightarrow>
        case with_db (ApproveGrantRequest uid (usr_UID decider) newUID now now) s1 of
          (Inl e, s2) \<Rightarrow> (Inl (StoreErr e), s2)
        | (Inr (grant, request), s2) \<Rightarrow>
            let s3 = audit ''grant_request.approved'' (Some (gr_UserID request)) (Some (usr_UID decider))
                  (decisionDetails [(''grant_request_uid'', DUUID (gr_UID request)),
                    (''resulting_grant_id'', DUUID (ag_UID grant))] source) now s2
            in (Inr (request, grant), notify_about GrantActionApproved request (Some decider) s3))"

definition denyGrantRequest ::
  "uuid \<Rightarrow> user \<Rightarrow> string \<Rightarrow> decisionSource \<Rightarrow> time \<Rightarrow> api_state \<Rightarrow> (store_error + grant_request) \<times> api_state" where
  "denyGrantRequest uid decider reason source now s =
     (case with_db (DenyGrantRequest uid (usr_UID decider) reason now) s of
        (Inl e, s1) \<Rightarrow> (Inl e, s1)
      | (Inr updated, s1) \<Rightarrow>
          let s2 = audit ''grant_request.denied'' (Some (gr_UserID updated)) (Some (usr_UID decider))
                (decisionDetails [(''grant_request_uid'', DUUID (gr_UID updated)), (''reason'', DStr reason)] source) now s1
          in (Inr updated, notify_about GrantActionDenied updated (Some decider) s2))"

fun approve_failure :: "api_error \<Rightarrow> response" where
  "approve_failure (StoreErr ErrGrantRequestNotFound) = Failure 404 ErrCodeNotFound ''grant request not found''"
| "approve_failure (StoreErr ErrInvalidTransition) = Failure 409 ErrCodeConflict ''grant request is not pending''"
| "approve_failure (StoreErr ErrDefinitionInactive) = Failure 409 ErrCodeConflict ''grant definition is no longer active''"
| "approve_failure ErrRequestOutOfScope =
     Failure 409 ErrCodeConflict ''the grant definition's scope no longer covers this user or database''"
| "approve_failure _ = writeInternalError"

definition handleApproveGrantRequest ::
  "uuid option \<Rightarrow> user \<Rightarrow> uuid \<Rightarrow> time \<Rightarrow> api_state \<Rightarrow> response \<times> api_state" where
  "handleApproveGrantRequest param currentUser newUID now s =
     (case param of None \<Rightarrow> (Failure 400 ErrCodeValidationError ''invalid grant request UID'', s)
      | Some uid \<Rightarrow>
        case approveGrantRequest uid currentUser decisionSourceWeb newUID now s of
          (Inl e, s1) \<Rightarrow> (approve_failure e, s1)
        | (Inr (request, grant), s1) \<Rightarrow> (Success (PApproved request grant), s1))"

definition handleDenyGrantRequest :: "uuid option \<Rightarrow> string \<Rightarrow> user \<Rightarrow> time \<Rightarrow> api_state \<Rightarrow> response \<times> api_state" where
  "handleDenyGrantRequest param reason currentUser now s =
     (case param of None \<Rightarrow> (Failure 400 ErrCodeValidationError ''invalid grant request UID'', s)
      | Some uid \<Rightarrow>
        case denyGrantRequest uid currentUser reason decisionSourceWeb now s of
          (Inl e, s1) \<Rightarrow>
            (if e = ErrGrantRequestNotFound then Failure 404 ErrCodeNotFound ''grant request not found''
             else if e = ErrInvalidTransition then Failure 409 ErrCodeConflict ''grant request is not pending''
             else writeInternalError, s1)
        | (Inr request, s1) \<Rightarrow> (Success (PRequest request), s1))"

definition handleCancelGrantRequest :: "uuid option \<Rightarrow> user \<Rightarrow> time \<Rightarrow> api_state \<Rightarrow> response \<times> api_state" where
  "handleCancelGrantRequest param currentUser now s =
     (case param of None \<Rightarrow> (Failure 400 ErrCodeValidationError ''invalid grant request UID'', s)
      | Some uid \<Rightarrow>
        case with_db (GetGrantRequest uid) s of
          (Inl e, s1) \<Rightarrow>
            (if e = ErrGrantRequestNotFound then Failure 404 ErrCodeNotFound ''grant request not found''
             else writeInternalError, s1)
        | (Inr existing, s1) \<Rightarrow>
            if \<not> IsAdmin currentUser \<and> gr_UserID existing \<noteq> usr_UID currentUser
            then (Failure 403 ErrCodeForbidden ''only the requester or an admin can cancel'', s1)
            else
            case with_db (CancelGrantRequest uid (usr_UID currentUser) now) s1 of
              (Inl e, s2) \<Rightarrow>
                (if e = ErrInvalidTransition then Failure 409 ErrCodeConflict ''grant request is not pending''
                 else writeInternalError, s2)
            | (Inr updated, s2) \<Rightarrow>
                let s3 = audit ''grant_request.cancelled'' (Some (gr_UserID updated)) (Some (usr_UID currentUser))
                      [(''grant_request_uid'', DUUID (gr_UID updated))] now s2
                in (Success (PRequest updated), notify_about GrantActionCancelled updated (Some currentUser) s3))"

section \<open>Effects of the parts\<close>

lemma with_db_no_faults [simp]: "db_faults (as_db s) = [] \<Longrightarrow> with_db (read_stmt f) s = (f (as_db s), s)"
  by (simp add: with_db_def read_stmt_def)

lemma faults_irrelevant [simp]:
  "find_request uid (st\<lparr>db_faults := fs\<rparr>) = find_request uid st"
  "find_definition uid (st\<lparr>db_faults := fs\<rparr>) = find_definition uid st"
  "grant_insertable (st\<lparr>db_faults := fs\<rparr>) g = grant_insertable st g"
  "user_exists (st\<lparr>db_faults := fs\<rparr>) u = user_exists st u"
  by (simp_all add: find_request_def find_definition_def grant_insertable_def user_exists_def server_exists_def)

lemma with_db_eq: "with_db f s = (r, s') \<longleftrightarrow> f (as_db s) = (r, as_db s') \<and> s' = s\<lparr>as_db := as_db s'\<rparr>"
  by (auto simp: with_db_def split: prod.splits)

definition same_data :: "api_state \<Rightarrow> api_state \<Rightarrow> bool" where
  "same_data s s' \<longleftrightarrow> same_tables (as_db s) (as_db s')"

lemma same_data_refl [simp]: "same_data s s"
  by (simp add: same_data_def)

lemma same_data_trans: "same_data a b \<Longrightarrow> same_data b c \<Longrightarrow> same_data a c"
  by (auto simp: same_data_def intro: same_tables_trans)

text \<open>The lookups of the handlers, each with what its success says of the tables.\<close>

lemma lookups:
  "with_db (GetGrantDefinition u) s = (r, s1) \<Longrightarrow> same_data s s1 \<and>
     (case r of Inl e \<Rightarrow> True | Inr d \<Rightarrow> find_definition u (as_db s) = Some d)"
  "with_db (GetGrantRequest u) s = (r', s1) \<Longrightarrow> same_data s s1 \<and>
     (case r' of Inl e \<Rightarrow> True | Inr q \<Rightarrow> find_request u (as_db s) = Some q)"
  "with_db (GetServerByUID u) s = (r'', s1) \<Longrightarrow> same_data s s1"
  "with_db (GetUserByUID u) s = (r3, s1) \<Longrightarrow> same_data s s1"
  "with_db (ListUserGroupUIDs u) s = (r4, s1) \<Longrightarrow> same_data s s1 \<and>
     (case r4 of Inl e \<Rightarrow> True | Inr gs \<Rightarrow> gs = map fst (filter (\<lambda>(g, x). x = u) (db_members (as_db s))))"
  by (auto simp: with_db_eq same_data_def GetGrantDefinition_def GetGrantRequest_def GetServerByUID_def
      GetUserByUID_def ListUserGroupUIDs_def same_tables_select
      dest: read_stmt_same read_stmt_Inr split: sum.splits option.splits)

definition has_pending :: "uuid \<Rightarrow> uuid \<Rightarrow> uuid \<Rightarrow> db \<Rightarrow> bool" where
  "has_pending u d b st \<longleftrightarrow> (\<exists>r\<in>set (db_requests st). gr_UserID r = u \<and>
     gr_GrantDefinitionID r = d \<and> gr_DatabaseID r = b \<and> gr_Status r = GrantRequestPending)"

lemma HasPendingRequest_effect:
  assumes "with_db (HasPendingRequest u d b) s = (r, s1)"
  shows "same_data s s1" and "r = Inr p \<Longrightarrow> p = has_pending u d b (as_db s)"
proof -
  have e: "HasPendingRequest u d b (as_db s) = (r, as_db s1)" using assms by (simp add: with_db_eq)
  then show same: "same_data s s1" by (auto simp: same_data_def HasPendingRequest_def dest: read_stmt_same)
  show "p = has_pending u d b (as_db s)" if "r = Inr p"
  proof -
    have "db_requests (as_db s1) = db_requests (as_db s)"
      using same by (simp add: same_data_def same_tables_select)
    with read_stmt_Inr [OF e [unfolded HasPendingRequest_def that]] show ?thesis
      by (auto simp: has_pending_def filter_empty_conv)
  qed
qed

definition same_grants_requests :: "api_state \<Rightarrow> api_state \<Rightarrow> bool" where
  "same_grants_requests s s' \<longleftrightarrow> db_grants (as_db s') = db_grants (as_db s) \<and> db_requests (as_db s') = db_requests (as_db s)"

lemma same_data_gr: "same_data s s' \<Longrightarrow> same_grants_requests s s'"
  by (simp add: same_data_def same_grants_requests_def same_tables_select)

lemma sgr_trans [trans]: "same_grants_requests a b \<Longrightarrow> same_grants_requests b c \<Longrightarrow> same_grants_requests a c"
  by (simp add: same_grants_requests_def)

lemma sgr_refl [simp]: "same_grants_requests s s"
  by (simp add: same_grants_requests_def)

lemma audit_effect:
  "same_grants_requests s (audit ty u p d now s)" "as_heap (audit ty u p d now s) = as_heap s"
  "as_registry (audit ty u p d now s) = as_registry s"
proof -
  obtain r s' where w: "with_db (LogAuditEvent \<lparr>al_EventType = ty, al_UserID = u, al_PerformedBy = p,
       al_Details = d, al_CreatedAt = now\<rparr> now) s = (r, s')" by force
  then have e: "LogAuditEvent \<lparr>al_EventType = ty, al_UserID = u, al_PerformedBy = p,
       al_Details = d, al_CreatedAt = now\<rparr> now (as_db s) = (r, as_db s')" "s' = s\<lparr>as_db := as_db s'\<rparr>"
    by (auto simp: with_db_eq)
  have "db_grants (as_db s') = db_grants (as_db s) \<and> db_requests (as_db s') = db_requests (as_db s)"
  proof (cases r)
    case (Inl x)
    then show ?thesis using e(1) by (auto simp: LogAuditEvent_def same_tables_select dest!: write_stmt_Inl)
  next
    case (Inr x)
    with e(1) obtain st1 row where st1: "same_tables (as_db s) st1" "st1\<lparr>db_audit := row\<rparr> = as_db s'"
      by (auto simp: LogAuditEvent_def dest!: write_stmt_Inr)
    show ?thesis unfolding st1(2) [symmetric] using st1(1) by (simp add: same_tables_select)
  qed
  then show "same_grants_requests s (audit ty u p d now s)" using w by (simp add: audit_def same_grants_requests_def)
  show "as_heap (audit ty u p d now s) = as_heap s" "as_registry (audit ty u p d now s) = as_registry s"
    using w e(2) by (simp_all add: audit_def) (metis api_state.ext_inject api_state.surjective api_state.update_convs(1))+
qed

lemma notify_effect: "same_grants_requests s (notify_about a q d s)"
proof -
  obtain r1 s1 r2 s2 r3 s3 where w: "with_db (GetGrantDefinition (gr_GrantDefinitionID q)) s = (r1, s1)"
    "with_db (GetServerByUID (gr_DatabaseID q)) s1 = (r2, s2)" "with_db (GetUserByUID (gr_UserID q)) s2 = (r3, s3)"
    by (metis surj_pair)
  have "same_data s s3" using lookups(1) [OF w(1)] lookups(3) [OF w(2)] lookups(4) [OF w(3)] same_data_trans by blast
  then show ?thesis
    using same_data_gr [of s s3] w
    by (simp add: notify_about_def loadEventContext_def notifyAsync_def same_grants_requests_def)
qed

definition groups_of :: "user \<Rightarrow> db \<Rightarrow> uuid list" where
  "groups_of u st = map fst (filter (\<lambda>(g, x). x = usr_UID u) (db_members st))"

lemma enforceRequestScope_effect:
  assumes "enforceRequestScope def u d s = (b, s1)"
  shows "same_data s s1" and "b = None \<Longrightarrow> AppliesTo def (groups_of u (as_db s)) d"
  using assms by (auto simp: enforceRequestScope_def groups_of_def AppliesTo_def Let_def
      dest!: lookups(5) split: prod.splits sum.splits if_splits)

section \<open>Filing a request\<close>

definition request_admissible :: "string + create_request_body \<Rightarrow> user \<Rightarrow> db \<Rightarrow> bool" where
  "request_admissible bound u st \<longleftrightarrow> (\<exists>req def. bound = Inr req \<and>
     find_definition (cr_GrantDefinitionID req) st = Some def \<and> gd_IsActive def \<and>
     (gd_AutoApprove def \<longrightarrow> cr_Justification req \<noteq> []) \<and>
     AppliesTo def (groups_of u st) (cr_DatabaseID req) \<and>
     \<not> has_pending (usr_UID u) (cr_GrantDefinitionID req) (cr_DatabaseID req) st)"

lemma create_request_guarded:
  assumes "handleCreateGrantRequest bound u newUID newGrant now s = (resp, s')"
  shows "same_grants_requests s s' \<or> request_admissible bound u (as_db s)"
proof (rule ccontr)
  assume "\<not> (same_grants_requests s s' \<or> request_admissible bound u (as_db s))"
  then have ch: "\<not> same_data s s'" "s' \<noteq> s" and na: "\<not> request_admissible bound u (as_db s)"
    using same_data_gr by auto
  obtain req where b: "bound = Inr req" using assms ch(2) by (cases bound) (auto simp: handleCreateGrantRequest_def)
  have len: "\<not> length (cr_Justification req) > maxJustificationLen"
    using assms ch(2) by (auto simp: handleCreateGrantRequest_def b)
  obtain dres s1 where d: "with_db (GetGrantDefinition (cr_GrantDefinitionID req)) s = (dres, s1)" by force
  note d' = lookups(1) [OF d]
  obtain def where def: "dres = Inr def" using assms ch(1) d' len
    by (cases dres) (auto simp: handleCreateGrantRequest_def b d)
  have act: "gd_IsActive def" "gd_AutoApprove def \<longrightarrow> cr_Justification req \<noteq> []"
    using assms ch(1) d' len by (auto simp: handleCreateGrantRequest_def b d def split: if_splits)
  obtain bl s2 where sc: "enforceRequestScope def u (cr_DatabaseID req) s1 = (bl, s2)" by force
  note sc' = enforceRequestScope_effect [OF sc]
  have s2: "same_data s s2" using d' sc'(1) same_data_trans by blast
  have bl: "bl = None" using assms ch(1) s2 len act
    by (cases bl) (auto simp: handleCreateGrantRequest_def b d def sc)
  obtain tgt s3 where t: "with_db (GetServerByUID (cr_DatabaseID req)) s2 = (tgt, s3)" by force
  have s3: "same_data s s3" using s2 lookups(3) [OF t] same_data_trans by blast
  have ssh: "\<not> target_is_ssh tgt" using assms ch(1) s3 len act
    by (auto simp: handleCreateGrantRequest_def b d def sc bl t)
  obtain pend s4 where p: "with_db (HasPendingRequest (usr_UID u) (cr_GrantDefinitionID req) (cr_DatabaseID req)) s3 = (pend, s4)"
    by force
  note p' = HasPendingRequest_effect [OF p]
  have s4: "same_data s s4" using s3 p'(1) same_data_trans by blast
  have "pend = Inr False"
  proof (cases pend)
    case (Inl e)
    then show ?thesis using assms ch(1) s4 len act ssh
      by (auto simp: handleCreateGrantRequest_def b d def sc bl t p)
  next
    case (Inr x)
    then show ?thesis using assms ch(1) s4 len act ssh
      by (cases x) (auto simp: handleCreateGrantRequest_def b d def sc bl t p)
  qed
  then have "\<not> has_pending (usr_UID u) (cr_GrantDefinitionID req) (cr_DatabaseID req) (as_db s)"
    using p'(2) s3 by (auto simp: same_data_def has_pending_def same_tables_select)
  moreover have "AppliesTo def (groups_of u (as_db s)) (cr_DatabaseID req)"
    using sc'(2) bl same_tables_select(9) [OF conjunct1 [OF d', unfolded same_data_def]] by (simp add: groups_of_def)
  ultimately show False using na b d' def act by (auto simp: request_admissible_def)
qed

lemma approve_failure_not_success [simp]: "approve_failure e \<noteq> Success p"
  by (cases e rule: approve_failure.cases) (simp_all add: writeInternalError_def)

section \<open>Visibility\<close>

lemma populate_all_users:
  "populate_all gs st = (Inr gs', st') \<Longrightarrow> map ag_UserID gs' = map ag_UserID gs"
  by (induction gs arbitrary: st gs' st') (auto simp: and_then_Inr dest!: populate_Inr(1))

lemma ListGrants_user:
  assumes "ListGrants f now st = (Inr gs, st')" and "gf_UserID f = Some u" and "g \<in> set gs"
  shows "ag_UserID g = u"
proof -
  obtain s1 where "populate_all (newest_first (filter (\<lambda>g. eq_opt (gf_UserID f) (ag_UserID g) \<and>
      eq_opt (gf_DatabaseID f) (ag_DatabaseID g) \<and> (gf_ActiveOnly f \<longrightarrow> grant_active now g)) (db_grants s1))) s1 = (Inr gs, st')"
    using assms(1) by (auto simp: ListGrants_def and_then_Inr dest!: read_stmt_Inr)
  then have "set (map ag_UserID gs) = ag_UserID ` {g \<in> set (db_grants s1). eq_opt (gf_UserID f) (ag_UserID g) \<and>
      eq_opt (gf_DatabaseID f) (ag_DatabaseID g) \<and> (gf_ActiveOnly f \<longrightarrow> grant_active now g)}"
    by (simp add: populate_all_users newest_first_def del: set_map flip: set_map) (simp add: newest_first_def)
  moreover have "ag_UserID g \<in> set (map ag_UserID gs)" using assms(3) by simp
  ultimately show ?thesis using assms(2) by (auto simp: eq_opt_def)
qed

section \<open>Properties\<close>

text \<open>C7. The scope gate holds on every path, the automatic approval included: if filing a
  request changes the requests or the grants at all, then the definition existed and was active,
  its group and database scope covered the requester, an automatic definition got its
  justification, and no equal request was pending; whatever statements fail on the way.\<close>

theorem request_scope_enforced:
  assumes "handleCreateGrantRequest bound u newUID newGrant now s = (resp, s')"
    and "\<not> same_grants_requests s s'"
  shows "request_admissible bound u (as_db s)"
  using create_request_guarded [OF assms(1)] assms(2) by blast

definition sample_api :: api_state where
  "sample_api = \<lparr>as_db = sample_db\<lparr>db_requests := [], db_members := [(9, 1)],
       db_definitions := [(hd (db_definitions sample_db))\<lparr>gd_GroupUIDs := [9], gd_AutoApprove := True\<rparr>]\<rparr>,
     as_registry = Some NewRevocationRegistry, as_heap = empty_heap, as_notifier = True, as_notified = []\<rparr>"

definition sample_user :: user where
  "sample_user = hd (db_users sample_db)"

definition sample_body :: create_request_body where
  "sample_body = \<lparr>cr_GrantDefinitionID = 3, cr_DatabaseID = 2, cr_Justification = ''incident''\<rparr>"

theorem request_scope_enforced_witness: "request_admissible (Inr sample_body) sample_user (as_db sample_api)"
proof (rule request_scope_enforced)
  let ?r = "handleCreateGrantRequest (Inr sample_body) sample_user 6 7 100 sample_api"
  show "?r = (fst ?r, snd ?r)" by simp
  have "length (db_grants (as_db (snd ?r))) = 1 \<and> length (db_grants (as_db sample_api)) = 0" by code_simp
  then show "\<not> same_grants_requests sample_api (snd ?r)" by (auto simp: same_grants_requests_def)
qed

text \<open>C8. Without database faults an approval through the API stays in scope: the approved
  request's user and database were covered by the definition's scope as it was at approval.\<close>

theorem approval_in_scope:
  assumes "handleApproveGrantRequest (Some uid) u newUID now s = (Success p, s')" and "db_faults (as_db s) = []"
  shows "\<exists>req def. find_request uid (as_db s) = Some req \<and>
    find_definition (gr_GrantDefinitionID req) (as_db s) = Some def \<and>
    AppliesTo def (map fst (filter (\<lambda>(g, x). x = gr_UserID req) (db_members (as_db s)))) (gr_DatabaseID req)"
proof -
  obtain c s1 where c: "checkRequestInScope uid s = (c, s1)" by force
  have cn: "c = None" and ok: "\<exists>x. with_db (ApproveGrantRequest uid (usr_UID u) newUID now now) s1 = (Inr x, snd (with_db (ApproveGrantRequest uid (usr_UID u) newUID now now) s1))"
    using assms(1) c by (auto simp: handleApproveGrantRequest_def approveGrantRequest_def
        split: option.splits prod.splits sum.splits)
  have s1: "same_data s s1"
    using c assms(2) by (auto simp: checkRequestInScope_def GetGrantRequest_def GetGrantDefinition_def
        ListUserGroupUIDs_def split: sum.splits option.splits)
  from ok obtain g r where ap: "approveGrantRequestTx uid (Some (usr_UID u)) (usr_UID u) newUID now now (as_db s1) =
      (Inr (g, r), snd (approveGrantRequestTx uid (Some (usr_UID u)) (usr_UID u) newUID now now (as_db s1)))"
    by (auto simp: with_db_def ApproveGrantRequest_def split: prod.splits)
  obtain req def where "find_request uid (as_db s1) = Some req"
    "find_definition (gr_GrantDefinitionID req) (as_db s1) = Some def" using ap by (rule approve_Inr)
  then have f: "find_request uid (as_db s) = Some req" "find_definition (gr_GrantDefinitionID req) (as_db s) = Some def"
    using s1 by (auto simp: same_data_def)
  then show ?thesis
    using c cn assms(2) by (auto simp: checkRequestInScope_def GetGrantRequest_def GetGrantDefinition_def
        ListUserGroupUIDs_def split: if_splits)
qed

theorem approval_in_scope_witness:
  "\<exists>req def. find_request 4 sample_db = Some req \<and> find_definition (gr_GrantDefinitionID req) sample_db = Some def \<and>
    AppliesTo def (map fst (filter (\<lambda>(g, x). x = gr_UserID req) (db_members sample_db))) (gr_DatabaseID req)"
proof -
  let ?s = "sample_api\<lparr>as_db := sample_db\<rparr>"
  let ?r = "handleApproveGrantRequest (Some 4) sample_user 7 100 ?s"
  have "case fst ?r of Success _ \<Rightarrow> True | _ \<Rightarrow> False" by code_simp
  then obtain p where "fst ?r = Success p" by (cases "fst ?r") auto
  then have "?r = (Success p, snd ?r)" by (metis prod.collapse)
  from approval_in_scope [OF this] show ?thesis by (simp add: sample_db_def)
qed

text \<open>The scope check fails open: when the lookup of the request for the check is the one
  statement that fails (a lost connection, not a missing row), the check reports no error and
  the approval goes through, in scope or not.\<close>

theorem scope_check_fails_open:
  assumes "db_faults (as_db s) = [True]" and "find_request uid (as_db s) = Some req"
    and "gr_Status req = GrantRequestPending"
    and "find_definition (gr_GrantDefinitionID req) (as_db s) = Some def" and "gd_IsActive def"
    and "grant_insertable (as_db s) (approved_grant def req (usr_UID u) newUID now)"
    and "user_exists (as_db s) (usr_UID u)"
  shows "\<exists>r g. fst (handleApproveGrantRequest (Some uid) u newUID now s) = Success (PApproved r g)"
proof -
  let ?s1 = "s\<lparr>as_db := (as_db s)\<lparr>db_faults := []\<rparr>\<rparr>"
  have c: "checkRequestInScope uid s = (None, ?s1)"
    using assms(1) by (simp add: checkRequestInScope_def with_db_def GetGrantRequest_def read_stmt_def stmt_def)
  have f: "find_request uid ((as_db s)\<lparr>db_faults := []\<rparr>) = Some req"
    "find_definition (gr_GrantDefinitionID req) ((as_db s)\<lparr>db_faults := []\<rparr>) = Some def"
    "grant_insertable ((as_db s)\<lparr>db_faults := []\<rparr>) (approved_grant def req (usr_UID u) newUID now)"
    using assms by simp_all
  have "isl (fst (with_db (ApproveGrantRequest uid (usr_UID u) newUID now now) ?s1)) = False"
    using f assms(3,5,7)
    by (simp add: with_db_def ApproveGrantRequest_def approveGrantRequestTx_def RunInTx_def read_stmt_def and_then_def
        write_stmt_def insert_grant_def update_request_def Let_def approved_grant_def BuildGrantFromDefinition_def
        seconds_def IsZero_def user_exists_def stmt_def)
  then obtain x where "fst (with_db (ApproveGrantRequest uid (usr_UID u) newUID now now) ?s1) = Inr x"
    by (cases "fst (with_db (ApproveGrantRequest uid (usr_UID u) newUID now now) ?s1)") auto
  then show ?thesis
    by (cases x; cases "with_db (ApproveGrantRequest uid (usr_UID u) newUID now now) ?s1")
      (simp add: handleApproveGrantRequest_def approveGrantRequest_def c Let_def)
qed

theorem scope_check_fails_open_witness:
  "\<exists>r g. fst (handleApproveGrantRequest (Some 4) sample_user 7 100 (sample_api\<lparr>as_db := sample_db\<lparr>db_faults := [True],
      db_definitions := [(hd (db_definitions sample_db))\<lparr>gd_GroupUIDs := [9]\<rparr>]\<rparr>\<rparr>)) = Success (PApproved r g)"
  by (rule scope_check_fails_open [where req = "hd (db_requests sample_db)" and
        def = "(hd (db_definitions sample_db))\<lparr>gd_GroupUIDs := [9]\<rparr>"])
    (simp_all add: sample_db_def sample_user_def find_request_def find_definition_def grant_insertable_def
      approved_grant_def seconds_def user_exists_def server_exists_def wrap_i64_def)

text \<open>A connector sees only its own grants: for a user who is neither admin nor viewer, every
  grant in a list response and every single grant response belongs to that user, whatever
  filters the query asks for.\<close>

theorem connector_sees_own_grants:
  assumes "\<not> IsAdmin u" and "\<not> IsViewer u"
  shows "(fst (handleListGrants P q d a u now s) = Success (PGrants gs) \<longrightarrow> (\<forall>g\<in>set gs. ag_UserID g = usr_UID u))
    \<and> (fst (handleGetGrant param u s) = Success (PGrant g) \<longrightarrow> ag_UserID g = usr_UID u)"
proof (intro conjI impI ballI)
  fix x
  assume ok: "fst (handleListGrants P q d a u now s) = Success (PGrants gs)" and x: "x \<in> set gs"
  let ?f = "\<lparr>gf_UserID = Some (usr_UID u), gf_DatabaseID = query_uid P d, gf_ActiveOnly = (a = ''true'')\<rparr>"
  obtain st' where "ListGrants ?f now (as_db s) = (Inr gs, st')"
    using ok assms by (auto simp: handleListGrants_def with_db_def Let_def writeInternalError_def
        split: prod.splits sum.splits)
  then show "ag_UserID x = usr_UID u" by (rule ListGrants_user) (use x in simp_all)
next
  assume "fst (handleGetGrant param u s) = Success (PGrant g)"
  then show "ag_UserID g = usr_UID u"
    using assms by (auto simp: handleGetGrant_def with_db_def Let_def split: prod.splits sum.splits option.splits if_splits)
qed

definition sample_listed :: access_grant where
  "sample_listed = \<lparr>ag_UID = 5, ag_UserID = 1, ag_DatabaseID = 2, ag_Controls = [''read_only''], ag_GrantedBy = 1,
      ag_StartsAt = 7, ag_ExpiresAt = 60000000007, ag_RevokedAt = None, ag_RevokedBy = None, ag_MaxQueryCounts = Some 10,
      ag_MaxBytesTransferred = None, ag_CreatedAt = 7, ag_QueryCount = 0, ag_BytesTransferred = 0\<rparr>"

theorem connector_sees_own_grants_witness:
  "fst (handleListGrants (\<lambda>_. None) ''x'' [] ''true'' sample_user 8 (sample_api\<lparr>as_db := sample_approved\<rparr>)) =
     Success (PGrants [sample_listed]) \<and> ag_UserID sample_listed = usr_UID sample_user"
proof -
  have r: "\<not> IsAdmin sample_user" "\<not> IsViewer sample_user" by code_simp+
  have l: "fst (handleListGrants (\<lambda>_. None) ''x'' [] ''true'' sample_user 8 (sample_api\<lparr>as_db := sample_approved\<rparr>)) =
    Success (PGrants [sample_listed])" by code_simp
  then have "ag_UserID sample_listed = usr_UID sample_user"
    using connector_sees_own_grants [OF r] by (metis list.set_intros(1))
  with l show ?thesis by blast
qed

end
