(* ===== verification/Pg_Accounting.thy ===== *)
theory Pg_Accounting
  imports Pg_Session
begin

text \<open>
  What a PostgreSQL session records: the bytes charged to the grant, the entries of the query log
  and the rows captured with them, over all executions of the relay of \<open>Pg_Session\<close>; and the
  startup negotiation before the relay.
\<close>

section \<open>Bytes\<close>

text \<open>The session's charge to the grant \<open>g\<close> it started with is the snapshot, which is the sum of the
  logged entries; all in the arithmetic of \<open>int64\<close>.\<close>

definition accounted :: "access_grant \<Rightarrow> session \<Rightarrow> bool" where
  "accounted g s \<longleftrightarrow> ss_connectionUID s \<noteq> uuid_Nil
     \<and> ag_BytesTransferred (ss_grant s) = wrap_i64 (ag_BytesTransferred g + ss_lastBytesSnapshot s)
     \<and> wrap_i64 (sum_list (map lq_Bytes (ss_logged s))) = ss_lastBytesSnapshot s
     \<and> ag_QueryCount (ss_grant s) = wrap_i64 (ag_QueryCount g + int (length (ss_logged s)))"

lemma accounted_frame:
  "accounted g s \<Longrightarrow> ss_connectionUID s' = ss_connectionUID s \<Longrightarrow> ss_grant s' = ss_grant s \<Longrightarrow>
     ss_lastBytesSnapshot s' = ss_lastBytesSnapshot s \<Longrightarrow> ss_logged s' = ss_logged s \<Longrightarrow> accounted g s'"
  by (simp add: accounted_def)

lemma accounted_log:
  assumes "accounted g s" and "in_i64 tot"
  shows "accounted g (logQuery L ra qe (wrap_i64 (tot - ss_lastBytesSnapshot s))
     (s\<lparr>ss_lastBytesSnapshot := tot, ss_currentQuery := Some q\<rparr>))"
proof -
  let ?sum = "sum_list (map lq_Bytes (ss_logged s))"
  have snap: "ss_lastBytesSnapshot s = wrap_i64 ?sum" using assms(1) by (simp add: accounted_def)
  have "wrap_i64 (?sum + (tot - wrap_i64 ?sum)) = wrap_i64 (?sum + tot - wrap_i64 ?sum)"
    by (simp only: add_diff_eq)
  also have "\<dots> = wrap_i64 tot" by (simp only: wrap_i64_add) simp
  finally have 1: "wrap_i64 (?sum + (tot - ss_lastBytesSnapshot s)) = tot"
    using assms(2) snap by simp
  have 2: "wrap_i64 (ag_BytesTransferred (ss_grant s) + (tot - ss_lastBytesSnapshot s))
      = wrap_i64 (ag_BytesTransferred g + tot)"
    using assms(1) by (simp add: accounted_def)
  have 3: "wrap_i64 (ag_QueryCount (ss_grant s) + 1) = wrap_i64 (ag_QueryCount g + int (length (ss_logged s)) + 1)"
    using assms(1) by (simp add: accounted_def)
  have conn: "ss_connectionUID s \<noteq> uuid_Nil" using assms(1) by (simp add: accounted_def)
  show ?thesis
    using 1 2 3 conn by (simp add: accounted_def logQuery_def Let_def ac_simps)
qed

lemma in_i64_wire_total [simp]: "in_i64 (wire_total hp s)"
  by (simp add: wire_total_def)

lemma accounted_intercept:
  "accounted g s \<Longrightarrow> accounted g (snd (intercept L msg hp now s))"
  by (cases msg) (auto simp: handler_defs split: handler_splits if_splits elim!: accounted_frame)

lemma accounted_observe:
  assumes "accounted g (px_session p)"
  shows "accounted g (px_session (observe L msg p))"
proof (cases "msg = SReadyForQuery")
  case True
  show ?thesis
  proof (cases "ss_currentQuery (px_session p)")
    case None
    then show ?thesis using assms True by (simp add: observe_def query_done_def)
  next
    case (Some q)
    let ?t = "wire_total (px_heap p) (px_session p)"
    have "(px_session p)\<lparr>ss_lastBytesSnapshot := ?t, ss_currentQuery := Some q\<rparr> =
        (px_session p)\<lparr>ss_lastBytesSnapshot := ?t\<rparr>"
      using Some by (cases "px_session p") simp
    then have "accounted g (logQuery L (px_rowsAffected p) (px_queryError p)
        (wrap_i64 (?t - ss_lastBytesSnapshot (px_session p))) ((px_session p)\<lparr>ss_lastBytesSnapshot := ?t\<rparr>))"
      using accounted_log [OF assms in_i64_wire_total [of "px_heap p" "px_session p"], of L _ _ q] by metis
    then show ?thesis
      using Some True by (auto simp: observe_def query_done_def Let_def elim!: accounted_frame)
  qed
next
  case False
  then show ?thesis using assms
    by (cases msg) (auto simp: observe_defs captureCopyData_def elim!: accounted_frame
        split: option.splits list.splits sum.splits if_splits)
qed

lemma accounted_abort:
  assumes "accounted g (px_session p)"
  shows "accounted g (px_session (persistAbortedQuery L e p))"
  using assms accounted_log [OF assms in_i64_wire_total]
  by (auto simp: persistAbortedQuery_def upd_session_def Let_def split: option.split)

lemma accounted_step: "accounted g (px_session p) \<Longrightarrow> accounted g (px_session (step L ev p))"
  by (rule session_step_induct [where P = "accounted g"])
     (auto intro: accounted_intercept accounted_observe accounted_abort)

text \<open>C10. No byte is charged twice and none is lost between two log entries: in every reachable
  state the grant's byte count is the one the session started with plus the sum of the bytes of
  the logged queries, its query count has grown by the number of entries, and the end of a query
  brings the charge up to everything the client connection has carried.\<close>

theorem bytes_charged_once:
  assumes "p = run L evs (proxyMessages (fst (NewSession cfg g conn hp0)) hp r ws)"
    and "conn \<noteq> uuid_Nil" and "in_i64 (ag_BytesTransferred g)" and "in_i64 (ag_QueryCount g)"
  shows "ag_BytesTransferred (ss_grant (px_session p)) =
      wrap_i64 (ag_BytesTransferred g + sum_list (map lq_Bytes (ss_logged (px_session p))))
    \<and> ag_QueryCount (ss_grant (px_session p)) =
      wrap_i64 (ag_QueryCount g + int (length (ss_logged (px_session p))))
    \<and> (ss_currentQuery (px_session p) \<noteq> None \<longrightarrow>
        ag_BytesTransferred (ss_grant (px_session (observe L SReadyForQuery p))) =
        wrap_i64 (ag_BytesTransferred g + wire_total (px_heap p) (px_session p)))"
proof -
  have "accounted g (px_session (proxyMessages (fst (NewSession cfg g conn hp0)) hp r ws))"
    using assms(2-4)
    by (simp add: accounted_def proxyMessages_def NewSession_def NewInt_def Let_def split_beta)
  then have acc: "accounted g (px_session p)"
    unfolding assms(1) by (rule run_invariant [where I = "\<lambda>p. accounted g (px_session p)"]) (rule accounted_step)
  have "ss_lastBytesSnapshot (px_session (observe L SReadyForQuery p)) = wire_total (px_heap p) (px_session p)"
    if "ss_currentQuery (px_session p) \<noteq> None"
    using that by (auto simp: observe_def query_done_def logQuery_def Let_def)
  then show ?thesis
    using acc accounted_observe [OF acc, of L SReadyForQuery] unfolding accounted_def
    by (metis wrap_i64_add(2))
qed

theorem bytes_charged_once_witness:
  "ag_BytesTransferred (ss_grant (px_session (run sample_lib
     [EvClient 14 (CQuery ''SELECT 1'') 5 True, EvServer (SCommandComplete ''SELECT 1'') 6,
      EvServer SReadyForQuery 7] sample_proxy))) = 5 + (14 + 20)"
proof -
  let ?evs = "[EvClient 14 (CQuery ''SELECT 1'') 5 True, EvServer (SCommandComplete ''SELECT 1'') 6,
      EvServer SReadyForQuery 7]"
  have "in_i64 (ag_BytesTransferred pg_grant)" "in_i64 (ag_QueryCount pg_grant)" by code_simp+
  from bytes_charged_once [OF refl _ this, of 9 sample_lib ?evs sample_storage empty_heap]
  have "ag_BytesTransferred (ss_grant (px_session (run sample_lib ?evs sample_proxy))) =
      wrap_i64 (ag_BytesTransferred pg_grant +
        sum_list (map lq_Bytes (ss_logged (px_session (run sample_lib ?evs sample_proxy)))))"
    unfolding sample_proxy_def by simp
  also have "map lq_Bytes (ss_logged (px_session (run sample_lib ?evs sample_proxy))) = [34]"
    by code_simp
  finally show ?thesis by (simp add: pg_grant_def wrap_i64_def)
qed

section \<open>The queries in flight\<close>

definition all_queries :: "(pending_query \<Rightarrow> bool) \<Rightarrow> session \<Rightarrow> bool" where
  "all_queries Q s \<longleftrightarrow> (\<forall>q. ss_currentQuery s = Some q \<longrightarrow> Q q) \<and> (\<forall>q \<in> set (xs_pendingQueries (ss_extended s)). Q q)"

lemma all_queries_frame:
  "all_queries Q s \<Longrightarrow> ss_currentQuery s' = ss_currentQuery s \<Longrightarrow>
     xs_pendingQueries (ss_extended s') = xs_pendingQueries (ss_extended s) \<Longrightarrow> all_queries Q s'"
  by (simp add: all_queries_def)

lemma all_queries_upd_pending:
  assumes "all_queries Q s" and "\<And>q. Q q \<Longrightarrow> Q (f q)"
  shows "all_queries Q (upd_pending f s)"
proof (cases "ss_currentQuery s")
  case None
  have "Q q" if "q \<in> set (butlast (xs_pendingQueries (ss_extended s)))" for q
    using assms(1) in_set_butlastD [OF that] by (simp add: all_queries_def)
  then show ?thesis using None assms
    by (cases "xs_pendingQueries (ss_extended s) = []") (auto simp: upd_pending_def all_queries_def neq_Nil_conv)
qed (use assms in \<open>auto simp: upd_pending_def all_queries_def\<close>)

lemma upd_pending_frame [simp]:
  "ss_logged (upd_pending f s) = ss_logged s"
  "ss_storage (upd_pending f s) = ss_storage s"
  "ss_copyState (upd_pending f s) = ss_copyState s"
  "xs_preparedStatements (ss_extended (upd_pending f s)) = xs_preparedStatements (ss_extended s)"
  by (auto simp: upd_pending_def split: option.split list.split)

lemma all_queries_pop: "all_queries Q s \<Longrightarrow> all_queries Q (pop_pending s)"
  by (auto simp: all_queries_def pop_pending_def split: list.split)

lemma pop_pending_frame [simp]:
  "ss_logged (pop_pending s) = ss_logged s"
  "ss_storage (pop_pending s) = ss_storage s"
  "ss_copyState (pop_pending s) = ss_copyState s"
  "xs_preparedStatements (ss_extended (pop_pending s)) = xs_preparedStatements (ss_extended s)"
  by (auto simp: pop_pending_def split: list.split)

lemma all_queries_current: "all_queries Q s \<Longrightarrow> getCurrentPendingQuery s = Some q \<Longrightarrow> Q q"
  by (auto simp: all_queries_def getCurrentPendingQuery_def split: option.splits list.splits if_splits)

lemma capture_row_sql [simp]: "pq_sql (capture_row L cfg vals q) = pq_sql q"
  by (simp add: capture_row_def)

section \<open>Queries that overtake one another\<close>

text \<open>The session holds no statement \<open>sql\<close>, and its log has only the entries \<open>old\<close> of it.\<close>

definition forgotten :: "string \<Rightarrow> logged_query list \<Rightarrow> session \<Rightarrow> bool" where
  "forgotten sql old s \<longleftrightarrow> sql \<noteq> [] \<and> all_queries (\<lambda>q. pq_sql q \<noteq> sql) s
     \<and> (\<forall>n st. xs_preparedStatements (ss_extended s) n = Some st \<longrightarrow> ps_sql st \<noteq> sql)
     \<and> filter (\<lambda>e. lq_SQLText e = sql) (ss_logged s) = old"

lemma forgotten_intercept:
  "forgotten sql old s \<Longrightarrow> statement_of msg \<noteq> Some sql \<Longrightarrow> forgotten sql old (snd (intercept L msg hp now s))"
  by (cases msg) (auto simp: handler_defs forgotten_def all_queries_def statement_of_def
      split: handler_splits if_splits)

lemma forgotten_queries:
  "forgotten sql old s \<Longrightarrow> all_queries (\<lambda>q. pq_sql q \<noteq> sql) s' \<Longrightarrow>
   xs_preparedStatements (ss_extended s') = xs_preparedStatements (ss_extended s) \<Longrightarrow> ss_logged s' = ss_logged s \<Longrightarrow>
   forgotten sql old s'"
  by (simp add: forgotten_def)

lemma forgotten_observe:
  assumes "forgotten sql old (px_session p)"
  shows "forgotten sql old (px_session (observe L msg p))"
proof -
  have all: "all_queries (\<lambda>q. pq_sql q \<noteq> sql) (px_session p)" using assms by (simp add: forgotten_def)
  show ?thesis
  proof (cases msg)
    case (SParameterDescription oids)
    then show ?thesis using assms
      by (auto simp: observe_def upd_session_def handleParameterDescription_def forgotten_def all_queries_def
          split: list.splits option.splits)
  next
    case SReadyForQuery
    then show ?thesis using assms
      by (auto simp: observe_def query_done_def logQuery_def Let_def forgotten_def all_queries_def split: option.splits)
  qed (use assms all in \<open>auto simp: observe_def upd_session_def captureRowDescription_def start_copy_def
      captureCopyData_def split: option.splits sum.splits if_splits
      elim!: forgotten_queries intro: all_queries_upd_pending all_queries_pop all_queries_frame\<close>)
qed

lemma forgotten_log:
  assumes "forgotten sql old s" and "pq_sql q \<noteq> sql"
  shows "forgotten sql old (logQuery L ra qe n (s\<lparr>ss_lastBytesSnapshot := t, ss_currentQuery := Some q\<rparr>))"
  using assms by (simp add: logQuery_def Let_def forgotten_def all_queries_def)

lemma forgotten_abort:
  assumes "forgotten sql old (px_session p)"
  shows "forgotten sql old (px_session (persistAbortedQuery L e p))"
proof (cases "getCurrentPendingQuery (px_session p)")
  case (Some q)
  have all: "all_queries (\<lambda>q. pq_sql q \<noteq> sql) (px_session p)" using assms by (simp add: forgotten_def)
  from all_queries_current [OF all Some] have "pq_sql q \<noteq> sql" .
  then show ?thesis using Some assms forgotten_log [OF assms] all
    by (simp add: persistAbortedQuery_def upd_session_def Let_def all_queries_def split: option.split)
qed (use assms in \<open>simp add: persistAbortedQuery_def\<close>)

fun event_statement :: "pg_event \<Rightarrow> string option" where
  "event_statement (EvClient n msg now fl) = statement_of msg"
| "event_statement _ = None"

lemma forgotten_step:
  assumes "forgotten sql old (px_session p)" and "event_statement ev \<noteq> Some sql"
  shows "forgotten sql old (px_session (step L ev p))"
proof (cases "\<exists>n msg now fl. ev = EvClient n msg now fl")
  case True
  then obtain n msg now fl where ev: "ev = EvClient n msg now fl" by blast
  then have "forgotten sql old (snd (intercept L msg hp t (px_session p)))" for hp t
    using assms by (simp add: forgotten_intercept)
  then show ?thesis using ev assms(1)
    by (simp add: step_def proxyClientToUpstream_def Let_def split_beta split: option.split)
next
  case False
  have "forgotten sql old (px_session (abortStream L e q))" if "forgotten sql old (px_session q)" for e q
    using that forgotten_abort [of sql old "snd (client_write ReadyFrame (snd (client_write (LimitErrorFrame e) q)))" L e]
    by (simp add: abortStream_def split_beta)
  then have "forgotten sql old (px_session (proxyUpstreamToClient L msg now p))" for msg now
    using forgotten_observe [OF assms(1), of L msg]
    by (auto simp: proxyUpstreamToClient_def enforceStreamLimits_def split_beta Let_def split: option.split)
  then show ?thesis using False assms(1)
    by (cases ev) (auto simp: step_def onLimitViolation_def cleanup_def split: option.split)
qed

text \<open>After a second simple query has been forwarded, the first one is gone from the session.\<close>

lemma overtaken:
  assumes "px_upstream (run L [EvClient n1 (CQuery q1) t1 True, EvClient n2 (CQuery q2) t2 True] p)
      = px_upstream p @ [CQuery q1, CQuery q2]"
    and "q1 \<noteq> q2" and "q1 \<noteq> []"
    and "\<forall>q \<in> set (xs_pendingQueries (ss_extended (px_session p))). pq_sql q \<noteq> q1"
    and "\<forall>n st. xs_preparedStatements (ss_extended (px_session p)) n = Some st \<longrightarrow> ps_sql st \<noteq> q1"
  shows "forgotten q1 (filter (\<lambda>e. lq_SQLText e = q1) (ss_logged (px_session p)))
    (px_session (run L [EvClient n1 (CQuery q1) t1 True, EvClient n2 (CQuery q2) t2 True] p))"
proof -
  define p1 where "p1 = step L (EvClient n1 (CQuery q1) t1 True) p"
  have up: "px_upstream (step L (EvClient n2 (CQuery q2) t2 True) p1) = px_upstream p @ [CQuery q1, CQuery q2]"
    using assms(1) by (simp add: p1_def)
  have up1: "px_upstream p1 = px_upstream p @ [CQuery q1]"
    using up step_upstream [of L "EvClient n1 (CQuery q1) t1 True" p]
      step_upstream [of L "EvClient n2 (CQuery q2) t2 True" p1] assms(2) by (auto simp: p1_def)
  have "fst (handleQuery q2 (px_heap (count_read n2 p1)) t2 (px_session p1)) = None"
    using up up1 step_upstream [of L "EvClient n2 (CQuery q2) t2 True" p1] by (auto simp: intercept_def)
  moreover have "px_c2u p1 = None" "\<not> px_crashed p1" "\<not> px_closed p1"
    using up up1 by (auto simp: step_def proxyClientToUpstream_def split_beta Let_def split: if_splits option.splits)
  ultimately have s2: "px_session (step L (EvClient n2 (CQuery q2) t2 True) p1) =
      (px_session p1)\<lparr>ss_currentQuery := Some (new_query q2 None t2)\<rparr>"
    by (auto simp: step_def proxyClientToUpstream_def intercept_def handleQuery_def split: option.splits)
  have "ss_logged (px_session p1) = ss_logged (px_session p)" "ss_extended (px_session p1) = ss_extended (px_session p)"
    by (auto simp: p1_def step_def proxyClientToUpstream_def intercept_def handleQuery_def split_beta Let_def
        split: option.splits)
  then show ?thesis
    using assms(2-5) s2 by (auto simp: p1_def forgotten_def all_queries_def)
qed

text \<open>C39. When a client sends two simple queries without waiting for the first answer and both are
  forwarded, the first one never gets an entry in the query log, whatever happens afterwards
  (unless the client sends it again): the second has replaced it as the query in flight.\<close>

theorem pipelined_query_unlogged:
  assumes "px_upstream (run L [EvClient n1 (CQuery q1) t1 True, EvClient n2 (CQuery q2) t2 True] p)
      = px_upstream p @ [CQuery q1, CQuery q2]"
    and "q1 \<noteq> q2" and "q1 \<noteq> []"
    and "\<forall>q \<in> set (xs_pendingQueries (ss_extended (px_session p))). pq_sql q \<noteq> q1"
    and "\<forall>n st. xs_preparedStatements (ss_extended (px_session p)) n = Some st \<longrightarrow> ps_sql st \<noteq> q1"
    and "\<forall>ev \<in> set evs. event_statement ev \<noteq> Some q1"
  shows "filter (\<lambda>e. lq_SQLText e = q1) (ss_logged (px_session (run L (EvClient n1 (CQuery q1) t1 True #
      EvClient n2 (CQuery q2) t2 True # evs) p))) = filter (\<lambda>e. lq_SQLText e = q1) (ss_logged (px_session p))"
proof -
  let ?p2 = "run L [EvClient n1 (CQuery q1) t1 True, EvClient n2 (CQuery q2) t2 True] p"
  let ?old = "filter (\<lambda>e. lq_SQLText e = q1) (ss_logged (px_session p))"
  have "forgotten q1 ?old (px_session (run L evs ?p2))"
    by (rule run_invariant [where I = "\<lambda>p. forgotten q1 ?old (px_session p)"])
       (use overtaken [OF assms(1-5)] assms(6) in \<open>auto intro: forgotten_step\<close>)
  then show ?thesis by (simp add: forgotten_def)
qed

theorem pipelined_query_unlogged_witness:
  "filter (\<lambda>e. lq_SQLText e = ''SELECT 1'') (ss_logged (px_session (run sample_lib
     [EvClient 14 (CQuery ''SELECT 1'') 5 True, EvClient 14 (CQuery ''SELECT 2'') 5 True,
      EvServer (SCommandComplete ''SELECT 1'') 6, EvServer SReadyForQuery 7,
      EvServer (SCommandComplete ''SELECT 1'') 8, EvServer SReadyForQuery 9] sample_proxy))) = []"
proof -
  have "px_upstream (run sample_lib [EvClient 14 (CQuery ''SELECT 1'') 5 True, EvClient 14 (CQuery ''SELECT 2'') 5 True]
      sample_proxy) = [CQuery ''SELECT 1'', CQuery ''SELECT 2'']" by code_simp
  moreover have "px_upstream sample_proxy = []" "xs_pendingQueries (ss_extended (px_session sample_proxy)) = []"
    "ss_logged (px_session sample_proxy) = []"
    by code_simp+
  moreover have "xs_preparedStatements (ss_extended (px_session sample_proxy)) = Map.empty"
    by (simp add: sample_proxy_def proxyMessages_def NewSession_def Let_def split_beta)
  ultimately show ?thesis
    using pipelined_query_unlogged [of sample_lib 14 "''SELECT 1''" 5 14 "''SELECT 2''" 5 sample_proxy
      "[EvServer (SCommandComplete ''SELECT 1'') 6, EvServer SReadyForQuery 7,
        EvServer (SCommandComplete ''SELECT 1'') 8, EvServer SReadyForQuery 9]"] by simp
qed

section \<open>Captured rows\<close>

definition rows_bounded :: "query_storage \<Rightarrow> query_row list \<Rightarrow> bool" where
  "rows_bounded cfg rows \<longleftrightarrow> length rows \<le> nat (cfg_MaxResultRows cfg)
     \<and> sum_list (map qr_RowSizeBytes rows) \<le> max 0 (cfg_MaxResultBytes cfg)
     \<and> (cfg_StoreResults cfg \<or> rows = [])"

definition capture_ok :: "query_storage \<Rightarrow> pending_query \<Rightarrow> bool" where
  "capture_ok cfg q \<longleftrightarrow> rows_bounded cfg (pq_capturedRows q)
     \<and> (pq_truncated q \<or> pq_rowNumber q = int (length (pq_capturedRows q))
          \<and> pq_capturedBytes q = sum_list (map qr_RowSizeBytes (pq_capturedRows q)))"

definition copy_ok :: "query_storage \<Rightarrow> copy_state \<Rightarrow> bool" where
  "copy_ok cfg cp \<longleftrightarrow> (cfg_StoreResults cfg \<or> cp_dataChunks cp = [])
     \<and> (cp_truncated cp \<or> cp_totalBytes cp = int (length (concat (cp_dataChunks cp)))
          \<and> cp_totalBytes cp \<le> max 0 (cfg_MaxResultBytes cfg))"

lemma capture_row_ok: "capture_ok cfg q \<Longrightarrow> capture_ok cfg (capture_row L cfg vals q)"
  by (auto simp: capture_ok_def capture_row_def rows_bounded_def convertDataRow_def Let_def)

lemma row_size_nonneg: "0 \<le> row_size vals"
  unfolding row_size_def by (rule sum_list_nonneg) (auto split: option.splits)

lemma length_Split: "sum_list (map length (Split s d)) \<le> length s"
  by (induction s d rule: Split.induct) (auto split: list.splits)

lemma copy_lines_bounded:
  "length (copy_lines L names room ls) \<le> room \<and>
   sum_list (map qr_RowSizeBytes (copy_lines L names room ls)) \<le> int (sum_list (map length ls))"
proof (induction ls arbitrary: room)
  case (Cons line ls)
  show ?case using Cons [of room] Cons [of "room - 1"]
    by (cases room) (auto split: sum.split intro: order_trans)
qed simp

lemma parseCopyDataToRows_bounded:
  assumes "copy_ok cfg cp" and "\<not> cp_truncated cp"
  shows "rows_bounded cfg (parseCopyDataToRows L cfg (Some cp))"
proof -
  let ?rows = "copy_lines L (cp_columnNames cp) (nat (cfg_MaxResultRows cfg))
      (Split (concat (cp_dataChunks cp)) (CHR 0x0A))"
  have "sum_list (map qr_RowSizeBytes ?rows) \<le> int (length (concat (cp_dataChunks cp)))"
    using copy_lines_bounded [of L "cp_columnNames cp" "nat (cfg_MaxResultRows cfg)"
        "Split (concat (cp_dataChunks cp)) (CHR 0x0A)"] length_Split [of "concat (cp_dataChunks cp)" "CHR 0x0A"]
    by linarith
  then have "sum_list (map qr_RowSizeBytes ?rows) \<le> max 0 (cfg_MaxResultBytes cfg)"
    using assms by (auto simp: copy_ok_def)
  then show ?thesis
    using assms copy_lines_bounded [of L "cp_columnNames cp" "nat (cfg_MaxResultRows cfg)"
        "Split (concat (cp_dataChunks cp)) (CHR 0x0A)"]
    by (auto simp: parseCopyDataToRows_def rows_bounded_def copy_ok_def)
qed

definition captures_bounded :: "query_storage \<Rightarrow> session \<Rightarrow> bool" where
  "captures_bounded cfg s \<longleftrightarrow> ss_storage s = cfg \<and> all_queries (capture_ok cfg) s
     \<and> (\<forall>cp. ss_copyState s = Some cp \<longrightarrow> copy_ok cfg cp)
     \<and> (\<forall>e \<in> set (ss_logged s). rows_bounded cfg (lq_Rows e))"

lemma capture_ok_new [simp]: "capture_ok cfg (new_query sql ps now)"
  by (simp add: capture_ok_def rows_bounded_def)

lemma captureCopyData_bounded:
  "captures_bounded cfg s \<Longrightarrow> captures_bounded cfg (captureCopyData data s)"
  by (auto simp: captures_bounded_def captureCopyData_def copy_ok_def all_queries_def split: option.splits)

lemma captures_frame:
  "captures_bounded cfg s \<Longrightarrow> all_queries (capture_ok cfg) s' \<Longrightarrow> ss_storage s' = ss_storage s \<Longrightarrow>
   ss_copyState s' = ss_copyState s \<Longrightarrow> ss_logged s' = ss_logged s \<Longrightarrow> captures_bounded cfg s'"
  by (simp add: captures_bounded_def)

lemma captures_queries: "captures_bounded cfg s \<Longrightarrow> all_queries (capture_ok cfg) s"
  by (simp add: captures_bounded_def)

lemma captures_intercept:
  assumes "captures_bounded cfg s"
  shows "captures_bounded cfg (snd (intercept L msg hp now s))"
proof (cases "\<exists>d. msg = CCopyData d")
  case True
  then show ?thesis using assms
    by (auto simp: intercept_def captureCopyData_bounded split: option.split)
next
  case False
  then show ?thesis using assms
    by (cases msg) (auto simp: intercept_def handleQuery_def handleParse_def handleBind_def handleExecute_def
        handleDescribe_def handleClose_def Let_def captures_bounded_def all_queries_def
        split: option.splits object_type.splits)
qed

lemma captures_log:
  assumes "captures_bounded cfg s" and "capture_ok cfg q"
  shows "captures_bounded cfg (logQuery L ra qe n (s\<lparr>ss_lastBytesSnapshot := t, ss_currentQuery := Some q\<rparr>))"
proof -
  have "rows_bounded cfg (parseCopyDataToRows L cfg (Some cp))"
    if "ss_copyState s = Some cp" "\<not> cp_truncated cp" for cp
    using that assms(1) by (auto simp: captures_bounded_def intro: parseCopyDataToRows_bounded)
  then show ?thesis
    using assms by (auto simp: logQuery_def Let_def captures_bounded_def all_queries_def capture_ok_def
        split: option.split)
qed

lemma captures_clear:
  "captures_bounded cfg s \<Longrightarrow> captures_bounded cfg (s\<lparr>ss_currentQuery := None, ss_copyState := None\<rparr>)"
  by (simp add: captures_bounded_def all_queries_def)

lemma captures_observe:
  assumes "captures_bounded cfg (px_session p)"
  shows "captures_bounded cfg (px_session (observe L msg p))"
proof (cases msg)
  case (SDataRow vals)
  have "all_queries (capture_ok cfg) (upd_pending (capture_row L cfg vals) (px_session p))"
    using captures_queries [OF assms] by (rule all_queries_upd_pending) (rule capture_row_ok)
  then show ?thesis using assms SDataRow
    by (simp add: observe_def upd_session_def captures_bounded_def)
next
  case (SRowDescription cols)
  have "all_queries (capture_ok cfg) (captureRowDescription cols (px_session p))"
    unfolding captureRowDescription_def using captures_queries [OF assms]
    by (rule all_queries_upd_pending) (simp add: capture_ok_def)
  then show ?thesis using assms SRowDescription
    by (simp add: observe_def upd_session_def captures_bounded_def captureRowDescription_def)
next
  case SReadyForQuery
  show ?thesis
  proof (cases "ss_currentQuery (px_session p)")
    case None
    then show ?thesis using assms SReadyForQuery by (simp add: observe_def query_done_def)
  next
    case (Some q)
    have eq: "(px_session p)\<lparr>ss_lastBytesSnapshot := t, ss_currentQuery := Some q\<rparr> =
        (px_session p)\<lparr>ss_lastBytesSnapshot := t\<rparr>" for t
      using Some by (cases "px_session p") simp
    have "capture_ok cfg q" using Some captures_queries [OF assms] by (simp add: all_queries_def)
    from captures_log [OF assms this, unfolded eq, THEN captures_clear]
    show ?thesis using Some SReadyForQuery by (simp add: observe_def query_done_def Let_def)
  qed
next
  case (SCopyData data)
  then show ?thesis using assms
    by (simp add: observe_def upd_session_def captureCopyData_bounded split: option.split)
next
  case (SCommandComplete tag)
  then show ?thesis using captures_frame [OF assms all_queries_pop [OF captures_queries [OF assms]]]
    by (simp add: observe_def upd_session_def)
next
  case (SErrorResponse m)
  then show ?thesis using captures_frame [OF assms all_queries_pop [OF captures_queries [OF assms]]]
    by (simp add: observe_def upd_session_def)
qed (use assms in \<open>auto simp: observe_def upd_session_def handleParameterDescription_def
    start_copy_def captures_bounded_def copy_ok_def all_queries_def
    split: option.splits list.splits sum.splits\<close>)

lemma captures_abort:
  assumes "captures_bounded cfg (px_session p)"
  shows "captures_bounded cfg (px_session (persistAbortedQuery L e p))"
proof (cases "getCurrentPendingQuery (px_session p)")
  case (Some q)
  from all_queries_current [OF captures_queries [OF assms] Some] have "capture_ok cfg q" .
  then show ?thesis using Some assms captures_log [OF assms] captures_queries [OF assms]
    by (simp add: persistAbortedQuery_def upd_session_def Let_def all_queries_def split: option.split)
qed (use assms in \<open>simp add: persistAbortedQuery_def\<close>)

lemma captures_step: "captures_bounded cfg (px_session p) \<Longrightarrow> captures_bounded cfg (px_session (step L ev p))"
  by (rule session_step_induct [where P = "captures_bounded cfg"])
     (auto intro: captures_intercept captures_observe captures_abort)

text \<open>The query log never stores more of a result than the configuration allows: in every
  reachable state each entry, of a query or of a COPY in either direction, has at most
  \<open>MaxResultRows\<close> rows of at most \<open>MaxResultBytes\<close> bytes in total, and none at all when results
  are not to be stored.\<close>

theorem captured_rows_bounded:
  assumes "e \<in> set (ss_logged (px_session (run L evs (proxyMessages (fst (NewSession cfg g conn hp0)) hp r ws))))"
  shows "length (lq_Rows e) \<le> nat (cfg_MaxResultRows cfg)
    \<and> sum_list (map qr_RowSizeBytes (lq_Rows e)) \<le> max 0 (cfg_MaxResultBytes cfg)
    \<and> (cfg_StoreResults cfg \<or> lq_Rows e = [])"
proof -
  have "captures_bounded cfg (px_session (proxyMessages (fst (NewSession cfg g conn hp0)) hp r ws))"
    by (simp add: captures_bounded_def all_queries_def proxyMessages_def NewSession_def Let_def split_beta)
  then have "captures_bounded cfg (px_session (run L evs (proxyMessages (fst (NewSession cfg g conn hp0)) hp r ws)))"
    by (rule run_invariant [where I = "\<lambda>p. captures_bounded cfg (px_session p)"]) (rule captures_step)
  then show ?thesis using assms by (simp add: captures_bounded_def rows_bounded_def)
qed

definition sample_events :: "pg_event list" where
  "sample_events = [EvClient 14 (CQuery ''SELECT 1'') 5 True, EvServer (SDataRow [Some ''ab'']) 6,
     EvServer (SDataRow [Some ''c'']) 6, EvServer SReadyForQuery 7]"

theorem captured_rows_bounded_witness:
  "map (length \<circ> lq_Rows) (ss_logged (px_session (run sample_lib sample_events sample_proxy))) = [2]
   \<and> length (lq_Rows (hd (ss_logged (px_session (run sample_lib sample_events sample_proxy))))) \<le> 2"
proof -
  let ?log = "ss_logged (px_session (run sample_lib sample_events sample_proxy))"
  have one: "map (length \<circ> lq_Rows) ?log = [2]" by code_simp
  then have "hd ?log \<in> set ?log" by (cases ?log) auto
  from captured_rows_bounded [OF this [unfolded sample_proxy_def]]
  have "length (lq_Rows (hd ?log)) \<le> 2"
    by (simp add: sample_proxy_def sample_storage_def)
  with one show ?thesis by blast
qed

section \<open>Startup\<close>


lemma negotiateSSL_unfold: "negotiateSSL io = negotiate (Suc (Suc (Suc 0))) io"
  by (simp add: negotiateSSL_def maxStartupNegotiationRounds_def numeral_3_eq_3)

















text \<open>A client that has not authenticated makes the connection's goroutine panic: a startup frame that announces a length below
  four passes the negotiation and makes \<open>receiveStartupMessage\<close> slice out of range.\<close>

lemma short_startup_panics:
  assumes "8 \<le> length (io_in io)" and "be_dec (take 4 (io_in io)) < 4"
  shows "negotiateSSL io = (None, io) \<and> fst (receiveStartupMessage decode io) = Inl Panic"
  using assms
  by (simp add: negotiateSSL_unfold receiveStartupMessage_def ReadFull_def Let_def)

end
