(* ===== verification/Oracle_Wire.thy ===== *)
theory Oracle_Wire
  imports Complex_Main Validation Go_Encoding
begin

unbundle bit_operations_syntax

text \<open>
  The Oracle wire formats the proxy reads: TNS packets (\<open>internal/proxy/oracle/tns.go\<close>, \<open>markers.go\<close>), TTC
  function codes (\<open>ttc.go\<close>), the status messages of \<open>ttc_oer.go\<close>, and the messages of \<open>ttc_decode.go\<close> that carry
  statements, with their bind values. A reader gets the bytes that will arrive until the end of the stream.
\<close>

section \<open>TNS packets\<close>

definition TNSPacketTypeConnect :: byte where "TNSPacketTypeConnect = 1"
definition TNSPacketTypeRedirect :: byte where "TNSPacketTypeRedirect = 4"
definition TNSPacketTypeData :: byte where "TNSPacketTypeData = 6"
definition TNSPacketTypeControl :: byte where "TNSPacketTypeControl = 12"

definition tnsHeaderSize :: nat where "tnsHeaderSize = 8"
definition maxTNSPacketSize :: nat where "maxTNSPacketSize = 65535"

record tns_packet =
  tp_Type :: byte
  tp_Flags :: byte
  tp_Length :: u16
  tp_Payload :: bytes
  tp_Raw :: bytes

datatype tns_error =
    TnsHeader read_error
  | TnsPayload read_error
  | TnsExtendedSize read_error
  | TnsExtendedData read_error
  | ErrTNSHeaderTooShort
  | ErrTNSPacketTooLarge

definition parseTNSHeader :: "bytes \<Rightarrow> tns_error + tns_packet" where
  "parseTNSHeader raw =
     (if length raw < tnsHeaderSize then Inl ErrTNSHeaderTooShort
      else Inr \<lparr>tp_Type = raw ! 4, tp_Flags = raw ! 5, tp_Length = Uint16_BE raw, tp_Payload = [], tp_Raw = []\<rparr>)"

definition encodeTNSPacket :: "byte \<Rightarrow> bytes \<Rightarrow> bytes" where
  "encodeTNSPacket typ payload = PutUint16_BE (of_nat (tnsHeaderSize + length payload)) @ [0, 0, typ, 0, 0, 0] @ payload"

definition readExtendedConnectData :: "tns_packet \<Rightarrow> bytes \<Rightarrow> tns_error + tns_packet \<times> bytes" where
  "readExtendedConnectData pkt s =
     (if length (tp_Payload pkt) < 20 then Inr (pkt, s)
      else
        let connectDataOffset = unat (Uint16_BE (drop 18 (tp_Payload pkt)));
            payloadNeeded = int connectDataOffset - int tnsHeaderSize in
        if payloadNeeded < int (length (tp_Payload pkt)) then Inr (pkt, s)
        else case ReadFull 2 s of Inl e \<Rightarrow> Inl (TnsExtendedSize e)
        | Inr (sizeBuf, s1) \<Rightarrow>
            let extendedLen = unat (Uint16_BE sizeBuf) in
            if extendedLen < 2 \<or> extendedLen > maxTNSPacketSize then Inl ErrTNSPacketTooLarge
            else case ReadFull (extendedLen - 2) s1 of Inl e \<Rightarrow> Inl (TnsExtendedData e)
            | Inr (remaining, s2) \<Rightarrow>
                Inr (pkt\<lparr>tp_Payload := tp_Payload pkt @ sizeBuf @ remaining, tp_Raw := tp_Raw pkt @ sizeBuf @ remaining\<rparr>, s2))"

text \<open>The length of the legacy format, two bytes, or of the newer one, four bytes that begin with two zeros.\<close>

definition packet_length :: "bytes \<Rightarrow> nat" where
  "packet_length header = (if Uint16_BE header > 0 then unat (Uint16_BE header) else unat (Uint32_BE header))"

definition read_body :: "bytes \<Rightarrow> tns_packet \<Rightarrow> bytes \<Rightarrow> tns_error + tns_packet \<times> bytes" where
  "read_body header pkt s =
     (let packetLen = packet_length header in
      if packetLen < tnsHeaderSize then Inr (pkt\<lparr>tp_Raw := header\<rparr>, s)
      else if packetLen > maxTNSPacketSize then Inl ErrTNSPacketTooLarge
      else case ReadFull (packetLen - tnsHeaderSize) s of Inl e \<Rightarrow> Inl (TnsPayload e)
      | Inr (payload, s1) \<Rightarrow>
          let pkt1 = pkt\<lparr>tp_Payload := payload, tp_Raw := header @ payload\<rparr> in
          if tp_Type pkt1 = TNSPacketTypeConnect then readExtendedConnectData pkt1 s1 else Inr (pkt1, s1))"

text \<open>For evaluation, the large bound is compared as an integer.\<close>

lemma read_body_code [code]:
  "read_body header pkt s =
     (let packetLen = packet_length header in
      if packetLen < tnsHeaderSize then Inr (pkt\<lparr>tp_Raw := header\<rparr>, s)
      else if int packetLen > 65535 then Inl ErrTNSPacketTooLarge
      else case ReadFull (packetLen - tnsHeaderSize) s of Inl e \<Rightarrow> Inl (TnsPayload e)
      | Inr (payload, s1) \<Rightarrow>
          let pkt1 = pkt\<lparr>tp_Payload := payload, tp_Raw := header @ payload\<rparr> in
          if tp_Type pkt1 = TNSPacketTypeConnect then readExtendedConnectData pkt1 s1 else Inr (pkt1, s1))"
proof -
  have "(maxTNSPacketSize < n) = (65535 < int n)" for n by (simp add: maxTNSPacketSize_def)
  then show ?thesis by (simp only: read_body_def)
qed

definition readTNSPacket :: "bytes \<Rightarrow> tns_error + tns_packet \<times> bytes" where
  "readTNSPacket s =
     (case ReadFull tnsHeaderSize s of Inl e \<Rightarrow> Inl (TnsHeader e)
      | Inr (header, s1) \<Rightarrow> (case parseTNSHeader header of Inl e \<Rightarrow> Inl e | Inr pkt \<Rightarrow> read_body header pkt s1))"

text \<open>The bytes that \<open>writeTNSPacket\<close> sends.\<close>

definition writeTNSPacket :: "tns_packet \<Rightarrow> bytes" where
  "writeTNSPacket pkt = (if length (tp_Raw pkt) > 0 then tp_Raw pkt else encodeTNSPacket (tp_Type pkt) (tp_Payload pkt))"

definition markerTypeBreak :: byte where "markerTypeBreak = 1"
definition markerTypeReset :: byte where "markerTypeReset = 2"
definition markerTypeInterrupt :: byte where "markerTypeInterrupt = 3"

definition isBreakMarker :: "tns_packet \<Rightarrow> bool" where
  "isBreakMarker pkt \<longleftrightarrow> tp_Type pkt = TNSPacketTypeControl \<and> \<not> length (tp_Payload pkt) < 3
     \<and> (tp_Payload pkt ! 2 = markerTypeBreak \<or> tp_Payload pkt ! 2 = markerTypeInterrupt)"

definition isResetMarker :: "tns_packet \<Rightarrow> bool" where
  "isResetMarker pkt \<longleftrightarrow> tp_Type pkt = TNSPacketTypeControl \<and> \<not> length (tp_Payload pkt) < 3 \<and> tp_Payload pkt ! 2 = markerTypeReset"

definition buildResetMarker :: bytes where
  "buildResetMarker = [0, 0, 0, 11, 12, 0, 0, 0, 1, 0, markerTypeReset]"

section \<open>TTC function codes\<close>

definition TTCFuncPiggyback :: byte where "TTCFuncPiggyback = 0x03"
definition TTCFuncOERR :: byte where "TTCFuncOERR = 0x04"
definition TTCFuncOCLOSE :: byte where "TTCFuncOCLOSE = 0x05"
definition TTCFuncContinuation :: byte where "TTCFuncContinuation = 0x06"
definition TTCFuncResponse :: byte where "TTCFuncResponse = 0x08"
definition TTCFuncOClosev2 :: byte where "TTCFuncOClosev2 = 0x09"
definition TTCFuncOALL8 :: byte where "TTCFuncOALL8 = 0x0E"
definition TTCFuncQueryResult :: byte where "TTCFuncQueryResult = 0x10"
definition TTCFuncOFETCH :: byte where "TTCFuncOFETCH = 0x11"

definition PiggybackSubClose :: byte where "PiggybackSubClose = 0x09"
definition PiggybackSubExecSQL :: byte where "PiggybackSubExecSQL = 0x5e"
definition execSubOpJDBC :: byte where "execSubOpJDBC = 0x69"
definition execSubOpPython :: byte where "execSubOpPython = 0x98"

lemmas ttc_codes = TTCFuncPiggyback_def TTCFuncOERR_def TTCFuncOCLOSE_def TTCFuncContinuation_def TTCFuncResponse_def TTCFuncOClosev2_def
  TTCFuncOALL8_def TTCFuncQueryResult_def TTCFuncOFETCH_def PiggybackSubClose_def PiggybackSubExecSQL_def execSubOpJDBC_def execSubOpPython_def

definition ttcDataFlagsSize :: nat where "ttcDataFlagsSize = 2"

definition parseTTCFunctionCode :: "bytes \<Rightarrow> byte option" where
  "parseTTCFunctionCode payload = (if length payload < ttcDataFlagsSize + 1 then None else Some (payload ! ttcDataFlagsSize))"

definition extractTTCPayload :: "bytes \<Rightarrow> bytes option" where
  "extractTTCPayload payload = (if length payload < ttcDataFlagsSize + 1 then None else Some (drop ttcDataFlagsSize payload))"

definition IsPiggybackExecSQL :: "bytes \<Rightarrow> bool" where
  "IsPiggybackExecSQL ttcPayload \<longleftrightarrow> length ttcPayload > 1 \<and> ttcPayload ! 1 = PiggybackSubExecSQL"

definition IsPiggybackClose :: "bytes \<Rightarrow> bool" where
  "IsPiggybackClose ttcPayload \<longleftrightarrow> length ttcPayload > 1 \<and> ttcPayload ! 1 = PiggybackSubClose"

definition IsExecSQL :: "bytes \<Rightarrow> bool" where
  "IsExecSQL ttcPayload \<longleftrightarrow> \<not> length ttcPayload < 2 \<and> (ttcPayload ! 1 = execSubOpJDBC \<or> ttcPayload ! 1 = execSubOpPython)"

section \<open>Numbers\<close>

text \<open>\<open>fmt.Fprintf\<close> with \<open>%02d\<close>, for the values that reach it.\<close>

definition two_digits :: "nat \<Rightarrow> string" where
  "two_digits d = (if d < 10 then ''0'' @ digits d else digits d)"

definition TrimLeft :: "char \<Rightarrow> string \<Rightarrow> string" where "TrimLeft c s = dropWhile (\<lambda>x. x = c) s"
definition TrimRight :: "char \<Rightarrow> string \<Rightarrow> string" where "TrimRight c s = rev (dropWhile (\<lambda>x. x = c) (rev s))"

definition placeDecimalPoint :: "string \<Rightarrow> int \<Rightarrow> string" where
  "placeDecimalPoint mant shift =
     (if shift \<ge> 0 then
        (let t = TrimLeft (CHR ''0'') (mant @ replicate (nat shift) (CHR ''0'')) in if t \<noteq> [] then t else ''0'')
      else
        let frac = nat (- shift);
            intPart = (if length mant > frac then take (length mant - frac) mant else ''0'');
            fracPart = (if length mant > frac then drop (length mant - frac) mant else replicate (frac - length mant) (CHR ''0'') @ mant);
            intPart' = (let t = TrimLeft (CHR ''0'') intPart in if t = [] then ''0'' else t);
            fracPart' = TrimRight (CHR ''0'') fracPart
        in if fracPart' = [] then intPart' else intPart' @ ''.'' @ fracPart')"

text \<open>Sign, base-100 exponent and digits of a NUMBER that is not the one byte of zero. A slice out of range panics.\<close>

datatype 'a go = Panics | Returns 'a

definition number_parts :: "bytes \<Rightarrow> (bool \<times> int \<times> int list) go" where
  "number_parts b =
     (if b ! 0 AND 0x80 \<noteq> 0
      then Returns (True, int (unat (b ! 0 AND 0x7f)) - 65, map (\<lambda>c. int (unat c) - 1) (drop 1 b))
      else let e = (if last b = 0x66 then length b - 1 else length b)
           in if e < 1 then Panics
              else Returns (False, int (unat ((b ! 0 XOR 0xff) AND 0x7f)) - 65, map (\<lambda>c. 101 - int (unat c)) (drop 1 (take e b))))"

definition formatOracleNumber :: "bytes \<Rightarrow> string option go" where
  "formatOracleNumber b =
     (if b = [] then Returns None
      else if b = [0x80] then Returns (Some ''0'')
      else case number_parts b of Panics \<Rightarrow> Panics
      | Returns (positive, exp100, ds) \<Rightarrow>
        if ds = [] \<or> list_ex (\<lambda>d. d < 0 \<or> d > 99) ds then Returns None
        else let s = placeDecimalPoint (concat (map (\<lambda>d. two_digits (nat d)) ds)) (2 * (exp100 - int (length ds) + 1))
             in Returns (Some (if positive then s else ''-'' @ s)))"

definition isOracleNumber :: "bytes \<Rightarrow> bool" where
  "isOracleNumber b =
     (let n = length b in
      if n < 2 \<or> n > 21 then False
      else if b ! 0 AND 0x80 \<noteq> 0 then
        \<not> (b ! 1 < 2 \<or> last b < 2) \<and> list_all (\<lambda>c. \<not> (c < 1 \<or> c > 100)) (drop 1 b)
      else if last b \<noteq> 0x66 \<and> n \<le> 20 then False
      else let e = (if last b = 0x66 then n - 1 else n) in
        \<not> (e < 2 \<or> b ! 1 > 100 \<or> b ! (e - 1) > 100) \<and> list_all (\<lambda>c. \<not> (c < 2 \<or> c > 101)) (drop 1 (take e b)))"

text \<open>The check in front leaves no input on which the formatting panics (\<open>checked_number_returns\<close>).\<close>

definition decodeOracleNumberToString :: "bytes \<Rightarrow> string option" where
  "decodeOracleNumberToString b =
     (if b = [0x80] then Some ''0'' else if \<not> isOracleNumber b then None
      else case formatOracleNumber b of Panics \<Rightarrow> None | Returns r \<Rightarrow> r)"

lemma checked_number_returns: "isOracleNumber b \<Longrightarrow> formatOracleNumber b \<noteq> Panics"
  by (auto simp: isOracleNumber_def formatOracleNumber_def number_parts_def Let_def split: if_splits go.splits)

section \<open>Bind values\<close>

datatype ttc_error = ErrEmptySQL | ErrOALL8TooShort | ErrOFETCHTooShort | ErrSQLLengthInvalid | ErrTTCPayloadTooShort

definition decodeVarLen :: "bytes \<Rightarrow> ttc_error + nat \<times> nat" where
  "decodeVarLen data =
     (case data of [] \<Rightarrow> Inl ErrOALL8TooShort
      | first # _ \<Rightarrow>
          if first < 0xFE then Inr (unat first, 1)
          else if first = 0xFE then
            (if length data < 3 then Inl ErrOALL8TooShort else Inr (unat (Uint16_BE (drop 1 data)), 3))
          else if length data < 5 then Inl ErrOALL8TooShort else Inr (unat (Uint32_BE (drop 1 data)), 5))"

definition hex_digit :: "nat \<Rightarrow> char" where "hex_digit n = ''0123456789abcdef'' ! n"

definition hex_encode :: "bytes \<Rightarrow> string" where
  "hex_encode bs = concat (map (\<lambda>b. [hex_digit (unat b div 16), hex_digit (unat b mod 16)]) bs)"

text \<open>Every rune of a valid text is its own encoding.\<close>

definition isBinaryData :: "bytes \<Rightarrow> bool" where
  "isBinaryData data =
     (let s = str_of data in
      concat (map (\<lambda>(r, _). encode_rune r) (segs s)) \<noteq> s
      \<or> list_ex (\<lambda>r. r < 32 \<and> r \<noteq> 9 \<and> r \<noteq> 10 \<and> r \<noteq> 13) (runes s))"

definition decodeBindValue :: "bytes \<Rightarrow> string" where
  "decodeBindValue b =
     (if b = [] then ''NULL''
      else if \<not> isBinaryData b then str_of b
      else case decodeOracleNumberToString b of Some s \<Rightarrow> s | None \<Rightarrow> hex_encode b)"

fun decodeBindValues :: "bytes \<Rightarrow> nat \<Rightarrow> string list" where
  "decodeBindValues data 0 = []"
| "decodeBindValues data (Suc n) =
     (if data = [] then []
      else case decodeVarLen data of Inl e \<Rightarrow> []
      | Inr (valLen, bytesRead) \<Rightarrow>
          let rest = drop bytesRead data in
          if valLen = 0 then ''NULL'' # decodeBindValues rest n
          else if valLen > length rest then []
          else decodeBindValue (take valLen rest) # decodeBindValues (drop valLen rest) n)"

section \<open>Statements\<close>

record oall8_result =
  o8_SQL :: string
  o8_CursorID :: u16
  o8_BindValues :: "string list"

definition oall8MinPayloadSize :: nat where "oall8MinPayloadSize = 8"

definition decodeOALL8 :: "bytes \<Rightarrow> ttc_error + oall8_result" where
  "decodeOALL8 ttcPayload =
     (if length ttcPayload < oall8MinPayloadSize then Inl ErrOALL8TooShort
      else case decodeVarLen (drop 7 ttcPayload) of Inl e \<Rightarrow> Inl e
      | Inr (sqlLen, bytesRead) \<Rightarrow>
          let rest = drop (7 + bytesRead) ttcPayload in
          if sqlLen = 0 then Inl ErrEmptySQL
          else if sqlLen > length rest then Inl ErrSQLLengthInvalid
          else
            let tail = drop sqlLen rest;
                bindCount = (if length tail \<ge> 2 then unat (Uint16_BE tail) else 0)
            in Inr \<lparr>o8_SQL = str_of (take sqlLen rest), o8_CursorID = Uint16_BE (drop 5 ttcPayload),
                    o8_BindValues = decodeBindValues (drop 2 tail) bindCount\<rparr>)"

definition sqlKeywords :: "string list" where
  "sqlKeywords = [''SELECT'', ''INSERT'', ''UPDATE'', ''DELETE'', ''CREATE'', ''DROP'', ''ALTER'', ''TRUNCATE'', ''MERGE'', ''CALL'', ''BEGIN'',
     ''DECLARE'', ''WITH'', ''GRANT'', ''REVOKE'', ''EXPLAIN'', ''SET'', ''COMMIT'', ''ROLLBACK'', ''SAVEPOINT'', ''LOCK'', ''COMMENT'']"

definition looksLikeSQL :: "string \<Rightarrow> bool" where
  "looksLikeSQL s =
     (if length s < 2 then False else list_ex (\<lambda>kw. HasPrefix (ToUpper (TrimSpace s)) kw) sqlKeywords)"

definition extractSQLAtOffset :: "bytes \<Rightarrow> nat \<Rightarrow> ttc_error + string" where
  "extractSQLAtOffset data offset =
     (if offset \<ge> length data then Inl ErrOALL8TooShort
      else case decodeVarLen (drop offset data) of Inl e \<Rightarrow> Inl ErrEmptySQL
      | Inr (sqlLen, bytesRead) \<Rightarrow>
          if sqlLen = 0 \<or> sqlLen > 32768 then Inl ErrEmptySQL
          else
            let sqlStart = offset + bytesRead; sqlEnd = sqlStart + sqlLen in
            if sqlEnd > length data then Inl ErrSQLLengthInvalid
            else
              let sqlText = str_of (take sqlLen (drop sqlStart data)) in
              if \<not> looksLikeSQL sqlText then Inl ErrEmptySQL else Inr sqlText)"

definition payloadKeywords :: "string list" where
  "payloadKeywords = [''SELECT'', ''INSERT'', ''UPDATE'', ''DELETE'', ''CREATE'', ''DROP'', ''ALTER'', ''BEGIN'', ''DECLARE'', ''WITH'', ''MERGE'', ''CALL'']"

definition equalFoldASCIIBytes :: "string \<Rightarrow> string \<Rightarrow> bool" where
  "equalFoldASCIIBytes a b \<longleftrightarrow> map ascii_lower a = map ascii_lower b"

fun indexOfAnyKeywordCI :: "string \<Rightarrow> string list \<Rightarrow> nat option" where
  "indexOfAnyKeywordCI [] keywords = None"
| "indexOfAnyKeywordCI (c # s) keywords =
     (if list_ex (\<lambda>kw. length kw \<le> length (c # s) \<and> equalFoldASCIIBytes (take (length kw) (c # s)) kw) keywords then Some 0
      else map_option Suc (indexOfAnyKeywordCI s keywords))"

definition findSQLInPayload :: "bytes \<Rightarrow> string" where
  "findSQLInPayload payload =
     (case indexOfAnyKeywordCI (str_of payload) payloadKeywords of None \<Rightarrow> []
      | Some idx \<Rightarrow>
          let run = takeWhile (\<lambda>b. b \<ge> 0x0A \<and> b \<le> 0x7E) (drop idx payload)
          in if length run > 2 then TrimSpace (str_of run) else [])"

text \<open>The first offset of a list at which a statement can be read.\<close>

fun first_sql :: "bytes \<Rightarrow> nat list \<Rightarrow> string option" where
  "first_sql data [] = None"
| "first_sql data (n # ns) =
     (if \<not> n < length data - 1 then None
      else case extractSQLAtOffset data n of Inr found \<Rightarrow> (if found \<noteq> [] then Some found else first_sql data ns) | Inl e \<Rightarrow> first_sql data ns)"

definition isBindNameByte :: "char \<Rightarrow> bool" where
  "isBindNameByte c \<longleftrightarrow>
     (let n = (of_char c :: nat) in n = 95 \<or> (48 \<le> n \<and> n \<le> 57) \<or> (97 \<le> n \<and> n \<le> 122) \<or> (65 \<le> n \<and> n \<le> 90))"

function bind_names :: "string \<Rightarrow> string list" where
  "bind_names [] = []"
| "bind_names (c # s) =
     (if c \<noteq> CHR '':'' \<or> takeWhile isBindNameByte s = [] then bind_names s
      else (c # takeWhile isBindNameByte s) # bind_names (dropWhile isBindNameByte s))"
  by pat_completeness auto
termination
  by (relation "measure length") (simp_all add: le_imp_less_Suc length_dropWhile_le)

definition countBindPlaceholders :: "string \<Rightarrow> nat" where
  "countBindPlaceholders sql = length (remdups (bind_names sql))"

fun readLenPrefixedValues :: "bytes \<Rightarrow> nat \<Rightarrow> bytes list option" where
  "readLenPrefixedValues data 0 = (if data = [] then Some [] else None)"
| "readLenPrefixedValues data (Suc count) =
     (case data of [] \<Rightarrow> None
      | b # rest \<Rightarrow>
          let n = unat b in
          if n = 0 then map_option (\<lambda>vs. [] # vs) (readLenPrefixedValues rest count)
          else if n > 2000 \<or> n > length rest then None
          else map_option (\<lambda>vs. take n rest # vs) (readLenPrefixedValues (drop n rest) count))"

fun first_values :: "bytes \<Rightarrow> nat \<Rightarrow> nat list \<Rightarrow> bytes list option" where
  "first_values payload count [] = None"
| "first_values payload count (start # ns) =
     (case readLenPrefixedValues (drop start payload) count of Some vs \<Rightarrow> Some vs | None \<Rightarrow> first_values payload count ns)"

definition extractPiggybackBinds :: "bytes \<Rightarrow> string \<Rightarrow> string list" where
  "extractPiggybackBinds payload sql =
     (let count = countBindPlaceholders sql in
      if count = 0 then []
      else
        let lo = (case Index (str_of payload) sql of Some idx \<Rightarrow> idx + length sql | None \<Rightarrow> 0) in
        case first_values payload count (rev [lo..<length payload]) of None \<Rightarrow> [] | Some vals \<Rightarrow> map decodeBindValue vals)"

definition decodePiggybackExecSQL :: "bytes \<Rightarrow> ttc_error + oall8_result" where
  "decodePiggybackExecSQL ttcPayload =
     (if length ttcPayload < 52 then Inl ErrOALL8TooShort
      else
        let sql = (case first_sql ttcPayload [40..<70] of Some found \<Rightarrow> found | None \<Rightarrow> findSQLInPayload ttcPayload) in
        if sql = [] then Inl ErrEmptySQL
        else Inr \<lparr>o8_SQL = sql, o8_CursorID = 0, o8_BindValues = extractPiggybackBinds ttcPayload sql\<rparr>)"

definition decodeExecSQL :: "bytes \<Rightarrow> ttc_error + oall8_result" where
  "decodeExecSQL ttcPayload =
     (if length ttcPayload < 30 then Inl ErrOALL8TooShort
      else case first_sql ttcPayload [50..<76] of Some sql \<Rightarrow> Inr \<lparr>o8_SQL = sql, o8_CursorID = 0, o8_BindValues = []\<rparr>
      | None \<Rightarrow>
          let sql = findSQLInPayload ttcPayload in
          if sql \<noteq> [] then Inr \<lparr>o8_SQL = sql, o8_CursorID = 0, o8_BindValues = []\<rparr> else Inl ErrEmptySQL)"

definition ofetchMinPayloadSize :: nat where "ofetchMinPayloadSize = 7"

definition decodeOFETCH :: "bytes \<Rightarrow> ttc_error + u16 \<times> u32" where
  "decodeOFETCH ttcPayload =
     (if length ttcPayload < ofetchMinPayloadSize then Inl ErrOFETCHTooShort
      else Inr (Uint16_BE (drop 1 ttcPayload), Uint32_BE (drop 3 ttcPayload)))"

definition decodeCursorIDFromOCLOSE :: "bytes \<Rightarrow> ttc_error + u16" where
  "decodeCursorIDFromOCLOSE ttcPayload =
     (if length ttcPayload < 3 then Inl ErrTTCPayloadTooShort else Inr (Uint16_BE (drop 1 ttcPayload)))"

section \<open>Status messages\<close>

text \<open>The value is an \<open>int\<close> of 64 bits; no bytes consumed is \<open>None\<close>.\<close>

definition readCompressedInt :: "bytes \<Rightarrow> (int \<times> nat) option" where
  "readCompressedInt buf =
     (case buf of [] \<Rightarrow> None
      | b # rest \<Rightarrow>
          let n = unat b in
          if n = 0 then Some (0, 1)
          else if n > 8 \<or> 1 + n > length buf then None
          else Some (wrap_i64 (int (be_dec (take n rest))), 1 + n))"

record oer_info =
  oer_CallStatus :: int
  oer_SeqNumber :: int
  oer_CurRowNumber :: int
  oer_ErrorCode :: int
  oer_ErrorMessage :: string

definition oerEndOfCallBit :: int where "oerEndOfCallBit = 0x010000"
definition oraNoDataFound :: int where "oraNoDataFound = 1403"

definition oerFieldMaxSizes :: "nat list" where "oerFieldMaxSizes = [4, 2, 8, 4, 2, 2, 4]"

fun oer_fields :: "bytes \<Rightarrow> nat list \<Rightarrow> (int list \<times> bytes) option" where
  "oer_fields data [] = Some ([], data)"
| "oer_fields data (m # ms) =
     (case readCompressedInt data of None \<Rightarrow> None
      | Some (val, n) \<Rightarrow>
          if n - 1 > m then None
          else (case oer_fields (drop n data) ms of None \<Rightarrow> None | Some (vs, rest) \<Rightarrow> Some (val # vs, rest)))"

definition extractORAMessage :: "bytes \<Rightarrow> string" where
  "extractORAMessage data =
     (case Index (str_of data) ''ORA-'' of None \<Rightarrow> []
      | Some idx \<Rightarrow> TrimSpace (str_of (takeWhile (\<lambda>b. b \<ge> 0x20 \<and> b \<le> 0x7e) (drop idx data))))"

definition decodeOERAt :: "bytes \<Rightarrow> nat \<Rightarrow> oer_info option" where
  "decodeOERAt payload offset =
     (if offset \<ge> length payload \<or> payload ! offset \<noteq> 4 then None
      else case oer_fields (drop (offset + 1) payload) oerFieldMaxSizes of None \<Rightarrow> None
      | Some (fs, rest) \<Rightarrow>
          if fs ! 0 AND oerEndOfCallBit = 0 then None
          else Some \<lparr>oer_CallStatus = fs ! 0, oer_SeqNumber = fs ! 1, oer_CurRowNumber = fs ! 2, oer_ErrorCode = fs ! 3,
                     oer_ErrorMessage = (if fs ! 3 \<noteq> 0 then extractORAMessage rest else [])\<rparr>)"

fun first_oer :: "bytes \<Rightarrow> nat list \<Rightarrow> oer_info option" where
  "first_oer payload [] = None"
| "first_oer payload (i # ns) =
     (if payload ! i \<noteq> 4 then first_oer payload ns
      else case decodeOERAt payload i of Some info \<Rightarrow> Some info | None \<Rightarrow> first_oer payload ns)"

definition findOERInResponse :: "bytes \<Rightarrow> oer_info option" where
  "findOERInResponse payload = first_oer payload [1..<length payload]"

section \<open>Framing\<close>

lemma extended_exact:
  assumes "readExtendedConnectData p s = Inr (q, rest)"
  shows "tp_Raw p @ s = tp_Raw q @ rest \<and> length (tp_Raw p) \<le> length (tp_Raw q) \<and> length (tp_Raw q) \<le> length (tp_Raw p) + maxTNSPacketSize"
  using assms by (auto simp: readExtendedConnectData_def Let_def ReadFull_Inr split: if_splits sum.splits)

lemma body_exact:
  assumes "read_body header p s = Inr (q, rest)" and "length header = tnsHeaderSize"
  shows "header @ s = tp_Raw q @ rest \<and> tnsHeaderSize \<le> length (tp_Raw q) \<and> length (tp_Raw q) \<le> 2 * maxTNSPacketSize"
proof (cases "packet_length header < tnsHeaderSize")
  case True
  then show ?thesis using assms by (auto simp: read_body_def tnsHeaderSize_def maxTNSPacketSize_def)
next
  case False
  with assms obtain payload s1 where pl: "length payload = packet_length header - tnsHeaderSize" "s = payload @ s1" "packet_length header \<le> maxTNSPacketSize"
    and f: "(if tp_Type p = TNSPacketTypeConnect then readExtendedConnectData (p\<lparr>tp_Payload := payload, tp_Raw := header @ payload\<rparr>) s1
        else Inr (p\<lparr>tp_Payload := payload, tp_Raw := header @ payload\<rparr>, s1)) = Inr (q, rest)"
    by (auto simp: read_body_def Let_def ReadFull_Inr split: if_splits sum.splits prod.splits)
  have len: "length (header @ payload) \<le> maxTNSPacketSize" using pl assms(2) False by simp
  show ?thesis
  proof (cases "tp_Type p = TNSPacketTypeConnect")
    case True
    then have "readExtendedConnectData (p\<lparr>tp_Payload := payload, tp_Raw := header @ payload\<rparr>) s1 = Inr (q, rest)" using f by simp
    from extended_exact [OF this] show ?thesis using assms(2) pl len by simp
  next
    case False
    then show ?thesis using f assms(2) pl len by auto
  qed
qed

lemma header_parsed: "length header = tnsHeaderSize \<Longrightarrow> parseTNSHeader header =
    Inr \<lparr>tp_Type = header ! 4, tp_Flags = header ! 5, tp_Length = Uint16_BE header, tp_Payload = [], tp_Raw = []\<rparr>"
  by (simp add: parseTNSHeader_def)

lemma read_exact:
  assumes "readTNSPacket s = Inr (p, rest)"
  shows "s = tp_Raw p @ rest \<and> tnsHeaderSize \<le> length (tp_Raw p) \<and> length (tp_Raw p) \<le> 2 * maxTNSPacketSize"
proof -
  obtain header s1 where h: "length header = tnsHeaderSize" "s = header @ s1" "ReadFull tnsHeaderSize s = Inr (header, s1)"
    using assms by (auto simp: readTNSPacket_def ReadFull_Inr split: sum.splits)
  then have "read_body header \<lparr>tp_Type = header ! 4, tp_Flags = header ! 5, tp_Length = Uint16_BE header, tp_Payload = [], tp_Raw = []\<rparr> s1 = Inr (p, rest)"
    using assms by (simp add: readTNSPacket_def header_parsed)
  from body_exact [OF this h(1)] show ?thesis using h(2) by simp
qed

lemma packet_read:
  assumes "typ \<noteq> TNSPacketTypeConnect" and "tnsHeaderSize + length payload \<le> maxTNSPacketSize"
  shows "readTNSPacket (encodeTNSPacket typ payload @ s) =
    Inr (\<lparr>tp_Type = typ, tp_Flags = 0, tp_Length = of_nat (tnsHeaderSize + length payload), tp_Payload = payload,
          tp_Raw = encodeTNSPacket typ payload\<rparr>, s)"
proof -
  let ?w = "of_nat (tnsHeaderSize + length payload) :: u16"
  let ?h = "PutUint16_BE ?w @ [0, 0, typ, 0, 0, 0]"
  have n: "unat ?w = tnsHeaderSize + length payload" using assms(2) by (intro unat_of_nat_u16) (simp add: maxTNSPacketSize_def)
  then have pos: "?w > 0" by (metis add_gr_0 tnsHeaderSize_def unat_gt_0 word_neq_0_conv zero_less_numeral)
  have h: "ReadFull tnsHeaderSize (?h @ payload @ s) = Inr (?h, payload @ s)" by (simp add: ReadFull_Inr tnsHeaderSize_def)
  have idx: "?h ! 4 = typ" "?h ! 5 = 0" "Uint16_BE ?h = ?w" "length ?h = tnsHeaderSize" by (simp_all add: nth_append tnsHeaderSize_def)
  have "readTNSPacket (?h @ payload @ s) = Inr (\<lparr>tp_Type = typ, tp_Flags = 0, tp_Length = ?w, tp_Payload = payload, tp_Raw = ?h @ payload\<rparr>, s)"
    unfolding readTNSPacket_def h using assms n pos idx by (simp add: header_parsed read_body_def packet_length_def)
  then show ?thesis by (simp add: encodeTNSPacket_def)
qed

text \<open>C31. The relay does not change a packet: what is written for a packet that was read is the bytes it was read from, at most
  two frames of them, and a packet the proxy builds is read back as it was built, with nothing taken from the bytes behind it.\<close>

theorem tns_forwarded_exactly:
  assumes "readTNSPacket s = Inr (p, rest)" and "typ \<noteq> TNSPacketTypeConnect" and "tnsHeaderSize + length payload \<le> maxTNSPacketSize"
  shows "s = writeTNSPacket p @ rest \<and> length (writeTNSPacket p) \<le> 2 * maxTNSPacketSize
    \<and> readTNSPacket (encodeTNSPacket typ payload @ s) =
        Inr (\<lparr>tp_Type = typ, tp_Flags = 0, tp_Length = of_nat (tnsHeaderSize + length payload), tp_Payload = payload,
              tp_Raw = encodeTNSPacket typ payload\<rparr>, s)"
  using read_exact [OF assms(1)] packet_read [OF assms(2,3)] by (auto simp: writeTNSPacket_def tnsHeaderSize_def)

theorem tns_forwarded_exactly_witness:
  "[0, 10, 0, 0, 6, 0, 0, 0, 7, 8, 9] =
     writeTNSPacket \<lparr>tp_Type = 6, tp_Flags = 0, tp_Length = 10, tp_Payload = [7, 8], tp_Raw = [0, 10, 0, 0, 6, 0, 0, 0, 7, 8]\<rparr> @ [9]"
proof -
  have "Uint16_BE [0, 10, 0, 0, 6, 0, 0, 0] = 10" by code_simp
  then have "readTNSPacket [0, 10, 0, 0, 6, 0, 0, 0, 7, 8, 9] =
      Inr (\<lparr>tp_Type = 6, tp_Flags = 0, tp_Length = 10, tp_Payload = [7, 8], tp_Raw = [0, 10, 0, 0, 6, 0, 0, 0, 7, 8]\<rparr>, [9])"
    by (simp add: readTNSPacket_def ReadFull_def parseTNSHeader_def read_body_def packet_length_def Let_def
        tnsHeaderSize_def maxTNSPacketSize_def TNSPacketTypeConnect_def)
  from tns_forwarded_exactly [OF this, of TNSPacketTypeData "[]"] show ?thesis
    by (simp add: TNSPacketTypeConnect_def TNSPacketTypeData_def tnsHeaderSize_def maxTNSPacketSize_def)
qed

section \<open>Decimal values\<close>

definition is_dec :: "string \<Rightarrow> bool" where "is_dec s = list_all (\<lambda>c. c \<noteq> CHR ''.'' \<and> c \<noteq> CHR ''-'') s"

definition unsigned_value :: "string \<Rightarrow> rat" where
  "unsigned_value s =
     (let ip = takeWhile (\<lambda>c. c \<noteq> CHR ''.'') s; fp = drop (length ip + 1) s in of_nat (dec_val (ip @ fp)) / 10 ^ length fp)"

definition decimal_value :: "string \<Rightarrow> rat" where
  "decimal_value s = (case s of c # t \<Rightarrow> (if c = CHR ''-'' then - unsigned_value t else unsigned_value s) | [] \<Rightarrow> unsigned_value [])"

lemma dec_val_Nil [simp]: "dec_val [] = 0" by (simp add: dec_val_def)

lemma dec_val_foldl: "foldl (\<lambda>n c. n * 10 + (of_char c - 48)) a s = a * 10 ^ length s + dec_val s"
proof (induction s arbitrary: a)
  case (Cons c s)
  show ?case using Cons [of "a * 10 + (of_char c - 48)"] Cons [of "of_char c - 48"] by (simp add: dec_val_def algebra_simps)
qed simp

lemma dec_val_append: "dec_val (a @ b) = dec_val a * 10 ^ length b + dec_val b"
  unfolding dec_val_def foldl_append by (rule dec_val_foldl [unfolded dec_val_def])

lemma dec_val_zeros [simp]: "dec_val (replicate n (CHR ''0'')) = 0"
  by (induction n) (simp_all add: dec_val_def)

lemma dec_val_Cons0: "dec_val (CHR ''0'' # s) = dec_val s"
  using dec_val_append [of "[CHR ''0'']" s] by (simp add: dec_val_def)

lemma dec_val_TrimLeft [simp]: "dec_val (TrimLeft (CHR ''0'') s) = dec_val s"
  by (induction s) (simp_all add: TrimLeft_def dec_val_Cons0)

lemma TrimRight_zeros: "\<exists>k. s = TrimRight (CHR ''0'') s @ replicate k (CHR ''0'')"
proof -
  let ?w = "takeWhile (\<lambda>x. x = CHR ''0'') (rev s)"
  have "\<forall>x\<in>set ?w. x = CHR ''0''" by (auto dest: set_takeWhileD)
  from replicate_length_same [OF this] have "rev ?w = replicate (length ?w) (CHR ''0'')" by (metis rev_replicate)
  moreover have "s = rev (?w @ dropWhile (\<lambda>x. x = CHR ''0'') (rev s))" by (simp only: takeWhile_dropWhile_id rev_rev_ident)
  ultimately have "s = TrimRight (CHR ''0'') s @ replicate (length ?w) (CHR ''0'')" unfolding TrimRight_def by (metis rev_append)
  then show ?thesis by blast
qed

lemma is_dec_append [simp]: "is_dec (a @ b) \<longleftrightarrow> is_dec a \<and> is_dec b" by (simp add: is_dec_def)

lemma is_dec_zeros [simp]: "is_dec (replicate n (CHR ''0''))" by (simp add: is_dec_def list_all_iff)

lemma is_dec_Trim: "is_dec s \<Longrightarrow> is_dec (TrimLeft c s)" "is_dec s \<Longrightarrow> is_dec (TrimRight c s)"
proof -
  assume d: "is_dec s"
  have "set (dropWhile P t) \<subseteq> set t" for P and t :: string by (auto dest: set_dropWhileD)
  then show "is_dec (TrimLeft c s)" "is_dec (TrimRight c s)"
    using d by (simp_all add: is_dec_def TrimLeft_def TrimRight_def list_all_iff subset_iff) (metis set_rev)
qed

lemma value_whole: "is_dec s \<Longrightarrow> unsigned_value s = of_nat (dec_val s)"
proof -
  assume "is_dec s"
  then have "takeWhile (\<lambda>c. c \<noteq> CHR ''.'') s = s" by (simp add: is_dec_def list_all_iff takeWhile_eq_all_conv)
  then show ?thesis by (simp only: unsigned_value_def Let_def) simp
qed

lemma value_split: "is_dec a \<Longrightarrow> unsigned_value (a @ ''.'' @ b) = of_nat (dec_val (a @ b)) / 10 ^ length b"
proof -
  assume "is_dec a"
  then have "takeWhile (\<lambda>c. c \<noteq> CHR ''.'') (a @ ''.'' @ b) = a" by (simp add: is_dec_def list_all_iff takeWhile_append)
  then show ?thesis by (simp only: unsigned_value_def Let_def) simp
qed

lemma is_dec_sub: "is_dec s \<Longrightarrow> is_dec (take n s)" "is_dec s \<Longrightarrow> is_dec (drop n s)"
  by (metis append_take_drop_id is_dec_append)+

lemma zero_or_trim:
  "is_dec s \<Longrightarrow> (let t = TrimLeft (CHR ''0'') s in if t = [] then ''0'' else t) = u \<Longrightarrow> is_dec u \<and> dec_val u = dec_val s \<and> u \<noteq> []"
proof -
  assume d: "is_dec s" and u: "(let t = TrimLeft (CHR ''0'') s in if t = [] then ''0'' else t) = u"
  have v: "dec_val (TrimLeft (CHR ''0'') s) = dec_val s" by (rule dec_val_TrimLeft)
  show ?thesis
  proof (cases "TrimLeft (CHR ''0'') s = []")
    case True
    then have "u = ''0''" "dec_val s = 0" using u v by simp_all
    then show ?thesis by (simp add: is_dec_def dec_val_def)
  next
    case False
    then show ?thesis using u v is_dec_Trim(1) [OF d, of "CHR ''0''"] by simp
  qed
qed

lemma placed_value:
  assumes "is_dec mant"
  shows "unsigned_value (placeDecimalPoint mant shift) = of_nat (dec_val mant) * 10 powi shift"
proof (cases "shift \<ge> 0")
  case True
  let ?m = "mant @ replicate (nat shift) (CHR ''0'')"
  have "is_dec (placeDecimalPoint mant shift) \<and> dec_val (placeDecimalPoint mant shift) = dec_val ?m \<and> placeDecimalPoint mant shift \<noteq> []"
    by (rule zero_or_trim) (use assms True in \<open>simp_all add: placeDecimalPoint_def Let_def\<close>)
  then show ?thesis using True by (simp add: value_whole dec_val_append power_int_def)
next
  case False
  define frac where "frac = nat (- shift)"
  define ip where "ip = (if length mant > frac then take (length mant - frac) mant else ''0'')"
  define fp where "fp = (if length mant > frac then drop (length mant - frac) mant else replicate (frac - length mant) (CHR ''0'') @ mant)"
  define ip' where "ip' = (let t = TrimLeft (CHR ''0'') ip in if t = [] then ''0'' else t)"
  define fp' where "fp' = TrimRight (CHR ''0'') fp"
  have lf: "length fp = frac" by (simp add: fp_def)
  have v: "dec_val (ip @ fp) = dec_val mant"
  proof (cases "length mant > frac")
    case True
    then show ?thesis by (simp add: ip_def fp_def)
  next
    case False
    then show ?thesis by (simp add: ip_def fp_def dec_val_append dec_val_Cons0)
  qed
  have d: "is_dec ip" "is_dec fp" using assms is_dec_sub [of mant] by (simp_all add: ip_def fp_def) (simp add: is_dec_def)
  have ip': "is_dec ip'" "dec_val ip' = dec_val ip" using zero_or_trim [OF d(1) ip'_def [symmetric]] by simp_all
  obtain k where k: "fp = fp' @ replicate k (CHR ''0'')" using TrimRight_zeros [of fp] unfolding fp'_def by blast
  have pd: "placeDecimalPoint mant shift = (if fp' = [] then ip' else ip' @ ''.'' @ fp')"
    using False by (simp only: placeDecimalPoint_def Let_def frac_def fp'_def ip'_def ip_def fp_def if_False)
  have "unsigned_value (placeDecimalPoint mant shift) = of_nat (dec_val (ip' @ fp')) / 10 ^ length fp'"
  proof (cases "fp' = []")
    case True
    then show ?thesis using pd ip' by (simp add: value_whole)
  next
    case False
    then show ?thesis using pd value_split [OF ip'(1)] by simp
  qed
  also have "\<dots> = of_nat (dec_val (ip @ fp)) / 10 ^ frac"
  proof -
    have "frac = k + length fp'" using lf by (simp add: k)
    then show ?thesis using ip'(2) by (simp add: dec_val_append k field_simps power_add)
  qed
  also have "\<dots> = of_nat (dec_val mant) * 10 powi shift"
    using False by (simp add: v frac_def power_int_def field_simps)
  finally show ?thesis .
qed

section \<open>Values of numbers\<close>

text \<open>The format by its documentation: digits to the base 100, the first one with the weight \<open>100 ^ e\<close>. A positive number has the
  first byte \<open>193 + e\<close> and its digits increased by one; a negative number the first byte \<open>62 - e\<close> and each digit
  subtracted from 101, with the byte 102 behind them unless all the room is used.\<close>

definition number_encoding :: "bool \<Rightarrow> int \<Rightarrow> nat list \<Rightarrow> bool \<Rightarrow> bytes" where
  "number_encoding positive e ds ended =
     (if positive then of_nat (nat (193 + e)) # map (\<lambda>d. of_nat (d + 1)) ds
      else of_nat (nat (62 - e)) # map (\<lambda>d. of_nat (101 - d)) ds @ (if ended then [102] else []))"

definition number_value :: "bool \<Rightarrow> int \<Rightarrow> nat list \<Rightarrow> rat" where
  "number_value positive e ds = (if positive then 1 else - 1) * (\<Sum>i<length ds. of_nat (ds ! i) * 100 powi (e - int i))"

lemma two_digits_value: "d < 100 \<Longrightarrow> dec_val (two_digits d) = d" "d < 100 \<Longrightarrow> length (two_digits d) = 2"
proof -
  assume d: "d < 100"
  show "dec_val (two_digits d) = d" by (simp add: two_digits_def dec_val_Cons0)
  show "length (two_digits d) = 2"
  proof (cases "d < 10")
    case True
    then show ?thesis by (simp add: two_digits_def digits.simps [of d])
  next
    case False
    then have "d div 10 < 10" using d by simp
    then show ?thesis using False by (simp add: two_digits_def digits.simps [of d] digits.simps [of "d div 10"])
  qed
qed

lemma digits_dec: "is_dec (digits n)"
proof (induction n rule: digits.induct)
  case (1 n)
  have c: "char_of (48 + k) \<noteq> CHR ''.'' \<and> char_of (48 + k) \<noteq> CHR ''-''" if "k < 10" for k :: nat
  proof -
    have o: "of_char (char_of (48 + k) :: char) = (48 + k :: nat)" using that by simp
    show ?thesis
    proof (intro conjI notI)
      assume "char_of (48 + k) = CHR ''.''"
      then have "(48 + k :: nat) = of_char (CHR ''.'')" using o by metis
      then show False by simp
    next
      assume "char_of (48 + k) = CHR ''-''"
      then have "(48 + k :: nat) = of_char (CHR ''-'')" using o by metis
      then show False by simp
    qed
  qed
  show ?case
  proof (cases "n < 10")
    case True
    then show ?thesis using c [OF True] by (simp add: digits.simps [of n] is_dec_def)
  next
    case False
    then show ?thesis using 1 c [of "n mod 10"] by (simp add: digits.simps [of n] is_dec_def)
  qed
qed

lemma mantissa_value:
  "list_all (\<lambda>d. 0 \<le> d \<and> d \<le> 99) ds \<Longrightarrow>
   of_nat (dec_val (concat (map (\<lambda>d. two_digits (nat d)) ds))) = (\<Sum>i<length ds. of_int (ds ! i) * 100 ^ (length ds - 1 - i) :: rat)"
proof (induction ds rule: rev_induct)
  case (snoc d ds)
  let ?m = "concat (map (\<lambda>d. two_digits (nat d)) ds)"
  have d: "nat d < 100" "0 \<le> d" using snoc.prems by auto
  have "(\<Sum>i<length (ds @ [d]). of_int ((ds @ [d]) ! i) * 100 ^ (length (ds @ [d]) - 1 - i) :: rat)
      = (\<Sum>i<length ds. of_int (ds ! i) * 100 ^ (length ds - i)) + of_int d"
    by (simp add: nth_append)
  also have "(\<Sum>i<length ds. of_int (ds ! i) * 100 ^ (length ds - i) :: rat) = (\<Sum>i<length ds. 100 * (of_int (ds ! i) * 100 ^ (length ds - 1 - i)))"
  proof (rule sum.cong [OF refl])
    fix i assume "i \<in> {..<length ds}"
    then have "length ds - i = Suc (length ds - 1 - i)" by auto
    then show "of_int (ds ! i) * 100 ^ (length ds - i) = 100 * (of_int (ds ! i) * 100 ^ (length ds - 1 - i) :: rat)" by simp
  qed
  also have "\<dots> = 100 * of_nat (dec_val ?m)" using snoc by (simp add: sum_distrib_left)
  finally show ?case using d two_digits_value [OF d(1)] by (simp add: dec_val_append)
qed simp

lemma mantissa_dec: "is_dec (concat (map (\<lambda>d. two_digits (nat d)) ds))"
proof -
  have "is_dec (two_digits n)" for n using digits_dec [of n] by (simp add: two_digits_def is_dec_def)
  then show ?thesis by (induction ds) (simp_all add: is_dec_def)
qed

lemma place_not_signed:
  assumes "is_dec mant"
  shows "placeDecimalPoint mant shift \<noteq> [] \<and> hd (placeDecimalPoint mant shift) \<noteq> CHR ''-''"
proof -
  have first: "u @ v \<noteq> [] \<and> hd (u @ v) \<noteq> CHR ''-''" if "is_dec u" "u \<noteq> []" for u v
    using that by (cases u) (simp_all add: is_dec_def)
  show ?thesis
  proof (cases "shift \<ge> 0")
    case True
    let ?u = "placeDecimalPoint mant shift"
    have "is_dec ?u \<and> dec_val ?u = dec_val (mant @ replicate (nat shift) (CHR ''0'')) \<and> ?u \<noteq> []"
      by (rule zero_or_trim) (use assms True in \<open>simp_all add: placeDecimalPoint_def Let_def\<close>)
    then show ?thesis using first [of ?u "[]"] by simp
  next
    case False
    let ?ip = "if length mant > nat (- shift) then take (length mant - nat (- shift)) mant else ''0''"
    define u where "u = (let t = TrimLeft (CHR ''0'') ?ip in if t = [] then ''0'' else t)"
    have "is_dec ?ip" using assms is_dec_sub [of mant] by (simp add: is_dec_def)
    from zero_or_trim [OF this u_def [symmetric]] have u: "is_dec u" "u \<noteq> []" by simp_all
    have "\<exists>v. placeDecimalPoint mant shift = u @ v"
      using False unfolding placeDecimalPoint_def Let_def u_def by auto
    then show ?thesis using first [OF u] by auto
  qed
qed

lemma first_byte:
  assumes "k < 128"
  shows "(of_nat (128 + k) :: byte) AND 0x80 \<noteq> 0" "unat ((of_nat (128 + k) :: byte) AND 0x7f) = k"
    "(of_nat (127 - k) :: byte) AND 0x80 = 0" "unat (((of_nat (127 - k) :: byte) XOR 0xff) AND 0x7f) = k"
proof -
  have "list_all (\<lambda>k. (of_nat (128 + k) :: byte) AND 0x80 \<noteq> 0 \<and> unat ((of_nat (128 + k) :: byte) AND 0x7f) = k
      \<and> (of_nat (127 - k) :: byte) AND 0x80 = 0 \<and> unat (((of_nat (127 - k) :: byte) XOR 0xff) AND 0x7f) = k) [0..<128]" by code_simp
  then show "(of_nat (128 + k) :: byte) AND 0x80 \<noteq> 0" "unat ((of_nat (128 + k) :: byte) AND 0x7f) = k"
    "(of_nat (127 - k) :: byte) AND 0x80 = 0" "unat (((of_nat (127 - k) :: byte) XOR 0xff) AND 0x7f) = k"
    using assms by (auto simp: list_all_iff)
qed

lemma unat_number_byte: "n < 256 \<Longrightarrow> unat (of_nat n :: byte) = n"
  by (simp add: unsigned_of_nat take_bit_nat_eq_self)

lemma encoded_parts:
  assumes "ds \<noteq> []" and "\<forall>d\<in>set ds. d \<le> 99" and "- 65 \<le> e" and "e \<le> 62"
  shows "number_parts (number_encoding positive e ds ended) = Returns (positive, e, map int ds)"
proof -
  define k where "k = nat (e + 65)"
  have k: "k < 128" "int k - 65 = e" "nat (193 + e) = 128 + k" "nat (62 - e) = 127 - k" using assms(3,4) by (auto simp: k_def)
  have up: "int (unat (of_nat (d + 1) :: byte)) - 1 = int d" if "d \<in> set ds" for d
  proof -
    have "d + 1 < 256" using assms(2) that by auto
    then have "unat (of_nat (d + 1) :: byte) = d + 1" by (rule unat_number_byte)
    then show ?thesis by simp
  qed
  have down: "101 - int (unat (of_nat (101 - d) :: byte)) = int d" "(of_nat (101 - d) :: byte) \<noteq> 0x66" if "d \<in> set ds" for d
  proof -
    have "101 - d < 256" by simp
    then have u: "unat (of_nat (101 - d) :: byte) = 101 - d" by (rule unat_number_byte)
    then show "101 - int (unat (of_nat (101 - d) :: byte)) = int d" using assms(2) that by auto
    show "(of_nat (101 - d) :: byte) \<noteq> 0x66"
    proof
      assume "(of_nat (101 - d) :: byte) = 0x66"
      then have "unat (of_nat (101 - d) :: byte) = unat (0x66 :: byte)" by simp
      then show False unfolding u by simp
    qed
  qed
  show ?thesis
  proof (cases positive)
    case True
    then show ?thesis using first_byte(1,2) [OF k(1)] k(2,3) up by (simp add: number_parts_def number_encoding_def del: of_nat_add)
  next
    case False
    let ?b = "of_nat (127 - k) # map (\<lambda>d. of_nat (101 - d)) ds :: bytes"
    have l: "last ?b \<noteq> 0x66" using assms(1) down(2) [OF last_in_set [OF assms(1)]] by (simp add: last_map)
    have b: "number_encoding positive e ds ended = ?b @ (if ended then [0x66] else [])" using False k(4) by (simp add: number_encoding_def)
    show ?thesis unfolding b number_parts_def Let_def
      using first_byte(3,4) [OF k(1)] k(2) down(1) False l assms(1) by (cases ended) (simp_all add: comp_def)
  qed
qed

text \<open>C30. A NUMBER is printed as the decimal of its exact value: the encoding of any sign, exponent and digits to the base 100, with or
  without the terminator of negative numbers, gives a text, and that text denotes the number.\<close>

theorem oracle_number_exact:
  assumes "ds \<noteq> []" and "\<forall>d\<in>set ds. d \<le> 99" and "- 65 \<le> e" and "e \<le> 62"
  shows "\<exists>s. formatOracleNumber (number_encoding positive e ds ended) = Returns (Some s) \<and> decimal_value s = number_value positive e ds"
proof -
  let ?m = "concat (map (\<lambda>d. two_digits (nat d)) (map int ds))" and ?shift = "2 * (e - int (length ds) + 1)"
  have ok: "list_all (\<lambda>d. 0 \<le> d \<and> d \<le> 99) (map int ds)" using assms(2) by (auto simp: list_all_iff)
  have two: "length (number_encoding positive e ds ended) \<ge> 2" using assms(1) by (cases ds) (simp_all add: number_encoding_def)
  then have nz: "number_encoding positive e ds ended \<noteq> []" "number_encoding positive e ds ended \<noteq> [0x80]" by auto
  have f: "formatOracleNumber (number_encoding positive e ds ended) = Returns (Some (if positive then placeDecimalPoint ?m ?shift else ''-'' @ placeDecimalPoint ?m ?shift))"
    using nz encoded_parts [OF assms, of positive ended] ok assms(1) by (auto simp: formatOracleNumber_def Let_def list_ex_iff list_all_iff)
  have "unsigned_value (placeDecimalPoint ?m ?shift) = of_nat (dec_val ?m) * 10 powi ?shift" by (rule placed_value [OF mantissa_dec])
  also have "\<dots> = (\<Sum>i<length ds. of_int (map int ds ! i) * 100 ^ (length ds - 1 - i)) * 100 powi (e - int (length ds) + 1)"
  proof -
    have "10 powi ?shift = (10 powi 2) powi (e - int (length ds) + 1 :: int) * (1 :: rat)" by (simp only: power_int_mult mult_1_right)
    then have "10 powi ?shift = (100 :: rat) powi (e - int (length ds) + 1)" by simp
    then show ?thesis by (simp only: mantissa_value [OF ok] length_map)
  qed
  also have "\<dots> = (\<Sum>i<length ds. of_nat (ds ! i) * 100 powi (e - int i))"
    unfolding sum_distrib_right
  proof (rule sum.cong [OF refl])
    fix i assume i: "i \<in> {..<length ds}"
    then have "e - int i = int (length ds - 1 - i) + (e - int (length ds) + 1)" by auto
    moreover have "(100 :: rat) powi (int (length ds - 1 - i) + (e - int (length ds) + 1)) = 100 ^ (length ds - 1 - i) * 100 powi (e - int (length ds) + 1)"
      by (subst power_int_add) simp_all
    ultimately have "100 powi (e - int i) = (100 :: rat) ^ (length ds - 1 - i) * 100 powi (e - int (length ds) + 1)" by metis
    then show "of_int (map int ds ! i) * 100 ^ (length ds - 1 - i) * 100 powi (e - int (length ds) + 1) = (of_nat (ds ! i) * 100 powi (e - int i) :: rat)"
      using i by simp
  qed
  finally have v: "unsigned_value (placeDecimalPoint ?m ?shift) = (\<Sum>i<length ds. of_nat (ds ! i) * 100 powi (e - int i))" .
  have "decimal_value (placeDecimalPoint ?m ?shift) = unsigned_value (placeDecimalPoint ?m ?shift)"
    using place_not_signed [OF mantissa_dec, of "map int ds" ?shift] by (cases "placeDecimalPoint ?m ?shift") (simp_all add: decimal_value_def)
  moreover have "decimal_value (''-'' @ placeDecimalPoint ?m ?shift) = - unsigned_value (placeDecimalPoint ?m ?shift)"
    by (simp add: decimal_value_def)
  ultimately have "decimal_value (if positive then placeDecimalPoint ?m ?shift else ''-'' @ placeDecimalPoint ?m ?shift) = number_value positive e ds"
    using v by (cases positive) (simp_all only: number_value_def if_True if_False mult_1 mult_minus1)
  then show ?thesis using f by blast
qed

theorem oracle_number_exact_witness:
  "number_encoding False 0 [12, 50] True = [0x3E, 89, 51, 0x66] \<and> formatOracleNumber [0x3E, 89, 51, 0x66] = Returns (Some ''-12.5'')
   \<and> decimal_value ''-12.5'' = number_value False 0 [12, 50]"
proof -
  have e: "number_encoding False 0 [12, 50] True = [0x3E, 89, 51, 0x66]" by code_simp
  have f: "formatOracleNumber [0x3E, 89, 51, 0x66] = Returns (Some ''-12.5'')" by code_simp
  have "\<exists>s. formatOracleNumber (number_encoding False 0 [12, 50] True) = Returns (Some s) \<and> decimal_value s = number_value False 0 [12, 50]"
    by (rule oracle_number_exact) simp_all
  then show ?thesis using e f by simp
qed

text \<open>A NUMBER of the single byte 102 panics: its terminator is stripped and the slice behind the first byte is out of range.\<close>

lemma lone_terminator_panics: "formatOracleNumber [0x66] = Panics"
  by code_simp

end
