(* ===== verification/Oracle_Session.thy ===== *)
theory Oracle_Session
  imports Oracle_Wire Audited_Session "HOL-Library.Sublist"
begin

unbundle bit_operations_syntax

text \<open>
  The relay of an Oracle session after authentication: \<open>internal/proxy/oracle/intercept.go\<close> and the second half of
  \<open>session.go\<close>. A cursor is an object that the table of cursors and the pending query share, so cursors live in an explicit
  store. The calls on the database are a list; a script says which query records could be created. The decoders of result rows
  are the arguments \<open>row_decoders\<close>: every statement below holds whatever they return.
\<close>

section \<open>State\<close>

type_synonym column_def = "string \<times> byte"

record tracked_cursor =
  tc_cursorID :: u16
  tc_sql :: string
  tc_bindValues :: "string list"
  tc_parsedAt :: time
  tc_columns :: "column_def list"

record pending_oracle_query =
  po_cursor :: nat
  po_startTime :: time
  po_capturedBytes :: int
  po_rowNumber :: int
  po_truncated :: bool
  po_queryUID :: uuid
  po_queryPersisted :: bool
  po_lastRow :: "string list"

datatype store_call =
    ScCreateQuery query "uuid option"
  | ScStoreRow uuid result_row
  | ScFinalize uuid int "int option" "string option" int
  | ScLogQuery query int

record oracle_session =
  or_grant :: "access_grant option"
  or_connectionUID :: uuid
  or_revocation :: "addr option"
  or_guard :: "limit_guard option"
  or_from :: addr
  or_to :: addr
  or_lastBytesSnapshot :: int
  or_storage :: query_storage
  or_objects :: "nat \<Rightarrow> tracked_cursor option"
  or_next :: nat
  or_cursors :: "u16 \<Rightarrow> nat option"
  or_pending :: "pending_oracle_query option"
  or_created :: "uuid option list"
  or_calls :: "store_call list"

datatype oracle_error =
    OrLimit limit_error
  | ErrQueryLimitExceed
  | ErrDataLimitExceed
  | OrValidation validation_error

fun oracle_text :: "oracle_error \<Rightarrow> string" where
  "oracle_text (OrLimit e) = limit_text e"
| "oracle_text ErrQueryLimitExceed = ''query limit exceeded''"
| "oracle_text ErrDataLimitExceed = ''data transfer limit exceeded''"
| "oracle_text (OrValidation e) = validation_text e"

record query_result_v2 =
  qr_Columns :: "string list"
  qr_ColumnTypes :: "int list"
  qr_Rows :: "string list list"
  qr_NoData :: bool

record ttc_response =
  tr_RowCount :: u32
  tr_Columns :: "column_def list"
  tr_MoreData :: bool
  tr_IsError :: bool
  tr_ErrorMessage :: string

record row_decoders =
  rd_QueryResultV2 :: "bytes \<Rightarrow> query_result_v2 option"
  rd_ContinuationRows :: "bytes \<Rightarrow> nat \<Rightarrow> string list \<Rightarrow> byte list \<Rightarrow> string option list list"
  rd_TTCResponse :: "bytes \<Rightarrow> ttc_response option"
  rd_Marshal :: "(string \<Rightarrow> string option option) \<Rightarrow> string option"

section \<open>The log\<close>

definition cumulativeClientBytes :: "heap \<Rightarrow> oracle_session \<Rightarrow> int" where
  "cumulativeClientBytes hp s = wrap_i64 (LoadInt hp (or_from s) + LoadInt hp (or_to s))"

definition formatOracleBinds :: "string list \<Rightarrow> query_parameters option" where
  "formatOracleBinds vs = (if length vs = 0 then None else Some \<lparr>qp_Values = vs, qp_Raw = [], qp_FormatCodes = [], qp_TypeOIDs = []\<rparr>)"

definition oracle_query :: "pending_oracle_query \<Rightarrow> tracked_cursor \<Rightarrow> int option \<Rightarrow> int option \<Rightarrow> string option \<Rightarrow> oracle_session \<Rightarrow> query" where
  "oracle_query pending cursor duration rowsAffected queryError s =
     \<lparr>qry_UID = uuid_Nil, qry_ConnectionID = or_connectionUID s, qry_SQLText = tc_sql cursor,
      qry_Parameters = formatOracleBinds (tc_bindValues cursor), qry_ExecutedAt = po_startTime pending, qry_DurationMs = duration,
      qry_RowsAffected = rowsAffected, qry_Error = queryError, qry_CopyFormat = None, qry_CopyDirection = None\<rparr>"

definition persistQueryRecord :: "oracle_session \<Rightarrow> oracle_session" where
  "persistQueryRecord s =
     (case or_pending s of None \<Rightarrow> s
      | Some pending \<Rightarrow>
          if po_queryPersisted pending then s
          else case or_objects s (po_cursor pending) of None \<Rightarrow> s
          | Some cursor \<Rightarrow>
              let outcome = (case or_created s of [] \<Rightarrow> None | x # _ \<Rightarrow> x);
                  created = (case outcome of None \<Rightarrow> uuid_Nil | Some uid \<Rightarrow> uid)
              in s\<lparr>or_calls := or_calls s @ [ScCreateQuery (oracle_query pending cursor None None None s) outcome],
                   or_created := tl (or_created s),
                   or_pending := Some (pending\<lparr>po_queryPersisted := True, po_queryUID := created\<rparr>)\<rparr>)"

text \<open>Whole milliseconds, counted in thousandths as the column \<open>duration_ms\<close> is.\<close>

definition duration_ms :: "time \<Rightarrow> time \<Rightarrow> int" where
  "duration_ms now start = (let d = time_Sub now start in 1000 * (if d < 0 then - (- d div 1000000) else d div 1000000))"

definition completeQuery :: "int option \<Rightarrow> string option \<Rightarrow> time \<Rightarrow> heap \<Rightarrow> oracle_session \<Rightarrow> oracle_session" where
  "completeQuery rowsAffected queryError now hp s =
     (case or_pending s of None \<Rightarrow> s
      | Some pending \<Rightarrow>
          (case or_objects s (po_cursor pending) of None \<Rightarrow> s
           | Some cursor \<Rightarrow>
               let t = cumulativeClientBytes hp s;
                   bytesTransferred = wrap_i64 (t - or_lastBytesSnapshot s);
                   duration = duration_ms now (po_startTime pending);
                   rows = (if rowsAffected = None \<and> po_rowNumber pending > 0 then Some (po_rowNumber pending) else rowsAffected);
                   call = (if po_queryPersisted pending \<and> po_queryUID pending \<noteq> uuid_Nil
                           then ScFinalize (po_queryUID pending) duration rows queryError bytesTransferred
                           else ScLogQuery (oracle_query pending cursor (Some duration) rows queryError s) bytesTransferred)
               in s\<lparr>or_pending := None, or_lastBytesSnapshot := t, or_calls := or_calls s @ [call],
                    or_grant := map_option (\<lambda>g. g\<lparr>ag_QueryCount := wrap_i64 (ag_QueryCount g + 1),
                      ag_BytesTransferred := wrap_i64 (ag_BytesTransferred g + bytesTransferred)\<rparr>) (or_grant s)\<rparr>))"

definition flushPendingQuery :: "time \<Rightarrow> heap \<Rightarrow> oracle_session \<Rightarrow> oracle_session" where
  "flushPendingQuery now hp s = (if or_pending s \<noteq> None then completeQuery None None now hp s else s)"

section \<open>Statements of the client\<close>

text \<open>The clock of a message: at the quota check, at the completion of the previous query, at the start of this one.\<close>

type_synonym oracle_clock = "time \<times> time \<times> time \<times> time"

definition new_cursor :: "tracked_cursor \<Rightarrow> oracle_session \<Rightarrow> nat \<times> oracle_session" where
  "new_cursor c s = (or_next s, s\<lparr>or_objects := (or_objects s)(or_next s \<mapsto> c), or_next := Suc (or_next s)\<rparr>)"

definition start_query :: "nat \<Rightarrow> time \<Rightarrow> oracle_session \<Rightarrow> oracle_session" where
  "start_query cursor now s =
     s\<lparr>or_pending := Some \<lparr>po_cursor = cursor, po_startTime = now, po_capturedBytes = 0, po_rowNumber = 0, po_truncated = False,
        po_queryUID = uuid_Nil, po_queryPersisted = False, po_lastRow = []\<rparr>\<rparr>"

definition control_check :: "string \<Rightarrow> oracle_session \<Rightarrow> oracle_error option" where
  "control_check sql s = (case or_grant s of None \<Rightarrow> None | Some g \<Rightarrow> map_option OrValidation (ValidateOracleQuery sql g))"

definition handleOALL8 :: "bytes \<Rightarrow> oracle_clock \<Rightarrow> heap \<Rightarrow> oracle_session \<Rightarrow> oracle_error option \<times> oracle_session" where
  "handleOALL8 ttcPayload clk hp s =
     (case decodeOALL8 ttcPayload of Inl e \<Rightarrow> (None, s)
      | Inr r \<Rightarrow>
          (case control_check (o8_SQL r) s of Some e \<Rightarrow> (Some e, s)
           | None \<Rightarrow>
               let (quota, flushed, parsed, started) = clk;
                   s1 = flushPendingQuery flushed hp s;
                   (a, s2) = new_cursor \<lparr>tc_cursorID = o8_CursorID r, tc_sql = o8_SQL r, tc_bindValues = o8_BindValues r,
                                         tc_parsedAt = parsed, tc_columns = []\<rparr> s1;
                   s3 = s2\<lparr>or_cursors := (or_cursors s2)(o8_CursorID r \<mapsto> a)\<rparr>
               in (None, persistQueryRecord (start_query a started s3))))"

definition handlePiggybackExec :: "bytes \<Rightarrow> oracle_clock \<Rightarrow> heap \<Rightarrow> oracle_session \<Rightarrow> oracle_error option \<times> oracle_session" where
  "handlePiggybackExec ttcPayload clk hp s =
     (case decodePiggybackExecSQL ttcPayload of Inl e \<Rightarrow> (None, s)
      | Inr r \<Rightarrow>
          (case control_check (o8_SQL r) s of Some e \<Rightarrow> (Some e, s)
           | None \<Rightarrow>
               let (quota, flushed, parsed, started) = clk;
                   (a, s2) = new_cursor \<lparr>tc_cursorID = 0, tc_sql = o8_SQL r, tc_bindValues = o8_BindValues r, tc_parsedAt = parsed,
                                         tc_columns = []\<rparr> (flushPendingQuery flushed hp s)
               in (None, persistQueryRecord (start_query a started s2))))"

definition handleJDBCExec :: "bytes \<Rightarrow> oracle_clock \<Rightarrow> heap \<Rightarrow> oracle_session \<Rightarrow> oracle_session" where
  "handleJDBCExec ttcPayload clk hp s =
     (case decodeExecSQL ttcPayload of Inl e \<Rightarrow> s
      | Inr r \<Rightarrow>
          let (quota, flushed, parsed, started) = clk;
              (a, s2) = new_cursor \<lparr>tc_cursorID = 0, tc_sql = o8_SQL r, tc_bindValues = [], tc_parsedAt = parsed, tc_columns = []\<rparr>
                          (flushPendingQuery flushed hp s)
          in persistQueryRecord (start_query a started s2))"

definition handleOFETCH :: "bytes \<Rightarrow> oracle_clock \<Rightarrow> oracle_session \<Rightarrow> oracle_session" where
  "handleOFETCH ttcPayload clk s =
     (case decodeOFETCH ttcPayload of Inl e \<Rightarrow> s
      | Inr (cursorID, _) \<Rightarrow>
          (case or_cursors s cursorID of None \<Rightarrow> s
           | Some a \<Rightarrow> if or_pending s = None then start_query a (snd (snd (snd clk))) s else s))"

definition handleOCLOSE :: "u16 \<Rightarrow> oracle_session \<Rightarrow> oracle_session" where
  "handleOCLOSE cursorID s = s\<lparr>or_cursors := (or_cursors s)(cursorID := None)\<rparr>"

definition oracle_checkQuotas :: "heap \<Rightarrow> time \<Rightarrow> oracle_session \<Rightarrow> oracle_error option" where
  "oracle_checkQuotas hp now s =
     (if Revoked hp (or_revocation s) then Some (OrLimit ErrGrantRevoked)
      else case or_grant s of None \<Rightarrow> None
      | Some g \<Rightarrow>
          if \<not> IsZero (ag_ExpiresAt g) \<and> \<not> now < ag_ExpiresAt g then Some (OrLimit ErrGrantExpired)
          else if (case ag_MaxQueryCounts g of None \<Rightarrow> False | Some m \<Rightarrow> ag_QueryCount g \<ge> m) then Some ErrQueryLimitExceed
          else if (case ag_MaxBytesTransferred g of None \<Rightarrow> False | Some m \<Rightarrow> ag_BytesTransferred g \<ge> m) then Some ErrDataLimitExceed
          else None)"

section \<open>The proxy\<close>

text \<open>\<open>ox_writes\<close> says how many bytes each write to the client carries and whether it succeeds.\<close>

record oracle_proxy =
  ox_session :: oracle_session
  ox_heap :: heap
  ox_registry :: "registry option"
  ox_upstream :: "tns_packet list"
  ox_client :: "bytes list"
  ox_dump :: "(byte \<times> bytes) list option"
  ox_writes :: "(int \<times> bool) list"
  ox_closed :: bool
  ox_c2u :: bool
  ox_u2c :: bool

definition upd_or :: "(oracle_session \<Rightarrow> oracle_session) \<Rightarrow> oracle_proxy \<Rightarrow> oracle_proxy" where
  "upd_or f p = p\<lparr>ox_session := f (ox_session p)\<rparr>"

definition oracle_conn :: "oracle_proxy \<Rightarrow> counting_conn" where
  "oracle_conn p = NewCountingConn (Some (or_from (ox_session p))) (Some (or_to (ox_session p)))"

definition write_client :: "bytes \<Rightarrow> oracle_proxy \<Rightarrow> bool \<times> oracle_proxy" where
  "write_client raw p =
     (let (n, ok) = (if ox_closed p then (0, False) else case ox_writes p of [] \<Rightarrow> (0, False) | w # _ \<Rightarrow> w)
      in (ok, p\<lparr>ox_writes := tl (ox_writes p), ox_heap := snd (cc_Write (oracle_conn p) (n, None :: unit option) (ox_heap p)),
                ox_client := (if ok then ox_client p @ [raw] else ox_client p)\<rparr>))"

text \<open>\<open>%05d\<close>.\<close>

definition five_digits :: "nat \<Rightarrow> string" where
  "five_digits n = replicate (5 - length (digits n)) (CHR ''0'') @ digits n"

definition writeTTCError :: "nat \<Rightarrow> string \<Rightarrow> oracle_proxy \<Rightarrow> oracle_proxy" where
  "writeTTCError oraErrorCode message p =
     (let errMsg = ''ORA-'' @ five_digits oraErrorCode @ '': '' @ message;
          payload = [0, 0, TTCFuncResponse, 1] @ PutUint32_BE (of_nat oraErrorCode) @ [0, 0] @ [0, 0, 0, 0] @ [0, 1]
             @ PutUint16_BE (of_nat (length errMsg)) @ bytes_of errMsg
      in snd (write_client (encodeTNSPacket TNSPacketTypeData payload) p))"

definition sendOracleError :: "oracle_error \<Rightarrow> oracle_proxy \<Rightarrow> oracle_proxy" where
  "sendOracleError e p = writeTTCError 1031 (oracle_text e) p"

definition oracle_dumpPacket :: "byte \<Rightarrow> bytes \<Rightarrow> oracle_proxy \<Rightarrow> oracle_proxy" where
  "oracle_dumpPacket dir raw p = p\<lparr>ox_dump := map_option (\<lambda>d. d @ [(dir, raw)]) (ox_dump p)\<rparr>"

text \<open>A statement that passes the quotas and its handler, or is answered with an error.\<close>

definition checked_exec :: "(oracle_session \<Rightarrow> oracle_error option \<times> oracle_session) \<Rightarrow> time \<Rightarrow> oracle_proxy \<Rightarrow> bool \<times> oracle_proxy" where
  "checked_exec h now p =
     (case oracle_checkQuotas (ox_heap p) now (ox_session p) of Some e \<Rightarrow> (True, sendOracleError e p)
      | None \<Rightarrow>
          (case h (ox_session p) of (Some e, s) \<Rightarrow> (True, sendOracleError e (p\<lparr>ox_session := s\<rparr>)) | (None, s) \<Rightarrow> (False, p\<lparr>ox_session := s\<rparr>)))"

definition interceptClientMessage :: "tns_packet \<Rightarrow> oracle_clock \<Rightarrow> oracle_proxy \<Rightarrow> bool \<times> oracle_proxy" where
  "interceptClientMessage pkt clk p =
     (case parseTTCFunctionCode (tp_Payload pkt) of None \<Rightarrow> (False, p)
      | Some funcCode \<Rightarrow>
     (case extractTTCPayload (tp_Payload pkt) of None \<Rightarrow> (False, p)
      | Some ttc \<Rightarrow>
          if funcCode = TTCFuncPiggyback then
            (if IsPiggybackExecSQL ttc then checked_exec (handlePiggybackExec ttc clk (ox_heap p)) (fst clk) p
             else if IsPiggybackClose ttc then
               (False, if length ttc > 2 then upd_or (handleOCLOSE (of_nat (unat (ttc ! 2)))) p else p)
             else (False, p))
          else if funcCode = TTCFuncOALL8 then checked_exec (handleOALL8 ttc clk (ox_heap p)) (fst clk) p
          else if funcCode = TTCFuncOFETCH then
            (if IsExecSQL ttc then checked_exec (\<lambda>s. (None, handleJDBCExec ttc clk (ox_heap p) s)) (fst clk) p
             else (False, upd_or (handleOFETCH ttc clk) p))
          else if funcCode = TTCFuncOCLOSE \<or> funcCode = TTCFuncOClosev2 then
            (False, case decodeCursorIDFromOCLOSE ttc of Inl e \<Rightarrow> p | Inr cursorID \<Rightarrow> upd_or (handleOCLOSE cursorID) p)
          else (False, p)))"

definition is_data :: "tns_packet \<Rightarrow> bool" where
  "is_data pkt \<longleftrightarrow> tp_Type pkt = TNSPacketTypeData \<and> length (tp_Payload pkt) \<ge> ttcDataFlagsSize + 1"

text \<open>One round of the loop: \<open>n\<close> bytes were read, \<open>written\<close> tells whether the upstream server takes the packet.\<close>

definition clientToUpstream :: "int \<Rightarrow> bytes \<Rightarrow> oracle_clock \<Rightarrow> bool \<Rightarrow> oracle_proxy \<Rightarrow> oracle_proxy" where
  "clientToUpstream n stream clk written p0 =
     (let p = p0\<lparr>ox_heap := snd (cc_Read (oracle_conn p0) (n, None :: unit option) (ox_heap p0))\<rparr> in
      case readTNSPacket stream of Inl e \<Rightarrow> p\<lparr>ox_c2u := True\<rparr>
      | Inr (pkt, _) \<Rightarrow>
          let p1 = oracle_dumpPacket 0 (tp_Raw pkt) p;
              (blocked, p2) = (if is_data pkt then interceptClientMessage pkt clk p1 else (False, p1))
          in if blocked then p2
             else if written then p2\<lparr>ox_upstream := ox_upstream p2 @ [pkt]\<rparr>
             else p2\<lparr>ox_c2u := True\<rparr>)"

section \<open>Responses\<close>

fun or_row_size :: "column_def list \<Rightarrow> string option list \<Rightarrow> int" where
  "or_row_size [] vs = 0"
| "or_row_size (c # cs) vs = (case vs of Some v # _ \<Rightarrow> int (length v) | _ \<Rightarrow> 0) + or_row_size cs (tl vs)"

fun row_data :: "column_def list \<Rightarrow> string option list \<Rightarrow> (string \<Rightarrow> string option option) \<Rightarrow> (string \<Rightarrow> string option option)" where
  "row_data [] vs m = m"
| "row_data (c # cs) vs m = row_data cs (tl vs) (m(fst c \<mapsto> (case vs of v # _ \<Rightarrow> v | [] \<Rightarrow> None)))"

definition captureRow :: "row_decoders \<Rightarrow> column_def list \<Rightarrow> string option list \<Rightarrow> oracle_session \<Rightarrow> oracle_session" where
  "captureRow D columns vals s0 =
     (case or_pending s0 of None \<Rightarrow> s0
      | Some pending0 \<Rightarrow>
          if po_truncated pending0 \<or> \<not> cfg_StoreResults (or_storage s0) then s0
          else
            let s = (if po_queryPersisted pending0 then s0 else persistQueryRecord s0) in
            case or_pending s of None \<Rightarrow> s
            | Some pending \<Rightarrow>
                if po_queryUID pending = uuid_Nil then s
                else
                  let rowSize = or_row_size columns vals in
                  if po_rowNumber pending \<ge> cfg_MaxResultRows (or_storage s) \<or> po_capturedBytes pending + rowSize > cfg_MaxResultBytes (or_storage s)
                  then s\<lparr>or_pending := Some (pending\<lparr>po_truncated := True\<rparr>)\<rparr>
                  else case rd_Marshal D (row_data columns vals Map.empty) of None \<Rightarrow> s
                  | Some jsonData \<Rightarrow>
                      s\<lparr>or_pending := Some (pending\<lparr>po_rowNumber := po_rowNumber pending + 1, po_capturedBytes := po_capturedBytes pending + rowSize\<rparr>),
                        or_calls := or_calls s @ [ScStoreRow (po_queryUID pending)
                          \<lparr>rr_RowNumber = po_rowNumber pending + 1, rr_RowData = jsonData, rr_RowSizeBytes = rowSize\<rparr>]\<rparr>)"

definition pending_columns :: "oracle_session \<Rightarrow> column_def list option" where
  "pending_columns s = (case or_pending s of None \<Rightarrow> None | Some q \<Rightarrow> map_option tc_columns (or_objects s (po_cursor q)))"

definition set_columns_of_pending :: "column_def list \<Rightarrow> oracle_session \<Rightarrow> oracle_session" where
  "set_columns_of_pending columns s =
     (case or_pending s of None \<Rightarrow> s
      | Some q \<Rightarrow> s\<lparr>or_objects := (or_objects s)(po_cursor q := map_option (\<lambda>c. c\<lparr>tc_columns := columns\<rparr>) (or_objects s (po_cursor q)))\<rparr>)"

definition set_lastRow :: "string list \<Rightarrow> oracle_session \<Rightarrow> oracle_session" where
  "set_lastRow row s = s\<lparr>or_pending := map_option (\<lambda>q. q\<lparr>po_lastRow := row\<rparr>) (or_pending s)\<rparr>"

definition describe_columns :: "query_result_v2 \<Rightarrow> column_def list" where
  "describe_columns r = map (\<lambda>i. (qr_Columns r ! i, if i < length (qr_ColumnTypes r) then of_int (qr_ColumnTypes r ! i) else 0)) [0..<length (qr_Columns r)]"

definition handleQueryResultV2 :: "row_decoders \<Rightarrow> bytes \<Rightarrow> time \<Rightarrow> heap \<Rightarrow> oracle_session \<Rightarrow> oracle_session" where
  "handleQueryResultV2 D ttc now hp s =
     (case rd_QueryResultV2 D ttc of None \<Rightarrow> s
      | Some r \<Rightarrow>
          let s1 = (if length (qr_Columns r) > 0 then set_columns_of_pending (describe_columns r) s else s);
              s2 = (case pending_columns s1 of None \<Rightarrow> s1
                    | Some columns \<Rightarrow>
                        let s' = fold (\<lambda>row. captureRow D columns (map Some row)) (qr_Rows r) s1
                        in if length (qr_Rows r) > 0 then set_lastRow (last (qr_Rows r)) s' else s')
          in if qr_NoData r then completeQuery None None now hp s2 else s2)"

definition completeQueryFromOER :: "oer_info \<Rightarrow> time \<Rightarrow> heap \<Rightarrow> oracle_session \<Rightarrow> oracle_session" where
  "completeQueryFromOER info now hp s =
     (if oer_ErrorCode info = oraNoDataFound then completeQuery None None now hp s
      else if oer_ErrorCode info \<noteq> 0 then
        completeQuery None (Some (if oer_ErrorMessage info = [] then ''ORA-'' @ five_digits (nat (oer_ErrorCode info)) else oer_ErrorMessage info)) now hp s
      else completeQuery (Some (oer_CurRowNumber info)) None now hp s)"

definition handleOERStatus :: "bytes \<Rightarrow> time \<Rightarrow> heap \<Rightarrow> oracle_session \<Rightarrow> oracle_session" where
  "handleOERStatus ttc now hp s = (case decodeOERAt ttc 0 of None \<Rightarrow> s | Some info \<Rightarrow> completeQueryFromOER info now hp s)"

definition handleContinuation :: "row_decoders \<Rightarrow> bytes \<Rightarrow> time \<Rightarrow> heap \<Rightarrow> oracle_session \<Rightarrow> oracle_session" where
  "handleContinuation D ttc now hp s =
     (case pending_columns s of None \<Rightarrow> s
      | Some columns \<Rightarrow>
          let lastRow = (case or_pending s of None \<Rightarrow> [] | Some q \<Rightarrow> po_lastRow q);
              s1 = (if length columns > 0
                    then fold (\<lambda>row s. set_lastRow (map (\<lambda>v. case v of Some x \<Rightarrow> x | None \<Rightarrow> []) row) (captureRow D columns row s))
                           (rd_ContinuationRows D ttc (length columns) lastRow (map snd columns)) s
                    else s)
          in if Index (str_of ttc) ''ORA-01403'' \<noteq> None then completeQuery None None now hp s1 else s1)"

definition handleResponse :: "row_decoders \<Rightarrow> bytes \<Rightarrow> time \<Rightarrow> heap \<Rightarrow> oracle_session \<Rightarrow> oracle_session" where
  "handleResponse D ttc now hp s =
     (case findOERInResponse ttc of Some oer \<Rightarrow> completeQueryFromOER oer now hp s
      | None \<Rightarrow>
          (case rd_TTCResponse D ttc of None \<Rightarrow> s
           | Some resp \<Rightarrow>
               let s1 = (if length (tr_Columns resp) > 0 then set_columns_of_pending (tr_Columns resp) s else s) in
               if tr_IsError resp then completeQuery None (Some (tr_ErrorMessage resp)) now hp s1
               else if \<not> tr_MoreData resp
               then completeQuery (if tr_RowCount resp > 0 then Some (int (unat (tr_RowCount resp))) else None) None now hp s1
               else s1))"

definition interceptUpstreamMessage :: "row_decoders \<Rightarrow> tns_packet \<Rightarrow> time \<Rightarrow> oracle_proxy \<Rightarrow> oracle_proxy" where
  "interceptUpstreamMessage D pkt now p =
     (case parseTTCFunctionCode (tp_Payload pkt) of None \<Rightarrow> p
      | Some funcCode \<Rightarrow>
     (case extractTTCPayload (tp_Payload pkt) of None \<Rightarrow> p
      | Some ttc \<Rightarrow>
          if funcCode = TTCFuncQueryResult then upd_or (handleQueryResultV2 D ttc now (ox_heap p)) p
          else if funcCode = TTCFuncResponse then upd_or (handleResponse D ttc now (ox_heap p)) p
          else if funcCode = TTCFuncOERR then upd_or (handleOERStatus ttc now (ox_heap p)) p
          else if funcCode = TTCFuncContinuation then upd_or (handleContinuation D ttc now (ox_heap p)) p
          else p))"

definition upstreamToClient :: "row_decoders \<Rightarrow> bytes \<Rightarrow> time \<Rightarrow> time \<Rightarrow> oracle_proxy \<Rightarrow> oracle_proxy" where
  "upstreamToClient D stream now now' p =
     (case readTNSPacket stream of Inl e \<Rightarrow> p\<lparr>ox_u2c := True\<rparr>
      | Inr (pkt, _) \<Rightarrow>
          let p1 = oracle_dumpPacket 1 (tp_Raw pkt) (if is_data pkt then interceptUpstreamMessage D pkt now p else p) in
          (case write_client (writeTNSPacket pkt) p1 of
             (False, p2) \<Rightarrow> p2\<lparr>ox_u2c := True\<rparr>
           | (True, p2) \<Rightarrow>
               if or_pending (ox_session p2) = None then p2
               else case Check (ox_heap p2) now' (or_guard (ox_session p2)) of None \<Rightarrow> p2
               | Some verr \<Rightarrow>
                   let p3 = writeTTCError 28 (''session terminated: '' @ limit_text verr) p2
                   in (upd_or (completeQuery None (Some (''aborted: '' @ limit_text verr)) now' (ox_heap p3)) p3)\<lparr>ox_u2c := True\<rparr>))"

section \<open>Executions\<close>

definition oracle_cleanup :: "oracle_proxy \<Rightarrow> oracle_proxy" where
  "oracle_cleanup p =
     (let s = ox_session p;
          p1 = (case (or_grant s, or_revocation s) of
                  (Some g, Some h) \<Rightarrow> p\<lparr>ox_registry := Deregister (ox_registry p) (ag_UID g) (Some h)\<rparr> | _ \<Rightarrow> p)
      in p1\<lparr>ox_closed := True\<rparr>)"

text \<open>\<open>OevEnd\<close>: one direction has ended, \<open>proxyMessages\<close> returns and the session is cleaned up.\<close>

datatype oracle_event =
    OevClient int bytes oracle_clock bool
  | OevServer bytes time time
  | OevWatchdog time
  | OevRegistry bus_op
  | OevEnd

definition oracle_step :: "row_decoders \<Rightarrow> oracle_event \<Rightarrow> oracle_proxy \<Rightarrow> oracle_proxy" where
  "oracle_step D ev p =
     (case ev of
        OevClient n stream clk written \<Rightarrow> if ox_c2u p \<or> ox_closed p then p else clientToUpstream n stream clk written p
      | OevServer stream now now' \<Rightarrow> if ox_u2c p \<or> ox_closed p then p else upstreamToClient D stream now now' p
      | OevWatchdog now \<Rightarrow>
          (case Check (ox_heap p) now (or_guard (ox_session p)) of None \<Rightarrow> p | Some _ \<Rightarrow> p\<lparr>ox_closed := True\<rparr>)
      | OevRegistry b \<Rightarrow> (let (r, hp) = bus_step b (ox_registry p, ox_heap p) in p\<lparr>ox_registry := r, ox_heap := hp\<rparr>)
      | OevEnd \<Rightarrow> if ox_c2u p \<or> ox_u2c p then oracle_cleanup p else p)"

definition oracle_run :: "row_decoders \<Rightarrow> oracle_event list \<Rightarrow> oracle_proxy \<Rightarrow> oracle_proxy" where
  "oracle_run D evs p = fold (oracle_step D) evs p"

definition oracle_start ::
  "query_storage \<Rightarrow> access_grant \<Rightarrow> uuid \<Rightarrow> addr \<Rightarrow> addr \<Rightarrow> heap \<Rightarrow> registry option \<Rightarrow> uuid option list \<Rightarrow> (int \<times> bool) list \<Rightarrow> oracle_proxy" where
  "oracle_start cfg g conn from to hp r created ws =
     (let (h, r1, hp1) = Register r (ag_UID g) hp in
      \<lparr>ox_session = \<lparr>or_grant = Some g, or_connectionUID = conn, or_revocation = Some h,
          or_guard = WithRevocation (Some (NewLimitGuard (Some g) (Some from) (Some to))) (Flag (Some h)),
          or_from = from, or_to = to, or_lastBytesSnapshot = 0, or_storage = cfg, or_objects = Map.empty, or_next = 0,
          or_cursors = Map.empty, or_pending = None, or_created = created, or_calls = []\<rparr>,
       ox_heap = hp1, ox_registry = r1, ox_upstream = [], ox_client = [], ox_dump = None, ox_writes = ws, ox_closed = False,
       ox_c2u = False, ox_u2c = False\<rparr>)"

section \<open>What a session keeps\<close>

text \<open>What the entries of the log charge, and what the counters of the grant and the snapshot must be for it: \<open>n0\<close> and \<open>b0\<close>
  are the counters of the grant at the start.\<close>

fun call_bytes :: "store_call \<Rightarrow> int" where
  "call_bytes (ScFinalize _ _ _ _ b) = b"
| "call_bytes (ScLogQuery _ b) = b"
| "call_bytes _ = 0"

fun completes :: "store_call \<Rightarrow> bool" where
  "completes (ScFinalize _ _ _ _ _) = True"
| "completes (ScLogQuery _ _) = True"
| "completes _ = False"

definition charged :: "oracle_session \<Rightarrow> int" where
  "charged s = sum_list (map call_bytes (or_calls s))"

definition completed :: "oracle_session \<Rightarrow> int" where
  "completed s = int (length (filter completes (or_calls s)))"

definition balanced :: "int \<Rightarrow> int \<Rightarrow> int \<times> int \<times> int \<times> access_grant option \<Rightarrow> bool" where
  "balanced n0 b0 = (\<lambda>(n, c, snapshot, g). snapshot = wrap_i64 c \<and>
     (case g of None \<Rightarrow> True | Some g \<Rightarrow> ag_QueryCount g = wrap_i64 (n0 + n) \<and> ag_BytesTransferred g = wrap_i64 (b0 + c)))"

definition books :: "oracle_session \<Rightarrow> int \<times> int \<times> int \<times> access_grant option" where
  "books s = (completed s, charged s, or_lastBytesSnapshot s, or_grant s)"

definition stays_balanced :: "int \<times> int \<times> int \<times> access_grant option \<Rightarrow> int \<times> int \<times> int \<times> access_grant option \<Rightarrow> bool" where
  "stays_balanced x y \<longleftrightarrow> (\<forall>n b. balanced n b x \<longrightarrow> balanced n b y)"

lemma stays_balanced_refl [simp]: "stays_balanced x x"
  by (simp add: stays_balanced_def)

lemma stays_balanced_trans: "stays_balanced x y \<Longrightarrow> stays_balanced y z \<Longrightarrow> stays_balanced x z"
  by (simp add: stays_balanced_def)

lemma stays_balanced_complete:
  assumes "in_i64 t"
  shows "stays_balanced (n, c, snapshot, g) (n + 1, c + wrap_i64 (t - snapshot), t,
     map_option (\<lambda>g. g\<lparr>ag_QueryCount := wrap_i64 (ag_QueryCount g + 1), ag_BytesTransferred := wrap_i64 (ag_BytesTransferred g + wrap_i64 (t - snapshot))\<rparr>) g)"
proof -
  define d where "d = wrap_i64 (t - snapshot)"
  have "wrap_i64 (c + d) = t" if "snapshot = wrap_i64 c" unfolding d_def by (rule wrap_catch_up [OF that assms])
  moreover have "wrap_i64 (wrap_i64 (b + c) + d) = wrap_i64 (b + (c + d))" "wrap_i64 (wrap_i64 (b + n) + 1) = wrap_i64 (b + (n + 1))" for b
    by (simp_all only: wrap_i64_add add.assoc)
  ultimately show ?thesis unfolding d_def [symmetric] by (cases g) (auto simp: stays_balanced_def balanced_def)
qed

lemmas books_simps = books_def charged_def completed_def

text \<open>No operation of the relay changes the terms of the grant, the flag of the session or its counters, and none takes back
  a call on the database.\<close>

definition or_keeps :: "oracle_session \<Rightarrow> oracle_session \<Rightarrow> bool" where
  "or_keeps s t \<longleftrightarrow> map_option terms (or_grant t) = map_option terms (or_grant s) \<and> or_revocation t = or_revocation s
     \<and> or_guard t = or_guard s \<and> or_from t = or_from s \<and> or_to t = or_to s \<and> prefix (or_calls s) (or_calls t)
     \<and> stays_balanced (books s) (books t)"

named_theorems kept

lemma or_keeps_refl [kept, simp]: "or_keeps s s"
  by (simp add: or_keeps_def)

lemma or_keeps_trans [trans]: "or_keeps s t \<Longrightarrow> or_keeps t u \<Longrightarrow> or_keeps s u"
  by (auto simp: or_keeps_def intro: prefix_order.trans stays_balanced_trans)

lemma persistQueryRecord_keeps [kept]: "or_keeps s (persistQueryRecord s)"
  by (simp add: persistQueryRecord_def or_keeps_def books_simps Let_def split: option.split)

lemma in_i64_client_bytes [simp]: "in_i64 (cumulativeClientBytes hp s)"
  by (simp add: cumulativeClientBytes_def)

lemma completeQuery_keeps [kept]: "or_keeps s (completeQuery ra err now hp s)"
proof (cases "\<exists>q c. or_pending s = Some q \<and> or_objects s (po_cursor q) = Some c")
  case True
  let ?t = "completeQuery ra err now hp s"
  from True obtain q c where qc: "or_pending s = Some q" "or_objects s (po_cursor q) = Some c" by blast
  have "books ?t = (completed s + 1, charged s + wrap_i64 (cumulativeClientBytes hp s - or_lastBytesSnapshot s), cumulativeClientBytes hp s,
      map_option (\<lambda>g. g\<lparr>ag_QueryCount := wrap_i64 (ag_QueryCount g + 1), ag_BytesTransferred := wrap_i64 (ag_BytesTransferred g
        + wrap_i64 (cumulativeClientBytes hp s - or_lastBytesSnapshot s))\<rparr>) (or_grant s))"
    using qc by (simp add: completeQuery_def books_simps Let_def)
  then have "stays_balanced (books s) (books ?t)"
    using stays_balanced_complete [of "cumulativeClientBytes hp s" "completed s" "charged s" "or_lastBytesSnapshot s" "or_grant s"]
    by (simp only: books_def in_i64_client_bytes simp_thms)
  then show ?thesis using qc by (cases "or_grant s") (simp_all add: or_keeps_def, simp_all add: completeQuery_def Let_def terms_def)
next
  case False
  then have "completeQuery ra err now hp s = s" by (auto simp: completeQuery_def split: option.split)
  then show ?thesis by simp
qed

lemma flushPendingQuery_keeps [kept]: "or_keeps s (flushPendingQuery now hp s)"
  by (simp add: flushPendingQuery_def completeQuery_keeps)

lemma start_keeps:
  assumes "or_keeps s t"
  shows "or_keeps s (persistQueryRecord (start_query a now t))"
proof -
  have "or_keeps t (start_query a now t)" by (simp add: or_keeps_def books_simps start_query_def)
  then show ?thesis using assms persistQueryRecord_keeps or_keeps_trans by blast
qed

lemma new_cursor_keeps: "or_keeps s t \<Longrightarrow> or_keeps s (snd (new_cursor c t))"
  by (simp add: or_keeps_def books_simps new_cursor_def)

lemma handlers_keep [kept]:
  "or_keeps s (snd (handleOALL8 ttc clk hp s))"
  "or_keeps s (snd (handlePiggybackExec ttc clk hp s))"
  "or_keeps s (handleJDBCExec ttc clk hp s)"
  "or_keeps s (handleOFETCH ttc clk s)"
  "or_keeps s (handleOCLOSE c s)"
proof -
  have cursors: "or_keeps s (t\<lparr>or_cursors := m\<rparr>)" if "or_keeps s t" for t m using that by (simp add: or_keeps_def books_simps)
  show "or_keeps s (snd (handleOALL8 ttc clk hp s))" "or_keeps s (snd (handlePiggybackExec ttc clk hp s))" "or_keeps s (handleJDBCExec ttc clk hp s)"
    by (cases clk; simp add: handleOALL8_def handlePiggybackExec_def handleJDBCExec_def Let_def split_beta
        start_keeps cursors new_cursor_keeps flushPendingQuery_keeps split: sum.split option.split)+
  show "or_keeps s (handleOFETCH ttc clk s)" "or_keeps s (handleOCLOSE c s)"
    by (auto simp: handleOFETCH_def handleOCLOSE_def start_query_def or_keeps_def books_simps split: sum.split option.split)
qed

lemma captureRow_keeps: "or_keeps s (captureRow D cs vs s)"
proof -
  have "or_keeps s (persistQueryRecord s)" by (rule persistQueryRecord_keeps)
  then show ?thesis by (auto simp: captureRow_def Let_def or_keeps_def books_simps split: option.split)
qed

lemma fold_keeps:
  assumes "\<And>x t. or_keeps t (f x t)"
  shows "or_keeps s (fold f xs s)"
proof (induction xs arbitrary: s)
  case (Cons x xs)
  show ?case using or_keeps_trans [OF assms [of s x] Cons.IH] by simp
qed simp

lemma set_lastRow_keeps: "or_keeps s (set_lastRow r s)"
  by (simp add: set_lastRow_def or_keeps_def books_simps)

lemma set_columns_keeps: "or_keeps s (set_columns_of_pending cs s)"
  by (simp add: set_columns_of_pending_def or_keeps_def books_simps split: option.split)

lemma responses_keep [kept]:
  "or_keeps s (handleQueryResultV2 D ttc now hp s)"
  "or_keeps s (handleResponse D ttc now hp s)"
  "or_keeps s (handleOERStatus ttc now hp s)"
  "or_keeps s (handleContinuation D ttc now hp s)"
proof -
  note steps = or_keeps_trans [OF _ completeQuery_keeps] or_keeps_trans [OF _ set_lastRow_keeps] or_keeps_trans [OF _ fold_keeps]
  have oer: "or_keeps s (completeQueryFromOER i now hp s)" for i by (simp add: completeQueryFromOER_def completeQuery_keeps)
  then show "or_keeps s (handleOERStatus ttc now hp s)" by (simp add: handleOERStatus_def split: option.split)
  show "or_keeps s (handleResponse D ttc now hp s)"
    by (auto simp: handleResponse_def Let_def oer completeQuery_keeps set_columns_keeps intro: steps split: option.split)
  show "or_keeps s (handleQueryResultV2 D ttc now hp s)"
    by (auto simp: handleQueryResultV2_def Let_def completeQuery_keeps set_columns_keeps intro!: steps captureRow_keeps split: option.split)
  have "or_keeps t (set_lastRow r (captureRow D cs row t))" for t r cs row
    by (rule or_keeps_trans [OF captureRow_keeps set_lastRow_keeps])
  then show "or_keeps s (handleContinuation D ttc now hp s)"
    by (auto simp: handleContinuation_def Let_def completeQuery_keeps intro!: or_keeps_trans [OF _ completeQuery_keeps] fold_keeps split: option.split)
qed

text \<open>What a message keeps of the proxy besides.\<close>

definition ox_bus :: "oracle_proxy \<Rightarrow> bus" where "ox_bus p = (ox_registry p, ox_heap p)"

definition ox_keeps :: "oracle_proxy \<Rightarrow> oracle_proxy \<Rightarrow> bool" where
  "ox_keeps p q \<longleftrightarrow> or_keeps (ox_session p) (ox_session q) \<and> same_flags (ox_bus p) (ox_bus q) \<and> ox_closed q = ox_closed p"

lemma ox_keeps_refl [simp]: "ox_keeps p p"
  by (simp add: ox_keeps_def same_flags_def)

lemma ox_keeps_trans: "ox_keeps p q \<Longrightarrow> ox_keeps q r \<Longrightarrow> ox_keeps p r"
  by (auto simp: ox_keeps_def same_flags_def elim: or_keeps_trans)

lemma upd_or_keeps: "or_keeps (ox_session p) (f (ox_session p)) \<Longrightarrow> ox_keeps p (upd_or f p)"
  by (simp add: ox_keeps_def upd_or_def ox_bus_def same_flags_def)

lemma write_client_keeps: "ox_keeps p (snd (write_client raw p))"
  by (simp add: ox_keeps_def write_client_def ox_bus_def same_flags_def cc_Write_def cc_count_def split_beta Let_def split: option.split)

lemma sendOracleError_keeps: "ox_keeps p (sendOracleError e p)" "ox_keeps p (writeTTCError c msg p)"
  by (simp_all add: sendOracleError_def writeTTCError_def write_client_keeps Let_def)

lemma write_client_sent [simp]: "ox_upstream (snd (write_client raw p)) = ox_upstream p" "ox_session (snd (write_client raw p)) = ox_session p"
  by (simp_all add: write_client_def split_beta Let_def)

lemma send_error_sent [simp]:
  "ox_upstream (sendOracleError e p) = ox_upstream p" "ox_upstream (writeTTCError c msg p) = ox_upstream p"
  "ox_session (sendOracleError e p) = ox_session p" "ox_session (writeTTCError c msg p) = ox_session p"
  by (simp_all add: sendOracleError_def writeTTCError_def Let_def)

lemma checked_exec_keeps:
  assumes "\<And>s. or_keeps s (snd (h s))"
  shows "ox_keeps p (snd (checked_exec h now p))" and "ox_upstream (snd (checked_exec h now p)) = ox_upstream p"
proof -
  have h: "ox_keeps p (p\<lparr>ox_session := s\<rparr>)" if "h (ox_session p) = (e, s)" for e s
    using assms [of "ox_session p"] that by (simp add: ox_keeps_def ox_bus_def same_flags_def)
  show "ox_keeps p (snd (checked_exec h now p))"
    by (auto simp: checked_exec_def sendOracleError_keeps h split: option.split prod.split intro: ox_keeps_trans [OF h])
  show "ox_upstream (snd (checked_exec h now p)) = ox_upstream p"
    by (simp add: checked_exec_def split: option.split prod.split)
qed

lemma checked_exec_pass:
  assumes "\<not> fst (checked_exec h now p)"
  shows "oracle_checkQuotas (ox_heap p) now (ox_session p) = None" and "fst (h (ox_session p)) = None"
  using assms by (auto simp: checked_exec_def split: option.splits prod.splits)

lemma interceptClient_keeps:
  "ox_keeps p (snd (interceptClientMessage pkt clk p))" "ox_upstream (snd (interceptClientMessage pkt clk p)) = ox_upstream p"
proof -
  have exec: "ox_keeps p (snd (checked_exec h (fst clk) p)) \<and> ox_upstream (snd (checked_exec h (fst clk) p)) = ox_upstream p"
    if "\<And>s. or_keeps s (snd (h s))" for h using checked_exec_keeps [OF that] by simp
  have "ox_keeps p (snd (interceptClientMessage pkt clk p)) \<and> ox_upstream (snd (interceptClientMessage pkt clk p)) = ox_upstream p"
    by (simp add: interceptClientMessage_def exec kept upd_or_keeps split: option.split sum.split) (simp add: upd_or_def)
  then show "ox_keeps p (snd (interceptClientMessage pkt clk p))" "ox_upstream (snd (interceptClientMessage pkt clk p)) = ox_upstream p" by simp_all
qed

section \<open>Statements that reach the server\<close>

text \<open>The statement that the proxy reads in a message whose text it checks: a piggyback execution or an OALL8 call.\<close>

definition vetted_sql :: "tns_packet \<Rightarrow> string option" where
  "vetted_sql pkt =
     (if \<not> is_data pkt then None
      else let ttc = drop ttcDataFlagsSize (tp_Payload pkt); f = ttc ! 0;
               r = (if f = TTCFuncPiggyback \<and> IsPiggybackExecSQL ttc then decodePiggybackExecSQL ttc
                    else if f = TTCFuncOALL8 then decodeOALL8 ttc else Inl ErrEmptySQL)
      in case r of Inl e \<Rightarrow> None | Inr m \<Rightarrow> Some (o8_SQL m))"

text \<open>Messages that execute statements, in the three forms the proxy knows.\<close>

definition or_executes :: "tns_packet \<Rightarrow> bool" where
  "or_executes pkt \<longleftrightarrow> is_data pkt \<and>
     (let ttc = drop ttcDataFlagsSize (tp_Payload pkt); f = ttc ! 0
      in f = TTCFuncPiggyback \<and> IsPiggybackExecSQL ttc \<or> f = TTCFuncOALL8 \<or> f = TTCFuncOFETCH \<and> IsExecSQL ttc)"

definition or_executed :: "oracle_proxy \<Rightarrow> tns_packet list" where
  "or_executed p = filter or_executes (ox_upstream p)"

lemma data_payload:
  assumes "is_data pkt"
  shows "parseTTCFunctionCode (tp_Payload pkt) = Some (drop ttcDataFlagsSize (tp_Payload pkt) ! 0)"
    and "extractTTCPayload (tp_Payload pkt) = Some (drop ttcDataFlagsSize (tp_Payload pkt))"
  using assms by (simp_all add: is_data_def parseTTCFunctionCode_def extractTTCPayload_def ttcDataFlagsSize_def)

lemma exec_handlers_checked:
  "fst (handleOALL8 ttc clk hp s) = None \<Longrightarrow> decodeOALL8 ttc = Inr m \<Longrightarrow> control_check (o8_SQL m) s = None"
  "fst (handlePiggybackExec ttc clk hp s) = None \<Longrightarrow> decodePiggybackExecSQL ttc = Inr m \<Longrightarrow> control_check (o8_SQL m) s = None"
  by (cases clk; auto simp: handleOALL8_def handlePiggybackExec_def Let_def split_beta split: option.splits)+

lemma forwarded_checked:
  assumes "is_data pkt" and "\<not> fst (interceptClientMessage pkt clk p)"
  shows "or_executes pkt \<Longrightarrow> oracle_checkQuotas (ox_heap p) (fst clk) (ox_session p) = None"
    and "vetted_sql pkt = Some sql \<Longrightarrow> control_check sql (ox_session p) = None"
proof -
  let ?ttc = "drop ttcDataFlagsSize (tp_Payload pkt)"
  note codes = TTCFuncPiggyback_def TTCFuncOALL8_def TTCFuncOFETCH_def
  note run = assms(2) [unfolded interceptClientMessage_def data_payload [OF assms(1)] option.case]
  show "or_executes pkt \<Longrightarrow> oracle_checkQuotas (ox_heap p) (fst clk) (ox_session p) = None"
    using run checked_exec_pass(1) [of _ "fst clk" p] by (auto simp: or_executes_def Let_def codes split: if_splits)
  show "vetted_sql pkt = Some sql \<Longrightarrow> control_check sql (ox_session p) = None"
    using run checked_exec_pass(2) [of _ "fst clk" p]
    by (auto simp: vetted_sql_def assms(1) Let_def codes split: if_splits sum.splits dest!: exec_handlers_checked)
qed

section \<open>The log of statements\<close>

text \<open>The statement that the proxy reads in a message that executes one.\<close>

definition read_sql :: "tns_packet \<Rightarrow> string option" where
  "read_sql pkt =
     (if \<not> or_executes pkt then None
      else let ttc = drop ttcDataFlagsSize (tp_Payload pkt); f = ttc ! 0;
               r = (if f = TTCFuncPiggyback then decodePiggybackExecSQL ttc else if f = TTCFuncOALL8 then decodeOALL8 ttc else decodeExecSQL ttc)
      in case r of Inl e \<Rightarrow> None | Inr m \<Rightarrow> Some (o8_SQL m))"

text \<open>The inserts into the log, each with its statement and whether it succeeded, and the statements that are in the log.\<close>

fun insert_of :: "store_call \<Rightarrow> (string \<times> bool) list" where
  "insert_of (ScCreateQuery q outcome) = [(qry_SQLText q, outcome \<noteq> None)]"
| "insert_of _ = []"

definition inserts :: "oracle_proxy \<Rightarrow> (string \<times> bool) list" where
  "inserts p = concat (map insert_of (or_calls (ox_session p)))"

definition logged_sql :: "oracle_proxy \<Rightarrow> string list" where
  "logged_sql p = map fst (filter snd (inserts p))"

definition forwarded_sql :: "oracle_proxy \<Rightarrow> string list" where
  "forwarded_sql p = List.map_filter read_sql (ox_upstream p)"

lemma keeps_inserts: "or_keeps (ox_session p) (ox_session q) \<Longrightarrow> prefix (inserts p) (inserts q)"
  by (auto simp: or_keeps_def inserts_def prefix_def)

text \<open>The calls end with the record of a statement.\<close>

definition logs :: "string \<Rightarrow> oracle_session \<Rightarrow> oracle_session \<Rightarrow> bool" where
  "logs sql s t \<longleftrightarrow> (\<exists>ds q outcome. or_calls t = or_calls s @ ds @ [ScCreateQuery q outcome] \<and> qry_SQLText q = sql)"

lemma start_logged:
  assumes "or_keeps s t" and "or_objects t a = Some c"
  shows "logs (tc_sql c) s (persistQueryRecord (start_query a now t))"
  using assms by (auto simp: logs_def persistQueryRecord_def start_query_def oracle_query_def or_keeps_def Let_def prefix_def)

lemma fresh_cursor_logged:
  assumes "or_keeps s t"
  shows "logs (tc_sql c) s (persistQueryRecord (start_query (fst (new_cursor c t)) now (snd (new_cursor c t))))"
    and "logs (tc_sql c) s (persistQueryRecord (start_query (fst (new_cursor c t)) now ((snd (new_cursor c t))\<lparr>or_cursors := m\<rparr>)))"
  using assms by (auto intro!: start_logged simp: new_cursor_def or_keeps_def books_simps)

lemma exec_handlers_logged:
  "fst (handleOALL8 ttc clk hp s) = None \<Longrightarrow> decodeOALL8 ttc = Inr m \<Longrightarrow> logs (o8_SQL m) s (snd (handleOALL8 ttc clk hp s))"
  "fst (handlePiggybackExec ttc clk hp s) = None \<Longrightarrow> decodePiggybackExecSQL ttc = Inr m \<Longrightarrow> logs (o8_SQL m) s (snd (handlePiggybackExec ttc clk hp s))"
  "decodeExecSQL ttc = Inr m \<Longrightarrow> logs (o8_SQL m) s (handleJDBCExec ttc clk hp s)"
proof -
  obtain quota flushed parsed started where clk: "clk = (quota, flushed, parsed, started)" by (cases clk)
  note logged = fresh_cursor_logged [OF flushPendingQuery_keeps, of _ s flushed hp started]
  show "fst (handleOALL8 ttc clk hp s) = None \<Longrightarrow> decodeOALL8 ttc = Inr m \<Longrightarrow> logs (o8_SQL m) s (snd (handleOALL8 ttc clk hp s))"
    using logged(2) [of "\<lparr>tc_cursorID = o8_CursorID m, tc_sql = o8_SQL m, tc_bindValues = o8_BindValues m, tc_parsedAt = parsed, tc_columns = []\<rparr>"]
    by (simp add: handleOALL8_def clk Let_def split_beta split: option.splits)
  show "fst (handlePiggybackExec ttc clk hp s) = None \<Longrightarrow> decodePiggybackExecSQL ttc = Inr m \<Longrightarrow> logs (o8_SQL m) s (snd (handlePiggybackExec ttc clk hp s))"
    using logged(1) [of "\<lparr>tc_cursorID = 0, tc_sql = o8_SQL m, tc_bindValues = o8_BindValues m, tc_parsedAt = parsed, tc_columns = []\<rparr>"]
    by (simp add: handlePiggybackExec_def clk Let_def split_beta split: option.splits)
  show "decodeExecSQL ttc = Inr m \<Longrightarrow> logs (o8_SQL m) s (handleJDBCExec ttc clk hp s)"
    using logged(1) [of "\<lparr>tc_cursorID = 0, tc_sql = o8_SQL m, tc_bindValues = [], tc_parsedAt = parsed, tc_columns = []\<rparr>"]
    by (simp add: handleJDBCExec_def clk Let_def split_beta)
qed

lemma checked_exec_session:
  assumes "\<not> fst (checked_exec h now p)"
  shows "ox_session (snd (checked_exec h now p)) = snd (h (ox_session p))"
  using assms by (auto simp: checked_exec_def split: option.splits prod.splits)

lemma intercept_exec:
  assumes "is_data pkt" and "ttc = drop ttcDataFlagsSize (tp_Payload pkt)"
  shows "ttc ! 0 = TTCFuncPiggyback \<Longrightarrow> IsPiggybackExecSQL ttc \<Longrightarrow>
      interceptClientMessage pkt clk p = checked_exec (handlePiggybackExec ttc clk (ox_heap p)) (fst clk) p"
    and "ttc ! 0 = TTCFuncOALL8 \<Longrightarrow> interceptClientMessage pkt clk p = checked_exec (handleOALL8 ttc clk (ox_heap p)) (fst clk) p"
    and "ttc ! 0 = TTCFuncOFETCH \<Longrightarrow> IsExecSQL ttc \<Longrightarrow>
      interceptClientMessage pkt clk p = checked_exec (\<lambda>s. (None, handleJDBCExec ttc clk (ox_heap p) s)) (fst clk) p"
  unfolding interceptClientMessage_def data_payload [OF assms(1)] option.case assms(2) by (simp_all add: ttc_codes)

lemma forwarded_logged:
  assumes "\<not> fst (interceptClientMessage pkt clk p)" and "read_sql pkt = Some sql"
  shows "logs sql (ox_session p) (ox_session (snd (interceptClientMessage pkt clk p)))"
proof -
  define ttc where "ttc = drop ttcDataFlagsSize (tp_Payload pkt)"
  have exec: "or_executes pkt" using assms(2) by (simp add: read_sql_def split: if_splits)
  then have "is_data pkt" by (simp add: or_executes_def)
  note form = intercept_exec [OF this ttc_def]
  have sql: "\<exists>m. (if ttc ! 0 = TTCFuncPiggyback then decodePiggybackExecSQL ttc else if ttc ! 0 = TTCFuncOALL8 then decodeOALL8 ttc
      else decodeExecSQL ttc) = Inr m \<and> sql = o8_SQL m"
    using assms(2) exec unfolding read_sql_def Let_def ttc_def by (auto split: sum.splits)
  from exec consider "ttc ! 0 = TTCFuncPiggyback" "IsPiggybackExecSQL ttc" | "ttc ! 0 = TTCFuncOALL8" | "ttc ! 0 = TTCFuncOFETCH" "IsExecSQL ttc"
    by (auto simp: or_executes_def Let_def ttc_def)
  then show ?thesis
  proof cases
    case 1
    with sql obtain m where m: "decodePiggybackExecSQL ttc = Inr m" "sql = o8_SQL m" by auto
    note pass = assms(1) [unfolded form(1) [OF 1]]
    show ?thesis unfolding form(1) [OF 1] checked_exec_session [OF pass] m(2)
      by (rule exec_handlers_logged(2) [OF checked_exec_pass(2) [OF pass] m(1)])
  next
    case 2
    with sql obtain m where m: "decodeOALL8 ttc = Inr m" "sql = o8_SQL m" by (auto simp: ttc_codes)
    note pass = assms(1) [unfolded form(2) [OF 2]]
    show ?thesis unfolding form(2) [OF 2] checked_exec_session [OF pass] m(2)
      by (rule exec_handlers_logged(1) [OF checked_exec_pass(2) [OF pass] m(1)])
  next
    case 3
    with sql obtain m where m: "decodeExecSQL ttc = Inr m" "sql = o8_SQL m" by (auto simp: ttc_codes)
    note pass = assms(1) [unfolded form(3) [OF 3]]
    show ?thesis unfolding form(3) [OF 3] checked_exec_session [OF pass] m(2) snd_conv
      by (rule exec_handlers_logged(3) [OF m(1)])
  qed
qed

text \<open>What holds of a packet that goes from one state to the next on the way to the server.\<close>

definition relayed :: "oracle_proxy \<Rightarrow> tns_packet \<Rightarrow> oracle_proxy \<Rightarrow> bool" where
  "relayed p pkt q \<longleftrightarrow> ox_upstream q = ox_upstream p @ [pkt]
     \<and> (or_executes pkt \<longrightarrow> \<not> Revoked (ox_heap p) (or_revocation (ox_session p)))
     \<and> (\<forall>sql. vetted_sql pkt = Some sql \<longrightarrow> control_check sql (ox_session p) = None)
     \<and> (\<forall>sql. read_sql pkt = Some sql \<longrightarrow> logs sql (ox_session p) (ox_session q))"

lemma client_message:
  "ox_keeps p (clientToUpstream n stream clk written p)"
  "ox_upstream (clientToUpstream n stream clk written p) = ox_upstream p
   \<or> (\<exists>pkt. relayed p pkt (clientToUpstream n stream clk written p))"
proof -
  define p' where "p' = p\<lparr>ox_heap := snd (cc_Read (oracle_conn p) (n, None :: unit option) (ox_heap p))\<rparr>"
  have p': "ox_keeps p p'" "ox_upstream p' = ox_upstream p" "ox_session p' = ox_session p"
      "\<And>r. Revoked (ox_heap p') r = Revoked (ox_heap p) r"
    by (simp_all add: p'_def ox_keeps_def ox_bus_def same_flags_def cc_Read_def cc_count_def Revoked_def split: option.split)
  have "ox_keeps p (clientToUpstream n stream clk written p) \<and>
    (ox_upstream (clientToUpstream n stream clk written p) = ox_upstream p
     \<or> (\<exists>pkt. relayed p pkt (clientToUpstream n stream clk written p)))"
  proof (cases "readTNSPacket stream")
    case (Inl e)
    then show ?thesis using p' by (simp add: clientToUpstream_def Let_def flip: p'_def) (simp add: ox_keeps_def ox_bus_def)
  next
    case (Inr r)
    obtain pkt rest where r: "r = (pkt, rest)" by (cases r)
    define p1 where "p1 = oracle_dumpPacket 0 (tp_Raw pkt) p'"
    have p1: "ox_keeps p' p1" "ox_upstream p1 = ox_upstream p'" "ox_session p1 = ox_session p'" "ox_heap p1 = ox_heap p'"
      by (simp_all add: p1_def oracle_dumpPacket_def ox_keeps_def ox_bus_def same_flags_def)
    obtain b p2 where i: "(if is_data pkt then interceptClientMessage pkt clk p1 else (False, p1)) = (b, p2)" by fastforce
    have p2: "ox_keeps p1 p2" "ox_upstream p2 = ox_upstream p1"
      using i interceptClient_keeps [where p = p1 and pkt = pkt and clk = clk] by (auto split: if_splits)
    have keep: "ox_keeps p p2" using p'(1) p1(1) p2(1) ox_keeps_trans by blast
    then have ends: "ox_keeps p (p2\<lparr>ox_c2u := True\<rparr>)" "ox_keeps p (p2\<lparr>ox_upstream := ox_upstream p2 @ [pkt]\<rparr>)"
      by (simp_all add: ox_keeps_def ox_bus_def)
    have res: "clientToUpstream n stream clk written p
        = (if b then p2 else if written then p2\<lparr>ox_upstream := ox_upstream p2 @ [pkt]\<rparr> else p2\<lparr>ox_c2u := True\<rparr>)"
      using i by (simp add: clientToUpstream_def Let_def Inr r flip: p'_def p1_def) (simp split: if_splits)
    have exec: "\<not> Revoked (ox_heap p) (or_revocation (ox_session p))" if "\<not> b" "or_executes pkt"
    proof -
      have "is_data pkt" using that(2) by (simp add: or_executes_def)
      then have "oracle_checkQuotas (ox_heap p1) (fst clk) (ox_session p1) = None" using forwarded_checked(1) that i by (metis fst_conv)
      then show ?thesis using p' p1 by (simp add: oracle_checkQuotas_def split: if_splits)
    qed
    have sql: "control_check sql (ox_session p) = None" if "\<not> b" "vetted_sql pkt = Some sql" for sql
    proof -
      have "is_data pkt" using that(2) by (simp add: vetted_sql_def split: if_splits)
      then have "control_check sql (ox_session p1) = None" using forwarded_checked(2) that i by (metis fst_conv)
      then show ?thesis using p' p1 by simp
    qed
    have log: "logs s (ox_session p) (ox_session p2)" if "\<not> b" "read_sql pkt = Some s" for s
    proof -
      have "is_data pkt" using that(2) by (simp add: read_sql_def or_executes_def split: if_splits)
      then have "logs s (ox_session p1) (ox_session p2)" using forwarded_logged [of pkt clk p1 s] that i by simp
      then show ?thesis using p' p1 by simp
    qed
    show ?thesis using keep ends exec sql log p2(2) p1(2) p'(2) by (auto simp: res relayed_def)
  qed
  then show "ox_keeps p (clientToUpstream n stream clk written p)"
    "ox_upstream (clientToUpstream n stream clk written p) = ox_upstream p
   \<or> (\<exists>pkt. relayed p pkt (clientToUpstream n stream clk written p))" by simp_all
qed

lemma server_message:
  "ox_keeps p (upstreamToClient D stream now now' p)" "ox_upstream (upstreamToClient D stream now now' p) = ox_upstream p"
proof -
  have i: "ox_keeps p (interceptUpstreamMessage D pkt now p)" "ox_upstream (interceptUpstreamMessage D pkt now p) = ox_upstream p" for pkt
    by (simp_all add: interceptUpstreamMessage_def upd_or_keeps kept split: option.split) (simp_all add: upd_or_def)
  have "ox_keeps p (upstreamToClient D stream now now' p) \<and> ox_upstream (upstreamToClient D stream now now' p) = ox_upstream p"
  proof (cases "readTNSPacket stream")
    case (Inl e)
    then show ?thesis by (simp add: upstreamToClient_def ox_keeps_def ox_bus_def same_flags_def)
  next
    case (Inr r)
    obtain pkt rest where r: "r = (pkt, rest)" by (cases r)
    define p1 where "p1 = oracle_dumpPacket 1 (tp_Raw pkt) (if is_data pkt then interceptUpstreamMessage D pkt now p else p)"
    have p1: "ox_keeps p p1" "ox_upstream p1 = ox_upstream p"
      using i [of pkt] by (simp_all add: p1_def oracle_dumpPacket_def ox_keeps_def ox_bus_def same_flags_def)
    obtain ok p2 where w: "write_client (writeTNSPacket pkt) p1 = (ok, p2)" by fastforce
    then have p2: "ox_keeps p p2" "ox_upstream p2 = ox_upstream p"
      using p1 write_client_keeps [of p1 "writeTNSPacket pkt"] write_client_sent(1) [of "writeTNSPacket pkt" p1] ox_keeps_trans by auto
    have p3: "ox_keeps p (writeTTCError c msg p2)" for c msg using p2(1) sendOracleError_keeps(2) ox_keeps_trans by blast
    have done_q: "ox_keeps p (upd_or (completeQuery None e now' hp) (writeTTCError c msg p2))" for e hp c msg
      using ox_keeps_trans [OF p3 upd_or_keeps [where f = "completeQuery None e now' hp", OF completeQuery_keeps]] .
    show ?thesis
      using p2 done_q p3 by (cases ok) (simp_all add: upstreamToClient_def Inr r Let_def w flip: p1_def, simp_all add: ox_keeps_def ox_bus_def upd_or_def Let_def split: option.split)
  qed
  then show "ox_keeps p (upstreamToClient D stream now now' p)" "ox_upstream (upstreamToClient D stream now now' p) = ox_upstream p" by simp_all
qed

section \<open>Steps\<close>

lemma oracle_step_keeps:
  "or_keeps (ox_session p) (ox_session (oracle_step D ev p))"
  "ox_closed p \<Longrightarrow> ox_closed (oracle_step D ev p)"
  "\<not> ox_closed (oracle_step D ev p) \<Longrightarrow>
     (\<exists>op. ev = OevRegistry op \<and> ox_bus (oracle_step D ev p) = bus_step op (ox_bus p)) \<or> same_flags (ox_bus p) (ox_bus (oracle_step D ev p))"
proof -
  have "or_keeps (ox_session p) (ox_session (oracle_step D ev p)) \<and> (ox_closed p \<longrightarrow> ox_closed (oracle_step D ev p)) \<and>
    (\<not> ox_closed (oracle_step D ev p) \<longrightarrow>
     (\<exists>op. ev = OevRegistry op \<and> ox_bus (oracle_step D ev p) = bus_step op (ox_bus p)) \<or> same_flags (ox_bus p) (ox_bus (oracle_step D ev p)))"
  proof (cases ev)
    case (OevClient n stream clk written)
    then show ?thesis using client_message(1) [of p n stream clk written] by (auto simp: oracle_step_def ox_keeps_def same_flags_def)
  next
    case (OevServer stream now now')
    then show ?thesis using server_message(1) [of p D stream now now'] by (auto simp: oracle_step_def ox_keeps_def same_flags_def)
  next
    case OevEnd
    then show ?thesis by (auto simp: oracle_step_def oracle_cleanup_def same_flags_def Let_def split: option.split)
  qed (auto simp: oracle_step_def ox_bus_def same_flags_def split_beta Let_def split: option.split)
  then show "or_keeps (ox_session p) (ox_session (oracle_step D ev p))" "ox_closed p \<Longrightarrow> ox_closed (oracle_step D ev p)"
    "\<not> ox_closed (oracle_step D ev p) \<Longrightarrow>
     (\<exists>op. ev = OevRegistry op \<and> ox_bus (oracle_step D ev p) = bus_step op (ox_bus p)) \<or> same_flags (ox_bus p) (ox_bus (oracle_step D ev p))"
    by blast+
qed

lemma oracle_step_sent:
  "ox_upstream (oracle_step D ev p) = ox_upstream p
   \<or> \<not> ox_closed p \<and> (\<exists>pkt. relayed p pkt (oracle_step D ev p))"
proof (cases ev)
  case (OevClient n stream clk written)
  then show ?thesis using client_message(2) [of n stream clk written p] by (auto simp: oracle_step_def)
next
  case (OevServer stream now now')
  then show ?thesis using server_message(2) [of D stream now now' p] by (simp add: oracle_step_def)
next
  case (OevRegistry b)
  then show ?thesis by (simp add: oracle_step_def split_beta Let_def)
next
  case (OevWatchdog now)
  then show ?thesis by (simp add: oracle_step_def split: option.split)
next
  case OevEnd
  then show ?thesis by (simp add: oracle_step_def oracle_cleanup_def Let_def split: option.split)
qed

lemma oracle_silent:
  assumes "ox_closed p \<or> Revoked (ox_heap p) (or_revocation (ox_session p))"
  shows "or_executed (oracle_step D ev p) = or_executed p"
  using oracle_step_sent [of D ev p] assms by (auto simp: or_executed_def relayed_def)

interpretation oracle_relay: revocable_session "oracle_step D" ox_bus "\<lambda>p. or_revocation (ox_session p)" ox_closed or_executed OevRegistry for D
proof unfold_locales
  fix e p h op
  show "or_revocation (ox_session (oracle_step D e p)) = or_revocation (ox_session p)"
    using oracle_step_keeps(1) [of p D e] by (simp add: or_keeps_def)
  show "ox_closed p \<Longrightarrow> ox_closed (oracle_step D e p)" by (rule oracle_step_keeps(2))
  show "\<not> ox_closed (oracle_step D e p) \<Longrightarrow> (\<exists>op. e = OevRegistry op \<and> ox_bus (oracle_step D e p) = bus_step op (ox_bus p)) \<or>
      same_flags (ox_bus p) (ox_bus (oracle_step D e p))" by (rule oracle_step_keeps(3))
  show "\<not> ox_closed p \<Longrightarrow> ox_bus (oracle_step D (OevRegistry op) p) = bus_step op (ox_bus p)"
    by (simp add: oracle_step_def ox_bus_def split_beta)
  show "or_executed (oracle_step D (OevRegistry op) p) = or_executed p"
    by (simp add: oracle_step_def or_executed_def split_beta)
  show "ox_closed p \<Longrightarrow> or_executed (oracle_step D e p) = or_executed p" by (simp add: oracle_silent)
  show "or_revocation (ox_session p) = Some h \<Longrightarrow> bools (snd (ox_bus p)) h \<Longrightarrow> or_executed (oracle_step D e p) = or_executed p"
    by (rule oracle_silent) (simp add: Revoked_def ox_bus_def)
qed

lemma oracle_attached:
  assumes "bus_inv (r, hp)" and "ag_UID g \<noteq> uuid_Nil"
  shows "oracle_relay.attached (ag_UID g) (next_addr hp) (oracle_start cfg g conn from to hp r created ws)"
proof -
  obtain h r' hp' where reg: "Register r (ag_UID g) hp = (h, r', hp')" by (cases "Register r (ag_UID g) hp")
  show ?thesis using bus_register_new [OF assms reg] by (simp add: oracle_relay.attached_def oracle_start_def reg ox_bus_def)
qed

lemma validate_oracle_terms:
  assumes "terms g = terms h"
  shows "ValidateOracleQuery q g = ValidateOracleQuery q h"
  using terms_eq_controls [OF assms] by (simp add: ValidateOracleQuery_def ValidateQuery_def)

definition or_bound :: "access_grant \<Rightarrow> oracle_proxy \<Rightarrow> bool" where
  "or_bound g p \<longleftrightarrow> map_option terms (or_grant (ox_session p)) = Some (terms g)
     \<and> list_all (\<lambda>pkt. \<forall>sql. vetted_sql pkt = Some sql \<longrightarrow> ValidateOracleQuery sql g = None) (ox_upstream p)"

lemma or_bound_step:
  assumes "or_bound g p"
  shows "or_bound g (oracle_step D ev p)"
proof -
  have "map_option terms (or_grant (ox_session (oracle_step D ev p))) = Some (terms g)"
    using oracle_step_keeps(1) [of p D ev] assms by (simp add: or_keeps_def or_bound_def)
  moreover have "ValidateOracleQuery sql g = None" if "control_check sql (ox_session p) = None" for sql
  proof -
    obtain h where h: "or_grant (ox_session p) = Some h" "terms h = terms g" using assms by (auto simp: or_bound_def)
    then show ?thesis using that validate_oracle_terms [OF h(2), of sql] by (simp add: control_check_def)
  qed
  ultimately show ?thesis using oracle_step_sent [of D ev p] assms by (auto simp: or_bound_def relayed_def)
qed

lemma or_bound_run: "or_bound g p \<Longrightarrow> or_bound g (oracle_run D evs p)"
  unfolding oracle_run_def by (induction evs arbitrary: p) (simp_all add: or_bound_step)

section \<open>Properties\<close>

text \<open>C20. When the proxy can read the statement of a piggyback execution or an OALL8 call that reaches the upstream server, the
  validator accepts that statement under the grant of the session, whatever came before and whatever the decoders of result rows
  return. (The theorem covers no message whose statement the decoders cannot read, which is forwarded unchecked, and not the third
  form of execution.)\<close>

theorem oracle_statements_allowed:
  assumes "p = oracle_run D evs (oracle_start cfg g conn from to hp r created ws)"
    and "pkt \<in> set (ox_upstream p)" and "vetted_sql pkt = Some sql"
  shows "ValidateOracleQuery sql g = None"
proof -
  have "or_bound g (oracle_start cfg g conn from to hp r created ws)"
    by (simp add: or_bound_def oracle_start_def split_beta Let_def)
  then have "or_bound g p" unfolding assms(1) by (rule or_bound_run)
  then show ?thesis using assms(2,3) by (auto simp: or_bound_def list_all_iff)
qed

text \<open>C21. From the moment the grant of an Oracle session is revoked in the registry, no further message that executes a
  statement reaches the upstream server, in any of the three forms.\<close>

theorem oracle_revocation_final:
  assumes "bus_inv (r, hp)" and "ag_UID g \<noteq> uuid_Nil"
    and "OevRegistry (OpDeregister (ag_UID g) (next_addr hp)) \<notin> set before"
    and "p = oracle_start cfg g conn from to hp r created ws"
  shows "or_executed (oracle_run D (before @ OevRegistry (OpRevoke (ag_UID g)) # after) p) = or_executed (oracle_run D before p)"
  unfolding oracle_run_def assms(4) by (rule oracle_relay.revocation_final) (use oracle_attached assms in auto)

lemma oracle_run_keeps: "or_keeps (ox_session p) (ox_session (oracle_run D evs p))"
  unfolding oracle_run_def
proof (induction evs arbitrary: p)
  case (Cons ev evs)
  show ?case using or_keeps_trans [OF oracle_step_keeps(1) Cons.IH] by simp
qed simp

lemma subseq_map_prefix: "subseq xs (map f ys) \<Longrightarrow> prefix ys zs \<Longrightarrow> subseq xs (map f zs)"
  by (auto simp: prefix_def intro: subseq_order.trans)

lemma logged_step:
  assumes "subseq (forwarded_sql p) (map fst (inserts p))"
  shows "subseq (forwarded_sql (oracle_step D ev p)) (map fst (inserts (oracle_step D ev p)))"
proof -
  let ?q = "oracle_step D ev p"
  have grow: "subseq (forwarded_sql p) (map fst (inserts ?q))"
    by (rule subseq_map_prefix [OF assms keeps_inserts [OF oracle_step_keeps(1)]])
  from oracle_step_sent [of D ev p] consider "ox_upstream ?q = ox_upstream p" | pkt where "relayed p pkt ?q" by blast
  then show ?thesis
  proof cases
    case 1
    then show ?thesis using grow by (simp add: forwarded_sql_def)
  next
    case 2
    show ?thesis
    proof (cases "read_sql pkt")
      case None
      then show ?thesis using 2 grow by (simp add: forwarded_sql_def relayed_def map_filter_def)
    next
      case (Some sql)
      then obtain ds where "map fst (inserts ?q) = map fst (inserts p) @ ds @ [sql]" using 2 by (force simp: relayed_def logs_def inserts_def)
      moreover have "subseq (forwarded_sql p @ [sql]) (map fst (inserts p) @ ds @ [sql])"
        using assms by (intro list_emb_append_mono) (simp_all add: subseq_drop_many)
      ultimately show ?thesis using 2 Some by (simp add: forwarded_sql_def relayed_def map_filter_def)
    qed
  qed
qed

text \<open>C22. For every statement that the proxy can read in a message it forwards, an insert into the log was attempted, in the order in
  which the statements reach the server; and when no insert of the session fails, every such statement is in the log, in that
  order. (A failed insert is reported to the operator's log only: the statement is forwarded all the same.)\<close>

theorem oracle_statements_logged:
  assumes "p = oracle_run D evs (oracle_start cfg g conn from to hp r created ws)"
  shows "subseq (forwarded_sql p) (map fst (inserts p)) \<and> (list_all snd (inserts p) \<longrightarrow> subseq (forwarded_sql p) (logged_sql p))"
proof -
  have "subseq (forwarded_sql (oracle_run D evs p)) (map fst (inserts (oracle_run D evs p)))" if "subseq (forwarded_sql p) (map fst (inserts p))" for p
    using that unfolding oracle_run_def by (induction evs arbitrary: p) (simp_all add: logged_step)
  then have "subseq (forwarded_sql p) (map fst (inserts p))"
    unfolding assms by (simp add: oracle_start_def forwarded_sql_def split_beta Let_def map_filter_def)
  moreover have "filter snd (inserts p) = inserts p" if "list_all snd (inserts p)" using that by (simp add: list_all_iff filter_id_conv)
  ultimately show ?thesis by (simp add: logged_sql_def)
qed

text \<open>The bytes of the client connection are charged without gap or overlap: at every moment the charges of the completed
  queries add up to the counter reading at the last completion, and the grant in the session has been charged for them.\<close>

theorem oracle_bytes_charged_once:
  assumes "in_i64 (ag_QueryCount g)" and "in_i64 (ag_BytesTransferred g)"
    and "s = ox_session (oracle_run D evs (oracle_start cfg g conn from to hp r created ws))" and "or_grant s = Some g'"
  shows "or_lastBytesSnapshot s = wrap_i64 (charged s)
    \<and> ag_BytesTransferred g' = wrap_i64 (ag_BytesTransferred g + charged s)
    \<and> ag_QueryCount g' = wrap_i64 (ag_QueryCount g + completed s)"
proof -
  let ?p = "oracle_start cfg g conn from to hp r created ws"
  have "balanced (ag_QueryCount g) (ag_BytesTransferred g) (books (ox_session ?p))"
    using assms(1,2) by (simp add: balanced_def books_simps oracle_start_def split_beta Let_def)
  then have "balanced (ag_QueryCount g) (ag_BytesTransferred g) (books s)"
    using oracle_run_keeps [of ?p D evs] unfolding assms(3) by (simp add: or_keeps_def stays_balanced_def)
  then show ?thesis by (simp add: balanced_def books_def assms(4))
qed

text \<open>A session that ends charges nothing more: the query in flight stays without completion and the bytes since the last
  completion are lost, while the sessions of the other protocols flush them.\<close>

theorem oracle_disconnect_uncharged:
  assumes "ox_c2u p \<or> ox_u2c p"
  shows "or_calls (ox_session (oracle_run D (OevEnd # evs) p)) = or_calls (ox_session p)"
proof -
  have idle: "ox_closed (oracle_step D ev q) \<and> or_calls (ox_session (oracle_step D ev q)) = or_calls (ox_session q)" if "ox_closed q" for ev q
    using that by (cases ev) (auto simp: oracle_step_def oracle_cleanup_def split_beta Let_def split: option.split)
  have "or_calls (ox_session (oracle_run D evs q)) = or_calls (ox_session q)" if "ox_closed q" for q
    using that unfolding oracle_run_def by (induction evs arbitrary: q) (simp_all add: idle)
  moreover have "ox_closed (oracle_step D OevEnd p)" "or_calls (ox_session (oracle_step D OevEnd p)) = or_calls (ox_session p)"
    using assms by (auto simp: oracle_step_def oracle_cleanup_def Let_def split: option.split)
  ultimately show ?thesis by (simp add: oracle_run_def)
qed

text \<open>C38. The execution message of the JDBC and Python drivers passes the quotas only: while they are not exhausted it reaches the
  server whatever statement it carries and whatever the controls of the grant are.\<close>

theorem oracle_jdbc_unchecked:
  assumes "\<not> ox_c2u p" and "\<not> ox_closed p" and "readTNSPacket stream = Inr (pkt, rest)" and "is_data pkt"
    and "tp_Payload pkt ! ttcDataFlagsSize = TTCFuncOFETCH" and "IsExecSQL (drop ttcDataFlagsSize (tp_Payload pkt))"
    and "oracle_checkQuotas (ox_heap p) (fst clk) (ox_session p) = None"
  shows "ox_upstream (oracle_step D (OevClient n stream clk True) p) = ox_upstream p @ [pkt]"
proof -
  define p1 where "p1 = oracle_dumpPacket 0 (tp_Raw pkt) (p\<lparr>ox_heap := snd (cc_Read (oracle_conn p) (n, None :: unit option) (ox_heap p))\<rparr>)"
  have p1: "ox_session p1 = ox_session p" "ox_upstream p1 = ox_upstream p" by (simp_all add: p1_def oracle_dumpPacket_def)
  have "Revoked (ox_heap p1) r = Revoked (ox_heap p) r" for r
    by (simp add: p1_def oracle_dumpPacket_def cc_Read_def cc_count_def Revoked_def split: option.split)
  then have "oracle_checkQuotas (ox_heap p1) (fst clk) (ox_session p1) = None" using assms(7) by (simp add: p1(1) oracle_checkQuotas_def)
  then have pass: "\<not> fst (checked_exec (\<lambda>s. (None, h s)) (fst clk) p1)" for h by (simp add: checked_exec_def)
  have "drop ttcDataFlagsSize (tp_Payload pkt) ! 0 = TTCFuncOFETCH" using assms(4,5) by (simp add: is_data_def)
  note form = intercept_exec(3) [OF assms(4) refl this assms(6), of clk p1]
  have "\<not> fst (interceptClientMessage pkt clk p1)" unfolding form by (rule pass)
  moreover have "ox_upstream (snd (interceptClientMessage pkt clk p1)) = ox_upstream p" using interceptClient_keeps(2) [of pkt clk p1] p1 by simp
  ultimately show ?thesis
    using assms by (simp add: oracle_step_def clientToUpstream_def Let_def split_beta flip: p1_def)
qed

section \<open>Witnesses\<close>

definition sample_decoders :: row_decoders where
  "sample_decoders = \<lparr>rd_QueryResultV2 = (\<lambda>_. None), rd_ContinuationRows = (\<lambda>_ _ _ _. []), rd_TTCResponse = (\<lambda>_. None), rd_Marshal = (\<lambda>_. None)\<rparr>"

definition sample_oracle :: oracle_proxy where
  "sample_oracle = oracle_start \<lparr>cfg_StoreResults = True, cfg_MaxResultRows = 1, cfg_MaxResultBytes = 0\<rparr>
     sample_grant 9 0 1 (empty_heap\<lparr>next_addr := 2\<rparr>) (Some NewRevocationRegistry) [Some 7] [(20, True)]"

definition data_packet :: "bytes \<Rightarrow> bytes" where
  "data_packet ttc = encodeTNSPacket TNSPacketTypeData ([0, 0] @ ttc)"

definition sample_oall8 :: bytes where
  "sample_oall8 = data_packet ([TTCFuncOALL8, 0, 0, 0, 0, 0, 3, 8] @ bytes_of ''SELECT 1'')"

definition sample_jdbc :: bytes where
  "sample_jdbc = data_packet ([TTCFuncOFETCH, execSubOpJDBC] @ replicate 20 0 @ bytes_of ''DELETE FROM t'' @ [0])"

definition packet_of :: "bytes \<Rightarrow> tns_packet" where
  "packet_of raw = (case readTNSPacket raw of Inr (pkt, _) \<Rightarrow> pkt | Inl _ \<Rightarrow> \<lparr>tp_Type = 0, tp_Flags = 0, tp_Length = 0, tp_Payload = [], tp_Raw = []\<rparr>)"

definition sample_call :: oracle_event where
  "sample_call = OevClient 26 sample_oall8 (5, 5, 5, 5) True"

definition called :: oracle_proxy where
  "called = oracle_run sample_decoders [sample_call] sample_oracle"

lemma called_upstream: "ox_upstream called = [packet_of sample_oall8]" "vetted_sql (packet_of sample_oall8) = Some ''SELECT 1''"
  by code_simp+

theorem oracle_statements_allowed_witness:
  "ox_upstream called = [packet_of sample_oall8] \<and> vetted_sql (packet_of sample_oall8) = Some ''SELECT 1''
   \<and> ValidateOracleQuery ''SELECT 1'' sample_grant = None"
  using oracle_statements_allowed [OF called_def [unfolded sample_oracle_def], of "packet_of sample_oall8" "''SELECT 1''"]
  by (simp add: called_upstream)

theorem oracle_statements_logged_witness:
  "forwarded_sql called = [''SELECT 1''] \<and> inserts called = [(''SELECT 1'', True)] \<and> subseq [''SELECT 1''] (logged_sql called)"
proof -
  have "forwarded_sql called = [''SELECT 1'']" "inserts called = [(''SELECT 1'', True)]" by code_simp+
  then show ?thesis using oracle_statements_logged [OF called_def [unfolded sample_oracle_def]] by simp
qed

theorem oracle_revocation_final_witness:
  "or_executed (oracle_run sample_decoders ([sample_call] @ OevRegistry (OpRevoke (ag_UID sample_grant)) # [sample_call]) sample_oracle)
   = [packet_of sample_oall8]"
proof -
  have "or_executed (oracle_run sample_decoders [sample_call] sample_oracle) = [packet_of sample_oall8]" by code_simp
  moreover have "ag_UID sample_grant \<noteq> uuid_Nil" by code_simp
  moreover have "OevRegistry x \<notin> set [sample_call]" for x by (simp add: sample_call_def)
  ultimately show ?thesis
    using oracle_revocation_final [OF bus_inv_init _ _ sample_oracle_def, of "[sample_call]" sample_decoders "[sample_call]"] by simp
qed

definition second_call :: oracle_session where
  "second_call = ox_session (oracle_run sample_decoders [sample_call, sample_call] sample_oracle)"

theorem oracle_bytes_charged_once_witness:
  "or_lastBytesSnapshot second_call = 52 \<and> charged second_call = 52 \<and> or_grant second_call = Some (sample_grant\<lparr>ag_QueryCount := 1, ag_BytesTransferred := 52\<rparr>)"
proof -
  have g: "or_grant second_call = Some (sample_grant\<lparr>ag_QueryCount := 1, ag_BytesTransferred := 52\<rparr>)" by code_simp
  moreover have "charged second_call = 52" by code_simp
  ultimately show ?thesis
    using oracle_bytes_charged_once [OF _ _ second_call_def [unfolded sample_oracle_def] g] by (simp add: sample_grant_def in_i64_def wrap_i64_def)
qed

definition hung_up :: oracle_proxy where
  "hung_up = oracle_run sample_decoders [sample_call, OevClient 0 [] (6, 6, 6, 6) True] sample_oracle"

theorem oracle_disconnect_uncharged_witness:
  "or_pending (ox_session hung_up) \<noteq> None \<and> cumulativeClientBytes (ox_heap hung_up) (ox_session hung_up) = 26
   \<and> charged (ox_session (oracle_run sample_decoders [OevEnd] hung_up)) = 0"
proof -
  have "ox_c2u hung_up \<or> ox_u2c hung_up" by code_simp
  note none = oracle_disconnect_uncharged [OF this, of sample_decoders "[]"]
  have "charged (ox_session hung_up) = 0" by code_simp
  then have "charged (ox_session (oracle_run sample_decoders [OevEnd] hung_up)) = 0" unfolding charged_def none .
  moreover have "case or_pending (ox_session hung_up) of None \<Rightarrow> False | Some _ \<Rightarrow> True" by code_simp
  moreover have "cumulativeClientBytes (ox_heap hung_up) (ox_session hung_up) = 26" by code_simp
  ultimately show ?thesis by (simp split: option.splits)
qed

theorem oracle_jdbc_unchecked_witness:
  "map_sum id o8_SQL (decodeExecSQL (drop 2 (tp_Payload (packet_of sample_jdbc)))) = Inr ''DELETE FROM t''
   \<and> ValidateOracleQuery ''DELETE FROM t'' sample_grant \<noteq> None
   \<and> ox_upstream (oracle_step sample_decoders (OevClient 47 sample_jdbc (5, 5, 5, 5) True) sample_oracle) = [packet_of sample_jdbc]"
proof -
  have r: "readTNSPacket sample_jdbc = Inr (packet_of sample_jdbc, [])" by code_simp
  have d: "is_data (packet_of sample_jdbc)" "tp_Payload (packet_of sample_jdbc) ! ttcDataFlagsSize = TTCFuncOFETCH"
    "IsExecSQL (drop ttcDataFlagsSize (tp_Payload (packet_of sample_jdbc)))" by code_simp+
  have o: "\<not> ox_c2u sample_oracle" "\<not> ox_closed sample_oracle" "ox_upstream sample_oracle = []" by code_simp+
  have q: "case oracle_checkQuotas (ox_heap sample_oracle) 5 (ox_session sample_oracle) of None \<Rightarrow> True | Some _ \<Rightarrow> False" by code_simp
  have "map_sum id o8_SQL (decodeExecSQL (drop 2 (tp_Payload (packet_of sample_jdbc)))) = Inr ''DELETE FROM t''" by code_simp
  moreover have "case ValidateOracleQuery ''DELETE FROM t'' sample_grant of None \<Rightarrow> False | Some _ \<Rightarrow> True" by code_simp
  moreover have "ox_upstream (oracle_step sample_decoders (OevClient 47 sample_jdbc (5, 5, 5, 5) True) sample_oracle) = [packet_of sample_jdbc]"
    using oracle_jdbc_unchecked [OF o(1,2) r d, of "(5, 5, 5, 5)" sample_decoders 47] q o(3) by (simp split: option.splits)
  ultimately show ?thesis by (auto split: option.splits)
qed

end
