(* ===== verification/Spec2Isabelle.thy ===== *)
theory Spec2Isabelle
  imports Api_Keys User_Authority Device_Auth Validation Auth_Cache Rate_Limiter Dump Mongo_Auth Dial Grant_Api Pg_Accounting Oracle_Session Auth_Failures
begin

text \<open>
  Verification of dbbat, a database observability proxy written in Go. Clients speak the native
  protocol of their database to the proxy; the proxy authenticates them, looks up an access
  grant, applies the grant's controls and quotas to every command, relays the traffic and logs
  the queries. An HTTP API manages users, servers, grants and grant requests; a PostgreSQL
  database stores them.

  \<^bold>\<open>Layers.\<close>
  \<open>Prelude\<close> holds byte and integer codecs, the explicit store of atomic cells and two shared
  interfaces (a decoder driven in a loop, a record that is decided once). \<open>Go_Text\<close> models
  the parts of \<open>strings\<close>, \<open>unicode\<close> and \<open>regexp\<close> that the program uses, \<open>Go_Encoding\<close> decimal
  numbers and Base64. \<open>Crypto\<close>: \<open>internal/crypto\<close>, formats and checks over a record of primitives. \<open>Models\<close> has the rows
  of \<open>internal/store/models.go\<close> with their methods.

  \<^bold>\<open>Shared proxy components.\<close>
  \<open>Validation\<close>: \<open>internal/proxy/shared/validation.go\<close>, the statement checks of all SQL dialects
  and the MongoDB command classifier. \<open>Revocation\<close>: \<open>internal/cache/revocation.go\<close>, with
  the interface a session relies on as the locale \<open>revocation_bus\<close>, interpreted on the registry, and
  what a session of any protocol gets from it as the locale \<open>revocable_session\<close>.
  \<open>Limit_Guard\<close>: \<open>internal/proxy/shared/limits.go\<close> and \<open>byte_counter.go\<close>. \<open>Auth_Cache\<close>:
  \<open>internal/cache/auth.go\<close>. \<open>Rate_Limiter\<close>: \<open>internal/api/ratelimit.go\<close>. \<open>Auth_Failures\<close>: the lock-outs of \<open>middleware.go\<close>. \<open>Dump\<close>:
  \<open>internal/dump\<close>, the session dump files over a map of files. \<open>Dial\<close>: \<open>shared/dial.go\<close>, connections through
  chains of SSH bastions over the rows of \<open>Servers\<close>.

  \<^bold>\<open>Store and API.\<close>
  \<open>Database\<close> is the model of the store: a record of tables, a statement that reads or writes it,
  a transaction (\<open>RunInTx\<close>) and a script of failures that decides which statements fail, so every
  error path of a transaction is an execution. \<open>Grant_Store\<close>: \<open>grants.go\<close>,
  \<open>grant_definitions.go\<close>, \<open>grant_requests.go\<close>; its step relation \<open>store_step\<close> is one call of any
  operation. \<open>User_Groups\<close>: \<open>user_groups.go\<close>. \<open>Query_Log\<close>:
  \<open>connections.go\<close>, \<open>queries.go\<close> and the asynchronous write of a session. \<open>Store_Users\<close>: \<open>users.go\<close>,
  \<open>user_identities.go\<close> and the locked update of \<open>mongo_scram.go\<close>. \<open>Api_Keys\<close>: \<open>api_keys.go\<close>.
  \<open>Device_Auth\<close>: \<open>device_auth.go\<close> and \<open>oauth_states.go\<close>, with the device flow as an abstract state
  machine (the locale \<open>device_flow\<close>) that the store refines. \<open>Servers\<close>: \<open>servers.go\<close> and the storage
  DSN of \<open>store.go\<close>. \<open>Grant_Api\<close>: the handlers of
  \<open>internal/api/grants.go\<close> and \<open>grant_requests.go\<close>. \<open>User_Api\<close>: the authentication and role middlewares of
  \<open>middleware.go\<close> and the handlers of \<open>users.go\<close>, \<open>auth.go\<close> and \<open>keys.go\<close> behind their routes; \<open>User_Authority\<close>: who
  can change accounts and roles through them.

  \<^bold>\<open>PostgreSQL.\<close>
  \<open>Pg_Intercept\<close>: \<open>internal/proxy/postgresql/intercept.go\<close>, the handlers of messages.
  \<open>Pg_Session\<close>: \<open>session.go\<close>; the two relay goroutines, the watchdog, other users of the
  registry and the cleanup are events on one state, and a run is any list of events, so a
  statement about all lists is a statement about all interleavings at the granularity of one
  message. \<open>Pg_Accounting\<close>: what a run charges, logs and captures.

  \<^bold>\<open>MongoDB and MySQL.\<close> \<open>Mongo_Wire\<close>: \<open>internal/proxy/mongodb/wire.go\<close>; the parsers are instances of the
  decoder interface of \<open>Prelude\<close>. \<open>Audited_Session\<close> is the state and the accounting the two proxies
  repeat, with the locale \<open>audited_session\<close> that carries the accounting once. \<open>Mongo_Session\<close>:
  \<open>intercept.go\<close>, \<open>lineage.go\<close>, \<open>result.go\<close> and the relay of \<open>session.go\<close>. \<open>Mysql_Session\<close>: \<open>intercept.go\<close>,
  \<open>result.go\<close> and the command loop of \<open>session.go\<close>; the protocol engine is a third-party package, so its
  handlers are the events. Both interpret \<open>revocable_session\<close> and \<open>audited_session\<close>.

  \<^bold>\<open>Oracle.\<close> \<open>Oracle_Wire\<close>: \<open>internal/proxy/oracle/tns.go\<close>, \<open>markers.go\<close>, \<open>ttc.go\<close>, \<open>ttc_oer.go\<close> and the decoders of
  \<open>ttc_decode.go\<close> that read statements, binds and numbers. \<open>Oracle_Session\<close>: \<open>intercept.go\<close> and the relay of \<open>session.go\<close>,
  with the cursors in an explicit store; the decoders of result rows are arguments. It interprets \<open>revocable_session\<close> too.

  \<^bold>\<open>Logins.\<close> \<open>Proxy_Auth\<close>: \<open>auth.go\<close> of the PostgreSQL and the MySQL proxy and \<open>cachingsha2.go\<close>, over the users, keys and
  cache of the store. Its relation \<open>auth_run\<close> is the life of that cache, from an empty one through any checks, cleanups
  and changes of the store; the logins are proved for every state it reaches. \<open>Mongo_Auth\<close>: \<open>auth.go\<close>, \<open>scram_server.go\<close>, \<open>hello.go\<close> and the loop of \<open>session.go\<close>
  that answers a MongoDB client until it has logged in.

  \<^bold>\<open>What is shown.\<close>
  No statement that the checks of a control recognise reaches the upstream server or the log (for Oracle: in the messages
  the decoders read, the JDBC form apart); a revocation stops every session
  that has registered its grant and hides the grant from every later lookup; requests are decided once and approved all or
  nothing, with the controls, quotas and duration of the definition, within their scope; the tables stay consistent and the
  columns for server secrets hold ciphertext bound to their row; bytes are charged once and quotas hold
  to the byte; whoever gets a session holds an active grant on the target and has shown a credential of that live user: a key of
  its own, or a password that verifies against the stored hash or, through the cache, against an earlier one the cache's keys cannot
  tell from it; a key authenticates only its owner, until it expires or is revoked; accounts and
  roles change through the API only for administrators, of whom one remains; the device flow
  delivers a key once per approval when polls do not overlap; chains of bastions have no
  cycle and keep the host key they were first seen with; captures, caches, dumps and decompression stay within their bounds; the parsers
  accept exactly their format and the codecs round-trip; rate limits hold over every window, and lock-outs bound guesses that do not overlap.
  Where the code departs from its comments or fails, the theorem states the failing behaviour.

  \<^bold>\<open>Conventions.\<close>
  A clock reading, a generated identifier and the outcome of each read, write and statement are
  arguments. A failing or panicking Go operation is a value of a sum or option type. Third-party
  code (\<open>pgproto3\<close>, BSON, zlib, Argon2) is a parameter with named hypotheses. Loops are
  structural recursions or functions with a measure; the startup negotiation recurses on its
  three rounds. One loop runs on fuel: the packets of \<open>Dump.anonymise_loop\<close>, with one unit for every byte of the file; each
  packet takes a frame of bytes, and a lemma shows that the fuel is not used up.

  \<^bold>\<open>Concurrency.\<close>
  Relay goroutines and watchdogs are events of one run, one message at a time. Calls of the store, the API handlers, the
  login tracker, device polls and dials run one after another in the theorems about sequences of them; where the program's
  own statements can overlap and break a property, a separate theorem shows the overlapping execution (device polls,
  bastion updates, salts and verifiers of a user, login guesses). Not modelled: two first dials of one
  bastion at the same time, row updates between the dials of one chain, and the removal of a rate window between its
  lookup and its use.

  \<^bold>\<open>Not modelled.\<close>
  Listeners, TLS, configuration and the command line are input and output or wiring. The login of an Oracle client replays
  captured packets of particular drivers.
  The remaining components are listed in the manifest with their reasons.
\<close>

section \<open>From the revocation handler to the running sessions\<close>

lemma handleRevokeGrant_Success:
  assumes "handleRevokeGrant (Some uid) u now s = (Success m, s')"
  obtains st where "RevokeGrant uid (usr_UID u) now (as_db s) = (Inr (), st)"
    and "db_grants (as_db s') = db_grants st"
    and "as_heap s' = snd (bus_revoke (as_registry s, as_heap s) uid)"
proof -
  obtain res s1 where w: "with_db (RevokeGrant uid (usr_UID u) now) s = (res, s1)" by fastforce
  then have r: "RevokeGrant uid (usr_UID u) now (as_db s) = (res, as_db s1)" "as_registry s1 = as_registry s"
    "as_heap s1 = as_heap s" by (auto simp: with_db_def split: prod.splits)
  from assms w have "\<exists>x. res = Inr x"
    by (auto simp: handleRevokeGrant_def writeInternalError_def split: sum.splits prod.splits)
  then have res: "res = Inr ()" by simp
  define s2 where "s2 = s1\<lparr>as_heap := snd (Revoke (as_registry s1) uid (as_heap s1))\<rparr>"
  obtain grant s3 where g: "with_db (GetGrantByUID uid) s2 = (grant, s3)" by fastforce
  have s': "s' = audit ''grant.revoked'' (map_option ag_UserID (right grant)) (Some (usr_UID u))
      [(''grant_uid'', DUUID uid)] now s3"
    using assms w g by (simp add: handleRevokeGrant_def res s2_def)
  have "same_tables (as_db s2) (as_db s3)"
    using g GetGrantByUID_same [of "as_db s2" "as_db s2" uid] by (simp add: with_db_eq)
  then have "db_grants (as_db s') = db_grants (as_db s1)"
    using audit_effect(1) [of s3] unfolding s' by (simp add: same_grants_requests_def same_tables_select s2_def)
  moreover have "as_heap s' = snd (bus_revoke (as_registry s, as_heap s) uid)"
  proof -
    have "as_heap s3 = as_heap s2" using g by (auto simp: with_db_def split: prod.splits)
    then show ?thesis using r by (simp add: s' audit_effect s2_def bus_revoke_def)
  qed
  ultimately show ?thesis using that r res by simp
qed

lemma revoked_grant_dead:
  assumes "grant_dead st uid" and "store_step\<^sup>*\<^sup>* st st2" and "GetActiveGrant u d t st2 = (Inr g, st3)"
  shows "ag_UID g \<noteq> uid"
proof -
  have "grant_dead st2 uid" using run_dead [OF assms(2,1)] .
  moreover obtain g0 where "g0 \<in> set (db_grants st2)" "grant_active t g0" "ag_UID g = ag_UID g0"
    using assms(3) by (rule GetActiveGrant_Inr) auto
  ultimately show ?thesis by (auto simp: grant_dead_def grant_active_def)
qed

text \<open>C2. A successful revocation through the API stops the sessions that are registered under the grant and hides the grant
  from later logins. A PostgreSQL session that registered with the revocation registry before the revocation, whatever it has
  done since, forwards no query and no execution from then on; and no lookup of an active grant that runs after the
  revocation, whatever the store does in between, returns the revoked one. (A session that looked the grant up before the
  revocation and registers only after it is covered by neither part; it is not signalled.)\<close>

theorem revocation_end_to_end:
  assumes "handleRevokeGrant (Some uid) admin now s = (Success m, s')" and "store_inv (as_db s)"
    and "bus_inv (r, hp)" and "ag_UID (ss_grant sess) = uid" and "uid \<noteq> uuid_Nil"
    and "EvRegistry (OpDeregister uid (next_addr hp)) \<notin> set before"
    and "p = run L before (proxyMessages sess hp r ws)"
    and "px_registry p = as_registry s" and "px_heap p = as_heap s"
  shows "filter executes (px_upstream (run L evs (p\<lparr>px_heap := as_heap s'\<rparr>))) = filter executes (px_upstream p)
    \<and> (\<forall>st2 u d t g st3. store_step\<^sup>*\<^sup>* (as_db s') st2 \<longrightarrow> GetActiveGrant u d t st2 = (Inr g, st3) \<longrightarrow> ag_UID g \<noteq> uid)"
proof -
  obtain st where st: "RevokeGrant uid (usr_UID admin) now (as_db s) = (Inr (), st)"
    "db_grants (as_db s') = db_grants st" and heap: "as_heap s' = snd (bus_revoke (bus_of p) uid)"
    using handleRevokeGrant_Success [OF assms(1)] assms(8,9) by (auto simp: bus_of_def)
  have "pg_relay.attached uid (next_addr hp) p"
    using pg_relay.attached_run [OF pg_attached [OF assms(3), of sess ws]] assms(4-6) unfolding assms(7) run_def by simp
  then have "pg_relay.cut (next_addr hp) (p\<lparr>px_heap := as_heap s'\<rparr>)"
    using pg_relay.revoke_flag [of "bus_of p" uid "next_addr hp"] heap
    by (auto simp: pg_relay.attached_def pg_relay.cut_def bus_of_def pg_over_def)
  from pg_relay.cut_run [OF this, of L evs]
  have "filter executes (px_upstream (run L evs (p\<lparr>px_heap := as_heap s'\<rparr>))) = filter executes (px_upstream p)"
    by (simp add: pg_executed_def run_def)
  moreover have "grant_dead (as_db s') uid"
    using RevokeGrant_dead [OF st(1) assms(2)] st(2) by (simp add: grant_dead_def grant_ids_def)
  ultimately show ?thesis using revoked_grant_dead by blast
qed

definition live_session :: "session \<times> heap" where
  "live_session = NewSession sample_storage (pg_grant\<lparr>ag_UID := 5\<rparr>) 9 empty_heap"

definition live_proxy :: proxy where
  "live_proxy = proxyMessages (fst live_session) (snd live_session) (Some NewRevocationRegistry) sample_outcomes"

definition live_api :: api_state where
  "live_api = \<lparr>as_db = sample_approved, as_registry = px_registry live_proxy, as_heap = px_heap live_proxy,
     as_notifier = False, as_notified = []\<rparr>"

theorem revocation_end_to_end_witness:
  "filter executes (px_upstream (run sample_lib [EvClient 14 (CQuery ''SELECT 2'') 6 True]
     (live_proxy\<lparr>px_heap := as_heap (snd (handleRevokeGrant (Some 5) sample_user 9 live_api))\<rparr>))) = []"
proof -
  let ?s' = "snd (handleRevokeGrant (Some 5) sample_user 9 live_api)"
  have "fst (handleRevokeGrant (Some 5) sample_user 9 live_api) = Success (PMessage ''grant revoked'')"
    by code_simp
  then have h: "handleRevokeGrant (Some 5) sample_user 9 live_api = (Success (PMessage ''grant revoked''), ?s')"
    by (metis prod.collapse)
  have inv: "store_inv (as_db live_api)"
    using step_inv [OF sample_steps(1) sample_inv] by (simp add: live_api_def)
  have g: "ag_UID (ss_grant (fst live_session)) = 5"
    by (simp add: live_session_def NewSession_def NewInt_def pg_grant_def)
  have "px_upstream live_proxy = []" by (simp add: live_proxy_def proxyMessages_def Let_def split_beta)
  moreover have "px_registry live_proxy = as_registry live_api" "px_heap live_proxy = as_heap live_api"
    by (simp_all add: live_api_def)
  moreover have "live_proxy = run sample_lib []
      (proxyMessages (fst live_session) (snd live_session) (Some NewRevocationRegistry) sample_outcomes)"
    by (simp add: live_proxy_def)
  ultimately show ?thesis
    using revocation_end_to_end [OF h inv bus_inv_init g, where before = "[]" and p = live_proxy and L = sample_lib
        and hp = "snd live_session" and ws = sample_outcomes
        and evs = "[EvClient 14 (CQuery ''SELECT 2'') 6 True]"]
    by (simp del: run_simps)
qed

end
